(* ===== verification/Prelude.thy ===== *)
theory Prelude
  imports Main "HOL-Library.Word" "HOL-Library.Monad_Syntax"
begin

text \<open>
  Shared vocabulary of the development: the machine integers of the C sources (an LP64,
  little-endian Linux target: \<open>unsigned long\<close> has 64 bits, \<open>int\<close> 32), byte strings and their
  big-endian and little-endian readings, bounds-checked reads and writes of byte buffers, and
  singly linked chains over a partial heap.

  A C operation that may have undefined behaviour (a NULL or dangling pointer, an access outside
  a buffer) or may not return is modelled in the option monad: \<open>None\<close> stands for both, so that a
  theorem with conclusion \<open>Some \<dots>\<close> states memory safety and termination at once.
\<close>

unbundle bit_operations_syntax

type_synonym u8 = "8 word"
type_synonym u16 = "16 word"
type_synonym u32 = "32 word"
type_synonym u64 = "64 word"
type_synonym bytes = "8 word list"
type_synonym addr = nat

abbreviation (input) NULL :: addr where "NULL \<equiv> 0"

named_theorems byte_simps \<open>rewrite rules for byte strings and integer layouts\<close>
named_theorems chain_simps \<open>rewrite rules for linked chains\<close>

subsection \<open>Byte strings\<close>

text \<open>The value of a byte string read most significant byte first, and the \<open>n\<close> bytes of a value.\<close>

definition be_val :: "bytes \<Rightarrow> nat" where
  "be_val bs = foldl (\<lambda>v b. 256 * v + unat b) 0 bs"

fun be_bytes :: "nat \<Rightarrow> nat \<Rightarrow> bytes" where
  "be_bytes 0 x = []"
| "be_bytes (Suc n) x = be_bytes n (x div 256) @ [of_nat (x mod 256)]"

definition le_val :: "bytes \<Rightarrow> nat" where
  "le_val bs = be_val (rev bs)"

definition le_bytes :: "nat \<Rightarrow> nat \<Rightarrow> bytes" where
  "le_bytes n x = rev (be_bytes n x)"

lemma be_val_Nil [simp]: "be_val [] = 0"
  by (simp add: be_val_def)

lemma be_val_snoc [simp]: "be_val (bs @ [b]) = 256 * be_val bs + unat b"
  by (simp add: be_val_def)

lemma unat_u8_less [simp]: "unat (b :: u8) < 256"
  using unsigned_less [of b, where ?'a = nat] by simp

lemma length_be_bytes [simp, byte_simps]: "length (be_bytes n x) = n"
  by (induction n arbitrary: x) auto

lemma be_bytes_numeral [byte_simps]:
  "be_bytes (numeral k) x = be_bytes (pred_numeral k) (x div 256) @ [of_nat (x mod 256)]"
  by (simp only: numeral_eq_Suc [of k] be_bytes.simps)

lemma length_le_bytes [simp, byte_simps]: "length (le_bytes n x) = n"
  by (simp add: le_bytes_def)

lemma unat_of_nat_u8: "unat (of_nat (x mod 256) :: u8) = x mod 256"
  by (simp add: unat_of_nat take_bit_eq_mod)

lemma be_val_be_bytes [byte_simps]: "be_val (be_bytes n x) = x mod 256 ^ n"
proof (induction n arbitrary: x)
  case 0
  then show ?case by simp
next
  case (Suc n)
  have "be_val (be_bytes (Suc n) x) = 256 * ((x div 256) mod 256 ^ n) + x mod 256"
    by (simp add: Suc unat_of_nat_u8 del: of_nat_mod)
  also have "\<dots> = x mod 256 ^ Suc n"
    by (simp add: mod_mult2_eq)
  finally show ?case .
qed

lemma be_val_less: "be_val bs < 256 ^ length bs"
proof (induction bs rule: rev_induct)
  case Nil
  then show ?case by simp
next
  case (snoc b bs)
  have "256 * be_val bs + 256 \<le> 256 * 256 ^ length bs"
    using snoc by (simp add: Suc_leI flip: mult_Suc_right)
  then have "256 * be_val bs + unat b < 256 * 256 ^ length bs"
    using unat_u8_less [of b] by linarith
  then show ?case by simp
qed

lemma be_bytes_be_val [byte_simps]: "be_bytes (length bs) (be_val bs) = bs"
proof (induction bs rule: rev_induct)
  case Nil
  then show ?case by simp
next
  case (snoc b bs)
  have "(256 * be_val bs + unat b) div 256 = be_val bs" "(256 * be_val bs + unat b) mod 256 = unat b"
    using unat_u8_less [of b] by auto
  then show ?case using snoc by simp
qed

lemma le_val_le_bytes [byte_simps]: "le_val (le_bytes n x) = x mod 256 ^ n"
  by (simp add: le_val_def le_bytes_def be_val_be_bytes)

lemma le_val_less: "le_val bs < 256 ^ length bs"
  using be_val_less [of "rev bs"] by (simp add: le_val_def)

lemma unat_u32_less: "unat (w :: u32) < 4294967296"
  using unsigned_less [of w, where ?'a = nat] by simp

lemma unat_u16_less: "unat (w :: u16) < 65536"
  using unsigned_less [of w, where ?'a = nat] by simp

lemma unat_u32_u64 [simp]: "unat (ucast (w :: u32) :: u64) = unat w"
  using unat_u32_less [of w] by (simp add: unsigned_ucast_eq take_bit_eq_mod)

lemma unat_u16_u32 [simp]: "unat (ucast (w :: u16) :: u32) = unat w"
  using unat_u16_less [of w] by (simp add: unsigned_ucast_eq take_bit_eq_mod)

lemma unat_u16_u64 [simp]: "unat (ucast (w :: u16) :: u64) = unat w"
  using unat_u16_less [of w] by (simp add: unsigned_ucast_eq take_bit_eq_mod)

lemma unat_u8_u32 [simp]: "unat (ucast (b :: u8) :: u32) = unat b"
  using less_trans [OF unat_u8_less [of b], of 4294967296]
  by (simp add: unsigned_ucast_eq take_bit_eq_mod)

lemma u32_u64_u32 [simp]: "ucast (ucast (w :: u32) :: u64) = w"
  by (rule bit_word_eqI) (simp add: bit_simps)

text \<open>The byte order conversions of the little-endian target: \<open>htonl\<close>, \<open>ntohl\<close>, \<open>htons\<close>, \<open>ntohs\<close>.\<close>

definition bswap32 :: "u32 \<Rightarrow> u32" where
  "bswap32 w = of_nat (le_val (be_bytes 4 (unat w)))"

definition bswap16 :: "u16 \<Rightarrow> u16" where
  "bswap16 w = of_nat (le_val (be_bytes 2 (unat w)))"

lemma bswap32_be [byte_simps]:
  assumes "length bs = 4"
  shows "bswap32 (of_nat (be_val bs)) = of_nat (le_val bs)"
proof -
  have "be_val bs < 2 ^ 32" using be_val_less [of bs] assms by simp
  then have "unat (of_nat (be_val bs) :: u32) = be_val bs"
    by (simp add: unat_of_nat take_bit_eq_mod)
  then show ?thesis
    using be_bytes_be_val [of bs] assms by (simp add: bswap32_def)
qed

lemma bswap32_bswap32 [simp]: "bswap32 (bswap32 w) = w"
proof -
  define bs where "bs = be_bytes 4 (unat w)"
  have len: "length (rev bs) = 4" by (simp add: bs_def)
  have w: "be_val bs = unat w"
    using unsigned_less [of w, where ?'a = nat] by (simp add: bs_def be_val_be_bytes)
  have "bswap32 w = of_nat (be_val (rev bs))" by (simp add: bswap32_def bs_def le_val_def)
  then have "bswap32 (bswap32 w) = of_nat (le_val (rev bs))" using bswap32_be [OF len] by simp
  then show ?thesis by (simp add: le_val_def w)
qed

subsection \<open>Bounds-checked buffer accesses\<close>

text \<open>\<open>rd b off n\<close> reads \<open>n\<close> bytes of the buffer \<open>b\<close> from offset \<open>off\<close>, and \<open>wr b off d\<close> is
  \<^verbatim>\<open>memcpy(b + off, d, |d|)\<close>; both are undefined outside the buffer.\<close>

definition rd :: "bytes \<Rightarrow> nat \<Rightarrow> nat \<Rightarrow> bytes option" where
  "rd b off n = (if off + n \<le> length b then Some (take n (drop off b)) else None)"

definition wr :: "bytes \<Rightarrow> nat \<Rightarrow> bytes \<Rightarrow> bytes option" where
  "wr b off d = (if off + length d \<le> length b
                 then Some (take off b @ d @ drop (off + length d) b) else None)"

lemma rd_Some_iff [simp]:
  "rd b off n = Some d \<longleftrightarrow> off + n \<le> length b \<and> d = take n (drop off b)"
  by (auto simp: rd_def)

lemma wr_Some_iff:
  "wr b off d = Some b' \<longleftrightarrow> off + length d \<le> length b
     \<and> b' = take off b @ d @ drop (off + length d) b"
  by (auto simp: wr_def)

lemma length_wr: "wr b off d = Some b' \<Longrightarrow> length b' = length b"
  by (auto simp: wr_Some_iff)

lemma rd_wr_same: "wr b off d = Some b' \<Longrightarrow> rd b' off (length d) = Some d"
  by (auto simp: wr_Some_iff)

lemma rd_wr_before:
  assumes "wr b off d = Some b'" and "o' + n \<le> off"
  shows "rd b' o' n = rd b o' n"
proof -
  have "off \<le> length b" using assms(1) by (auto simp: wr_Some_iff)
  moreover have "take n (drop o' (take off b)) = take n (drop o' b)"
    using assms(2) by (simp add: drop_take min_def)
  ultimately show ?thesis using assms by (auto simp: wr_Some_iff rd_def)
qed

subsection \<open>Linked chains\<close>

text \<open>\<open>chain nx p as\<close>: following the partial successor function \<open>nx\<close> (undefined at unallocated
  addresses) from \<open>p\<close> visits exactly the addresses \<open>as\<close> and ends at NULL.\<close>

fun chain :: "(addr \<rightharpoonup> addr) \<Rightarrow> addr \<Rightarrow> addr list \<Rightarrow> bool" where
  "chain nx p [] = (p = NULL)"
| "chain nx p (a # as) = (p = a \<and> a \<noteq> NULL \<and>
     (case nx a of None \<Rightarrow> False | Some q \<Rightarrow> chain nx q as))"

lemma chain_NULL [simp, chain_simps]: "chain nx NULL as \<longleftrightarrow> as = []"
  by (cases as) auto

lemma chain_unique: "chain nx p as \<Longrightarrow> chain nx p bs \<Longrightarrow> as = bs"
proof (induction as arbitrary: p bs)
  case Nil
  then show ?case by simp
next
  case (Cons a as)
  then obtain q where q: "nx a = Some q" "chain nx q as" "p = a" "a \<noteq> NULL"
    by (auto split: option.splits)
  with Cons.prems obtain bs' where "bs = a # bs'" "chain nx q bs'" by (cases bs) auto
  with Cons.IH q show ?case by auto
qed

lemma chain_append:
  "chain nx p (as @ b # bs) \<Longrightarrow> \<exists>q. nx b = Some q \<and> chain nx q bs"
  by (induction as arbitrary: p) (auto split: option.splits)

lemma chain_suffix: "chain nx p (as @ b # bs) \<Longrightarrow> chain nx b (b # bs)"
proof (induction as arbitrary: p)
  case (Cons a as)
  then obtain q where "chain nx q (as @ b # bs)" by (auto split: option.splits)
  then show ?case by (rule Cons.IH)
qed simp

lemma chain_distinct: "chain nx p as \<Longrightarrow> distinct as"
proof (induction as arbitrary: p)
  case Nil
  then show ?case by simp
next
  case (Cons a as)
  then obtain q where q: "nx a = Some q" "chain nx q as" by (auto split: option.splits)
  have "a \<notin> set as"
  proof
    assume "a \<in> set as"
    then obtain xs ys where as: "as = xs @ a # ys" by (auto simp: in_set_conv_decomp)
    with q(2) obtain q' where "nx a = Some q'" "chain nx q' ys"
      using chain_append [of nx q xs a ys] by auto
    with q have "ys = as" using chain_unique by auto
    with as show False by simp
  qed
  with Cons.IH q show ?case by auto
qed

lemma chain_not_NULL: "chain nx p as \<Longrightarrow> NULL \<notin> set as"
  by (induction as arbitrary: p) (auto split: option.splits)

lemma chain_dom: "chain nx p as \<Longrightarrow> set as \<subseteq> dom nx"
  by (induction as arbitrary: p) (auto split: option.splits)

lemma chain_cong:
  "(\<And>a. a \<in> set as \<Longrightarrow> nx a = nx' a) \<Longrightarrow> chain nx p as \<longleftrightarrow> chain nx' p as"
  by (induction as arbitrary: p) (auto split: option.splits)

lemma chain_upd [chain_simps]: "a \<notin> set as \<Longrightarrow> chain (nx(a := v)) p as \<longleftrightarrow> chain nx p as"
  by (rule chain_cong) auto

lemma chain_upd_if [chain_simps]:
  "a \<notin> set as \<Longrightarrow> chain (\<lambda>x. if x = a then v else nx x) p as \<longleftrightarrow> chain nx p as"
  by (rule chain_cong) auto

lemma chain_Cons_intro:
  "a \<noteq> NULL \<Longrightarrow> a \<notin> set as \<Longrightarrow> chain nx p as \<Longrightarrow> chain (nx(a \<mapsto> p)) a (a # as)"
  by (simp add: chain_simps)

lemma chain_snoc:
  assumes "chain nx p (as @ [b])" "a \<noteq> NULL" "a \<notin> set as" "a \<noteq> b"
  shows "chain (nx(b \<mapsto> a, a \<mapsto> NULL)) p (as @ [b, a])"
  using assms
proof (induction as arbitrary: p)
  case Nil
  then show ?case by (auto split: option.splits)
next
  case (Cons c cs)
  have "distinct (c # cs @ [b])" using Cons.prems(1) chain_distinct by fastforce
  with Cons show ?case by (auto split: option.splits)
qed

text \<open>A length that fits 16 bits survives the conversion to a machine word.\<close>

lemma unat_of_nat_u16: "n < 65536 \<Longrightarrow> unat (of_nat n :: u16) = n"
  by (simp add: unat_of_nat take_bit_eq_mod)

text \<open>Taking a node out of a chain: redirect its predecessor, or the list head, to its successor.\<close>

lemma chain_unlink:
  assumes "chain nx p (as @ c # b # bs)"
  shows "chain (nx(c := nx b)) p (as @ c # bs)"
  using assms
proof (induction as arbitrary: p)
  case Nil
  then obtain q where "nx c = Some b" "nx b = Some q" "chain nx q bs" "p = c" "c \<noteq> NULL"
    by (auto split: option.splits)
  moreover have "distinct (c # b # bs)" using Nil chain_distinct by fastforce
  ultimately show ?case by (simp add: chain_simps)
next
  case (Cons a as)
  have "distinct ((a # as) @ c # b # bs)" using Cons.prems chain_distinct by blast
  with Cons show ?case by (auto split: option.splits)
qed

end
