(* ===== verification/Rpc_Heap.thy ===== *)
theory Rpc_Heap
  imports Prelude
begin

text \<open>
  The memory of the RPC runtime: the structs of \<^verbatim>\<open>endpoint.h\<close>, \<^verbatim>\<open>crecord.h\<close>, \<^verbatim>\<open>stable.h\<close> and
  \<^verbatim>\<open>tslist.c\<close>, a heap with one partial map per struct type, and the allocator of \<^verbatim>\<open>mem.c\<close>.

  A byte buffer has a single owner in the code (it is freed or handed over by the pointer that
  holds it), so it is a value: \<open>None\<close> for a NULL pointer, \<open>Some\<close> of its bytes otherwise.
  \<^verbatim>\<open>malloc\<close> may fail at any call and leaves the block it returns uninitialised: \<open>oom k\<close> says
  whether the \<open>k\<close>-th call fails, \<open>junk k i\<close> is byte \<open>i\<close> of the block of the \<open>k\<close>-th call, and
  \<open>pthread_err k\<close> says whether the initialisation of the mutex or condition variable in that
  block fails. All three are arbitrary.
\<close>

subsection \<open>Structs\<close>

record sockaddr_in =
  sin_family :: u16
  sin_port :: u16
  sin_addr :: u32
  sin_zero :: u64

record rpc_endpoint =
  ep_addr :: sockaddr_in
  ep_subport :: u64

record c_record =
  cr_next :: addr
  cr_link :: addr
  cr_seqno :: u64
  cr_state :: u64
  cr_ep :: addr
  cr_svc :: addr
  cr_pl :: "bytes option"
  cr_resp :: "bytes option"
  cr_size :: u32
  cr_nattempts :: u16
  cr_ticks :: u16
  cr_ticksLeft :: u16
  cr_pingsTilPurge :: u16
  cr_ticksTilPing :: u16
  cr_lastFrag :: u8

record s_record =
  s_next :: addr
  s_name :: "bytes option"
  s_queue :: addr

record element =
  el_next :: addr
  el_addr :: addr
  el_data :: "bytes option"
  el_size :: u32

record listhead =
  lh_head :: addr
  lh_tail :: addr
  lh_count :: u64

subsection \<open>Heap and allocator\<close>

record heap =
  h_ep :: "addr \<rightharpoonup> rpc_endpoint"
  h_cr :: "addr \<rightharpoonup> c_record"
  h_sr :: "addr \<rightharpoonup> s_record"
  h_el :: "addr \<rightharpoonup> element"
  h_lh :: "addr \<rightharpoonup> listhead"
  nalloc :: nat
  oom :: "nat \<Rightarrow> bool"
  junk :: "nat \<Rightarrow> nat \<Rightarrow> u8"
  pthread_err :: "nat \<Rightarrow> bool"

text \<open>The \<open>k\<close>-th successful allocation of a struct has address \<open>k + 1\<close>.\<close>

definition mem_alloc :: "'a heap_scheme \<Rightarrow> addr \<times> 'a heap_scheme" where
  "mem_alloc s = (if oom s (nalloc s) then NULL else Suc (nalloc s), s\<lparr>nalloc := Suc (nalloc s)\<rparr>)"

definition mem_alloc_buf :: "nat \<Rightarrow> 'a heap_scheme \<Rightarrow> bytes option \<times> 'a heap_scheme" where
  "mem_alloc_buf n s =
     (if oom s (nalloc s) then None else Some (map (junk s (nalloc s)) [0..<n]),
      s\<lparr>nalloc := Suc (nalloc s)\<rparr>)"

text \<open>\<^verbatim>\<open>str_dupl\<close>: a C string is modelled by its bytes before the terminator.\<close>

definition str_dupl :: "bytes \<Rightarrow> 'a heap_scheme \<Rightarrow> bytes option \<times> 'a heap_scheme" where
  "str_dupl str s =
     (let n = length str + 1; (p, s) = mem_alloc_buf n s in (map_option (\<lambda>_. str) p, s))"

text \<open>Freeing: \<^verbatim>\<open>mem_free\<close> ignores NULL; freeing an address that is not allocated is undefined.\<close>

definition mem_free_ep :: "addr \<Rightarrow> 'a heap_scheme \<Rightarrow> 'a heap_scheme option" where
  "mem_free_ep p s = (if p = NULL then Some s else
     (case h_ep s p of None \<Rightarrow> None | Some _ \<Rightarrow> Some (s\<lparr>h_ep := (h_ep s)(p := None)\<rparr>)))"

definition mem_free_cr :: "addr \<Rightarrow> 'a heap_scheme \<Rightarrow> 'a heap_scheme option" where
  "mem_free_cr p s = (if p = NULL then Some s else
     (case h_cr s p of None \<Rightarrow> None | Some _ \<Rightarrow> Some (s\<lparr>h_cr := (h_cr s)(p := None)\<rparr>)))"

definition mem_free_sr :: "addr \<Rightarrow> 'a heap_scheme \<Rightarrow> 'a heap_scheme option" where
  "mem_free_sr p s = (if p = NULL then Some s else
     (case h_sr s p of None \<Rightarrow> None | Some _ \<Rightarrow> Some (s\<lparr>h_sr := (h_sr s)(p := None)\<rparr>)))"

definition mem_free_el :: "addr \<Rightarrow> 'a heap_scheme \<Rightarrow> 'a heap_scheme option" where
  "mem_free_el p s = (if p = NULL then Some s else
     (case h_el s p of None \<Rightarrow> None | Some _ \<Rightarrow> Some (s\<lparr>h_el := (h_el s)(p := None)\<rparr>)))"

definition mem_free_lh :: "addr \<Rightarrow> 'a heap_scheme \<Rightarrow> 'a heap_scheme option" where
  "mem_free_lh p s = (if p = NULL then Some s else
     (case h_lh s p of None \<Rightarrow> None | Some _ \<Rightarrow> Some (s\<lparr>h_lh := (h_lh s)(p := None)\<rparr>)))"

lemmas mem_free_defs = mem_free_ep_def mem_free_cr_def mem_free_sr_def mem_free_el_def mem_free_lh_def

text \<open>Every allocated address was handed out by the allocator: it is not NULL and the next
  address is fresh.\<close>

definition heap_ok :: "'a heap_scheme \<Rightarrow> bool" where
  "heap_ok s \<longleftrightarrow> dom (h_ep s) \<union> dom (h_cr s) \<union> dom (h_sr s) \<union> dom (h_el s) \<union> dom (h_lh s)
     \<subseteq> {0<..nalloc s}"

text \<open>Two heaps that differ in nothing the data structures depend on.\<close>

definition same_structs :: "'a heap_scheme \<Rightarrow> 'a heap_scheme \<Rightarrow> bool" where
  "same_structs s t \<longleftrightarrow> h_ep s = h_ep t \<and> h_cr s = h_cr t \<and> h_sr s = h_sr t \<and> h_el s = h_el t
     \<and> h_lh s = h_lh t"

lemma heap_ok_range:
  assumes "heap_ok s"
  shows "h_ep s p = Some e \<Longrightarrow> p \<in> {0<..nalloc s}" "h_cr s p = Some c \<Longrightarrow> p \<in> {0<..nalloc s}"
    "h_sr s p = Some r \<Longrightarrow> p \<in> {0<..nalloc s}" "h_el s p = Some x \<Longrightarrow> p \<in> {0<..nalloc s}"
    "h_lh s p = Some l \<Longrightarrow> p \<in> {0<..nalloc s}"
  using assms by (auto simp: heap_ok_def)

lemma heap_ok_fresh [simp]:
  assumes "heap_ok s"
  shows "h_ep s (Suc (nalloc s)) = None" "h_cr s (Suc (nalloc s)) = None"
    "h_sr s (Suc (nalloc s)) = None" "h_el s (Suc (nalloc s)) = None" "h_lh s (Suc (nalloc s)) = None"
  using heap_ok_range [OF assms, of "Suc (nalloc s)"] by force+

lemma heap_ok_upd [intro]:
  assumes "heap_ok s" "p \<in> {0<..nalloc s}"
  shows "heap_ok (s\<lparr>h_ep := (h_ep s)(p \<mapsto> e)\<rparr>)" "heap_ok (s\<lparr>h_cr := (h_cr s)(p \<mapsto> c)\<rparr>)"
    "heap_ok (s\<lparr>h_sr := (h_sr s)(p \<mapsto> r)\<rparr>)" "heap_ok (s\<lparr>h_el := (h_el s)(p \<mapsto> x)\<rparr>)"
    "heap_ok (s\<lparr>h_lh := (h_lh s)(p \<mapsto> l)\<rparr>)"
  using assms by (auto simp: heap_ok_def)

lemma heap_ok_del [intro]:
  assumes "heap_ok s"
  shows "heap_ok (s\<lparr>h_ep := (h_ep s)(p := None)\<rparr>)" "heap_ok (s\<lparr>h_cr := (h_cr s)(p := None)\<rparr>)"
    "heap_ok (s\<lparr>h_sr := (h_sr s)(p := None)\<rparr>)" "heap_ok (s\<lparr>h_el := (h_el s)(p := None)\<rparr>)"
    "heap_ok (s\<lparr>h_lh := (h_lh s)(p := None)\<rparr>)"
  using assms by (auto simp: heap_ok_def)

lemma heap_ok_nalloc [intro]: "heap_ok s \<Longrightarrow> heap_ok (s\<lparr>nalloc := Suc (nalloc s)\<rparr>)"
  by (fastforce simp: heap_ok_def)

lemma mem_alloc_fresh:
  assumes "heap_ok s" "mem_alloc s = (p, t)" "p \<noteq> NULL"
  shows "h_ep s p = None" "h_cr s p = None" "h_sr s p = None" "h_el s p = None" "h_lh s p = None"
  using assms by (auto simp: heap_ok_def mem_alloc_def split: if_splits)

lemma mem_alloc_frame:
  "mem_alloc s = (p, t) \<Longrightarrow> t = s\<lparr>nalloc := Suc (nalloc s)\<rparr>"
  by (simp add: mem_alloc_def)

lemma mem_alloc_heap_ok: "heap_ok s \<Longrightarrow> mem_alloc s = (p, t) \<Longrightarrow> heap_ok t"
  by (fastforce simp: heap_ok_def mem_alloc_def)

lemma mem_alloc_in_range: "mem_alloc s = (p, t) \<Longrightarrow> p \<noteq> NULL \<Longrightarrow> p \<in> {0<..nalloc t}"
  by (auto simp: mem_alloc_def split: if_splits)

lemma mem_alloc_buf_length: "mem_alloc_buf n s = (Some b, t) \<Longrightarrow> length b = n"
  by (auto simp: mem_alloc_buf_def split: if_splits)

end
