(* ===== verification/Endpoint.thy ===== *)
theory Endpoint
  imports Rpc_Heap
begin

text \<open>
  \<^verbatim>\<open>endpoint.c\<close>: construction, comparison and hashing of RPC endpoints (a socket address and a
  subport). The comparison is the one the code makes: \<^verbatim>\<open>endpoint_equal\<close> passes \<^verbatim>\<open>&(ep1->addr)\<close>
  twice to \<^verbatim>\<open>memeq\<close>, so only the subports decide.
\<close>

subsection \<open>Operations\<close>

text \<open>The 16 bytes of a \<^verbatim>\<open>struct sockaddr_in\<close> in memory.\<close>

definition sockaddr_bytes :: "sockaddr_in \<Rightarrow> bytes" where
  "sockaddr_bytes a = le_bytes 2 (unat (sin_family a)) @ le_bytes 2 (unat (sin_port a))
     @ le_bytes 4 (unat (sin_addr a)) @ le_bytes 8 (unat (sin_zero a))"

fun memeq :: "bytes \<Rightarrow> bytes \<Rightarrow> nat \<Rightarrow> bool option" where
  "memeq s t 0 = Some True"
| "memeq (x # s) (y # t) (Suc n) = (if x \<noteq> y then Some False else memeq s t n)"
| "memeq s t (Suc n) = None"

definition endpoint_complete :: "sockaddr_in \<Rightarrow> u64 \<Rightarrow> rpc_endpoint" where
  "endpoint_complete a subport = \<lparr>ep_addr = a, ep_subport = ucast (bswap32 (ucast subport))\<rparr>"

definition endpoint_create ::
    "sockaddr_in \<Rightarrow> u64 \<Rightarrow> 'a heap_scheme \<Rightarrow> addr \<times> 'a heap_scheme" where
  "endpoint_create a subport s =
     (let (ep, s) = mem_alloc s
      in if ep = NULL then (NULL, s)
         else (ep, s\<lparr>h_ep := (h_ep s)(ep \<mapsto> endpoint_complete a subport)\<rparr>))"

definition endpoint_duplicate ::
    "rpc_endpoint \<Rightarrow> 'a heap_scheme \<Rightarrow> addr \<times> 'a heap_scheme" where
  "endpoint_duplicate e s =
     (let (nep, s) = mem_alloc s
      in if nep = NULL then (NULL, s) else (nep, s\<lparr>h_ep := (h_ep s)(nep \<mapsto> e)\<rparr>))"

definition endpoint_equal :: "rpc_endpoint \<Rightarrow> rpc_endpoint \<Rightarrow> bool" where
  "endpoint_equal ep1 ep2 =
     (if memeq (sockaddr_bytes (ep_addr ep1)) (sockaddr_bytes (ep_addr ep1)) 16 = Some True
      then ep_subport ep1 = ep_subport ep2 else False)"

definition endpoint_hash :: "rpc_endpoint \<Rightarrow> u32 \<Rightarrow> u32" where
  "endpoint_hash e limit =
     (let hash = foldl (\<lambda>hash p. (7 * hash + ucast p) mod limit) 0 (sockaddr_bytes (ep_addr e))
      in ucast ((ucast (7 * hash) + ep_subport e) mod ucast limit))"

subsection \<open>Properties\<close>

lemma length_sockaddr_bytes [simp]: "length (sockaddr_bytes a) = 16"
  by (simp add: sockaddr_bytes_def)

lemma memeq_iff: "n \<le> length s \<Longrightarrow> n \<le> length t \<Longrightarrow> memeq s t n = Some (take n s = take n t)"
  by (induction s t n rule: memeq.induct) auto

lemma endpoint_equal_iff [simp]: "endpoint_equal e1 e2 \<longleftrightarrow> ep_subport e1 = ep_subport e2"
  by (simp add: endpoint_equal_def memeq_iff)

lemma endpoint_hash_less:
  assumes "0 < limit"
  shows "endpoint_hash e limit < limit"
proof -
  define x where "x = (ucast (7 * foldl (\<lambda>hash p. (7 * hash + ucast p) mod limit) 0
      (sockaddr_bytes (ep_addr e))) + ep_subport e :: u64)"
  define v where "v = x mod ucast limit"
  have "unat v = unat x mod unat limit" by (simp add: v_def unat_mod)
  moreover have "0 < unat limit" using assms by (simp add: word_less_nat_alt)
  ultimately have "unat v < unat limit" by simp
  moreover have "endpoint_hash e limit = ucast v" by (simp add: endpoint_hash_def v_def x_def Let_def)
  moreover have "unat (ucast v :: u32) \<le> unat v" by (simp add: unsigned_ucast_eq)
  ultimately show ?thesis by (simp add: word_less_nat_alt)
qed

text \<open>The subport field of a message is opaque: what \<^verbatim>\<open>cp_complete\<close> stores raw in a header,
  the receiver reads with \<^verbatim>\<open>ntohl\<close> and \<^verbatim>\<open>endpoint_complete\<close> converts back.\<close>

lemma endpoint_complete_roundtrip:
  "ep_subport (endpoint_complete a (ucast (bswap32 w))) = ucast w"
  by (simp add: endpoint_complete_def)

lemma endpoint_duplicate_cases:
  assumes "endpoint_duplicate e s = (p, t)"
  obtains (fail) "p = NULL" "t = s\<lparr>nalloc := Suc (nalloc s)\<rparr>"
  | (ok) "p = Suc (nalloc s)" "t = s\<lparr>nalloc := Suc (nalloc s), h_ep := (h_ep s)(p \<mapsto> e)\<rparr>"
  using assms by (auto simp: endpoint_duplicate_def mem_alloc_def split: if_splits)

end
