(* ===== verification/Tslist.thy ===== *)
theory Tslist
  imports Rpc_Heap
begin

text \<open>
  \<^verbatim>\<open>tslist.c\<close>: the thread-safe list that carries queries from the reader thread to the worker
  threads of a service, at the level of its heap cells (head and tail pointers, an element
  counter, \<^verbatim>\<open>next\<close> pointers). Each operation runs under the mutex of the list, so it is one
  atomic step; waiting on the condition variable is the result \<open>Blocked\<close>.

  The locale \<open>fifo_queue\<close> states what the clients of the list rely on; it is interpreted on the
  operations below.
\<close>

datatype 'a wait = Blocked | Ready 'a

subsection \<open>Operations\<close>

definition tsl_create :: "'a heap_scheme \<Rightarrow> (addr \<times> 'a heap_scheme) option" where
  "tsl_create s =
     (let k = nalloc s; (lh, s) = mem_alloc s
      in if lh = NULL then Some (NULL, s)
         else let s = s\<lparr>h_lh := (h_lh s)(lh \<mapsto> \<lparr>lh_head = NULL, lh_tail = NULL, lh_count = 0\<rparr>)\<rparr>
              in if pthread_err s k
                 then do { s \<leftarrow> mem_free_lh lh s; Some (NULL, s) }
                 else Some (lh, s))"

definition tsl_append ::
    "addr \<Rightarrow> addr \<Rightarrow> bytes option \<Rightarrow> u32 \<Rightarrow> 'a heap_scheme \<Rightarrow> (int \<times> 'a heap_scheme) option" where
  "tsl_append tsl a b sz s =
     (let (e, s) = mem_alloc s
      in if e = NULL then Some (0, s)
         else do {
           let s = s\<lparr>h_el := (h_el s)(e \<mapsto> \<lparr>el_next = NULL, el_addr = a, el_data = b, el_size = sz\<rparr>)\<rparr>;
           lh \<leftarrow> h_lh s tsl;
           (s, lh) \<leftarrow> (if lh_count lh = 0 then Some (s, lh\<lparr>lh_head := e\<rparr>)
                   else do { t \<leftarrow> h_el s (lh_tail lh);
                             Some (s\<lparr>h_el := (h_el s)(lh_tail lh \<mapsto> t\<lparr>el_next := e\<rparr>)\<rparr>, lh) });
           Some (1, s\<lparr>h_lh := (h_lh s)(tsl \<mapsto> lh\<lparr>lh_tail := e, lh_count := lh_count lh + 1\<rparr>)\<rparr>)
         })"

definition tsl_prepend ::
    "addr \<Rightarrow> addr \<Rightarrow> bytes option \<Rightarrow> u32 \<Rightarrow> 'a heap_scheme \<Rightarrow> (int \<times> 'a heap_scheme) option" where
  "tsl_prepend tsl a b sz s =
     (let (e, s) = mem_alloc s
      in if e = NULL then Some (0, s)
         else do {
           lh \<leftarrow> h_lh s tsl;
           let s = s\<lparr>h_el := (h_el s)(e \<mapsto> \<lparr>el_next = lh_head lh, el_addr = a, el_data = b,
                                            el_size = sz\<rparr>)\<rparr>;
           let lh' = (if lh_count lh = 0 then lh\<lparr>lh_head := e, lh_tail := e\<rparr> else lh\<lparr>lh_head := e\<rparr>);
           Some (1, s\<lparr>h_lh := (h_lh s)(tsl \<mapsto> lh'\<lparr>lh_count := lh_count lh + 1\<rparr>)\<rparr>)
         })"

definition tsl_remove ::
    "addr \<Rightarrow> 'a heap_scheme \<Rightarrow> ((addr \<times> bytes option \<times> u32) \<times> 'a heap_scheme) wait option" where
  "tsl_remove tsl s =
     do { lh \<leftarrow> h_lh s tsl;
          if lh_count lh = 0 then Some Blocked
          else do {
            e \<leftarrow> h_el s (lh_head lh);
            let lh' = lh\<lparr>lh_head := el_next e, lh_count := lh_count lh - 1\<rparr>;
            let lh' = (if lh_count lh' = 0 then lh'\<lparr>lh_tail := NULL\<rparr> else lh');
            s \<leftarrow> mem_free_el (lh_head lh) (s\<lparr>h_lh := (h_lh s)(tsl \<mapsto> lh')\<rparr>);
            Some (Ready ((el_addr e, el_data e, el_size e), s))
          } }"

subsection \<open>Abstraction to a list of messages\<close>

definition el_nx :: "'a heap_scheme \<Rightarrow> addr \<rightharpoonup> addr" where
  "el_nx s p = map_option el_next (h_el s p)"

definition el_msg :: "'a heap_scheme \<Rightarrow> addr \<Rightarrow> addr \<times> bytes option \<times> u32" where
  "el_msg s p = (case h_el s p of None \<Rightarrow> (NULL, None, 0) | Some e \<Rightarrow> (el_addr e, el_data e, el_size e))"

text \<open>\<open>tsl_cells s tsl ps\<close>: the list at \<open>tsl\<close> consists of the cells \<open>ps\<close>; \<open>tsl_rep s tsl q\<close>: it
  holds the messages \<open>q\<close>.\<close>

definition tsl_cells :: "'a heap_scheme \<Rightarrow> addr \<Rightarrow> addr list \<Rightarrow> bool" where
  "tsl_cells s tsl ps \<longleftrightarrow> (case h_lh s tsl of None \<Rightarrow> False
     | Some lh \<Rightarrow> chain (el_nx s) (lh_head lh) ps \<and> unat (lh_count lh) = length ps
         \<and> (ps \<noteq> [] \<longrightarrow> lh_tail lh = last ps))"

definition tsl_rep :: "'a heap_scheme \<Rightarrow> addr \<Rightarrow> (addr \<times> bytes option \<times> u32) list \<Rightarrow> bool" where
  "tsl_rep s tsl q \<longleftrightarrow> heap_ok s \<and> (\<exists>ps. tsl_cells s tsl ps \<and> q = map (el_msg s) ps)"

lemma unat_u64_0 [simp]: "unat (w :: u64) = 0 \<longleftrightarrow> w = 0"
  by (simp add: unat_eq_0)

lemma u64_count_inc:
  assumes "unat (w :: u64) = n" "n + 1 < 2 ^ 64"
  shows "unat (w + 1) = n + 1"
  using assms by (simp add: unat_word_ariths)

lemma u64_count_dec:
  assumes "unat (w :: u64) = Suc n"
  shows "unat (w - 1) = n"
proof -
  have "w \<noteq> 0" using assms by auto
  then have "unat (w - 1) = unat w - 1" by (simp add: unat_minus_one)
  with assms show ?thesis by simp
qed

lemma el_nx_upd [simp]:
  "el_nx (s\<lparr>h_el := (h_el s)(p \<mapsto> e)\<rparr>) = (el_nx s)(p \<mapsto> el_next e)"
  "el_nx (s\<lparr>h_el := (h_el s)(p := None)\<rparr>) = (el_nx s)(p := None)"
  by (auto simp: el_nx_def)

lemma el_nx_other [simp]:
  "el_nx (s\<lparr>h_lh := x\<rparr>) = el_nx s" "el_nx (s\<lparr>nalloc := k\<rparr>) = el_nx s"
  "el_msg (s\<lparr>h_lh := x\<rparr>) = el_msg s" "el_msg (s\<lparr>nalloc := k\<rparr>) = el_msg s"
  by (auto simp: el_nx_def el_msg_def)

lemma tsl_cells_nalloc [simp]: "tsl_cells (s\<lparr>nalloc := k\<rparr>) tsl ps = tsl_cells s tsl ps"
  by (simp add: tsl_cells_def split: option.split)

lemma tsl_create_empty:
  assumes "heap_ok s" "tsl_create s = Some (tsl, t)" "tsl \<noteq> NULL"
  shows "tsl_rep t tsl []"
proof -
  let ?l = "\<lparr>lh_head = NULL, lh_tail = NULL, lh_count = 0\<rparr>"
  have t: "tsl = Suc (nalloc s)" "t = s\<lparr>nalloc := tsl, h_lh := (h_lh s)(tsl \<mapsto> ?l)\<rparr>"
    using assms by (auto simp: tsl_create_def mem_alloc_def Let_def split: if_splits bind_splits)
  have "heap_ok t" unfolding t(2)
    using heap_ok_upd(5) [OF heap_ok_nalloc [OF assms(1)], of tsl ?l] by (simp add: t(1))
  then show ?thesis by (auto simp: tsl_rep_def tsl_cells_def t(2))
qed

lemma tsl_cellsE:
  assumes "tsl_cells s tsl ps"
  obtains lh where "h_lh s tsl = Some lh" "chain (el_nx s) (lh_head lh) ps"
    "unat (lh_count lh) = length ps" "ps \<noteq> [] \<longrightarrow> lh_tail lh = last ps"
    "set ps \<subseteq> dom (h_el s)" "lh_count lh = 0 \<longleftrightarrow> ps = []"
proof -
  from assms obtain lh where lh: "h_lh s tsl = Some lh" "chain (el_nx s) (lh_head lh) ps"
    "unat (lh_count lh) = length ps" "ps \<noteq> [] \<longrightarrow> lh_tail lh = last ps"
    by (auto simp: tsl_cells_def split: option.splits)
  moreover have "set ps \<subseteq> dom (h_el s)"
    using chain_dom [OF lh(2)] by (auto simp: el_nx_def dom_def)
  moreover have "lh_count lh = 0 \<longleftrightarrow> ps = []" using lh(3) by (metis length_0_conv unat_u64_0)
  ultimately show thesis by (rule that)
qed

text \<open>The state after an append: a new last cell, linked behind the old one if there was one.\<close>

lemma tsl_append_cells:
  assumes ok: "heap_ok s" and cells: "tsl_cells s tsl ps" and room: "length ps + 1 < 2 ^ 64"
    and mem: "\<not> oom s (nalloc s)"
  defines "e \<equiv> Suc (nalloc s)"
  obtains t where "tsl_append tsl a b n s = Some (1, t)" "tsl_cells t tsl (ps @ [e])"
    "map (el_msg t) (ps @ [e]) = map (el_msg s) ps @ [(a, b, n)]" "heap_ok t" "e \<notin> set ps"
proof -
  from cells obtain lh where lh: "h_lh s tsl = Some lh" "chain (el_nx s) (lh_head lh) ps"
    "unat (lh_count lh) = length ps" "ps \<noteq> [] \<longrightarrow> lh_tail lh = last ps"
    and dom: "set ps \<subseteq> dom (h_el s)" and zero: "lh_count lh = 0 \<longleftrightarrow> ps = []"
    by (rule tsl_cellsE)
  have fresh: "e \<notin> set ps" using ok dom by (auto simp: e_def dom_def)
  have rng: "tsl \<in> {0<..nalloc s}" using heap_ok_range(5) [OF ok lh(1)] .
  let ?c = "\<lparr>el_next = NULL, el_addr = a, el_data = b, el_size = n\<rparr>"
  have ok1: "heap_ok (s\<lparr>nalloc := e, h_el := (h_el s)(e \<mapsto> ?c)\<rparr>)"
    using heap_ok_upd(4) [OF heap_ok_nalloc [OF ok], of e ?c] by (simp add: e_def)
  show thesis
  proof (cases "ps = []")
    case True
    let ?lh = "lh\<lparr>lh_head := e, lh_tail := e, lh_count := lh_count lh + 1\<rparr>"
    let ?t = "s\<lparr>nalloc := e, h_el := (h_el s)(e \<mapsto> ?c), h_lh := (h_lh s)(tsl \<mapsto> ?lh)\<rparr>"
    have "tsl_append tsl a b n s = Some (1, ?t)"
      using mem lh zero True by (simp add: tsl_append_def mem_alloc_def e_def)
    moreover have "tsl_cells ?t tsl (ps @ [e])"
      using True zero by (simp add: tsl_cells_def el_nx_def e_def)
    moreover have "heap_ok ?t" using heap_ok_upd(5) [OF ok1, of tsl ?lh] rng by (simp add: e_def)
    ultimately show thesis using that True fresh by (simp add: el_msg_def)
  next
    case False
    then obtain qs l where ps: "ps = qs @ [l]" by (cases ps rule: rev_cases) auto
    with lh dom obtain c where tl: "lh_tail lh = l" and c: "h_el s l = Some c" by auto
    have el: "e \<noteq> l" "l \<notin> set qs" "e \<notin> set qs" "e \<noteq> NULL"
      using fresh ps chain_distinct [OF lh(2)] by (auto simp: e_def)
    let ?lh = "lh\<lparr>lh_tail := e, lh_count := lh_count lh + 1\<rparr>"
    let ?u = "s\<lparr>nalloc := e, h_el := (h_el s)(e \<mapsto> ?c, l \<mapsto> c\<lparr>el_next := e\<rparr>)\<rparr>"
    let ?t = "?u\<lparr>h_lh := (h_lh s)(tsl \<mapsto> ?lh)\<rparr>"
    have app: "tsl_append tsl a b n s = Some (1, ?t)"
      using mem lh zero False c tl el by (simp add: tsl_append_def mem_alloc_def e_def)
    have "el_nx ?t = (el_nx s)(l \<mapsto> e, e \<mapsto> NULL)" using el by (auto simp: el_nx_def)
    then have "chain (el_nx ?t) (lh_head lh) (qs @ [l, e])"
      using chain_snoc [of "el_nx s" "lh_head lh" qs l e] lh(2) ps el by simp
    then have cells': "tsl_cells ?t tsl (ps @ [e])"
      using lh ps room by (simp add: tsl_cells_def u64_count_inc)
    have "map (el_msg ?t) (ps @ [e]) = map (el_msg s) ps @ [(a, b, n)]"
      using ps el c by (auto simp: el_msg_def)
    moreover have "heap_ok ?t"
      using heap_ok_upd(5) [OF heap_ok_upd(4) [OF ok1, of l "c\<lparr>el_next := e\<rparr>"], of tsl ?lh] rng
        heap_ok_range(4) [OF ok c] by (simp add: e_def)
    ultimately show thesis using that app cells' fresh by blast
  qed
qed

text \<open>What an append leaves alone: every cell but the last one and every other list.\<close>

lemma tsl_append_frame:
  assumes "tsl_append tsl a b n s = Some (r, t)" "tsl_cells s tsl ps"
  shows "\<exists>f g. t = s\<lparr>nalloc := Suc (nalloc s), h_el := f, h_lh := g\<rparr>
     \<and> (\<forall>p. p \<notin> set ps \<longrightarrow> p \<noteq> Suc (nalloc s) \<longrightarrow> f p = h_el s p) \<and> (\<forall>q. q \<noteq> tsl \<longrightarrow> g q = h_lh s q)"
proof -
  from assms(2) obtain lh where lh: "h_lh s tsl = Some lh" "ps \<noteq> [] \<longrightarrow> lh_tail lh = last ps"
    "lh_count lh = 0 \<longleftrightarrow> ps = []"
    by (rule tsl_cellsE)
  show ?thesis
  proof (cases "oom s (nalloc s)")
    case True
    with assms(1) have "t = s\<lparr>nalloc := Suc (nalloc s), h_el := h_el s, h_lh := h_lh s\<rparr>"
      by (cases s) (auto simp: tsl_append_def mem_alloc_def)
    then show ?thesis by blast
  next
    case False
    let ?e = "Suc (nalloc s)"
    let ?f = "(h_el s)(?e \<mapsto> \<lparr>el_next = NULL, el_addr = a, el_data = b, el_size = n\<rparr>)"
    from False assms(1) lh obtain f g where "t = s\<lparr>nalloc := ?e, h_el := f, h_lh := (h_lh s)(tsl := g)\<rparr>"
      "f = ?f \<or> (ps \<noteq> [] \<and> (\<exists>x. f = ?f(last ps := x)))"
      by (auto simp: tsl_append_def mem_alloc_def Let_def split: if_splits bind_splits)
    then show ?thesis by (intro exI [of _ f] exI [of _ "(h_lh s)(tsl := g)"]) auto
  qed
qed

lemma tsl_cells_cong:
  assumes "tsl_cells s tsl ps" "h_lh t tsl = h_lh s tsl" "\<And>p. p \<in> set ps \<Longrightarrow> h_el t p = h_el s p"
  shows "tsl_cells t tsl ps"
proof -
  have "chain (el_nx t) x ps \<longleftrightarrow> chain (el_nx s) x ps" for x
    by (rule chain_cong) (simp add: el_nx_def assms(3))
  with assms(1,2) show ?thesis by (auto simp: tsl_cells_def split: option.splits)
qed

lemma tsl_cells_dom:
  assumes "tsl_cells s tsl ps"
  shows "distinct ps" "set ps \<subseteq> dom (h_el s)" "h_lh s tsl \<noteq> None"
  using assms chain_distinct by (auto elim!: tsl_cellsE)

lemma tsl_cells_length:
  assumes "tsl_cells s tsl ps" "heap_ok s"
  shows "length ps \<le> nalloc s"
proof -
  have "set ps \<subseteq> {0<..nalloc s}" using tsl_cells_dom(2) [OF assms(1)] assms(2) by (auto simp: heap_ok_def)
  then have "card (set ps) \<le> nalloc s" using card_mono [of "{0<..nalloc s}" "set ps"] by simp
  then show ?thesis using distinct_card [OF tsl_cells_dom(1) [OF assms(1)]] by simp
qed

lemma tsl_append_oom:
  "oom s (nalloc s) \<Longrightarrow> tsl_append tsl a b n s = Some (0, s\<lparr>nalloc := Suc (nalloc s)\<rparr>)"
  by (simp add: tsl_append_def mem_alloc_def)

lemma tsl_prepend_cells:
  assumes ok: "heap_ok s" and cells: "tsl_cells s tsl ps" and room: "length ps + 1 < 2 ^ 64"
    and mem: "\<not> oom s (nalloc s)"
  defines "e \<equiv> Suc (nalloc s)"
  obtains t where "tsl_prepend tsl a b n s = Some (1, t)" "tsl_cells t tsl (e # ps)"
    "map (el_msg t) (e # ps) = (a, b, n) # map (el_msg s) ps" "heap_ok t"
proof -
  from cells obtain lh where lh: "h_lh s tsl = Some lh" "chain (el_nx s) (lh_head lh) ps"
    "unat (lh_count lh) = length ps" "ps \<noteq> [] \<longrightarrow> lh_tail lh = last ps"
    and dom: "set ps \<subseteq> dom (h_el s)" and zero: "lh_count lh = 0 \<longleftrightarrow> ps = []"
    by (rule tsl_cellsE)
  have fresh: "e \<notin> set ps" using ok dom by (auto simp: e_def dom_def)
  let ?c = "\<lparr>el_next = lh_head lh, el_addr = a, el_data = b, el_size = n\<rparr>"
  let ?lh = "(if ps = [] then lh\<lparr>lh_head := e, lh_tail := e\<rparr> else lh\<lparr>lh_head := e\<rparr>)
    \<lparr>lh_count := lh_count lh + 1\<rparr>"
  let ?u = "s\<lparr>nalloc := e, h_el := (h_el s)(e \<mapsto> ?c)\<rparr>"
  let ?t = "?u\<lparr>h_lh := (h_lh s)(tsl \<mapsto> ?lh)\<rparr>"
  have "tsl_prepend tsl a b n s = Some (1, ?t)"
    using mem lh zero by (simp add: tsl_prepend_def mem_alloc_def e_def)
  moreover have "el_nx ?t = (el_nx s)(e \<mapsto> lh_head lh)" by (auto simp: el_nx_def)
  then have "tsl_cells ?t tsl (e # ps)"
    using lh fresh room zero by (auto simp: tsl_cells_def u64_count_inc chain_simps e_def)
  moreover have "map (el_msg ?t) (e # ps) = (a, b, n) # map (el_msg s) ps"
    using fresh by (auto simp: el_msg_def)
  moreover have "heap_ok ?u"
    using heap_ok_upd(4) [OF heap_ok_nalloc [OF ok], of e ?c] by (simp add: e_def)
  then have "heap_ok ?t"
    using heap_ok_upd(5) [of ?u tsl ?lh] heap_ok_range(5) [OF ok lh(1)] by (simp add: e_def)
  ultimately show thesis by (rule that)
qed

lemma tsl_remove_cells:
  assumes ok: "heap_ok s" and cells: "tsl_cells s tsl (p # ps)"
  obtains t where "tsl_remove tsl s = Some (Ready (el_msg s p, t))" "tsl_cells t tsl ps"
    "map (el_msg t) ps = map (el_msg s) ps" "heap_ok t"
proof -
  from cells obtain lh where lh: "h_lh s tsl = Some lh" "chain (el_nx s) (lh_head lh) (p # ps)"
    "unat (lh_count lh) = length (p # ps)" "lh_tail lh = last (p # ps)" "lh_count lh \<noteq> 0"
    by (rule tsl_cellsE) simp
  then obtain e where e: "h_el s p = Some e" "lh_head lh = p" "chain (el_nx s) (el_next e) ps" "p \<noteq> NULL"
    by (auto simp: el_nx_def split: option.splits)
  have dec: "unat (lh_count lh - 1) = length ps" using u64_count_dec lh(3) by simp
  have fresh: "p \<notin> set ps" using chain_distinct [OF lh(2)] by simp
  have zero: "lh_count lh - 1 = 0 \<longleftrightarrow> ps = []" using dec by (metis length_0_conv unat_u64_0)
  let ?m = "lh\<lparr>lh_head := el_next e, lh_count := lh_count lh - 1\<rparr>"
  let ?lh = "if ps = [] then ?m\<lparr>lh_tail := NULL\<rparr> else ?m"
  let ?u = "s\<lparr>h_lh := (h_lh s)(tsl \<mapsto> ?lh)\<rparr>"
  let ?t = "?u\<lparr>h_el := (h_el s)(p := None)\<rparr>"
  have "tsl_remove tsl s = Some (Ready (el_msg s p, ?t))"
    using lh e zero by (simp add: tsl_remove_def mem_free_el_def el_msg_def)
  moreover have "el_nx ?t = (el_nx s)(p := None)" by (auto simp: el_nx_def)
  then have "tsl_cells ?t tsl ps"
    using lh e fresh dec by (auto simp: tsl_cells_def chain_simps)
  moreover have "map (el_msg ?t) ps = map (el_msg s) ps" using fresh by (auto simp: el_msg_def)
  moreover have "heap_ok ?u" using heap_ok_upd(5) [OF ok, of tsl ?lh] heap_ok_range(5) [OF ok lh(1)] .
  then have "heap_ok ?t" using heap_ok_del(4) [of ?u p] by simp
  ultimately show thesis by (rule that)
qed

lemma tsl_remove_Blocked: "tsl_cells s tsl [] \<Longrightarrow> tsl_remove tsl s = Some Blocked"
  by (auto simp: tsl_remove_def tsl_cells_def split: option.splits)

subsection \<open>The queue contract\<close>

locale fifo_queue =
  fixes rep :: "'s \<Rightarrow> 'q \<Rightarrow> 'm list \<Rightarrow> bool"
    and append_op :: "'q \<Rightarrow> 'm \<Rightarrow> 's \<Rightarrow> (int \<times> 's) option"
    and remove_op :: "'q \<Rightarrow> 's \<Rightarrow> ('m \<times> 's) wait option"
    and bound :: nat
  assumes append_law: "rep s q xs \<Longrightarrow> length xs + 1 < bound \<Longrightarrow>
      \<exists>r t. append_op q x s = Some (r, t) \<and> (r = 1 \<and> rep t q (xs @ [x]) \<or> r = 0 \<and> rep t q xs)"
    and remove_law: "rep s q (x # xs) \<Longrightarrow> \<exists>t. remove_op q s = Some (Ready (x, t)) \<and> rep t q xs"
    and empty_law: "rep s q [] \<Longrightarrow> remove_op q s = Some Blocked"
begin

text \<open>Appending a batch, counting the messages that were accepted.\<close>

fun append_all :: "'q \<Rightarrow> 'm list \<Rightarrow> 's \<Rightarrow> ('m list \<times> 's) option" where
  "append_all q [] s = Some ([], s)"
| "append_all q (x # xs) s = do {
     (r, s) \<leftarrow> append_op q x s;
     (acc, s) \<leftarrow> append_all q xs s;
     Some (if r = 1 then x # acc else acc, s) }"

fun remove_n :: "'q \<Rightarrow> nat \<Rightarrow> 's \<Rightarrow> ('m list \<times> 's) option" where
  "remove_n q 0 s = Some ([], s)"
| "remove_n q (Suc n) s = (case remove_op q s of
     Some (Ready (x, s)) \<Rightarrow> (case remove_n q n s of None \<Rightarrow> None | Some (xs, s) \<Rightarrow> Some (x # xs, s))
   | _ \<Rightarrow> None)"

lemma append_all_rep:
  "rep s q xs \<Longrightarrow> length xs + length ys < bound \<Longrightarrow>
   \<exists>acc t. append_all q ys s = Some (acc, t) \<and> rep t q (xs @ acc) \<and> length acc \<le> length ys"
proof (induction ys arbitrary: s xs)
  case Nil
  then show ?case by auto
next
  case (Cons y ys)
  then obtain r u where u: "append_op q y s = Some (r, u)"
      "r = 1 \<and> rep u q (xs @ [y]) \<or> r = 0 \<and> rep u q xs"
    using append_law [of s q xs y] by fastforce
  from u(2) show ?case
  proof
    assume r: "r = 1 \<and> rep u q (xs @ [y])"
    then obtain acc t where "append_all q ys u = Some (acc, t)" "rep t q ((xs @ [y]) @ acc)"
        "length acc \<le> length ys"
      using Cons.IH [of u "xs @ [y]"] Cons.prems(2) by auto
    with u r show ?thesis by auto
  next
    assume r: "r = 0 \<and> rep u q xs"
    then obtain acc t where "append_all q ys u = Some (acc, t)" "rep t q (xs @ acc)"
        "length acc \<le> length ys"
      using Cons.IH [of u xs] Cons.prems(2) by auto
    with u r show ?thesis by auto
  qed
qed

lemma remove_n_rep:
  "rep s q (xs @ ys) \<Longrightarrow> \<exists>t. remove_n q (length xs) s = Some (xs, t) \<and> rep t q ys"
proof (induction xs arbitrary: s)
  case Nil
  then show ?case by simp
next
  case (Cons x xs)
  then obtain u where "remove_op q s = Some (Ready (x, u))" "rep u q (xs @ ys)"
    using remove_law [of s q x "xs @ ys"] by auto
  moreover from this Cons.IH obtain t where "remove_n q (length xs) u = Some (xs, t)" "rep t q ys"
    by blast
  ultimately show ?case by auto
qed

text \<open>First in, first out, with nothing lost but the messages whose allocation failed.\<close>

lemma fifo:
  assumes "rep s q []" "length ys < bound"
  shows "\<exists>acc t u. append_all q ys s = Some (acc, t) \<and> remove_n q (length acc) t = Some (acc, u)
           \<and> remove_op q u = Some Blocked"
proof -
  obtain acc t where t: "append_all q ys s = Some (acc, t)" "rep t q acc"
    using append_all_rep [OF assms(1)] assms(2) by fastforce
  then obtain u where "remove_n q (length acc) t = Some (acc, u)" "rep u q []"
    using remove_n_rep [of t q acc "[]"] by auto
  with t empty_law show ?thesis by blast
qed

end

definition tsl_append_msg ::
    "addr \<Rightarrow> addr \<times> bytes option \<times> u32 \<Rightarrow> 'a heap_scheme \<Rightarrow> (int \<times> 'a heap_scheme) option" where
  "tsl_append_msg tsl m s = (case m of (a, b, n) \<Rightarrow> tsl_append tsl a b n s)"

interpretation tsl: fifo_queue "tsl_rep :: 'a heap_scheme \<Rightarrow> _" tsl_append_msg tsl_remove "2 ^ 64"
proof
  fix s :: "'a heap_scheme" and q xs and x :: "addr \<times> bytes option \<times> u32"
  assume rep: "tsl_rep s q xs" and room: "length xs + 1 < (2::nat) ^ 64"
  obtain a b n where x: "x = (a, b, n)" by (cases x)
  from rep obtain ps where ps: "heap_ok s" "tsl_cells s q ps" "xs = map (el_msg s) ps"
    by (auto simp: tsl_rep_def)
  show "\<exists>r t. tsl_append_msg q x s = Some (r, t)
      \<and> (r = 1 \<and> tsl_rep t q (xs @ [x]) \<or> r = 0 \<and> tsl_rep t q xs)"
  proof (cases "oom s (nalloc s)")
    case True
    let ?t = "s\<lparr>nalloc := Suc (nalloc s)\<rparr>"
    have "tsl_append_msg q x s = Some (0, ?t)"
      using True by (simp add: x tsl_append_msg_def tsl_append_oom)
    moreover have "tsl_rep ?t q xs"
      using ps heap_ok_nalloc [OF ps(1)] by (auto simp: tsl_rep_def)
    ultimately show ?thesis by blast
  next
    case False
    from ps room False obtain t where "tsl_append q a b n s = Some (1, t)"
        "tsl_cells t q (ps @ [Suc (nalloc s)])"
        "map (el_msg t) (ps @ [Suc (nalloc s)]) = map (el_msg s) ps @ [(a, b, n)]" "heap_ok t"
      using tsl_append_cells [of s q ps a b n] by auto
    then have "tsl_append_msg q x s = Some (1, t) \<and> tsl_rep t q (xs @ [x])"
      unfolding x tsl_append_msg_def tsl_rep_def ps(3) by (auto intro!: exI [of _ "ps @ [Suc (nalloc s)]"])
    then show ?thesis by blast
  qed
next
  fix s :: "'a heap_scheme" and q x xs
  assume "tsl_rep s q (x # xs)"
  then obtain p ps where s: "heap_ok s" "tsl_cells s q (p # ps)"
      and x: "x = el_msg s p" "xs = map (el_msg s) ps"
    by (auto simp: tsl_rep_def)
  obtain t where "tsl_remove q s = Some (Ready (el_msg s p, t))" "tsl_cells t q ps"
      "map (el_msg t) ps = map (el_msg s) ps" "heap_ok t"
    by (rule tsl_remove_cells [OF s])
  with x have "tsl_remove q s = Some (Ready (x, t)) \<and> tsl_rep t q xs"
    unfolding tsl_rep_def by (metis (no_types))
  then show "\<exists>t. tsl_remove q s = Some (Ready (x, t)) \<and> tsl_rep t q xs" ..
next
  fix s :: "'a heap_scheme" and q
  assume "tsl_rep s q []"
  then show "tsl_remove q s = Some Blocked" by (auto simp: tsl_rep_def tsl_remove_Blocked)
qed

end
