(* ===== verification/Crecord.thy ===== *)
theory Crecord
  imports Endpoint Tslist
begin

text \<open>
  \<^verbatim>\<open>crecord.c\<close>: the connection records. Their fields are in the heap; the operations are partial,
  being undefined on a pointer that is not an allocated record. Waiting for a state is the result
  \<open>Blocked\<close> (the thread sleeps on the condition variable and tests again when it is signalled).
\<close>

abbreviation (input) ST_IDLE :: u64 where "ST_IDLE \<equiv> 1"
abbreviation (input) ST_QACK_SENT :: u64 where "ST_QACK_SENT \<equiv> 2"
abbreviation (input) ST_RESPONSE_SENT :: u64 where "ST_RESPONSE_SENT \<equiv> 3"
abbreviation (input) ST_CONNECT_SENT :: u64 where "ST_CONNECT_SENT \<equiv> 4"
abbreviation (input) ST_QUERY_SENT :: u64 where "ST_QUERY_SENT \<equiv> 5"
abbreviation (input) ST_AWAITING_RESPONSE :: u64 where "ST_AWAITING_RESPONSE \<equiv> 6"
abbreviation (input) ST_TIMEDOUT :: u64 where "ST_TIMEDOUT \<equiv> 7"
abbreviation (input) ST_DISCONNECT_SENT :: u64 where "ST_DISCONNECT_SENT \<equiv> 8"
abbreviation (input) ST_FRAGMENT_SENT :: u64 where "ST_FRAGMENT_SENT \<equiv> 9"
abbreviation (input) ST_FACK_RECEIVED :: u64 where "ST_FACK_RECEIVED \<equiv> 10"
abbreviation (input) ST_FRAGMENT_RECEIVED :: u64 where "ST_FRAGMENT_RECEIVED \<equiv> 11"
abbreviation (input) ST_FACK_SENT :: u64 where "ST_FACK_SENT \<equiv> 12"
abbreviation (input) ST_SEQNO_SENT :: u64 where "ST_SEQNO_SENT \<equiv> 13"

abbreviation (input) TICKS_BETWEEN_PINGS :: u16 where "TICKS_BETWEEN_PINGS \<equiv> 3000"
abbreviation (input) PINGS_BEFORE_PURGE :: u16 where "PINGS_BEFORE_PURGE \<equiv> 3"

subsection \<open>Operations\<close>

definition crecord_create :: "addr \<Rightarrow> u64 \<Rightarrow> 'a heap_scheme \<Rightarrow> addr \<times> 'a heap_scheme" where
  "crecord_create ep seqno s =
     (let (cr, s) = mem_alloc s
      in if cr = NULL then (NULL, s)
         else (cr, s\<lparr>h_cr := (h_cr s)(cr \<mapsto>
           \<lparr>cr_next = NULL, cr_link = NULL, cr_seqno = seqno, cr_state = 0, cr_ep = ep,
            cr_svc = NULL, cr_pl = None, cr_resp = None, cr_size = 0, cr_nattempts = 0,
            cr_ticks = 0, cr_ticksLeft = 0, cr_pingsTilPurge = PINGS_BEFORE_PURGE,
            cr_ticksTilPing = TICKS_BETWEEN_PINGS, cr_lastFrag = 0\<rparr>)\<rparr>))"

text \<open>An assignment through a record pointer.\<close>

definition upd_cr :: "addr \<Rightarrow> (c_record \<Rightarrow> c_record) \<Rightarrow> 'a heap_scheme \<Rightarrow> 'a heap_scheme option" where
  "upd_cr p f s = (case h_cr s p of None \<Rightarrow> None | Some c \<Rightarrow> Some (s\<lparr>h_cr := (h_cr s)(p \<mapsto> f c)\<rparr>))"

definition set_state :: "u64 \<Rightarrow> c_record \<Rightarrow> c_record" where
  "set_state st c = c\<lparr>cr_state := st, cr_ticksTilPing := TICKS_BETWEEN_PINGS,
                      cr_pingsTilPurge := PINGS_BEFORE_PURGE\<rparr>"

definition crecord_setState :: "addr \<Rightarrow> u64 \<Rightarrow> 'a heap_scheme \<Rightarrow> 'a heap_scheme option" where
  "crecord_setState cr st s = upd_cr cr (set_state st) s"

definition set_payload :: "bytes option \<Rightarrow> u32 \<Rightarrow> u16 \<Rightarrow> u16 \<Rightarrow> c_record \<Rightarrow> c_record" where
  "set_payload pl sz nattempts ticks c =
     c\<lparr>cr_pl := pl, cr_size := sz, cr_nattempts := nattempts, cr_ticks := ticks,
       cr_ticksLeft := ticks\<rparr>"

definition crecord_setPayload ::
    "addr \<Rightarrow> bytes option \<Rightarrow> u32 \<Rightarrow> u16 \<Rightarrow> u16 \<Rightarrow> 'a heap_scheme \<Rightarrow> 'a heap_scheme option" where
  "crecord_setPayload cr pl sz nattempts ticks s = upd_cr cr (set_payload pl sz nattempts ticks) s"

definition crecord_setService :: "addr \<Rightarrow> addr \<Rightarrow> 'a heap_scheme \<Rightarrow> 'a heap_scheme option" where
  "crecord_setService cr sr s = upd_cr cr (\<lambda>c. c\<lparr>cr_svc := sr\<rparr>) s"

text \<open>\<^verbatim>\<open>matchedState\<close> returns the index of the first match, or \<open>n\<close> (the number of states).\<close>

fun matchedState :: "u64 \<Rightarrow> u64 list \<Rightarrow> nat" where
  "matchedState st [] = 0"
| "matchedState st (x # xs) = (if st = x then 0 else Suc (matchedState st xs))"

definition crecord_waitForState :: "addr \<Rightarrow> u64 list \<Rightarrow> 'a heap_scheme \<Rightarrow> u64 wait option" where
  "crecord_waitForState cr states s =
     (case h_cr s cr of None \<Rightarrow> None
      | Some c \<Rightarrow> (let i = matchedState (cr_state c) states
                  in Some (if i = length states then Blocked else Ready (states ! i))))"

definition crecord_destroy :: "addr \<Rightarrow> 'a heap_scheme \<Rightarrow> 'a heap_scheme option" where
  "crecord_destroy cr s =
     (if cr = NULL then Some s
      else do { c \<leftarrow> h_cr s cr;
                s \<leftarrow> mem_free_ep (cr_ep c) s;
                mem_free_cr cr s })"

subsection \<open>Properties\<close>

lemma upd_cr_simps [simp]:
  "h_cr s p = Some c \<Longrightarrow> upd_cr p f s = Some (s\<lparr>h_cr := (h_cr s)(p \<mapsto> f c)\<rparr>)"
  "h_cr s p = None \<Longrightarrow> upd_cr p f s = None"
  by (simp_all add: upd_cr_def)

lemma upd_cr_upd_cr:
  "Option.bind (upd_cr p f s) (upd_cr p g) = upd_cr p (g \<circ> f) s"
  by (cases "h_cr s p") auto

text \<open>Setting the payload commutes with the assignments to the other fields.\<close>

lemma set_payload_commute [simp]:
  "set_payload pl n a t (c\<lparr>cr_seqno := x\<rparr>) = (set_payload pl n a t c)\<lparr>cr_seqno := x\<rparr>"
  "set_payload pl n a t (c\<lparr>cr_resp := r\<rparr>) = (set_payload pl n a t c)\<lparr>cr_resp := r\<rparr>"
  "set_payload pl n a t (c\<lparr>cr_lastFrag := f\<rparr>) = (set_payload pl n a t c)\<lparr>cr_lastFrag := f\<rparr>"
  by (simp_all add: set_payload_def)

lemma set_payload_sel [simp]:
  "cr_next (set_payload pl n a t c) = cr_next c" "cr_ep (set_payload pl n a t c) = cr_ep c"
  "cr_svc (set_payload pl n a t c) = cr_svc c" "cr_seqno (set_payload pl n a t c) = cr_seqno c"
  "cr_state (set_payload pl n a t c) = cr_state c" "cr_resp (set_payload pl n a t c) = cr_resp c"
  "cr_lastFrag (set_payload pl n a t c) = cr_lastFrag c" "cr_pl (set_payload pl n a t c) = pl"
  "cr_size (set_payload pl n a t c) = n"
  by (simp_all add: set_payload_def)

lemma set_state_sel [simp]:
  "cr_next (set_state st c) = cr_next c" "cr_ep (set_state st c) = cr_ep c"
  "cr_svc (set_state st c) = cr_svc c" "cr_seqno (set_state st c) = cr_seqno c"
  "cr_state (set_state st c) = st" "cr_resp (set_state st c) = cr_resp c"
  "cr_lastFrag (set_state st c) = cr_lastFrag c" "cr_pl (set_state st c) = cr_pl c"
  "cr_size (set_state st c) = cr_size c"
  by (simp_all add: set_state_def)

lemma matchedState_le: "matchedState st xs \<le> length xs"
  by (induction xs) auto

lemma matchedState_hit: "matchedState st xs < length xs \<longleftrightarrow> st \<in> set xs"
  by (induction xs) auto

lemma matchedState_nth: "st \<in> set xs \<Longrightarrow> xs ! matchedState st xs = st"
  by (induction xs) auto

lemma crecord_waitForState_eq:
  "crecord_waitForState cr states s =
     map_option (\<lambda>c. if cr_state c \<in> set states then Ready (cr_state c) else Blocked) (h_cr s cr)"
proof (cases "h_cr s cr")
  case (Some c)
  have "matchedState (cr_state c) states \<noteq> length states \<longleftrightarrow> cr_state c \<in> set states"
    using matchedState_hit [of "cr_state c" states] matchedState_le [of "cr_state c" states]
    by linarith
  with Some show ?thesis by (auto simp: crecord_waitForState_def matchedState_nth)
qed (simp add: crecord_waitForState_def)

lemma crecord_create_cases:
  assumes "crecord_create ep n s = (p, t)"
  obtains (fail) "p = NULL" "t = s\<lparr>nalloc := Suc (nalloc s)\<rparr>"
  | (ok) c where "p = Suc (nalloc s)" "t = s\<lparr>nalloc := Suc (nalloc s), h_cr := (h_cr s)(p \<mapsto> c)\<rparr>"
      "cr_ep c = ep" "cr_seqno c = n" "cr_state c = 0" "cr_pl c = None" "cr_resp c = None"
  using assms by (auto simp: crecord_create_def mem_alloc_def split: if_splits)

end
