(* ===== verification/Chained_Table.thy ===== *)
theory Chained_Table
  imports Prelude
begin

text \<open>
  The contract of the bucket chains that the connection table (\<^verbatim>\<open>ctable.c\<close>) and the service table
  (\<^verbatim>\<open>stable.c\<close>) share: a search loop and an unlink loop over \<^verbatim>\<open>next\<close> pointers. The locales fix the
  loops by the equations the C code gives them, and derive that on a NULL-terminated chain the
  loops return and compute what the list functions \<open>find\<close> and \<open>takeWhile\<close> say.
\<close>

definition first_hit :: "(addr \<Rightarrow> bool) \<Rightarrow> addr list \<Rightarrow> addr" where
  "first_hit P as = (case find P as of None \<Rightarrow> NULL | Some a \<Rightarrow> a)"

lemma first_hit_simps [simp]:
  "first_hit P [] = NULL"
  "first_hit P (a # as) = (if P a then a else first_hit P as)"
  by (simp_all add: first_hit_def)

lemma first_hit_cong: "(\<And>a. a \<in> set as \<Longrightarrow> P a = Q a) \<Longrightarrow> first_hit P as = first_hit Q as"
  by (induction as) auto

lemma first_hit_NULL_iff: "NULL \<notin> set as \<Longrightarrow> first_hit P as = NULL \<longleftrightarrow> (\<forall>a\<in>set as. \<not> P a)"
  by (induction as) auto

lemma first_hit_hit: "first_hit P as \<noteq> NULL \<Longrightarrow> first_hit P as \<in> set as \<and> P (first_hit P as)"
  by (induction as) (auto split: if_splits)

locale chain_search =
  fixes nx :: "'s \<Rightarrow> addr \<rightharpoonup> addr"
    and key :: "'s \<Rightarrow> addr \<Rightarrow> 'k option"
    and eqk :: "'k \<Rightarrow> 'k \<Rightarrow> bool"
    and walk :: "'s \<Rightarrow> 'k \<Rightarrow> addr \<Rightarrow> addr option"
  assumes walk_end: "walk s k NULL = Some NULL"
    and walk_step: "r \<noteq> NULL \<Longrightarrow> nx s r = Some q \<Longrightarrow> key s r = Some k' \<Longrightarrow>
        walk s k r = (if eqk k k' then Some r else walk s k q)"
begin

lemma walk_chain:
  assumes "chain (nx s) r as" and "\<And>a. a \<in> set as \<Longrightarrow> key s a \<noteq> None"
  shows "walk s k r = Some (first_hit (\<lambda>a. eqk k (the (key s a))) as)"
  using assms
proof (induction as arbitrary: r)
  case Nil
  then show ?case by (simp add: walk_end)
next
  case (Cons a as)
  then obtain q k' where "nx s a = Some q" "chain (nx s) q as" "key s a = Some k'" "r = a" "a \<noteq> NULL"
    by (fastforce split: option.splits)
  with Cons show ?case by (simp add: walk_step)
qed

end

locale chain_unlink =
  fixes nx :: "'s \<Rightarrow> addr \<rightharpoonup> addr"
    and hit :: "'s \<Rightarrow> addr \<Rightarrow> bool option"
    and cut :: "addr \<Rightarrow> addr \<Rightarrow> 's \<Rightarrow> 's option"
    and loop :: "addr \<Rightarrow> addr \<Rightarrow> 's \<Rightarrow> 's option"
  assumes loop_end: "loop pr NULL s = Some s"
    and loop_step: "cu \<noteq> NULL \<Longrightarrow> nx s cu = Some q \<Longrightarrow> hit s cu = Some h \<Longrightarrow>
        loop pr cu s = (if h then cut pr q s else loop cu q s)"
begin

lemma loop_miss:
  assumes "chain (nx s) cu as" and "\<And>a. a \<in> set as \<Longrightarrow> hit s a = Some False"
  shows "loop pr cu s = Some s"
  using assms
proof (induction as arbitrary: pr cu)
  case Nil
  then show ?case by (simp add: loop_end)
next
  case (Cons a as)
  then obtain q where "nx s a = Some q" "chain (nx s) q as" "cu = a" "a \<noteq> NULL"
    by (auto split: option.splits)
  moreover have "hit s a = Some False" using Cons.prems(2) by simp
  moreover have "loop a q s = Some s" using Cons calculation by simp
  ultimately show ?case using loop_step [of a s q False pr] by simp
qed

lemma loop_hit:
  assumes "chain (nx s) cu (as @ b # bs)" and "\<And>a. a \<in> set as \<Longrightarrow> hit s a = Some False"
    and "hit s b = Some True" and "nx s b = Some q"
  shows "loop pr cu s = cut (last (pr # as)) q s"
  using assms
proof (induction as arbitrary: pr cu)
  case Nil
  then show ?case by (simp add: loop_step)
next
  case (Cons a as)
  then obtain r where "nx s a = Some r" "chain (nx s) r (as @ b # bs)" "cu = a" "a \<noteq> NULL"
    by (auto split: option.splits)
  moreover have "hit s a = Some False" using Cons.prems(2) by simp
  moreover have "loop a r s = cut (last (a # as)) q s" using Cons calculation by simp
  ultimately show ?case using loop_step [of a s r False pr] by simp
qed

end

end
