(* ===== verification/Ctable.thy ===== *)
theory Ctable
  imports Crecord Chained_Table
begin

text \<open>
  \<^verbatim>\<open>ctable.c\<close>: the connection table, 31 bucket chains of connection records linked by \<^verbatim>\<open>next\<close>, and
  the subport counter. All operations run under the table's mutex. The chains are traversed by
  loops that are partial functions; \<open>ctab_rep s L\<close> says that the chains are the lists \<open>L\<close>, and
  the properties say that under it every loop returns.
\<close>

record ctab = heap +
  ctable :: "addr list"
  ctr :: u16

abbreviation (input) CTABLE_SIZE :: nat where "CTABLE_SIZE \<equiv> 31"

subsection \<open>Operations\<close>

definition ctable_init :: "'a ctab_scheme \<Rightarrow> 'a ctab_scheme" where
  "ctable_init s = s\<lparr>ctable := replicate CTABLE_SIZE NULL\<rparr>"

text \<open>\<^verbatim>\<open>(pid & 0xffff) << 16 | ctr\<close> is computed in \<open>int\<close> and sign-extended to \<open>unsigned long\<close>.\<close>

definition ctable_newSubport :: "u32 \<Rightarrow> 'a ctab_scheme \<Rightarrow> u64 \<times> 'a ctab_scheme" where
  "ctable_newSubport pid s =
     (let c = ctr s + 1; c = (if c > 0x7fff then 1 else c)
      in (scast (push_bit 16 (pid AND 0xffff) OR ucast c), s\<lparr>ctr := c\<rparr>))"

definition ep_bucket :: "rpc_endpoint \<Rightarrow> nat" where
  "ep_bucket e = unat (endpoint_hash e 31)"

definition ctable_insert :: "addr \<Rightarrow> 'a ctab_scheme \<Rightarrow> 'a ctab_scheme option" where
  "ctable_insert cr s =
     do { c \<leftarrow> h_cr s cr;
          e \<leftarrow> h_ep s (cr_ep c);
          let hash = ep_bucket e;
          Some (s\<lparr>h_cr := (h_cr s)(cr \<mapsto> c\<lparr>cr_next := ctable s ! hash\<rparr>),
                  ctable := (ctable s)[hash := cr]\<rparr>) }"

partial_function (option) ctable_walk ::
    "'a ctab_scheme \<Rightarrow> rpc_endpoint \<Rightarrow> addr \<Rightarrow> addr option" where
  "ctable_walk s ep r =
     (if r = NULL then Some NULL
      else do { c \<leftarrow> h_cr s r;
                e \<leftarrow> h_ep s (cr_ep c);
                if endpoint_equal ep e then Some r else ctable_walk s ep (cr_next c) })"

definition ctable_lookup :: "rpc_endpoint \<Rightarrow> 'a ctab_scheme \<Rightarrow> addr option" where
  "ctable_lookup ep s = ctable_walk s ep (ctable s ! ep_bucket ep)"

definition ctable_cut ::
    "nat \<Rightarrow> addr \<Rightarrow> addr \<Rightarrow> 'a ctab_scheme \<Rightarrow> 'a ctab_scheme option" where
  "ctable_cut hash pr q s =
     (if pr = NULL then Some (s\<lparr>ctable := (ctable s)[hash := q]\<rparr>)
      else upd_cr pr (\<lambda>c. c\<lparr>cr_next := q\<rparr>) s)"

partial_function (option) ctable_unlink ::
    "addr \<Rightarrow> nat \<Rightarrow> addr \<Rightarrow> addr \<Rightarrow> 'a ctab_scheme \<Rightarrow> 'a ctab_scheme option" where
  "ctable_unlink cr hash pr cu s =
     (if cu = NULL then Some s
      else do { c \<leftarrow> h_cr s cu;
                if cr = cu then ctable_cut hash pr (cr_next c) s
                else ctable_unlink cr hash cu (cr_next c) s })"

definition ctable_remove :: "addr \<Rightarrow> 'a ctab_scheme \<Rightarrow> 'a ctab_scheme option" where
  "ctable_remove cr s =
     do { c \<leftarrow> h_cr s cr;
          e \<leftarrow> h_ep s (cr_ep c);
          let hash = ep_bucket e;
          ctable_unlink cr hash NULL (ctable s ! hash) s }"

text \<open>The states in which a message is outstanding and may be sent again.\<close>

definition retry_state :: "u64 \<Rightarrow> bool" where
  "retry_state st \<longleftrightarrow> st \<in> {ST_CONNECT_SENT, ST_QUERY_SENT, ST_RESPONSE_SENT, ST_DISCONNECT_SENT,
     ST_FRAGMENT_SENT, ST_SEQNO_SENT}"

text \<open>What the timer scan decides about one record, and the record with its counters updated.\<close>

datatype scan_verdict = Keep | Retry | Timed | Ping | Purge

definition scan_record :: "c_record \<Rightarrow> scan_verdict \<times> c_record" where
  "scan_record p =
     (let st = cr_state p in
      if st = ST_TIMEDOUT then (Purge, p)
      else if st = ST_CONNECT_SENT \<or> st = ST_QUERY_SENT \<or> st = ST_RESPONSE_SENT
              \<or> st = ST_DISCONNECT_SENT \<or> st = ST_FRAGMENT_SENT \<or> st = ST_SEQNO_SENT then
        let p = p\<lparr>cr_ticksLeft := cr_ticksLeft p - 1\<rparr> in
        if cr_ticksLeft p = 0 then
          let p = p\<lparr>cr_nattempts := cr_nattempts p - 1\<rparr> in
          if cr_nattempts p = 0 then (Timed, p)
          else let p = p\<lparr>cr_ticks := cr_ticks p * 2\<rparr> in (Retry, p\<lparr>cr_ticksLeft := cr_ticks p\<rparr>)
        else (Keep, p)
      else
        let p = p\<lparr>cr_ticksTilPing := cr_ticksTilPing p - 1\<rparr> in
        if cr_ticksTilPing p = 0 then
          let p = p\<lparr>cr_pingsTilPurge := cr_pingsTilPurge p - 1\<rparr> in
          if cr_pingsTilPurge p = 0 then (Timed, p)
          else (Ping, p\<lparr>cr_ticksTilPing := TICKS_BETWEEN_PINGS\<rparr>)
        else (Keep, p))"

record scan_lists =
  sl_retry :: addr
  sl_timed :: addr
  sl_ping :: addr
  sl_purge :: addr

definition scan_push :: "scan_verdict \<Rightarrow> addr \<Rightarrow> c_record \<Rightarrow> scan_lists \<Rightarrow> c_record \<times> scan_lists" where
  "scan_push v p c l = (case v of
      Keep \<Rightarrow> (c, l)
    | Retry \<Rightarrow> (c\<lparr>cr_link := sl_retry l\<rparr>, l\<lparr>sl_retry := p\<rparr>)
    | Timed \<Rightarrow> (c\<lparr>cr_link := sl_timed l\<rparr>, l\<lparr>sl_timed := p\<rparr>)
    | Ping \<Rightarrow> (c\<lparr>cr_link := sl_ping l\<rparr>, l\<lparr>sl_ping := p\<rparr>)
    | Purge \<Rightarrow> (c\<lparr>cr_link := sl_purge l\<rparr>, l\<lparr>sl_purge := p\<rparr>))"

partial_function (option) scan_chain ::
    "addr \<Rightarrow> scan_lists \<Rightarrow> 'a ctab_scheme \<Rightarrow> (scan_lists \<times> 'a ctab_scheme) option" where
  "scan_chain p l s =
     (if p = NULL then Some (l, s)
      else case h_cr s p of None \<Rightarrow> None
        | Some c \<Rightarrow> (let (v, c') = scan_record c; (c'', l') = scan_push v p c' l
                    in scan_chain (cr_next c'') l' (s\<lparr>h_cr := (h_cr s)(p \<mapsto> c'')\<rparr>)))"

fun scan_buckets ::
    "addr list \<Rightarrow> scan_lists \<Rightarrow> 'a ctab_scheme \<Rightarrow> (scan_lists \<times> 'a ctab_scheme) option" where
  "scan_buckets [] l s = Some (l, s)"
| "scan_buckets (b # bs) l s = do { (l, s) \<leftarrow> scan_chain b l s; scan_buckets bs l s }"

definition ctable_scan :: "'a ctab_scheme \<Rightarrow> (scan_lists \<times> 'a ctab_scheme) option" where
  "ctable_scan s =
     scan_buckets (ctable s) \<lparr>sl_retry = NULL, sl_timed = NULL, sl_ping = NULL, sl_purge = NULL\<rparr> s"

partial_function (option) purge_chain :: "addr \<Rightarrow> 'a ctab_scheme \<Rightarrow> 'a ctab_scheme option" where
  "purge_chain p s =
     (if p = NULL then Some s
      else do { c \<leftarrow> h_cr s p; s \<leftarrow> crecord_destroy p s; purge_chain (cr_next c) s })"

fun purge_buckets :: "addr list \<Rightarrow> 'a ctab_scheme \<Rightarrow> 'a ctab_scheme option" where
  "purge_buckets [] s = Some s"
| "purge_buckets (b # bs) s = do { s \<leftarrow> purge_chain b s; purge_buckets bs s }"

definition ctable_purge :: "'a ctab_scheme \<Rightarrow> 'a ctab_scheme option" where
  "ctable_purge s = map_option ctable_init (purge_buckets (ctable s) s)"

subsection \<open>Representation invariant\<close>

definition cr_nx :: "'a heap_scheme \<Rightarrow> addr \<rightharpoonup> addr" where
  "cr_nx s p = map_option cr_next (h_cr s p)"

definition cr_key :: "'a heap_scheme \<Rightarrow> addr \<Rightarrow> rpc_endpoint option" where
  "cr_key s p = Option.bind (h_cr s p) (\<lambda>c. h_ep s (cr_ep c))"

definition cr_epp :: "'a heap_scheme \<Rightarrow> addr \<Rightarrow> addr" where
  "cr_epp s p = (case h_cr s p of None \<Rightarrow> NULL | Some c \<Rightarrow> cr_ep c)"

text \<open>\<open>ctab_rep s L\<close>: bucket \<open>i\<close> is a NULL-terminated chain through the records \<open>L ! i\<close>, every record
  of it has an allocated endpoint that hashes to \<open>i\<close>, and no two records share an endpoint.\<close>

definition ctab_rep :: "'a ctab_scheme \<Rightarrow> addr list list \<Rightarrow> bool" where
  "ctab_rep s L \<longleftrightarrow> heap_ok s \<and> length (ctable s) = CTABLE_SIZE \<and> length L = CTABLE_SIZE
     \<and> (\<forall>i<CTABLE_SIZE. chain (cr_nx s) (ctable s ! i) (L ! i))
     \<and> (\<forall>i<CTABLE_SIZE. \<forall>p\<in>set (L ! i). \<exists>e. cr_key s p = Some e \<and> ep_bucket e = i)
     \<and> inj_on (cr_epp s) (set (concat L))"

lemma ep_bucket_less [simp]: "ep_bucket e < CTABLE_SIZE"
  using endpoint_hash_less [of 31 e] by (simp add: ep_bucket_def word_less_nat_alt)

lemma cr_chain_Cons:
  "chain (cr_nx s) p (a # as) \<Longrightarrow>
     \<exists>c. h_cr s a = Some c \<and> chain (cr_nx s) (cr_next c) as \<and> p = a \<and> a \<noteq> NULL"
  by (cases "h_cr s a") (simp_all add: cr_nx_def)

lemma in_concat_nth: "p \<in> set (concat L) \<longleftrightarrow> (\<exists>i<length L. p \<in> set (L ! i))"
  by (metis UN_iff in_set_conv_nth nth_mem set_concat)

lemma concat_push: "i < length L \<Longrightarrow> set (concat (L[i := x # L ! i])) = insert x (set (concat L))"
  by (induction L arbitrary: i) (auto split: nat.splits)

lemma ctab_repD:
  assumes "ctab_rep s L"
  shows "heap_ok s" "length (ctable s) = CTABLE_SIZE" "length L = CTABLE_SIZE"
    "i < CTABLE_SIZE \<Longrightarrow> chain (cr_nx s) (ctable s ! i) (L ! i)"
    "inj_on (cr_epp s) (set (concat L))"
  using assms by (auto simp: ctab_rep_def)

lemma ctab_rep_key:
  assumes "ctab_rep s L" "i < CTABLE_SIZE" "p \<in> set (L ! i)"
  obtains c e where "h_cr s p = Some c" "h_ep s (cr_ep c) = Some e" "ep_bucket e = i"
    "cr_key s p = Some e"
proof -
  from assms obtain e where e: "cr_key s p = Some e" "ep_bucket e = i"
    unfolding ctab_rep_def by blast
  then show thesis using that by (auto simp: cr_key_def split: bind_splits)
qed

lemma ctab_rep_keyD:
  "ctab_rep s L \<Longrightarrow> i < CTABLE_SIZE \<Longrightarrow> p \<in> set (L ! i) \<Longrightarrow>
     \<exists>c e. h_cr s p = Some c \<and> h_ep s (cr_ep c) = Some e \<and> ep_bucket e = i"
  by (metis ctab_rep_key)

lemma ctab_rep_record:
  assumes "ctab_rep s L" "p \<in> set (concat L)"
  obtains c e where "h_cr s p = Some c" "h_ep s (cr_ep c) = Some e" "p \<in> set (L ! ep_bucket e)"
    "p \<noteq> NULL"
proof -
  from assms obtain i where i: "i < CTABLE_SIZE" "p \<in> set (L ! i)"
    unfolding in_concat_nth ctab_repD(3) [OF assms(1)] by blast
  moreover have "p \<noteq> NULL" using chain_not_NULL [OF ctab_repD(4) [OF assms(1) i(1)]] i(2) by metis
  ultimately show thesis using that ctab_rep_key [OF assms(1) i] by metis
qed

text \<open>Buckets are disjoint and free of repetitions.\<close>

lemma ctab_rep_bucket_unique:
  assumes "ctab_rep s L" "i < CTABLE_SIZE" "j < CTABLE_SIZE" "p \<in> set (L ! i)" "p \<in> set (L ! j)"
  shows "i = j"
  using ctab_rep_key [OF assms(1,2,4)] ctab_rep_key [OF assms(1,3,5)] by (metis option.inject)

lemma ctab_rep_distinct: "ctab_rep s L \<Longrightarrow> i < CTABLE_SIZE \<Longrightarrow> distinct (L ! i)"
  using chain_distinct ctab_repD(4) by blast

text \<open>The invariant only depends on the \<^verbatim>\<open>next\<close> and \<^verbatim>\<open>ep\<close> fields of the records in the table, on
  the endpoints they own and on the bucket heads.\<close>

lemma ctab_rep_cong:
  assumes rep: "ctab_rep s L" and ok: "heap_ok t" and tab: "ctable t = ctable s"
    and cr: "\<And>p c. p \<in> set (concat L) \<Longrightarrow> h_cr s p = Some c \<Longrightarrow>
        \<exists>c'. h_cr t p = Some c' \<and> cr_next c' = cr_next c \<and> cr_ep c' = cr_ep c
           \<and> h_ep t (cr_ep c) = h_ep s (cr_ep c)"
  shows "ctab_rep t L"
proof -
  have eq: "cr_nx t p = cr_nx s p \<and> cr_key t p = cr_key s p \<and> cr_epp t p = cr_epp s p"
    if "p \<in> set (concat L)" for p
  proof -
    from rep that obtain c e where "h_cr s p = Some c" by (rule ctab_rep_record)
    with cr [OF that] show ?thesis by (auto simp: cr_nx_def cr_key_def cr_epp_def)
  qed
  have len: "length L = CTABLE_SIZE" using ctab_repD(3) [OF rep] .
  have sub: "p \<in> set (concat L)" if "i < CTABLE_SIZE" "p \<in> set (L ! i)" for i p
    using that len unfolding in_concat_nth by metis
  have "chain (cr_nx t) (ctable t ! i) (L ! i)" if "i < CTABLE_SIZE" for i
    using ctab_repD(4) [OF rep that] eq sub [OF that] chain_cong [of "L ! i" "cr_nx s" "cr_nx t"]
    by (simp add: tab)
  moreover have "inj_on (cr_epp t) (set (concat L))"
    using ctab_repD(5) [OF rep] eq by (subst inj_on_cong [of _ _ "cr_epp s"]) auto
  moreover have "\<exists>e. cr_key t p = Some e \<and> ep_bucket e = i" if "i < CTABLE_SIZE" "p \<in> set (L ! i)" for i p
    using ctab_rep_key [OF rep that] eq [OF sub [OF that]] by metis
  ultimately show ?thesis using rep ok tab by (auto simp: ctab_rep_def)
qed

lemma ctab_rep_upd_cr:
  assumes "ctab_rep s L" "upd_cr p f s = Some t"
    and "\<And>c. cr_next (f c) = cr_next c" "\<And>c. cr_ep (f c) = cr_ep c"
  shows "ctab_rep t L"
proof -
  from assms(2) obtain c where c: "h_cr s p = Some c" "t = s\<lparr>h_cr := (h_cr s)(p \<mapsto> f c)\<rparr>"
    by (cases "h_cr s p") auto
  have "heap_ok t" using c heap_ok_range(2) ctab_repD(1) [OF assms(1)] heap_ok_upd(2) by metis
  with assms(1) show ?thesis
    by (rule ctab_rep_cong) (use c assms(3,4) in \<open>auto\<close>)
qed

subsection \<open>Lookup\<close>

interpretation ctab_search: chain_search
  "cr_nx :: 'a ctab_scheme \<Rightarrow> _" "cr_key :: 'a ctab_scheme \<Rightarrow> _" endpoint_equal ctable_walk
proof
  show "ctable_walk s k NULL = Some NULL" for s :: "'a ctab_scheme" and k
    by (simp add: ctable_walk.simps)
  show "ctable_walk s k r = (if endpoint_equal k k' then Some r else ctable_walk s k q)"
    if "r \<noteq> NULL" "cr_nx s r = Some q" "cr_key s r = Some k'" for s :: "'a ctab_scheme" and r q k k'
    using that by (subst ctable_walk.simps) (auto simp: cr_nx_def cr_key_def split: bind_splits)
qed

definition ep_match :: "'a heap_scheme \<Rightarrow> rpc_endpoint \<Rightarrow> addr \<Rightarrow> bool" where
  "ep_match s ep p = endpoint_equal ep (the (cr_key s p))"

lemma ctable_lookup_rep:
  assumes "ctab_rep s L"
  shows "ctable_lookup ep s = Some (first_hit (ep_match s ep) (L ! ep_bucket ep))"
proof -
  have "cr_key s a \<noteq> None" if "a \<in> set (L ! ep_bucket ep)" for a
    using ctab_rep_key [OF assms ep_bucket_less that] by auto
  then have "ctable_walk s ep (ctable s ! ep_bucket ep) =
      Some (first_hit (\<lambda>a. endpoint_equal ep (the (cr_key s a))) (L ! ep_bucket ep))"
    using ctab_search.walk_chain [OF ctab_repD(4) [OF assms ep_bucket_less]] by blast
  then show ?thesis by (simp add: ctable_lookup_def ep_match_def [abs_def])
qed

text \<open>A record the lookup returns is in the table and has the wanted subport and bucket.\<close>

lemma ctable_lookup_found:
  assumes "ctab_rep s L" "ctable_lookup ep s = Some p" "p \<noteq> NULL"
  obtains c e where "p \<in> set (L ! ep_bucket ep)" "h_cr s p = Some c" "h_ep s (cr_ep c) = Some e"
    "ep_subport e = ep_subport ep" "ep_bucket e = ep_bucket ep" "p \<in> set (concat L)"
proof -
  from assms have p: "p \<in> set (L ! ep_bucket ep)" "ep_match s ep p"
    using ctable_lookup_rep [OF assms(1), of ep] first_hit_hit [of "ep_match s ep" "L ! ep_bucket ep"]
    by auto
  moreover have "p \<in> set (concat L)"
    using p(1) ctab_repD(3) [OF assms(1)] in_concat_nth ep_bucket_less by metis
  ultimately show thesis
    using that ctab_rep_key [OF assms(1) ep_bucket_less p(1)] by (metis ep_match_def endpoint_equal_iff option.sel)
qed

subsection \<open>Insertion\<close>

text \<open>Linking an unlinked record with an endpoint of its own in front of its bucket.\<close>

lemma ctable_insert_rep:
  assumes rep: "ctab_rep s L" and c: "h_cr s p = Some c" and e: "h_ep s (cr_ep c) = Some e"
    and new: "p \<notin> set (concat L)" and own: "cr_ep c \<notin> cr_epp s ` set (concat L)"
  defines "t \<equiv> s\<lparr>h_cr := (h_cr s)(p \<mapsto> c\<lparr>cr_next := ctable s ! ep_bucket e\<rparr>),
                 ctable := (ctable s)[ep_bucket e := p]\<rparr>"
  shows "ctable_insert p s = Some t" "ctab_rep t (L[ep_bucket e := p # L ! ep_bucket e])"
proof -
  show "ctable_insert p s = Some t" using c e by (simp add: ctable_insert_def t_def Let_def)
  let ?i = "ep_bucket e" and ?L = "L[ep_bucket e := p # L ! ep_bucket e]"
  have len: "length (ctable s) = CTABLE_SIZE" "length L = CTABLE_SIZE" and ok: "heap_ok s"
    using ctab_repD [OF rep] by auto
  have p0: "p \<noteq> NULL" using heap_ok_range(2) [OF ok c] by simp
  have nx: "cr_nx t = (cr_nx s)(p \<mapsto> ctable s ! ?i)" and tab: "ctable t = (ctable s)[?i := p]"
    by (auto simp: cr_nx_def t_def)
  have notin: "p \<notin> set (L ! i)" if "i < CTABLE_SIZE" for i
    using new that len unfolding in_concat_nth by metis
  have old: "cr_key t q = cr_key s q \<and> cr_epp t q = cr_epp s q" if "q \<noteq> p" for q
    using that by (simp add: cr_key_def cr_epp_def t_def)
  have key: "cr_key t p = Some e" "cr_epp t p = cr_ep c" using e by (simp_all add: cr_key_def cr_epp_def t_def)
  have chains: "chain (cr_nx t) (ctable t ! i) (?L ! i)" if "i < CTABLE_SIZE" for i
    using ctab_repD(4) [OF rep that] ctab_repD(4) [OF rep, of ?i] notin [OF that] notin [of ?i] p0 len
    by (cases "i = ?i") (auto simp: nx tab chain_simps)
  have keys: "\<exists>e'. cr_key t q = Some e' \<and> ep_bucket e' = i" if "i < CTABLE_SIZE" "q \<in> set (?L ! i)" for i q
  proof (cases "q = p")
    case True
    with that notin [of i] len key show ?thesis by (cases "i = ?i") auto
  next
    case False
    with that len have "q \<in> set (L ! i)" by (cases "i = ?i") auto
    with ctab_rep_key [OF rep that(1)] old [OF False] show ?thesis by metis
  qed
  have "set (concat ?L) = insert p (set (concat L))"
    using len by (intro concat_push) simp
  moreover have "inj_on (cr_epp t) (set (concat L))"
    using ctab_repD(5) [OF rep] old new by (subst inj_on_cong [of _ _ "cr_epp s"]) metis+
  moreover have "cr_epp t p \<notin> cr_epp t ` set (concat L)"
    unfolding key(2) using own new old by (metis (no_types, lifting) image_cong)
  ultimately have "inj_on (cr_epp t) (set (concat ?L))" using new by (simp add: inj_on_insert)
  moreover have "heap_ok t"
    using heap_ok_upd(2) [OF ok heap_ok_range(2) [OF ok c]] by (auto simp: t_def heap_ok_def)
  ultimately show "ctab_rep t ?L" using chains keys len by (simp add: ctab_rep_def t_def)
qed

lemma ctable_lookup_insert:
  assumes rep: "ctab_rep s L" and c: "h_cr s p = Some c" and e: "h_ep s (cr_ep c) = Some e"
    and new: "p \<notin> set (concat L)" and own: "cr_ep c \<notin> cr_epp s ` set (concat L)"
  shows "\<exists>t. ctable_insert p s = Some t \<and> ctable_lookup e t = Some p"
proof -
  from ctable_insert_rep [OF assms] obtain t where t: "ctable_insert p s = Some t"
      "ctab_rep t (L[ep_bucket e := p # L ! ep_bucket e])" and
      t': "t = s\<lparr>h_cr := (h_cr s)(p \<mapsto> c\<lparr>cr_next := ctable s ! ep_bucket e\<rparr>),
                 ctable := (ctable s)[ep_bucket e := p]\<rparr>"
    by blast
  have "ep_match t e p" using e by (simp add: ep_match_def cr_key_def t')
  with t ctable_lookup_rep [OF t(2), of e] ctab_repD(3) [OF rep] show ?thesis by simp
qed

subsection \<open>Removal\<close>

interpretation ctab_unlink: chain_unlink
  "cr_nx :: 'a ctab_scheme \<Rightarrow> _" "\<lambda>s p. map_option (\<lambda>_. cr = p) (h_cr s p)"
  "ctable_cut hash" "ctable_unlink cr hash" for cr hash
proof
  show "ctable_unlink cr hash pr NULL s = Some s" for pr and s :: "'a ctab_scheme"
    by (simp add: ctable_unlink.simps)
  show "ctable_unlink cr hash pr cu s = (if h then ctable_cut hash pr q s else ctable_unlink cr hash cu q s)"
    if "cu \<noteq> NULL" "cr_nx s cu = Some q" "map_option (\<lambda>_. cr = cu) (h_cr s cu) = Some h"
    for cu pr q h and s :: "'a ctab_scheme"
    using that by (subst ctable_unlink.simps) (auto simp: cr_nx_def)
qed

text \<open>Unlinking changes the \<^verbatim>\<open>next\<close> field of at most one record of the bucket and nothing else.\<close>

definition only_next :: "'a heap_scheme \<Rightarrow> 'a heap_scheme \<Rightarrow> bool" where
  "only_next s t \<longleftrightarrow> (\<forall>p. map_option (cr_next_update (\<lambda>_. NULL)) (h_cr t p)
                      = map_option (cr_next_update (\<lambda>_. NULL)) (h_cr s p))
     \<and> h_ep t = h_ep s \<and> h_sr t = h_sr s \<and> h_el t = h_el s \<and> h_lh t = h_lh s
     \<and> nalloc t = nalloc s"

lemma ctable_remove_chain:
  assumes rep: "ctab_rep s L" and i: "i < CTABLE_SIZE" and Li: "L ! i = as @ p # bs"
  shows "\<exists>t q. ctable_remove p s = ctable_cut i (last (NULL # as)) q s \<and> cr_nx s p = Some q
           \<and> ctable_remove p s = Some t \<and> chain (cr_nx t) (ctable t ! i) (as @ bs)
           \<and> (\<forall>x. x \<notin> set as \<longrightarrow> cr_nx t x = cr_nx s x) \<and> only_next s t
           \<and> (\<forall>j. j \<noteq> i \<longrightarrow> ctable t ! j = ctable s ! j) \<and> length (ctable t) = length (ctable s)"
proof -
  have ch: "chain (cr_nx s) (ctable s ! i) (as @ p # bs)" using ctab_repD(4) [OF rep i] Li by simp
  obtain c e where c: "h_cr s p = Some c" "h_ep s (cr_ep c) = Some e" "ep_bucket e = i"
    using ctab_rep_keyD [OF rep i, of p] Li by auto
  have q: "cr_nx s p = Some (cr_next c)" using c by (simp add: cr_nx_def)
  have d: "distinct (as @ p # bs)" using chain_distinct [OF ch] .
  have hit: "map_option (\<lambda>_. p = a) (h_cr s a) = Some False" if "a \<in> set as" for a
    using that d ctab_rep_keyD [OF rep i, of a] Li by auto
  have eq: "ctable_remove p s = ctable_cut i (last (NULL # as)) (cr_next c) s"
    using ctab_unlink.loop_hit [OF ch, of p "cr_next c" i NULL] hit c q
    by (simp add: ctable_remove_def Let_def)
  show ?thesis
  proof (cases as rule: rev_cases)
    case Nil
    have "chain (cr_nx s) (cr_next c) bs" using ch Nil q by auto
    then show ?thesis
      using eq Nil q i ctab_repD(2) [OF rep] by (auto simp: ctable_cut_def only_next_def cr_nx_def [abs_def])
  next
    case (snoc cs b)
    obtain cb where cb: "h_cr s b = Some cb" using ctab_rep_keyD [OF rep i, of b] Li snoc by auto
    have b0: "b \<noteq> NULL" using chain_not_NULL [OF ch] snoc by auto
    let ?t = "s\<lparr>h_cr := (h_cr s)(b \<mapsto> cb\<lparr>cr_next := cr_next c\<rparr>)\<rparr>"
    have t: "ctable_remove p s = Some ?t" using eq snoc b0 cb by (simp add: ctable_cut_def)
    have "cr_nx ?t = (cr_nx s)(b := cr_nx s p)" using q by (auto simp: cr_nx_def)
    moreover from this have "chain (cr_nx ?t) (ctable ?t ! i) (as @ bs)"
      using chain_unlink [of "cr_nx s" "ctable s ! i" cs b p bs] ch snoc by simp
    ultimately show ?thesis
      using t eq q snoc cb by (intro exI [of _ ?t] exI [of _ "cr_next c"]) (auto simp: only_next_def)
  qed
qed

lemma ctable_remove_frame:
  assumes "ctab_rep s L" "p \<in> set (concat L)" "ctable_remove p s = Some t"
  shows "t = s\<lparr>h_cr := h_cr t, ctable := ctable t\<rparr>"
proof -
  obtain i where i: "i < CTABLE_SIZE" "p \<in> set (L ! i)"
    using assms(2) unfolding in_concat_nth ctab_repD(3) [OF assms(1)] by blast
  then obtain as bs where "L ! i = as @ p # bs" by (metis split_list)
  then obtain pr q where "ctable_remove p s = ctable_cut i pr q s"
    using ctable_remove_chain [OF assms(1) i(1)] by metis
  with assms(3) show ?thesis
    by (cases "h_cr s pr") (auto simp: ctable_cut_def upd_cr_def split: if_splits)
qed

lemma only_next_key:
  assumes "only_next s t"
  shows "cr_key t p = cr_key s p" "cr_epp t p = cr_epp s p" "dom (h_cr t) = dom (h_cr s)"
    "h_ep t = h_ep s"
proof -
  have m: "map_option (cr_next_update (\<lambda>_. NULL)) (h_cr t q) = map_option (cr_next_update (\<lambda>_. NULL)) (h_cr s q)"
    for q using assms by (simp add: only_next_def)
  have "map_option cr_ep (h_cr t q) = map_option cr_ep (h_cr s q)" for q
    using arg_cong [OF m, of "map_option cr_ep" q] by (simp add: option.map_comp comp_def)
  then have e: "h_cr t q = None \<and> h_cr s q = None \<or>
      (\<exists>c c'. h_cr t q = Some c \<and> h_cr s q = Some c' \<and> cr_ep c = cr_ep c')" for q
    by (cases "h_cr t q"; cases "h_cr s q") (metis option.simps(8,9) option.distinct(1) option.inject)+
  show ep: "h_ep t = h_ep s" using assms by (simp add: only_next_def)
  show "cr_key t p = cr_key s p" "cr_epp t p = cr_epp s p"
    using e [of p] ep by (auto simp: cr_key_def cr_epp_def)
  show "dom (h_cr t) = dom (h_cr s)" using e by (force simp: dom_def)
qed

lemma ctable_remove_rep:
  assumes rep: "ctab_rep s L" and i: "i < CTABLE_SIZE" and p: "p \<in> set (L ! i)"
  obtains t where "ctable_remove p s = Some t" "ctab_rep t (L[i := remove1 p (L ! i)])" "only_next s t"
proof -
  from p obtain as bs where Li: "L ! i = as @ p # bs" "p \<notin> set as"
    by (metis split_list_first)
  then have rm: "remove1 p (L ! i) = as @ bs" by (simp add: remove1_append)
  let ?L = "L[i := as @ bs]"
  obtain t where t: "ctable_remove p s = Some t" "chain (cr_nx t) (ctable t ! i) (as @ bs)"
      "\<forall>x. x \<notin> set as \<longrightarrow> cr_nx t x = cr_nx s x" "only_next s t"
      "\<forall>j. j \<noteq> i \<longrightarrow> ctable t ! j = ctable s ! j" "length (ctable t) = length (ctable s)"
    using ctable_remove_chain [OF rep i Li(1)] by blast
  note key = only_next_key [OF t(4)]
  have len: "length L = CTABLE_SIZE" using ctab_repD(3) [OF rep] .
  have sub: "q \<in> set (L ! j)" if "j < CTABLE_SIZE" "q \<in> set (?L ! j)" for j q
    using that len Li by (cases "j = i") auto
  have "chain (cr_nx t) (ctable t ! j) (?L ! j)" if j: "j < CTABLE_SIZE" for j
  proof (cases "j = i")
    case False
    have "x \<notin> set as" if "x \<in> set (L ! j)" for x
      using ctab_rep_bucket_unique [OF rep i j, of x] that False Li by auto
    then show ?thesis
      using ctab_repD(4) [OF rep j] t(3,5) False chain_cong [of "L ! j" "cr_nx t" "cr_nx s"] by auto
  qed (use t(2) len i in simp)
  moreover have "\<exists>e. cr_key t q = Some e \<and> ep_bucket e = j" if "j < CTABLE_SIZE" "q \<in> set (?L ! j)" for j q
    using ctab_rep_key [OF rep that(1) sub [OF that]] key(1) by metis
  moreover have "set (concat ?L) \<subseteq> set (concat L)"
    using sub len by (force simp: in_concat_nth simp del: set_concat)
  then have "inj_on (cr_epp t) (set (concat ?L))"
    using inj_on_subset [OF ctab_repD(5) [OF rep]] key(2) by (metis ext)
  moreover have "heap_ok t"
    using ctab_repD(1) [OF rep] key(3) t(4) by (simp add: heap_ok_def only_next_def)
  ultimately have "ctab_rep t ?L" using t(6) ctab_repD(2) [OF rep] len by (simp add: ctab_rep_def)
  with t rm that show thesis by metis
qed

subsection \<open>The timer scan\<close>

text \<open>The scan on lists: which of the records \<open>ps\<close> get the verdict \<open>v\<close>, most recent first.\<close>

definition verdict :: "'a heap_scheme \<Rightarrow> addr \<Rightarrow> scan_verdict" where
  "verdict s p = (case h_cr s p of None \<Rightarrow> Keep | Some c \<Rightarrow> fst (scan_record c))"

definition cr_lk :: "'a heap_scheme \<Rightarrow> addr \<rightharpoonup> addr" where
  "cr_lk s p = map_option cr_link (h_cr s p)"

definition sl_of :: "scan_verdict \<Rightarrow> scan_lists \<Rightarrow> addr" where
  "sl_of v l = (case v of Keep \<Rightarrow> NULL | Retry \<Rightarrow> sl_retry l | Timed \<Rightarrow> sl_timed l
                | Ping \<Rightarrow> sl_ping l | Purge \<Rightarrow> sl_purge l)"

lemma scan_record_fields:
  "cr_next (snd (scan_record c)) = cr_next c" "cr_ep (snd (scan_record c)) = cr_ep c"
  "cr_link (snd (scan_record c)) = cr_link c" "cr_state (snd (scan_record c)) = cr_state c"
  "cr_seqno (snd (scan_record c)) = cr_seqno c" "cr_pl (snd (scan_record c)) = cr_pl c"
  "cr_svc (snd (scan_record c)) = cr_svc c" "cr_resp (snd (scan_record c)) = cr_resp c"
  "cr_size (snd (scan_record c)) = cr_size c"
  by (simp_all add: scan_record_def Let_def)

lemma scan_push_fields:
  "scan_push v p c l = (c', l') \<Longrightarrow> cr_next c' = cr_next c \<and> cr_ep c' = cr_ep c
     \<and> cr_state c' = cr_state c \<and> c' = c\<lparr>cr_link := cr_link c'\<rparr>"
  "scan_push v p c l = (c', l') \<Longrightarrow> v \<noteq> Keep \<Longrightarrow> cr_link c' = sl_of v l \<and> sl_of v l' = p"
  "scan_push v p c l = (c', l') \<Longrightarrow> w \<noteq> v \<Longrightarrow> sl_of w l' = sl_of w l"
  by (auto simp: scan_push_def sl_of_def split: scan_verdict.splits)

text \<open>One chain: the records outside it keep their state, those in it are updated, and each result
  list grows by the records that got its verdict.\<close>

lemma scan_chain_ok:
  assumes "chain (cr_nx s) p ps" "distinct (ps @ qs)"
    and "\<And>v. v \<noteq> Keep \<Longrightarrow> chain (cr_lk s) (sl_of v l) (M v)" "\<And>v. v \<noteq> Keep \<Longrightarrow> set (M v) \<subseteq> set qs"
  shows "\<exists>l' t. scan_chain p l s = Some (l', t)
     \<and> (\<forall>v. v \<noteq> Keep \<longrightarrow> chain (cr_lk t) (sl_of v l') (rev (filter (\<lambda>x. verdict s x = v) ps) @ M v))
     \<and> (\<forall>x c. x \<in> set ps \<longrightarrow> h_cr s x = Some c \<longrightarrow>
           (\<exists>k. h_cr t x = Some ((snd (scan_record c))\<lparr>cr_link := k\<rparr>)))
     \<and> t = s\<lparr>h_cr := h_cr t\<rparr> \<and> (\<forall>x. x \<notin> set ps \<longrightarrow> h_cr t x = h_cr s x)"
  using assms
proof (induction ps arbitrary: p l s M qs)
  case Nil
  then show ?case by (subst scan_chain.simps) auto
next
  case (Cons a ps)
  from cr_chain_Cons [OF Cons.prems(1)]
  obtain c where c: "h_cr s a = Some c" "chain (cr_nx s) (cr_next c) ps" "p = a" "a \<noteq> NULL"
    by blast
  define v0 where "v0 = fst (scan_record c)"
  obtain c'' l1 where push: "scan_push v0 a (snd (scan_record c)) l = (c'', l1)" by force
  note f = scan_push_fields [OF push] and g = scan_record_fields [of c]
  define u where "u = s\<lparr>h_cr := (h_cr s)(a \<mapsto> c'')\<rparr>"
  define M1 where "M1 v = (if v = v0 then a # M v else M v)" for v
  have step: "scan_chain p l s = scan_chain (cr_next c) l1 u"
    using c push f(1) g by (subst scan_chain.simps) (simp add: u_def v0_def split_beta)
  have lk: "cr_lk u = (cr_lk s)(a \<mapsto> cr_link c'')" and nx: "cr_nx u = (cr_nx s)(a \<mapsto> cr_next c)"
    using f(1) g by (auto simp: u_def cr_lk_def cr_nx_def)
  have d: "a \<notin> set ps" "a \<notin> set qs" "distinct (ps @ a # qs)" using Cons.prems(2) by auto
  have M1: "chain (cr_lk u) (sl_of v l1) (M1 v)" if "v \<noteq> Keep" for v
  proof (cases "v = v0")
    case True
    have "a \<notin> set (M v)" using Cons.prems(4) [OF that] d by blast
    then show ?thesis
      using True f(2) that c Cons.prems(3) [OF that] by (simp add: M1_def lk chain_simps)
  next
    case False
    have "a \<notin> set (M v)" using Cons.prems(4) [OF that] d by blast
    then show ?thesis
      using False f(3) that Cons.prems(3) [OF that] by (simp add: M1_def lk chain_simps)
  qed
  have M1': "set (M1 v) \<subseteq> set (a # qs)" if "v \<noteq> Keep" for v
    using Cons.prems(4) [OF that] by (auto simp: M1_def)
  have "chain (cr_nx u) (cr_next c) ps" using c d by (simp add: nx chain_simps)
  from Cons.IH [OF this d(3) M1 M1'] obtain l' t where t: "scan_chain (cr_next c) l1 u = Some (l', t)"
    "\<And>v. v \<noteq> Keep \<Longrightarrow> chain (cr_lk t) (sl_of v l') (rev (filter (\<lambda>x. verdict u x = v) ps) @ M1 v)"
    "\<And>x c. x \<in> set ps \<Longrightarrow> h_cr u x = Some c \<Longrightarrow>
       \<exists>k. h_cr t x = Some ((snd (scan_record c))\<lparr>cr_link := k\<rparr>)"
    "t = u\<lparr>h_cr := h_cr t\<rparr>" "\<And>x. x \<notin> set ps \<Longrightarrow> h_cr t x = h_cr u x"
    by blast
  have vu: "verdict u x = verdict s x" if "x \<in> set ps" for x using that d by (auto simp: verdict_def u_def)
  have va: "verdict s a = v0" using c by (simp add: verdict_def v0_def)
  have lists: "rev (filter (\<lambda>x. verdict u x = v) ps) @ M1 v = rev (filter (\<lambda>x. verdict s x = v) (a # ps)) @ M v"
    for v using va by (simp add: M1_def vu cong: filter_cong)
  have "\<exists>k. h_cr t x = Some ((snd (scan_record c'))\<lparr>cr_link := k\<rparr>)"
    if "x \<in> set (a # ps)" "h_cr s x = Some c'" for x c'
  proof (cases "x = a")
    case True
    with t(5) [of a] d c that f(1) show ?thesis by (auto simp: u_def)
  qed (use that t(3) [of x c'] d in \<open>auto simp: u_def\<close>)
  moreover have "t = s\<lparr>h_cr := h_cr t\<rparr>" using t(4) by (simp add: u_def)
  moreover have "\<forall>x. x \<notin> set (a # ps) \<longrightarrow> h_cr t x = h_cr s x" using t(5) by (auto simp: u_def)
  ultimately show ?case using t(1,2) step lists by auto
qed

lemma scan_chain_nx:
  assumes "chain (cr_nx s) p ps"
    and "\<And>x c. x \<in> set ps \<Longrightarrow> h_cr s x = Some c \<Longrightarrow>
           \<exists>k. h_cr t x = Some ((snd (scan_record c))\<lparr>cr_link := k\<rparr>)"
    and "\<And>x. x \<notin> set ps \<Longrightarrow> h_cr t x = h_cr s x"
  shows "cr_nx t = cr_nx s"
proof
  fix x
  show "cr_nx t x = cr_nx s x"
  proof (cases "x \<in> set ps")
    case True
    then obtain c where "h_cr s x = Some c"
      using chain_dom [OF assms(1)] by (cases "h_cr s x") (auto simp: cr_nx_def dom_def)
    with assms(2) [OF True this] show ?thesis by (auto simp: cr_nx_def scan_record_fields)
  qed (use assms(3) in \<open>simp add: cr_nx_def\<close>)
qed

lemma scan_buckets_ok:
  assumes "list_all2 (chain (cr_nx s)) bs Ls" "distinct (concat Ls @ qs)"
    and "\<And>v. v \<noteq> Keep \<Longrightarrow> chain (cr_lk s) (sl_of v l) (M v)" "\<And>v. v \<noteq> Keep \<Longrightarrow> set (M v) \<subseteq> set qs"
  shows "\<exists>l' t. scan_buckets bs l s = Some (l', t)
     \<and> (\<forall>v. v \<noteq> Keep \<longrightarrow>
           chain (cr_lk t) (sl_of v l') (rev (filter (\<lambda>x. verdict s x = v) (concat Ls)) @ M v))
     \<and> (\<forall>x c. x \<in> set (concat Ls) \<longrightarrow> h_cr s x = Some c \<longrightarrow>
           (\<exists>k. h_cr t x = Some ((snd (scan_record c))\<lparr>cr_link := k\<rparr>)))
     \<and> t = s\<lparr>h_cr := h_cr t\<rparr> \<and> (\<forall>x. x \<notin> set (concat Ls) \<longrightarrow> h_cr t x = h_cr s x)"
  using assms
proof (induction bs arbitrary: Ls l s M qs)
  case Nil
  then show ?case by simp
next
  case (Cons b bs)
  then obtain ps Ls' where Ls: "Ls = ps # Ls'" "chain (cr_nx s) b ps" "list_all2 (chain (cr_nx s)) bs Ls'"
    by (auto simp: list_all2_Cons1)
  have d: "distinct (ps @ qs)" "distinct (concat Ls' @ ps @ qs)" "set ps \<inter> set (concat Ls') = {}"
    using Cons.prems(2) Ls(1) by auto
  from scan_chain_ok [OF Ls(2) d(1) Cons.prems(3,4)] obtain l1 u where
    u: "scan_chain b l s = Some (l1, u)"
    "\<And>v. v \<noteq> Keep \<Longrightarrow> chain (cr_lk u) (sl_of v l1) (rev (filter (\<lambda>x. verdict s x = v) ps) @ M v)"
    "\<And>x c. x \<in> set ps \<Longrightarrow> h_cr s x = Some c \<Longrightarrow>
       \<exists>k. h_cr u x = Some ((snd (scan_record c))\<lparr>cr_link := k\<rparr>)"
    "u = s\<lparr>h_cr := h_cr u\<rparr>" "\<And>x. x \<notin> set ps \<Longrightarrow> h_cr u x = h_cr s x" by blast
  have nx: "cr_nx u = cr_nx s" by (rule scan_chain_nx [OF Ls(2) u(3,5)])
  define M1 where "M1 v = rev (filter (\<lambda>x. verdict s x = v) ps) @ M v" for v
  have M1: "chain (cr_lk u) (sl_of v l1) (M1 v)" "set (M1 v) \<subseteq> set (ps @ qs)" if "v \<noteq> Keep" for v
    using u(2) [OF that] Cons.prems(4) [OF that] by (auto simp: M1_def)
  have "list_all2 (chain (cr_nx u)) bs Ls'" using Ls(3) nx by simp
  from Cons.IH [OF this d(2) M1] obtain l' t where t: "scan_buckets bs l1 u = Some (l', t)"
    "\<And>v. v \<noteq> Keep \<Longrightarrow>
       chain (cr_lk t) (sl_of v l') (rev (filter (\<lambda>x. verdict u x = v) (concat Ls')) @ M1 v)"
    "\<And>x c. x \<in> set (concat Ls') \<Longrightarrow> h_cr u x = Some c \<Longrightarrow>
       \<exists>k. h_cr t x = Some ((snd (scan_record c))\<lparr>cr_link := k\<rparr>)"
    "t = u\<lparr>h_cr := h_cr t\<rparr>" "\<And>x. x \<notin> set (concat Ls') \<Longrightarrow> h_cr t x = h_cr u x" by blast
  have same: "h_cr u x = h_cr s x" if "x \<in> set (concat Ls')" for x using u(5) d(3) that by blast
  have "filter (\<lambda>x. verdict u x = v) (concat Ls') = filter (\<lambda>x. verdict s x = v) (concat Ls')" for v
    by (rule filter_cong) (use same in \<open>auto simp: verdict_def\<close>)
  with t(2) have "chain (cr_lk t) (sl_of v l') (rev (filter (\<lambda>x. verdict s x = v) (concat Ls)) @ M v)"
    if "v \<noteq> Keep" for v using that by (simp add: Ls(1) M1_def)
  moreover have "\<exists>k. h_cr t x = Some ((snd (scan_record c))\<lparr>cr_link := k\<rparr>)"
    if "x \<in> set (concat Ls)" "h_cr s x = Some c" for x c
  proof (cases "x \<in> set ps")
    case True
    with d(3) have "h_cr t x = h_cr u x" by (intro t(5)) blast
    with u(3) [OF True that(2)] show ?thesis by simp
  next
    case False
    with that(1) have "x \<in> set (concat Ls')" by (simp add: Ls(1))
    with same [OF this] t(3) [of x c] that(2) show ?thesis by simp
  qed
  moreover have "t = s\<lparr>h_cr := h_cr t\<rparr>" using t(4) u(4) by (metis heap.surjective heap.update_convs(2))
  moreover have "\<forall>x. x \<notin> set (concat Ls) \<longrightarrow> h_cr t x = h_cr s x" using t(5) u(5) by (simp add: Ls(1))
  ultimately show ?case using u(1) t(1) by auto
qed

lemma distinct_concat_nth:
  assumes "\<And>i. i < length L \<Longrightarrow> distinct (L ! i)"
    and "\<And>i j x. i < length L \<Longrightarrow> j < length L \<Longrightarrow> x \<in> set (L ! i) \<Longrightarrow> x \<in> set (L ! j) \<Longrightarrow> i = j"
  shows "distinct (concat L)"
  using assms
proof (induction L)
  case (Cons xs L)
  have "distinct xs" using Cons.prems(1) [of 0] by simp
  moreover have "distinct (concat L)"
    by (rule Cons.IH) (use Cons.prems(1) [of "Suc _"] Cons.prems(2) [of "Suc _" "Suc _"] in auto)
  moreover have "set xs \<inter> set (concat L) = {}"
  proof (rule ccontr)
    assume "set xs \<inter> set (concat L) \<noteq> {}"
    then obtain x j where "x \<in> set xs" "j < length L" "x \<in> set (L ! j)"
      using in_concat_nth [of _ L] by fastforce
    then show False using Cons.prems(2) [of 0 "Suc j" x] by simp
  qed
  ultimately show ?case by simp
qed simp

lemma ctab_rep_distinct_concat: "ctab_rep s L \<Longrightarrow> distinct (concat L)"
  by (rule distinct_concat_nth)
    (use ctab_rep_distinct ctab_rep_bucket_unique ctab_repD(3) in \<open>metis+\<close>)

lemma ctable_scan_ok:
  assumes rep: "ctab_rep s L"
  shows "\<exists>l t. ctable_scan s = Some (l, t) \<and> ctab_rep t L
     \<and> (\<forall>v. v \<noteq> Keep \<longrightarrow> chain (cr_lk t) (sl_of v l) (rev (filter (\<lambda>x. verdict s x = v) (concat L))))
     \<and> (\<forall>x c. x \<in> set (concat L) \<longrightarrow> h_cr s x = Some c \<longrightarrow>
           (\<exists>k. h_cr t x = Some ((snd (scan_record c))\<lparr>cr_link := k\<rparr>)))
     \<and> t = s\<lparr>h_cr := h_cr t\<rparr> \<and> (\<forall>x. x \<notin> set (concat L) \<longrightarrow> h_cr t x = h_cr s x)"
proof -
  let ?l = "\<lparr>sl_retry = NULL, sl_timed = NULL, sl_ping = NULL, sl_purge = NULL\<rparr>"
  have "list_all2 (chain (cr_nx s)) (ctable s) L"
    using ctab_repD [OF rep] by (auto simp: list_all2_conv_all_nth)
  moreover have "distinct (concat L @ [])" using ctab_rep_distinct_concat [OF rep] by simp
  moreover have "chain (cr_lk s) (sl_of v ?l) []" if "v \<noteq> Keep" for v
    by (cases v) (simp_all add: sl_of_def)
  ultimately obtain l t where t: "ctable_scan s = Some (l, t)"
    "\<And>v. v \<noteq> Keep \<Longrightarrow> chain (cr_lk t) (sl_of v l) (rev (filter (\<lambda>x. verdict s x = v) (concat L)))"
    "\<And>x c. x \<in> set (concat L) \<Longrightarrow> h_cr s x = Some c \<Longrightarrow>
       \<exists>k. h_cr t x = Some ((snd (scan_record c))\<lparr>cr_link := k\<rparr>)"
    "t = s\<lparr>h_cr := h_cr t\<rparr>" "\<And>x. x \<notin> set (concat L) \<Longrightarrow> h_cr t x = h_cr s x"
    using scan_buckets_ok [of s "ctable s" L "[]" ?l "\<lambda>_. []"] by (auto simp: ctable_scan_def)
  have dom: "dom (h_cr t) = dom (h_cr s)"
  proof (rule set_eqI)
    fix x
    show "x \<in> dom (h_cr t) \<longleftrightarrow> x \<in> dom (h_cr s)"
      using t(3) [of x] t(5) [of x] ctab_rep_record [OF rep, of x] by (metis domIff option.distinct(1))
  qed
  have "heap_ok t" using ctab_repD(1) [OF rep] dom by (subst t(4)) (simp add: heap_ok_def)
  moreover have "ctable t = ctable s" "h_ep t = h_ep s" by (subst t(4), simp)+
  ultimately have "ctab_rep t L"
    by (intro ctab_rep_cong [OF rep]) (use t(3) scan_record_fields in fastforce)+
  with t show ?thesis by blast
qed

subsection \<open>Exponential back-off and pings\<close>

text \<open>The verdicts of consecutive scans on a record nothing else touches.\<close>

fun scan_verdicts :: "nat \<Rightarrow> c_record \<Rightarrow> scan_verdict list" where
  "scan_verdicts 0 c = []"
| "scan_verdicts (Suc n) c = fst (scan_record c) # scan_verdicts n (snd (scan_record c))"

fun scan_iter :: "nat \<Rightarrow> c_record \<Rightarrow> c_record" where
  "scan_iter 0 c = c"
| "scan_iter (Suc n) c = scan_iter n (snd (scan_record c))"

text \<open>The schedule of a message sent with \<open>a\<close> attempts and a first time-out of \<open>t\<close> ticks.\<close>

fun backoff_schedule :: "nat \<Rightarrow> nat \<Rightarrow> scan_verdict list" where
  "backoff_schedule 0 t = []"
| "backoff_schedule (Suc 0) t = replicate (t - 1) Keep @ [Timed]"
| "backoff_schedule (Suc (Suc a)) t = replicate (t - 1) Keep @ [Retry] @ backoff_schedule (Suc a) (2 * t)"

lemma scan_verdicts_append:
  "scan_verdicts (m + n) c = scan_verdicts m c @ scan_verdicts n (scan_iter m c)"
  by (induction m arbitrary: c) auto

lemma unat_u16_dec: "0 < unat (w :: u16) \<Longrightarrow> unat (w - 1) = unat w - 1"
  by (metis unat_minus_one unat_eq_0 less_numeral_extra(3))

lemma u16_eq_0: "(w :: u16) = 0 \<longleftrightarrow> unat w = 0"
  by (simp add: unat_eq_0)

lemma u16_eq_1: "(w :: u16) = 1 \<longleftrightarrow> unat w = 1"
  by (metis unsigned_1 unsigned_word_eqI)

lemma retry_countdown:
  assumes "retry_state (cr_state c)" "unat (cr_ticksLeft c) = Suc n"
  shows "scan_verdicts n c = replicate n Keep"
    "scan_iter n c = c\<lparr>cr_ticksLeft := 1\<rparr>"
  using assms
proof (induction n arbitrary: c)
  case 0
  {
    case 1
    then show ?case by simp
  next
    case 2
    then have "cr_ticksLeft c = 1" by (simp add: u16_eq_1)
    then show ?case by (cases c) simp
  }
next
  case (Suc n)
  have dec: "unat (cr_ticksLeft c - 1) = Suc n" if "unat (cr_ticksLeft c) = Suc (Suc n)" for c
    using that by (simp add: unat_u16_dec)
  have step: "scan_record c = (Keep, c\<lparr>cr_ticksLeft := cr_ticksLeft c - 1\<rparr>)"
    if "retry_state (cr_state c)" "unat (cr_ticksLeft c) = Suc (Suc n)" for c
  proof -
    have "cr_ticksLeft c - 1 \<noteq> 0" using dec [OF that(2)] by (simp add: u16_eq_0)
    moreover have "cr_state c \<noteq> ST_TIMEDOUT" using that(1) by (auto simp: retry_state_def)
    ultimately show ?thesis using that(1) by (simp add: scan_record_def retry_state_def Let_def)
  qed
  {
    case 1
    then show ?case using Suc(1) [of "c\<lparr>cr_ticksLeft := cr_ticksLeft c - 1\<rparr>"] step [OF 1] dec [OF 1(2)] by simp
  next
    case 2
    then show ?case using Suc(2) [of "c\<lparr>cr_ticksLeft := cr_ticksLeft c - 1\<rparr>"] step [OF 2] dec [OF 2(2)] by simp
  }
qed

lemma retry_expiry:
  assumes "retry_state (cr_state c)" "cr_ticksLeft c = 1"
  shows "scan_record c =
    (let p = c\<lparr>cr_ticksLeft := 0, cr_nattempts := cr_nattempts c - 1\<rparr> in
     if cr_nattempts c = 1 then (Timed, p)
     else (Retry, p\<lparr>cr_ticks := cr_ticks c * 2, cr_ticksLeft := cr_ticks c * 2\<rparr>))"
proof -
  have "cr_state c \<noteq> ST_TIMEDOUT" using assms(1) by (auto simp: retry_state_def)
  then show ?thesis using assms by (auto simp: scan_record_def retry_state_def Let_def)
qed

lemma backoff_run:
  assumes "retry_state (cr_state c)" "unat (cr_ticksLeft c) = t" "unat (cr_ticks c) = t" "0 < t"
    "unat (cr_nattempts c) = Suc a" "t * 2 ^ a < 2 ^ 16"
  shows "scan_verdicts (length (backoff_schedule (Suc a) t)) c = backoff_schedule (Suc a) t"
  using assms
proof (induction a arbitrary: c t)
  case 0
  let ?d = "c\<lparr>cr_ticksLeft := 1\<rparr>"
  have t: "unat (cr_ticksLeft c) = Suc (t - 1)" using 0 by simp
  have "cr_nattempts c = 1" using 0 by (simp add: u16_eq_1)
  then have "fst (scan_record ?d) = Timed" using 0(1) by (simp add: retry_expiry)
  then show ?case
    using scan_verdicts_append [of "t - 1" 1 c] retry_countdown [OF 0(1) t] by simp
next
  case (Suc a)
  let ?d = "c\<lparr>cr_ticksLeft := 1\<rparr>"
  let ?e = "c\<lparr>cr_ticksLeft := cr_ticks c * 2, cr_nattempts := cr_nattempts c - 1, cr_ticks := cr_ticks c * 2\<rparr>"
  have t: "unat (cr_ticksLeft c) = Suc (t - 1)" using Suc.prems by simp
  have "cr_nattempts c \<noteq> 1" using Suc.prems(5) by auto
  then have step: "scan_record ?d = (Retry, ?e)" using Suc.prems(1) by (simp add: retry_expiry)
  have "2 * t \<le> t * 2 ^ Suc a" using Suc.prems(4) by (simp add: Suc_leI)
  then have "2 * t < 2 ^ 16" using Suc.prems(6) by (rule le_less_trans)
  then have dbl: "unat (cr_ticks c * 2) = 2 * t"
    using Suc.prems(3) by (simp add: unat_word_ariths)
  have att: "unat (cr_nattempts c - 1) = Suc a" using Suc.prems(5) by (simp add: unat_u16_dec)
  have IH: "scan_verdicts (length (backoff_schedule (Suc a) (2 * t))) ?e = backoff_schedule (Suc a) (2 * t)"
    by (rule Suc.IH) (use Suc.prems dbl att in auto)
  let ?n = "length (backoff_schedule (Suc a) (2 * t))"
  have "scan_verdicts ((t - 1) + Suc ?n) c = replicate (t - 1) Keep @ Retry # backoff_schedule (Suc a) (2 * t)"
    unfolding scan_verdicts_append using retry_countdown [OF Suc.prems(1) t] step IH by simp
  then show ?case by simp
qed

lemma length_backoff: "0 < t \<Longrightarrow> length (backoff_schedule a t) = t * (2 ^ a - 1)"
proof (induction a t rule: backoff_schedule.induct)
  case (3 a t)
  then have "length (backoff_schedule (Suc a) (2 * t)) = 2 * t * (2 ^ Suc a - 1)" by simp
  moreover define X where "X = t * (4 * 2 ^ a)"
  have "t * 2 \<le> X" unfolding X_def by (rule mult_le_mono2) (simp add: Suc_leI)
  moreover have "2 * t * (2 ^ Suc a - 1) = X - 2 * t" "t * (2 ^ Suc (Suc a) - 1) = X - t"
    by (simp_all add: X_def diff_mult_distrib2)
  ultimately show ?case using 3(2) by simp
qed auto

subsection \<open>Subports\<close>

definition ctr_ok :: "'a ctab_scheme \<Rightarrow> bool" where
  "ctr_ok s \<longleftrightarrow> ctr s \<le> 0x7fff"

lemma ctable_newSubport_ctr:
  assumes "ctr_ok s" "ctable_newSubport pid s = (sp, t)"
  shows "unat (ctr t) = unat (ctr s) mod 0x7fff + 1" "ctr_ok t"
proof -
  have le: "unat (ctr s) \<le> 0x7fff" using assms(1) by (simp add: ctr_ok_def word_le_nat_alt)
  then have inc: "unat (ctr s + 1) = unat (ctr s) + 1" by (simp add: unat_word_ariths)
  have t: "ctr t = (if ctr s + 1 > 0x7fff then 1 else ctr s + 1)"
    using assms(2) by (auto simp: ctable_newSubport_def Let_def)
  have gt: "ctr s + 1 > 0x7fff \<longleftrightarrow> unat (ctr s) = 0x7fff"
    using inc le by (auto simp: word_less_nat_alt)
  show "unat (ctr t) = unat (ctr s) mod 0x7fff + 1"
    using t gt inc le by (cases "unat (ctr s) = 0x7fff") auto
  then show "ctr_ok t" by (simp add: ctr_ok_def word_le_nat_alt)
qed

end
