(* ===== verification/Stable.thy ===== *)
theory Stable
  imports Ctable
begin

text \<open>
  \<^verbatim>\<open>stable.c\<close>: the table of offered services, 13 bucket chains of service records, each with the
  queue its queries are delivered to. The bucket index is \<^verbatim>\<open>hash(name)\<close>, an \<open>int\<close> computed with
  (wrapping) signed arithmetic and a truncating \<^verbatim>\<open>%\<close>: it can be negative, and then the table is
  indexed out of bounds, which is undefined.
\<close>

record stab = ctab +
  stable :: "addr list"

abbreviation (input) STABLE_SIZE :: nat where "STABLE_SIZE \<equiv> 13"

subsection \<open>Operations\<close>

definition hash_acc :: "bytes \<Rightarrow> u32" where
  "hash_acc str = foldl (\<lambda>ans ch. 7 * ans + scast ch) 0 str"

definition hash :: "bytes \<Rightarrow> int" where
  "hash str = (let ans = sint (hash_acc str) in if ans < 0 then - ((- ans) mod 13) else ans mod 13)"

text \<open>The address of \<^verbatim>\<open>stable[hv]\<close>: undefined for an index outside the array.\<close>

definition stable_slot :: "bytes \<Rightarrow> nat option" where
  "stable_slot str = (let hv = hash str in if hv < 0 then None else Some (nat hv))"

definition stable_init :: "'a stab_scheme \<Rightarrow> 'a stab_scheme" where
  "stable_init s = s\<lparr>stable := replicate STABLE_SIZE NULL\<rparr>"

partial_function (option) stable_walk :: "'a stab_scheme \<Rightarrow> bytes \<Rightarrow> addr \<Rightarrow> addr option" where
  "stable_walk s name r =
     (if r = NULL then Some NULL
      else do { sr \<leftarrow> h_sr s r;
                nm \<leftarrow> s_name sr;
                if name = nm then Some r else stable_walk s name (s_next sr) })"

definition stable_lookup :: "bytes \<Rightarrow> 'a stab_scheme \<Rightarrow> addr option" where
  "stable_lookup name s = do { hv \<leftarrow> stable_slot name; stable_walk s name (stable s ! hv) }"

definition stable_create :: "bytes \<Rightarrow> 'a stab_scheme \<Rightarrow> (addr \<times> 'a stab_scheme) option" where
  "stable_create serviceName s =
     do { found \<leftarrow> stable_lookup serviceName s;
          if found \<noteq> NULL then Some (NULL, s)
          else let (r, s) = mem_alloc s in
            if r = NULL then Some (NULL, s)
            else do {
              let (nm, s) = str_dupl serviceName s;
              let s = s\<lparr>h_sr := (h_sr s)(r \<mapsto> \<lparr>s_next = NULL, s_name = nm, s_queue = NULL\<rparr>)\<rparr>;
              (q, s) \<leftarrow> tsl_create s;
              let s = s\<lparr>h_sr := (h_sr s)(r \<mapsto> \<lparr>s_next = NULL, s_name = nm, s_queue = q\<rparr>)\<rparr>;
              if q = NULL then do { s \<leftarrow> mem_free_sr r s; Some (NULL, s) }
              else do {
                name \<leftarrow> nm;
                hv \<leftarrow> stable_slot name;
                Some (r, s\<lparr>h_sr := (h_sr s)(r \<mapsto> \<lparr>s_next = stable s ! hv, s_name = nm, s_queue = q\<rparr>),
                           stable := (stable s)[hv := r]\<rparr>)
              } } }"

definition stable_cut :: "nat \<Rightarrow> addr \<Rightarrow> addr \<Rightarrow> 'a stab_scheme \<Rightarrow> 'a stab_scheme option" where
  "stable_cut hv pr q s =
     (if pr = NULL then Some (s\<lparr>stable := (stable s)[hv := q]\<rparr>)
      else do { sr \<leftarrow> h_sr s pr; Some (s\<lparr>h_sr := (h_sr s)(pr \<mapsto> sr\<lparr>s_next := q\<rparr>)\<rparr>) })"

partial_function (option) stable_unlink ::
    "bytes \<Rightarrow> nat \<Rightarrow> addr \<Rightarrow> addr \<Rightarrow> 'a stab_scheme \<Rightarrow> 'a stab_scheme option" where
  "stable_unlink name hv pr cu s =
     (if cu = NULL then Some s
      else do { sr \<leftarrow> h_sr s cu;
                nm \<leftarrow> s_name sr;
                if name = nm then stable_cut hv pr (s_next sr) s
                else stable_unlink name hv cu (s_next sr) s })"

definition stable_remove :: "addr \<Rightarrow> 'a stab_scheme \<Rightarrow> 'a stab_scheme option" where
  "stable_remove sr s =
     do { r \<leftarrow> h_sr s sr;
          name \<leftarrow> s_name r;
          hv \<leftarrow> stable_slot name;
          s \<leftarrow> stable_unlink name hv NULL (stable s ! hv) s;
          mem_free_sr sr s }"

subsection \<open>Representation invariant\<close>

definition sr_nx :: "'a heap_scheme \<Rightarrow> addr \<rightharpoonup> addr" where
  "sr_nx s p = map_option s_next (h_sr s p)"

definition sr_name :: "'a heap_scheme \<Rightarrow> addr \<Rightarrow> bytes option" where
  "sr_name s p = Option.bind (h_sr s p) s_name"

text \<open>\<open>stab_rep s L\<close>: the buckets are the chains \<open>L\<close>, each record has a name that hashes to its
  bucket, and no two records of a bucket have the same name.\<close>

definition stab_rep :: "'a stab_scheme \<Rightarrow> addr list list \<Rightarrow> bool" where
  "stab_rep s L \<longleftrightarrow> heap_ok s \<and> length (stable s) = STABLE_SIZE \<and> length L = STABLE_SIZE
     \<and> (\<forall>i<STABLE_SIZE. chain (sr_nx s) (stable s ! i) (L ! i))
     \<and> (\<forall>i<STABLE_SIZE. \<forall>p\<in>set (L ! i). \<exists>nm. sr_name s p = Some nm \<and> stable_slot nm = Some i)
     \<and> (\<forall>i<STABLE_SIZE. inj_on (sr_name s) (set (L ! i)))"

lemma stable_slot_less: "stable_slot name = Some hv \<Longrightarrow> hv < STABLE_SIZE"
  by (auto simp: stable_slot_def hash_def Let_def split: if_splits)

interpretation stab_search: chain_search
  "sr_nx :: 'a stab_scheme \<Rightarrow> _" "sr_name :: 'a stab_scheme \<Rightarrow> _" "(=)" stable_walk
proof
  show "stable_walk s k NULL = Some NULL" for s :: "'a stab_scheme" and k
    by (simp add: stable_walk.simps)
  show "stable_walk s k r = (if k = k' then Some r else stable_walk s k q)"
    if "r \<noteq> NULL" "sr_nx s r = Some q" "sr_name s r = Some k'" for s :: "'a stab_scheme" and r q k k'
    using that by (subst stable_walk.simps) (auto simp: sr_nx_def sr_name_def split: bind_splits)
qed

interpretation stab_unlink: chain_unlink
  "sr_nx :: 'a stab_scheme \<Rightarrow> _" "\<lambda>s p. map_option ((=) name) (sr_name s p)"
  "stable_cut hv" "stable_unlink name hv" for name hv
proof
  show "stable_unlink name hv pr NULL s = Some s" for pr and s :: "'a stab_scheme"
    by (simp add: stable_unlink.simps)
  show "stable_unlink name hv pr cu s = (if h then stable_cut hv pr q s else stable_unlink name hv cu q s)"
    if "cu \<noteq> NULL" "sr_nx s cu = Some q" "map_option ((=) name) (sr_name s cu) = Some h"
    for cu pr q h and s :: "'a stab_scheme"
    using that by (subst stable_unlink.simps) (auto simp: sr_nx_def sr_name_def split: bind_splits)
qed

lemma stab_rep_name:
  "stab_rep s L \<Longrightarrow> i < STABLE_SIZE \<Longrightarrow> p \<in> set (L ! i) \<Longrightarrow>
     \<exists>nm. sr_name s p = Some nm \<and> stable_slot nm = Some i"
  unfolding stab_rep_def by blast

lemma stable_lookup_rep:
  assumes "stab_rep s L" "stable_slot name = Some hv"
  shows "stable_lookup name s = Some (first_hit (\<lambda>p. sr_name s p = Some name) (L ! hv))"
proof -
  have hv: "hv < STABLE_SIZE" using assms(2) by (rule stable_slot_less)
  have some: "sr_name s a \<noteq> None" if "a \<in> set (L ! hv)" for a
    using stab_rep_name [OF assms(1) hv that] by auto
  have "chain (sr_nx s) (stable s ! hv) (L ! hv)" using assms(1) hv by (auto simp: stab_rep_def)
  then have "stable_walk s name (stable s ! hv) = Some (first_hit (\<lambda>a. name = the (sr_name s a)) (L ! hv))"
    using stab_search.walk_chain some by blast
  also have "first_hit (\<lambda>a. name = the (sr_name s a)) (L ! hv)
      = first_hit (\<lambda>a. sr_name s a = Some name) (L ! hv)"
    by (rule first_hit_cong) (use some in force)
  finally show ?thesis using assms(2) by (simp add: stable_lookup_def)
qed

lemma stable_lookup_out_of_bounds: "hash name < 0 \<Longrightarrow> stable_lookup name s = None"
  by (simp add: stable_lookup_def stable_slot_def)

subsection \<open>Creating a service\<close>

lemma stable_create_ok:
  assumes rep: "stab_rep s L" and slot: "stable_slot name = Some hv"
    and new: "stable_lookup name s = Some NULL"
    and mem: "\<not> oom s (nalloc s)" "\<not> oom s (nalloc s + 1)" "\<not> oom s (nalloc s + 2)"
    and thr: "\<not> pthread_err s (nalloc s + 2)"
  defines "r \<equiv> Suc (nalloc s)" and "q \<equiv> nalloc s + 3"
  defines "t \<equiv> s\<lparr>nalloc := nalloc s + 3,
      h_sr := (h_sr s)(r \<mapsto> \<lparr>s_next = stable s ! hv, s_name = Some name, s_queue = q\<rparr>),
      h_lh := (h_lh s)(q \<mapsto> \<lparr>lh_head = NULL, lh_tail = NULL, lh_count = 0\<rparr>),
      stable := (stable s)[hv := r]\<rparr>"
  shows "stable_create name s = Some (r, t)" "stab_rep t (L[hv := r # L ! hv])"
    "stable_lookup name t = Some r" "tsl_rep t q []"
proof -
  have ok: "heap_ok s" and len: "length (stable s) = STABLE_SIZE" "length L = STABLE_SIZE"
    using rep by (auto simp: stab_rep_def)
  have hv: "hv < STABLE_SIZE" using slot by (rule stable_slot_less)
  show create: "stable_create name s = Some (r, t)"
    using new mem thr slot
    by (simp add: stable_create_def mem_alloc_def str_dupl_def mem_alloc_buf_def tsl_create_def
        Let_def r_def q_def t_def numeral_eq_Suc)
  have "dom (h_sr s) \<subseteq> {0<..nalloc s}" using ok by (auto simp: heap_ok_def)
  have notin: "r \<notin> set (L ! i)" if "i < STABLE_SIZE" for i
  proof
    assume "r \<in> set (L ! i)"
    with stab_rep_name [OF rep that] obtain nm where "sr_name s r = Some nm" by blast
    then show False using heap_ok_fresh(3) [OF ok] by (simp add: sr_name_def r_def)
  qed
  have nx: "sr_nx t = (sr_nx s)(r \<mapsto> stable s ! hv)" and nm: "sr_name t = (sr_name s)(r \<mapsto> name)"
    and tab: "stable t = (stable s)[hv := r]" and r0: "r \<noteq> NULL"
    by (auto simp: sr_nx_def sr_name_def t_def r_def)
  have okt: "heap_ok t" using ok unfolding heap_ok_def by (force simp: t_def r_def q_def)
  have chains: "chain (sr_nx t) (stable t ! i) (L[hv := r # L ! hv] ! i)" if "i < STABLE_SIZE" for i
    using that rep notin [OF that] notin [OF hv] len hv r0
    by (cases "i = hv") (auto simp: stab_rep_def nx tab chain_simps)
  have names: "\<exists>nm. sr_name t p = Some nm \<and> stable_slot nm = Some i"
    if "i < STABLE_SIZE" "p \<in> set (L[hv := r # L ! hv] ! i)" for i p
    using that stab_rep_name [OF rep that(1), of p] slot len notin [OF that(1)]
    by (cases "i = hv"; cases "p = r") (auto simp: nm)
  have fresh: "sr_name s p \<noteq> Some name" if "p \<in> set (L ! hv)" for p
  proof -
    have "NULL \<notin> set (L ! hv)" using rep hv chain_not_NULL unfolding stab_rep_def by blast
    with new stable_lookup_rep [OF rep slot] that show ?thesis
      using first_hit_NULL_iff [of "L ! hv" "\<lambda>p. sr_name s p = Some name"] by simp
  qed
  have "inj_on (sr_name t) (set (L[hv := r # L ! hv] ! i))" if i: "i < STABLE_SIZE" for i
  proof -
    have "inj_on (sr_name s) (set (L ! i))" using rep i by (auto simp: stab_rep_def)
    then have "inj_on (sr_name t) (set (L ! i))"
      using notin [OF i] by (subst inj_on_cong [of _ _ "sr_name s"]) (auto simp: nm)
    moreover have "sr_name t r \<notin> sr_name t ` set (L ! hv)"
    proof
      assume "sr_name t r \<in> sr_name t ` set (L ! hv)"
      then obtain p where p: "p \<in> set (L ! hv)" "sr_name t p = Some name" by (auto simp: nm)
      then show False using fresh [OF p(1)] notin [OF hv] by (cases "p = r") (auto simp: nm)
    qed
    ultimately show ?thesis using len i notin [OF hv] by (cases "i = hv") (auto simp: inj_on_insert)
  qed
  with okt chains names len show rep': "stab_rep t (L[hv := r # L ! hv])"
    by (simp add: stab_rep_def t_def)
  show "stable_lookup name t = Some r"
    using stable_lookup_rep [OF rep' slot] len hv by (simp add: nm)
  show "tsl_rep t q []" using okt by (simp add: tsl_rep_def tsl_cells_def t_def)
qed

end
