(* ===== verification/Srpc_Wire.thy ===== *)
theory Srpc_Wire
  imports Stable
begin

text \<open>
  The message layout of \<^verbatim>\<open>srpc.c\<close>: the payload header that \<^verbatim>\<open>cp_complete\<close> writes, the data header
  of queries, responses and fragments, and the service name of a connect request; how the reader
  takes them apart; and the state of the RPC runtime with \<^verbatim>\<open>send_payload\<close>.

  A header has 12 bytes: the subport (stored as it is), the sequence number and the command
  (network order), the fragment number and the number of fragments. A data header follows with
  the total length and the length of this fragment (16 bits each, network order).
\<close>

abbreviation (input) CONNECT :: u16 where "CONNECT \<equiv> 1"
abbreviation (input) CACK :: u16 where "CACK \<equiv> 2"
abbreviation (input) QUERY :: u16 where "QUERY \<equiv> 3"
abbreviation (input) QACK :: u16 where "QACK \<equiv> 4"
abbreviation (input) RESPONSE :: u16 where "RESPONSE \<equiv> 5"
abbreviation (input) RACK :: u16 where "RACK \<equiv> 6"
abbreviation (input) DISCONNECT :: u16 where "DISCONNECT \<equiv> 7"
abbreviation (input) DACK :: u16 where "DACK \<equiv> 8"
abbreviation (input) FRAGMENT :: u16 where "FRAGMENT \<equiv> 9"
abbreviation (input) FACK :: u16 where "FACK \<equiv> 10"
abbreviation (input) PING :: u16 where "PING \<equiv> 11"
abbreviation (input) PACK :: u16 where "PACK \<equiv> 12"
abbreviation (input) SEQNO :: u16 where "SEQNO \<equiv> 13"
abbreviation (input) SACK :: u16 where "SACK \<equiv> 14"
abbreviation (input) CMD_LOW :: u16 where "CMD_LOW \<equiv> CONNECT"
abbreviation (input) CMD_HIGH :: u16 where "CMD_HIGH \<equiv> SACK"

abbreviation (input) CP_SIZE :: nat where "CP_SIZE \<equiv> 12"
abbreviation (input) DP_SIZE :: nat where "DP_SIZE \<equiv> 16"
abbreviation (input) FR_SIZE :: nat where "FR_SIZE \<equiv> 1024"
abbreviation (input) ATTEMPTS :: u16 where "ATTEMPTS \<equiv> 7"
abbreviation (input) TICKS :: u16 where "TICKS \<equiv> 2"
abbreviation (input) RX_SIZE :: nat where "RX_SIZE \<equiv> 10240"

subsection \<open>Messages\<close>

definition cp_complete :: "u64 \<Rightarrow> u16 \<Rightarrow> u64 \<Rightarrow> u8 \<Rightarrow> u8 \<Rightarrow> bytes" where
  "cp_complete sp cmd sn fn nfs =
     le_bytes 4 (unat (ucast sp :: u32)) @ be_bytes 4 (unat (ucast sn :: u32))
     @ be_bytes 2 (unat cmd) @ [fn, nfs]"

definition hdr_subport :: "bytes \<Rightarrow> u32" where "hdr_subport b = of_nat (le_val (take 4 b))"
definition hdr_seqno :: "bytes \<Rightarrow> u32" where "hdr_seqno b = of_nat (be_val (take 4 (drop 4 b)))"
definition hdr_command :: "bytes \<Rightarrow> u16" where "hdr_command b = of_nat (be_val (take 2 (drop 8 b)))"
definition hdr_fnum :: "bytes \<Rightarrow> u8" where "hdr_fnum b = b ! 10"
definition hdr_nfrags :: "bytes \<Rightarrow> u8" where "hdr_nfrags b = b ! 11"
definition dhdr_tlen :: "bytes \<Rightarrow> u16" where "dhdr_tlen b = of_nat (be_val (take 2 (drop 12 b)))"
definition dhdr_flen :: "bytes \<Rightarrow> u16" where "dhdr_flen b = of_nat (be_val (take 2 (drop 14 b)))"

text \<open>The total length of a received data payload, read through a pointer to its block.\<close>

definition rd_tlen :: "bytes \<Rightarrow> u16 option" where
  "rd_tlen b = (if 14 \<le> length b then Some (dhdr_tlen b) else None)"

text \<open>The C string at an offset of a buffer: undefined if no terminator follows within it.\<close>

definition cstr_at :: "bytes \<Rightarrow> nat \<Rightarrow> bytes option" where
  "cstr_at b off = (let t = drop off b in
     if 0 \<in> set t then Some (takeWhile (\<lambda>c. c \<noteq> 0) t) else None)"

text \<open>A data payload as \<^verbatim>\<open>rpc_call\<close> and \<^verbatim>\<open>rpc_response\<close> assemble it in a fresh block: the header,
  the two lengths and \<open>blen\<close> bytes of the user's buffer from \<open>off\<close>.\<close>

definition data_payload ::
    "u64 \<Rightarrow> u16 \<Rightarrow> u64 \<Rightarrow> u8 \<Rightarrow> u8 \<Rightarrow> nat \<Rightarrow> nat \<Rightarrow> bytes \<Rightarrow> nat \<Rightarrow> bytes \<Rightarrow> bytes option" where
  "data_payload sp cmd sn fn nfs tlen blen user off block =
     do { b \<leftarrow> wr block 0 (cp_complete sp cmd sn fn nfs);
          b \<leftarrow> wr b 12 (be_bytes 2 tlen);
          b \<leftarrow> wr b 14 (be_bytes 2 blen);
          d \<leftarrow> rd user off blen;
          wr b 16 d }"

subsection \<open>State of the runtime\<close>

text \<open>\<open>rxbuf\<close> is the reader's buffer, which keeps its contents from one datagram to the next; \<open>sent\<close>
  the datagrams handed to \<^verbatim>\<open>sendto\<close>, oldest first (delivery is up to the network, and the result
  of \<^verbatim>\<open>sendto\<close> is ignored by every caller).\<close>

record rpc = stab +
  rxbuf :: bytes
  sent :: "(sockaddr_in \<times> bytes) list"
  my_addr :: sockaddr_in
  my_name :: bytes
  my_port :: u16
  my_sock :: int

definition send_payload :: "rpc_endpoint \<Rightarrow> bytes option \<Rightarrow> nat \<Rightarrow> rpc \<Rightarrow> rpc option" where
  "send_payload ep p sz s =
     do { b \<leftarrow> p;
          d \<leftarrow> rd b 0 sz;
          Some (s\<lparr>sent := sent s @ [(ep_addr ep, d)]\<rparr>) }"

text \<open>\<^verbatim>\<open>send_payload(cr->ep, cr->pl, cr->size)\<close>.\<close>

definition send_current :: "addr \<Rightarrow> rpc \<Rightarrow> rpc option" where
  "send_current cr s =
     do { c \<leftarrow> h_cr s cr;
          e \<leftarrow> h_ep s (cr_ep c);
          send_payload e (cr_pl c) (unat (cr_size c)) s }"

text \<open>A control payload in a fresh block: the block is written without a test for NULL.\<close>

definition cp_new :: "u64 \<Rightarrow> u16 \<Rightarrow> u64 \<Rightarrow> u8 \<Rightarrow> u8 \<Rightarrow> rpc \<Rightarrow> (bytes option \<times> rpc) option" where
  "cp_new sp cmd sn fn nfs s =
     (let (p, s) = mem_alloc_buf CP_SIZE s
      in do { b \<leftarrow> p; b \<leftarrow> wr b 0 (cp_complete sp cmd sn fn nfs); Some (Some b, s) })"

text \<open>Storing a control payload in a record and sending it:
  \<^verbatim>\<open>crecord_setPayload(cr, cp, CP_SIZE, ATTEMPTS, TICKS); send_payload(ep, cp, CP_SIZE)\<close>.\<close>

definition post_control ::
    "addr \<Rightarrow> rpc_endpoint \<Rightarrow> u64 \<Rightarrow> u16 \<Rightarrow> u64 \<Rightarrow> u8 \<Rightarrow> u8 \<Rightarrow> rpc \<Rightarrow> rpc option" where
  "post_control cr dest sp cmd sn fn nfs s =
     do { (cp, s) \<leftarrow> cp_new sp cmd sn fn nfs s;
          s \<leftarrow> crecord_setPayload cr cp 12 ATTEMPTS TICKS s;
          send_payload dest cp CP_SIZE s }"

subsection \<open>Layout lemmas\<close>

lemma length_cp_complete [simp]: "length (cp_complete sp cmd sn fn nfs) = 12"
  by (simp add: cp_complete_def)

lemma u32_mod_256: "unat (w :: u32) mod 256 ^ 4 = unat w"
  using unat_u32_less [of w] by simp

lemma u16_mod_256: "unat (w :: u16) mod 256 ^ 2 = unat w"
  using unat_u16_less [of w] by simp

lemma hdr_cp_complete:
  "hdr_subport (cp_complete sp cmd sn fn nfs @ r) = ucast sp"
  "hdr_seqno (cp_complete sp cmd sn fn nfs @ r) = ucast sn"
  "hdr_command (cp_complete sp cmd sn fn nfs @ r) = cmd"
  "hdr_fnum (cp_complete sp cmd sn fn nfs @ r) = fn"
  "hdr_nfrags (cp_complete sp cmd sn fn nfs @ r) = nfs"
  by (simp_all add: cp_complete_def hdr_subport_def hdr_seqno_def hdr_command_def hdr_fnum_def
      hdr_nfrags_def le_val_le_bytes be_val_be_bytes u32_mod_256 [simplified] u16_mod_256 [simplified] nth_append)

lemma data_payload_eq:
  assumes "length block = DP_SIZE + blen" "off + blen \<le> length user"
  shows "data_payload sp cmd sn fn nfs tlen blen user off block =
    Some (cp_complete sp cmd sn fn nfs @ be_bytes 2 tlen @ be_bytes 2 blen @ take blen (drop off user))"
  using assms by (simp add: data_payload_def wr_def rd_def)

lemma dhdr_data:
  assumes "length h = 12" "tlen < 65536" "flen < 65536"
  shows "dhdr_tlen (h @ be_bytes 2 tlen @ be_bytes 2 flen @ d) = of_nat tlen"
    "dhdr_flen (h @ be_bytes 2 tlen @ be_bytes 2 flen @ d) = of_nat flen"
  using assms by (simp_all add: dhdr_tlen_def dhdr_flen_def be_val_be_bytes)

lemma cp_new_eq:
  assumes "\<not> oom s (nalloc s)"
  shows "cp_new sp cmd sn fn nfs s =
    Some (Some (cp_complete sp cmd sn fn nfs), s\<lparr>nalloc := Suc (nalloc s)\<rparr>)"
  using assms by (simp add: cp_new_def mem_alloc_buf_def wr_def)

lemma post_control_eq:
  assumes "\<not> oom s (nalloc s)" "h_cr s cr = Some c"
  shows "post_control cr dest sp cmd sn fn nfs s =
    Some (s\<lparr>nalloc := Suc (nalloc s),
            h_cr := (h_cr s)(cr \<mapsto> set_payload (Some (cp_complete sp cmd sn fn nfs)) 12 ATTEMPTS TICKS c),
            sent := sent s @ [(ep_addr dest, cp_complete sp cmd sn fn nfs)]\<rparr>)"
  using assms by (simp add: post_control_def cp_new_eq crecord_setPayload_def send_payload_def rd_def)

end
