(* ===== verification/Srpc_Reader.thy ===== *)
theory Srpc_Reader
  imports Srpc_Wire
begin

text \<open>
  The reader thread of \<^verbatim>\<open>srpc.c\<close>: one definition for each case of the switch on the command, and
  one step of the loop from \<^verbatim>\<open>recvfrom\<close> to \<^verbatim>\<open>ctable_unlock\<close>. A step runs with the table locked, so
  it is atomic with respect to the timer and the callers of the interface.

  A step is undefined (\<open>None\<close>) when the code writes through a NULL pointer after a failed
  allocation, copies outside a block, or indexes the service table out of bounds.
\<close>

text \<open>The local variables a case of the switch reads, after the header has been taken apart.\<close>

record msg =
  m_n :: nat
  m_ep :: rpc_endpoint
  m_seqno :: u64
  m_fnum :: u8
  m_nfrags :: u8

subsection \<open>The cases of the switch\<close>

definition on_connect :: "msg \<Rightarrow> addr \<Rightarrow> rpc \<Rightarrow> rpc option" where
  "on_connect m cr s =
     do { sname \<leftarrow> cstr_at (rxbuf s) 12;
          sr \<leftarrow> stable_lookup sname s;
          if sr = NULL then Some s
          else if cr = NULL then do {
            let (nep, s) = endpoint_duplicate (m_ep m) s;
            let (cr, s) = crecord_create nep (m_seqno m) s;
            e \<leftarrow> h_ep s nep;
            (p, s) \<leftarrow> cp_new (ep_subport e) CACK (m_seqno m) 1 1 s;
            s \<leftarrow> crecord_setPayload cr p 12 ATTEMPTS TICKS s;
            s \<leftarrow> crecord_setService cr sr s;
            s \<leftarrow> send_current cr s;
            s \<leftarrow> crecord_setState cr ST_IDLE s;
            ctable_insert cr s }
          else do {
            c \<leftarrow> h_cr s cr;
            if cr_state c = ST_IDLE then do {
              s \<leftarrow> crecord_setService cr sr s;
              s \<leftarrow> send_current cr s;
              crecord_setState cr ST_IDLE s }
            else Some s } }"

text \<open>The four acknowledgements that move a record to a state if the sequence number is its own.\<close>

definition on_ack :: "u64 \<Rightarrow> msg \<Rightarrow> addr \<Rightarrow> rpc \<Rightarrow> rpc option" where
  "on_ack st m cr s =
     (if cr = NULL then Some s
      else do { c \<leftarrow> h_cr s cr;
                if m_seqno m = cr_seqno c then crecord_setState cr st s else Some s })"

definition on_cack :: "msg \<Rightarrow> addr \<Rightarrow> rpc \<Rightarrow> rpc option" where "on_cack = on_ack ST_IDLE"
definition on_qack :: "msg \<Rightarrow> addr \<Rightarrow> rpc \<Rightarrow> rpc option" where "on_qack = on_ack ST_AWAITING_RESPONSE"
definition on_rack :: "msg \<Rightarrow> addr \<Rightarrow> rpc \<Rightarrow> rpc option" where "on_rack = on_ack ST_IDLE"
definition on_dack :: "msg \<Rightarrow> addr \<Rightarrow> rpc \<Rightarrow> rpc option" where "on_dack = on_ack ST_TIMEDOUT"

text \<open>\<^verbatim>\<open>p = mem_alloc(sz); memcpy(p, buf, n)\<close>: a copy of the datagram in a fresh block of \<open>sz\<close> bytes.\<close>

definition copy_datagram :: "nat \<Rightarrow> nat \<Rightarrow> rpc \<Rightarrow> (bytes \<times> rpc) option" where
  "copy_datagram sz n s =
     (let (p, s) = mem_alloc_buf sz s
      in do { b \<leftarrow> p; d \<leftarrow> rd (rxbuf s) 0 n; b \<leftarrow> wr b 0 d; Some (b, s) })"

text \<open>\<^verbatim>\<open>memcpy(&p->data[FR_SIZE * (fnum - 1)], dp->data, flen)\<close>.\<close>

definition copy_fragment :: "u8 \<Rightarrow> bytes option \<Rightarrow> rpc \<Rightarrow> bytes option" where
  "copy_fragment fnum p s =
     do { b \<leftarrow> p;
          d \<leftarrow> rd (rxbuf s) DP_SIZE (unat (dhdr_flen (rxbuf s)));
          wr b (DP_SIZE + FR_SIZE * (unat fnum - 1)) d }"

text \<open>The answer to an accepted query (\<^verbatim>\<open>case NEW\<close>): acknowledge it and pass it to the service.\<close>

definition query_new :: "msg \<Rightarrow> addr \<Rightarrow> bytes \<Rightarrow> u32 \<Rightarrow> rpc \<Rightarrow> rpc option" where
  "query_new m cr p dplen s =
     do { c \<leftarrow> h_cr s cr;
          e \<leftarrow> h_ep s (cr_ep c);
          s \<leftarrow> post_control cr e (ep_subport (m_ep m)) QACK (m_seqno m) (m_fnum m) (m_nfrags m) s;
          svc \<leftarrow> h_sr s (cr_svc c);
          (_, s) \<leftarrow> tsl_append (s_queue svc) (cr_ep c) (Some p) dplen s;
          crecord_setState cr ST_QACK_SENT s }"

text \<open>The answer to a repeated message (\<^verbatim>\<open>case OLD\<close>): send the last payload again.\<close>

definition resend_old :: "addr \<Rightarrow> u64 \<Rightarrow> rpc \<Rightarrow> rpc option" where
  "resend_old cr st s = do { s \<leftarrow> send_current cr s; crecord_setState cr st s }"

definition next_frag :: "u8 \<Rightarrow> u8 \<Rightarrow> bool" where
  "next_frag fnum lastFrag \<longleftrightarrow> int (unat fnum) - int (unat lastFrag) = 1"

definition on_query :: "msg \<Rightarrow> addr \<Rightarrow> rpc \<Rightarrow> rpc option" where
  "on_query m cr s =
     (if cr = NULL then Some s
      else do {
        c \<leftarrow> h_cr s cr;
        let st = cr_state c;
        if m_seqno m - cr_seqno c = 1 \<and> (st = ST_IDLE \<or> st = ST_RESPONSE_SENT) then do {
          s \<leftarrow> upd_cr cr (\<lambda>c. c\<lparr>cr_seqno := m_seqno m\<rparr>) s;
          (p, s) \<leftarrow> copy_datagram (m_n m) (m_n m) s;
          query_new m cr p (of_nat (m_n m)) s }
        else if m_seqno m = cr_seqno c \<and> st = ST_FACK_SENT \<and> next_frag (m_fnum m) (cr_lastFrag c)
                \<and> m_fnum m = m_nfrags m then do {
          s \<leftarrow> upd_cr cr (\<lambda>c. c\<lparr>cr_resp := None\<rparr>) s;
          p \<leftarrow> copy_fragment (m_fnum m) (cr_resp c) s;
          query_new m cr p (16 + ucast (dhdr_tlen (rxbuf s))) s }
        else if m_seqno m = cr_seqno c \<and> (st = ST_QACK_SENT \<or> st = ST_RESPONSE_SENT) then
          resend_old cr st s
        else Some s })"

text \<open>The answer to a response: acknowledge it and become idle.\<close>

definition response_ack :: "msg \<Rightarrow> addr \<Rightarrow> rpc \<Rightarrow> rpc option" where
  "response_ack m cr s =
     do { c \<leftarrow> h_cr s cr;
          e \<leftarrow> h_ep s (cr_ep c);
          s \<leftarrow> post_control cr e (ep_subport (m_ep m)) RACK (m_seqno m) (m_fnum m) (m_nfrags m) s;
          crecord_setState cr ST_IDLE s }"

definition on_response :: "msg \<Rightarrow> addr \<Rightarrow> rpc \<Rightarrow> rpc option" where
  "on_response m cr s =
     (if cr = NULL then Some s
      else do {
        c \<leftarrow> h_cr s cr;
        let st = cr_state c;
        if m_seqno m \<noteq> cr_seqno c then Some s
        else if st = ST_QUERY_SENT \<or> st = ST_AWAITING_RESPONSE then do {
          (p, s) \<leftarrow> copy_datagram (m_n m) (m_n m) s;
          s \<leftarrow> upd_cr cr (\<lambda>c. c\<lparr>cr_resp := Some p\<rparr>) s;
          response_ack m cr s }
        else if st = ST_FACK_SENT \<and> next_frag (m_fnum m) (cr_lastFrag c) \<and> m_fnum m = m_nfrags m then do {
          p \<leftarrow> copy_fragment (m_fnum m) (cr_resp c) s;
          s \<leftarrow> upd_cr cr (\<lambda>c. c\<lparr>cr_resp := Some p, cr_lastFrag := m_fnum m\<rparr>) s;
          response_ack m cr s }
        else Some s })"

definition on_disconnect :: "msg \<Rightarrow> addr \<Rightarrow> rpc \<Rightarrow> rpc option" where
  "on_disconnect m cr s =
     do { s \<leftarrow> send_payload (m_ep m) (Some (cp_complete (ep_subport (m_ep m)) DACK (m_seqno m) 1 1))
                 CP_SIZE s;
          if cr = NULL then Some s else crecord_setState cr ST_TIMEDOUT s }"

text \<open>The answer to an accepted fragment.\<close>

definition fragment_new :: "msg \<Rightarrow> addr \<Rightarrow> rpc \<Rightarrow> rpc option" where
  "fragment_new m cr s =
     do { s \<leftarrow> upd_cr cr (\<lambda>c. c\<lparr>cr_lastFrag := m_fnum m\<rparr>) s;
          c \<leftarrow> h_cr s cr;
          e \<leftarrow> h_ep s (cr_ep c);
          s \<leftarrow> post_control cr e (ep_subport (m_ep m)) FACK (m_seqno m) (m_fnum m) (m_nfrags m) s;
          crecord_setState cr ST_FACK_SENT s }"

definition on_fragment :: "msg \<Rightarrow> addr \<Rightarrow> rpc \<Rightarrow> rpc option" where
  "on_fragment m cr s =
     (if cr = NULL then Some s
      else do {
        c \<leftarrow> h_cr s cr;
        let st = cr_state c;
        let isQ = (st = ST_IDLE \<or> st = ST_RESPONSE_SENT) \<and> m_seqno m - cr_seqno c = 1 \<and> m_fnum m = 1;
        let isR = (st = ST_QUERY_SENT \<or> st = ST_AWAITING_RESPONSE) \<and> m_seqno m = cr_seqno c
                  \<and> m_fnum m = 1;
        if isQ \<or> isR then do {
          s \<leftarrow> upd_cr cr (\<lambda>c. c\<lparr>cr_seqno := m_seqno m\<rparr>) s;
          (p, s) \<leftarrow> copy_datagram (DP_SIZE + unat (dhdr_tlen (rxbuf s))) (m_n m) s;
          s \<leftarrow> upd_cr cr (\<lambda>c. c\<lparr>cr_resp := Some p\<rparr>) s;
          fragment_new m cr s }
        else if m_seqno m = cr_seqno c \<and> st = ST_FACK_SENT \<and> next_frag (m_fnum m) (cr_lastFrag c) then do {
          p \<leftarrow> copy_fragment (m_fnum m) (cr_resp c) s;
          s \<leftarrow> upd_cr cr (\<lambda>c. c\<lparr>cr_resp := Some p\<rparr>) s;
          fragment_new m cr s }
        else if m_seqno m = cr_seqno c \<and> st = ST_FACK_SENT \<and> m_fnum m = cr_lastFrag c then
          resend_old cr st s
        else Some s })"

definition on_fack :: "msg \<Rightarrow> addr \<Rightarrow> rpc \<Rightarrow> rpc option" where
  "on_fack m cr s =
     (if cr = NULL then Some s
      else do { c \<leftarrow> h_cr s cr;
                if m_seqno m = cr_seqno c \<and> cr_state c = ST_FRAGMENT_SENT \<and> m_fnum m = cr_lastFrag c
                then crecord_setState cr ST_FACK_RECEIVED s else Some s })"

definition on_ping :: "msg \<Rightarrow> addr \<Rightarrow> rpc \<Rightarrow> rpc option" where
  "on_ping m cr s =
     (if cr = NULL then Some s
      else send_payload (m_ep m) (Some (cp_complete (ep_subport (m_ep m)) PACK (m_seqno m) 1 1)) CP_SIZE s)"

definition on_pack :: "msg \<Rightarrow> addr \<Rightarrow> rpc \<Rightarrow> rpc option" where
  "on_pack m cr s =
     (if cr = NULL then Some s
      else do { c \<leftarrow> h_cr s cr; crecord_setState cr (cr_state c) s })"

definition on_seqno :: "msg \<Rightarrow> addr \<Rightarrow> rpc \<Rightarrow> rpc option" where
  "on_seqno m cr s =
     (if cr = NULL then Some s
      else do {
        c \<leftarrow> h_cr s cr;
        if cr_state c = ST_IDLE \<or> cr_state c = ST_RESPONSE_SENT then do {
          e \<leftarrow> h_ep s (cr_ep c);
          s \<leftarrow> post_control cr e (ep_subport (m_ep m)) SACK (m_seqno m) 1 1 s;
          s \<leftarrow> upd_cr cr (\<lambda>c. c\<lparr>cr_seqno := m_seqno m\<rparr>) s;
          crecord_setState cr ST_IDLE s }
        else Some s })"

definition on_sack :: "msg \<Rightarrow> addr \<Rightarrow> rpc \<Rightarrow> rpc option" where
  "on_sack m cr s =
     (if cr = NULL then Some s
      else do { c \<leftarrow> h_cr s cr;
                if cr_state c = ST_SEQNO_SENT then crecord_setState cr ST_IDLE s else Some s })"

subsection \<open>The loop body\<close>

definition dispatch :: "u16 \<Rightarrow> msg \<Rightarrow> addr \<Rightarrow> rpc \<Rightarrow> rpc option" where
  "dispatch cmd =
     (if cmd = CONNECT then on_connect else if cmd = CACK then on_cack
      else if cmd = QUERY then on_query else if cmd = QACK then on_qack
      else if cmd = RESPONSE then on_response else if cmd = RACK then on_rack
      else if cmd = DISCONNECT then on_disconnect else if cmd = DACK then on_dack
      else if cmd = FRAGMENT then on_fragment else if cmd = FACK then on_fack
      else if cmd = PING then on_ping else if cmd = PACK then on_pack
      else if cmd = SEQNO then on_seqno else if cmd = SACK then on_sack
      else (\<lambda>m cr s. Some s))"

text \<open>\<^verbatim>\<open>recvfrom\<close> stores at most \<open>RX_SIZE\<close> bytes of the datagram; \<^verbatim>\<open>buf[n] = '\0'\<close> is out of bounds if
  it stored that many.\<close>

definition receive :: "bytes \<Rightarrow> rpc \<Rightarrow> (nat \<times> rpc) option" where
  "receive d s =
     (let d = take RX_SIZE d; n = length d
      in do { b \<leftarrow> wr (rxbuf s) 0 d; b \<leftarrow> wr b n [0]; Some (n, s\<lparr>rxbuf := b\<rparr>) })"

definition parse_msg :: "sockaddr_in \<Rightarrow> nat \<Rightarrow> bytes \<Rightarrow> msg" where
  "parse_msg c_addr n b =
     (let sb = ucast (bswap32 (hdr_subport b)) :: u64
      in \<lparr>m_n = n, m_ep = endpoint_complete c_addr sb, m_seqno = ucast (hdr_seqno b),
          m_fnum = hdr_fnum b, m_nfrags = hdr_nfrags b\<rparr>)"

text \<open>One iteration: a failed receive (\<open>None\<close>) and an illegal command leave the tables alone.\<close>

definition reader_step :: "(sockaddr_in \<times> bytes) option \<Rightarrow> rpc \<Rightarrow> rpc option" where
  "reader_step recv s = (case recv of
      None \<Rightarrow> Some s
    | Some (c_addr, d) \<Rightarrow> do {
        (n, s) \<leftarrow> receive d s;
        let cmd = hdr_command (rxbuf s);
        if CMD_LOW \<le> cmd \<and> cmd \<le> CMD_HIGH then do {
          let m = parse_msg c_addr n (rxbuf s);
          cr \<leftarrow> ctable_lookup (m_ep m) s;
          dispatch cmd m cr s }
        else Some s })"

fun reader_run :: "(sockaddr_in \<times> bytes) list \<Rightarrow> rpc \<Rightarrow> rpc option" where
  "reader_run [] s = Some s"
| "reader_run (d # ds) s = do { s \<leftarrow> reader_step (Some d) s; reader_run ds s }"

subsection \<open>Receiving\<close>

lemma receive_eq:
  assumes "length (rxbuf s) = RX_SIZE" "length d < RX_SIZE"
  shows "receive d s = Some (length d, s\<lparr>rxbuf := d @ 0 # drop (Suc (length d)) (rxbuf s)\<rparr>)"
  using assms by (simp add: receive_def wr_def Let_def)

lemma receive_overflow:
  assumes "length (rxbuf s) = RX_SIZE" "RX_SIZE \<le> length d"
  shows "receive d s = None"
  using assms by (simp add: receive_def wr_def Let_def)

lemma receive_length: "receive d s = Some (n, t) \<Longrightarrow> length (rxbuf t) = length (rxbuf s)"
  by (auto simp: receive_def Let_def dest!: length_wr split: bind_splits)

end
