(* ===== verification/Srpc_Timer.thy ===== *)
theory Srpc_Timer
  imports Srpc_Wire
begin

text \<open>
  The timer thread of \<^verbatim>\<open>srpc.c\<close>: what it does on each tick of 20 ms, under the table's lock. The
  scan threads the records it selects on four lists through their \<^verbatim>\<open>link\<close> fields; the tick then
  destroys the records to purge, marks the timed out ones, and sends pings and retries.
\<close>

partial_function (option) purge_list :: "addr \<Rightarrow> rpc \<Rightarrow> rpc option" where
  "purge_list p s =
     (if p = NULL then Some s
      else do { c \<leftarrow> h_cr s p;
                s \<leftarrow> ctable_remove p s;
                s \<leftarrow> crecord_destroy p s;
                purge_list (cr_link c) s })"

partial_function (option) timed_list :: "addr \<Rightarrow> rpc \<Rightarrow> rpc option" where
  "timed_list p s =
     (if p = NULL then Some s
      else do { c \<leftarrow> h_cr s p;
                s \<leftarrow> crecord_setState p ST_TIMEDOUT s;
                timed_list (cr_link c) s })"

definition ping_payload :: "rpc_endpoint \<Rightarrow> c_record \<Rightarrow> bytes" where
  "ping_payload e c = cp_complete (ep_subport e) PING (cr_seqno c) 1 1"

partial_function (option) ping_list :: "addr \<Rightarrow> rpc \<Rightarrow> rpc option" where
  "ping_list p s =
     (if p = NULL then Some s
      else do { c \<leftarrow> h_cr s p;
                e \<leftarrow> h_ep s (cr_ep c);
                s \<leftarrow> send_payload e (Some (ping_payload e c)) CP_SIZE s;
                ping_list (cr_link c) s })"

partial_function (option) retry_list :: "addr \<Rightarrow> rpc \<Rightarrow> rpc option" where
  "retry_list p s =
     (if p = NULL then Some s
      else do { c \<leftarrow> h_cr s p;
                s \<leftarrow> (if retry_state (cr_state c) then send_current p s else Some s);
                retry_list (cr_link c) s })"

definition timer_tick :: "rpc \<Rightarrow> rpc option" where
  "timer_tick s =
     do { (l, s) \<leftarrow> ctable_scan s;
          s \<leftarrow> purge_list (sl_purge l) s;
          s \<leftarrow> timed_list (sl_timed l) s;
          s \<leftarrow> ping_list (sl_ping l) s;
          retry_list (sl_retry l) s }"

end
