(* ===== verification/Srpc_Api.thy ===== *)
theory Srpc_Api
  imports Srpc_Reader Srpc_Timer
begin

text \<open>
  The programming interface of \<^verbatim>\<open>srpc.c\<close>. A call that waits for a state of its connection record
  releases the table's lock while it sleeps, so other threads run in between: it is modelled by
  the part before the first wait and by a resume step that tests the state and, when it is one of
  those awaited, runs to the next wait or to the return. A call frame holds its local variables.
\<close>

subsection \<open>Starting the runtime\<close>

text \<open>The answers of the operating system to \<^verbatim>\<open>common_init\<close>.\<close>

record os_env =
  os_socket :: int
  os_bind :: int
  os_port :: u16
  os_reader :: int
  os_timer :: int

definition common_init :: "os_env \<Rightarrow> u16 \<Rightarrow> rpc \<Rightarrow> int \<times> rpc" where
  "common_init os port s =
     (let s = s\<lparr>my_addr := \<lparr>sin_family = 2, sin_port = bswap16 port, sin_addr = 0, sin_zero = 0\<rparr>,
                my_sock := os_socket os\<rparr>
      in if os_socket os < 0 \<or> os_bind os < 0 then (0, s)
         else let s = s\<lparr>my_addr := (my_addr s)\<lparr>sin_port := os_port os\<rparr>\<rparr>;
                  s = s\<lparr>my_port := bswap16 (sin_port (my_addr s))\<rparr>
              in if os_reader os \<noteq> 0 then (0, s) else if os_timer os \<noteq> 0 then (0, s) else (1, s))"

text \<open>\<open>host_name\<close> is the dotted address of the host, if it resolves.\<close>

definition rpc_init :: "os_env \<Rightarrow> bytes option \<Rightarrow> u16 \<Rightarrow> rpc \<Rightarrow> int \<times> rpc" where
  "rpc_init os host_name port s =
     (let s = ctable_init s; s = stable_init s;
          s = s\<lparr>my_name := (case host_name of Some nm \<Rightarrow> nm
                 | None \<Rightarrow> [0x31, 0x32, 0x37, 0x2e, 0x30, 0x2e, 0x30, 0x2e, 0x31])\<rparr>
      in common_init os port s)"

definition rpc_reinit :: "os_env \<Rightarrow> u16 \<Rightarrow> rpc \<Rightarrow> (int \<times> rpc) option" where
  "rpc_reinit os port s = do { s \<leftarrow> ctable_purge s; Some (common_init os port s) }"

definition rpc_details :: "rpc \<Rightarrow> bytes \<times> u16" where
  "rpc_details s = (my_name s, my_port s)"

subsection \<open>Connecting and disconnecting\<close>

text \<open>\<open>resolve host\<close> is the IPv4 address \<^verbatim>\<open>gethostbyname\<close> finds (in memory order).\<close>

definition rpc_socket ::
    "(bytes \<Rightarrow> u32 option) \<Rightarrow> bytes \<Rightarrow> u16 \<Rightarrow> u64 \<Rightarrow> rpc \<Rightarrow> addr \<times> rpc" where
  "rpc_socket resolve host port subport s = (case resolve host of
      None \<Rightarrow> (NULL, s)
    | Some ip \<Rightarrow> (let (p, s) = mem_alloc s in
        if p = NULL then (NULL, s)
        else (p, s\<lparr>h_ep := (h_ep s)(p \<mapsto>
               \<lparr>ep_addr = \<lparr>sin_family = 2, sin_port = bswap16 port, sin_addr = ip, sin_zero = 0\<rparr>,
                ep_subport = subport\<rparr>)\<rparr>)))"

definition connect_payload :: "u64 \<Rightarrow> u64 \<Rightarrow> bytes \<Rightarrow> bytes" where
  "connect_payload sp seqno svcName = cp_complete sp CONNECT seqno 1 1 @ svcName @ [0]"

definition rpc_connect ::
    "u32 \<Rightarrow> (bytes \<Rightarrow> u32 option) \<Rightarrow> bytes \<Rightarrow> u16 \<Rightarrow> bytes \<Rightarrow> u64 \<Rightarrow> rpc \<Rightarrow> (addr \<times> addr \<times> rpc) option" where
  "rpc_connect pid resolve host port svcName seqno s =
     (let (subport, s) = ctable_newSubport pid s;
          (nep, s) = rpc_socket resolve host port subport s;
          len = CP_SIZE + 1 + length svcName;
          (buf, s) = mem_alloc_buf len s
      in do { e \<leftarrow> h_ep s nep;
              b \<leftarrow> buf;
              b \<leftarrow> wr b 0 (connect_payload (ep_subport e) seqno svcName);
              let (cr, s) = crecord_create nep seqno s;
              s \<leftarrow> crecord_setPayload cr (Some b) (of_nat len) ATTEMPTS TICKS s;
              s \<leftarrow> send_payload e (Some b) len s;
              s \<leftarrow> crecord_setState cr ST_CONNECT_SENT s;
              s \<leftarrow> ctable_insert cr s;
              Some (cr, nep, s) })"

text \<open>After the wait: a timed out connection is taken out of the table, its endpoint freed and
  NULL returned; the record itself stays allocated.\<close>

definition rpc_connect_resume :: "addr \<Rightarrow> addr \<Rightarrow> rpc \<Rightarrow> (addr \<times> rpc) wait option" where
  "rpc_connect_resume cr nep s =
     do { w \<leftarrow> crecord_waitForState cr [ST_IDLE, ST_TIMEDOUT] s;
          case w of Blocked \<Rightarrow> Some Blocked
          | Ready st \<Rightarrow> (if st = ST_TIMEDOUT then do {
                s \<leftarrow> ctable_remove cr s;
                s \<leftarrow> mem_free_ep nep s;
                Some (Ready (NULL, s)) }
              else Some (Ready (nep, s))) }"

definition rpc_disconnect :: "addr \<Rightarrow> rpc \<Rightarrow> (addr \<times> rpc) option" where
  "rpc_disconnect rpc s =
     do { e \<leftarrow> h_ep s rpc;
          cr \<leftarrow> ctable_lookup e s;
          if cr = NULL then Some (NULL, s)
          else do {
            c \<leftarrow> h_cr s cr;
            s \<leftarrow> post_control cr e (ep_subport e) DISCONNECT (cr_seqno c) 1 1 s;
            s \<leftarrow> crecord_setState cr ST_DISCONNECT_SENT s;
            Some (cr, s) } }"

definition rpc_disconnect_resume :: "addr \<Rightarrow> rpc \<Rightarrow> unit wait option" where
  "rpc_disconnect_resume cr s =
     do { w \<leftarrow> crecord_waitForState cr [ST_TIMEDOUT] s;
          case w of Blocked \<Rightarrow> Some Blocked | Ready _ \<Rightarrow> Some (Ready ()) }"

definition rpc_offer :: "bytes \<Rightarrow> rpc \<Rightarrow> (addr \<times> rpc) option" where
  "rpc_offer svcName s = stable_create svcName s"

definition rpc_withdraw :: "addr \<Rightarrow> rpc \<Rightarrow> rpc" where
  "rpc_withdraw rps s = s"

subsection \<open>Sending a message in fragments\<close>

definition frag_count :: "u32 \<Rightarrow> u8" where
  "frag_count qlen = ucast ((qlen - 1) div 1024 + 1)"

definition last_len :: "u32 \<Rightarrow> u8 \<Rightarrow> u32" where
  "last_len qlen nfrags = qlen - 1024 * (ucast nfrags - 1)"

text \<open>The local variables of \<^verbatim>\<open>rpc_call\<close> and \<^verbatim>\<open>rpc_response\<close>; the user's buffer is \<open>fr_data\<close>.\<close>

record frame =
  fr_ep :: addr
  fr_cr :: addr
  fr_data :: bytes
  fr_len :: u32
  fr_nfrags :: u8
  fr_seqno :: u64
  fr_rsize :: u32

text \<open>A data payload in a fresh block of \<open>sz\<close> bytes, stored in the record and sent to \<open>dest\<close>.\<close>

definition post_data ::
    "frame \<Rightarrow> rpc_endpoint \<Rightarrow> u64 \<Rightarrow> u16 \<Rightarrow> u64 \<Rightarrow> u8 \<Rightarrow> nat \<Rightarrow> u32 \<Rightarrow> rpc \<Rightarrow> rpc option" where
  "post_data f dest sp cmd seqno fnum blen sz s =
     (let (p, s) = mem_alloc_buf (unat sz) s
      in do { b \<leftarrow> p;
              b \<leftarrow> data_payload sp cmd seqno fnum (fr_nfrags f) (unat (fr_len f)) blen (fr_data f)
                     (FR_SIZE * (unat fnum - 1)) b;
              s \<leftarrow> crecord_setPayload (fr_cr f) (Some b) sz ATTEMPTS TICKS s;
              send_payload dest (Some b) (unat sz) s })"

definition send_fragment :: "frame \<Rightarrow> u64 \<Rightarrow> u8 \<Rightarrow> rpc \<Rightarrow> rpc option" where
  "send_fragment f seqno fnum s =
     do { e \<leftarrow> h_ep s (fr_ep f);
          s \<leftarrow> upd_cr (fr_cr f) (\<lambda>c. c\<lparr>cr_lastFrag := fnum\<rparr>) s;
          s \<leftarrow> post_data f e (ep_subport e) FRAGMENT seqno fnum FR_SIZE 1040 s;
          crecord_setState (fr_cr f) ST_FRAGMENT_SENT s }"

subsection \<open>Calling\<close>

datatype call_pc = Await_sack | Await_fack u8 | Await_answer

datatype call_outcome = Call_wait call_pc frame | Call_done int bytes

abbreviation (input) SEQNO_LIMIT :: u64 where "SEQNO_LIMIT \<equiv> 1000000000"
abbreviation (input) SEQNO_START :: u64 where "SEQNO_START \<equiv> 0"

text \<open>The loop of \<^verbatim>\<open>rpc_call\<close> from fragment \<open>fnum\<close> to its next wait. The size of the last payload is
  an \<open>unsigned short\<close>.\<close>

definition call_send :: "frame \<Rightarrow> u8 \<Rightarrow> rpc \<Rightarrow> (call_outcome \<times> rpc) option" where
  "call_send f fnum s =
     (if fnum < fr_nfrags f then do {
        s \<leftarrow> send_fragment f (fr_seqno f) fnum s;
        Some (Call_wait (Await_fack fnum) f, s) }
      else do {
        e \<leftarrow> h_ep s (fr_ep f);
        let blen = last_len (fr_len f) (fr_nfrags f);
        let sz = (ucast (16 + blen) :: u16);
        s \<leftarrow> post_data f e (ep_subport e) QUERY (fr_seqno f) fnum (unat blen) (ucast sz) s;
        s \<leftarrow> crecord_setState (fr_cr f) ST_QUERY_SENT s;
        Some (Call_wait Await_answer f, s) })"

definition call_start :: "frame \<Rightarrow> rpc \<Rightarrow> (call_outcome \<times> rpc) option" where
  "call_start f s =
     do { s \<leftarrow> upd_cr (fr_cr f) (\<lambda>c. c\<lparr>cr_seqno := cr_seqno c + 1\<rparr>) s;
          c \<leftarrow> h_cr s (fr_cr f);
          call_send (f\<lparr>fr_seqno := cr_seqno c, fr_nfrags := frag_count (fr_len f)\<rparr>) 1 s }"

definition rpc_call :: "addr \<Rightarrow> bytes \<Rightarrow> u32 \<Rightarrow> u32 \<Rightarrow> rpc \<Rightarrow> (call_outcome \<times> rpc) option" where
  "rpc_call rpc query qlen rsize s =
     do { e \<leftarrow> h_ep s rpc;
          cr \<leftarrow> ctable_lookup e s;
          if cr = NULL then Some (Call_done 0 [], s)
          else do {
            c \<leftarrow> h_cr s cr;
            let f = \<lparr>fr_ep = rpc, fr_cr = cr, fr_data = query, fr_len = qlen, fr_nfrags = 0,
                     fr_seqno = 0, fr_rsize = rsize\<rparr>;
            if cr_state c = ST_IDLE then
              if SEQNO_LIMIT \<le> cr_seqno c then do {
                s \<leftarrow> upd_cr cr (\<lambda>c. c\<lparr>cr_seqno := SEQNO_START\<rparr>) s;
                s \<leftarrow> post_control cr e (ep_subport e) SEQNO SEQNO_START 1 1 s;
                s \<leftarrow> crecord_setState cr ST_SEQNO_SENT s;
                Some (Call_wait Await_sack f, s) }
              else call_start f s
            else Some (Call_done 0 [], s) } }"

text \<open>The end of \<^verbatim>\<open>rpc_call\<close>: take the response out of the record and copy it to the caller, if it
  fits. \<^verbatim>\<open>*rlen\<close> is the length of the bytes returned.\<close>

definition call_finish :: "frame \<Rightarrow> rpc \<Rightarrow> (call_outcome \<times> rpc) option" where
  "call_finish f s =
     do { c \<leftarrow> h_cr s (fr_cr f);
          s \<leftarrow> upd_cr (fr_cr f) (\<lambda>c. c\<lparr>cr_resp := None\<rparr>) s;
          if cr_state c = ST_IDLE then do {
            b \<leftarrow> cr_resp c;
            sz \<leftarrow> rd_tlen b;
            if unat sz \<le> unat (fr_rsize f) then do {
              d \<leftarrow> rd b DP_SIZE (unat sz);
              Some (Call_done 1 d, s) }
            else Some (Call_done 0 [], s) }
          else Some (Call_done 0 [], s) }"

definition rpc_call_resume :: "call_pc \<Rightarrow> frame \<Rightarrow> rpc \<Rightarrow> (call_outcome \<times> rpc) option" where
  "rpc_call_resume pc f s = (case pc of
      Await_sack \<Rightarrow> do {
        w \<leftarrow> crecord_waitForState (fr_cr f) [ST_IDLE, ST_TIMEDOUT] s;
        case w of Blocked \<Rightarrow> Some (Call_wait pc f, s)
        | Ready st \<Rightarrow> (if st = ST_TIMEDOUT then Some (Call_done 0 [], s) else call_start f s) }
    | Await_fack fnum \<Rightarrow> do {
        w \<leftarrow> crecord_waitForState (fr_cr f) [ST_FACK_RECEIVED, ST_TIMEDOUT] s;
        case w of Blocked \<Rightarrow> Some (Call_wait pc f, s)
        | Ready st \<Rightarrow> (if st = ST_TIMEDOUT then Some (Call_done 0 [], s)
                      else call_send f (fnum + 1) s) }
    | Await_answer \<Rightarrow> do {
        w \<leftarrow> crecord_waitForState (fr_cr f) [ST_IDLE, ST_TIMEDOUT] s;
        case w of Blocked \<Rightarrow> Some (Call_wait pc f, s) | Ready _ \<Rightarrow> call_finish f s })"

subsection \<open>Serving\<close>

text \<open>\<^verbatim>\<open>rpc_query\<close> returns the connection to answer, the number of bytes and what it copied.\<close>

definition rpc_query :: "addr \<Rightarrow> u32 \<Rightarrow> rpc \<Rightarrow> ((addr \<times> u32 \<times> bytes) \<times> rpc) wait option" where
  "rpc_query rps len s =
     do { sr \<leftarrow> h_sr s rps;
          w \<leftarrow> tsl_remove (s_queue sr) s;
          case w of Blocked \<Rightarrow> Some Blocked
          | Ready ((ep, dp, _), s) \<Rightarrow> do {
              b \<leftarrow> dp;
              n \<leftarrow> rd_tlen b;
              if unat n \<le> unat len then do { d \<leftarrow> rd b DP_SIZE (unat n); Some (Ready ((ep, ucast n, d), s)) }
              else Some (Ready ((ep, 0, []), s)) } }"

datatype response_outcome = Response_wait u8 frame | Response_done int

definition response_send :: "frame \<Rightarrow> u8 \<Rightarrow> rpc \<Rightarrow> (response_outcome \<times> rpc) option" where
  "response_send f fnum s =
     do { c \<leftarrow> h_cr s (fr_cr f);
          if fnum < fr_nfrags f then do {
            s \<leftarrow> send_fragment f (cr_seqno c) fnum s;
            Some (Response_wait fnum f, s) }
          else do {
            e \<leftarrow> h_ep s (fr_ep f);
            e' \<leftarrow> h_ep s (cr_ep c);
            let blen = last_len (fr_len f) (fr_nfrags f);
            s \<leftarrow> post_data f e' (ep_subport e) RESPONSE (cr_seqno c) fnum (unat blen) (16 + blen) s;
            s \<leftarrow> crecord_setState (fr_cr f) ST_RESPONSE_SENT s;
            Some (Response_done 1, s) } }"

definition rpc_response :: "addr \<Rightarrow> bytes \<Rightarrow> u32 \<Rightarrow> rpc \<Rightarrow> (response_outcome \<times> rpc) option" where
  "rpc_response rpc rb len s =
     do { e \<leftarrow> h_ep s rpc;
          cr \<leftarrow> ctable_lookup e s;
          if cr = NULL then Some (Response_done 0, s)
          else do {
            c \<leftarrow> h_cr s cr;
            if cr_state c = ST_QACK_SENT then
              response_send \<lparr>fr_ep = rpc, fr_cr = cr, fr_data = rb, fr_len = len,
                             fr_nfrags = frag_count len, fr_seqno = 0, fr_rsize = 0\<rparr> 1 s
            else Some (Response_done 0, s) } }"

definition rpc_response_resume :: "u8 \<Rightarrow> frame \<Rightarrow> rpc \<Rightarrow> (response_outcome \<times> rpc) option" where
  "rpc_response_resume fnum f s =
     do { w \<leftarrow> crecord_waitForState (fr_cr f) [ST_FACK_RECEIVED, ST_TIMEDOUT] s;
          case w of Blocked \<Rightarrow> Some (Response_wait fnum f, s)
          | Ready st \<Rightarrow> (if st = ST_TIMEDOUT then Some (Response_done 0, s)
                        else response_send f (fnum + 1) s) }"

end
