(* ===== verification/Srpc_Invariant.thy ===== *)
theory Srpc_Invariant
  imports Srpc_Api
begin

text \<open>
  The invariant of the RPC runtime and its preservation by the reader. A state is well formed if
  the connection and service tables represent lists of records, every record in the connection
  table holds a payload as long as its size field says, refers to no service or to an offered one
  and has a reassembly block while fragments are being acknowledged, and the queues of the
  services are separate lists.
\<close>

subsection \<open>The invariant\<close>

definition rec_ok :: "addr list list \<Rightarrow> c_record \<Rightarrow> bool" where
  "rec_ok M c \<longleftrightarrow> (\<exists>b. cr_pl c = Some b \<and> length b = unat (cr_size c))
     \<and> (cr_svc c = NULL \<or> cr_svc c \<in> set (concat M))
     \<and> (cr_state c = ST_FACK_SENT \<longrightarrow> (\<exists>b. cr_resp c = Some b \<and> DP_SIZE \<le> length b))"

definition queue_of :: "'a heap_scheme \<Rightarrow> addr \<Rightarrow> addr" where
  "queue_of s sr = (case h_sr s sr of None \<Rightarrow> NULL | Some r \<Rightarrow> s_queue r)"

definition queues_ok :: "'a heap_scheme \<Rightarrow> addr list list \<Rightarrow> (addr \<Rightarrow> addr list) \<Rightarrow> bool" where
  "queues_ok s M C \<longleftrightarrow> (\<forall>sr\<in>set (concat M). tsl_cells s (queue_of s sr) (C sr))
     \<and> (\<forall>sr\<in>set (concat M). \<forall>sr'\<in>set (concat M). sr \<noteq> sr' \<longrightarrow>
          queue_of s sr \<noteq> queue_of s sr' \<and> set (C sr) \<inter> set (C sr') = {})"

lemma queues_okD:
  assumes "queues_ok s M C" "x \<in> set (concat M)"
  shows "tsl_cells s (queue_of s x) (C x)"
    "y \<in> set (concat M) \<Longrightarrow> x \<noteq> y \<Longrightarrow> queue_of s x \<noteq> queue_of s y"
    "y \<in> set (concat M) \<Longrightarrow> x \<noteq> y \<Longrightarrow> set (C x) \<inter> set (C y) = {}"
  using assms unfolding queues_ok_def by blast+

definition rpc_inv :: "rpc \<Rightarrow> addr list list \<Rightarrow> addr list list \<Rightarrow> (addr \<Rightarrow> addr list) \<Rightarrow> bool" where
  "rpc_inv s L M C \<longleftrightarrow> ctab_rep s L \<and> stab_rep s M
     \<and> (\<forall>p\<in>set (concat L). \<forall>c. h_cr s p = Some c \<longrightarrow> rec_ok M c)
     \<and> queues_ok s M C \<and> length (rxbuf s) = RX_SIZE"

definition rpc_ok :: "rpc \<Rightarrow> bool" where
  "rpc_ok s \<longleftrightarrow> (\<exists>L M C. rpc_inv s L M C)"

text \<open>Memory is available: no allocation fails and the queue counters cannot wrap around.\<close>

definition mem_ok :: "'a heap_scheme \<Rightarrow> bool" where
  "mem_ok s \<longleftrightarrow> (\<forall>k. \<not> oom s k) \<and> nalloc s + 16 < 2 ^ 64"

lemma mem_okD [simp]: "mem_ok s \<Longrightarrow> \<not> oom s k"
  by (simp add: mem_ok_def)

lemma rpc_invD:
  assumes "rpc_inv s L M C"
  shows "ctab_rep s L" "stab_rep s M" "queues_ok s M C" "length (rxbuf s) = RX_SIZE" "heap_ok s"
    "p \<in> set (concat L) \<Longrightarrow> h_cr s p = Some c \<Longrightarrow> rec_ok M c"
  using assms by (auto simp: rpc_inv_def ctab_rep_def)

subsection \<open>Framing\<close>

lemma stab_rep_cong:
  assumes "stab_rep s M" "heap_ok t" "stable t = stable s" "h_sr t = h_sr s"
  shows "stab_rep t M"
proof -
  have "sr_nx t = sr_nx s" "sr_name t = sr_name s"
    using assms(4) by (auto simp: sr_nx_def sr_name_def)
  with assms show ?thesis by (simp add: stab_rep_def)
qed

lemma queues_ok_cong:
  assumes "queues_ok s M C" "h_sr t = h_sr s" "h_lh t = h_lh s" "h_el t = h_el s"
  shows "queues_ok t M C"
proof -
  have "queue_of t = queue_of s" using assms(2) by (auto simp: queue_of_def)
  moreover have "tsl_cells t q ps" if "tsl_cells s q ps" for q ps
    by (rule tsl_cells_cong [OF that]) (simp_all add: assms)
  ultimately show ?thesis using assms(1) by (auto simp: queues_ok_def)
qed

text \<open>Everything a handler does to an existing record: the links and the endpoint stay.\<close>

lemma rpc_inv_upd:
  assumes inv: "rpc_inv s L M C" and c: "h_cr s p = Some c"
    and c': "cr_next c' = cr_next c" "cr_ep c' = cr_ep c" "rec_ok M c'"
    and t: "t = s\<lparr>h_cr := (h_cr s)(p \<mapsto> c'), nalloc := n, sent := x, rxbuf := b\<rparr>"
    and n: "nalloc s \<le> n" "length b = RX_SIZE"
  shows "rpc_inv t L M C"
proof -
  have ok: "heap_ok t"
    using rpc_invD(5) [OF inv] heap_ok_range(2) [OF rpc_invD(5) [OF inv] c] n
    by (force simp: t heap_ok_def)
  have "ctab_rep t L"
    by (rule ctab_rep_cong [OF rpc_invD(1) [OF inv] ok]) (use c c' in \<open>auto simp: t\<close>)
  moreover have "stab_rep t M" by (rule stab_rep_cong [OF rpc_invD(2) [OF inv] ok]) (simp_all add: t)
  moreover have "queues_ok t M C"
    by (rule queues_ok_cong [OF rpc_invD(3) [OF inv]]) (simp_all add: t)
  moreover have "\<forall>q\<in>set (concat L). \<forall>d. h_cr t q = Some d \<longrightarrow> rec_ok M d"
  proof (intro ballI allI impI)
    fix q d assume "q \<in> set (concat L)" "h_cr t q = Some d"
    then show "rec_ok M d"
      using rpc_invD(6) [OF inv, of q d] c'(3) by (cases "q = p") (auto simp: t)
  qed
  ultimately show ?thesis using n by (simp add: rpc_inv_def t)
qed

lemma rpc_inv_nop:
  assumes inv: "rpc_inv s L M C"
    and t: "t = s\<lparr>nalloc := n, sent := x, rxbuf := b\<rparr>" and n: "nalloc s \<le> n" "length b = RX_SIZE"
  shows "rpc_inv t L M C"
proof -
  have ok: "heap_ok t" using rpc_invD(5) [OF inv] n by (force simp: t heap_ok_def)
  have "ctab_rep t L" by (rule ctab_rep_cong [OF rpc_invD(1) [OF inv] ok]) (auto simp: t)
  moreover have "stab_rep t M" by (rule stab_rep_cong [OF rpc_invD(2) [OF inv] ok]) (simp_all add: t)
  moreover have "queues_ok t M C"
    by (rule queues_ok_cong [OF rpc_invD(3) [OF inv]]) (simp_all add: t)
  ultimately show ?thesis using rpc_invD(6) [OF inv] n by (auto simp: rpc_inv_def t)
qed

text \<open>A record found in the table, with what the handlers need of it.\<close>

lemma rpc_inv_record:
  assumes "rpc_inv s L M C" "p \<in> set (concat L)"
  obtains c e b where "h_cr s p = Some c" "h_ep s (cr_ep c) = Some e" "rec_ok M c"
    "cr_pl c = Some b" "length b = unat (cr_size c)" "p \<noteq> NULL"
proof -
  from rpc_invD(1) [OF assms(1)] assms(2) obtain c e
    where c: "h_cr s p = Some c" "h_ep s (cr_ep c) = Some e" "p \<noteq> NULL"
    by (rule ctab_rep_record)
  moreover have "rec_ok M c" using rpc_invD(6) [OF assms c(1)] .
  ultimately show thesis using that by (auto simp: rec_ok_def)
qed

subsection \<open>Passing a query to a service\<close>

lemma tsl_append_h_cr:
  "tsl_append q a b n (s\<lparr>h_cr := x\<rparr>)
     = map_option (\<lambda>(r, t). (r, t\<lparr>h_cr := x\<rparr>)) (tsl_append q a b n s)"
  by (cases "oom s (nalloc s)"; cases "h_lh s q")
    (auto simp: tsl_append_def mem_alloc_def Let_def split: bind_splits option.splits)

lemma rpc_inv_append:
  assumes inv: "rpc_inv s L M C" and mem: "\<not> oom s (nalloc s)" "nalloc s + 1 < 2 ^ 64"
    and sr: "sr \<in> set (concat M)"
  obtains t where "tsl_append (queue_of s sr) a b n s = Some (1, t)"
    "rpc_inv t L M (C(sr := C sr @ [Suc (nalloc s)]))" "h_cr t = h_cr s" "h_ep t = h_ep s"
    "map (el_msg t) (C sr @ [Suc (nalloc s)]) = map (el_msg s) (C sr) @ [(a, b, n)]"
    "nalloc t = Suc (nalloc s)" "sent t = sent s" "rxbuf t = rxbuf s"
proof -
  let ?e = "Suc (nalloc s)" and ?q = "queue_of s sr"
  have ok: "heap_ok s" using rpc_invD(5) [OF inv] .
  have q: "tsl_cells s (queue_of s x) (C x)" if "x \<in> set (concat M)" for x
    using rpc_invD(3) [OF inv] that by (auto simp: queues_ok_def)
  have sep: "queue_of s x \<noteq> queue_of s y \<and> set (C x) \<inter> set (C y) = {}"
    if "x \<in> set (concat M)" "y \<in> set (concat M)" "x \<noteq> y" for x y
    using rpc_invD(3) [OF inv] that unfolding queues_ok_def by metis
  have room: "length (C sr) + 1 < 2 ^ 64"
    using tsl_cells_length [OF q [OF sr] ok] mem(2) by simp
  obtain t where t: "tsl_append ?q a b n s = Some (1, t)" "tsl_cells t ?q (C sr @ [?e])"
    "map (el_msg t) (C sr @ [?e]) = map (el_msg s) (C sr) @ [(a, b, n)]" "heap_ok t"
    by (rule tsl_append_cells [OF ok q [OF sr] room mem(1)])
  obtain f g where fg: "t = s\<lparr>nalloc := ?e, h_el := f, h_lh := g\<rparr>"
      "\<And>p. p \<notin> set (C sr) \<Longrightarrow> p \<noteq> ?e \<Longrightarrow> f p = h_el s p" "\<And>x. x \<noteq> ?q \<Longrightarrow> g x = h_lh s x"
    using tsl_append_frame [OF t(1) q [OF sr]] by blast
  have fresh: "?e \<notin> set (C x)" if "x \<in> set (concat M)" for x
    using tsl_cells_dom(2) [OF q [OF that]] heap_ok_fresh(4) [OF ok] by auto
  have qof: "queue_of t = queue_of s" by (auto simp: queue_of_def fg(1))
  have other: "tsl_cells t (queue_of s x) (C x)" if "x \<in> set (concat M)" "x \<noteq> sr" for x
    using tsl_cells_cong [OF q [OF that(1)], of t] sep [OF that(1) sr that(2)] fresh [OF that(1)] fg(2,3)
    by (auto simp: fg(1))
  let ?C = "C(sr := C sr @ [?e])"
  have "tsl_cells t (queue_of t x) (?C x)" if "x \<in> set (concat M)" for x
    using that t(2) other by (cases "x = sr") (auto simp: qof)
  moreover have "set (?C x) \<inter> set (?C y) = {} \<and> queue_of t x \<noteq> queue_of t y"
    if "x \<in> set (concat M)" "y \<in> set (concat M)" "x \<noteq> y" for x y
    using sep [OF that] fresh [OF that(1)] fresh [OF that(2)] that(3) by (auto simp: qof)
  ultimately have "queues_ok t M ?C" unfolding queues_ok_def by blast
  moreover have "ctab_rep t L" by (rule ctab_rep_cong [OF rpc_invD(1) [OF inv] t(4)]) (auto simp: fg(1))
  moreover have "stab_rep t M" by (rule stab_rep_cong [OF rpc_invD(2) [OF inv] t(4)]) (simp_all add: fg(1))
  ultimately have "rpc_inv t L M ?C" using rpc_invD(4,6) [OF inv] by (auto simp: rpc_inv_def fg(1))
  then show thesis by (rule that [OF t(1)]) (use t(3) in \<open>simp_all add: fg(1)\<close>)
qed

text \<open>The state in which \<^verbatim>\<open>query_new\<close> appends to the queue, with the record already as it will be.\<close>

definition acked ::
    "addr \<Rightarrow> c_record \<Rightarrow> rpc_endpoint \<Rightarrow> bytes \<Rightarrow> u64 \<Rightarrow> rpc \<Rightarrow> rpc" where
  "acked cr c e pl st s =
     s\<lparr>nalloc := Suc (nalloc s),
       h_cr := (h_cr s)(cr \<mapsto> set_state st (set_payload (Some pl) 12 ATTEMPTS TICKS c)),
       sent := sent s @ [(ep_addr e, pl)]\<rparr>"

lemma query_new_eq:
  assumes c: "h_cr s cr = Some c" and e: "h_ep s (cr_ep c) = Some e" and svc: "h_sr s (cr_svc c) = Some v"
    and mem: "\<not> oom s (nalloc s)"
    and pl: "pl = cp_complete (ep_subport (m_ep m)) QACK (m_seqno m) (m_fnum m) (m_nfrags m)"
    and app: "tsl_append (s_queue v) (cr_ep c) (Some p) n (acked cr c e pl ST_QACK_SENT s) = Some (1, t)"
  shows "query_new m cr p n s = Some t"
proof -
  let ?c = "set_payload (Some pl) 12 ATTEMPTS TICKS c"
  let ?u = "acked cr c e pl ST_QACK_SENT s"
  let ?s1 = "s\<lparr>nalloc := Suc (nalloc s), h_cr := (h_cr s)(cr \<mapsto> ?c), sent := sent s @ [(ep_addr e, pl)]\<rparr>"
  have post: "post_control cr e (ep_subport (m_ep m)) QACK (m_seqno m) (m_fnum m) (m_nfrags m) s = Some ?s1"
    using mem c by (simp add: post_control_eq pl)
  have s1: "?s1 = ?u\<lparr>h_cr := (h_cr s)(cr \<mapsto> ?c)\<rparr>" by (simp add: acked_def)
  have "h_cr t = h_cr ?u"
    using app by (cases "oom ?u (nalloc ?u)") (auto simp: tsl_append_def mem_alloc_def Let_def split: bind_splits if_splits)
  then have "crecord_setState cr ST_QACK_SENT (t\<lparr>h_cr := (h_cr s)(cr \<mapsto> ?c)\<rparr>) = Some t"
    by (simp add: crecord_setState_def acked_def)
  moreover have "tsl_append (s_queue v) (cr_ep c) (Some p) n ?s1 = Some (1, t\<lparr>h_cr := (h_cr s)(cr \<mapsto> ?c)\<rparr>)"
    unfolding s1 tsl_append_h_cr app by simp
  ultimately show ?thesis using c e svc post by (simp add: query_new_def)
qed

lemma service_record:
  assumes "stab_rep s M" "sr \<in> set (concat M)"
  obtains v where "h_sr s sr = Some v" "queue_of s sr = s_queue v" "sr \<noteq> NULL"
proof -
  have "length M = STABLE_SIZE" using assms(1) by (simp add: stab_rep_def)
  with assms(2) obtain i where i: "i < STABLE_SIZE" "sr \<in> set (M ! i)" unfolding in_concat_nth by metis
  then obtain nm where "sr_name s sr = Some nm" using stab_rep_name [OF assms(1)] by blast
  then obtain v where "h_sr s sr = Some v" by (auto simp: sr_name_def split: bind_splits)
  moreover have "heap_ok s" using assms(1) by (simp add: stab_rep_def)
  ultimately show thesis using that heap_ok_range(3) by (fastforce simp: queue_of_def)
qed

end
