(* ===== verification/Srpc_Safety.thy ===== *)
theory Srpc_Safety
  imports Srpc_Invariant
begin

text \<open>
  The reader is memory safe on the messages of a cooperating peer. For each case of the switch: in a
  well-formed state with memory available, a message that fits the record it is for is handled
  without undefined behaviour and leads to a well-formed state. The theories of the findings show
  that each of the conditions is needed.
\<close>

subsection \<open>Messages that fit\<close>

text \<open>A data message of \<open>n\<close> bytes in the buffer \<open>b\<close> fits the record \<open>c\<close>: it has the length its
  header says, its fragment lies within the total length, the reassembly block was allocated for
  that total length, and the record of a query is bound to a service.\<close>

definition fits :: "u16 \<Rightarrow> nat \<Rightarrow> bytes \<Rightarrow> c_record \<Rightarrow> bool" where
  "fits cmd n b c \<longleftrightarrow>
     (let tlen = unat (dhdr_tlen b); flen = unat (dhdr_flen b); k = unat (hdr_fnum b) - 1 in
      n = DP_SIZE + flen \<and> FR_SIZE * k + flen \<le> tlen
      \<and> (cr_state c = ST_FACK_SENT \<longrightarrow> map_option length (cr_resp c) = Some (DP_SIZE + tlen))
      \<and> (cmd = QUERY \<longrightarrow> cr_svc c \<noteq> NULL))"

definition data_command :: "u16 \<Rightarrow> bool" where
  "data_command cmd \<longleftrightarrow> cmd = QUERY \<or> cmd = RESPONSE \<or> cmd = FRAGMENT"

text \<open>A datagram a cooperating peer may send in state \<open>s\<close>.\<close>

definition benign :: "sockaddr_in \<Rightarrow> bytes \<Rightarrow> rpc \<Rightarrow> bool" where
  "benign a d s \<longleftrightarrow> CP_SIZE \<le> length d \<and> length d < RX_SIZE
     \<and> (hdr_command d = CONNECT \<longrightarrow> 0 \<le> hash (takeWhile (\<lambda>c. c \<noteq> 0) (drop 12 d)))
     \<and> (data_command (hdr_command d) \<longrightarrow>
          (case Option.bind (ctable_lookup (m_ep (parse_msg a (length d) d)) s) (h_cr s) of
             None \<Rightarrow> True | Some c \<Rightarrow> fits (hdr_command d) (length d) d c))"

lemma hdr_append [simp]:
  assumes "12 \<le> length d"
  shows "hdr_subport (d @ r) = hdr_subport d" "hdr_seqno (d @ r) = hdr_seqno d"
    "hdr_command (d @ r) = hdr_command d" "hdr_fnum (d @ r) = hdr_fnum d"
    "hdr_nfrags (d @ r) = hdr_nfrags d"
  using assms by (simp_all add: hdr_subport_def hdr_seqno_def hdr_command_def hdr_fnum_def
      hdr_nfrags_def nth_append)

lemma dhdr_append [simp]:
  assumes "16 \<le> length d"
  shows "dhdr_tlen (d @ r) = dhdr_tlen d" "dhdr_flen (d @ r) = dhdr_flen d"
  using assms by (simp_all add: dhdr_tlen_def dhdr_flen_def)

lemma parse_msg_append: "12 \<le> length d \<Longrightarrow> parse_msg a n (d @ r) = parse_msg a n d"
  by (simp add: parse_msg_def)

lemma fits_append: "fits cmd n d c \<Longrightarrow> n \<le> length d \<Longrightarrow> fits cmd n (d @ r) c"
  by (simp add: fits_def Let_def)

subsection \<open>Copying into blocks\<close>

lemma copy_datagram_eq:
  assumes "\<not> oom s (nalloc s)" "n \<le> sz" "n \<le> length (rxbuf s)"
  shows "copy_datagram sz n s =
    Some (take n (rxbuf s) @ map (junk s (nalloc s)) [n..<sz], s\<lparr>nalloc := Suc (nalloc s)\<rparr>)"
  using assms by (simp add: copy_datagram_def mem_alloc_buf_def wr_def rd_def drop_map)

lemma copy_fragment_eq:
  assumes "DP_SIZE + FR_SIZE * (unat fnum - 1) + unat (dhdr_flen (rxbuf s)) \<le> length b"
    "DP_SIZE + unat (dhdr_flen (rxbuf s)) \<le> length (rxbuf s)"
  shows "copy_fragment fnum (Some b) s =
    (let off = DP_SIZE + FR_SIZE * (unat fnum - 1); flen = unat (dhdr_flen (rxbuf s)) in
     Some (take off b @ take flen (drop DP_SIZE (rxbuf s)) @ drop (off + flen) b))"
  using assms by (simp add: copy_fragment_def wr_def rd_def Let_def)

subsection \<open>The control messages\<close>

lemma rec_ok_state: "rec_ok M c \<Longrightarrow> st \<noteq> ST_FACK_SENT \<or> cr_state c = ST_FACK_SENT \<Longrightarrow> rec_ok M (set_state st c)"
  by (auto simp: rec_ok_def set_state_def)

lemma rpc_ok_setState:
  assumes inv: "rpc_inv s L M C" and p: "p \<in> set (concat L)"
    and st: "st \<noteq> ST_FACK_SENT \<or> (\<forall>c. h_cr s p = Some c \<longrightarrow> cr_state c = ST_FACK_SENT)"
  shows "\<exists>t. crecord_setState p st s = Some t \<and> rpc_inv t L M C"
proof -
  obtain c where c: "h_cr s p = Some c" "rec_ok M c" by (rule rpc_inv_record [OF inv p])
  have "rpc_inv (s\<lparr>h_cr := (h_cr s)(p \<mapsto> set_state st c)\<rparr>) L M C"
    by (rule rpc_inv_upd [OF inv c(1), where c' = "set_state st c" and n = "nalloc s"
          and x = "sent s" and b = "rxbuf s"])
      (use rec_ok_state [OF c(2)] st c rpc_invD(4) [OF inv] in \<open>auto simp: set_state_def\<close>)
  then show ?thesis using c by (simp add: crecord_setState_def)
qed

lemma rpc_inv_send:
  assumes inv: "rpc_inv s L M C"
  shows "rpc_inv (s\<lparr>sent := x\<rparr>) L M C"
  by (rule rpc_inv_nop [OF inv, where n = "nalloc s" and x = x and b = "rxbuf s"]) (use rpc_invD(4) [OF inv] in auto)

lemma send_current_ok:
  assumes inv: "rpc_inv s L M C" and p: "p \<in> set (concat L)"
  shows "\<exists>x. send_current p s = Some (s\<lparr>sent := x\<rparr>)"
proof -
  obtain c e b where c: "h_cr s p = Some c" "h_ep s (cr_ep c) = Some e"
      "cr_pl c = Some b" "length b = unat (cr_size c)"
    by (rule rpc_inv_record [OF inv p])
  then show ?thesis by (auto simp: send_current_def send_payload_def rd_def)
qed

text \<open>What a handler has to establish.\<close>

definition safe :: "rpc option \<Rightarrow> bool" where
  "safe r \<longleftrightarrow> (\<exists>t. r = Some t \<and> rpc_ok t)"

lemma safeI: "r = Some t \<Longrightarrow> rpc_inv t L M C \<Longrightarrow> safe r"
  by (auto simp: safe_def rpc_ok_def)

lemma safe_same: "rpc_inv s L M C \<Longrightarrow> safe (Some s)"
  by (rule safeI) auto

lemma setState_safe:
  assumes "rpc_inv s L M C" "p \<in> set (concat L)"
    "st \<noteq> ST_FACK_SENT \<or> (\<forall>c. h_cr s p = Some c \<longrightarrow> cr_state c = ST_FACK_SENT)"
  shows "safe (crecord_setState p st s)"
  using rpc_ok_setState [OF assms] safeI by blast

lemma resend_old_safe:
  assumes inv: "rpc_inv s L M C" and p: "p \<in> set (concat L)" and c: "h_cr s p = Some c"
  shows "safe (resend_old p (cr_state c) s)"
proof -
  obtain x where x: "send_current p s = Some (s\<lparr>sent := x\<rparr>)" using send_current_ok [OF inv p] ..
  have "safe (crecord_setState p (cr_state c) (s\<lparr>sent := x\<rparr>))"
    by (rule setState_safe [OF rpc_inv_send [OF inv] p]) (use c in auto)
  then show ?thesis by (simp add: resend_old_def x)
qed

lemma on_ack_safe:
  assumes inv: "rpc_inv s L M C" and p: "p = NULL \<or> p \<in> set (concat L)" and st: "st \<noteq> ST_FACK_SENT"
  shows "safe (on_ack st m p s)"
proof (cases "p = NULL")
  case False
  with p have p: "p \<in> set (concat L)" by simp
  obtain c where c: "h_cr s p = Some c" by (rule rpc_inv_record [OF inv p])
  then show ?thesis using False setState_safe [OF inv p] st safe_same [OF inv]
    by (simp add: on_ack_def)
qed (use safe_same [OF inv] in \<open>simp add: on_ack_def\<close>)

lemma on_disconnect_safe:
  assumes inv: "rpc_inv s L M C" and p: "p = NULL \<or> p \<in> set (concat L)"
  shows "safe (on_disconnect m p s)"
proof (cases "p = NULL")
  case False
  with p setState_safe [OF rpc_inv_send [OF inv], of p ST_TIMEDOUT] show ?thesis
    by (simp add: on_disconnect_def send_payload_def rd_def del: set_concat)
qed (use safe_same [OF rpc_inv_send [OF inv]] in \<open>simp add: on_disconnect_def send_payload_def rd_def\<close>)

lemma on_fack_safe:
  assumes inv: "rpc_inv s L M C" and p: "p = NULL \<or> p \<in> set (concat L)"
  shows "safe (on_fack m p s)"
proof (cases "p = NULL")
  case False
  with p have p: "p \<in> set (concat L)" by simp
  obtain c where c: "h_cr s p = Some c" by (rule rpc_inv_record [OF inv p])
  then show ?thesis using False setState_safe [OF inv p] safe_same [OF inv] by (simp add: on_fack_def)
qed (use safe_same [OF inv] in \<open>simp add: on_fack_def\<close>)

lemma on_ping_safe: "rpc_inv s L M C \<Longrightarrow> safe (on_ping m p s)"
  using safe_same [of s L M C] safe_same [OF rpc_inv_send [of s L M C]]
  by (simp add: on_ping_def send_payload_def rd_def)

lemma on_pack_safe:
  assumes inv: "rpc_inv s L M C" and p: "p = NULL \<or> p \<in> set (concat L)"
  shows "safe (on_pack m p s)"
proof (cases "p = NULL")
  case False
  with p have p: "p \<in> set (concat L)" by simp
  obtain c where c: "h_cr s p = Some c" by (rule rpc_inv_record [OF inv p])
  then show ?thesis using False setState_safe [OF inv p] by (simp add: on_pack_def)
qed (use safe_same [OF inv] in \<open>simp add: on_pack_def\<close>)

lemma on_sack_safe:
  assumes inv: "rpc_inv s L M C" and p: "p = NULL \<or> p \<in> set (concat L)"
  shows "safe (on_sack m p s)"
proof (cases "p = NULL")
  case False
  with p have p: "p \<in> set (concat L)" by simp
  obtain c where c: "h_cr s p = Some c" by (rule rpc_inv_record [OF inv p])
  then show ?thesis using False setState_safe [OF inv p] safe_same [OF inv] by (simp add: on_sack_def)
qed (use safe_same [OF inv] in \<open>simp add: on_sack_def\<close>)

text \<open>The record of an acknowledged message, and its acknowledgement in the trace.\<close>

lemma acked_inv:
  assumes inv: "rpc_inv s L M C" and c: "h_cr s p = Some c"
    and c': "cr_next c' = cr_next c" "cr_ep c' = cr_ep c" "cr_svc c' = cr_svc c" "rec_ok M c"
    and st: "st = ST_FACK_SENT \<Longrightarrow> \<exists>b. cr_resp c' = Some b \<and> DP_SIZE \<le> length b"
    and pl: "length pl = 12" and t: "t = s\<lparr>h_cr := h, nalloc := n\<rparr>" "nalloc s \<le> n"
    and h: "h(p := None) = (h_cr s)(p := None)"
  shows "rpc_inv (acked p c' e pl st t) L M C"
proof (rule rpc_inv_upd [OF inv c])
  let ?c = "set_state st (set_payload (Some pl) 12 ATTEMPTS TICKS c')"
  show "cr_next ?c = cr_next c" "cr_ep ?c = cr_ep c"
    using c' by (simp_all add: set_state_def set_payload_def)
  show "rec_ok M ?c" using c' st pl by (auto simp: rec_ok_def set_state_def set_payload_def)
  have "h(p \<mapsto> ?c) = (h_cr s)(p \<mapsto> ?c)" using h by (metis fun_upd_upd)
  then show "acked p c' e pl st t = s\<lparr>h_cr := (h_cr s)(p \<mapsto> ?c), nalloc := Suc n,
      sent := sent s @ [(ep_addr e, pl)], rxbuf := rxbuf s\<rparr>"
    by (simp add: acked_def t)
  show "nalloc s \<le> Suc n" "length (rxbuf s) = RX_SIZE" using t(2) rpc_invD(4) [OF inv] by auto
qed

lemma on_seqno_safe:
  assumes inv: "rpc_inv s L M C" and mem: "mem_ok s" and p: "p = NULL \<or> p \<in> set (concat L)"
  shows "safe (on_seqno m p s)"
proof (cases "p = NULL")
  case False
  with p have p: "p \<in> set (concat L)" by simp
  obtain c e where c: "h_cr s p = Some c" "h_ep s (cr_ep c) = Some e" "rec_ok M c"
    by (rule rpc_inv_record [OF inv p])
  let ?pl = "cp_complete (ep_subport (m_ep m)) SACK (m_seqno m) 1 1"
  let ?c = "c\<lparr>cr_seqno := m_seqno m\<rparr>"
  have "rpc_inv (acked p ?c e ?pl ST_IDLE s) L M C"
    by (rule acked_inv [OF inv c(1), where h = "h_cr s" and n = "nalloc s"]) (use c in auto)
  moreover have "on_seqno m p s = Some (if cr_state c = ST_IDLE \<or> cr_state c = ST_RESPONSE_SENT
      then acked p ?c e ?pl ST_IDLE s else s)"
    using c False mem
    by (auto simp: on_seqno_def post_control_eq crecord_setState_def acked_def intro!: rpc.equality)
  ultimately show ?thesis using inv by (auto intro: safeI split: if_splits)
qed (use safe_same [OF inv] in \<open>simp add: on_seqno_def\<close>)

subsection \<open>Queries, responses and fragments\<close>

text \<open>The state just before the answer: the record may have been changed in fields other than its
  links and its service, and blocks may have been allocated.\<close>

definition touched :: "addr \<Rightarrow> c_record \<Rightarrow> nat \<Rightarrow> rpc \<Rightarrow> rpc" where
  "touched p c' n s = s\<lparr>h_cr := (h_cr s)(p \<mapsto> c'), nalloc := n\<rparr>"

lemma touched_inv:
  assumes "rpc_inv s L M C" "h_cr s p = Some c" "rec_ok M c" "nalloc s \<le> n" "length pl = 12"
    and "cr_next c' = cr_next c" "cr_ep c' = cr_ep c" "cr_svc c' = cr_svc c"
    and "st = ST_FACK_SENT \<Longrightarrow> \<exists>b. cr_resp c' = Some b \<and> DP_SIZE \<le> length b"
  shows "rpc_inv (acked p c' e pl st (touched p c' n s)) L M C"
  by (rule acked_inv [OF assms(1,2), where h = "(h_cr s)(p \<mapsto> c')" and n = n])
    (use assms in \<open>auto simp: touched_def\<close>)

lemma query_new_safe:
  assumes inv: "rpc_inv s L M C" and c: "h_cr s p = Some c" "h_ep s (cr_ep c) = Some e" "rec_ok M c"
    and svc: "cr_svc c \<noteq> NULL" and mem: "mem_ok s" and n: "nalloc s \<le> n" "n \<le> nalloc s + 4"
    and c': "cr_next c' = cr_next c" "cr_ep c' = cr_ep c" "cr_svc c' = cr_svc c"
  shows "safe (query_new m p d k (touched p c' n s))"
proof -
  let ?s = "touched p c' n s"
  let ?pl = "cp_complete (ep_subport (m_ep m)) QACK (m_seqno m) (m_fnum m) (m_nfrags m)"
  let ?u = "acked p c' e ?pl ST_QACK_SENT ?s"
  have sr: "cr_svc c \<in> set (concat M)" using c(3) svc by (auto simp: rec_ok_def)
  obtain v where v: "h_sr s (cr_svc c) = Some v" "queue_of s (cr_svc c) = s_queue v"
    by (rule service_record [OF rpc_invD(2) [OF inv] sr])
  have u: "rpc_inv ?u L M C" by (rule touched_inv [OF inv c(1,3) n(1)]) (simp_all add: c')
  have "\<not> oom ?u (nalloc ?u)" "nalloc ?u + 1 < 2 ^ 64"
    using mem n by (simp_all add: acked_def touched_def mem_ok_def)
  then obtain t where t: "tsl_append (queue_of ?u (cr_svc c)) (cr_ep c) (Some d) k ?u = Some (1, t)"
      "rpc_inv t L M (C(cr_svc c := C (cr_svc c) @ [Suc (nalloc ?u)]))"
    by (rule rpc_inv_append [OF u _ _ sr])
  have "queue_of ?u (cr_svc c) = s_queue v" using v by (simp add: acked_def touched_def queue_of_def)
  then have "query_new m p d k ?s = Some t"
    using query_new_eq [of ?s p c' e v ?pl m d k t] t(1) c c' v mem by (simp add: touched_def)
  then show ?thesis using t(2) by (rule safeI)
qed

lemma fitsD:
  assumes "fits cmd n b c" "DP_SIZE + unat (dhdr_flen b) \<le> length b"
  shows "n = DP_SIZE + unat (dhdr_flen b)" "n \<le> length b"
    "FR_SIZE * (unat (hdr_fnum b) - 1) + unat (dhdr_flen b) \<le> unat (dhdr_tlen b)"
    "cr_state c = ST_FACK_SENT \<Longrightarrow> \<exists>r. cr_resp c = Some r \<and> length r = DP_SIZE + unat (dhdr_tlen b)"
    "cmd = QUERY \<Longrightarrow> cr_svc c \<noteq> NULL"
  using assms by (auto simp: fits_def Let_def)

text \<open>A fragment that fits is copied into the reassembly block, which keeps its length.\<close>

lemma copy_fragment_fits:
  assumes "fits cmd n (rxbuf s) c" "n < length (rxbuf s)" "cr_state c = ST_FACK_SENT"
    and "f = hdr_fnum (rxbuf s)"
  obtains r r' where "cr_resp c = Some r" "copy_fragment f (Some r) s = Some r'" "length r' = length r"
    "DP_SIZE \<le> length r'"
proof -
  have n: "DP_SIZE + unat (dhdr_flen (rxbuf s)) \<le> length (rxbuf s)"
    using assms(1,2) by (simp add: fits_def Let_def)
  note fit = fitsD [OF assms(1) n]
  obtain r where r: "cr_resp c = Some r" "length r = DP_SIZE + unat (dhdr_tlen (rxbuf s))"
    using fit(4) [OF assms(3)] by blast
  have "copy_fragment f (Some r) s = Some (the (copy_fragment f (Some r) s))"
    "length (the (copy_fragment f (Some r) s)) = length r"
    using copy_fragment_eq [of f s r] r(2) fit(3) n by (simp_all add: assms(4) Let_def)
  then show thesis using that r by simp
qed

text \<open>The two ways a query is accepted: in one datagram, or as the last fragment.\<close>

lemma on_query_new_eq:
  assumes "p \<noteq> NULL" "h_cr s p = Some c" "\<not> oom s (nalloc s)" "m_n m \<le> length (rxbuf s)"
    "m_seqno m - cr_seqno c = 1" "cr_state c = ST_IDLE \<or> cr_state c = ST_RESPONSE_SENT"
  shows "on_query m p s = query_new m p (take (m_n m) (rxbuf s)) (of_nat (m_n m))
    (touched p (c\<lparr>cr_seqno := m_seqno m\<rparr>) (Suc (nalloc s)) s)"
proof -
  have "copy_datagram (m_n m) (m_n m) (touched p (c\<lparr>cr_seqno := m_seqno m\<rparr>) (nalloc s) s)
      = Some (take (m_n m) (rxbuf s), touched p (c\<lparr>cr_seqno := m_seqno m\<rparr>) (Suc (nalloc s)) s)"
    using assms by (subst copy_datagram_eq) (simp_all add: touched_def)
  then show ?thesis using assms by (simp add: on_query_def touched_def)
qed

lemma on_query_last_eq:
  assumes "p \<noteq> NULL" "h_cr s p = Some c" "m_seqno m = cr_seqno c" "cr_state c = ST_FACK_SENT"
    "next_frag (m_fnum m) (cr_lastFrag c)" "m_fnum m = m_nfrags m"
    "copy_fragment (m_fnum m) (cr_resp c) s = Some d"
  shows "on_query m p s = query_new m p d (16 + ucast (dhdr_tlen (rxbuf s)))
    (touched p (c\<lparr>cr_resp := None\<rparr>) (nalloc s) s)"
proof -
  have "copy_fragment (m_fnum m) (cr_resp c) (touched p (c\<lparr>cr_resp := None\<rparr>) (nalloc s) s) = Some d"
    using assms(7) by (simp add: copy_fragment_def touched_def)
  then show ?thesis using assms by (auto simp: on_query_def touched_def)
qed

lemma on_query_safe:
  assumes inv: "rpc_inv s L M C" and mem: "mem_ok s" and p: "p = NULL \<or> p \<in> set (concat L)"
    and fit: "\<And>c. h_cr s p = Some c \<Longrightarrow> p \<noteq> NULL \<Longrightarrow> fits QUERY (m_n m) (rxbuf s) c"
    and m: "m_fnum m = hdr_fnum (rxbuf s)" "m_n m < RX_SIZE"
  shows "safe (on_query m p s)"
proof (cases "p = NULL")
  case False
  with p have p: "p \<in> set (concat L)" by simp
  obtain c e where c: "h_cr s p = Some c" "h_ep s (cr_ep c) = Some e" "rec_ok M c"
    by (rule rpc_inv_record [OF inv p])
  note fit = fit [OF c(1) False]
  have svc: "cr_svc c \<noteq> NULL" using fit by (simp add: fits_def Let_def)
  have len: "length (rxbuf s) = RX_SIZE" using rpc_invD(4) [OF inv] .
  let ?new = "m_seqno m - cr_seqno c = 1 \<and> (cr_state c = ST_IDLE \<or> cr_state c = ST_RESPONSE_SENT)"
  let ?frag = "m_seqno m = cr_seqno c \<and> cr_state c = ST_FACK_SENT
      \<and> next_frag (m_fnum m) (cr_lastFrag c) \<and> m_fnum m = m_nfrags m"
  consider (new) "?new" | (frag) "\<not> ?new" "?frag" | (rest) "\<not> ?new" "\<not> ?frag" by argo
  then show ?thesis
  proof cases
    case new
    then have "on_query m p s = query_new m p (take (m_n m) (rxbuf s)) (of_nat (m_n m))
        (touched p (c\<lparr>cr_seqno := m_seqno m\<rparr>) (Suc (nalloc s)) s)"
      using c(1) False mem m(2) len by (intro on_query_new_eq) auto
    then show ?thesis
      using query_new_safe [OF inv c svc mem, of "Suc (nalloc s)" "c\<lparr>cr_seqno := m_seqno m\<rparr>"] by simp
  next
    case frag
    obtain r r' where r: "cr_resp c = Some r" "copy_fragment (m_fnum m) (Some r) s = Some r'"
      by (rule copy_fragment_fits [of QUERY "m_n m" s c "m_fnum m"])
        (use fit m len frag in simp_all)
    then have "on_query m p s = query_new m p r' (16 + ucast (dhdr_tlen (rxbuf s)))
        (touched p (c\<lparr>cr_resp := None\<rparr>) (nalloc s) s)"
      using frag c(1) False by (intro on_query_last_eq) auto
    then show ?thesis
      using query_new_safe [OF inv c svc mem, of "nalloc s" "c\<lparr>cr_resp := None\<rparr>"] by simp
  next
    case rest
    then show ?thesis using resend_old_safe [OF inv p c(1)] safe_same [OF inv] c(1) False
      by (auto simp: on_query_def Let_def)
  qed
qed (use safe_same [OF inv] in \<open>simp add: on_query_def\<close>)

lemma response_ack_safe:
  assumes inv: "rpc_inv s L M C" and c: "h_cr s p = Some c" "h_ep s (cr_ep c) = Some e" "rec_ok M c"
    and mem: "mem_ok s" and n: "nalloc s \<le> n"
    and c': "cr_next c' = cr_next c" "cr_ep c' = cr_ep c" "cr_svc c' = cr_svc c"
  shows "safe (response_ack m p (touched p c' n s))"
proof -
  let ?pl = "cp_complete (ep_subport (m_ep m)) RACK (m_seqno m) (m_fnum m) (m_nfrags m)"
  have "response_ack m p (touched p c' n s) = Some (acked p c' e ?pl ST_IDLE (touched p c' n s))"
    using c c' mem by (simp add: response_ack_def touched_def acked_def post_control_eq
        crecord_setState_def rpc.equality)
  moreover have "rpc_inv (acked p c' e ?pl ST_IDLE (touched p c' n s)) L M C"
    by (rule touched_inv [OF inv c(1,3) n]) (simp_all add: c')
  ultimately show ?thesis by (rule safeI)
qed

lemma fragment_new_eq:
  assumes "h_ep s (cr_ep c) = Some e" "\<not> oom s n"
  shows "fragment_new m p (touched p c n s) =
    Some (acked p (c\<lparr>cr_lastFrag := m_fnum m\<rparr>) e
      (cp_complete (ep_subport (m_ep m)) FACK (m_seqno m) (m_fnum m) (m_nfrags m)) ST_FACK_SENT
      (touched p (c\<lparr>cr_lastFrag := m_fnum m\<rparr>) n s))"
  using assms by (simp add: fragment_new_def touched_def acked_def post_control_eq
      crecord_setState_def rpc.equality)

lemma fragment_new_safe:
  assumes inv: "rpc_inv s L M C" and c: "h_cr s p = Some c" "h_ep s (cr_ep c) = Some e" "rec_ok M c"
    and mem: "mem_ok s" and n: "nalloc s \<le> n"
    and c': "cr_next c' = cr_next c" "cr_ep c' = cr_ep c" "cr_svc c' = cr_svc c"
      "cr_resp c' = Some b" "DP_SIZE \<le> length b"
  shows "safe (fragment_new m p (touched p c' n s))"
proof -
  let ?c = "c'\<lparr>cr_lastFrag := m_fnum m\<rparr>"
  have "rpc_inv (acked p ?c e (cp_complete (ep_subport (m_ep m)) FACK (m_seqno m) (m_fnum m) (m_nfrags m))
      ST_FACK_SENT (touched p ?c n s)) L M C"
    by (rule touched_inv [OF inv c(1,3) n]) (simp_all add: c')
  moreover have "h_ep s (cr_ep c') = Some e" "\<not> oom s n" using c(2) c'(2) mem by simp_all
  ultimately show ?thesis using fragment_new_eq [of s c' e n m p] safeI by metis
qed

text \<open>The two ways a fragment is accepted: the first one of a message, or the next one.\<close>

definition first_fragment :: "msg \<Rightarrow> c_record \<Rightarrow> bool" where
  "first_fragment m c \<longleftrightarrow> m_fnum m = 1 \<and>
     ((cr_state c = ST_IDLE \<or> cr_state c = ST_RESPONSE_SENT) \<and> m_seqno m - cr_seqno c = 1
      \<or> (cr_state c = ST_QUERY_SENT \<or> cr_state c = ST_AWAITING_RESPONSE) \<and> m_seqno m = cr_seqno c)"

lemma on_fragment_first_eq:
  fixes s :: rpc
  defines "sz \<equiv> DP_SIZE + unat (dhdr_tlen (rxbuf s))"
  assumes "p \<noteq> NULL" "h_cr s p = Some c" "\<not> oom s (nalloc s)" "m_n m \<le> sz" "m_n m \<le> length (rxbuf s)"
    "first_fragment m c"
  shows "on_fragment m p s = fragment_new m p (touched p
    (c\<lparr>cr_seqno := m_seqno m,
       cr_resp := Some (take (m_n m) (rxbuf s) @ map (junk s (nalloc s)) [m_n m..<sz])\<rparr>)
    (Suc (nalloc s)) s)"
proof -
  let ?d = "take (m_n m) (rxbuf s) @ map (junk s (nalloc s)) [m_n m..<sz]"
  let ?cs = "c\<lparr>cr_seqno := m_seqno m\<rparr>"
  have "copy_datagram sz (m_n m) (touched p ?cs (nalloc s) s) = Some (?d, touched p ?cs (Suc (nalloc s)) s)"
    using assms by (subst copy_datagram_eq) (simp_all add: touched_def)
  then show ?thesis
    using assms(2,3,7) by (auto simp: on_fragment_def touched_def Let_def sz_def first_fragment_def
        intro!: arg_cong [of _ _ "fragment_new m p"] rpc.equality)
qed

lemma on_fragment_next_eq:
  assumes "p \<noteq> NULL" "h_cr s p = Some c" "m_seqno m = cr_seqno c" "cr_state c = ST_FACK_SENT"
    "next_frag (m_fnum m) (cr_lastFrag c)" "copy_fragment (m_fnum m) (cr_resp c) s = Some d"
  shows "on_fragment m p s = fragment_new m p (touched p (c\<lparr>cr_resp := Some d\<rparr>) (nalloc s) s)"
  using assms by (auto simp: on_fragment_def touched_def Let_def)

lemma on_response_safe:
  assumes inv: "rpc_inv s L M C" and mem: "mem_ok s" and p: "p = NULL \<or> p \<in> set (concat L)"
    and fit: "\<And>c. h_cr s p = Some c \<Longrightarrow> p \<noteq> NULL \<Longrightarrow> fits RESPONSE (m_n m) (rxbuf s) c"
    and m: "m_fnum m = hdr_fnum (rxbuf s)" "m_n m < RX_SIZE"
  shows "safe (on_response m p s)"
proof (cases "p = NULL")
  case False
  with p have p: "p \<in> set (concat L)" by simp
  obtain c e where c: "h_cr s p = Some c" "h_ep s (cr_ep c) = Some e" "rec_ok M c"
    by (rule rpc_inv_record [OF inv p])
  have len: "length (rxbuf s) = RX_SIZE" using rpc_invD(4) [OF inv] .
  let ?new = "m_seqno m = cr_seqno c \<and> (cr_state c = ST_QUERY_SENT \<or> cr_state c = ST_AWAITING_RESPONSE)"
  let ?frag = "m_seqno m = cr_seqno c \<and> cr_state c = ST_FACK_SENT
      \<and> next_frag (m_fnum m) (cr_lastFrag c) \<and> m_fnum m = m_nfrags m"
  consider (new) "?new" | (frag) "\<not> ?new" "?frag" | (rest) "\<not> ?new" "\<not> ?frag" by argo
  then show ?thesis
  proof cases
    case new
    let ?d = "take (m_n m) (rxbuf s) @ map (junk s (nalloc s)) [m_n m..<m_n m]"
    let ?c = "c\<lparr>cr_resp := Some ?d\<rparr>"
    have "copy_datagram (m_n m) (m_n m) s = Some (?d, s\<lparr>nalloc := Suc (nalloc s)\<rparr>)"
      using mem m(2) len by (subst copy_datagram_eq) simp_all
    then have "on_response m p s = response_ack m p (touched p ?c (Suc (nalloc s)) s)"
      using new c(1) False by (auto simp: on_response_def touched_def intro!: arg_cong [of _ _ "response_ack m p"] rpc.equality)
    then show ?thesis using response_ack_safe [OF inv c mem, of "Suc (nalloc s)" ?c] by simp
  next
    case frag
    obtain r r' where r: "cr_resp c = Some r" "copy_fragment (m_fnum m) (Some r) s = Some r'"
      by (rule copy_fragment_fits [of RESPONSE "m_n m" s c "m_fnum m"])
        (use fit [OF c(1) False] m len frag in simp_all)
    let ?c = "c\<lparr>cr_resp := Some r', cr_lastFrag := m_fnum m\<rparr>"
    have "on_response m p s = response_ack m p (touched p ?c (nalloc s) s)"
      using frag c(1) False r by (auto simp: on_response_def touched_def)
    then show ?thesis using response_ack_safe [OF inv c mem, of "nalloc s" ?c] by simp
  next
    case rest
    then show ?thesis using safe_same [OF inv] c(1) False by (auto simp: on_response_def Let_def)
  qed
qed (use safe_same [OF inv] in \<open>simp add: on_response_def\<close>)

lemma on_fragment_safe:
  assumes inv: "rpc_inv s L M C" and mem: "mem_ok s" and p: "p = NULL \<or> p \<in> set (concat L)"
    and fit: "\<And>c. h_cr s p = Some c \<Longrightarrow> p \<noteq> NULL \<Longrightarrow> fits FRAGMENT (m_n m) (rxbuf s) c"
    and m: "m_fnum m = hdr_fnum (rxbuf s)" "m_n m < RX_SIZE"
  shows "safe (on_fragment m p s)"
proof (cases "p = NULL")
  case False
  with p have p: "p \<in> set (concat L)" by simp
  obtain c e where c: "h_cr s p = Some c" "h_ep s (cr_ep c) = Some e" "rec_ok M c"
    by (rule rpc_inv_record [OF inv p])
  have len: "length (rxbuf s) = RX_SIZE" using rpc_invD(4) [OF inv] .
  let ?new = "first_fragment m c"
  let ?frag = "m_seqno m = cr_seqno c \<and> cr_state c = ST_FACK_SENT \<and> next_frag (m_fnum m) (cr_lastFrag c)"
  consider (new) "?new" | (frag) "\<not> ?new" "?frag" | (rest) "\<not> ?new" "\<not> ?frag" by argo
  then show ?thesis
  proof cases
    case new
    let ?sz = "DP_SIZE + unat (dhdr_tlen (rxbuf s))"
    let ?d = "take (m_n m) (rxbuf s) @ map (junk s (nalloc s)) [m_n m..<?sz]"
    let ?c = "c\<lparr>cr_seqno := m_seqno m, cr_resp := Some ?d\<rparr>"
    have sz: "m_n m \<le> ?sz" using fit [OF c(1) False] by (simp add: fits_def Let_def)
    have "on_fragment m p s = fragment_new m p (touched p ?c (Suc (nalloc s)) s)"
      using new c(1) False mem m(2) len sz by (intro on_fragment_first_eq) auto
    moreover have "DP_SIZE \<le> length ?d" using sz m(2) len by simp
    ultimately show ?thesis
      using fragment_new_safe [OF inv c mem, of "Suc (nalloc s)" ?c ?d] by simp
  next
    case frag
    obtain r r' where r: "cr_resp c = Some r" "copy_fragment (m_fnum m) (Some r) s = Some r'"
        "DP_SIZE \<le> length r'"
      by (rule copy_fragment_fits [of FRAGMENT "m_n m" s c "m_fnum m"])
        (use fit [OF c(1) False] m len frag in simp_all)
    let ?c = "c\<lparr>cr_resp := Some r'\<rparr>"
    have "on_fragment m p s = fragment_new m p (touched p ?c (nalloc s) s)"
      using frag c(1) False r by (intro on_fragment_next_eq) auto
    then show ?thesis using fragment_new_safe [OF inv c mem, of "nalloc s" ?c r'] r(3) by simp
  next
    case rest
    then show ?thesis using resend_old_safe [OF inv p c(1)] safe_same [OF inv] c(1) False
      by (auto simp: on_fragment_def Let_def first_fragment_def)
  qed
qed (use safe_same [OF inv] in \<open>simp add: on_fragment_def\<close>)

subsection \<open>New connections\<close>

text \<open>Linking a new record with a new endpoint into the connection table.\<close>

lemma rpc_inv_insert:
  assumes inv: "rpc_inv s L M C" and a: "nalloc s < a" "a \<le> n" and b: "nalloc s < b" "b \<le> n"
    and c: "cr_ep c = a" "rec_ok M c"
    and t: "t = s\<lparr>h_ep := (h_ep s)(a \<mapsto> e), h_cr := (h_cr s)(b \<mapsto> c), nalloc := n, sent := x,
                  ctr := y\<rparr>"
  shows "\<exists>u. ctable_insert b t = Some u \<and> rpc_inv u (L[ep_bucket e := b # L ! ep_bucket e]) M C
     \<and> h_cr u = (h_cr t)(b \<mapsto> c\<lparr>cr_next := ctable t ! ep_bucket e\<rparr>) \<and> h_ep u = h_ep t \<and> sent u = sent t
     \<and> nalloc u = nalloc t \<and> ctable u = (ctable t)[ep_bucket e := b]"
proof -
  have ok: "heap_ok s" using rpc_invD(5) [OF inv] .
  have ab: "a \<in> {0<..nalloc t}" "b \<in> {0<..nalloc t}" "h_cr s b = None" "h_ep s a = None"
    using a b t heap_ok_range(1,2) [OF ok, of a] heap_ok_range(2) [OF ok, of b] by force+
  have okt: "heap_ok t" using ok a b by (force simp: heap_ok_def t)
  have old: "q \<noteq> b \<and> (\<forall>d. h_cr s q = Some d \<longrightarrow> cr_ep d \<noteq> a) \<and> h_cr s q \<noteq> None"
    if q: "q \<in> set (concat L)" for q
  proof -
    obtain d e' where "h_cr s q = Some d" "h_ep s (cr_ep d) = Some e'"
      by (rule ctab_rep_record [OF rpc_invD(1) [OF inv] q])
    then show ?thesis using ab(3,4) by auto
  qed
  have rept: "ctab_rep t L"
    by (rule ctab_rep_cong [OF rpc_invD(1) [OF inv] okt]) (use old in \<open>auto simp: t\<close>)
  have "cr_ep c \<notin> cr_epp t ` set (concat L)"
  proof
    assume "cr_ep c \<in> cr_epp t ` set (concat L)"
    then obtain q where q: "q \<in> set (concat L)" "cr_epp t q = a" unfolding c(1) by (metis imageE)
    then show False using old [OF q(1)] by (auto simp: cr_epp_def t)
  qed
  moreover have "b \<notin> set (concat L)" using old by blast
  moreover have "h_cr t b = Some c" "h_ep t (cr_ep c) = Some e" by (simp_all add: t c(1))
  ultimately obtain u where u: "ctable_insert b t = Some u"
      "ctab_rep u (L[ep_bucket e := b # L ! ep_bucket e])"
      "u = t\<lparr>h_cr := (h_cr t)(b \<mapsto> c\<lparr>cr_next := ctable t ! ep_bucket e\<rparr>),
             ctable := (ctable t)[ep_bucket e := b]\<rparr>"
    using ctable_insert_rep [OF rept] by blast
  have oku: "heap_ok u" using u(2) by (rule ctab_repD)
  have "stab_rep u M" by (rule stab_rep_cong [OF rpc_invD(2) [OF inv] oku]) (simp_all add: u(3) t)
  moreover have "queues_ok u M C"
    by (rule queues_ok_cong [OF rpc_invD(3) [OF inv]]) (simp_all add: u(3) t)
  moreover have "rec_ok M d" if "q \<in> insert b (set (concat L))" "h_cr u q = Some d" for q d
  proof (cases "q = b")
    case True
    then show ?thesis using that(2) c(2) by (auto simp: u(3) rec_ok_def)
  next
    case False
    then show ?thesis using that rpc_invD(6) [OF inv, of q d] by (simp add: u(3) t)
  qed
  moreover have "length L = CTABLE_SIZE" using ctab_repD(3) [OF rept] .
  ultimately have "rpc_inv u (L[ep_bucket e := b # L ! ep_bucket e]) M C"
    unfolding rpc_inv_def using u(2) rpc_invD(4) [OF inv] concat_push [of "ep_bucket e" L b]
    by (simp add: u(3) t)
  then show ?thesis using u by simp
qed

lemma stable_lookup_cases:
  assumes "stab_rep s M" "0 \<le> hash name"
  obtains sr where "stable_lookup name s = Some sr" "sr = NULL \<or> sr \<in> set (concat M)"
proof -
  have slot: "stable_slot name = Some (nat (hash name))" using assms(2) by (simp add: stable_slot_def)
  have "length M = STABLE_SIZE" using assms(1) by (simp add: stab_rep_def)
  then have "x \<in> set (concat M)" if "x \<in> set (M ! nat (hash name))" for x
    using that stable_slot_less [OF slot] unfolding in_concat_nth by metis
  then show thesis
    using that stable_lookup_rep [OF assms(1) slot] first_hit_hit by metis
qed

lemma on_connect_safe:
  assumes inv: "rpc_inv s L M C" and mem: "mem_ok s" and p: "p = NULL \<or> p \<in> set (concat L)"
    and nm: "cstr_at (rxbuf s) 12 = Some name" "0 \<le> hash name"
  shows "safe (on_connect m p s)"
proof -
  obtain sr where sr: "stable_lookup name s = Some sr" "sr = NULL \<or> sr \<in> set (concat M)"
    by (rule stable_lookup_cases [OF rpc_invD(2) [OF inv] nm(2)])
  consider (none) "sr = NULL" | (new) "sr \<noteq> NULL" "p = NULL" | (old) "sr \<noteq> NULL" "p \<noteq> NULL" by blast
  then show ?thesis
  proof cases
    case none
    then show ?thesis using nm sr safe_same [OF inv] by (simp add: on_connect_def)
  next
    case new
    let ?a = "Suc (nalloc s)" and ?b = "Suc (Suc (nalloc s))"
    let ?pl = "cp_complete (ep_subport (m_ep m)) CACK (m_seqno m) 1 1"
    define c where "c = \<lparr>cr_next = NULL, cr_link = NULL, cr_seqno = m_seqno m, cr_state = ST_IDLE,
      cr_ep = ?a, cr_svc = sr, cr_pl = Some ?pl, cr_resp = None, cr_size = 12, cr_nattempts = ATTEMPTS,
      cr_ticks = TICKS, cr_ticksLeft = TICKS, cr_pingsTilPurge = PINGS_BEFORE_PURGE,
      cr_ticksTilPing = TICKS_BETWEEN_PINGS, cr_lastFrag = 0\<rparr>"
    let ?t = "s\<lparr>h_ep := (h_ep s)(?a \<mapsto> m_ep m), h_cr := (h_cr s)(?b \<mapsto> c), nalloc := Suc ?b,
      sent := sent s @ [(ep_addr (m_ep m), ?pl)], ctr := ctr s\<rparr>"
    have "on_connect m p s = ctable_insert ?b ?t"
      using new sr(1) nm(1) mem
      by (simp add: on_connect_def endpoint_duplicate_def mem_alloc_def crecord_create_def cp_new_eq
          crecord_setPayload_def crecord_setService_def send_current_def send_payload_def rd_def
          crecord_setState_def set_payload_def set_state_def c_def Let_def)
        (rule arg_cong [of _ _ "ctable_insert ?b"], rule rpc.equality, simp_all)
    moreover have "rec_ok M c" using sr(2) by (simp add: rec_ok_def c_def)
    moreover have "cr_ep c = ?a" by (simp add: c_def)
    ultimately obtain u where "on_connect m p s = Some u"
        "rpc_inv u (L[ep_bucket (m_ep m) := ?b # L ! ep_bucket (m_ep m)]) M C"
      using rpc_inv_insert [OF inv, where a = ?a and n = "Suc ?b" and b = ?b and c = c and e = "m_ep m"
          and x = "sent s @ [(ep_addr (m_ep m), ?pl)]" and y = "ctr s", OF _ _ _ _ _ _ refl]
      by auto
    then show ?thesis by (rule safeI)
  next
    case old
    with p have p: "p \<in> set (concat L)" by simp
    obtain c where c: "h_cr s p = Some c" "rec_ok M c" by (rule rpc_inv_record [OF inv p])
    let ?s = "s\<lparr>h_cr := (h_cr s)(p \<mapsto> c\<lparr>cr_svc := sr\<rparr>)\<rparr>"
    have inv': "rpc_inv ?s L M C"
      by (rule rpc_inv_upd [OF inv c(1), where n = "nalloc s" and x = "sent s" and b = "rxbuf s"])
        (use c sr(2) rpc_invD(4) [OF inv] in \<open>auto simp: rec_ok_def\<close>)
    obtain x where x: "send_current p ?s = Some (?s\<lparr>sent := x\<rparr>)" using send_current_ok [OF inv' p] ..
    have "safe (crecord_setState p ST_IDLE (?s\<lparr>sent := x\<rparr>))"
      by (rule setState_safe [OF rpc_inv_send [OF inv'] p]) simp
    then show ?thesis using old sr(1) nm(1) c x safe_same [OF inv]
      by (simp add: on_connect_def crecord_setService_def)
  qed
qed

subsection \<open>The loop body\<close>

lemma cstr_at_datagram:
  assumes "12 \<le> length d"
  shows "cstr_at (d @ 0 # r) 12 = Some (takeWhile (\<lambda>c. c \<noteq> 0) (drop 12 d))"
proof (cases "0 \<in> set (drop 12 d)")
  case True
  then show ?thesis using assms by (simp add: cstr_at_def Let_def takeWhile_append1 [of 0])
next
  case False
  then have nz: "\<And>x. x \<in> set (drop 12 d) \<Longrightarrow> x \<noteq> 0" by metis
  have "takeWhile (\<lambda>c. c \<noteq> 0) (drop 12 d @ 0 # r) = drop 12 d @ takeWhile (\<lambda>c. c \<noteq> 0) (0 # r)"
    by (rule takeWhile_append2) (rule nz)
  moreover have "takeWhile (\<lambda>c. c \<noteq> 0) (drop 12 d) = drop 12 d"
    unfolding takeWhile_eq_all_conv using nz by blast
  ultimately have "takeWhile (\<lambda>c. c \<noteq> 0) (drop 12 d @ 0 # r) = takeWhile (\<lambda>c. c \<noteq> 0) (drop 12 d)"
    by (simp only: takeWhile.simps not_True_eq_False if_False append_Nil2 simp_thms)
  then show ?thesis using assms by (simp add: cstr_at_def Let_def)
qed

lemma ctable_lookup_in:
  assumes "ctab_rep s L"
  obtains p where "ctable_lookup e s = Some p" "p = NULL \<or> p \<in> set (concat L)"
proof -
  let ?p = "first_hit (ep_match s e) (L ! ep_bucket e)"
  have "ctable_lookup e s = Some ?p" using ctable_lookup_rep [OF assms] .
  moreover have "?p = NULL \<or> ?p \<in> set (concat L)"
    using first_hit_hit [of "ep_match s e" "L ! ep_bucket e"] ctab_repD(3) [OF assms] in_concat_nth ep_bucket_less by metis
  ultimately show thesis by (rule that)
qed

lemma ctable_lookup_rxbuf [simp]: "ctable_lookup e (s\<lparr>rxbuf := b\<rparr>) = ctable_lookup e s"
  if "ctab_rep s L" for s :: rpc
proof -
  have "ctab_rep (s\<lparr>rxbuf := b\<rparr>) L"
    by (rule ctab_rep_cong [OF that]) (use ctab_repD(1) [OF that] in \<open>auto simp: heap_ok_def\<close>)
  then have "ctable_lookup e (s\<lparr>rxbuf := b\<rparr>) = Some (first_hit (ep_match (s\<lparr>rxbuf := b\<rparr>) e) (L ! ep_bucket e))"
    by (rule ctable_lookup_rep)
  moreover have "ep_match (s\<lparr>rxbuf := b\<rparr>) e = ep_match s e" by (auto simp: ep_match_def cr_key_def)
  ultimately show ?thesis using ctable_lookup_rep [OF that] by simp
qed

lemma dispatch_safe:
  assumes inv: "rpc_inv s L M C" and mem: "mem_ok s" and p: "p = NULL \<or> p \<in> set (concat L)"
    and fit: "\<And>c. data_command cmd \<Longrightarrow> h_cr s p = Some c \<Longrightarrow> p \<noteq> NULL \<Longrightarrow> fits cmd (m_n m) (rxbuf s) c"
    and m: "m_fnum m = hdr_fnum (rxbuf s)" "m_n m < RX_SIZE"
    and nm: "cmd = CONNECT \<Longrightarrow> \<exists>name. cstr_at (rxbuf s) 12 = Some name \<and> 0 \<le> hash name"
  shows "safe (dispatch cmd m p s)"
proof -
  consider "cmd = CONNECT" | "cmd = QUERY" | "cmd = RESPONSE" | "cmd = FRAGMENT"
    | "cmd \<noteq> CONNECT \<and> \<not> data_command cmd" by (auto simp: data_command_def)
  then show ?thesis
  proof cases
    case 1
    then show ?thesis using on_connect_safe [OF inv mem p] nm by (auto simp: dispatch_def)
  next
    case 2
    then show ?thesis using on_query_safe [OF inv mem p _ m] fit by (simp add: dispatch_def data_command_def)
  next
    case 3
    then show ?thesis using on_response_safe [OF inv mem p _ m] fit by (simp add: dispatch_def data_command_def)
  next
    case 4
    then show ?thesis using on_fragment_safe [OF inv mem p _ m] fit by (simp add: dispatch_def data_command_def)
  next
    case 5
    then show ?thesis
      using on_ack_safe [OF inv p] on_disconnect_safe [OF inv p] on_fack_safe [OF inv p] on_ping_safe [OF inv]
        on_pack_safe [OF inv p] on_seqno_safe [OF inv mem p] on_sack_safe [OF inv p] safe_same [OF inv]
      by (simp add: dispatch_def on_cack_def on_qack_def on_rack_def on_dack_def data_command_def)
  qed
qed

lemma reader_step_safe:
  assumes ok: "rpc_ok s" and mem: "mem_ok s" and ben: "benign a d s"
  shows "safe (reader_step (Some (a, d)) s)"
proof -
  from ok obtain L M C where inv: "rpc_inv s L M C" by (auto simp: rpc_ok_def)
  have d: "12 \<le> length d" "length d < RX_SIZE" using ben by (auto simp: benign_def)
  let ?r = "0 # drop (Suc (length d)) (rxbuf s)"
  let ?s = "s\<lparr>rxbuf := d @ ?r\<rparr>" and ?m = "parse_msg a (length d) d"
  have len: "length (rxbuf s) = RX_SIZE" using rpc_invD(4) [OF inv] .
  have inv': "rpc_inv ?s L M C"
    by (rule rpc_inv_nop [OF inv, where n = "nalloc s" and x = "sent s" and b = "d @ ?r"])
      (use len d in auto)
  obtain p where p: "ctable_lookup (m_ep ?m) s = Some p" "p = NULL \<or> p \<in> set (concat L)"
    by (rule ctable_lookup_in [OF rpc_invD(1) [OF inv]])
  have "safe (dispatch (hdr_command d) ?m p ?s)"
  proof (rule dispatch_safe [OF inv' _ p(2)])
    show "mem_ok ?s" using mem by (simp add: mem_ok_def)
    show "fits (hdr_command d) (m_n ?m) (rxbuf ?s) c"
      if "data_command (hdr_command d)" "h_cr ?s p = Some c" "p \<noteq> NULL" for c
      using that ben p(1) fits_append [of "hdr_command d" "length d" d c ?r]
      by (simp add: benign_def parse_msg_def Let_def)
    show "m_fnum ?m = hdr_fnum (rxbuf ?s)" "m_n ?m < RX_SIZE" using d by (simp_all add: parse_msg_def)
    show "\<exists>name. cstr_at (rxbuf ?s) 12 = Some name \<and> 0 \<le> hash name" if "hdr_command d = CONNECT"
      using cstr_at_datagram [OF d(1), of "drop (Suc (length d)) (rxbuf s)"] ben that by (auto simp: benign_def)
  qed
  moreover have "ctable_lookup (m_ep ?m) ?s = Some p"
    using p(1) ctable_lookup_rxbuf [OF rpc_invD(1) [OF inv]] by simp
  ultimately show ?thesis
    using receive_eq [OF len d(2)] d safe_same [OF inv']
    by (simp add: reader_step_def parse_msg_append Let_def)
qed

end
