(* ===== verification/Srpc_Tick.thy ===== *)
theory Srpc_Tick
  imports Srpc_Safety
begin

text \<open>
  The timer tick in a well-formed state: it terminates, it is memory safe, and it does what the
  verdicts of the scan say. The records to purge leave the table and are freed with their
  endpoints, the timed out ones are marked, and exactly the pings and retries are sent.
\<close>

subsection \<open>What the tick reads of a record\<close>

definition seen :: "'a heap_scheme \<Rightarrow> addr \<Rightarrow> (addr \<times> addr \<times> u64 \<times> bytes option \<times> u32) option" where
  "seen s p = map_option (\<lambda>c. (cr_link c, cr_ep c, cr_seqno c, cr_pl c, cr_size c)) (h_cr s p)"

text \<open>The fields the scan counts with.\<close>

definition clock :: "c_record \<Rightarrow> u64 \<times> u16 \<times> u16 \<times> u16 \<times> u16 \<times> u16" where
  "clock c = (cr_state c, cr_nattempts c, cr_ticksLeft c, cr_ticks c, cr_pingsTilPurge c, cr_ticksTilPing c)"

lemma clock_next: "clock (cr_next_update f c) = clock c"
  by (simp add: clock_def)

definition timing :: "'a heap_scheme \<Rightarrow> addr \<Rightarrow> (u64 \<times> u16 \<times> u16 \<times> u16 \<times> u16 \<times> u16) option" where
  "timing s p = map_option clock (h_cr s p)"

lemma timing_state: "timing t p = timing s p \<Longrightarrow> map_option cr_state (h_cr t p) = map_option cr_state (h_cr s p)"
  by (cases "h_cr t p"; cases "h_cr s p") (simp_all add: timing_def clock_def)

lemma seen_SomeD: "seen s p = Some (l, e, n, b, z) \<Longrightarrow>
   \<exists>c. h_cr s p = Some c \<and> cr_link c = l \<and> cr_ep c = e \<and> cr_seqno c = n \<and> cr_pl c = b \<and> cr_size c = z"
  by (auto simp: seen_def)

lemma cr_lk_seen: "cr_lk s p = map_option fst (seen s p)"
  by (simp add: cr_lk_def seen_def option.map_comp comp_def)

lemma chain_lk_seen:
  "(\<And>p. p \<in> set ps \<Longrightarrow> seen t p = seen s p) \<Longrightarrow> chain (cr_lk t) p ps \<longleftrightarrow> chain (cr_lk s) p ps"
  by (rule chain_cong) (simp add: cr_lk_seen)

lemma only_next_seen: "only_next s t \<Longrightarrow> seen t p = seen s p \<and> timing t p = timing s p"
proof -
  assume "only_next s t"
  then have m: "map_option (cr_next_update (\<lambda>_. NULL)) (h_cr t p) = map_option (cr_next_update (\<lambda>_. NULL)) (h_cr s p)"
    by (simp add: only_next_def)
  show ?thesis
    using arg_cong [OF m, of "map_option (\<lambda>c. (cr_link c, cr_ep c, cr_seqno c, cr_pl c, cr_size c))"]
      arg_cong [OF m, of "map_option clock"] clock_next
    by (simp add: seen_def timing_def option.map_comp comp_def)
qed

subsection \<open>Purging\<close>

lemma concat_remove1:
  assumes "ctab_rep s L" "i < CTABLE_SIZE" "p \<in> set (L ! i)"
  shows "set (concat (L[i := remove1 p (L ! i)])) = set (concat L) - {p}"
proof -
  have len: "length L = CTABLE_SIZE" using ctab_repD(3) [OF assms(1)] .
  have d: "distinct (L ! i)" using ctab_rep_distinct assms(1,2) .
  have other: "p \<notin> set (L ! j)" if "j < CTABLE_SIZE" "j \<noteq> i" for j
    using ctab_rep_bucket_unique [OF assms(1,2) that(1) assms(3)] that(2) by blast
  show ?thesis
  proof (rule set_eqI)
    fix x
    have "x \<in> set (L[i := remove1 p (L ! i)] ! j) \<longleftrightarrow> x \<in> set (L ! j) \<and> x \<noteq> p" if "j < CTABLE_SIZE" for j
      using that len d other [OF that] by (cases "j = i") auto
    then show "x \<in> set (concat (L[i := remove1 p (L ! i)])) \<longleftrightarrow> x \<in> set (concat L) - {p}"
      unfolding in_concat_nth Diff_iff length_list_update len by blast
  qed
qed

text \<open>Removing and destroying one record.\<close>

lemma purge_one:
  assumes inv: "rpc_inv s L M C" and p: "p \<in> set (concat L)"
  obtains t u L' where "ctable_remove p s = Some t" "crecord_destroy p t = Some u" "rpc_inv u L' M C"
    "set (concat L') = set (concat L) - {p}" "sent u = sent s"
    "\<forall>q. q \<noteq> p \<longrightarrow> seen u q = seen s q \<and> timing u q = timing s q"
    "\<forall>q c. q \<in> set (concat L') \<longrightarrow> h_cr s q = Some c \<longrightarrow> h_ep u (cr_ep c) = h_ep s (cr_ep c)"
    "h_cr u p = None"
proof -
  have rep: "ctab_rep s L" using rpc_invD(1) [OF inv] .
  obtain i where i: "i < CTABLE_SIZE" "p \<in> set (L ! i)"
    using p unfolding in_concat_nth ctab_repD(3) [OF rep] by blast
  let ?L = "L[i := remove1 p (L ! i)]"
  obtain t where t: "ctable_remove p s = Some t" "ctab_rep t ?L" "only_next s t"
    by (rule ctable_remove_rep [OF rep i])
  note frame = ctable_remove_frame [OF rep p t(1)] and key = only_next_key [OF t(3)]
  note seen = only_next_seen [OF t(3)]
  have L': "set (concat ?L) = set (concat L) - {p}" by (rule concat_remove1 [OF rep i])
  obtain c e where c: "h_cr s p = Some c" "h_ep s (cr_ep c) = Some e" "p \<noteq> NULL"
    by (rule rpc_inv_record [OF inv p])
  obtain c' where c': "h_cr t p = Some c'" "cr_ep c' = cr_ep c"
    using seen [of p] c(1) by (auto simp: seen_def)
  have ep0: "cr_ep c \<noteq> NULL" using heap_ok_range(1) [OF rpc_invD(5) [OF inv] c(2)] by simp
  let ?u = "t\<lparr>h_ep := (h_ep t)(cr_ep c := None), h_cr := (h_cr t)(p := None)\<rparr>"
  have u: "crecord_destroy p t = Some ?u"
    using c' c ep0 key(4) by (simp add: crecord_destroy_def mem_free_ep_def mem_free_cr_def)
  have own: "cr_ep d \<noteq> cr_ep c" if "q \<in> set (concat ?L)" "h_cr t q = Some d" for q d
  proof -
    have "q \<in> set (concat L)" "q \<noteq> p" using that(1) L' by auto
    then have "cr_epp s q \<noteq> cr_epp s p" using ctab_repD(5) [OF rep] p by (metis inj_onD)
    then show ?thesis using key(2) [of q] that(2) c(1) by (simp add: cr_epp_def)
  qed
  have okt: "heap_ok t" using t(2) by (rule ctab_repD)
  have ok: "heap_ok ?u" using okt by (auto simp: heap_ok_def)
  have "ctab_rep ?u ?L"
    by (rule ctab_rep_cong [OF t(2) ok]) (use own L' in auto)
  moreover have "stab_rep ?u M"
    by (rule stab_rep_cong [OF rpc_invD(2) [OF inv] ok]) (subst frame, simp)+
  moreover have "queues_ok ?u M C"
    by (rule queues_ok_cong [OF rpc_invD(3) [OF inv]]) (subst frame, simp)+
  moreover have "rec_ok M d" if q: "q \<in> set (concat ?L)" "h_cr ?u q = Some d" for q d
  proof -
    have "q \<noteq> p" "q \<in> set (concat L)" using q(1) L' by auto
    then have "h_cr t q = Some d" using q(2) by simp
    moreover have "map_option (cr_next_update (\<lambda>_. NULL)) (h_cr t q)
        = map_option (cr_next_update (\<lambda>_. NULL)) (h_cr s q)"
      using t(3) by (simp add: only_next_def)
    ultimately obtain d0 where d0: "h_cr s q = Some d0" "d\<lparr>cr_next := NULL\<rparr> = d0\<lparr>cr_next := NULL\<rparr>"
      by (cases "h_cr s q") auto
    have "rec_ok M d0" using rpc_invD(6) [OF inv \<open>q \<in> set (concat L)\<close> d0(1)] .
    then have "rec_ok M (d0\<lparr>cr_next := NULL\<rparr>)" by (simp add: rec_ok_def)
    then have "rec_ok M (d\<lparr>cr_next := NULL\<rparr>)" by (simp add: d0(2))
    then show ?thesis by (simp add: rec_ok_def)
  qed
  moreover have "length (rxbuf ?u) = RX_SIZE" using rpc_invD(4) [OF inv] by (subst frame) simp
  ultimately have inv': "rpc_inv ?u ?L M C" by (simp add: rpc_inv_def)
  show thesis
  proof (rule that [OF t(1) u inv' L'])
    show "sent ?u = sent s" by (subst frame) simp
    show "\<forall>q. q \<noteq> p \<longrightarrow> seen ?u q = seen s q
        \<and> timing ?u q = timing s q"
      using seen by (simp add: seen_def timing_def)
    show "\<forall>q d. q \<in> set (concat ?L) \<longrightarrow> h_cr s q = Some d \<longrightarrow> h_ep ?u (cr_ep d) = h_ep s (cr_ep d)"
    proof (intro allI impI)
      fix q d assume q: "q \<in> set (concat ?L)" "h_cr s q = Some d"
      obtain d' where "h_cr t q = Some d'" "cr_ep d' = cr_ep d" using seen [of q] q(2) by (auto simp: seen_def)
      then show "h_ep ?u (cr_ep d) = h_ep s (cr_ep d)" using own [OF q(1)] key(4) by simp
    qed
  qed simp
qed

lemma lk_chain_Cons:
  "chain (cr_lk s) p (a # as) \<Longrightarrow>
     p = a \<and> a \<noteq> NULL \<and> (\<exists>c. h_cr s a = Some c \<and> chain (cr_lk s) (cr_link c) as)"
  by (cases "h_cr s a") (simp_all add: cr_lk_def)

text \<open>The records that stay keep what the tick reads of them, their states and their endpoints.\<close>

definition kept :: "rpc \<Rightarrow> rpc \<Rightarrow> addr \<Rightarrow> bool" where
  "kept s t q \<longleftrightarrow> seen t q = seen s q \<and> timing t q = timing s q
     \<and> (\<forall>c. h_cr s q = Some c \<longrightarrow> h_ep t (cr_ep c) = h_ep s (cr_ep c))"

lemma kept_refl [simp]: "kept s s q"
  by (simp add: kept_def)

lemma kept_trans:
  assumes "kept s t q" "kept t u q"
  shows "kept s u q"
proof -
  have "h_ep u (cr_ep c) = h_ep s (cr_ep c)" if c: "h_cr s q = Some c" for c
  proof -
    obtain c' where "h_cr t q = Some c'" "cr_ep c' = cr_ep c"
      using assms(1) c by (auto simp: kept_def seen_def)
    then show ?thesis using assms c unfolding kept_def by metis
  qed
  with assms show ?thesis by (simp add: kept_def)
qed

lemma purge_list_ok:
  assumes "rpc_inv s L M C" "chain (cr_lk s) p ps" "set ps \<subseteq> set (concat L)"
  shows "\<exists>t L'. purge_list p s = Some t \<and> rpc_inv t L' M C \<and> set (concat L') = set (concat L) - set ps
     \<and> sent t = sent s \<and> (\<forall>q\<in>set (concat L'). kept s t q) \<and> (\<forall>q\<in>set ps. h_cr t q = None)
     \<and> (\<forall>q. h_cr s q = None \<longrightarrow> h_cr t q = None)"
  using assms
proof (induction ps arbitrary: p s L)
  case Nil
  then show ?case by (subst purge_list.simps) auto
next
  case (Cons a ps)
  obtain c where c: "p = a" "a \<noteq> NULL" "h_cr s a = Some c" "chain (cr_lk s) (cr_link c) ps"
    using lk_chain_Cons [OF Cons.prems(2)] by blast
  have a: "a \<in> set (concat L)" "a \<notin> set ps"
    using Cons.prems(3) chain_distinct [OF Cons.prems(2)] by auto
  obtain t u L' where u: "ctable_remove a s = Some t" "crecord_destroy a t = Some u" "rpc_inv u L' M C"
    "set (concat L') = set (concat L) - {a}" "sent u = sent s"
    "\<forall>q. q \<noteq> a \<longrightarrow> seen u q = seen s q \<and> timing u q = timing s q"
    "\<forall>q c. q \<in> set (concat L') \<longrightarrow> h_cr s q = Some c \<longrightarrow> h_ep u (cr_ep c) = h_ep s (cr_ep c)"
    "h_cr u a = None"
    by (rule purge_one [OF Cons.prems(1) a(1)])
  have keep: "kept s u q" if "q \<in> set (concat L')" for q
    using that u(4,6,7) by (auto simp: kept_def)
  have "chain (cr_lk u) (cr_link c) ps"
    using c(4) chain_lk_seen [of ps u s] u(6) a(2) by metis
  moreover have "set ps \<subseteq> set (concat L')" using Cons.prems(3) a(2) u(4) by auto
  ultimately obtain v L'' where v: "purge_list (cr_link c) u = Some v" "rpc_inv v L'' M C"
      "set (concat L'') = set (concat L') - set ps" "sent v = sent u"
      "\<forall>q\<in>set (concat L''). kept u v q" "\<forall>q\<in>set ps. h_cr v q = None" "\<And>q. h_cr u q = None \<Longrightarrow> h_cr v q = None"
    using Cons.IH [OF u(3)] by blast
  have "h_cr u q = None" if "h_cr s q = None" for q
    using that u(6,8) by (cases "q = a") (auto simp: seen_def)
  then have gone: "\<forall>q. h_cr s q = None \<longrightarrow> h_cr v q = None" using v(7) by blast
  have "purge_list p s = Some v"
    by (subst purge_list.simps) (use c u v in simp)
  moreover have "\<forall>q\<in>set (concat L''). kept s v q"
    using v(3,5) keep kept_trans by blast
  moreover have "\<forall>q\<in>set (a # ps). h_cr v q = None" using v(6,7) u(8) by simp
  moreover have "set (concat L'') = set (concat L) - set (a # ps)" using v(3) u(4) by auto
  moreover have "sent v = sent s" using v(4) u(5) by simp
  ultimately show ?case using v(2) gone by blast
qed

subsection \<open>Marking and sending\<close>

lemma timed_list_ok:
  assumes "rpc_inv s L M C" "chain (cr_lk s) p ps" "set ps \<subseteq> set (concat L)"
  shows "\<exists>t. timed_list p s = Some t \<and> rpc_inv t L M C \<and> sent t = sent s \<and> h_ep t = h_ep s
     \<and> (\<forall>q. seen t q = seen s q) \<and> (\<forall>q. q \<notin> set ps \<longrightarrow> h_cr t q = h_cr s q)
     \<and> (\<forall>q\<in>set ps. map_option cr_state (h_cr t q) = Some ST_TIMEDOUT)"
  using assms
proof (induction ps arbitrary: p s)
  case Nil
  then show ?case by (subst timed_list.simps) auto
next
  case (Cons a ps)
  obtain c where c: "p = a" "a \<noteq> NULL" "h_cr s a = Some c" "chain (cr_lk s) (cr_link c) ps"
    using lk_chain_Cons [OF Cons.prems(2)] by blast
  have a: "a \<in> set (concat L)" "a \<notin> set ps" and sub: "set ps \<subseteq> set (concat L)"
    using Cons.prems(3) chain_distinct [OF Cons.prems(2)] by auto
  let ?u = "s\<lparr>h_cr := (h_cr s)(a \<mapsto> set_state ST_TIMEDOUT c)\<rparr>"
  have u: "crecord_setState a ST_TIMEDOUT s = Some ?u" using c by (simp add: crecord_setState_def)
  then have inv: "rpc_inv ?u L M C" using rpc_ok_setState [OF Cons.prems(1) a(1), of ST_TIMEDOUT] by simp
  have seen: "seen ?u q = seen s q" for q using c by (simp add: seen_def set_state_def)
  have "chain (cr_lk ?u) (cr_link c) ps" using c(4) chain_lk_seen [of ps ?u s] seen by metis
  then obtain t where t: "timed_list (cr_link c) ?u = Some t" "rpc_inv t L M C" "sent t = sent ?u"
      "h_ep t = h_ep ?u" "\<forall>q. seen t q = seen ?u q" "\<forall>q. q \<notin> set ps \<longrightarrow> h_cr t q = h_cr ?u q"
      "\<forall>q\<in>set ps. map_option cr_state (h_cr t q) = Some ST_TIMEDOUT"
    using Cons.IH [OF inv _ sub] by blast
  have "timed_list p s = Some t" by (subst timed_list.simps) (use c u t in simp)
  moreover have "map_option cr_state (h_cr t a) = Some ST_TIMEDOUT" using t(6) a(2) by simp
  ultimately show ?case using t seen by auto
qed

definition ping_msg :: "rpc \<Rightarrow> addr \<Rightarrow> sockaddr_in \<times> bytes" where
  "ping_msg s p = (case h_cr s p of None \<Rightarrow> undefined | Some c \<Rightarrow>
     (case h_ep s (cr_ep c) of None \<Rightarrow> undefined
      | Some e \<Rightarrow> (ep_addr e, cp_complete (ep_subport e) PING (cr_seqno c) 1 1)))"

definition retry_msg :: "rpc \<Rightarrow> addr \<Rightarrow> sockaddr_in \<times> bytes" where
  "retry_msg s p = (case h_cr s p of None \<Rightarrow> undefined | Some c \<Rightarrow>
     (case h_ep s (cr_ep c) of None \<Rightarrow> undefined | Some e \<Rightarrow> (ep_addr e, the (cr_pl c))))"

lemma msgs_sent [simp]: "ping_msg (s\<lparr>sent := x\<rparr>) = ping_msg s" "retry_msg (s\<lparr>sent := x\<rparr>) = retry_msg s"
  by (rule ext, simp add: ping_msg_def retry_msg_def split: option.split)+

lemma kept_msgs:
  assumes "kept s t q"
  shows "ping_msg t q = ping_msg s q" "retry_msg t q = retry_msg s q"
proof -
  have "ping_msg t q = ping_msg s q \<and> retry_msg t q = retry_msg s q"
  proof (cases "h_cr s q")
    case None
    then have "h_cr t q = None" using assms by (simp add: kept_def seen_def)
    with None show ?thesis by (simp add: ping_msg_def retry_msg_def)
  next
    case (Some c)
    then obtain c' where "h_cr t q = Some c'" "cr_ep c' = cr_ep c" "cr_seqno c' = cr_seqno c" "cr_pl c' = cr_pl c"
      using assms by (auto simp: kept_def seen_def)
    moreover have "h_ep t (cr_ep c) = h_ep s (cr_ep c)" using assms Some by (simp add: kept_def)
    ultimately show ?thesis using Some by (simp add: ping_msg_def retry_msg_def split: option.split)
  qed
  then show "ping_msg t q = ping_msg s q" "retry_msg t q = retry_msg s q" by auto
qed

lemma ping_list_ok:
  assumes "rpc_inv s L M C" "chain (cr_lk s) p ps" "set ps \<subseteq> set (concat L)"
  shows "ping_list p s = Some (s\<lparr>sent := sent s @ map (ping_msg s) ps\<rparr>)"
  using assms
proof (induction ps arbitrary: p s)
  case Nil
  then show ?case by (subst ping_list.simps) auto
next
  case (Cons a ps)
  obtain c where c: "p = a" "a \<noteq> NULL" "h_cr s a = Some c" "chain (cr_lk s) (cr_link c) ps"
    using lk_chain_Cons [OF Cons.prems(2)] by blast
  have a: "a \<in> set (concat L)" using Cons.prems(3) by auto
  obtain e where e: "h_ep s (cr_ep c) = Some e"
    using rpc_inv_record [OF Cons.prems(1) a] c(3) by (metis option.inject)
  let ?u = "s\<lparr>sent := sent s @ [ping_msg s a]\<rparr>"
  have "rpc_inv ?u L M C" by (rule rpc_inv_send [OF Cons.prems(1)])
  moreover have "chain (cr_lk ?u) (cr_link c) ps" using c(4) chain_lk_seen [of ps ?u s] by (simp add: seen_def)
  ultimately have "ping_list (cr_link c) ?u = Some (?u\<lparr>sent := sent ?u @ map (ping_msg ?u) ps\<rparr>)"
    using Cons.IH Cons.prems(3) by simp
  then show ?case using c e
    by (subst ping_list.simps) (simp add: send_payload_def rd_def ping_payload_def ping_msg_def)
qed

lemma retry_list_ok:
  assumes "rpc_inv s L M C" "chain (cr_lk s) p ps" "set ps \<subseteq> set (concat L)"
    and "\<And>q. q \<in> set ps \<Longrightarrow> \<exists>c. h_cr s q = Some c \<and> retry_state (cr_state c)"
  shows "retry_list p s = Some (s\<lparr>sent := sent s @ map (retry_msg s) ps\<rparr>)"
  using assms
proof (induction ps arbitrary: p s)
  case Nil
  then show ?case by (subst retry_list.simps) auto
next
  case (Cons a ps)
  obtain c where c: "p = a" "a \<noteq> NULL" "h_cr s a = Some c" "chain (cr_lk s) (cr_link c) ps"
    using lk_chain_Cons [OF Cons.prems(2)] by blast
  have a: "a \<in> set (concat L)" and st: "retry_state (cr_state c)"
    using Cons.prems(3) Cons.prems(4) [of a] c(3) by auto
  obtain e b where e: "h_ep s (cr_ep c) = Some e" "cr_pl c = Some b" "length b = unat (cr_size c)"
    using rpc_inv_record [OF Cons.prems(1) a] c(3) by (metis option.inject)
  let ?u = "s\<lparr>sent := sent s @ [retry_msg s a]\<rparr>"
  have "rpc_inv ?u L M C" by (rule rpc_inv_send [OF Cons.prems(1)])
  moreover have "chain (cr_lk ?u) (cr_link c) ps" using c(4) chain_lk_seen [of ps ?u s] by (simp add: seen_def)
  ultimately have "retry_list (cr_link c) ?u = Some (?u\<lparr>sent := sent ?u @ map (retry_msg ?u) ps\<rparr>)"
    using Cons.IH Cons.prems(3,4) by simp
  then show ?case using c e st
    by (subst retry_list.simps) (simp add: send_current_def send_payload_def rd_def retry_msg_def)
qed

subsection \<open>The tick\<close>

text \<open>The records of the table with a given verdict, in the order in which the tick visits them.\<close>

definition selected :: "rpc \<Rightarrow> addr list list \<Rightarrow> scan_verdict \<Rightarrow> addr list" where
  "selected s L v = rev (filter (\<lambda>p. verdict s p = v) (concat L))"

lemma selected_sub: "set (selected s L v) \<subseteq> set (concat L)"
  by (auto simp: selected_def)

lemma selected_disjoint: "v \<noteq> w \<Longrightarrow> set (selected s L v) \<inter> set (selected s L w) = {}"
  by (auto simp: selected_def)

lemma verdict_retry: "verdict s p = Retry \<Longrightarrow> \<exists>c. h_cr s p = Some c \<and> retry_state (cr_state c)"
  by (auto simp: verdict_def scan_record_def Let_def retry_state_def split: option.splits if_splits)

text \<open>The scan itself keeps the invariant and everything the tick reads but the links.\<close>

lemma rec_ok_scan: "rec_ok M c \<Longrightarrow> rec_ok M ((snd (scan_record c))\<lparr>cr_link := k\<rparr>)"
  by (simp add: rec_ok_def scan_record_fields)

lemma scanned_state:
  "timing t q = map_option (\<lambda>c. clock (snd (scan_record c))) (h_cr s q)
     \<Longrightarrow> map_option cr_state (h_cr t q) = map_option cr_state (h_cr s q)"
  by (cases "h_cr t q"; cases "h_cr s q") (simp_all add: timing_def clock_def scan_record_fields)

lemma scan_inv:
  assumes inv: "rpc_inv s L M C"
  obtains l t where "ctable_scan s = Some (l, t)" "rpc_inv t L M C" "sent t = sent s"
    "\<forall>v. v \<noteq> Keep \<longrightarrow> chain (cr_lk t) (sl_of v l) (selected s L v)"
    "\<forall>q\<in>set (concat L). ping_msg t q = ping_msg s q \<and> retry_msg t q = retry_msg s q
        \<and> timing t q = map_option (\<lambda>c. clock (snd (scan_record c))) (h_cr s q)"
proof -
  from ctable_scan_ok [OF rpc_invD(1) [OF inv]] obtain l t where t: "ctable_scan s = Some (l, t)"
    "ctab_rep t L"
    "\<forall>v. v \<noteq> Keep \<longrightarrow> chain (cr_lk t) (sl_of v l) (rev (filter (\<lambda>x. verdict s x = v) (concat L)))"
    "\<forall>x c. x \<in> set (concat L) \<longrightarrow> h_cr s x = Some c \<longrightarrow>
       (\<exists>k. h_cr t x = Some ((snd (scan_record c))\<lparr>cr_link := k\<rparr>))"
    "t = s\<lparr>h_cr := h_cr t\<rparr>"
    by blast
  have ok: "heap_ok t" using t(2) by (rule ctab_repD)
  have rec: "\<exists>c k. h_cr s q = Some c \<and> h_cr t q = Some ((snd (scan_record c))\<lparr>cr_link := k\<rparr>) \<and> rec_ok M c"
    if q: "q \<in> set (concat L)" for q
  proof -
    obtain c where "h_cr s q = Some c" "rec_ok M c" by (rule rpc_inv_record [OF inv q])
    then show ?thesis using t(4) q by blast
  qed
  have ep: "h_ep t = h_ep s" by (subst t(5)) simp
  have "stab_rep t M" by (rule stab_rep_cong [OF rpc_invD(2) [OF inv] ok]) (subst t(5), simp)+
  moreover have "queues_ok t M C" by (rule queues_ok_cong [OF rpc_invD(3) [OF inv]]) (subst t(5), simp)+
  moreover have "rec_ok M d" if "q \<in> set (concat L)" "h_cr t q = Some d" for q d
    using rec [OF that(1)] that(2) rec_ok_scan by auto
  moreover have "length (rxbuf t) = RX_SIZE" using rpc_invD(4) [OF inv] by (subst t(5)) simp
  ultimately have inv': "rpc_inv t L M C" using t(2) by (simp add: rpc_inv_def)
  show thesis
  proof (rule that [OF t(1) inv'])
    show "sent t = sent s" by (subst t(5)) simp
    show "\<forall>v. v \<noteq> Keep \<longrightarrow> chain (cr_lk t) (sl_of v l) (selected s L v)" using t(3) by (simp add: selected_def)
    show "\<forall>q\<in>set (concat L). ping_msg t q = ping_msg s q \<and> retry_msg t q = retry_msg s q
        \<and> timing t q = map_option (\<lambda>c. clock (snd (scan_record c))) (h_cr s q)"
    proof
      fix q assume "q \<in> set (concat L)"
      from rec [OF this] obtain c k where "h_cr s q = Some c"
        "h_cr t q = Some ((snd (scan_record c))\<lparr>cr_link := k\<rparr>)" by blast
      then show "ping_msg t q = ping_msg s q \<and> retry_msg t q = retry_msg s q
          \<and> timing t q = map_option (\<lambda>c. clock (snd (scan_record c))) (h_cr s q)"
        by (simp add: ping_msg_def retry_msg_def scan_record_fields ep timing_def clock_def split: option.split)
    qed
  qed
qed

lemma timer_tick_full:
  assumes inv: "rpc_inv s L M C"
  shows "\<exists>t L'. timer_tick s = Some t \<and> rpc_inv t L' M C
     \<and> set (concat L') = set (concat L) - set (selected s L Purge)
     \<and> (\<forall>q\<in>set (selected s L Purge). h_cr t q = None)
     \<and> (\<forall>q\<in>set (selected s L Timed). map_option cr_state (h_cr t q) = Some ST_TIMEDOUT)
     \<and> sent t = sent s @ map (ping_msg s) (selected s L Ping) @ map (retry_msg s) (selected s L Retry)
     \<and> (\<forall>q\<in>set (concat L') - set (selected s L Timed). timing t q = map_option (\<lambda>c. clock (snd (scan_record c))) (h_cr s q))"
proof -
  let ?S = "selected s L"
  obtain l t1 where t1: "ctable_scan s = Some (l, t1)" "rpc_inv t1 L M C" "sent t1 = sent s"
    "\<forall>v. v \<noteq> Keep \<longrightarrow> chain (cr_lk t1) (sl_of v l) (?S v)"
    "\<forall>q\<in>set (concat L). ping_msg t1 q = ping_msg s q \<and> retry_msg t1 q = retry_msg s q
        \<and> timing t1 q = map_option (\<lambda>c. clock (snd (scan_record c))) (h_cr s q)"
    by (rule scan_inv [OF inv])
  have ch: "chain (cr_lk t1) (sl_purge l) (?S Purge)" "chain (cr_lk t1) (sl_timed l) (?S Timed)"
    "chain (cr_lk t1) (sl_ping l) (?S Ping)" "chain (cr_lk t1) (sl_retry l) (?S Retry)"
    using t1(4) by (auto simp: sl_of_def all_conj_distrib dest: spec [of _ Purge] spec [of _ Timed] spec [of _ Ping] spec [of _ Retry])
  obtain t2 L' where t2: "purge_list (sl_purge l) t1 = Some t2" "rpc_inv t2 L' M C"
    "set (concat L') = set (concat L) - set (?S Purge)" "sent t2 = sent t1"
    "\<forall>q\<in>set (concat L'). kept t1 t2 q" "\<forall>q\<in>set (?S Purge). h_cr t2 q = None"
    using purge_list_ok [OF t1(2) ch(1) selected_sub] by blast
  have sub: "set (?S v) \<subseteq> set (concat L')" if "v \<noteq> Purge" for v
    using t2(3) selected_sub [of s L v] selected_disjoint [OF that, of s L] by blast
  have ch2: "chain (cr_lk t2) p (?S v)" if "v \<noteq> Purge" "chain (cr_lk t1) p (?S v)" for v p
    using that chain_lk_seen [of "?S v" t2 t1 p] sub [OF that(1)] t2(5) by (auto simp: kept_def subset_iff)
  obtain t3 where t3: "timed_list (sl_timed l) t2 = Some t3" "rpc_inv t3 L' M C" "sent t3 = sent t2"
    "h_ep t3 = h_ep t2" "\<forall>q. seen t3 q = seen t2 q" "\<forall>q. q \<notin> set (?S Timed) \<longrightarrow> h_cr t3 q = h_cr t2 q"
    "\<forall>q\<in>set (?S Timed). map_option cr_state (h_cr t3 q) = Some ST_TIMEDOUT"
    using timed_list_ok [OF t2(2) ch2 [OF _ ch(2)] sub] by auto
  have ch3: "chain (cr_lk t3) p (?S v)" if "v \<noteq> Purge" "chain (cr_lk t1) p (?S v)" for v p
    using ch2 [OF that] chain_lk_seen [of "?S v" t3 t2 p] t3(5) by metis
  have keep: "kept t2 t3 q" if "q \<notin> set (?S Timed)" for q
    using t3(4,5,6) that by (simp add: kept_def timing_def)
  have kept3: "kept t1 t3 q" if "q \<in> set (?S v)" "v \<noteq> Purge" "v \<noteq> Timed" for q v
    using kept_trans [of t1 t2 q t3] keep [of q] t2(5) sub [OF that(2)] that selected_disjoint [OF that(3), of s L]
    by blast
  let ?t4 = "t3\<lparr>sent := sent t3 @ map (ping_msg t3) (?S Ping)\<rparr>"
  have t4: "ping_list (sl_ping l) t3 = Some ?t4" by (rule ping_list_ok [OF t3(2) ch3 [OF _ ch(3)] sub]) simp_all
  have inv4: "rpc_inv ?t4 L' M C" by (rule rpc_inv_send [OF t3(2)])
  have ch4: "chain (cr_lk ?t4) (sl_retry l) (?S Retry)"
    using ch3 [OF _ ch(4)] chain_lk_seen [of "?S Retry" ?t4 t3] by (simp add: seen_def)
  have st: "\<exists>c. h_cr ?t4 q = Some c \<and> retry_state (cr_state c)" if "q \<in> set (?S Retry)" for q
  proof -
    have "verdict s q = Retry" "q \<in> set (concat L)" using that by (auto simp: selected_def)
    moreover have "map_option cr_state (h_cr ?t4 q) = map_option cr_state (h_cr t1 q)"
      using kept3 [OF that] timing_state [of t3 q t1] by (simp add: kept_def)
    moreover have "map_option cr_state (h_cr t1 q) = map_option cr_state (h_cr s q)"
      using t1(5) calculation(2) scanned_state by blast
    ultimately show ?thesis using verdict_retry [of s q] by auto
  qed
  have t5: "retry_list (sl_retry l) ?t4 = Some (?t4\<lparr>sent := sent ?t4 @ map (retry_msg ?t4) (?S Retry)\<rparr>)"
    by (rule retry_list_ok [OF inv4 ch4 sub st]) simp_all
  have pm: "map (ping_msg t3) (?S Ping) = map (ping_msg s) (?S Ping)"
    using kept_msgs(1) [OF kept3] t1(5) selected_sub [of s L Ping] by (auto simp: subset_iff)
  have rm: "map (retry_msg ?t4) (?S Retry) = map (retry_msg s) (?S Retry)"
    using kept_msgs(2) [OF kept3] t1(5) selected_sub [of s L Retry]
    by (auto simp: subset_iff)
  let ?t = "?t4\<lparr>sent := sent ?t4 @ map (retry_msg ?t4) (?S Retry)\<rparr>"
  have "timer_tick s = Some ?t" using t1(1) t2(1) t3(1) t4 t5 by (simp add: timer_tick_def)
  moreover have "rpc_inv ?t L' M C" by (rule rpc_inv_send [OF inv4])
  moreover have "\<forall>q\<in>set (?S Purge). h_cr ?t q = None"
    using t2(6) t3(6) selected_disjoint [of Purge Timed s L] by auto
  moreover have "sent ?t = sent s @ map (ping_msg s) (?S Ping) @ map (retry_msg s) (?S Retry)"
    using pm rm t1(3) t2(4) t3(3) by simp
  moreover have "\<forall>q\<in>set (concat L') - set (?S Timed). timing ?t q = map_option (\<lambda>c. clock (snd (scan_record c))) (h_cr s q)"
    using t1(5) t2(3,5) keep by (auto simp: kept_def timing_def)
  ultimately show ?thesis using t2(3) t3(7) by (intro exI [of _ ?t] exI [of _ L']) simp
qed

lemma timer_tick_ok:
  assumes inv: "rpc_inv s L M C"
  shows "\<exists>t L'. timer_tick s = Some t \<and> rpc_inv t L' M C
     \<and> set (concat L') = set (concat L) - set (selected s L Purge)
     \<and> (\<forall>q\<in>set (selected s L Purge). h_cr t q = None)
     \<and> (\<forall>q\<in>set (selected s L Timed). map_option cr_state (h_cr t q) = Some ST_TIMEDOUT)
     \<and> sent t = sent s @ map (ping_msg s) (selected s L Ping) @ map (retry_msg s) (selected s L Retry)"
  using timer_tick_full [OF inv] by blast

end
