(* ===== verification/Srpc_System.thy ===== *)
theory Srpc_System
  imports Srpc_Tick
begin

text \<open>
  The RPC runtime as a state machine: the reader handling a datagram, the timer ticking, and the
  interface calls of the application threads interleave under the table's lock. Starting from
  \<^verbatim>\<open>rpc_init\<close>, every reachable state is well formed.
\<close>

subsection \<open>Initialisation\<close>

lemma rpc_init_inv:
  assumes "heap_ok s" "length (rxbuf s) = RX_SIZE"
  shows "rpc_inv (snd (rpc_init os host port s)) (replicate CTABLE_SIZE []) (replicate STABLE_SIZE []) (\<lambda>_. [])"
proof -
  let ?t = "snd (rpc_init os host port s)"
  have t: "heap_ok ?t" "ctable ?t = replicate CTABLE_SIZE NULL" "stable ?t = replicate STABLE_SIZE NULL"
    "length (rxbuf ?t) = RX_SIZE"
    using assms
    by (auto simp: rpc_init_def common_init_def ctable_init_def stable_init_def Let_def heap_ok_def)
  have "ctab_rep ?t (replicate CTABLE_SIZE [])" using t(1,2) by (simp add: ctab_rep_def)
  moreover have "stab_rep ?t (replicate STABLE_SIZE [])" using t(1,3) by (simp add: stab_rep_def)
  ultimately show ?thesis using t(4) by (simp add: rpc_inv_def queues_ok_def)
qed

subsection \<open>Offering a service\<close>

lemma rpc_offer_inv:
  assumes inv: "rpc_inv s L M C" and slot: "stable_slot name = Some hv"
    and new: "stable_lookup name s = Some NULL"
    and mem: "mem_ok s" "\<not> pthread_err s (nalloc s + 2)"
  shows "\<exists>t. rpc_offer name s = Some (Suc (nalloc s), t) \<and> stable_lookup name t = Some (Suc (nalloc s))
     \<and> rpc_inv t L (M[hv := Suc (nalloc s) # M ! hv]) (C(Suc (nalloc s) := []))
     \<and> tsl_rep t (queue_of t (Suc (nalloc s))) []"
proof -
  let ?r = "Suc (nalloc s)" and ?q = "nalloc s + 3"
  define t where "t = s\<lparr>nalloc := nalloc s + 3,
      h_sr := (h_sr s)(?r \<mapsto> \<lparr>s_next = stable s ! hv, s_name = Some name, s_queue = ?q\<rparr>),
      h_lh := (h_lh s)(?q \<mapsto> \<lparr>lh_head = NULL, lh_tail = NULL, lh_count = 0\<rparr>),
      stable := (stable s)[hv := ?r]\<rparr>"
  note create = stable_create_ok [OF rpc_invD(2) [OF inv] slot new mem_okD [OF mem(1)] mem_okD [OF mem(1)]
      mem_okD [OF mem(1)] mem(2), folded t_def]
  let ?M = "M[hv := ?r # M ! hv]"
  have lenM: "length M = STABLE_SIZE" using rpc_invD(2) [OF inv] by (simp add: stab_rep_def)
  have setM: "set (concat ?M) = insert ?r (set (concat M))"
    using stable_slot_less [OF slot] lenM by (intro concat_push) simp
  have ok: "heap_ok s" "heap_ok t" using rpc_invD(5) [OF inv] create(2) by (auto simp: stab_rep_def)
  have old: "sr \<noteq> ?r" if "sr \<in> set (concat M)" for sr
    using service_record [OF rpc_invD(2) [OF inv] that] heap_ok_fresh(3) [OF ok(1)] by (metis option.distinct(1))
  have qof: "queue_of t sr = queue_of s sr" if "sr \<in> set (concat M)" for sr
    using old [OF that] by (simp add: queue_of_def t_def)
  have cells: "tsl_cells s (queue_of s sr) (C sr)" if "sr \<in> set (concat M)" for sr
    using rpc_invD(3) [OF inv] that by (auto simp: queues_ok_def)
  have qne: "queue_of s sr \<noteq> ?q" if sr: "sr \<in> set (concat M)" for sr
  proof -
    obtain lh where "h_lh s (queue_of s sr) = Some lh" using tsl_cells_dom(3) [OF cells [OF sr]] by auto
    then show ?thesis using heap_ok_range(5) [OF ok(1), of "queue_of s sr" lh] by auto
  qed
  have q1: "tsl_cells t (queue_of t sr) ((C(?r := [])) sr)" if "sr \<in> set (concat ?M)" for sr
  proof (cases "sr = ?r")
    case True
    then show ?thesis by (simp add: tsl_cells_def queue_of_def t_def)
  next
    case False
    then have sr: "sr \<in> set (concat M)" using that setM by auto
    have "tsl_cells t (queue_of s sr) (C sr)"
      by (rule tsl_cells_cong [OF cells [OF sr]]) (use qne [OF sr] in \<open>simp_all add: t_def\<close>)
    then show ?thesis using False qof [OF sr] by simp
  qed
  have q2: "queue_of t x \<noteq> queue_of t y \<and> set ((C(?r := [])) x) \<inter> set ((C(?r := [])) y) = {}"
    if "x \<in> set (concat ?M)" "y \<in> set (concat ?M)" "x \<noteq> y" for x y
  proof -
    have r: "queue_of t ?r = ?q" by (simp add: queue_of_def t_def)
    show ?thesis
    proof (cases "x = ?r")
      case True
      then have "y \<in> set (concat M)" using that(2,3) unfolding setM by (metis insertE)
      then show ?thesis using True r qne [of y] qof [of y] by simp
    next
      case x: False
      then have xm: "x \<in> set (concat M)" using that(1) unfolding setM by (metis insertE)
      show ?thesis
      proof (cases "y = ?r")
        case True
        then show ?thesis using r qne [OF xm] qof [OF xm] by simp
      next
        case False
        then have ym: "y \<in> set (concat M)" using that(2) unfolding setM by (metis insertE)
        show ?thesis
          using queues_okD(2,3) [OF rpc_invD(3) [OF inv] xm ym that(3)] qof [OF xm] qof [OF ym] x False by simp
      qed
    qed
  qed
  have "queues_ok t ?M (C(?r := []))" unfolding queues_ok_def using q1 q2 by blast
  moreover have "ctab_rep t L" by (rule ctab_rep_cong [OF rpc_invD(1) [OF inv] ok(2)]) (auto simp: t_def)
  moreover have "rec_ok ?M c" if "p \<in> set (concat L)" "h_cr t p = Some c" for p c
    using rpc_invD(6) [OF inv that(1), of c] that(2) setM unfolding rec_ok_def by (auto simp: t_def)
  ultimately have "rpc_inv t L ?M (C(?r := []))"
    using create(2) rpc_invD(4) [OF inv] by (simp add: rpc_inv_def t_def)
  then show ?thesis using create by (simp add: rpc_offer_def queue_of_def t_def)
qed

subsection \<open>Connecting and disconnecting\<close>

lemma rpc_connect_inv:
  assumes inv: "rpc_inv s L M C" and mem: "mem_ok s" and host: "resolve host = Some ip"
    and nm: "length svcName < 2 ^ 31"
  shows "\<exists>cr nep t L'. rpc_connect pid resolve host port svcName seqno s = Some (cr, nep, t) \<and> rpc_inv t L' M C
     \<and> set (concat L') = insert cr (set (concat L))"
proof -
  obtain sp s1 where sp: "ctable_newSubport pid s = (sp, s1)" by force
  then have s1: "s1 = s\<lparr>ctr := ctr s1\<rparr>" by (auto simp: ctable_newSubport_def Let_def)
  let ?a = "Suc (nalloc s)" and ?b = "Suc (Suc (Suc (nalloc s)))"
  let ?e = "\<lparr>ep_addr = \<lparr>sin_family = 2, sin_port = bswap16 port, sin_addr = ip, sin_zero = 0\<rparr>, ep_subport = sp\<rparr>"
  let ?pl = "connect_payload sp seqno svcName"
  define c where "c = \<lparr>cr_next = NULL, cr_link = NULL, cr_seqno = seqno, cr_state = ST_CONNECT_SENT,
      cr_ep = ?a, cr_svc = NULL, cr_pl = Some ?pl, cr_resp = None, cr_size = of_nat (13 + length svcName),
      cr_nattempts = ATTEMPTS, cr_ticks = TICKS, cr_ticksLeft = TICKS,
      cr_pingsTilPurge = PINGS_BEFORE_PURGE, cr_ticksTilPing = TICKS_BETWEEN_PINGS, cr_lastFrag = 0\<rparr>"
  let ?t = "s\<lparr>h_ep := (h_ep s)(?a \<mapsto> ?e), h_cr := (h_cr s)(?b \<mapsto> c), nalloc := ?b,
      sent := sent s @ [(ep_addr ?e, ?pl)], ctr := ctr s1\<rparr>"
  have len: "length ?pl = 13 + length svcName" by (simp add: connect_payload_def)
  have sz: "unat (of_nat (13 + length svcName) :: u32) = 13 + length svcName"
    using nm by (simp only: unat_of_nat take_bit_eq_mod) simp
  have s1f: "oom s1 = oom s" "nalloc s1 = nalloc s" "h_ep s1 = h_ep s" "h_cr s1 = h_cr s" "sent s1 = sent s"
    by (subst s1, simp)+
  have eq: "rpc_connect pid resolve host port svcName seqno s
      = map_option (\<lambda>t. (?b, ?a, t)) (ctable_insert ?b ?t)"
  proof -
    have "rpc_connect pid resolve host port svcName seqno s = Option.bind (ctable_insert ?b
        (s1\<lparr>h_ep := (h_ep s)(?a \<mapsto> ?e), nalloc := ?b, sent := sent s @ [(ep_addr ?e, ?pl)],
            h_cr := (h_cr s)(?b \<mapsto> c)\<rparr>)) (\<lambda>t. Some (?b, ?a, t))"
      using host mem len
      by (simp add: rpc_connect_def sp rpc_socket_def mem_alloc_def mem_alloc_buf_def wr_def s1f
          crecord_create_def crecord_setPayload_def crecord_setState_def send_payload_def rd_def
          set_payload_def set_state_def c_def Let_def)
    moreover have "s1\<lparr>h_ep := (h_ep s)(?a \<mapsto> ?e), nalloc := ?b, sent := sent s @ [(ep_addr ?e, ?pl)],
            h_cr := (h_cr s)(?b \<mapsto> c)\<rparr> = ?t"
      by (subst s1) (rule rpc.equality, simp_all)
    ultimately show ?thesis by (cases "ctable_insert ?b ?t") simp_all
  qed
  have "rec_ok M c" using len sz by (simp add: rec_ok_def c_def)
  then obtain u where u: "ctable_insert ?b ?t = Some u"
      "rpc_inv u (L[ep_bucket ?e := ?b # L ! ep_bucket ?e]) M C"
    using rpc_inv_insert [OF inv, where a = ?a and n = ?b and b = ?b and c = c and e = ?e
        and x = "sent s @ [(ep_addr ?e, ?pl)]" and y = "ctr s1", OF _ _ _ _ _ _ refl]
    by (auto simp: c_def)
  moreover have "set (concat (L[ep_bucket ?e := ?b # L ! ep_bucket ?e])) = insert ?b (set (concat L))"
    by (rule concat_push) (simp add: ctab_repD(3) [OF rpc_invD(1) [OF inv]])
  ultimately show ?thesis using eq by (intro exI) auto
qed

lemma rpc_disconnect_inv:
  assumes inv: "rpc_inv s L M C" and mem: "mem_ok s" and ep: "h_ep s rpc = Some e"
  shows "\<exists>cr t. rpc_disconnect rpc s = Some (cr, t) \<and> rpc_inv t L M C"
proof -
  obtain p where p: "ctable_lookup e s = Some p" "p = NULL \<or> p \<in> set (concat L)"
    by (rule ctable_lookup_in [OF rpc_invD(1) [OF inv]])
  show ?thesis
  proof (cases "p = NULL")
    case True
    then show ?thesis using p(1) ep inv by (simp add: rpc_disconnect_def)
  next
    case False
    with p(2) have "p \<in> set (concat L)" by simp
    then obtain c where c: "h_cr s p = Some c" "rec_ok M c" by (rule rpc_inv_record [OF inv])
    let ?pl = "cp_complete (ep_subport e) DISCONNECT (cr_seqno c) 1 1"
    have "rpc_inv (acked p c e ?pl ST_DISCONNECT_SENT s) L M C"
      by (rule acked_inv [OF inv c(1), where h = "h_cr s" and n = "nalloc s"]) (use c in auto)
    moreover have "rpc_disconnect rpc s = Some (p, acked p c e ?pl ST_DISCONNECT_SENT s)"
      using p(1) ep c(1) False mem
      by (simp add: rpc_disconnect_def post_control_eq crecord_setState_def acked_def rpc.equality)
    ultimately show ?thesis by blast
  qed
qed

subsection \<open>The state machine\<close>

inductive sys_step :: "rpc \<Rightarrow> rpc \<Rightarrow> bool" where
  receive: "mem_ok s \<Longrightarrow> benign a d s \<Longrightarrow> reader_step (Some (a, d)) s = Some t \<Longrightarrow> sys_step s t"
| recv_error: "reader_step None s = Some t \<Longrightarrow> sys_step s t"
| tick: "timer_tick s = Some t \<Longrightarrow> sys_step s t"
| offer: "mem_ok s \<Longrightarrow> \<forall>k. \<not> pthread_err s k \<Longrightarrow> 0 \<le> hash name \<Longrightarrow> rpc_offer name s = Some (r, t) \<Longrightarrow> sys_step s t"
| connect: "mem_ok s \<Longrightarrow> resolve host = Some ip \<Longrightarrow> length svc < 2 ^ 31 \<Longrightarrow>
     rpc_connect pid resolve host port svc seqno s = Some (cr, nep, t) \<Longrightarrow> sys_step s t"
| disconnect: "mem_ok s \<Longrightarrow> h_ep s rpc \<noteq> None \<Longrightarrow> rpc_disconnect rpc s = Some (cr, t) \<Longrightarrow> sys_step s t"

inductive_cases sys_stepE: "sys_step s t"

inductive reachable :: "rpc \<Rightarrow> rpc \<Rightarrow> bool" for s0 where
  start: "reachable s0 s0"
| step: "reachable s0 s \<Longrightarrow> sys_step s t \<Longrightarrow> reachable s0 t"

lemma rpc_okE:
  assumes "rpc_ok s"
  obtains L M C where "rpc_inv s L M C"
  using assms by (auto simp: rpc_ok_def)

lemma rpc_offer_known:
  assumes "stable_lookup name s = Some sr" "sr \<noteq> NULL"
  shows "rpc_offer name s = Some (NULL, s)"
  using assms by (simp add: rpc_offer_def stable_create_def)

lemma sys_step_ok:
  assumes "sys_step s t" "rpc_ok s"
  shows "rpc_ok t"
  using assms(1)
proof cases
  case (receive a d)
  then show ?thesis using reader_step_safe [OF assms(2) receive(1,2)] by (simp add: safe_def)
next
  case recv_error
  then show ?thesis using assms(2) by (simp add: reader_step_def)
next
  case tick
  obtain L M C where inv: "rpc_inv s L M C" using assms(2) by (rule rpc_okE)
  then show ?thesis using timer_tick_ok [OF inv] tick by (auto simp: rpc_ok_def)
next
  case (offer name r)
  obtain L M C where inv: "rpc_inv s L M C" using assms(2) by (rule rpc_okE)
  have slot: "stable_slot name = Some (nat (hash name))" using offer(3) by (simp add: stable_slot_def)
  obtain sr where sr: "stable_lookup name s = Some sr"
    by (rule stable_lookup_cases [OF rpc_invD(2) [OF inv] offer(3)])
  show ?thesis
  proof (cases "sr = NULL")
    case True
    then show ?thesis using rpc_offer_inv [OF inv slot _ offer(1)] sr offer(2,4) by (auto simp: rpc_ok_def)
  next
    case False
    then show ?thesis using rpc_offer_known [OF sr] offer(4) assms(2) by simp
  qed
next
  case (connect resolve host ip svc pid port seqno cr nep)
  obtain L M C where inv: "rpc_inv s L M C" using assms(2) by (rule rpc_okE)
  then show ?thesis
    using rpc_connect_inv [OF inv connect(1), of resolve host ip svc pid port seqno] connect(2,3) connect(4) by (auto simp: rpc_ok_def)
next
  case (disconnect rpc cr)
  obtain L M C where inv: "rpc_inv s L M C" using assms(2) by (rule rpc_okE)
  obtain e where "h_ep s rpc = Some e" using disconnect(2) by auto
  then show ?thesis using rpc_disconnect_inv [OF inv disconnect(1)] disconnect(3) by (fastforce simp: rpc_ok_def)
qed

lemma reachable_ok: "reachable s0 s \<Longrightarrow> rpc_ok s0 \<Longrightarrow> rpc_ok s"
  by (induction rule: reachable.induct) (auto intro: sys_step_ok)

end
