(* ===== verification/Srpc_Transfer.thy ===== *)
theory Srpc_Transfer
  imports Srpc_Safety
begin

text \<open>
  A query of up to 65535 bytes crosses the network. \<open>query_packets\<close> are the datagrams that
  \<^verbatim>\<open>rpc_call\<close> sends for it (fragments of 1024 bytes and a last message with the rest), and the
  reader of the peer, fed with them in order and with any of them repeated any number of times
  (retransmissions whose acknowledgement was lost), puts exactly one message into the service's
  queue, from which \<^verbatim>\<open>rpc_query\<close> takes the original bytes.
\<close>

subsection \<open>The datagrams of a query\<close>

definition nfrags_of :: "bytes \<Rightarrow> nat" where
  "nfrags_of q = (length q - 1) div FR_SIZE + 1"

definition frag_data :: "bytes \<Rightarrow> nat \<Rightarrow> bytes" where
  "frag_data q i = take FR_SIZE (drop (FR_SIZE * (i - 1)) q)"

definition data_packet :: "u32 \<Rightarrow> u16 \<Rightarrow> u32 \<Rightarrow> nat \<Rightarrow> nat \<Rightarrow> nat \<Rightarrow> bytes \<Rightarrow> bytes" where
  "data_packet v cmd w i n tln d =
     cp_complete (ucast v) cmd (ucast w) (of_nat i) (of_nat n) @ be_bytes 2 tln @ be_bytes 2 (length d) @ d"

definition query_packet :: "u32 \<Rightarrow> u32 \<Rightarrow> bytes \<Rightarrow> nat \<Rightarrow> bytes" where
  "query_packet v w q i =
     data_packet v (if i < nfrags_of q then FRAGMENT else QUERY) w i (nfrags_of q) (length q) (frag_data q i)"

definition query_packets :: "u32 \<Rightarrow> u32 \<Rightarrow> bytes \<Rightarrow> bytes list" where
  "query_packets v w q = map (query_packet v w q) [1..<Suc (nfrags_of q)]"

lemma length_frag_data: "length (frag_data q i) \<le> FR_SIZE"
  by (simp add: frag_data_def)

lemma length_data_packet: "length (data_packet v cmd w i n tln d) = DP_SIZE + length d"
  by (simp add: data_packet_def)

lemma nfrags_bounds:
  assumes "0 < length q" "length q \<le> 65535"
  shows "0 < nfrags_of q" "nfrags_of q \<le> 64" "FR_SIZE * (nfrags_of q - 1) < length q"
    "length q \<le> FR_SIZE * nfrags_of q"
proof -
  have "(length q - 1) div 1024 \<le> 65534 div 1024" by (rule div_le_mono) (use assms in simp)
  then show "0 < nfrags_of q" "nfrags_of q \<le> 64" by (simp_all add: nfrags_of_def)
  have "1024 * ((length q - 1) div 1024) \<le> length q - 1" by simp
  then show "FR_SIZE * (nfrags_of q - 1) < length q" using assms(1) unfolding nfrags_of_def by linarith
  have "length q - 1 < 1024 * ((length q - 1) div 1024) + 1024"
    using mult_div_mod_eq [of 1024 "length q - 1"] mod_less_divisor [of 1024 "length q - 1"] by linarith
  then show "length q \<le> FR_SIZE * nfrags_of q" unfolding nfrags_of_def by simp
qed

lemma length_frag_full:
  assumes "0 < length q" "length q \<le> 65535" "0 < i" "i < nfrags_of q"
  shows "length (frag_data q i) = FR_SIZE"
proof -
  have "FR_SIZE * i \<le> FR_SIZE * (nfrags_of q - 1)" using assms by simp
  then have "FR_SIZE * i < length q" using nfrags_bounds(3) [OF assms(1,2)] by linarith
  then have "FR_SIZE * (i - 1) + FR_SIZE < length q" using assms(3) by (cases i) auto
  then show ?thesis by (simp add: frag_data_def)
qed

lemma frag_data_last:
  assumes "0 < length q" "length q \<le> 65535"
  shows "frag_data q (nfrags_of q) = drop (FR_SIZE * (nfrags_of q - 1)) q"
proof -
  have "length q \<le> FR_SIZE * (nfrags_of q - 1) + FR_SIZE"
    using nfrags_bounds(1,4) [OF assms] by (cases "nfrags_of q") auto
  then show ?thesis by (simp add: frag_data_def)
qed

subsection \<open>Receiving a data message\<close>

lemma unat_of_nat_small: "n < 256 \<Longrightarrow> unat (of_nat n :: u8) = n"
  by (simp add: unat_of_nat take_bit_eq_mod)

lemma dhdr_data_packet:
  assumes "tln < 65536" "length d < 65536"
  shows "dhdr_tlen (data_packet v cmd w i n tln d @ r) = of_nat tln"
    "dhdr_flen (data_packet v cmd w i n tln d @ r) = of_nat (length d)"
  using dhdr_data [of "cp_complete (ucast v) cmd (ucast w) (of_nat i) (of_nat n)" tln "length d" "d @ r"] assms
  by (simp_all add: data_packet_def)

definition peer :: "sockaddr_in \<Rightarrow> u32 \<Rightarrow> rpc_endpoint" where
  "peer a v = \<lparr>ep_addr = a, ep_subport = ucast v\<rparr>"

lemma reader_data:
  fixes s :: rpc
  defines "rx d \<equiv> d @ 0 # drop (Suc (length d)) (rxbuf s)"
  assumes rep: "ctab_rep s L" and len: "length (rxbuf s) = RX_SIZE" and d: "length d \<le> FR_SIZE"
    and cmd: "1 \<le> cmd" "cmd \<le> 14" and look: "ctable_lookup (peer a v) s = Some p"
  shows "reader_step (Some (a, data_packet v cmd w i n tln d)) s =
    dispatch cmd \<lparr>m_n = DP_SIZE + length d, m_ep = peer a v, m_seqno = ucast w, m_fnum = of_nat i,
                  m_nfrags = of_nat n\<rparr> p (s\<lparr>rxbuf := rx (data_packet v cmd w i n tln d)\<rparr>)"
proof -
  let ?d = "data_packet v cmd w i n tln d"
  have l: "length ?d < RX_SIZE" "12 \<le> length ?d" using d by (simp_all add: length_data_packet)
  have "parse_msg a (DP_SIZE + length d) ?d = \<lparr>m_n = DP_SIZE + length d, m_ep = peer a v,
      m_seqno = ucast w, m_fnum = of_nat i, m_nfrags = of_nat n\<rparr>"
    by (simp add: parse_msg_def data_packet_def hdr_cp_complete endpoint_complete_def peer_def)
  moreover have "hdr_command ?d = cmd" by (simp add: data_packet_def hdr_cp_complete)
  moreover have "ctable_lookup (peer a v) (s\<lparr>rxbuf := rx ?d\<rparr>) = Some p"
    using look ctable_lookup_rxbuf [OF rep] by simp
  ultimately show ?thesis
    using receive_eq [OF len l(1)] l(2) cmd
    by (simp add: reader_step_def parse_msg_append length_data_packet rx_def)
qed

lemma lookup_same:
  assumes "ctab_rep s L" "ctab_rep t L" "h_ep t = h_ep s"
    and "\<And>q. map_option cr_ep (h_cr t q) = map_option cr_ep (h_cr s q)"
  shows "ctable_lookup e t = ctable_lookup e s"
proof -
  have "cr_key t q = cr_key s q" for q
    using assms(3) assms(4) [of q] by (cases "h_cr t q"; cases "h_cr s q") (auto simp: cr_key_def)
  then have "ep_match t e = ep_match s e" by (simp add: ep_match_def fun_eq_iff)
  then show ?thesis using ctable_lookup_rep [OF assms(1)] ctable_lookup_rep [OF assms(2)] by simp
qed

subsection \<open>The connection of a transfer\<close>

text \<open>The tables, the record \<open>x_p\<close> with its endpoint and service, the peer, the sequence number and the
  bytes of the query, and the messages in the service's queue before.\<close>

record transfer =
  x_L :: "addr list list"
  x_M :: "addr list list"
  x_p :: addr
  x_ep :: addr
  x_svc :: addr
  x_from :: sockaddr_in
  x_sub :: u32
  x_seq :: u32
  x_q :: bytes
  x_old :: "(addr \<times> bytes option \<times> u32) list"

text \<open>\<open>at X s k P Q\<close>: a well-formed state with room for \<open>k\<close> allocations in which the peer's record satisfies
  \<open>P\<close> and the queue of its service holds \<open>Q\<close>.\<close>

definition at :: "transfer \<Rightarrow> rpc \<Rightarrow> nat \<Rightarrow> (c_record \<Rightarrow> bool) \<Rightarrow> (addr \<times> bytes option \<times> u32) list \<Rightarrow> bool" where
  "at X s k P Q \<longleftrightarrow> (\<forall>j. \<not> oom s j) \<and> nalloc s + k < 2 ^ 64
     \<and> ctable_lookup (peer (x_from X) (x_sub X)) s = Some (x_p X)
     \<and> x_p X \<in> set (concat (x_L X)) \<and> x_svc X \<in> set (concat (x_M X))
     \<and> (\<exists>C. rpc_inv s (x_L X) (x_M X) C \<and> map (el_msg s) (C (x_svc X)) = Q)
     \<and> (\<exists>c e. h_cr s (x_p X) = Some c \<and> cr_ep c = x_ep X \<and> cr_svc c = x_svc X \<and> h_ep s (x_ep X) = Some e
          \<and> P c)"

definition ready :: "transfer \<Rightarrow> c_record \<Rightarrow> bool" where
  "ready X c \<longleftrightarrow> (cr_state c = ST_IDLE \<or> cr_state c = ST_RESPONSE_SENT) \<and> ucast (x_seq X) - cr_seqno c = 1"

definition receiving :: "transfer \<Rightarrow> nat \<Rightarrow> c_record \<Rightarrow> bool" where
  "receiving X i c \<longleftrightarrow> cr_state c = ST_FACK_SENT \<and> cr_seqno c = ucast (x_seq X) \<and> cr_lastFrag c = of_nat i
     \<and> (\<exists>b. cr_resp c = Some b \<and> length b = DP_SIZE + length (x_q X) \<and> dhdr_tlen b = of_nat (length (x_q X))
          \<and> take (FR_SIZE * i) (drop DP_SIZE b) = take (FR_SIZE * i) (x_q X))"

definition received :: "transfer \<Rightarrow> c_record \<Rightarrow> bool" where
  "received X c \<longleftrightarrow> cr_state c = ST_QACK_SENT \<and> cr_seqno c = ucast (x_seq X)"

text \<open>A block with the query in it.\<close>

definition holds :: "bytes \<Rightarrow> bytes \<Rightarrow> bool" where
  "holds q b \<longleftrightarrow> length b = DP_SIZE + length q \<and> dhdr_tlen b = of_nat (length q) \<and> drop DP_SIZE b = q"

lemma atE:
  assumes "at X s k P Q"
  obtains C c e where "rpc_inv s (x_L X) (x_M X) C" "map (el_msg s) (C (x_svc X)) = Q" "h_cr s (x_p X) = Some c"
    "cr_ep c = x_ep X" "cr_svc c = x_svc X" "h_ep s (x_ep X) = Some e" "P c" "rec_ok (x_M X) c" "x_p X \<noteq> NULL"
    "x_svc X \<noteq> NULL" "\<forall>j. \<not> oom s j" "nalloc s + k < 2 ^ 64" "length (rxbuf s) = RX_SIZE"
proof -
  from assms obtain C c e where C: "rpc_inv s (x_L X) (x_M X) C" "map (el_msg s) (C (x_svc X)) = Q"
    "h_cr s (x_p X) = Some c" "cr_ep c = x_ep X" "cr_svc c = x_svc X" "h_ep s (x_ep X) = Some e" "P c"
    and p: "x_p X \<in> set (concat (x_L X))" "x_svc X \<in> set (concat (x_M X))"
    and mem: "\<forall>j. \<not> oom s j" "nalloc s + k < 2 ^ 64"
    unfolding at_def by metis
  have "x_p X \<noteq> NULL" using rpc_inv_record [OF C(1) p(1)] by metis
  moreover have "x_svc X \<noteq> NULL" using service_record [OF rpc_invD(2) [OF C(1)] p(2)] by metis
  ultimately show thesis using that C rpc_invD(6) [OF C(1) p(1) C(3)] rpc_invD(4) [OF C(1)] mem by metis
qed

text \<open>Moving from one state to another of the same tables: what has to be shown of the new state.\<close>

lemma atI:
  assumes at: "at X s k P Q" and inv: "rpc_inv t (x_L X) (x_M X) C" and ep: "h_ep t = h_ep s"
    and cr: "h_cr t = (h_cr s)(x_p X \<mapsto> c)" "cr_ep c = x_ep X" "cr_svc c = x_svc X" "P' c"
    and q: "map (el_msg t) (C (x_svc X)) = Q'" and mem: "oom t = oom s" "nalloc t + k' < 2 ^ 64"
  shows "at X t k' P' Q'"
proof -
  obtain C0 c0 e where s: "rpc_inv s (x_L X) (x_M X) C0" "h_cr s (x_p X) = Some c0" "cr_ep c0 = x_ep X"
      "h_ep s (x_ep X) = Some e"
    using at by (rule atE)
  have "map_option cr_ep (h_cr t x) = map_option cr_ep (h_cr s x)" for x
    using s(2,3) cr(2) by (simp add: cr(1))
  then have "ctable_lookup (peer (x_from X) (x_sub X)) t = ctable_lookup (peer (x_from X) (x_sub X)) s"
    by (rule lookup_same [OF rpc_invD(1) [OF s(1)] rpc_invD(1) [OF inv] ep])
  then show ?thesis using at inv ep cr q mem s(4) unfolding at_def
    by (auto simp del: set_concat)
qed

lemma acked_sel [simp]:
  "h_ep (acked p c e pl st s) = h_ep s" "oom (acked p c e pl st s) = oom s"
  "nalloc (acked p c e pl st s) = Suc (nalloc s)" "el_msg (acked p c e pl st s) = el_msg s"
  "h_cr (acked p c e pl st s) = (h_cr s)(p \<mapsto> set_state st (set_payload (Some pl) 12 ATTEMPTS TICKS c))"
  "h_sr (acked p c e pl st s) = h_sr s"
  by (auto simp: acked_def el_msg_def)

lemma touched_sel [simp]:
  "h_ep (touched p c n s) = h_ep s" "oom (touched p c n s) = oom s" "nalloc (touched p c n s) = n"
  "el_msg (touched p c n s) = el_msg s" "h_cr (touched p c n s) = (h_cr s)(p \<mapsto> c)"
  "h_sr (touched p c n s) = h_sr s"
  by (auto simp: touched_def el_msg_def)

lemma rxbuf_sel [simp]: "el_msg (s\<lparr>rxbuf := b\<rparr>) = el_msg s"
  by (auto simp: el_msg_def)

subsection \<open>One fragment\<close>

lemma next_frag_iff: "next_frag f l \<longleftrightarrow> unat f = Suc (unat l)"
  unfolding next_frag_def by linarith

definition rx_msg :: "transfer \<Rightarrow> nat \<Rightarrow> msg" where
  "rx_msg X i = \<lparr>m_n = DP_SIZE + length (frag_data (x_q X) i), m_ep = peer (x_from X) (x_sub X),
     m_seqno = ucast (x_seq X), m_fnum = of_nat i, m_nfrags = of_nat (nfrags_of (x_q X))\<rparr>"

definition rx_state :: "transfer \<Rightarrow> nat \<Rightarrow> rpc \<Rightarrow> rpc" where
  "rx_state X i s = (let d = query_packet (x_sub X) (x_seq X) (x_q X) i
     in s\<lparr>rxbuf := d @ 0 # drop (Suc (length d)) (rxbuf s)\<rparr>)"

definition rx_step :: "transfer \<Rightarrow> nat \<Rightarrow> rpc \<Rightarrow> rpc option" where
  "rx_step X i s = reader_step (Some (x_from X, query_packet (x_sub X) (x_seq X) (x_q X) i)) s"

lemma rx_step_eq:
  assumes "at X s k P Q"
  shows "rx_step X i s = (if i < nfrags_of (x_q X) then on_fragment else on_query) (rx_msg X i) (x_p X) (rx_state X i s)"
proof -
  obtain C where s: "rpc_inv s (x_L X) (x_M X) C" "length (rxbuf s) = RX_SIZE" using assms by (rule atE)
  have look: "ctable_lookup (peer (x_from X) (x_sub X)) s = Some (x_p X)" using assms by (simp add: at_def)
  show ?thesis
    using reader_data [OF rpc_invD(1) [OF s(1)] s(2) length_frag_data _ _ look]
    by (simp add: rx_step_def query_packet_def rx_msg_def rx_state_def dispatch_def Let_def)
qed

lemma length_query_packet: "length (query_packet v w q i) = DP_SIZE + length (frag_data q i)"
  by (simp add: query_packet_def length_data_packet)

lemma rx_state_facts:
  fixes i :: nat
  assumes q: "0 < length (x_q X)" "length (x_q X) \<le> 65535" and at: "at X s k P Q"
  defines "t \<equiv> rx_state X i s" and "d \<equiv> frag_data (x_q X) i"
  shows "at X t k P Q" "dhdr_tlen (rxbuf t) = of_nat (length (x_q X))" "dhdr_flen (rxbuf t) = of_nat (length d)"
    "take (length d) (drop DP_SIZE (rxbuf t)) = d" "DP_SIZE + length d \<le> length (rxbuf t)"
    "take (DP_SIZE + length d) (rxbuf t) = query_packet (x_sub X) (x_seq X) (x_q X) i"
proof -
  obtain C c e where s: "rpc_inv s (x_L X) (x_M X) C" "map (el_msg s) (C (x_svc X)) = Q" "h_cr s (x_p X) = Some c"
      "cr_ep c = x_ep X" "cr_svc c = x_svc X" "h_ep s (x_ep X) = Some e" "P c" "nalloc s + k < 2 ^ 64"
      "length (rxbuf s) = RX_SIZE"
    using at by (rule atE)
  let ?p = "query_packet (x_sub X) (x_seq X) (x_q X) i"
  have ld: "length d \<le> FR_SIZE" by (simp add: d_def length_frag_data)
  have lp: "length ?p = DP_SIZE + length d" by (simp add: length_query_packet d_def)
  have rx: "rxbuf t = ?p @ 0 # drop (Suc (length ?p)) (rxbuf s)" by (simp add: t_def rx_state_def Let_def)
  have t: "t = s\<lparr>nalloc := nalloc s, sent := sent s, rxbuf := ?p @ 0 # drop (Suc (length ?p)) (rxbuf s)\<rparr>"
    by (simp add: t_def rx_state_def Let_def)
  have inv: "rpc_inv t (x_L X) (x_M X) C"
    by (rule rpc_inv_nop [OF s(1) t]) (use s(9) lp ld in auto)
  show "at X t k P Q"
    by (rule atI [OF at inv, of c]) (use s in \<open>auto simp: t\<close>)
  show "dhdr_tlen (rxbuf t) = of_nat (length (x_q X))" "dhdr_flen (rxbuf t) = of_nat (length d)"
    using dhdr_data_packet [of "length (x_q X)" d] q ld by (simp_all add: rx query_packet_def d_def)
  show "take (length d) (drop DP_SIZE (rxbuf t)) = d"
    by (simp add: rx query_packet_def data_packet_def d_def)
  show "DP_SIZE + length d \<le> length (rxbuf t)" using lp by (simp add: rx)
  show "take (DP_SIZE + length d) (rxbuf t) = ?p" using lp by (simp add: rx)
qed

text \<open>Writing the next fragment into the block.\<close>

lemma patch_block:
  assumes b: "length b = DP_SIZE + length q" "take (FR_SIZE * i) (drop DP_SIZE b) = take (FR_SIZE * i) q"
    and d: "d = frag_data q (Suc i)" "FR_SIZE * i \<le> length q"
  defines "b' \<equiv> take (DP_SIZE + FR_SIZE * i) b @ d @ drop (DP_SIZE + FR_SIZE * i + length d) b"
  shows "length b' = length b" "dhdr_tlen b' = dhdr_tlen b"
    "take (FR_SIZE * i + length d) (drop DP_SIZE b') = take (FR_SIZE * i + length d) q"
proof -
  have len: "length d = min FR_SIZE (length q - FR_SIZE * i)" by (simp add: d(1) frag_data_def)
  show "length b' = length b" using b(1) d(2) len by (simp add: b'_def)
  have "take DP_SIZE b' = take DP_SIZE b" using b(1) by (simp add: b'_def)
  moreover have "dhdr_tlen x = dhdr_tlen (take DP_SIZE x)" for x :: bytes
    by (simp add: dhdr_tlen_def drop_take)
  ultimately show "dhdr_tlen b' = dhdr_tlen b" by metis
  have "drop DP_SIZE b' = take (FR_SIZE * i) (drop DP_SIZE b) @ d @ drop (DP_SIZE + FR_SIZE * i + length d) b"
    using b(1) d(2) by (simp add: b'_def drop_take)
  then have "take (FR_SIZE * i + length d) (drop DP_SIZE b') = take (FR_SIZE * i) q @ d"
    using b(2) d(2) by simp
  moreover have "d = take (length d) (drop (FR_SIZE * i) q)" by (simp add: d(1) frag_data_def min_def)
  ultimately show "take (FR_SIZE * i + length d) (drop DP_SIZE b') = take (FR_SIZE * i + length d) q"
    by (metis take_add)
qed

lemma step_first:
  assumes q: "0 < length (x_q X)" "length (x_q X) \<le> 65535" and at: "at X s (k + 2) (ready X) Q"
    and n: "1 < nfrags_of (x_q X)"
  shows "\<exists>t. rx_step X 1 s = Some t \<and> at X t k (receiving X 1) Q"
proof -
  let ?u = "rx_state X 1 s" and ?m = "rx_msg X 1" and ?d = "frag_data (x_q X) 1"
  note u = rx_state_facts [OF q at, where i = 1]
  have ld: "length ?d = FR_SIZE" using length_frag_full [OF q, of 1] n by simp
  have lq: "FR_SIZE < length (x_q X)" using nfrags_bounds(3) [OF q] n by (cases "nfrags_of (x_q X)") auto
  obtain C c e where c: "rpc_inv ?u (x_L X) (x_M X) C" "map (el_msg ?u) (C (x_svc X)) = Q" "h_cr ?u (x_p X) = Some c"
      "cr_ep c = x_ep X" "cr_svc c = x_svc X" "h_ep ?u (x_ep X) = Some e" "ready X c" "rec_ok (x_M X) c"
      "x_p X \<noteq> NULL" "\<forall>j. \<not> oom ?u j" "nalloc ?u + (k + 2) < 2 ^ 64"
    using u(1) by (rule atE)
  let ?b = "query_packet (x_sub X) (x_seq X) (x_q X) 1
    @ map (junk ?u (nalloc ?u)) [DP_SIZE + FR_SIZE..<DP_SIZE + length (x_q X)]"
  let ?c = "c\<lparr>cr_seqno := m_seqno ?m, cr_resp := Some ?b\<rparr>"
  have tl: "unat (dhdr_tlen (rxbuf ?u)) = length (x_q X)" using u(2) q by (simp add: unat_of_nat_u16)
  have "on_fragment ?m (x_p X) ?u = fragment_new ?m (x_p X) (touched (x_p X) ?c (Suc (nalloc ?u)) ?u)"
    using on_fragment_first_eq [OF c(9,3) c(10) [rule_format], of ?m] u(5,6) c(7) ld lq
    by (simp add: tl [simplified] rx_msg_def first_fragment_def ready_def)
  also have "\<dots> = Some (acked (x_p X) (?c\<lparr>cr_lastFrag := 1\<rparr>) e
      (cp_complete (ep_subport (m_ep ?m)) FACK (m_seqno ?m) (m_fnum ?m) (m_nfrags ?m)) ST_FACK_SENT
      (touched (x_p X) (?c\<lparr>cr_lastFrag := 1\<rparr>) (Suc (nalloc ?u)) ?u))" (is "_ = Some ?t")
    using fragment_new_eq [of ?u ?c e "Suc (nalloc ?u)" ?m "x_p X"] c(4,6,10) by (simp add: rx_msg_def)
  finally have "rx_step X 1 s = Some ?t" using rx_step_eq [OF at] n by simp
  moreover have lb: "length ?b = DP_SIZE + length (x_q X)" using ld lq by (simp add: length_query_packet)
  moreover have "rpc_inv ?t (x_L X) (x_M X) C"
    by (rule touched_inv [OF c(1,3,8)]) (use lb in simp_all)
  moreover have "dhdr_tlen ?b = of_nat (length (x_q X))"
    using dhdr_data_packet [of "length (x_q X)" ?d] q ld by (simp add: query_packet_def)
  moreover have "drop DP_SIZE ?b = ?d @ map (junk ?u (nalloc ?u)) [DP_SIZE + FR_SIZE..<DP_SIZE + length (x_q X)]"
    by (simp add: query_packet_def data_packet_def)
  then have "take FR_SIZE (drop DP_SIZE ?b) = take FR_SIZE (x_q X)"
    using ld by (simp add: frag_data_def)
  ultimately show ?thesis
    using atI [OF u(1), of ?t C "set_state ST_FACK_SENT (set_payload (Some (cp_complete (ep_subport (m_ep ?m))
        FACK (m_seqno ?m) (m_fnum ?m) (m_nfrags ?m))) 12 ATTEMPTS TICKS (?c\<lparr>cr_lastFrag := 1\<rparr>))" "receiving X 1" Q k]
      c(2,4,5,11) by (simp add: receiving_def rx_msg_def)
qed

text \<open>What copying fragment \<open>i + 1\<close> into the block of a receiving record gives.\<close>

lemma receiving_copy:
  assumes q: "0 < length (x_q X)" "length (x_q X) \<le> 65535" and at: "at X s k P Q"
    and r: "receiving X i c" and i: "Suc i \<le> nfrags_of (x_q X)"
  defines "d \<equiv> frag_data (x_q X) (Suc i)"
  obtains b where "copy_fragment (of_nat (Suc i)) (cr_resp c) (rx_state X (Suc i) s) = Some b"
    "length b = DP_SIZE + length (x_q X)" "dhdr_tlen b = of_nat (length (x_q X))"
    "take (FR_SIZE * i + length d) (drop DP_SIZE b) = take (FR_SIZE * i + length d) (x_q X)"
    "next_frag (of_nat (Suc i)) (cr_lastFrag c)"
proof -
  let ?u = "rx_state X (Suc i) s"
  note u = rx_state_facts [OF q at, where i = "Suc i"]
  from r obtain b where b: "cr_resp c = Some b" "length b = DP_SIZE + length (x_q X)"
      "dhdr_tlen b = of_nat (length (x_q X))" "take (FR_SIZE * i) (drop DP_SIZE b) = take (FR_SIZE * i) (x_q X)"
    and lf: "cr_lastFrag c = of_nat i"
    by (auto simp: receiving_def)
  have small: "Suc i < 256" using i nfrags_bounds(2) [OF q] by simp
  have fn: "unat (of_nat (Suc i) :: u8) = Suc i" using unat_of_nat_small [OF small] .
  have iq: "FR_SIZE * i \<le> length (x_q X)" using i nfrags_bounds(3) [OF q] by (auto dest: Suc_leI)
  have ld: "length d \<le> length (x_q X) - FR_SIZE * i" "length d < 65536"
    using q(2) by (simp_all add: d_def frag_data_def)
  have fl: "unat (dhdr_flen (rxbuf ?u)) = length d" using u(3) ld(2) by (simp add: unat_of_nat_u16 d_def)
  let ?b = "take (DP_SIZE + FR_SIZE * i) b @ d @ drop (DP_SIZE + FR_SIZE * i + length d) b"
  have "copy_fragment (of_nat (Suc i)) (Some b) ?u = Some ?b"
    using copy_fragment_eq [of "of_nat (Suc i)" ?u b] u(4,5) b(2) ld(1) iq
    by (simp only: fn fl Let_def diff_Suc_1 d_def)
  moreover note patch_block [OF b(2,4) _ iq, of d]
  moreover have "next_frag (of_nat (Suc i)) (cr_lastFrag c)"
    using small fn lf unat_of_nat_small [of i] by (simp only: next_frag_iff)
  ultimately show thesis using that b(1,2,3) by (simp add: d_def)
qed

lemma step_next:
  assumes q: "0 < length (x_q X)" "length (x_q X) \<le> 65535" and at: "at X s (k + 2) (receiving X i) Q"
    and i: "Suc i < nfrags_of (x_q X)"
  shows "\<exists>t. rx_step X (Suc i) s = Some t \<and> at X t k (receiving X (Suc i)) Q"
proof -
  let ?u = "rx_state X (Suc i) s" and ?m = "rx_msg X (Suc i)"
  note u = rx_state_facts [OF q at, where i = "Suc i"]
  obtain C c e where c: "rpc_inv ?u (x_L X) (x_M X) C" "map (el_msg ?u) (C (x_svc X)) = Q" "h_cr ?u (x_p X) = Some c"
      "cr_ep c = x_ep X" "cr_svc c = x_svc X" "h_ep ?u (x_ep X) = Some e" "receiving X i c" "rec_ok (x_M X) c"
      "x_p X \<noteq> NULL" "\<forall>j. \<not> oom ?u j" "nalloc ?u + (k + 2) < 2 ^ 64"
    using u(1) by (rule atE)
  obtain b where b: "copy_fragment (of_nat (Suc i)) (cr_resp c) ?u = Some b"
    "length b = DP_SIZE + length (x_q X)" "dhdr_tlen b = of_nat (length (x_q X))"
    "take (FR_SIZE * i + length (frag_data (x_q X) (Suc i))) (drop DP_SIZE b)
       = take (FR_SIZE * i + length (frag_data (x_q X) (Suc i))) (x_q X)"
    "next_frag (of_nat (Suc i)) (cr_lastFrag c)"
    by (rule receiving_copy [OF q at c(7) less_imp_le [OF i]])
  let ?c = "c\<lparr>cr_resp := Some b\<rparr>" and ?cl = "c\<lparr>cr_resp := Some b, cr_lastFrag := of_nat (Suc i)\<rparr>"
  let ?pl = "cp_complete (ep_subport (m_ep ?m)) FACK (m_seqno ?m) (m_fnum ?m) (m_nfrags ?m)"
  have "on_fragment ?m (x_p X) ?u = fragment_new ?m (x_p X) (touched (x_p X) ?c (nalloc ?u) ?u)"
    by (rule on_fragment_next_eq [OF c(9,3)]) (use b c(7) in \<open>simp_all add: rx_msg_def receiving_def\<close>)
  also have "\<dots> = Some (acked (x_p X) ?cl e ?pl ST_FACK_SENT (touched (x_p X) ?cl (nalloc ?u) ?u))" (is "_ = Some ?t")
    using fragment_new_eq [of ?u ?c e "nalloc ?u" ?m "x_p X"] c(4,6,10) by (simp add: rx_msg_def)
  finally have "rx_step X (Suc i) s = Some ?t" using rx_step_eq [OF at] i by simp
  moreover have "rpc_inv ?t (x_L X) (x_M X) C"
    by (rule touched_inv [OF c(1,3,8)]) (use b(2) in simp_all)
  moreover have "length (frag_data (x_q X) (Suc i)) = FR_SIZE" using length_frag_full [OF q _ i] by simp
  then have "take (FR_SIZE * Suc i) (drop DP_SIZE b) = take (FR_SIZE * Suc i) (x_q X)" using b(4) by (simp add: add.commute)
  ultimately show ?thesis
    using atI [OF u(1), of ?t C "set_state ST_FACK_SENT (set_payload (Some ?pl) 12 ATTEMPTS TICKS ?cl)"
        "receiving X (Suc i)" Q k] b(2,3) c(2,4,5,7,11) by (simp add: receiving_def)
qed

subsection \<open>The last message\<close>

lemma query_new_at:
  assumes at: "at X u (k + 3) P Q" and C: "rpc_inv u (x_L X) (x_M X) C" "map (el_msg u) (C (x_svc X)) = Q"
    and c: "h_cr u (x_p X) = Some c" "rec_ok (x_M X) c" "cr_ep c = x_ep X" "cr_svc c = x_svc X"
    and c': "cr_next c' = cr_next c" "cr_ep c' = cr_ep c" "cr_svc c' = cr_svc c" "cr_seqno c' = ucast (x_seq X)"
    and n: "nalloc u \<le> n" "n \<le> Suc (nalloc u)"
  shows "\<exists>t. query_new m (x_p X) b z (touched (x_p X) c' n u) = Some t
           \<and> at X t k (received X) (Q @ [(x_ep X, Some b, z)])"
proof -
  obtain e where e: "h_ep u (x_ep X) = Some e" "\<forall>j. \<not> oom u j" "nalloc u + (k + 3) < 2 ^ 64"
    using at by (rule atE)
  have svc: "x_svc X \<in> set (concat (x_M X))" using at by (simp add: at_def)
  let ?s = "touched (x_p X) c' n u"
  let ?pl = "cp_complete (ep_subport (m_ep m)) QACK (m_seqno m) (m_fnum m) (m_nfrags m)"
  let ?v = "acked (x_p X) c' e ?pl ST_QACK_SENT ?s"
  obtain v where v: "h_sr u (x_svc X) = Some v" "queue_of u (x_svc X) = s_queue v"
    by (rule service_record [OF rpc_invD(2) [OF C(1)] svc])
  have inv: "rpc_inv ?v (x_L X) (x_M X) C" by (rule touched_inv [OF C(1) c(1,2) n(1)]) (simp_all add: c')
  have "\<not> oom ?v (nalloc ?v)" "nalloc ?v + 1 < 2 ^ 64" using e n by simp_all
  then obtain t where t: "tsl_append (queue_of ?v (x_svc X)) (x_ep X) (Some b) z ?v = Some (1, t)"
      "rpc_inv t (x_L X) (x_M X) (C(x_svc X := C (x_svc X) @ [Suc (nalloc ?v)]))" "h_cr t = h_cr ?v" "h_ep t = h_ep ?v"
      "map (el_msg t) (C (x_svc X) @ [Suc (nalloc ?v)]) = map (el_msg ?v) (C (x_svc X)) @ [(x_ep X, Some b, z)]"
      "nalloc t = Suc (nalloc ?v)"
    by (rule rpc_inv_append [OF inv _ _ svc])
  have oom: "oom t = oom u" using tsl_append_frame [OF t(1)] rpc_invD(3) [OF inv] svc
    unfolding queues_ok_def by fastforce
  have "queue_of ?v (x_svc X) = s_queue v" using v by (simp add: queue_of_def)
  then have "query_new m (x_p X) b z ?s = Some t"
    using query_new_eq [of ?s "x_p X" c' e v ?pl m b z t] t(1) c c' v e by simp
  moreover have "at X t k (received X) (Q @ [(x_ep X, Some b, z)])"
    by (rule atI [OF at t(2), of "set_state ST_QACK_SENT (set_payload (Some ?pl) 12 ATTEMPTS TICKS c')"])
      (use t c c' C(2) e n oom in \<open>simp_all add: received_def\<close>)
  ultimately show ?thesis by blast
qed

lemma holds_packet:
  assumes "length (frag_data q 1) = length q" "length q \<le> 65535" "nfrags_of q = 1"
  shows "holds q (query_packet v w q 1)"
  using assms dhdr_data_packet [of "length q" "frag_data q 1" v QUERY w 1 1 "[]"]
  by (simp add: holds_def length_query_packet query_packet_def data_packet_def frag_data_def)

lemma step_single:
  assumes q: "0 < length (x_q X)" "length (x_q X) \<le> 65535" and at: "at X s (k + 3) (ready X) Q"
    and n: "nfrags_of (x_q X) = 1"
  shows "\<exists>t b z. rx_step X 1 s = Some t \<and> at X t k (received X) (Q @ [(x_ep X, Some b, z)]) \<and> holds (x_q X) b"
proof -
  let ?u = "rx_state X 1 s" and ?m = "rx_msg X 1" and ?d = "frag_data (x_q X) 1"
  note u = rx_state_facts [OF q at, where i = 1]
  have ld: "length ?d = length (x_q X)" using frag_data_last [OF q] n by simp
  obtain C c e where c: "rpc_inv ?u (x_L X) (x_M X) C" "map (el_msg ?u) (C (x_svc X)) = Q" "h_cr ?u (x_p X) = Some c"
      "cr_ep c = x_ep X" "cr_svc c = x_svc X" "ready X c" "rec_ok (x_M X) c" "x_p X \<noteq> NULL" "\<forall>j. \<not> oom ?u j"
    using u(1) by (rule atE)
  let ?b = "query_packet (x_sub X) (x_seq X) (x_q X) 1" and ?z = "of_nat (DP_SIZE + length ?d)"
  have "on_query ?m (x_p X) ?u = query_new ?m (x_p X) (take (m_n ?m) (rxbuf ?u)) (of_nat (m_n ?m))
      (touched (x_p X) (c\<lparr>cr_seqno := m_seqno ?m\<rparr>) (Suc (nalloc ?u)) ?u)"
    by (rule on_query_new_eq [OF c(8,3) c(9) [rule_format]]) (use u(5) c(6) in \<open>simp_all add: rx_msg_def ready_def\<close>)
  then have "rx_step X 1 s = query_new ?m (x_p X) ?b ?z
      (touched (x_p X) (c\<lparr>cr_seqno := ucast (x_seq X)\<rparr>) (Suc (nalloc ?u)) ?u)"
    using rx_step_eq [OF at] n u(6) by (simp add: rx_msg_def)
  moreover obtain t where "query_new ?m (x_p X) ?b ?z
      (touched (x_p X) (c\<lparr>cr_seqno := ucast (x_seq X)\<rparr>) (Suc (nalloc ?u)) ?u) = Some t"
      "at X t k (received X) (Q @ [(x_ep X, Some ?b, ?z)])"
    using query_new_at [OF u(1) c(1,2,3,7,4,5), of "c\<lparr>cr_seqno := ucast (x_seq X)\<rparr>" "Suc (nalloc ?u)" ?m ?b ?z] by auto
  moreover have "holds (x_q X) ?b" by (rule holds_packet [OF ld q(2) n])
  ultimately show ?thesis by metis
qed

lemma step_last:
  assumes q: "0 < length (x_q X)" "length (x_q X) \<le> 65535" and at: "at X s (k + 3) (receiving X i) Q"
    and n: "nfrags_of (x_q X) = Suc i"
  shows "\<exists>t b z. rx_step X (Suc i) s = Some t \<and> at X t k (received X) (Q @ [(x_ep X, Some b, z)]) \<and> holds (x_q X) b"
proof -
  let ?u = "rx_state X (Suc i) s" and ?m = "rx_msg X (Suc i)"
  note u = rx_state_facts [OF q at, where i = "Suc i"]
  obtain C c e where c: "rpc_inv ?u (x_L X) (x_M X) C" "map (el_msg ?u) (C (x_svc X)) = Q" "h_cr ?u (x_p X) = Some c"
      "cr_ep c = x_ep X" "cr_svc c = x_svc X" "receiving X i c" "rec_ok (x_M X) c" "x_p X \<noteq> NULL"
    using u(1) by (rule atE)
  obtain b where b: "copy_fragment (of_nat (Suc i)) (cr_resp c) ?u = Some b"
    "length b = DP_SIZE + length (x_q X)" "dhdr_tlen b = of_nat (length (x_q X))"
    "take (FR_SIZE * i + length (frag_data (x_q X) (Suc i))) (drop DP_SIZE b)
       = take (FR_SIZE * i + length (frag_data (x_q X) (Suc i))) (x_q X)"
    "next_frag (of_nat (Suc i)) (cr_lastFrag c)"
    by (rule receiving_copy [OF q at c(6)]) (use n in simp)
  let ?z = "16 + ucast (dhdr_tlen (rxbuf ?u))" and ?c = "c\<lparr>cr_resp := None\<rparr>"
  have "on_query ?m (x_p X) ?u = query_new ?m (x_p X) b ?z (touched (x_p X) ?c (nalloc ?u) ?u)"
    by (rule on_query_last_eq [OF c(8,3)]) (use b c(6) n in \<open>simp_all add: rx_msg_def receiving_def\<close>)
  then have "rx_step X (Suc i) s = query_new ?m (x_p X) b ?z (touched (x_p X) ?c (nalloc ?u) ?u)"
    using rx_step_eq [OF at] n by simp
  moreover obtain t where "query_new ?m (x_p X) b ?z (touched (x_p X) ?c (nalloc ?u) ?u) = Some t"
      "at X t k (received X) (Q @ [(x_ep X, Some b, ?z)])"
    using query_new_at [OF u(1) c(1,2,3,7,4,5), of ?c "nalloc ?u" ?m b ?z] c(6) by (auto simp: receiving_def)
  moreover have "FR_SIZE * i + length (frag_data (x_q X) (Suc i)) = length (x_q X)"
    using frag_data_last [OF q] nfrags_bounds(3) [OF q] by (simp add: n)
  then have "holds (x_q X) b" using b(2,3,4) by (simp add: holds_def)
  ultimately show ?thesis by metis
qed

subsection \<open>Repetitions\<close>

lemma resend_at:
  assumes at: "at X s k P Q" and P: "\<And>c. P c \<Longrightarrow> P (set_state (cr_state c) c)"
    and c: "h_cr s (x_p X) = Some c"
  shows "\<exists>t. resend_old (x_p X) (cr_state c) s = Some t \<and> at X t k P Q"
proof -
  obtain C c' e where s: "rpc_inv s (x_L X) (x_M X) C" "map (el_msg s) (C (x_svc X)) = Q" "h_cr s (x_p X) = Some c'"
      "cr_ep c' = x_ep X" "cr_svc c' = x_svc X" "P c'" "nalloc s + k < 2 ^ 64"
    using at by (rule atE)
  have p: "x_p X \<in> set (concat (x_L X))" using at by (simp add: at_def)
  obtain x where x: "send_current (x_p X) s = Some (s\<lparr>sent := x\<rparr>)" using send_current_ok [OF s(1) p] ..
  let ?t = "s\<lparr>sent := x, h_cr := (h_cr s)(x_p X \<mapsto> set_state (cr_state c) c)\<rparr>"
  have "resend_old (x_p X) (cr_state c) s = Some ?t"
    using x c by (simp add: resend_old_def crecord_setState_def)
  moreover have "rpc_inv ?t (x_L X) (x_M X) C"
    using rpc_ok_setState [OF rpc_inv_send [OF s(1), of x] p, of "cr_state c"] c
    by (simp add: crecord_setState_def)
  moreover have "el_msg ?t = el_msg s" by (auto simp: el_msg_def)
  ultimately show ?thesis
    using atI [OF at, of ?t C "set_state (cr_state c) c" P Q k] s c P [of c] by auto
qed

lemma receiving_again:
  assumes q: "0 < length (x_q X)" "length (x_q X) \<le> 65535" and at: "at X s k (receiving X i) Q"
    and i: "i < nfrags_of (x_q X)"
  shows "\<exists>t. rx_step X i s = Some t \<and> at X t k (receiving X i) Q"
proof -
  note u = rx_state_facts(1) [OF q at, where i = i]
  obtain c where c: "h_cr (rx_state X i s) (x_p X) = Some c" "receiving X i c" "x_p X \<noteq> NULL"
    using u by (rule atE)
  have "rx_step X i s = resend_old (x_p X) (cr_state c) (rx_state X i s)"
    using rx_step_eq [OF at] i c
    by (simp add: on_fragment_def Let_def rx_msg_def receiving_def next_frag_iff)
  then show ?thesis using resend_at [OF u _ c(1)] by (simp add: receiving_def)
qed

lemma received_again:
  assumes q: "0 < length (x_q X)" "length (x_q X) \<le> 65535" and at: "at X s k (received X) Q"
  shows "\<exists>t. rx_step X (nfrags_of (x_q X)) s = Some t \<and> at X t k (received X) Q"
proof -
  let ?u = "rx_state X (nfrags_of (x_q X)) s"
  note u = rx_state_facts(1) [OF q at, where i = "nfrags_of (x_q X)"]
  obtain c where c: "h_cr ?u (x_p X) = Some c" "received X c" "x_p X \<noteq> NULL"
    using u by (rule atE)
  have "rx_step X (nfrags_of (x_q X)) s = resend_old (x_p X) (cr_state c) ?u"
    using rx_step_eq [OF at] c by (simp add: on_query_def Let_def rx_msg_def received_def)
  then show ?thesis using resend_at [OF u _ c(1)] by (simp add: received_def)
qed

subsection \<open>The whole transfer\<close>

text \<open>\<open>repeated ks xs\<close>: the elements of \<open>xs\<close> in order, the \<open>i\<close>-th one followed by \<open>ks ! i\<close> repetitions.\<close>

fun repeated :: "nat list \<Rightarrow> 'a list \<Rightarrow> 'a list" where
  "repeated (k # ks) (x # xs) = replicate (Suc k) x @ repeated ks xs"
| "repeated [] xs = xs"
| "repeated ks [] = []"

lemma repeated_Nil [simp]: "repeated ks [] = []"
  by (cases ks) simp_all

definition pkt :: "transfer \<Rightarrow> nat \<Rightarrow> sockaddr_in \<times> bytes" where
  "pkt X i = (x_from X, query_packet (x_sub X) (x_seq X) (x_q X) i)"

lemma reader_run_append:
  "reader_run (xs @ ys) s = Option.bind (reader_run xs s) (reader_run ys)"
  by (induction xs arbitrary: s) (auto split: bind_splits)

lemma reader_run_pkt: "reader_run [pkt X i] s = rx_step X i s"
  by (cases "rx_step X i s") (simp_all add: pkt_def rx_step_def)

lemma reader_run_replicate:
  assumes "\<And>s. P s \<Longrightarrow> \<exists>t. rx_step X i s = Some t \<and> P t" "P s"
  shows "\<exists>t. reader_run (replicate k (pkt X i)) s = Some t \<and> P t"
  using assms(2)
proof (induction k arbitrary: s)
  case (Suc k)
  obtain t where "rx_step X i s = Some t" "P t" using assms(1) [OF Suc.prems] by blast
  with Suc.IH [of t] show ?case by (simp add: pkt_def rx_step_def)
qed simp

lemma reader_run_step:
  assumes step: "\<exists>t. rx_step X i s = Some t \<and> P t" and again: "\<And>s. P s \<Longrightarrow> \<exists>t. rx_step X i s = Some t \<and> P t"
    and rest: "\<And>ks s. P s \<Longrightarrow> \<exists>t. reader_run (repeated ks xs) s = Some t \<and> R t"
  shows "\<exists>t. reader_run (repeated ks (pkt X i # xs)) s = Some t \<and> R t"
proof -
  have cons: "\<exists>t. reader_run (replicate (Suc k) (pkt X i)) s = Some t \<and> P t" for k
  proof -
    obtain t where t: "rx_step X i s = Some t" "P t" using step by blast
    have "reader_run (replicate (Suc k) (pkt X i)) s = reader_run (replicate k (pkt X i)) t"
      using t(1) by (simp add: pkt_def rx_step_def)
    with reader_run_replicate [of P X i t k, OF again t(2)] show ?thesis by simp
  qed
  show ?thesis
  proof (cases ks)
    case Nil
    obtain t where "reader_run [pkt X i] s = Some t" "P t" using cons [of 0] by auto
    with rest [of t "[]"] Nil show ?thesis using reader_run_append [of "[pkt X i]" xs s] by simp
  next
    case (Cons k ks')
    obtain t where "reader_run (replicate (Suc k) (pkt X i)) s = Some t" "P t" using cons by blast
    with rest [of t ks'] Cons show ?thesis
      using reader_run_append [of "replicate (Suc k) (pkt X i)" "repeated ks' xs" s] by (simp del: replicate_Suc)
  qed
qed

definition arrived :: "transfer \<Rightarrow> rpc \<Rightarrow> bool" where
  "arrived X s \<longleftrightarrow> (\<exists>b z. at X s 0 (received X) (x_old X @ [(x_ep X, Some b, z)]) \<and> holds (x_q X) b)"

lemma at_mono: "at X s k P Q \<Longrightarrow> j \<le> k \<Longrightarrow> at X s j P Q"
  by (auto simp: at_def)

lemma arrived_again:
  assumes "0 < length (x_q X)" "length (x_q X) \<le> 65535" "arrived X s"
  shows "\<exists>t. rx_step X (nfrags_of (x_q X)) s = Some t \<and> arrived X t"
  using assms received_again unfolding arrived_def by blast

lemma run_from_fragment:
  assumes q: "0 < length (x_q X)" "length (x_q X) \<le> 65535"
  shows "nfrags_of (x_q X) - i = Suc j \<Longrightarrow> at X s (2 * j + 3) (receiving X i) (x_old X) \<Longrightarrow>
    \<exists>t. reader_run (repeated ks (map (pkt X) [Suc i..<Suc (nfrags_of (x_q X))])) s = Some t \<and> arrived X t"
proof (induction j arbitrary: i s ks)
  case 0
  then have n: "nfrags_of (x_q X) = Suc i" by simp
  have "\<exists>t. rx_step X (Suc i) s = Some t \<and> arrived X t"
    using step_last [OF q _ n, of s 0] 0(2) unfolding arrived_def by fastforce
  then have "\<exists>t. reader_run (repeated ks (pkt X (Suc i) # [])) s = Some t \<and> arrived X t"
    by (rule reader_run_step) (use arrived_again [OF q] n in auto)
  then show ?case using n by simp
next
  case (Suc j)
  have i: "Suc i < nfrags_of (x_q X)" using Suc.prems(1) by simp
  have "at X s ((2 * j + 3) + 2) (receiving X i) (x_old X)"
    using Suc.prems(2) by (rule at_mono) simp
  then have step: "\<exists>t. rx_step X (Suc i) s = Some t \<and> at X t (2 * j + 3) (receiving X (Suc i)) (x_old X)"
    using step_next [OF q _ i] by blast
  have "\<exists>t. reader_run (repeated ks (pkt X (Suc i) # map (pkt X) [Suc (Suc i)..<Suc (nfrags_of (x_q X))])) s = Some t
      \<and> arrived X t"
    using step
  proof (rule reader_run_step)
    show "\<exists>u. rx_step X (Suc i) t = Some u \<and> at X u (2 * j + 3) (receiving X (Suc i)) (x_old X)"
      if "at X t (2 * j + 3) (receiving X (Suc i)) (x_old X)" for t
      using receiving_again [OF q that i] .
    show "\<exists>u. reader_run (repeated ks (map (pkt X) [Suc (Suc i)..<Suc (nfrags_of (x_q X))])) t = Some u \<and> arrived X u"
      if "at X t (2 * j + 3) (receiving X (Suc i)) (x_old X)" for t ks
      using Suc.IH [of "Suc i" t ks] that Suc.prems(1) by simp
  qed
  moreover have "[Suc i..<Suc (nfrags_of (x_q X))] = Suc i # [Suc (Suc i)..<Suc (nfrags_of (x_q X))]"
    using i by (simp add: upt_conv_Cons)
  ultimately show ?case by simp
qed

lemma query_delivered:
  assumes q: "0 < length (x_q X)" "length (x_q X) \<le> 65535" and at: "at X s 200 (ready X) (x_old X)"
  shows "\<exists>t. reader_run (repeated ks (map (pkt X) [1..<Suc (nfrags_of (x_q X))])) s = Some t \<and> arrived X t"
proof (cases "nfrags_of (x_q X) = 1")
  case True
  have "\<exists>t. rx_step X 1 s = Some t \<and> arrived X t"
    using step_single [OF q at_mono [OF at, of "0 + 3"] True] unfolding arrived_def by fastforce
  then have "\<exists>t. reader_run (repeated ks (pkt X 1 # [])) s = Some t \<and> arrived X t"
    by (rule reader_run_step) (use arrived_again [OF q] True in auto)
  then show ?thesis using True by simp
next
  case False
  then have n: "1 < nfrags_of (x_q X)" "nfrags_of (x_q X) \<le> 64" using nfrags_bounds [OF q] by auto
  define j where "j = nfrags_of (x_q X) - 2"
  have j: "nfrags_of (x_q X) - 1 = Suc j" "j \<le> 62" using n by (auto simp: j_def)
  have "at X s ((2 * j + 3) + 2) (ready X) (x_old X)" using at by (rule at_mono) (use j in simp)
  then have step: "\<exists>t. rx_step X 1 s = Some t \<and> at X t (2 * j + 3) (receiving X 1) (x_old X)"
    using step_first [OF q _ n(1)] by blast
  have "\<exists>t. reader_run (repeated ks (pkt X 1 # map (pkt X) [Suc 1..<Suc (nfrags_of (x_q X))])) s = Some t \<and> arrived X t"
    using step
  proof (rule reader_run_step)
    show "\<exists>u. rx_step X 1 t = Some u \<and> at X u (2 * j + 3) (receiving X 1) (x_old X)"
      if "at X t (2 * j + 3) (receiving X 1) (x_old X)" for t
      using receiving_again [OF q that n(1)] .
    show "\<exists>u. reader_run (repeated ks (map (pkt X) [Suc 1..<Suc (nfrags_of (x_q X))])) t = Some u \<and> arrived X u"
      if "at X t (2 * j + 3) (receiving X 1) (x_old X)" for t ks
      using run_from_fragment [OF q j(1) that] .
  qed
  moreover have "[1..<Suc (nfrags_of (x_q X))] = 1 # [Suc 1..<Suc (nfrags_of (x_q X))]"
    using n by (simp add: upt_conv_Cons)
  ultimately show ?thesis by simp
qed

subsection \<open>The service takes the query\<close>

lemma rpc_query_takes:
  assumes q: "0 < length (x_q X)" "length (x_q X) \<le> 65535" and arr: "arrived X t" and old: "x_old X = []"
    and len: "length (x_q X) \<le> unat len"
  shows "\<exists>u. rpc_query (x_svc X) len t = Some (Ready ((x_ep X, of_nat (length (x_q X)), x_q X), u))"
proof -
  obtain b z where at: "at X t 0 (received X) [(x_ep X, Some b, z)]" and b: "holds (x_q X) b"
    using arr old unfolding arrived_def by auto
  obtain C where C: "rpc_inv t (x_L X) (x_M X) C" "map (el_msg t) (C (x_svc X)) = [(x_ep X, Some b, z)]"
    using at by (rule atE)
  have svc: "x_svc X \<in> set (concat (x_M X))" using at by (simp add: at_def)
  obtain v where v: "h_sr t (x_svc X) = Some v" "queue_of t (x_svc X) = s_queue v"
    by (rule service_record [OF rpc_invD(2) [OF C(1)] svc])
  have "tsl_cells t (s_queue v) (C (x_svc X))"
    using rpc_invD(3) [OF C(1)] svc v(2) unfolding queues_ok_def by metis
  then have "tsl_rep t (s_queue v) [(x_ep X, Some b, z)]"
    using C(2) rpc_invD(5) [OF C(1)] unfolding tsl_rep_def by metis
  then obtain u where u: "tsl_remove (s_queue v) t = Some (Ready ((x_ep X, Some b, z), u))"
    using tsl.remove_law by blast
  have n: "unat (of_nat (length (x_q X)) :: u16) = length (x_q X)" using q by (simp add: unat_of_nat_u16)
  have "ucast (of_nat (length (x_q X)) :: u16) = (of_nat (length (x_q X)) :: u32)"
    by (metis n of_nat_unat)
  then show ?thesis
    using u v b len n by (simp add: rpc_query_def rd_tlen_def holds_def rd_def)
qed

subsection \<open>The datagrams that \<^verbatim>\<open>rpc_call\<close> sends\<close>

lemma unat_of_nat_u32: "n < 4294967296 \<Longrightarrow> unat (of_nat n :: u32) = n"
  by (simp add: unat_of_nat take_bit_eq_mod)

lemma frag_count_eq:
  assumes "0 < length q" "length q \<le> 65535"
  shows "frag_count (of_nat (length q)) = of_nat (nfrags_of q)"
proof -
  let ?w = "of_nat (length q) :: u32"
  have "unat ?w = length q" using assms(2) by (simp add: unat_of_nat_u32)
  then have "unat (?w - 1) = length q - 1" using assms(1) by (metis unat_minus_one unat_eq_zero less_irrefl)
  then have "unat ((?w - 1) div 1024) = (length q - 1) div 1024" by (simp add: unat_div)
  moreover have "(length q - 1) div 1024 \<le> 63" using nfrags_bounds(2) [OF assms] by (simp add: nfrags_of_def)
  ultimately have "(?w - 1) div 1024 = of_nat ((length q - 1) div 1024)"
    by (metis of_nat_unat ucast_id)
  then have "(?w - 1) div 1024 + 1 = of_nat (nfrags_of q)" by (simp add: nfrags_of_def)
  moreover have "unat (of_nat (nfrags_of q) :: u32) = nfrags_of q"
    using nfrags_bounds(2) [OF assms] by (intro unat_of_nat_u32) simp
  ultimately show ?thesis unfolding frag_count_def by (metis of_nat_unat)
qed

lemma last_len_eq:
  assumes "0 < length q" "length q \<le> 65535"
  shows "last_len (of_nat (length q)) (of_nat (nfrags_of q)) = of_nat (length (frag_data q (nfrags_of q)))"
proof -
  have n: "0 < nfrags_of q" "nfrags_of q < 256" using nfrags_bounds [OF assms] by auto
  have "ucast (of_nat (nfrags_of q) :: u8) = (of_nat (nfrags_of q) :: u32)"
    by (metis n(2) unat_of_nat_small of_nat_unat)
  moreover have "(of_nat (nfrags_of q) - 1 :: u32) = of_nat (nfrags_of q - 1)" using n(1) by (simp add: of_nat_diff)
  moreover have "length (frag_data q (nfrags_of q)) = length q - FR_SIZE * (nfrags_of q - 1)"
    using frag_data_last [OF assms] by simp
  ultimately show ?thesis using nfrags_bounds(3) [OF assms] by (simp add: last_len_def of_nat_diff)
qed

text \<open>The frame of a call for the query \<open>q\<close> with sequence number \<open>w\<close> on a connection with subport \<open>v\<close>.\<close>

definition call_frame :: "frame \<Rightarrow> bytes \<Rightarrow> u32 \<Rightarrow> bool" where
  "call_frame f q w \<longleftrightarrow> fr_data f = q \<and> fr_len f = of_nat (length q) \<and> fr_nfrags f = of_nat (nfrags_of q)
     \<and> fr_seqno f = ucast w"

lemma post_data_eq:
  assumes "\<not> oom s (nalloc s)" "h_cr s (fr_cr f) = Some c" "fr_data f = q" "fr_len f = of_nat (length q)"
    "length q \<le> 65535" "0 < unat fnum" "FR_SIZE * (unat fnum - 1) + blen \<le> length q" "unat sz = DP_SIZE + blen"
  shows "\<exists>t. post_data f e sp cmd seqno fnum blen sz s = Some t \<and> sent t = sent s @
      [(ep_addr e, cp_complete sp cmd seqno fnum (fr_nfrags f) @ be_bytes 2 (length q) @ be_bytes 2 blen
          @ take blen (drop (FR_SIZE * (unat fnum - 1)) q))]
    \<and> h_cr t (fr_cr f) \<noteq> None \<and> h_ep t = h_ep s"
  using assms data_payload_eq [of "map (junk s (nalloc s)) [0..<unat sz]" blen "FR_SIZE * (unat fnum - 1)" q]
  by (simp add: post_data_def mem_alloc_buf_def unat_of_nat_u32 crecord_setPayload_def send_payload_def rd_def)

text \<open>Each turn of the loop of \<^verbatim>\<open>rpc_call\<close> sends one packet of the query.\<close>

lemma call_send_packet:
  assumes q: "0 < length q" "length q \<le> 65535" and f: "call_frame f q w"
    and s: "\<not> oom s (nalloc s)" "h_ep s (fr_ep f) = Some e" "ep_subport e = ucast v" "h_cr s (fr_cr f) = Some c"
    and i: "0 < i" "i \<le> nfrags_of q"
  shows "\<exists>t. call_send f (of_nat i) s =
      Some (Call_wait (if i < nfrags_of q then Await_fack (of_nat i) else Await_answer) f, t)
    \<and> sent t = sent s @ [(ep_addr e, query_packet v w q i)]"
proof -
  have n: "nfrags_of q < 256" "i < 256" using i nfrags_bounds [OF q] by auto
  have fi: "unat (of_nat i :: u8) = i" using n by (simp add: unat_of_nat_small)
  note frame = f [unfolded call_frame_def]
  have lt: "(of_nat i :: u8) < fr_nfrags f \<longleftrightarrow> i < nfrags_of q"
    using n frame by (simp add: word_less_nat_alt unat_of_nat_small)
  show ?thesis
  proof (cases "i < nfrags_of q")
    case True
    let ?s = "s\<lparr>h_cr := (h_cr s)(fr_cr f \<mapsto> c\<lparr>cr_lastFrag := of_nat i\<rparr>)\<rparr>"
    have d: "length (frag_data q i) = FR_SIZE" using length_frag_full [OF q i(1) True] .
    then have "FR_SIZE * (i - 1) + FR_SIZE \<le> length q" by (simp add: frag_data_def)
    then obtain t where t: "post_data f e (ucast v) FRAGMENT (ucast w) (of_nat i) FR_SIZE 1040 ?s = Some t"
        "sent t = sent s @ [(ep_addr e, query_packet v w q i)]" "h_cr t (fr_cr f) \<noteq> None"
      using post_data_eq [of ?s f _ q "of_nat i" FR_SIZE 1040 e "ucast v" FRAGMENT "ucast w"] s frame q(2) fi i(1) True d
      by (auto simp: query_packet_def data_packet_def frag_data_def)
    then show ?thesis using s frame lt True
      by (auto simp: call_send_def send_fragment_def crecord_setState_def)
  next
    case False
    then have i_eq: "i = nfrags_of q" using i by simp
    let ?d = "frag_data q i"
    have "FR_SIZE * (i - 1) + length ?d = length q"
      using frag_data_last [OF q] nfrags_bounds(3) [OF q] by (simp add: i_eq)
    note d = length_frag_data [of q i] this
    have ll: "last_len (fr_len f) (fr_nfrags f) = of_nat (length ?d)" using last_len_eq [OF q] frame i_eq by simp
    have ul: "unat (of_nat (length ?d) :: u32) = length ?d" using d(1) by (intro unat_of_nat_u32) simp
    have l16: "(16 + of_nat (length ?d) :: u32) = of_nat (DP_SIZE + length ?d)" by simp
    have "unat (of_nat (DP_SIZE + length ?d) :: u32) = DP_SIZE + length ?d"
      using d(1) by (intro unat_of_nat_u32) simp
    then have "(ucast (16 + of_nat (length ?d) :: u32) :: u16) = of_nat (DP_SIZE + length ?d)"
      unfolding l16 by (metis of_nat_unat)
    then have "unat (ucast (16 + of_nat (length ?d) :: u32) :: u16) = DP_SIZE + length ?d"
      using d(1) unat_of_nat_u16 [of "DP_SIZE + length ?d"] by simp
    moreover define z :: u32 where "z = ucast (ucast (16 + of_nat (length ?d) :: u32) :: u16)"
    ultimately have sz: "unat z = DP_SIZE + length ?d" by simp
    have pk: "query_packet v w q i = cp_complete (ucast v) QUERY (ucast w) (of_nat i) (fr_nfrags f)
        @ be_bytes 2 (length q) @ be_bytes 2 (length ?d) @ take (length ?d) (drop (FR_SIZE * (i - 1)) q)"
      using False frame by (simp add: query_packet_def data_packet_def frag_data_def min_def)
    obtain t where t: "post_data f e (ucast v) QUERY (ucast w) (of_nat i) (length ?d) z s = Some t"
        "sent t = sent s @ [(ep_addr e, query_packet v w q i)]" "h_cr t (fr_cr f) \<noteq> None"
      using post_data_eq [OF s(1,4) _ _ q(2), of "of_nat i" "length ?d" z e "ucast v" QUERY "ucast w"]
        frame fi i(1) d(2) sz unfolding pk by auto
    then show ?thesis using s frame lt False ll ul
      by (auto simp: call_send_def crecord_setState_def Let_def z_def)
  qed
qed

end
