(* ===== verification/Rpc_Samples.thy ===== *)
theory Rpc_Samples
  imports Srpc_System Srpc_Transfer
begin

text \<open>
  Concrete states of the RPC runtime, on which the properties are instantiated: a process that has
  called \<^verbatim>\<open>rpc_init\<close>, one that offers the service \<^verbatim>\<open>HWDB\<close>, and one with a connected peer.
\<close>

definition blank :: rpc where
  "blank = \<lparr>h_ep = Map.empty, h_cr = Map.empty, h_sr = Map.empty, h_el = Map.empty, h_lh = Map.empty,
     nalloc = 0, oom = (\<lambda>_. False), junk = (\<lambda>_ _. 0), pthread_err = (\<lambda>_. False),
     ctable = [], ctr = 0, stable = [], rxbuf = replicate RX_SIZE 0, sent = [],
     my_addr = \<lparr>sin_family = 0, sin_port = 0, sin_addr = 0, sin_zero = 0\<rparr>, my_name = [], my_port = 0,
     my_sock = 0\<rparr>"

definition os0 :: os_env where
  "os0 = \<lparr>os_socket = 3, os_bind = 0, os_port = 0xdb03, os_reader = 0, os_timer = 0\<rparr>"

definition booted :: rpc where "booted = snd (rpc_init os0 None 987 blank)"

definition hwdb :: bytes where "hwdb = [0x48, 0x57, 0x44, 0x42]"

definition offered :: rpc where "offered = snd (the (rpc_offer hwdb booted))"

definition peer_addr :: sockaddr_in where
  "peer_addr = \<lparr>sin_family = 2, sin_port = 0x1234, sin_addr = 0x0100007f, sin_zero = 0\<rparr>"

definition peer0 :: rpc_endpoint where "peer0 = peer peer_addr 7"

definition record0 :: c_record where
  "record0 = \<lparr>cr_next = NULL, cr_link = NULL, cr_seqno = 41, cr_state = ST_IDLE, cr_ep = 4, cr_svc = 1,
     cr_pl = Some (cp_complete 7 CACK 41 1 1), cr_resp = None, cr_size = 12, cr_nattempts = ATTEMPTS,
     cr_ticks = TICKS, cr_ticksLeft = TICKS, cr_pingsTilPurge = PINGS_BEFORE_PURGE,
     cr_ticksTilPing = TICKS_BETWEEN_PINGS, cr_lastFrag = 0\<rparr>"

definition serving :: rpc where
  "serving = the (ctable_insert 5 (offered\<lparr>h_ep := (h_ep offered)(4 \<mapsto> peer0),
     h_cr := (h_cr offered)(5 \<mapsto> record0), nalloc := 5, sent := [], ctr := 0\<rparr>))"

lemma booted_inv: "rpc_inv booted (replicate CTABLE_SIZE []) (replicate STABLE_SIZE []) (\<lambda>_. [])"
  unfolding booted_def by (rule rpc_init_inv) (simp_all add: blank_def heap_ok_def)

lemma booted_ok: "rpc_ok booted"
  using booted_inv by (auto simp: rpc_ok_def)

lemma booted_sel [simp]: "nalloc booted = 0" "oom booted = (\<lambda>_. False)" "pthread_err booted = (\<lambda>_. False)"
  "ctr booted = 0" "sent booted = []" "h_cr booted = Map.empty" "h_ep booted = Map.empty"
  by (simp_all add: booted_def blank_def rpc_init_def common_init_def ctable_init_def stable_init_def
      Let_def os0_def)

lemma booted_mem: "mem_ok booted"
  by (simp add: mem_ok_def)

lemma hash_hwdb: "hash hwdb = 4"
  by (simp add: hash_def hash_acc_def hwdb_def)

lemma slot_hwdb: "stable_slot hwdb = Some 4"
  by (simp add: stable_slot_def hash_hwdb)

abbreviation "M0 \<equiv> (replicate STABLE_SIZE [])[4 := [1 :: nat]]"

lemma offered_inv:
  "rpc_offer hwdb booted = Some (1, offered)" "rpc_inv offered (replicate CTABLE_SIZE []) M0 (\<lambda>_. [])"
proof -
  have new: "stable_lookup hwdb booted = Some NULL"
    using stable_lookup_rep [OF rpc_invD(2) [OF booted_inv] slot_hwdb] by simp
  obtain t where t: "rpc_offer hwdb booted = Some (1, t)"
      "rpc_inv t (replicate CTABLE_SIZE []) ((replicate STABLE_SIZE [])[4 := 1 # replicate STABLE_SIZE [] ! 4]) ((\<lambda>_. [])(1 := []))"
    using rpc_offer_inv [OF booted_inv slot_hwdb new booted_mem] by auto
  have "(\<lambda>_. [])(k := []) = (\<lambda>_. [] :: addr list)" for k :: nat by auto
  then show "rpc_offer hwdb booted = Some (1, offered)" "rpc_inv offered (replicate CTABLE_SIZE []) M0 (\<lambda>_. [])"
    using t by (simp_all add: offered_def del: fun_upd_apply)
qed

lemma offered_sel [simp]: "nalloc offered = 3" "oom offered = (\<lambda>_. False)" "ctr offered = 0" "sent offered = []"
  "pthread_err offered = (\<lambda>_. False)"
proof -
  have "stable_lookup hwdb booted = Some NULL"
    using stable_lookup_rep [OF rpc_invD(2) [OF booted_inv] slot_hwdb] by simp
  then have "nalloc offered = 3 \<and> oom offered = (\<lambda>_. False) \<and> ctr offered = 0 \<and> sent offered = []
      \<and> pthread_err offered = (\<lambda>_. False)"
    by (simp add: offered_def rpc_offer_def stable_create_def mem_alloc_def str_dupl_def mem_alloc_buf_def
        tsl_create_def slot_hwdb Let_def)
  then show "nalloc offered = 3" "oom offered = (\<lambda>_. False)" "ctr offered = 0" "sent offered = []"
    "pthread_err offered = (\<lambda>_. False)" by auto
qed

abbreviation "L0 \<equiv> (replicate CTABLE_SIZE [])[ep_bucket peer0 := [5 :: nat]]"

lemma serving_inv:
  "rpc_inv serving L0 M0 (\<lambda>_. [])" "\<exists>x. h_cr serving 5 = Some (record0\<lparr>cr_next := x\<rparr>)" "h_ep serving 4 = Some peer0"
  "nalloc serving = 5" "sent serving = []"
proof -
  let ?t = "offered\<lparr>h_ep := (h_ep offered)(4 \<mapsto> peer0), h_cr := (h_cr offered)(5 \<mapsto> record0), nalloc := 5,
    sent := [], ctr := 0\<rparr>"
  have "1 \<in> set (concat M0)" by (simp, rule bexI [of _ "[Suc 0]"]) (simp_all add: set_update_memI)
  then have rec: "rec_ok M0 record0" by (simp add: rec_ok_def record0_def del: set_concat)
  have "\<exists>u. ctable_insert 5 ?t = Some u \<and> rpc_inv u (L0) M0 (\<lambda>_. [])
     \<and> h_cr u = (h_cr ?t)(5 \<mapsto> record0\<lparr>cr_next := ctable ?t ! ep_bucket peer0\<rparr>) \<and> h_ep u = h_ep ?t \<and> sent u = sent ?t
     \<and> nalloc u = nalloc ?t \<and> ctable u = (ctable ?t)[ep_bucket peer0 := 5]"
    using rpc_inv_insert [OF offered_inv(2), where a = 4 and n = 5 and b = 5 and c = record0 and e = peer0
        and x = "[]" and y = 0, OF _ _ _ _ _ rec refl]
    by (simp add: record0_def)
  then have u: "rpc_inv serving L0 M0 (\<lambda>_. [])" "h_cr serving = (h_cr ?t)(5 \<mapsto> record0\<lparr>cr_next := ctable ?t ! ep_bucket peer0\<rparr>)"
      "h_ep serving = h_ep ?t" "sent serving = sent ?t" "nalloc serving = nalloc ?t"
    unfolding serving_def by auto
  then show "rpc_inv serving L0 M0 (\<lambda>_. [])" "\<exists>x. h_cr serving 5 = Some (record0\<lparr>cr_next := x\<rparr>)"
    "h_ep serving 4 = Some peer0" "nalloc serving = 5" "sent serving = []" by auto
qed

lemma serving_oom: "oom serving = (\<lambda>_. False)"
  by (simp add: serving_def ctable_insert_def record0_def Let_def)

lemma serving_lookup: "ctable_lookup peer0 serving = Some 5"
proof -
  obtain x where x: "h_cr serving 5 = Some (record0\<lparr>cr_next := x\<rparr>)" using serving_inv(2) ..
  have "ep_match serving peer0 5" using serving_inv(3) x by (simp add: ep_match_def cr_key_def record0_def)
  then show ?thesis using ctable_lookup_rep [OF rpc_invD(1) [OF serving_inv(1)], of peer0] by simp
qed

end
