(* ===== verification/Srpc_Silence.thy ===== *)
theory Srpc_Silence
  imports Srpc_Tick
begin

text \<open>
  What the timer thread achieves by itself: if no message arrives, each tick brings every record of the connection table
  closer to its end, whatever its state and its counters, and the table runs empty.
\<close>

fun ticks :: "nat \<Rightarrow> rpc \<Rightarrow> rpc option" where
  "ticks 0 s = Some s"
| "ticks (Suc n) s = do { s \<leftarrow> timer_tick s; ticks n s }"

lemma ticks_add: "ticks m s = Some t \<Longrightarrow> ticks (m + n) s = ticks n t"
  by (induction m arbitrary: s) (auto split: bind_splits)

text \<open>A counter of 16 bits reaches 0 after as many steps as it counts; 0 itself wraps around first.\<close>

definition span :: "u16 \<Rightarrow> nat" where
  "span w = (if w = 0 then 65536 else unat w)"

lemma span_dec: "w - 1 \<noteq> 0 \<Longrightarrow> span (w - 1) < span w" for w :: u16
  using unsigned_less [of "- 1 :: u16"] by (cases "w = 0") (simp_all add: span_def unat_minus_one unat_gt_0)

text \<open>The attempts and ticks, or the pings and ticks, a record has left.\<close>

definition patience :: "c_record \<Rightarrow> nat \<times> nat" where
  "patience c = (if retry_state (cr_state c) then (span (cr_nattempts c), span (cr_ticksLeft c))
     else (span (cr_pingsTilPurge c), span (cr_ticksTilPing c)))"

lemma patience_clock: "clock c = clock d \<Longrightarrow> patience c = patience d"
  by (simp add: clock_def patience_def)

lemma scan_progress:
  assumes "cr_state c \<noteq> ST_TIMEDOUT"
  shows "fst (scan_record c) = Timed
     \<or> fst (scan_record c) \<noteq> Purge \<and> (patience (snd (scan_record c)), patience c) \<in> less_than <*lex*> less_than"
  using assms span_dec [of "cr_ticksLeft c"] span_dec [of "cr_nattempts c"] span_dec [of "cr_ticksTilPing c"]
    span_dec [of "cr_pingsTilPurge c"]
  by (auto simp: scan_record_def Let_def patience_def retry_state_def)

lemma verdict_at: "h_cr s q = Some c \<Longrightarrow> verdict s q = fst (scan_record c)"
  by (simp add: verdict_def)

text \<open>A record that has timed out leaves with the next tick; any other in the end.\<close>

lemma timedout_leaves:
  assumes "rpc_inv s L M C" "q \<in> set (concat L)" "map_option cr_state (h_cr s q) = Some ST_TIMEDOUT"
  shows "\<exists>t L'. ticks 1 s = Some t \<and> rpc_inv t L' M C \<and> set (concat L') \<subseteq> set (concat L) - {q}"
proof -
  have "verdict s q = Purge" using assms(3) by (auto simp: verdict_def scan_record_def)
  then have "q \<in> set (selected s L Purge)" using assms(2) by (simp add: selected_def)
  moreover obtain t L' where "timer_tick s = Some t" "rpc_inv t L' M C" "set (concat L') = set (concat L) - set (selected s L Purge)"
    using timer_tick_full [OF assms(1)] by blast
  ultimately show ?thesis by (intro exI [of _ t] exI [of _ L'] conjI) (simp_all add: eval_nat_numeral, blast)
qed

lemma record_leaves:
  assumes "rpc_inv s L M C" "q \<in> set (concat L)" "h_cr s q = Some c"
  shows "\<exists>n t L'. ticks n s = Some t \<and> rpc_inv t L' M C \<and> set (concat L') \<subseteq> set (concat L) - {q}"
  using assms
proof (induction "patience c" arbitrary: s L c rule: wf_induct_rule [OF wf_lex_prod [OF wf_less_than wf_less_than]])
  case (1 c s L)
  show ?case
  proof (cases "cr_state c = ST_TIMEDOUT")
    case True
    then show ?thesis using timedout_leaves [OF "1.prems"(1,2)] "1.prems"(3) by (metis option.simps(9))
  next
    case False
    obtain t L' where t: "timer_tick s = Some t" "rpc_inv t L' M C" "set (concat L') = set (concat L) - set (selected s L Purge)"
      "\<forall>q\<in>set (selected s L Timed). map_option cr_state (h_cr t q) = Some ST_TIMEDOUT"
      "\<forall>q\<in>set (concat L') - set (selected s L Timed). timing t q = map_option (\<lambda>c. clock (snd (scan_record c))) (h_cr s q)"
      using timer_tick_full [OF "1.prems"(1)] by blast
    note v = verdict_at [OF "1.prems"(3)]
    have "verdict s q \<noteq> Purge" using scan_progress [OF False] v by auto
    then have q: "q \<in> set (concat L')" using t(3) "1.prems"(2) by (simp add: selected_def)
    obtain n u L'' where u: "ticks n t = Some u" "rpc_inv u L'' M C" "set (concat L'') \<subseteq> set (concat L') - {q}"
    proof (cases "verdict s q = Timed")
      case True
      then have "q \<in> set (selected s L Timed)" using "1.prems"(2) by (simp add: selected_def)
      then show ?thesis using timedout_leaves [OF t(2) q] t(4) that by blast
    next
      case False': False
      then have "timing t q = Some (clock (snd (scan_record c)))"
        using t(5) q "1.prems"(3) by (simp add: selected_def)
      then obtain d where d: "h_cr t q = Some d" "clock d = clock (snd (scan_record c))" by (auto simp: timing_def)
      then have "(patience d, patience c) \<in> less_than <*lex*> less_than"
        using scan_progress [OF False] False' v patience_clock [of d] by auto
      from "1.hyps" [OF this t(2) q d(1)] show ?thesis using that by blast
    qed
    have "ticks (Suc n) s = Some u" using t(1) u(1) by simp
    then show ?thesis using u(2,3) t(3) by blast
  qed
qed

lemma table_runs_empty:
  assumes "rpc_inv s L M C"
  shows "\<exists>n t L'. ticks n s = Some t \<and> rpc_inv t L' M C \<and> set (concat L') = {}"
  using assms
proof (induction "card (set (concat L))" arbitrary: s L rule: less_induct)
  case less
  show ?case
  proof (cases "set (concat L) = {}")
    case True
    then show ?thesis using less.prems by (intro exI [of _ 0]) auto
  next
    case False
    then obtain q where q: "q \<in> set (concat L)" by (metis equals0I)
    obtain c where "h_cr s q = Some c" by (rule rpc_inv_record [OF less.prems q])
    from record_leaves [OF less.prems q this] obtain n t L' where t: "ticks n s = Some t" "rpc_inv t L' M C"
      "set (concat L') \<subseteq> set (concat L) - {q}" by blast
    then have "set (concat L') \<subset> set (concat L)" using q by blast
    then have "card (set (concat L')) < card (set (concat L))" by (simp add: psubset_card_mono)
    from less.hyps [OF this t(2)] obtain k u L'' where "ticks k t = Some u" "rpc_inv u L'' M C" "set (concat L'') = {}" by blast
    then show ?thesis using ticks_add [OF t(1), of k] by metis
  qed
qed

end
