(* ===== verification/Rpc_Properties.thy ===== *)
theory Rpc_Properties
  imports Rpc_Samples Srpc_Silence
begin

text \<open>
  The properties of the RPC runtime, each with an instance at a concrete state where it has
  hypotheses: what the runtime guarantees first, then the inputs on which the code misbehaves.
\<close>

subsection \<open>What the runtime guarantees\<close>

text \<open>C1: In a well-formed state with memory available, the reader thread handles every datagram a
  cooperating peer may send without undefined behaviour, and the state stays well formed.\<close>

theorem reader_memory_safe:
  assumes "rpc_ok s" "mem_ok s" "benign a d s"
  shows "\<exists>t. reader_step (Some (a, d)) s = Some t \<and> rpc_ok t"
  using reader_step_safe [OF assms] by (simp add: safe_def)

lemma connect_hwdb_benign: "benign peer_addr (connect_payload 7 41 hwdb) s"
proof -
  let ?d = "connect_payload 7 41 hwdb"
  have cmd: "hdr_command ?d = CONNECT" by (simp add: connect_payload_def hdr_cp_complete)
  have nm: "drop 12 ?d = hwdb @ [0]" "length ?d = 17" by (simp_all add: connect_payload_def hwdb_def)
  have "takeWhile (\<lambda>c. c \<noteq> 0) (hwdb @ [0]) = hwdb" by (simp add: hwdb_def)
  then show ?thesis by (simp add: benign_def cmd nm hash_hwdb data_command_def)
qed

theorem reader_memory_safe_witness:
  "\<exists>t. reader_step (Some (peer_addr, connect_payload 7 41 hwdb)) booted = Some t \<and> rpc_ok t"
  using reader_memory_safe [OF booted_ok booted_mem connect_hwdb_benign] .





text \<open>C8: A timer tick in a well-formed state terminates: exactly the records whose state is timed out
  leave the table and are freed, the records whose attempts or pings are exhausted become timed
  out, and the datagrams sent are exactly the due pings followed by the due retransmissions.\<close>

theorem timer_tick_spec:
  assumes "rpc_inv s L M C"
  shows "\<exists>t L'. timer_tick s = Some t \<and> rpc_inv t L' M C
     \<and> set (concat L') = set (concat L) - set (selected s L Purge)
     \<and> (\<forall>q\<in>set (selected s L Purge). h_cr t q = None)
     \<and> (\<forall>q\<in>set (selected s L Timed). map_option cr_state (h_cr t q) = Some ST_TIMEDOUT)
     \<and> sent t = sent s @ map (ping_msg s) (selected s L Ping) @ map (retry_msg s) (selected s L Retry)"
  using timer_tick_ok [OF assms] .

theorem timer_tick_spec_witness:
  "\<exists>t L'. timer_tick serving = Some t \<and> rpc_inv t L' M0 (\<lambda>_. [])
     \<and> set (concat L') = set (concat L0) - set (selected serving L0 Purge)
     \<and> (\<forall>q\<in>set (selected serving L0 Purge). h_cr t q = None)
     \<and> (\<forall>q\<in>set (selected serving L0 Timed). map_option cr_state (h_cr t q) = Some ST_TIMEDOUT)
     \<and> sent t = sent serving @ map (ping_msg serving) (selected serving L0 Ping)
          @ map (retry_msg serving) (selected serving L0 Retry)"
  using timer_tick_spec [OF serving_inv(1)] .

text \<open>C18: \<^verbatim>\<open>rpc_call\<close> computes the number of fragments of a query of 1 to 65535 bytes, and the turn of its
  loop for fragment \<open>i\<close> sends exactly the \<open>i\<close>-th datagram of the query and then waits for its
  acknowledgement, or for the answer after the last one.\<close>

theorem rpc_call_sends:
  assumes "0 < length q" "length q \<le> 65535" "call_frame f q w"
    and "\<not> oom s (nalloc s)" "h_ep s (fr_ep f) = Some e" "ep_subport e = ucast v" "h_cr s (fr_cr f) = Some c"
    and "0 < i" "i \<le> nfrags_of q"
  shows "frag_count (of_nat (length q)) = of_nat (nfrags_of q)
     \<and> (\<exists>t. call_send f (of_nat i) s =
          Some (Call_wait (if i < nfrags_of q then Await_fack (of_nat i) else Await_answer) f, t)
        \<and> sent t = sent s @ [(ep_addr e, query_packet v w q i)])"
  using frag_count_eq [OF assms(1,2)] call_send_packet [OF assms] by blast

theorem rpc_call_sends_witness:
  "frag_count 3 = 1 \<and> (\<exists>t. call_send \<lparr>fr_ep = 4, fr_cr = 5, fr_data = [1, 2, 3], fr_len = 3, fr_nfrags = 1,
       fr_seqno = 42, fr_rsize = 0\<rparr> 1 serving
     = Some (Call_wait Await_answer \<lparr>fr_ep = 4, fr_cr = 5, fr_data = [1, 2, 3], fr_len = 3, fr_nfrags = 1,
       fr_seqno = 42, fr_rsize = 0\<rparr>, t)
     \<and> sent t = sent serving @ [(peer_addr, query_packet 7 42 [1, 2, 3] 1)])"
proof -
  obtain x where x: "h_cr serving 5 = Some (record0\<lparr>cr_next := x\<rparr>)" using serving_inv(2) ..
  show ?thesis
    using rpc_call_sends [where q = "[1, 2, 3]" and w = 42 and v = 7 and i = 1 and s = serving and e = peer0
        and f = "\<lparr>fr_ep = 4, fr_cr = 5, fr_data = [1, 2, 3], fr_len = 3, fr_nfrags = 1, fr_seqno = 42, fr_rsize = 0\<rparr>"]
      x serving_inv(3)
    by (simp add: call_frame_def nfrags_of_def serving_oom peer0_def peer_def)
qed




text \<open>C20: A record inserted into the connection table is found under its endpoint, and a record
  removed from it is gone while all others stay, with every chain still terminated.\<close>

theorem ctable_insert_remove:
  assumes rep: "ctab_rep s L" and c: "h_cr s p = Some c" and e: "h_ep s (cr_ep c) = Some e"
    and new: "p \<notin> set (concat L)" and own: "cr_ep c \<notin> cr_epp s ` set (concat L)"
  shows "\<exists>t u L'. ctable_insert p s = Some t \<and> ctable_lookup e t = Some p
     \<and> ctable_remove p t = Some u \<and> ctab_rep u L' \<and> set (concat L') = set (concat L)"
proof -
  let ?L = "L[ep_bucket e := p # L ! ep_bucket e]"
  obtain t where t: "ctable_insert p s = Some t" "ctab_rep t ?L" using ctable_insert_rep [OF assms] by blast
  obtain t' where "ctable_insert p s = Some t'" "ctable_lookup e t' = Some p"
    using ctable_lookup_insert [OF assms] by blast
  then have look: "ctable_lookup e t = Some p" using t(1) by simp
  have len: "length L = CTABLE_SIZE" using ctab_repD(3) [OF rep] .
  have p: "p \<in> set (?L ! ep_bucket e)" by (simp add: len)
  obtain u where u: "ctable_remove p t = Some u" "ctab_rep u (?L[ep_bucket e := remove1 p (?L ! ep_bucket e)])"
    by (rule ctable_remove_rep [OF t(2) ep_bucket_less p])
  have "set (concat (?L[ep_bucket e := remove1 p (?L ! ep_bucket e)])) = set (concat ?L) - {p}"
    by (rule concat_remove1 [OF t(2) ep_bucket_less p])
  also have "\<dots> = set (concat L)" using concat_push [of "ep_bucket e" L p] new len by (simp only: ep_bucket_less) blast
  finally show ?thesis using t(1) look u by blast
qed

theorem ctable_insert_remove_witness:
  "\<exists>t u L'. ctable_insert 5 (booted\<lparr>h_ep := [4 \<mapsto> peer0], h_cr := [5 \<mapsto> record0], nalloc := 5\<rparr>) = Some t
     \<and> ctable_lookup peer0 t = Some 5 \<and> ctable_remove 5 t = Some u \<and> ctab_rep u L' \<and> set (concat L') = {}"
proof -
  let ?s = "booted\<lparr>h_ep := [4 \<mapsto> peer0], h_cr := [5 \<mapsto> record0], nalloc := 5\<rparr>"
  have ok: "heap_ok ?s" using rpc_invD(5) [OF booted_inv] by (auto simp: heap_ok_def)
  have "ctab_rep ?s (replicate CTABLE_SIZE [])"
    by (rule ctab_rep_cong [OF rpc_invD(1) [OF booted_inv] ok]) simp_all
  then show ?thesis
    using ctable_insert_remove [of ?s "replicate CTABLE_SIZE []" 5 record0 peer0] by (simp add: record0_def)
qed

text \<open>C22: An unanswered message is retransmitted with exponential back-off: with 7 attempts and a first
  time-out of 2 ticks, the scans retry it after 2, 4, 8, 16, 32 and 64 ticks and give it up after
  254 ticks in all (about five seconds).\<close>

theorem retransmission_schedule:
  assumes "retry_state (cr_state c)" "cr_ticksLeft c = TICKS" "cr_ticks c = TICKS" "cr_nattempts c = ATTEMPTS"
  shows "scan_verdicts 254 c = concat (map (\<lambda>k. replicate (2 ^ k - 1) Keep @ [Retry]) [1..<7])
           @ replicate (2 ^ 7 - 1) Keep @ [Timed]"
proof -
  have b: "backoff_schedule 7 2 = concat (map (\<lambda>k. replicate (2 ^ k - 1) Keep @ [Retry]) [1..<7])
      @ replicate (2 ^ 7 - 1) Keep @ [Timed]"
    by (simp add: numeral_eq_Suc)
  have "length (backoff_schedule 7 2) = 254" using length_backoff [of 2 7] by simp
  then show ?thesis using backoff_run [of c 2 6] assms b by simp
qed

theorem retransmission_schedule_witness:
  "scan_verdicts 254 (record0\<lparr>cr_state := ST_QUERY_SENT\<rparr>)
     = concat (map (\<lambda>k. replicate (2 ^ k - 1) Keep @ [Retry]) [1..<7]) @ replicate (2 ^ 7 - 1) Keep @ [Timed]"
  using retransmission_schedule [of "record0\<lparr>cr_state := ST_QUERY_SENT\<rparr>"]
  by (simp add: record0_def retry_state_def)

text \<open>C9: While no message arrives, the timer alone empties the connection table: from every well-formed state, whatever
  states, attempts and counters the records have, finitely many ticks succeed and leave no record in the table.\<close>

theorem silence_empties_table:
  assumes "rpc_inv s L M C"
  shows "\<exists>n t L'. ticks n s = Some t \<and> rpc_inv t L' M C \<and> set (concat L') = {}"
  by (rule table_runs_empty [OF assms])

theorem silence_empties_table_witness:
  "\<exists>n t L'. ticks n serving = Some t \<and> rpc_inv t L' M0 (\<lambda>_. []) \<and> set (concat L') = {}"
  using silence_empties_table [OF serving_inv(1)] .

text \<open>C23: What \<^verbatim>\<open>cp_complete\<close> writes the reader reads back: the subport (opaque), the sequence number, the
  command and the fragment numbers, for 32-bit subports and sequence numbers.\<close>

theorem header_roundtrip:
  "parse_msg a n (cp_complete (ucast v) cmd (ucast w) f k @ rest)
     = \<lparr>m_n = n, m_ep = \<lparr>ep_addr = a, ep_subport = ucast v\<rparr>, m_seqno = ucast w, m_fnum = f, m_nfrags = k\<rparr>
   \<and> hdr_command (cp_complete (ucast v) cmd (ucast w) f k @ rest) = cmd" for v w :: u32
  by (simp add: parse_msg_def hdr_cp_complete endpoint_complete_def)

subsection \<open>Inputs on which the code misbehaves\<close>

text \<open>C32: The lookup in the connection table ignores the socket address of the peer: a message from
  another host that carries the subport of a connection and falls into its bucket is taken for
  that connection's (\<^verbatim>\<open>endpoint_equal\<close> compares the first address with itself).\<close>

theorem lookup_ignores_address:
  assumes "ctab_rep s L" "ep_subport e' = ep_subport e" "ep_bucket e' = ep_bucket e"
  shows "ctable_lookup e' s = ctable_lookup e s"
proof -
  have "ep_match s e' = ep_match s e" using assms(2) by (simp add: ep_match_def fun_eq_iff)
  then show ?thesis using ctable_lookup_rep [OF assms(1)] assms(3) by metis
qed

theorem lookup_ignores_address_witness:
  "ctable_lookup (peer (peer_addr\<lparr>sin_addr := 0x1200000a\<rparr>) 7) serving = ctable_lookup peer0 serving"
proof -
  have "ep_bucket (peer (peer_addr\<lparr>sin_addr := 0x1200000a\<rparr>) 7) = ep_bucket (peer peer_addr 7)"
    by (simp add: ep_bucket_def endpoint_hash_def peer_def peer_addr_def sockaddr_bytes_def le_bytes_def byte_simps)
  then show ?thesis
    using lookup_ignores_address [OF rpc_invD(1) [OF serving_inv(1)],
        of "peer (peer_addr\<lparr>sin_addr := 0x1200000a\<rparr>) 7" peer0]
    by (simp add: peer_def peer0_def)
qed

text \<open>C33: A connect request whose service name hashes to a negative number makes the reader index the
  service table out of bounds.\<close>

theorem connect_out_of_bounds:
  assumes "ctab_rep s L" "length (rxbuf s) = RX_SIZE" "length d < RX_SIZE" "CP_SIZE \<le> length d"
    "hdr_command d = CONNECT" "hash (takeWhile (\<lambda>c. c \<noteq> 0) (drop 12 d)) < 0"
  shows "reader_step (Some (a, d)) s = None"
proof -
  let ?s = "s\<lparr>rxbuf := d @ 0 # drop (Suc (length d)) (rxbuf s)\<rparr>"
  obtain p where "ctable_lookup (m_ep (parse_msg a (length d) d)) s = Some p"
    by (rule ctable_lookup_in [OF assms(1)])
  then have "ctable_lookup (m_ep (parse_msg a (length d) d)) ?s = Some p"
    using ctable_lookup_rxbuf [OF assms(1)] by simp
  then show ?thesis
    using receive_eq [OF assms(2,3)] assms(4,5,6)
    by (simp add: reader_step_def parse_msg_append dispatch_def on_connect_def cstr_at_datagram
        stable_lookup_out_of_bounds)
qed

definition aaa :: bytes where
  "aaa = [0x61, 0x61, 0x61, 0x61, 0x61, 0x61, 0x61, 0x61, 0x61, 0x61, 0x61, 0x61, 0x61]"

lemma hash_aaa: "hash aaa = - 3"
  by (simp add: hash_def hash_acc_def aaa_def Let_def)

theorem connect_out_of_bounds_witness:
  "reader_step (Some (peer_addr, connect_payload 7 41 aaa)) booted = None"
proof -
  let ?d = "connect_payload 7 41 aaa"
  have "drop 12 ?d = aaa @ [0]" "length ?d = 26" "hdr_command ?d = CONNECT"
    by (simp_all add: connect_payload_def hdr_cp_complete aaa_def)
  moreover have "takeWhile (\<lambda>c. c \<noteq> 0) (aaa @ [0]) = aaa" by (simp add: aaa_def)
  ultimately show ?thesis
    using connect_out_of_bounds [OF rpc_invD(1,4) [OF booted_inv], of ?d peer_addr] hash_aaa by simp
qed

text \<open>C34: A datagram of at least 10240 bytes makes the reader write a terminator behind its buffer.\<close>

theorem long_datagram_overflow:
  assumes "length (rxbuf s) = RX_SIZE" "RX_SIZE \<le> length d"
  shows "reader_step (Some (a, d)) s = None"
  using receive_overflow [OF assms] by (simp add: reader_step_def)

theorem long_datagram_overflow_witness:
  "reader_step (Some (peer_addr, replicate 10240 0)) booted = None"
  by (rule long_datagram_overflow) (use rpc_invD(4) [OF booted_inv] in simp_all)

text \<open>C35: A first fragment that is longer than the total length its header announces overflows the
  reassembly block.\<close>

theorem fragment_overflow:
  assumes "p \<noteq> NULL" "h_cr s p = Some c" "first_fragment m c"
    "DP_SIZE + unat (dhdr_tlen (rxbuf s)) < m_n m"
  shows "on_fragment m p s = None"
  using assms
  by (auto simp: on_fragment_def first_fragment_def Let_def copy_datagram_def mem_alloc_buf_def wr_def rd_def
      split: bind_splits)

theorem fragment_overflow_witness:
  "on_fragment \<lparr>m_n = 18, m_ep = peer0, m_seqno = 42, m_fnum = 1, m_nfrags = 2\<rparr> 5
     (serving\<lparr>rxbuf := data_packet 7 FRAGMENT 42 1 2 1 [1, 2]\<rparr>) = None"
proof -
  obtain x where x: "h_cr serving 5 = Some (record0\<lparr>cr_next := x\<rparr>)" using serving_inv(2) ..
  have "dhdr_tlen (data_packet 7 FRAGMENT 42 1 2 1 [1, 2]) = 1"
    using dhdr_data_packet(1) [of 1 "[1, 2]" 7 FRAGMENT 42 1 2 "[]"] by simp
  then show ?thesis
    by (intro fragment_overflow [where c = "record0\<lparr>cr_next := x\<rparr>"])
      (simp_all add: x first_fragment_def record0_def)
qed

text \<open>C36: A query sent to a record that is not bound to a service (the client's end of a connection)
  makes the reader dereference a NULL service pointer.\<close>

theorem query_to_client_crashes:
  assumes "heap_ok s" "p \<noteq> NULL" "h_cr s p = Some c" "cr_svc c = NULL" "cr_state c = ST_IDLE"
    "m_seqno m - cr_seqno c = 1" "\<not> oom s (nalloc s)" "m_n m \<le> length (rxbuf s)"
  shows "on_query m p s = None"
proof -
  have "h_sr s NULL = None" using heap_ok_range(3) [OF assms(1), of NULL] by (cases "h_sr s NULL") auto
  moreover have "on_query m p s = query_new m p (take (m_n m) (rxbuf s)) (of_nat (m_n m))
      (touched p (c\<lparr>cr_seqno := m_seqno m\<rparr>) (Suc (nalloc s)) s)"
    using assms by (intro on_query_new_eq) auto
  ultimately show ?thesis using assms(4)
    by (auto simp: query_new_def touched_def post_control_def cp_new_def crecord_setPayload_def mem_alloc_buf_def
        send_payload_def Let_def split: bind_splits if_splits)
qed

theorem query_to_client_crashes_witness:
  "on_query \<lparr>m_n = 16, m_ep = peer0, m_seqno = 42, m_fnum = 1, m_nfrags = 1\<rparr> 5
     (booted\<lparr>h_ep := [4 \<mapsto> peer0], h_cr := [5 \<mapsto> record0\<lparr>cr_svc := NULL\<rparr>], nalloc := 5\<rparr>) = None"
proof -
  have "heap_ok (booted\<lparr>h_ep := [4 \<mapsto> peer0], h_cr := [5 \<mapsto> record0\<lparr>cr_svc := NULL\<rparr>], nalloc := 5\<rparr>)"
    using rpc_invD(5) [OF booted_inv] by (auto simp: heap_ok_def)
  then show ?thesis
    by (rule query_to_client_crashes [where c = "record0\<lparr>cr_svc := NULL\<rparr>"])
      (use rpc_invD(4) [OF booted_inv] in \<open>simp_all add: record0_def\<close>)
qed

text \<open>C37: A call with an empty query computes zero fragments and a last fragment of 1024 bytes, which it
  copies from the caller's empty buffer.\<close>

theorem empty_query_overread:
  assumes "fr_data f = []" "fr_len f = 0"
  shows "frag_count (fr_len f) = 0 \<and> last_len (fr_len f) (frag_count (fr_len f)) = 1024 \<and> call_start f s = None"
proof -
  have n: "frag_count 0 = 0" "last_len 0 0 = 1024" by (simp_all add: frag_count_def last_len_def)
  have "post_data g e sp cmd seqno fnum 1024 sz t = None" if "fr_data g = []" for g e sp cmd seqno fnum sz t
    using that by (auto simp: post_data_def data_payload_def rd_def Let_def split: bind_splits)
  then have "call_start f s = None"
    using assms n by (auto simp: call_start_def call_send_def Let_def split: bind_splits)
  then show ?thesis using assms n by simp
qed

theorem empty_query_overread_witness:
  "call_start \<lparr>fr_ep = 4, fr_cr = 5, fr_data = [], fr_len = 0, fr_nfrags = 0, fr_seqno = 0, fr_rsize = 0\<rparr> serving = None"
  using empty_query_overread
    [of "\<lparr>fr_ep = 4, fr_cr = 5, fr_data = [], fr_len = 0, fr_nfrags = 0, fr_seqno = 0, fr_rsize = 0\<rparr>"] by simp

text \<open>C38: A connect to a host that does not resolve dereferences a NULL endpoint.\<close>

theorem unresolved_host_crashes:
  assumes "heap_ok s" "resolve host = None"
  shows "rpc_connect pid resolve host port svc seqno s = None"
proof -
  have "h_ep s NULL = None" using heap_ok_range(1) [OF assms(1), of NULL] by (cases "h_ep s NULL") auto
  then show ?thesis using assms(2)
    by (simp add: rpc_connect_def rpc_socket_def ctable_newSubport_def mem_alloc_buf_def Let_def)
qed

theorem unresolved_host_crashes_witness:
  "rpc_connect 1 (\<lambda>_. None) hwdb 987 hwdb 41 booted = None"
  using unresolved_host_crashes [OF rpc_invD(5) [OF booted_inv], of "\<lambda>_. None"] by simp

text \<open>In a process whose number has bit 15 set, the subport of a new connection is sign-extended to
  64 bits, so it differs from the 32-bit value that every reply carries, and no reply is ever
  matched to the connection.\<close>

lemma subport_sign_extension:
  assumes "bit pid 15" "ctable_newSubport pid s = (sp, t)"
  shows "ep_subport (m_ep (parse_msg a n (cp_complete sp cmd sn f k))) \<noteq> sp"
proof -
  let ?c = "(let c = ctr s + 1 in if c > 0x7fff then 1 else c) :: u16"
  have sp: "sp = scast (push_bit 16 (pid AND 0xffff) OR ucast ?c :: u32)"
    using assms(2) by (simp add: ctable_newSubport_def Let_def)
  have "bit (push_bit 16 (pid AND 0xffff) OR ucast ?c :: u32) 31"
    using assms(1) by (simp add: bit_simps mask_eq_exp_minus_1 [symmetric])
  then have "bit sp 32" unfolding sp by (simp add: bit_simps)
  moreover have "ep_subport (m_ep (parse_msg a n (cp_complete sp cmd sn f k))) = ucast (ucast sp :: u32)"
    using hdr_cp_complete(1) [of sp cmd sn f k "[]"] by (simp add: parse_msg_def endpoint_complete_def)
  moreover have "\<not> bit (ucast (ucast sp :: u32) :: u64) 32" by (simp add: bit_simps)
  ultimately show ?thesis by metis
qed

lemma subport_sign_extension_witness:
  "ep_subport (m_ep (parse_msg peer_addr 12 (cp_complete (fst (ctable_newSubport 0x8001 booted)) CACK 41 1 1)))
     \<noteq> fst (ctable_newSubport 0x8001 booted)"
  by (rule subport_sign_extension [where pid = "0x8001" and s = booted and t = "snd (ctable_newSubport 0x8001 booted)"])
    (simp_all add: bit_numeral_rec)

text \<open>C39: Once the acknowledgement of a disconnect has arrived, a timer tick that runs before the waiting
  thread frees the record that this thread then reads.\<close>

theorem disconnect_use_after_free:
  assumes "rpc_inv s L M C" "cr \<in> set (concat L)" "h_cr s cr = Some c" "cr_state c = ST_TIMEDOUT"
  shows "rpc_disconnect_resume cr s = Some (Ready ())
     \<and> (\<exists>t. timer_tick s = Some t \<and> rpc_disconnect_resume cr t = None)"
proof -
  have "verdict s cr = Purge" using assms(3,4) by (simp add: verdict_def scan_record_def)
  then have "cr \<in> set (selected s L Purge)" using assms(2) by (auto simp: selected_def)
  moreover obtain t where t: "timer_tick s = Some t" "\<forall>q\<in>set (selected s L Purge). h_cr t q = None"
    using timer_tick_ok [OF assms(1)] by blast
  ultimately have "rpc_disconnect_resume cr t = None"
    by (simp add: rpc_disconnect_resume_def crecord_waitForState_eq)
  moreover have "rpc_disconnect_resume cr s = Some (Ready ())"
    using assms(3,4) by (simp add: rpc_disconnect_resume_def crecord_waitForState_eq)
  ultimately show ?thesis using t(1) by blast
qed

definition leaving :: rpc where
  "leaving = the (crecord_setState 5 ST_TIMEDOUT serving)"

theorem disconnect_use_after_free_witness:
  "\<exists>t. timer_tick leaving = Some t \<and> rpc_disconnect_resume 5 t = None"
proof -
  obtain x where x: "h_cr serving 5 = Some (record0\<lparr>cr_next := x\<rparr>)" using serving_inv(2) ..
  have m: "5 \<in> set (concat L0)"
    by (simp, rule bexI [of _ "[5]"]) (simp_all add: set_update_memI)
  obtain t where t: "crecord_setState 5 ST_TIMEDOUT serving = Some t" "rpc_inv t L0 M0 (\<lambda>_. [])"
    using rpc_ok_setState [OF serving_inv(1) m, of ST_TIMEDOUT] by auto
  then have "rpc_inv leaving L0 M0 (\<lambda>_. [])" by (simp add: leaving_def)
  moreover have "h_cr leaving 5 = Some (set_state ST_TIMEDOUT (record0\<lparr>cr_next := x\<rparr>))"
    using x by (simp add: leaving_def crecord_setState_def)
  ultimately show ?thesis
    using disconnect_use_after_free [of leaving L0 M0 "\<lambda>_. []" 5, OF _ m] by simp
qed

end
