(* ===== verification/Ipq_Bitmask.thy ===== *)
theory Ipq_Bitmask
  imports Prelude
begin

text \<open>
  The protocol bitmasks of \<^verbatim>\<open>ipq_macros.h\<close> in the configuration of \<^verbatim>\<open>ipq_protocols_osdpi.h\<close>: 101
  protocols, hence the variant with two 64-bit words. One definition per macro. The locale
  \<open>protocol_sets\<close> is the contract of the macros as operations on sets of protocol numbers; it is
  interpreted on them.
\<close>

abbreviation (input) IPOQUE_MAX_SUPPORTED_PROTOCOLS :: nat where "IPOQUE_MAX_SUPPORTED_PROTOCOLS \<equiv> 101"

record protocol_bitmask =
  bm0 :: u64
  bm1 :: u64

subsection \<open>The macros\<close>

text \<open>\<^verbatim>\<open>bitmask[(value) >> 6]\<close> and its update; a value of 128 or more would be outside the array.\<close>

definition bm_word :: "protocol_bitmask \<Rightarrow> nat \<Rightarrow> u64" where
  "bm_word b v = (if v div 64 = 0 then bm0 b else bm1 b)"

definition bm_word_upd :: "nat \<Rightarrow> u64 \<Rightarrow> protocol_bitmask \<Rightarrow> protocol_bitmask" where
  "bm_word_upd v w b = (if v div 64 = 0 then b\<lparr>bm0 := w\<rparr> else b\<lparr>bm1 := w\<rparr>)"

definition bm_bit :: "nat \<Rightarrow> u64" where
  "bm_bit v = push_bit (v mod 64) 1"

definition IPOQUE_SAVE_AS_BITMASK :: "nat \<Rightarrow> protocol_bitmask" where
  "IPOQUE_SAVE_AS_BITMASK v = bm_word_upd v (bm_bit v) \<lparr>bm0 = 0, bm1 = 0\<rparr>"

definition IPOQUE_ADD_PROTOCOL_TO_BITMASK :: "nat \<Rightarrow> protocol_bitmask \<Rightarrow> protocol_bitmask" where
  "IPOQUE_ADD_PROTOCOL_TO_BITMASK v b = bm_word_upd v (bm_word b v OR bm_bit v) b"

definition IPOQUE_DEL_PROTOCOL_FROM_BITMASK :: "nat \<Rightarrow> protocol_bitmask \<Rightarrow> protocol_bitmask" where
  "IPOQUE_DEL_PROTOCOL_FROM_BITMASK v b = bm_word_upd v (bm_word b v AND NOT (bm_bit v)) b"

definition IPOQUE_COMPARE_PROTOCOL_TO_BITMASK :: "protocol_bitmask \<Rightarrow> nat \<Rightarrow> u64" where
  "IPOQUE_COMPARE_PROTOCOL_TO_BITMASK b v = bm_word b v AND bm_bit v"

definition IPOQUE_BITMASK_COMPARE :: "protocol_bitmask \<Rightarrow> protocol_bitmask \<Rightarrow> bool" where
  "IPOQUE_BITMASK_COMPARE a b \<longleftrightarrow> bm0 a AND bm0 b \<noteq> 0 \<or> bm1 a AND bm1 b \<noteq> 0"

definition IPOQUE_BITMASK_MATCH :: "protocol_bitmask \<Rightarrow> protocol_bitmask \<Rightarrow> bool" where
  "IPOQUE_BITMASK_MATCH a b \<longleftrightarrow> bm0 a = bm0 b \<and> bm1 a = bm1 b"

definition IPOQUE_BITMASK_CONTAINS_BITMASK :: "protocol_bitmask \<Rightarrow> protocol_bitmask \<Rightarrow> bool" where
  "IPOQUE_BITMASK_CONTAINS_BITMASK a b \<longleftrightarrow> bm0 a AND bm0 b = bm0 b \<and> bm1 a AND bm1 b = bm1 b"

definition IPOQUE_BITMASK_ADD :: "protocol_bitmask \<Rightarrow> protocol_bitmask \<Rightarrow> protocol_bitmask" where
  "IPOQUE_BITMASK_ADD a b = \<lparr>bm0 = bm0 a OR bm0 b, bm1 = bm1 a OR bm1 b\<rparr>"

definition IPOQUE_BITMASK_AND :: "protocol_bitmask \<Rightarrow> protocol_bitmask \<Rightarrow> protocol_bitmask" where
  "IPOQUE_BITMASK_AND a b = \<lparr>bm0 = bm0 a AND bm0 b, bm1 = bm1 a AND bm1 b\<rparr>"

definition IPOQUE_BITMASK_DEL :: "protocol_bitmask \<Rightarrow> protocol_bitmask \<Rightarrow> protocol_bitmask" where
  "IPOQUE_BITMASK_DEL a b = \<lparr>bm0 = bm0 a AND NOT (bm0 b), bm1 = bm1 a AND NOT (bm1 b)\<rparr>"

definition IPOQUE_BITMASK_SET :: "protocol_bitmask \<Rightarrow> protocol_bitmask" where
  "IPOQUE_BITMASK_SET b = \<lparr>bm0 = bm0 b, bm1 = bm1 b\<rparr>"

definition IPOQUE_BITMASK_RESET :: protocol_bitmask where
  "IPOQUE_BITMASK_RESET = \<lparr>bm0 = 0, bm1 = 0\<rparr>"

definition IPOQUE_BITMASK_SET_ALL :: protocol_bitmask where
  "IPOQUE_BITMASK_SET_ALL = \<lparr>bm0 = 0xFFFFFFFFFFFFFFFF, bm1 = 0xFFFFFFFFFFFFFFFF\<rparr>"

definition IPOQUE_BITMASK_IS_ZERO :: "protocol_bitmask \<Rightarrow> bool" where
  "IPOQUE_BITMASK_IS_ZERO a \<longleftrightarrow> bm0 a = 0 \<and> bm1 a = 0"

definition IPOQUE_BITMASK_CONTAINS_NEGATED_BITMASK :: "protocol_bitmask \<Rightarrow> protocol_bitmask \<Rightarrow> bool" where
  "IPOQUE_BITMASK_CONTAINS_NEGATED_BITMASK a b \<longleftrightarrow>
     bm0 a AND NOT (bm0 b) = NOT (bm0 b) \<and> bm1 a AND NOT (bm1 b) = NOT (bm1 b)"

lemmas bitmask_defs =
  IPOQUE_SAVE_AS_BITMASK_def IPOQUE_ADD_PROTOCOL_TO_BITMASK_def IPOQUE_DEL_PROTOCOL_FROM_BITMASK_def
  IPOQUE_COMPARE_PROTOCOL_TO_BITMASK_def IPOQUE_BITMASK_COMPARE_def IPOQUE_BITMASK_MATCH_def
  IPOQUE_BITMASK_CONTAINS_BITMASK_def IPOQUE_BITMASK_ADD_def IPOQUE_BITMASK_AND_def IPOQUE_BITMASK_DEL_def
  IPOQUE_BITMASK_SET_def IPOQUE_BITMASK_RESET_def IPOQUE_BITMASK_SET_ALL_def IPOQUE_BITMASK_IS_ZERO_def
  IPOQUE_BITMASK_CONTAINS_NEGATED_BITMASK_def bm_word_def bm_word_upd_def bm_bit_def

subsection \<open>The set of a bitmask\<close>

definition bm_has :: "protocol_bitmask \<Rightarrow> nat \<Rightarrow> bool" where
  "bm_has b v \<longleftrightarrow> v < 128 \<and> bit (bm_word b v) (v mod 64)"

definition bm_set :: "protocol_bitmask \<Rightarrow> nat set" where
  "bm_set b = {v. bm_has b v}"

lemma bm_has_less: "bm_has b v \<Longrightarrow> v < 128"
  by (simp add: bm_has_def)

lemma u64_eqI: "(\<And>n. n < 64 \<Longrightarrow> bit (a :: u64) n \<longleftrightarrow> bit b n) \<Longrightarrow> a = b"
  by (rule bit_word_eqI) simp

lemma bm_has_lo: "n < 64 \<Longrightarrow> bm_has b n \<longleftrightarrow> bit (bm0 b) n"
  by (simp add: bm_has_def bm_word_def)

lemma bm_has_hi: "n < 64 \<Longrightarrow> bm_has b (64 + n) \<longleftrightarrow> bit (bm1 b) n"
proof -
  assume "n < 64"
  moreover have "(64 + n) div 64 = Suc (n div 64)" by simp
  ultimately show ?thesis by (simp add: bm_has_def bm_word_def del: div_add_self1)
qed

lemma bm_less_cases:
  assumes "v < (128 :: nat)"
  obtains (lo) "v < 64" | (hi) n where "v = 64 + n" "n < 64"
proof (cases "v < 64")
  case False
  then have "v = 64 + (v - 64)" "v - 64 < 64" using assms by auto
  then show thesis by (rule hi)
qed (rule lo)

lemma bm_set_eqI: "bm_set a = bm_set b \<longleftrightarrow> a = b"
proof
  assume "bm_set a = bm_set b"
  then have h: "bm_has a v \<longleftrightarrow> bm_has b v" for v by (auto simp: bm_set_def)
  have "bm0 a = bm0 b" by (rule u64_eqI) (use h bm_has_lo in blast)
  moreover have "bm1 a = bm1 b" by (rule u64_eqI) (use h bm_has_hi in blast)
  ultimately show "a = b" by simp
qed simp

lemma bm_has_upd:
  assumes "v < 128" "u < 128"
  shows "bm_has (bm_word_upd v w b) u \<longleftrightarrow> (if u div 64 = v div 64 then bit w (u mod 64) else bm_has b u)"
  using assms by (auto simp: bm_has_def bm_word_def bm_word_upd_def div_nat_eqI)

lemma bit_bm_bit: "bit (bm_bit v) n \<longleftrightarrow> n = v mod 64"
  by (auto simp: bm_bit_def bit_simps)

lemma same_protocol: "u div 64 = v div 64 \<Longrightarrow> u mod 64 = v mod 64 \<longleftrightarrow> u = (v :: nat)"
  by (metis mult_div_mod_eq)

lemma bm_has_add: "v < 128 \<Longrightarrow> bm_has (IPOQUE_ADD_PROTOCOL_TO_BITMASK v b) u \<longleftrightarrow> u = v \<or> bm_has b u"
proof (cases "u < 128")
  case True
  assume v: "v < 128"
  have "bm_word b v = bm_word b u" if "u div 64 = v div 64" using that by (simp add: bm_word_def)
  then show ?thesis using v True same_protocol [of u v]
    unfolding IPOQUE_ADD_PROTOCOL_TO_BITMASK_def bm_has_upd [OF v True]
    by (auto simp: bit_bm_bit bit_or_iff bit_and_iff bit_not_iff bm_has_def)
qed (auto simp: bm_has_def)

lemma bm_has_del: "v < 128 \<Longrightarrow> bm_has (IPOQUE_DEL_PROTOCOL_FROM_BITMASK v b) u \<longleftrightarrow> u \<noteq> v \<and> bm_has b u"
proof (cases "u < 128")
  case True
  assume v: "v < 128"
  have "bm_word b v = bm_word b u" if "u div 64 = v div 64" using that by (simp add: bm_word_def)
  then show ?thesis using v True same_protocol [of u v]
    unfolding IPOQUE_DEL_PROTOCOL_FROM_BITMASK_def bm_has_upd [OF v True]
    by (auto simp: bit_bm_bit bit_or_iff bit_and_iff bit_not_iff bm_has_def)
qed (auto simp: bm_has_def)

lemma bm_has_save: "v < 128 \<Longrightarrow> bm_has (IPOQUE_SAVE_AS_BITMASK v) u \<longleftrightarrow> u = v"
proof (cases "u < 128")
  case True
  assume v: "v < 128"
  have "\<not> bm_has \<lparr>bm0 = 0, bm1 = 0\<rparr> u" by (simp add: bm_has_def bm_word_def)
  then show ?thesis using v True same_protocol [of u v]
    by (auto simp: IPOQUE_SAVE_AS_BITMASK_def bm_has_upd bit_bm_bit)
qed (auto simp: bm_has_def)

lemma bm_has_word_ops:
  "bm_has (IPOQUE_BITMASK_ADD a b) u \<longleftrightarrow> bm_has a u \<or> bm_has b u"
  "bm_has (IPOQUE_BITMASK_AND a b) u \<longleftrightarrow> bm_has a u \<and> bm_has b u"
  "bm_has (IPOQUE_BITMASK_DEL a b) u \<longleftrightarrow> bm_has a u \<and> \<not> bm_has b u"
  "\<not> bm_has IPOQUE_BITMASK_RESET u"
  by (auto simp: bm_has_def bm_word_def IPOQUE_BITMASK_ADD_def IPOQUE_BITMASK_AND_def
      IPOQUE_BITMASK_DEL_def IPOQUE_BITMASK_RESET_def bit_simps)

lemma bm_has_set_all: "bm_has IPOQUE_BITMASK_SET_ALL u \<longleftrightarrow> u < 128"
proof -
  have "(0xFFFFFFFFFFFFFFFF :: u64) = mask 64" by (simp add: mask_eq_exp_minus_1)
  then have "bit (0xFFFFFFFFFFFFFFFF :: u64) n" if "n < 64" for n using that by (simp only: bit_mask_iff) simp
  then show ?thesis by (auto simp: bm_has_def bm_word_def IPOQUE_BITMASK_SET_ALL_def)
qed

lemma u64_and_nonzero: "(a :: u64) AND b \<noteq> 0 \<longleftrightarrow> (\<exists>n<64. bit a n \<and> bit b n)"
  by (auto simp: bit_eq_iff bit_and_iff dest: bit_imp_le_length)

lemma compare_protocol: "v < 128 \<Longrightarrow> IPOQUE_COMPARE_PROTOCOL_TO_BITMASK b v \<noteq> 0 \<longleftrightarrow> bm_has b v"
proof -
  assume "v < 128"
  have "IPOQUE_COMPARE_PROTOCOL_TO_BITMASK b v \<noteq> 0 \<longleftrightarrow> bit (bm_word b v) (v mod 64)"
    by (simp add: IPOQUE_COMPARE_PROTOCOL_TO_BITMASK_def u64_and_nonzero bit_bm_bit)
  with \<open>v < 128\<close> show ?thesis by (simp add: bm_has_def)
qed

lemma bitmask_compare: "IPOQUE_BITMASK_COMPARE a b \<longleftrightarrow> (\<exists>v. bm_has a v \<and> bm_has b v)"
proof
  assume "IPOQUE_BITMASK_COMPARE a b"
  then show "\<exists>v. bm_has a v \<and> bm_has b v"
    unfolding IPOQUE_BITMASK_COMPARE_def u64_and_nonzero using bm_has_lo bm_has_hi by metis
next
  assume "\<exists>v. bm_has a v \<and> bm_has b v"
  then obtain v where v: "bm_has a v" "bm_has b v" by blast
  show "IPOQUE_BITMASK_COMPARE a b"
    using bm_has_less [OF v(1)]
  proof (cases rule: bm_less_cases)
    case lo
    then show ?thesis using v unfolding IPOQUE_BITMASK_COMPARE_def u64_and_nonzero by (metis bm_has_lo)
  next
    case (hi n)
    then show ?thesis using v unfolding IPOQUE_BITMASK_COMPARE_def u64_and_nonzero by (metis bm_has_hi)
  qed
qed

subsection \<open>The contract of the macros\<close>

locale protocol_sets =
  fixes elems :: "'b \<Rightarrow> nat set"
    and single :: "nat \<Rightarrow> 'b"
    and insert_op delete_op :: "nat \<Rightarrow> 'b \<Rightarrow> 'b"
    and member :: "'b \<Rightarrow> nat \<Rightarrow> bool"
    and meets :: "'b \<Rightarrow> 'b \<Rightarrow> bool"
    and union_op minus_op :: "'b \<Rightarrow> 'b \<Rightarrow> 'b"
    and empty :: 'b
    and bound :: nat
  assumes single_law: "v < bound \<Longrightarrow> elems (single v) = {v}"
    and insert_law: "v < bound \<Longrightarrow> elems (insert_op v b) = insert v (elems b)"
    and delete_law: "v < bound \<Longrightarrow> elems (delete_op v b) = elems b - {v}"
    and member_law: "v < bound \<Longrightarrow> member b v \<longleftrightarrow> v \<in> elems b"
    and meets_law: "meets a b \<longleftrightarrow> elems a \<inter> elems b \<noteq> {}"
    and union_law: "elems (union_op a b) = elems a \<union> elems b"
    and minus_law: "elems (minus_op a b) = elems a - elems b"
    and empty_law: "elems empty = {}"
begin

lemma inserts_elems:
  "\<forall>v\<in>set vs. v < bound \<Longrightarrow> elems (fold insert_op vs b) = set vs \<union> elems b"
  by (induction vs arbitrary: b) (auto simp: insert_law)

lemma deletes_elems:
  "\<forall>v\<in>set vs. v < bound \<Longrightarrow> elems (fold delete_op vs b) = elems b - set vs"
  by (induction vs arbitrary: b) (auto simp: delete_law)

lemma meets_single: "v < bound \<Longrightarrow> meets (single v) b \<longleftrightarrow> member b v"
  by (simp add: meets_law single_law member_law)

lemma member_insert:
  "u < bound \<Longrightarrow> v < bound \<Longrightarrow> member (insert_op v b) u \<longleftrightarrow> u = v \<or> member b u"
  by (simp add: member_law insert_law)

end

interpretation bm: protocol_sets bm_set IPOQUE_SAVE_AS_BITMASK IPOQUE_ADD_PROTOCOL_TO_BITMASK
  IPOQUE_DEL_PROTOCOL_FROM_BITMASK "\<lambda>b v. IPOQUE_COMPARE_PROTOCOL_TO_BITMASK b v \<noteq> 0" IPOQUE_BITMASK_COMPARE
  IPOQUE_BITMASK_ADD IPOQUE_BITMASK_DEL IPOQUE_BITMASK_RESET 128
  by unfold_locales
    (auto simp: bm_set_def bm_has_save bm_has_add bm_has_del compare_protocol bitmask_compare bm_has_word_ops)

lemma bitmask_contains: "IPOQUE_BITMASK_CONTAINS_BITMASK a b \<longleftrightarrow> bm_set b \<subseteq> bm_set a"
proof -
  have "IPOQUE_BITMASK_CONTAINS_BITMASK a b \<longleftrightarrow> IPOQUE_BITMASK_AND a b = b"
    by (cases b) (auto simp: IPOQUE_BITMASK_CONTAINS_BITMASK_def IPOQUE_BITMASK_AND_def)
  also have "\<dots> \<longleftrightarrow> bm_set (IPOQUE_BITMASK_AND a b) = bm_set b" by (simp add: bm_set_eqI)
  also have "\<dots> \<longleftrightarrow> bm_set b \<subseteq> bm_set a" by (auto simp: bm_set_def bm_has_word_ops)
  finally show ?thesis .
qed

end
