(* ===== verification/Ipq_Callbacks.thy ===== *)
theory Ipq_Callbacks
  imports Ipq_Bitmask
begin

text \<open>
  The registration of the protocol dissectors: \<^verbatim>\<open>ipoque_set_protocol_detection_bitmask2\<close> of
  \<^verbatim>\<open>ipq_main.c\<close>. For each protocol the function has a block that, if the protocol is enabled, fills the
  next entry of the array \<^verbatim>\<open>callback_buffer\<close> (a dissector, the packets it wants to see, the states of the
  flow in which it runs, the protocols that exclude it); then it copies the entries for TCP with
  payload, TCP without payload, UDP and the rest into four arrays of their own. All protocols of
  \<^verbatim>\<open>ipq_protocols_osdpi.h\<close> are compiled in.

  A block is data (\<open>reg_block\<close>), executed by \<open>exec_block\<close> on the array with its old contents; a write
  outside an array is undefined.
\<close>

subsection \<open>Protocol numbers and packet classes\<close>

abbreviation (input) IPOQUE_PROTOCOL_UNKNOWN :: nat where "IPOQUE_PROTOCOL_UNKNOWN \<equiv> 0"
abbreviation (input) IPOQUE_PROTOCOL_FTP :: nat where "IPOQUE_PROTOCOL_FTP \<equiv> 1"
abbreviation (input) IPOQUE_PROTOCOL_MAIL_POP :: nat where "IPOQUE_PROTOCOL_MAIL_POP \<equiv> 2"
abbreviation (input) IPOQUE_PROTOCOL_MAIL_SMTP :: nat where "IPOQUE_PROTOCOL_MAIL_SMTP \<equiv> 3"
abbreviation (input) IPOQUE_PROTOCOL_MAIL_IMAP :: nat where "IPOQUE_PROTOCOL_MAIL_IMAP \<equiv> 4"
abbreviation (input) IPOQUE_PROTOCOL_DNS :: nat where "IPOQUE_PROTOCOL_DNS \<equiv> 5"
abbreviation (input) IPOQUE_PROTOCOL_IPP :: nat where "IPOQUE_PROTOCOL_IPP \<equiv> 6"
abbreviation (input) IPOQUE_PROTOCOL_HTTP :: nat where "IPOQUE_PROTOCOL_HTTP \<equiv> 7"
abbreviation (input) IPOQUE_PROTOCOL_MDNS :: nat where "IPOQUE_PROTOCOL_MDNS \<equiv> 8"
abbreviation (input) IPOQUE_PROTOCOL_NTP :: nat where "IPOQUE_PROTOCOL_NTP \<equiv> 9"
abbreviation (input) IPOQUE_PROTOCOL_NETBIOS :: nat where "IPOQUE_PROTOCOL_NETBIOS \<equiv> 10"
abbreviation (input) IPOQUE_PROTOCOL_NFS :: nat where "IPOQUE_PROTOCOL_NFS \<equiv> 11"
abbreviation (input) IPOQUE_PROTOCOL_SSDP :: nat where "IPOQUE_PROTOCOL_SSDP \<equiv> 12"
abbreviation (input) IPOQUE_PROTOCOL_BGP :: nat where "IPOQUE_PROTOCOL_BGP \<equiv> 13"
abbreviation (input) IPOQUE_PROTOCOL_SNMP :: nat where "IPOQUE_PROTOCOL_SNMP \<equiv> 14"
abbreviation (input) IPOQUE_PROTOCOL_XDMCP :: nat where "IPOQUE_PROTOCOL_XDMCP \<equiv> 15"
abbreviation (input) IPOQUE_PROTOCOL_SMB :: nat where "IPOQUE_PROTOCOL_SMB \<equiv> 16"
abbreviation (input) IPOQUE_PROTOCOL_SYSLOG :: nat where "IPOQUE_PROTOCOL_SYSLOG \<equiv> 17"
abbreviation (input) IPOQUE_PROTOCOL_DHCP :: nat where "IPOQUE_PROTOCOL_DHCP \<equiv> 18"
abbreviation (input) IPOQUE_PROTOCOL_POSTGRES :: nat where "IPOQUE_PROTOCOL_POSTGRES \<equiv> 19"
abbreviation (input) IPOQUE_PROTOCOL_MYSQL :: nat where "IPOQUE_PROTOCOL_MYSQL \<equiv> 20"
abbreviation (input) IPOQUE_PROTOCOL_TDS :: nat where "IPOQUE_PROTOCOL_TDS \<equiv> 21"
abbreviation (input) IPOQUE_PROTOCOL_DIRECT_DOWNLOAD_LINK :: nat where "IPOQUE_PROTOCOL_DIRECT_DOWNLOAD_LINK \<equiv> 22"
abbreviation (input) IPOQUE_PROTOCOL_I23V5 :: nat where "IPOQUE_PROTOCOL_I23V5 \<equiv> 23"
abbreviation (input) IPOQUE_PROTOCOL_APPLEJUICE :: nat where "IPOQUE_PROTOCOL_APPLEJUICE \<equiv> 24"
abbreviation (input) IPOQUE_PROTOCOL_DIRECTCONNECT :: nat where "IPOQUE_PROTOCOL_DIRECTCONNECT \<equiv> 25"
abbreviation (input) IPOQUE_PROTOCOL_SOCRATES :: nat where "IPOQUE_PROTOCOL_SOCRATES \<equiv> 26"
abbreviation (input) IPOQUE_PROTOCOL_WINMX :: nat where "IPOQUE_PROTOCOL_WINMX \<equiv> 27"
abbreviation (input) IPOQUE_PROTOCOL_MANOLITO :: nat where "IPOQUE_PROTOCOL_MANOLITO \<equiv> 28"
abbreviation (input) IPOQUE_PROTOCOL_PANDO :: nat where "IPOQUE_PROTOCOL_PANDO \<equiv> 29"
abbreviation (input) IPOQUE_PROTOCOL_FILETOPIA :: nat where "IPOQUE_PROTOCOL_FILETOPIA \<equiv> 30"
abbreviation (input) IPOQUE_PROTOCOL_IMESH :: nat where "IPOQUE_PROTOCOL_IMESH \<equiv> 31"
abbreviation (input) IPOQUE_PROTOCOL_KONTIKI :: nat where "IPOQUE_PROTOCOL_KONTIKI \<equiv> 32"
abbreviation (input) IPOQUE_PROTOCOL_OPENFT :: nat where "IPOQUE_PROTOCOL_OPENFT \<equiv> 33"
abbreviation (input) IPOQUE_PROTOCOL_FASTTRACK :: nat where "IPOQUE_PROTOCOL_FASTTRACK \<equiv> 34"
abbreviation (input) IPOQUE_PROTOCOL_GNUTELLA :: nat where "IPOQUE_PROTOCOL_GNUTELLA \<equiv> 35"
abbreviation (input) IPOQUE_PROTOCOL_EDONKEY :: nat where "IPOQUE_PROTOCOL_EDONKEY \<equiv> 36"
abbreviation (input) IPOQUE_PROTOCOL_BITTORRENT :: nat where "IPOQUE_PROTOCOL_BITTORRENT \<equiv> 37"
abbreviation (input) IPOQUE_PROTOCOL_OFF :: nat where "IPOQUE_PROTOCOL_OFF \<equiv> 38"
abbreviation (input) IPOQUE_PROTOCOL_AVI :: nat where "IPOQUE_PROTOCOL_AVI \<equiv> 39"
abbreviation (input) IPOQUE_PROTOCOL_FLASH :: nat where "IPOQUE_PROTOCOL_FLASH \<equiv> 40"
abbreviation (input) IPOQUE_PROTOCOL_OGG :: nat where "IPOQUE_PROTOCOL_OGG \<equiv> 41"
abbreviation (input) IPOQUE_PROTOCOL_MPEG :: nat where "IPOQUE_PROTOCOL_MPEG \<equiv> 42"
abbreviation (input) IPOQUE_PROTOCOL_QUICKTIME :: nat where "IPOQUE_PROTOCOL_QUICKTIME \<equiv> 43"
abbreviation (input) IPOQUE_PROTOCOL_REALMEDIA :: nat where "IPOQUE_PROTOCOL_REALMEDIA \<equiv> 44"
abbreviation (input) IPOQUE_PROTOCOL_WINDOWSMEDIA :: nat where "IPOQUE_PROTOCOL_WINDOWSMEDIA \<equiv> 45"
abbreviation (input) IPOQUE_PROTOCOL_MMS :: nat where "IPOQUE_PROTOCOL_MMS \<equiv> 46"
abbreviation (input) IPOQUE_PROTOCOL_XBOX :: nat where "IPOQUE_PROTOCOL_XBOX \<equiv> 47"
abbreviation (input) IPOQUE_PROTOCOL_QQ :: nat where "IPOQUE_PROTOCOL_QQ \<equiv> 48"
abbreviation (input) IPOQUE_PROTOCOL_MOVE :: nat where "IPOQUE_PROTOCOL_MOVE \<equiv> 49"
abbreviation (input) IPOQUE_PROTOCOL_RTSP :: nat where "IPOQUE_PROTOCOL_RTSP \<equiv> 50"
abbreviation (input) IPOQUE_PROTOCOL_FEIDIAN :: nat where "IPOQUE_PROTOCOL_FEIDIAN \<equiv> 51"
abbreviation (input) IPOQUE_PROTOCOL_ICECAST :: nat where "IPOQUE_PROTOCOL_ICECAST \<equiv> 52"
abbreviation (input) IPOQUE_PROTOCOL_PPLIVE :: nat where "IPOQUE_PROTOCOL_PPLIVE \<equiv> 53"
abbreviation (input) IPOQUE_PROTOCOL_PPSTREAM :: nat where "IPOQUE_PROTOCOL_PPSTREAM \<equiv> 54"
abbreviation (input) IPOQUE_PROTOCOL_ZATTOO :: nat where "IPOQUE_PROTOCOL_ZATTOO \<equiv> 55"
abbreviation (input) IPOQUE_PROTOCOL_SHOUTCAST :: nat where "IPOQUE_PROTOCOL_SHOUTCAST \<equiv> 56"
abbreviation (input) IPOQUE_PROTOCOL_SOPCAST :: nat where "IPOQUE_PROTOCOL_SOPCAST \<equiv> 57"
abbreviation (input) IPOQUE_PROTOCOL_TVANTS :: nat where "IPOQUE_PROTOCOL_TVANTS \<equiv> 58"
abbreviation (input) IPOQUE_PROTOCOL_TVUPLAYER :: nat where "IPOQUE_PROTOCOL_TVUPLAYER \<equiv> 59"
abbreviation (input) IPOQUE_PROTOCOL_VEOHTV :: nat where "IPOQUE_PROTOCOL_VEOHTV \<equiv> 60"
abbreviation (input) IPOQUE_PROTOCOL_QQLIVE :: nat where "IPOQUE_PROTOCOL_QQLIVE \<equiv> 61"
abbreviation (input) IPOQUE_PROTOCOL_THUNDER :: nat where "IPOQUE_PROTOCOL_THUNDER \<equiv> 62"
abbreviation (input) IPOQUE_PROTOCOL_SOULSEEK :: nat where "IPOQUE_PROTOCOL_SOULSEEK \<equiv> 63"
abbreviation (input) IPOQUE_PROTOCOL_GADUGADU :: nat where "IPOQUE_PROTOCOL_GADUGADU \<equiv> 64"
abbreviation (input) IPOQUE_PROTOCOL_IRC :: nat where "IPOQUE_PROTOCOL_IRC \<equiv> 65"
abbreviation (input) IPOQUE_PROTOCOL_POPO :: nat where "IPOQUE_PROTOCOL_POPO \<equiv> 66"
abbreviation (input) IPOQUE_PROTOCOL_UNENCRYPED_JABBER :: nat where "IPOQUE_PROTOCOL_UNENCRYPED_JABBER \<equiv> 67"
abbreviation (input) IPOQUE_PROTOCOL_MSN :: nat where "IPOQUE_PROTOCOL_MSN \<equiv> 68"
abbreviation (input) IPOQUE_PROTOCOL_OSCAR :: nat where "IPOQUE_PROTOCOL_OSCAR \<equiv> 69"
abbreviation (input) IPOQUE_PROTOCOL_YAHOO :: nat where "IPOQUE_PROTOCOL_YAHOO \<equiv> 70"
abbreviation (input) IPOQUE_PROTOCOL_BATTLEFIELD :: nat where "IPOQUE_PROTOCOL_BATTLEFIELD \<equiv> 71"
abbreviation (input) IPOQUE_PROTOCOL_QUAKE :: nat where "IPOQUE_PROTOCOL_QUAKE \<equiv> 72"
abbreviation (input) IPOQUE_PROTOCOL_SECONDLIFE :: nat where "IPOQUE_PROTOCOL_SECONDLIFE \<equiv> 73"
abbreviation (input) IPOQUE_PROTOCOL_STEAM :: nat where "IPOQUE_PROTOCOL_STEAM \<equiv> 74"
abbreviation (input) IPOQUE_PROTOCOL_HALFLIFE2 :: nat where "IPOQUE_PROTOCOL_HALFLIFE2 \<equiv> 75"
abbreviation (input) IPOQUE_PROTOCOL_WORLDOFWARCRAFT :: nat where "IPOQUE_PROTOCOL_WORLDOFWARCRAFT \<equiv> 76"
abbreviation (input) IPOQUE_PROTOCOL_TELNET :: nat where "IPOQUE_PROTOCOL_TELNET \<equiv> 77"
abbreviation (input) IPOQUE_PROTOCOL_STUN :: nat where "IPOQUE_PROTOCOL_STUN \<equiv> 78"
abbreviation (input) IPOQUE_PROTOCOL_IPSEC :: nat where "IPOQUE_PROTOCOL_IPSEC \<equiv> 79"
abbreviation (input) IPOQUE_PROTOCOL_GRE :: nat where "IPOQUE_PROTOCOL_GRE \<equiv> 80"
abbreviation (input) IPOQUE_PROTOCOL_ICMP :: nat where "IPOQUE_PROTOCOL_ICMP \<equiv> 81"
abbreviation (input) IPOQUE_PROTOCOL_IGMP :: nat where "IPOQUE_PROTOCOL_IGMP \<equiv> 82"
abbreviation (input) IPOQUE_PROTOCOL_EGP :: nat where "IPOQUE_PROTOCOL_EGP \<equiv> 83"
abbreviation (input) IPOQUE_PROTOCOL_SCTP :: nat where "IPOQUE_PROTOCOL_SCTP \<equiv> 84"
abbreviation (input) IPOQUE_PROTOCOL_OSPF :: nat where "IPOQUE_PROTOCOL_OSPF \<equiv> 85"
abbreviation (input) IPOQUE_PROTOCOL_IP_IN_IP :: nat where "IPOQUE_PROTOCOL_IP_IN_IP \<equiv> 86"
abbreviation (input) IPOQUE_PROTOCOL_RTP :: nat where "IPOQUE_PROTOCOL_RTP \<equiv> 87"
abbreviation (input) IPOQUE_PROTOCOL_RDP :: nat where "IPOQUE_PROTOCOL_RDP \<equiv> 88"
abbreviation (input) IPOQUE_PROTOCOL_VNC :: nat where "IPOQUE_PROTOCOL_VNC \<equiv> 89"
abbreviation (input) IPOQUE_PROTOCOL_PCANYWHERE :: nat where "IPOQUE_PROTOCOL_PCANYWHERE \<equiv> 90"
abbreviation (input) IPOQUE_PROTOCOL_SSL :: nat where "IPOQUE_PROTOCOL_SSL \<equiv> 91"
abbreviation (input) IPOQUE_PROTOCOL_SSH :: nat where "IPOQUE_PROTOCOL_SSH \<equiv> 92"
abbreviation (input) IPOQUE_PROTOCOL_USENET :: nat where "IPOQUE_PROTOCOL_USENET \<equiv> 93"
abbreviation (input) IPOQUE_PROTOCOL_MGCP :: nat where "IPOQUE_PROTOCOL_MGCP \<equiv> 94"
abbreviation (input) IPOQUE_PROTOCOL_IAX :: nat where "IPOQUE_PROTOCOL_IAX \<equiv> 95"
abbreviation (input) IPOQUE_PROTOCOL_TFTP :: nat where "IPOQUE_PROTOCOL_TFTP \<equiv> 96"
abbreviation (input) IPOQUE_PROTOCOL_AFP :: nat where "IPOQUE_PROTOCOL_AFP \<equiv> 97"
abbreviation (input) IPOQUE_PROTOCOL_STEALTHNET :: nat where "IPOQUE_PROTOCOL_STEALTHNET \<equiv> 98"
abbreviation (input) IPOQUE_PROTOCOL_AIMINI :: nat where "IPOQUE_PROTOCOL_AIMINI \<equiv> 99"
abbreviation (input) IPOQUE_PROTOCOL_SIP :: nat where "IPOQUE_PROTOCOL_SIP \<equiv> 100"
abbreviation (input) IPOQUE_PROTOCOL_TRUPHONE :: nat where "IPOQUE_PROTOCOL_TRUPHONE \<equiv> 101"

abbreviation (input) SEL_IP :: u32 where "SEL_IP \<equiv> 1"
abbreviation (input) SEL_INT_TCP :: u32 where "SEL_INT_TCP \<equiv> 2"
abbreviation (input) SEL_INT_UDP :: u32 where "SEL_INT_UDP \<equiv> 4"
abbreviation (input) SEL_INT_TCP_OR_UDP :: u32 where "SEL_INT_TCP_OR_UDP \<equiv> 8"
abbreviation (input) SEL_HAS_PAYLOAD :: u32 where "SEL_HAS_PAYLOAD \<equiv> 16"
abbreviation (input) SEL_NO_TCP_RETRANSMISSION :: u32 where "SEL_NO_TCP_RETRANSMISSION \<equiv> 32"
abbreviation (input) SEL_IPV6 :: u32 where "SEL_IPV6 \<equiv> 64"
abbreviation (input) SEL_IPV4_OR_IPV6 :: u32 where "SEL_IPV4_OR_IPV6 \<equiv> 128"
abbreviation (input) SEL_COMPLETE_TRAFFIC :: u32 where "SEL_COMPLETE_TRAFFIC \<equiv> 256"
abbreviation (input) SEL_V4_V6_TCP :: u32 where "SEL_V4_V6_TCP \<equiv> SEL_IPV4_OR_IPV6 OR SEL_INT_TCP"
abbreviation (input) SEL_V4_V6_TCP_WITH_PAYLOAD :: u32 where "SEL_V4_V6_TCP_WITH_PAYLOAD \<equiv> SEL_V4_V6_TCP OR SEL_HAS_PAYLOAD"
abbreviation (input) SEL_TCP :: u32 where "SEL_TCP \<equiv> SEL_IP OR SEL_INT_TCP"
abbreviation (input) SEL_TCP_WITH_PAYLOAD :: u32 where "SEL_TCP_WITH_PAYLOAD \<equiv> SEL_TCP OR SEL_HAS_PAYLOAD"
abbreviation (input) SEL_UDP :: u32 where "SEL_UDP \<equiv> SEL_IP OR SEL_INT_UDP"
abbreviation (input) SEL_UDP_WITH_PAYLOAD :: u32 where "SEL_UDP_WITH_PAYLOAD \<equiv> SEL_UDP OR SEL_HAS_PAYLOAD"
abbreviation (input) SEL_TCP_OR_UDP :: u32 where "SEL_TCP_OR_UDP \<equiv> SEL_IP OR SEL_INT_TCP_OR_UDP"
abbreviation (input) SEL_TCP_OR_UDP_WITH_PAYLOAD :: u32 where "SEL_TCP_OR_UDP_WITH_PAYLOAD \<equiv> SEL_TCP_OR_UDP OR SEL_HAS_PAYLOAD"
abbreviation (input) SEL_TCP_WITH_PAYLOAD_WITHOUT_RETRANSMISSION :: u32 where "SEL_TCP_WITH_PAYLOAD_WITHOUT_RETRANSMISSION \<equiv> SEL_TCP OR SEL_NO_TCP_RETRANSMISSION OR SEL_HAS_PAYLOAD"
abbreviation (input) SEL_TCP_OR_UDP_WITH_PAYLOAD_WITHOUT_RETRANSMISSION :: u32 where "SEL_TCP_OR_UDP_WITH_PAYLOAD_WITHOUT_RETRANSMISSION \<equiv> SEL_TCP_OR_UDP OR SEL_NO_TCP_RETRANSMISSION OR SEL_HAS_PAYLOAD"
abbreviation (input) SEL_TCP_OR_UDP_WITHOUT_RETRANSMISSION :: u32 where "SEL_TCP_OR_UDP_WITHOUT_RETRANSMISSION \<equiv> SEL_TCP_OR_UDP OR SEL_NO_TCP_RETRANSMISSION"
abbreviation (input) SEL_TCP_WITHOUT_RETRANSMISSION :: u32 where "SEL_TCP_WITHOUT_RETRANSMISSION \<equiv> SEL_TCP OR SEL_NO_TCP_RETRANSMISSION"
abbreviation (input) SEL_V4_V6_UDP :: u32 where "SEL_V4_V6_UDP \<equiv> SEL_IPV4_OR_IPV6 OR SEL_INT_UDP"
abbreviation (input) SEL_V4_V6_UDP_WITH_PAYLOAD :: u32 where "SEL_V4_V6_UDP_WITH_PAYLOAD \<equiv> SEL_V4_V6_UDP OR SEL_HAS_PAYLOAD"
abbreviation (input) SEL_V4_V6_TCP_WITH_PAYLOAD_WITHOUT_RETRANSMISSION :: u32 where "SEL_V4_V6_TCP_WITH_PAYLOAD_WITHOUT_RETRANSMISSION \<equiv> SEL_V4_V6_TCP OR SEL_NO_TCP_RETRANSMISSION OR SEL_HAS_PAYLOAD"

subsection \<open>Entries and arrays\<close>

record call_function =
  cf_detection :: protocol_bitmask
  cf_excluded :: protocol_bitmask
  cf_selection :: u32
  cf_func :: string

abbreviation (input) CALLBACKS :: nat where "CALLBACKS \<equiv> IPOQUE_MAX_SUPPORTED_PROTOCOLS + 1"

record callbacks =
  detection_bitmask :: protocol_bitmask
  generic_http_packet_bitmask :: protocol_bitmask
  callback_buffer :: "call_function list"
  callback_buffer_size :: nat
  callback_buffer_tcp_no_payload :: "call_function list"
  callback_buffer_size_tcp_no_payload :: nat
  callback_buffer_tcp_payload :: "call_function list"
  callback_buffer_size_tcp_payload :: nat
  callback_buffer_udp :: "call_function list"
  callback_buffer_size_udp :: nat
  callback_buffer_non_tcp_udp :: "call_function list"
  callback_buffer_size_non_tcp_udp :: nat

text \<open>The bitmask statements of a block.\<close>

datatype bm_op = Save nat | Add nat | Del nat | Reset

fun bm_apply :: "bm_op \<Rightarrow> protocol_bitmask \<Rightarrow> protocol_bitmask" where
  "bm_apply (Save v) b = IPOQUE_SAVE_AS_BITMASK v"
| "bm_apply (Add v) b = IPOQUE_ADD_PROTOCOL_TO_BITMASK v b"
| "bm_apply (Del v) b = IPOQUE_DEL_PROTOCOL_FROM_BITMASK v b"
| "bm_apply Reset b = IPOQUE_BITMASK_RESET"

text \<open>A block runs if one of the protocols \<open>rb_cond\<close> is enabled, or always if the list is empty
  (\<^verbatim>\<open>if (1)\<close>).\<close>

record reg_block =
  rb_cond :: "nat list"
  rb_func :: string
  rb_sel :: u32
  rb_det :: "bm_op list"
  rb_exc :: "bm_op list"

definition rb_enabled :: "protocol_bitmask \<Rightarrow> reg_block \<Rightarrow> bool" where
  "rb_enabled dbm b \<longleftrightarrow> rb_cond b = [] \<or> (\<exists>v\<in>set (rb_cond b). IPOQUE_COMPARE_PROTOCOL_TO_BITMASK dbm v \<noteq> 0)"

definition rb_fill :: "reg_block \<Rightarrow> call_function \<Rightarrow> call_function" where
  "rb_fill b e = \<lparr>cf_detection = fold bm_apply (rb_det b) (cf_detection e),
     cf_excluded = fold bm_apply (rb_exc b) (cf_excluded e), cf_selection = rb_sel b, cf_func = rb_func b\<rparr>"

definition exec_block ::
    "protocol_bitmask \<Rightarrow> reg_block \<Rightarrow> call_function list \<times> nat \<Rightarrow> (call_function list \<times> nat) option" where
  "exec_block dbm b st = (case st of (buf, a) \<Rightarrow>
     if rb_enabled dbm b
     then if a < length buf then Some (buf[a := rb_fill b (buf ! a)], Suc a) else None
     else Some (buf, a))"

fun exec_blocks ::
    "protocol_bitmask \<Rightarrow> reg_block list \<Rightarrow> call_function list \<times> nat \<Rightarrow> (call_function list \<times> nat) option" where
  "exec_blocks dbm [] st = Some st"
| "exec_blocks dbm (b # bs) st = do { st \<leftarrow> exec_block dbm b st; exec_blocks dbm bs st }"

subsection \<open>The blocks\<close>

text \<open>The dissector for HTTP also serves the protocols that run over HTTP; its exclusion bitmask starts
  from its detection bitmask.\<close>

definition http_protocols :: "nat list" where
  "http_protocols = [IPOQUE_PROTOCOL_MPEG, IPOQUE_PROTOCOL_FLASH, IPOQUE_PROTOCOL_QUICKTIME,
     IPOQUE_PROTOCOL_REALMEDIA, IPOQUE_PROTOCOL_WINDOWSMEDIA, IPOQUE_PROTOCOL_MMS, IPOQUE_PROTOCOL_OFF,
     IPOQUE_PROTOCOL_XBOX, IPOQUE_PROTOCOL_QQ, IPOQUE_PROTOCOL_AVI, IPOQUE_PROTOCOL_OGG,
     IPOQUE_PROTOCOL_MOVE, IPOQUE_PROTOCOL_RTSP]"

definition http_detection :: protocol_bitmask where
  "http_detection = fold IPOQUE_ADD_PROTOCOL_TO_BITMASK (IPOQUE_PROTOCOL_HTTP # http_protocols)
     (IPOQUE_SAVE_AS_BITMASK IPOQUE_PROTOCOL_UNKNOWN)"

definition http_entry :: call_function where
  "http_entry = \<lparr>cf_detection = http_detection,
     cf_excluded = fold IPOQUE_DEL_PROTOCOL_FROM_BITMASK
       [IPOQUE_PROTOCOL_UNKNOWN, IPOQUE_PROTOCOL_QQ, IPOQUE_PROTOCOL_FLASH, IPOQUE_PROTOCOL_MMS,
        IPOQUE_PROTOCOL_RTSP, IPOQUE_PROTOCOL_XBOX] http_detection,
     cf_selection = SEL_V4_V6_TCP_WITH_PAYLOAD, cf_func = ''ipoque_search_http_tcp''\<rparr>"

definition http_enabled :: "protocol_bitmask \<Rightarrow> bool" where
  "http_enabled dbm \<longleftrightarrow> (\<exists>v\<in>set (http_protocols @ [IPOQUE_PROTOCOL_HTTP]).
     IPOQUE_COMPARE_PROTOCOL_TO_BITMASK dbm v \<noteq> 0)"

definition register_http ::
    "protocol_bitmask \<Rightarrow> protocol_bitmask \<Rightarrow> call_function list \<times> nat
     \<Rightarrow> (protocol_bitmask \<times> call_function list \<times> nat) option" where
  "register_http dbm generic st = (case st of (buf, a) \<Rightarrow>
     if http_enabled dbm
     then if a < length buf
       then Some (IPOQUE_DEL_PROTOCOL_FROM_BITMASK IPOQUE_PROTOCOL_UNKNOWN http_detection,
                  buf[a := http_entry], Suc a)
       else None
     else Some (generic, buf, a))"

definition reg_blocks_1 :: "reg_block list" where
  "reg_blocks_1 = [
    \<lparr>rb_cond = [IPOQUE_PROTOCOL_SSL], rb_func = ''ipoque_search_ssl_tcp'',
      rb_sel = SEL_TCP_WITH_PAYLOAD,
      rb_det = [Save IPOQUE_PROTOCOL_UNKNOWN], rb_exc = [Save IPOQUE_PROTOCOL_SSL]\<rparr>,
    \<lparr>rb_cond = [IPOQUE_PROTOCOL_STUN, IPOQUE_PROTOCOL_RTP], rb_func = ''ipoque_search_stun_udp'',
      rb_sel = SEL_UDP_WITH_PAYLOAD,
      rb_det = [Save IPOQUE_PROTOCOL_UNKNOWN], rb_exc = [Save IPOQUE_PROTOCOL_STUN]\<rparr>,
    \<lparr>rb_cond = [IPOQUE_PROTOCOL_RTP], rb_func = ''ipoque_search_rtp_udp'',
      rb_sel = SEL_UDP_WITH_PAYLOAD,
      rb_det = [Save IPOQUE_PROTOCOL_UNKNOWN, Add IPOQUE_PROTOCOL_STUN], rb_exc = [Save IPOQUE_PROTOCOL_RTP]\<rparr>,
    \<lparr>rb_cond = [IPOQUE_PROTOCOL_SIP], rb_func = ''ipoque_search_sip'',
      rb_sel = SEL_TCP_OR_UDP_WITH_PAYLOAD,
      rb_det = [Save IPOQUE_PROTOCOL_UNKNOWN, Add IPOQUE_PROTOCOL_SIP], rb_exc = [Save IPOQUE_PROTOCOL_SIP]\<rparr>,
    \<lparr>rb_cond = [IPOQUE_PROTOCOL_BITTORRENT], rb_func = ''ipoque_search_bittorrent'',
      rb_sel = SEL_TCP_OR_UDP,
      rb_det = [Save IPOQUE_PROTOCOL_UNKNOWN, Add IPOQUE_PROTOCOL_BITTORRENT], rb_exc = [Save IPOQUE_PROTOCOL_BITTORRENT]\<rparr>,
    \<lparr>rb_cond = [IPOQUE_PROTOCOL_EDONKEY], rb_func = ''ipoque_search_edonkey'',
      rb_sel = SEL_TCP_OR_UDP,
      rb_det = [Save IPOQUE_PROTOCOL_UNKNOWN, Add IPOQUE_PROTOCOL_EDONKEY, Add IPOQUE_PROTOCOL_BITTORRENT], rb_exc = [Save IPOQUE_PROTOCOL_EDONKEY]\<rparr>,
    \<lparr>rb_cond = [IPOQUE_PROTOCOL_FASTTRACK], rb_func = ''ipoque_search_fasttrack_tcp'',
      rb_sel = SEL_TCP_WITH_PAYLOAD_WITHOUT_RETRANSMISSION,
      rb_det = [Save IPOQUE_PROTOCOL_UNKNOWN], rb_exc = [Save IPOQUE_PROTOCOL_FASTTRACK]\<rparr>,
    \<lparr>rb_cond = [IPOQUE_PROTOCOL_GNUTELLA], rb_func = ''ipoque_search_gnutella'',
      rb_sel = SEL_TCP_OR_UDP_WITH_PAYLOAD_WITHOUT_RETRANSMISSION,
      rb_det = [Save IPOQUE_PROTOCOL_UNKNOWN, Add IPOQUE_PROTOCOL_XBOX], rb_exc = [Save IPOQUE_PROTOCOL_GNUTELLA]\<rparr>,
    \<lparr>rb_cond = [IPOQUE_PROTOCOL_WINMX], rb_func = ''ipoque_search_winmx_tcp'',
      rb_sel = SEL_TCP_WITH_PAYLOAD_WITHOUT_RETRANSMISSION,
      rb_det = [Save IPOQUE_PROTOCOL_UNKNOWN], rb_exc = [Save IPOQUE_PROTOCOL_WINMX]\<rparr>,
    \<lparr>rb_cond = [IPOQUE_PROTOCOL_DIRECTCONNECT], rb_func = ''ipoque_search_directconnect'',
      rb_sel = SEL_TCP_OR_UDP_WITH_PAYLOAD_WITHOUT_RETRANSMISSION,
      rb_det = [Save IPOQUE_PROTOCOL_UNKNOWN, Add IPOQUE_PROTOCOL_DIRECTCONNECT], rb_exc = [Save IPOQUE_PROTOCOL_DIRECTCONNECT]\<rparr>]"

definition reg_blocks_2 :: "reg_block list" where
  "reg_blocks_2 = [
    \<lparr>rb_cond = [IPOQUE_PROTOCOL_MSN], rb_func = ''ipoque_search_msn'',
      rb_sel = SEL_TCP_OR_UDP_WITH_PAYLOAD_WITHOUT_RETRANSMISSION,
      rb_det = [Save IPOQUE_PROTOCOL_UNKNOWN, Add IPOQUE_PROTOCOL_MSN, Add IPOQUE_PROTOCOL_HTTP, Add IPOQUE_PROTOCOL_SSL], rb_exc = [Reset, Save IPOQUE_PROTOCOL_MSN]\<rparr>,
    \<lparr>rb_cond = [IPOQUE_PROTOCOL_YAHOO], rb_func = ''ipoque_search_yahoo'',
      rb_sel = SEL_TCP_OR_UDP,
      rb_det = [Save IPOQUE_PROTOCOL_UNKNOWN, Add IPOQUE_PROTOCOL_YAHOO], rb_exc = [Save IPOQUE_PROTOCOL_YAHOO]\<rparr>,
    \<lparr>rb_cond = [IPOQUE_PROTOCOL_OSCAR], rb_func = ''ipoque_search_oscar'',
      rb_sel = SEL_TCP_OR_UDP_WITH_PAYLOAD_WITHOUT_RETRANSMISSION,
      rb_det = [Save IPOQUE_PROTOCOL_UNKNOWN, Add IPOQUE_PROTOCOL_OSCAR], rb_exc = [Save IPOQUE_PROTOCOL_OSCAR]\<rparr>,
    \<lparr>rb_cond = [IPOQUE_PROTOCOL_APPLEJUICE], rb_func = ''ipoque_search_applejuice_tcp'',
      rb_sel = SEL_TCP_WITH_PAYLOAD_WITHOUT_RETRANSMISSION,
      rb_det = [Save IPOQUE_PROTOCOL_UNKNOWN], rb_exc = [Save IPOQUE_PROTOCOL_APPLEJUICE]\<rparr>,
    \<lparr>rb_cond = [IPOQUE_PROTOCOL_SOULSEEK], rb_func = ''ipoque_search_soulseek_tcp'',
      rb_sel = SEL_TCP_WITH_PAYLOAD,
      rb_det = [Save IPOQUE_PROTOCOL_UNKNOWN, Add IPOQUE_PROTOCOL_SOULSEEK], rb_exc = [Save IPOQUE_PROTOCOL_SOULSEEK]\<rparr>,
    \<lparr>rb_cond = [IPOQUE_PROTOCOL_IRC], rb_func = ''ipoque_search_irc_tcp'',
      rb_sel = SEL_TCP_WITH_PAYLOAD_WITHOUT_RETRANSMISSION,
      rb_det = [Save IPOQUE_PROTOCOL_UNKNOWN, Add IPOQUE_PROTOCOL_IRC], rb_exc = [Save IPOQUE_PROTOCOL_IRC]\<rparr>,
    \<lparr>rb_cond = [IPOQUE_PROTOCOL_UNENCRYPED_JABBER], rb_func = ''ipoque_search_jabber_tcp'',
      rb_sel = SEL_TCP_OR_UDP_WITHOUT_RETRANSMISSION,
      rb_det = [Save IPOQUE_PROTOCOL_UNKNOWN, Add IPOQUE_PROTOCOL_UNENCRYPED_JABBER, Add IPOQUE_PROTOCOL_SSL], rb_exc = [Save IPOQUE_PROTOCOL_UNENCRYPED_JABBER]\<rparr>,
    \<lparr>rb_cond = [IPOQUE_PROTOCOL_MAIL_POP], rb_func = ''ipoque_search_mail_pop_tcp'',
      rb_sel = SEL_TCP_WITH_PAYLOAD_WITHOUT_RETRANSMISSION,
      rb_det = [Save IPOQUE_PROTOCOL_UNKNOWN], rb_exc = [Save IPOQUE_PROTOCOL_MAIL_POP]\<rparr>,
    \<lparr>rb_cond = [IPOQUE_PROTOCOL_MAIL_IMAP], rb_func = ''ipoque_search_mail_imap_tcp'',
      rb_sel = SEL_TCP_WITH_PAYLOAD_WITHOUT_RETRANSMISSION,
      rb_det = [Save IPOQUE_PROTOCOL_UNKNOWN], rb_exc = [Save IPOQUE_PROTOCOL_MAIL_IMAP]\<rparr>]"

definition reg_blocks_3 :: "reg_block list" where
  "reg_blocks_3 = [
    \<lparr>rb_cond = [IPOQUE_PROTOCOL_MAIL_SMTP], rb_func = ''ipoque_search_mail_smtp_tcp'',
      rb_sel = SEL_TCP_WITH_PAYLOAD_WITHOUT_RETRANSMISSION,
      rb_det = [Save IPOQUE_PROTOCOL_UNKNOWN], rb_exc = [Save IPOQUE_PROTOCOL_MAIL_SMTP]\<rparr>,
    \<lparr>rb_cond = [IPOQUE_PROTOCOL_FTP], rb_func = ''ipoque_search_ftp_tcp'',
      rb_sel = SEL_TCP_WITHOUT_RETRANSMISSION,
      rb_det = [Save IPOQUE_PROTOCOL_UNKNOWN, Add IPOQUE_PROTOCOL_FTP], rb_exc = [Save IPOQUE_PROTOCOL_FTP]\<rparr>,
    \<lparr>rb_cond = [IPOQUE_PROTOCOL_USENET], rb_func = ''ipoque_search_usenet_tcp'',
      rb_sel = SEL_TCP_WITH_PAYLOAD_WITHOUT_RETRANSMISSION,
      rb_det = [Save IPOQUE_PROTOCOL_UNKNOWN], rb_exc = [Save IPOQUE_PROTOCOL_USENET]\<rparr>,
    \<lparr>rb_cond = [IPOQUE_PROTOCOL_DNS], rb_func = ''ipoque_search_dns'',
      rb_sel = SEL_TCP_OR_UDP_WITH_PAYLOAD_WITHOUT_RETRANSMISSION,
      rb_det = [Save IPOQUE_PROTOCOL_UNKNOWN], rb_exc = [Save IPOQUE_PROTOCOL_DNS]\<rparr>,
    \<lparr>rb_cond = [IPOQUE_PROTOCOL_FILETOPIA], rb_func = ''ipoque_search_filetopia_tcp'',
      rb_sel = SEL_TCP_WITH_PAYLOAD_WITHOUT_RETRANSMISSION,
      rb_det = [Save IPOQUE_PROTOCOL_UNKNOWN], rb_exc = [Save IPOQUE_PROTOCOL_FILETOPIA]\<rparr>,
    \<lparr>rb_cond = [IPOQUE_PROTOCOL_MANOLITO], rb_func = ''ipoque_search_manolito_tcp_udp'',
      rb_sel = SEL_TCP_OR_UDP_WITH_PAYLOAD_WITHOUT_RETRANSMISSION,
      rb_det = [Save IPOQUE_PROTOCOL_UNKNOWN], rb_exc = [Save IPOQUE_PROTOCOL_MANOLITO]\<rparr>,
    \<lparr>rb_cond = [IPOQUE_PROTOCOL_IMESH], rb_func = ''ipoque_search_imesh_tcp_udp'',
      rb_sel = SEL_TCP_OR_UDP_WITH_PAYLOAD_WITHOUT_RETRANSMISSION,
      rb_det = [Save IPOQUE_PROTOCOL_UNKNOWN, Add IPOQUE_PROTOCOL_IMESH], rb_exc = [Save IPOQUE_PROTOCOL_IMESH]\<rparr>,
    \<lparr>rb_cond = [IPOQUE_PROTOCOL_MMS], rb_func = ''ipoque_search_mms_tcp'',
      rb_sel = SEL_TCP_WITH_PAYLOAD_WITHOUT_RETRANSMISSION,
      rb_det = [Save IPOQUE_PROTOCOL_UNKNOWN], rb_exc = [Save IPOQUE_PROTOCOL_MMS]\<rparr>,
    \<lparr>rb_cond = [IPOQUE_PROTOCOL_PANDO], rb_func = ''ipoque_search_pando_tcp_udp'',
      rb_sel = SEL_TCP_OR_UDP_WITH_PAYLOAD_WITHOUT_RETRANSMISSION,
      rb_det = [Save IPOQUE_PROTOCOL_UNKNOWN], rb_exc = [Save IPOQUE_PROTOCOL_PANDO]\<rparr>]"

definition reg_blocks_4 :: "reg_block list" where
  "reg_blocks_4 = [
    \<lparr>rb_cond = [], rb_func = ''ipoque_search_in_non_tcp_udp'',
      rb_sel = SEL_IP,
      rb_det = [Save IPOQUE_PROTOCOL_UNKNOWN], rb_exc = [Reset, Add IPOQUE_PROTOCOL_IPSEC, Add IPOQUE_PROTOCOL_GRE, Add IPOQUE_PROTOCOL_ICMP, Add IPOQUE_PROTOCOL_IGMP, Add IPOQUE_PROTOCOL_EGP, Add IPOQUE_PROTOCOL_SCTP, Add IPOQUE_PROTOCOL_OSPF, Add IPOQUE_PROTOCOL_IP_IN_IP]\<rparr>,
    \<lparr>rb_cond = [IPOQUE_PROTOCOL_TVANTS], rb_func = ''ipoque_search_tvants_udp'',
      rb_sel = SEL_TCP_OR_UDP_WITH_PAYLOAD,
      rb_det = [Save IPOQUE_PROTOCOL_UNKNOWN], rb_exc = [Save IPOQUE_PROTOCOL_TVANTS]\<rparr>,
    \<lparr>rb_cond = [IPOQUE_PROTOCOL_SOPCAST], rb_func = ''ipoque_search_sopcast'',
      rb_sel = SEL_TCP_OR_UDP_WITH_PAYLOAD,
      rb_det = [Save IPOQUE_PROTOCOL_UNKNOWN], rb_exc = [Save IPOQUE_PROTOCOL_SOPCAST]\<rparr>,
    \<lparr>rb_cond = [IPOQUE_PROTOCOL_TVUPLAYER], rb_func = ''ipoque_search_tvuplayer'',
      rb_sel = SEL_TCP_OR_UDP_WITH_PAYLOAD,
      rb_det = [Save IPOQUE_PROTOCOL_UNKNOWN], rb_exc = [Save IPOQUE_PROTOCOL_TVUPLAYER]\<rparr>,
    \<lparr>rb_cond = [IPOQUE_PROTOCOL_PPSTREAM], rb_func = ''ipoque_search_ppstream_tcp'',
      rb_sel = SEL_TCP_OR_UDP_WITH_PAYLOAD,
      rb_det = [Save IPOQUE_PROTOCOL_UNKNOWN], rb_exc = [Save IPOQUE_PROTOCOL_PPSTREAM]\<rparr>,
    \<lparr>rb_cond = [IPOQUE_PROTOCOL_PPLIVE], rb_func = ''ipoque_search_pplive_tcp_udp'',
      rb_sel = SEL_TCP_OR_UDP_WITH_PAYLOAD,
      rb_det = [Add IPOQUE_PROTOCOL_PPLIVE, Save IPOQUE_PROTOCOL_UNKNOWN], rb_exc = [Save IPOQUE_PROTOCOL_PPLIVE]\<rparr>,
    \<lparr>rb_cond = [IPOQUE_PROTOCOL_IAX], rb_func = ''ipoque_search_iax'',
      rb_sel = SEL_UDP_WITH_PAYLOAD,
      rb_det = [Save IPOQUE_PROTOCOL_UNKNOWN, Add IPOQUE_PROTOCOL_IAX], rb_exc = [Save IPOQUE_PROTOCOL_IAX]\<rparr>,
    \<lparr>rb_cond = [IPOQUE_PROTOCOL_MGCP], rb_func = ''ipoque_search_mgcp'',
      rb_sel = SEL_UDP_WITH_PAYLOAD,
      rb_det = [Save IPOQUE_PROTOCOL_UNKNOWN], rb_exc = [Save IPOQUE_PROTOCOL_MGCP]\<rparr>]"

definition reg_blocks_5 :: "reg_block list" where
  "reg_blocks_5 = [
    \<lparr>rb_cond = [IPOQUE_PROTOCOL_GADUGADU], rb_func = ''ipoque_search_gadugadu'',
      rb_sel = SEL_TCP_OR_UDP_WITH_PAYLOAD,
      rb_det = [Save IPOQUE_PROTOCOL_UNKNOWN, Add IPOQUE_PROTOCOL_HTTP, Add IPOQUE_PROTOCOL_GADUGADU], rb_exc = [Save IPOQUE_PROTOCOL_GADUGADU]\<rparr>,
    \<lparr>rb_cond = [IPOQUE_PROTOCOL_ZATTOO], rb_func = ''ipoque_search_zattoo_tcp'',
      rb_sel = SEL_TCP_OR_UDP_WITH_PAYLOAD,
      rb_det = [Save IPOQUE_PROTOCOL_UNKNOWN, Add IPOQUE_PROTOCOL_ZATTOO], rb_exc = [Save IPOQUE_PROTOCOL_ZATTOO]\<rparr>,
    \<lparr>rb_cond = [IPOQUE_PROTOCOL_QQ], rb_func = ''ipoque_search_qq'',
      rb_sel = SEL_TCP_OR_UDP_WITH_PAYLOAD_WITHOUT_RETRANSMISSION,
      rb_det = [Save IPOQUE_PROTOCOL_UNKNOWN], rb_exc = [Save IPOQUE_PROTOCOL_QQ]\<rparr>,
    \<lparr>rb_cond = [IPOQUE_PROTOCOL_FEIDIAN], rb_func = ''ipoque_search_feidian'',
      rb_sel = SEL_TCP_OR_UDP_WITH_PAYLOAD_WITHOUT_RETRANSMISSION,
      rb_det = [Save IPOQUE_PROTOCOL_UNKNOWN], rb_exc = [Save IPOQUE_PROTOCOL_FEIDIAN]\<rparr>,
    \<lparr>rb_cond = [IPOQUE_PROTOCOL_SSH], rb_func = ''ipoque_search_ssh_tcp'',
      rb_sel = SEL_TCP_WITH_PAYLOAD_WITHOUT_RETRANSMISSION,
      rb_det = [Save IPOQUE_PROTOCOL_UNKNOWN], rb_exc = [Save IPOQUE_PROTOCOL_SSH]\<rparr>,
    \<lparr>rb_cond = [IPOQUE_PROTOCOL_POPO], rb_func = ''ipoque_search_popo_tcp_udp'',
      rb_sel = SEL_TCP_OR_UDP_WITH_PAYLOAD_WITHOUT_RETRANSMISSION,
      rb_det = [Save IPOQUE_PROTOCOL_UNKNOWN], rb_exc = [Save IPOQUE_PROTOCOL_POPO]\<rparr>,
    \<lparr>rb_cond = [IPOQUE_PROTOCOL_THUNDER], rb_func = ''ipoque_search_thunder'',
      rb_sel = SEL_TCP_OR_UDP_WITH_PAYLOAD_WITHOUT_RETRANSMISSION,
      rb_det = [Save IPOQUE_PROTOCOL_UNKNOWN], rb_exc = [Save IPOQUE_PROTOCOL_THUNDER]\<rparr>,
    \<lparr>rb_cond = [IPOQUE_PROTOCOL_VNC], rb_func = ''ipoque_search_vnc_tcp'',
      rb_sel = SEL_TCP_WITH_PAYLOAD_WITHOUT_RETRANSMISSION,
      rb_det = [Save IPOQUE_PROTOCOL_UNKNOWN], rb_exc = [Save IPOQUE_PROTOCOL_VNC]\<rparr>,
    \<lparr>rb_cond = [IPOQUE_PROTOCOL_DHCP], rb_func = ''ipoque_search_dhcp_udp'',
      rb_sel = SEL_UDP_WITH_PAYLOAD,
      rb_det = [Save IPOQUE_PROTOCOL_UNKNOWN], rb_exc = [Save IPOQUE_PROTOCOL_DHCP]\<rparr>,
    \<lparr>rb_cond = [IPOQUE_PROTOCOL_I23V5], rb_func = ''ipoque_search_i23v5'',
      rb_sel = SEL_TCP_WITH_PAYLOAD_WITHOUT_RETRANSMISSION,
      rb_det = [Save IPOQUE_PROTOCOL_UNKNOWN], rb_exc = [Save IPOQUE_PROTOCOL_I23V5]\<rparr>,
    \<lparr>rb_cond = [IPOQUE_PROTOCOL_SOCRATES], rb_func = ''ipoque_search_socrates'',
      rb_sel = SEL_TCP_OR_UDP_WITH_PAYLOAD,
      rb_det = [Save IPOQUE_PROTOCOL_UNKNOWN], rb_exc = [Save IPOQUE_PROTOCOL_SOCRATES]\<rparr>]"

definition reg_blocks_6 :: "reg_block list" where
  "reg_blocks_6 = [
    \<lparr>rb_cond = [IPOQUE_PROTOCOL_STEAM], rb_func = ''ipoque_search_steam'',
      rb_sel = SEL_TCP_WITH_PAYLOAD_WITHOUT_RETRANSMISSION,
      rb_det = [Save IPOQUE_PROTOCOL_UNKNOWN], rb_exc = [Save IPOQUE_PROTOCOL_STEAM]\<rparr>,
    \<lparr>rb_cond = [IPOQUE_PROTOCOL_HALFLIFE2], rb_func = ''ipoque_search_halflife2'',
      rb_sel = SEL_UDP_WITH_PAYLOAD,
      rb_det = [Save IPOQUE_PROTOCOL_UNKNOWN], rb_exc = [Save IPOQUE_PROTOCOL_HALFLIFE2]\<rparr>,
    \<lparr>rb_cond = [IPOQUE_PROTOCOL_XBOX], rb_func = ''ipoque_search_xbox'',
      rb_sel = SEL_TCP_OR_UDP_WITH_PAYLOAD_WITHOUT_RETRANSMISSION,
      rb_det = [Save IPOQUE_PROTOCOL_UNKNOWN], rb_exc = [Save IPOQUE_PROTOCOL_XBOX]\<rparr>,
    \<lparr>rb_cond = [IPOQUE_PROTOCOL_SMB], rb_func = ''ipoque_search_smb_tcp'',
      rb_sel = SEL_TCP_WITH_PAYLOAD_WITHOUT_RETRANSMISSION,
      rb_det = [Save IPOQUE_PROTOCOL_UNKNOWN], rb_exc = [Save IPOQUE_PROTOCOL_SMB]\<rparr>,
    \<lparr>rb_cond = [IPOQUE_PROTOCOL_TELNET], rb_func = ''ipoque_search_telnet_tcp'',
      rb_sel = SEL_TCP_WITH_PAYLOAD_WITHOUT_RETRANSMISSION,
      rb_det = [Save IPOQUE_PROTOCOL_UNKNOWN], rb_exc = [Save IPOQUE_PROTOCOL_TELNET]\<rparr>,
    \<lparr>rb_cond = [IPOQUE_PROTOCOL_NTP], rb_func = ''ipoque_search_ntp_udp'',
      rb_sel = SEL_UDP_WITH_PAYLOAD,
      rb_det = [Save IPOQUE_PROTOCOL_UNKNOWN], rb_exc = [Save IPOQUE_PROTOCOL_NTP]\<rparr>,
    \<lparr>rb_cond = [IPOQUE_PROTOCOL_NFS], rb_func = ''ipoque_search_nfs'',
      rb_sel = SEL_TCP_OR_UDP_WITH_PAYLOAD_WITHOUT_RETRANSMISSION,
      rb_det = [Save IPOQUE_PROTOCOL_UNKNOWN], rb_exc = [Save IPOQUE_PROTOCOL_NFS]\<rparr>,
    \<lparr>rb_cond = [IPOQUE_PROTOCOL_SSDP], rb_func = ''ipoque_search_ssdp'',
      rb_sel = SEL_UDP_WITH_PAYLOAD,
      rb_det = [Save IPOQUE_PROTOCOL_UNKNOWN], rb_exc = [Save IPOQUE_PROTOCOL_SSDP]\<rparr>,
    \<lparr>rb_cond = [IPOQUE_PROTOCOL_WORLDOFWARCRAFT], rb_func = ''ipoque_search_worldofwarcraft'',
      rb_sel = SEL_TCP_WITH_PAYLOAD_WITHOUT_RETRANSMISSION,
      rb_det = [Save IPOQUE_PROTOCOL_UNKNOWN], rb_exc = [Save IPOQUE_PROTOCOL_WORLDOFWARCRAFT]\<rparr>,
    \<lparr>rb_cond = [IPOQUE_PROTOCOL_FLASH], rb_func = ''ipoque_search_flash'',
      rb_sel = SEL_TCP_WITH_PAYLOAD_WITHOUT_RETRANSMISSION,
      rb_det = [Save IPOQUE_PROTOCOL_UNKNOWN], rb_exc = [Save IPOQUE_PROTOCOL_FLASH]\<rparr>,
    \<lparr>rb_cond = [IPOQUE_PROTOCOL_POSTGRES], rb_func = ''ipoque_search_postgres_tcp'',
      rb_sel = SEL_TCP_WITH_PAYLOAD_WITHOUT_RETRANSMISSION,
      rb_det = [Save IPOQUE_PROTOCOL_UNKNOWN], rb_exc = [Save IPOQUE_PROTOCOL_POSTGRES]\<rparr>]"

definition reg_blocks_7 :: "reg_block list" where
  "reg_blocks_7 = [
    \<lparr>rb_cond = [IPOQUE_PROTOCOL_MYSQL], rb_func = ''ipoque_search_mysql_tcp'',
      rb_sel = SEL_TCP_WITH_PAYLOAD_WITHOUT_RETRANSMISSION,
      rb_det = [Save IPOQUE_PROTOCOL_UNKNOWN], rb_exc = [Save IPOQUE_PROTOCOL_MYSQL]\<rparr>,
    \<lparr>rb_cond = [IPOQUE_PROTOCOL_BGP], rb_func = ''ipoque_search_bgp'',
      rb_sel = SEL_TCP_WITH_PAYLOAD_WITHOUT_RETRANSMISSION,
      rb_det = [Save IPOQUE_PROTOCOL_UNKNOWN], rb_exc = [Save IPOQUE_PROTOCOL_BGP]\<rparr>,
    \<lparr>rb_cond = [IPOQUE_PROTOCOL_QUAKE], rb_func = ''ipoque_search_quake'',
      rb_sel = SEL_UDP_WITH_PAYLOAD,
      rb_det = [Save IPOQUE_PROTOCOL_UNKNOWN], rb_exc = [Save IPOQUE_PROTOCOL_QUAKE]\<rparr>,
    \<lparr>rb_cond = [IPOQUE_PROTOCOL_BATTLEFIELD], rb_func = ''ipoque_search_battlefield'',
      rb_sel = SEL_UDP_WITH_PAYLOAD,
      rb_det = [Save IPOQUE_PROTOCOL_UNKNOWN], rb_exc = [Save IPOQUE_PROTOCOL_BATTLEFIELD]\<rparr>,
    \<lparr>rb_cond = [IPOQUE_PROTOCOL_SECONDLIFE], rb_func = ''ipoque_search_secondlife'',
      rb_sel = SEL_UDP_WITH_PAYLOAD,
      rb_det = [Save IPOQUE_PROTOCOL_UNKNOWN], rb_exc = [Save IPOQUE_PROTOCOL_SECONDLIFE]\<rparr>,
    \<lparr>rb_cond = [IPOQUE_PROTOCOL_PCANYWHERE], rb_func = ''ipoque_search_pcanywhere'',
      rb_sel = SEL_TCP_OR_UDP_WITH_PAYLOAD_WITHOUT_RETRANSMISSION,
      rb_det = [Save IPOQUE_PROTOCOL_UNKNOWN], rb_exc = [Save IPOQUE_PROTOCOL_PCANYWHERE]\<rparr>,
    \<lparr>rb_cond = [IPOQUE_PROTOCOL_RDP], rb_func = ''ipoque_search_rdp'',
      rb_sel = SEL_TCP_WITH_PAYLOAD_WITHOUT_RETRANSMISSION,
      rb_det = [Save IPOQUE_PROTOCOL_UNKNOWN], rb_exc = [Save IPOQUE_PROTOCOL_RDP]\<rparr>,
    \<lparr>rb_cond = [IPOQUE_PROTOCOL_SNMP], rb_func = ''ipoque_search_snmp'',
      rb_sel = SEL_UDP_WITH_PAYLOAD,
      rb_det = [Save IPOQUE_PROTOCOL_UNKNOWN], rb_exc = [Save IPOQUE_PROTOCOL_SNMP]\<rparr>,
    \<lparr>rb_cond = [IPOQUE_PROTOCOL_KONTIKI], rb_func = ''ipoque_search_kontiki'',
      rb_sel = SEL_UDP_WITH_PAYLOAD,
      rb_det = [Save IPOQUE_PROTOCOL_UNKNOWN], rb_exc = [Save IPOQUE_PROTOCOL_KONTIKI]\<rparr>,
    \<lparr>rb_cond = [IPOQUE_PROTOCOL_ICECAST], rb_func = ''ipoque_search_icecast_tcp'',
      rb_sel = SEL_TCP_WITH_PAYLOAD_WITHOUT_RETRANSMISSION,
      rb_det = [Save IPOQUE_PROTOCOL_UNKNOWN], rb_exc = [Save IPOQUE_PROTOCOL_ICECAST]\<rparr>,
    \<lparr>rb_cond = [IPOQUE_PROTOCOL_SHOUTCAST], rb_func = ''ipoque_search_shoutcast_tcp'',
      rb_sel = SEL_TCP_WITH_PAYLOAD_WITHOUT_RETRANSMISSION,
      rb_det = [Save IPOQUE_PROTOCOL_UNKNOWN, Add IPOQUE_PROTOCOL_HTTP], rb_exc = [Save IPOQUE_PROTOCOL_SHOUTCAST]\<rparr>]"

definition reg_blocks_8 :: "reg_block list" where
  "reg_blocks_8 = [
    \<lparr>rb_cond = [IPOQUE_PROTOCOL_VEOHTV], rb_func = ''ipoque_search_veohtv_tcp'',
      rb_sel = SEL_TCP_WITH_PAYLOAD_WITHOUT_RETRANSMISSION,
      rb_det = [Save IPOQUE_PROTOCOL_UNKNOWN], rb_exc = [Save IPOQUE_PROTOCOL_VEOHTV]\<rparr>,
    \<lparr>rb_cond = [IPOQUE_PROTOCOL_OPENFT], rb_func = ''ipoque_search_openft_tcp'',
      rb_sel = SEL_TCP_WITH_PAYLOAD_WITHOUT_RETRANSMISSION,
      rb_det = [Save IPOQUE_PROTOCOL_UNKNOWN], rb_exc = [Save IPOQUE_PROTOCOL_OPENFT]\<rparr>,
    \<lparr>rb_cond = [IPOQUE_PROTOCOL_SYSLOG], rb_func = ''ipoque_search_syslog'',
      rb_sel = SEL_TCP_OR_UDP_WITH_PAYLOAD_WITHOUT_RETRANSMISSION,
      rb_det = [Save IPOQUE_PROTOCOL_UNKNOWN], rb_exc = [Save IPOQUE_PROTOCOL_SYSLOG]\<rparr>,
    \<lparr>rb_cond = [IPOQUE_PROTOCOL_TDS], rb_func = ''ipoque_search_tds_tcp'',
      rb_sel = SEL_TCP_WITH_PAYLOAD_WITHOUT_RETRANSMISSION,
      rb_det = [Save IPOQUE_PROTOCOL_UNKNOWN], rb_exc = [Save IPOQUE_PROTOCOL_TDS]\<rparr>,
    \<lparr>rb_cond = [IPOQUE_PROTOCOL_DIRECT_DOWNLOAD_LINK], rb_func = ''ipoque_search_direct_download_link_tcp'',
      rb_sel = SEL_TCP_WITH_PAYLOAD,
      rb_det = [Save IPOQUE_PROTOCOL_UNKNOWN, Add IPOQUE_PROTOCOL_DIRECT_DOWNLOAD_LINK], rb_exc = [Save IPOQUE_PROTOCOL_DIRECT_DOWNLOAD_LINK]\<rparr>,
    \<lparr>rb_cond = [IPOQUE_PROTOCOL_NETBIOS], rb_func = ''ipoque_search_netbios'',
      rb_sel = SEL_TCP_OR_UDP_WITH_PAYLOAD_WITHOUT_RETRANSMISSION,
      rb_det = [Save IPOQUE_PROTOCOL_UNKNOWN], rb_exc = [Save IPOQUE_PROTOCOL_NETBIOS]\<rparr>,
    \<lparr>rb_cond = [IPOQUE_PROTOCOL_MDNS], rb_func = ''ipoque_search_mdns'',
      rb_sel = SEL_UDP_WITH_PAYLOAD,
      rb_det = [Save IPOQUE_PROTOCOL_UNKNOWN], rb_exc = [Save IPOQUE_PROTOCOL_MDNS]\<rparr>,
    \<lparr>rb_cond = [IPOQUE_PROTOCOL_IPP], rb_func = ''ipoque_search_ipp'',
      rb_sel = SEL_TCP_OR_UDP_WITH_PAYLOAD_WITHOUT_RETRANSMISSION,
      rb_det = [Save IPOQUE_PROTOCOL_UNKNOWN], rb_exc = [Save IPOQUE_PROTOCOL_IPP]\<rparr>,
    \<lparr>rb_cond = [IPOQUE_PROTOCOL_XDMCP], rb_func = ''ipoque_search_xdmcp'',
      rb_sel = SEL_TCP_OR_UDP_WITH_PAYLOAD,
      rb_det = [Save IPOQUE_PROTOCOL_UNKNOWN, Add IPOQUE_PROTOCOL_XDMCP], rb_exc = [Save IPOQUE_PROTOCOL_XDMCP]\<rparr>,
    \<lparr>rb_cond = [IPOQUE_PROTOCOL_TFTP], rb_func = ''ipoque_search_tftp'',
      rb_sel = SEL_V4_V6_UDP_WITH_PAYLOAD,
      rb_det = [Save IPOQUE_PROTOCOL_UNKNOWN], rb_exc = [Save IPOQUE_PROTOCOL_TFTP]\<rparr>]"

definition reg_blocks_9 :: "reg_block list" where
  "reg_blocks_9 = [
    \<lparr>rb_cond = [IPOQUE_PROTOCOL_STEALTHNET], rb_func = ''ipoque_search_stealthnet'',
      rb_sel = SEL_V4_V6_TCP_WITH_PAYLOAD_WITHOUT_RETRANSMISSION,
      rb_det = [Save IPOQUE_PROTOCOL_UNKNOWN], rb_exc = [Save IPOQUE_PROTOCOL_STEALTHNET]\<rparr>,
    \<lparr>rb_cond = [IPOQUE_PROTOCOL_AFP], rb_func = ''ipoque_search_afp'',
      rb_sel = SEL_V4_V6_TCP_WITH_PAYLOAD_WITHOUT_RETRANSMISSION,
      rb_det = [Save IPOQUE_PROTOCOL_UNKNOWN], rb_exc = [Save IPOQUE_PROTOCOL_AFP]\<rparr>,
    \<lparr>rb_cond = [IPOQUE_PROTOCOL_AIMINI], rb_func = ''ipoque_search_aimini'',
      rb_sel = SEL_V4_V6_UDP_WITH_PAYLOAD,
      rb_det = [Save IPOQUE_PROTOCOL_UNKNOWN], rb_exc = [Save IPOQUE_PROTOCOL_AIMINI]\<rparr>]"

definition reg_blocks :: "reg_block list" where
  "reg_blocks = reg_blocks_1 @ reg_blocks_2 @ reg_blocks_3 @ reg_blocks_4 @ reg_blocks_5 @ reg_blocks_6 @ reg_blocks_7 @ reg_blocks_8 @ reg_blocks_9"

subsection \<open>The arrays per packet class\<close>

text \<open>\<^verbatim>\<open>for (a = 0; a < n; a++) if (P(src[a])) memcpy(&dst[k++], &src[a], ...)\<close>\<close>

fun copy_selected ::
    "(call_function \<Rightarrow> bool) \<Rightarrow> call_function list \<Rightarrow> nat list \<Rightarrow> call_function list \<times> nat
     \<Rightarrow> (call_function list \<times> nat) option" where
  "copy_selected P src [] st = Some st"
| "copy_selected P src (i # is) st = (case st of (dst, k) \<Rightarrow>
     if P (src ! i)
     then if k < length dst then copy_selected P src is (dst[k := src ! i], Suc k) else None
     else copy_selected P src is (dst, k))"

definition wants_tcp :: "call_function \<Rightarrow> bool" where
  "wants_tcp e \<longleftrightarrow> cf_selection e AND (SEL_INT_TCP OR SEL_INT_TCP_OR_UDP OR SEL_COMPLETE_TRAFFIC) \<noteq> 0"

definition wants_tcp_no_payload :: "call_function \<Rightarrow> bool" where
  "wants_tcp_no_payload e \<longleftrightarrow> wants_tcp e \<and> cf_selection e AND SEL_HAS_PAYLOAD = 0"

definition wants_udp :: "call_function \<Rightarrow> bool" where
  "wants_udp e \<longleftrightarrow> cf_selection e AND (SEL_INT_UDP OR SEL_INT_TCP_OR_UDP OR SEL_COMPLETE_TRAFFIC) \<noteq> 0"

definition wants_non_tcp_udp :: "call_function \<Rightarrow> bool" where
  "wants_non_tcp_udp e \<longleftrightarrow> cf_selection e AND (SEL_INT_TCP OR SEL_INT_UDP OR SEL_INT_TCP_OR_UDP) = 0
     \<or> cf_selection e AND SEL_COMPLETE_TRAFFIC \<noteq> 0"

definition set_protocol_detection_bitmask2 :: "protocol_bitmask \<Rightarrow> 'a callbacks_scheme \<Rightarrow> 'a callbacks_scheme option" where
  "set_protocol_detection_bitmask2 dbm s =
     do { let s = s\<lparr>detection_bitmask := IPOQUE_BITMASK_SET dbm, callback_buffer_size := 0\<rparr>;
          (generic, buf, a) \<leftarrow> register_http dbm (generic_http_packet_bitmask s) (callback_buffer s, 0);
          (buf, n) \<leftarrow> exec_blocks dbm reg_blocks (buf, a);
          (tp, ktp) \<leftarrow> copy_selected wants_tcp buf [0..<n] (callback_buffer_tcp_payload s, 0);
          (tn, ktn) \<leftarrow> copy_selected wants_tcp_no_payload buf [0..<n] (callback_buffer_tcp_no_payload s, 0);
          (u, ku) \<leftarrow> copy_selected wants_udp buf [0..<n] (callback_buffer_udp s, 0);
          (o', ko) \<leftarrow> copy_selected wants_non_tcp_udp buf [0..<n] (callback_buffer_non_tcp_udp s, 0);
          Some (s\<lparr>generic_http_packet_bitmask := generic, callback_buffer := buf, callback_buffer_size := n,
                  callback_buffer_tcp_payload := tp, callback_buffer_size_tcp_payload := ktp,
                  callback_buffer_tcp_no_payload := tn, callback_buffer_size_tcp_no_payload := ktn,
                  callback_buffer_udp := u, callback_buffer_size_udp := ku,
                  callback_buffer_non_tcp_udp := o', callback_buffer_size_non_tcp_udp := ko\<rparr>) }"

end
