(* ===== verification/Ipq_State.thy ===== *)
theory Ipq_State
  imports Ipq_Callbacks
begin

text \<open>
  The state of the detection module: the structs of \<^verbatim>\<open>ipq_main.h\<close> and \<^verbatim>\<open>ipq_structs.h\<close>. The packet
  a call inspects stays in the caller's memory, which the module only reads; it is a partial map
  from addresses to bytes, undefined where a read has undefined behaviour. Pointers into it are
  addresses, so a pointer that survives the packet it was set for is visible as such.
\<close>

type_synonym mem = "addr \<rightharpoonup> u8"

subsection \<open>Reads of packet memory\<close>

definition rd16be :: "mem \<Rightarrow> addr \<Rightarrow> u16 option" where
  "rd16be M a = do { x \<leftarrow> M a; y \<leftarrow> M (a + 1); Some (of_nat (be_val [x, y])) }"

definition rd32be :: "mem \<Rightarrow> addr \<Rightarrow> u32 option" where
  "rd32be M a = do { x \<leftarrow> M a; y \<leftarrow> M (a + 1); z \<leftarrow> M (a + 2); w \<leftarrow> M (a + 3); Some (of_nat (be_val [x, y, z, w])) }"

definition rd32le :: "mem \<Rightarrow> addr \<Rightarrow> u32 option" where
  "rd32le M a = do { x \<leftarrow> M a; y \<leftarrow> M (a + 1); z \<leftarrow> M (a + 2); w \<leftarrow> M (a + 3); Some (of_nat (le_val [x, y, z, w])) }"

text \<open>\<^verbatim>\<open>memcmp(p, lit, n) == 0\<close> on a literal of \<open>n\<close> bytes, all of which may be read.\<close>

fun mem_bytes :: "mem \<Rightarrow> addr \<Rightarrow> nat \<Rightarrow> bytes option" where
  "mem_bytes M a 0 = Some []"
| "mem_bytes M a (Suc n) = do { x \<leftarrow> M a; xs \<leftarrow> mem_bytes M (a + 1) n; Some (x # xs) }"

definition lit :: "string \<Rightarrow> bytes" where
  "lit s = List.map (\<lambda>c. of_nat (of_char c)) s"

definition mem_eq :: "mem \<Rightarrow> addr \<Rightarrow> string \<Rightarrow> bool option" where
  "mem_eq M a s = do { bs \<leftarrow> mem_bytes M a (length s); Some (bs = lit s) }"

text \<open>A readable window.\<close>

definition readable :: "mem \<Rightarrow> addr \<Rightarrow> nat \<Rightarrow> bool" where
  "readable M a n \<longleftrightarrow> (\<forall>i<n. M (a + i) \<noteq> None)"

text \<open>A memory that holds one packet, and the bytes of a window.\<close>

definition mem_of :: "addr \<Rightarrow> bytes \<Rightarrow> mem" where
  "mem_of p bs a = (if p \<le> a \<and> a < p + length bs then Some (bs ! (a - p)) else None)"

definition holds :: "mem \<Rightarrow> addr \<Rightarrow> bytes \<Rightarrow> bool" where
  "holds M a bs \<longleftrightarrow> (\<forall>i<length bs. M (a + i) = Some (bs ! i))"

lemma readable_at: "readable M p n \<Longrightarrow> p \<le> a \<Longrightarrow> a < p + n \<Longrightarrow> \<exists>x. M a = Some x"
  unfolding readable_def by (metis add.commute le_add_diff_inverse2 less_diff_conv2 not_None_eq)

lemma readable_sub: "readable M p n \<Longrightarrow> p \<le> a \<Longrightarrow> a + k \<le> p + n \<Longrightarrow> readable M a k"
  by (metis (no_types, lifting) add_strict_left_mono le_add1 not_None_eq order_less_le_trans order_trans
      readable_at readable_def)

lemma readable_0 [simp]: "readable M a 0"
  by (simp add: readable_def)

lemma readable_mono: "readable M p n \<Longrightarrow> k \<le> n \<Longrightarrow> readable M p k"
  by (auto simp: readable_def)

lemma readable_mem_of: "p \<le> a \<Longrightarrow> a + n \<le> p + length bs \<Longrightarrow> readable (mem_of p bs) a n"
  by (auto simp: readable_def mem_of_def)

lemma holds_mem_of: "holds (mem_of p bs) p bs"
  by (auto simp: holds_def mem_of_def)

lemma holds_readable: "holds M a bs \<Longrightarrow> readable M a (length bs)"
  by (auto simp: holds_def readable_def)

lemma holds_Nil [simp]: "holds M a []"
  by (simp add: holds_def)

lemma holds_Cons: "holds M a (x # xs) \<longleftrightarrow> M a = Some x \<and> holds M (Suc a) xs"
  by (auto simp: holds_def less_Suc_eq_0_disj all_conj_distrib)

lemma holds_append: "holds M a (xs @ ys) \<longleftrightarrow> holds M a xs \<and> holds M (a + length xs) ys"
  by (induction xs arbitrary: a) (auto simp: holds_Cons)

lemma holds_at: "holds M p bs \<Longrightarrow> i < length bs \<Longrightarrow> M (p + i) = Some (bs ! i)"
  by (simp add: holds_def)

lemma holds_exists: "readable M a n \<Longrightarrow> \<exists>bs. length bs = n \<and> holds M a bs"
  by (rule exI [of _ "List.map (\<lambda>i. the (M (a + i))) [0..<n]"]) (auto simp: readable_def holds_def)

lemma mem_bytes_holds: "mem_bytes M a n = Some bs \<longleftrightarrow> length bs = n \<and> holds M a bs"
proof (induction n arbitrary: a bs)
  case 0
  then show ?case by auto
next
  case (Suc n)
  have "mem_bytes M a (Suc n) = Some bs \<longleftrightarrow> (\<exists>x xs. M a = Some x \<and> mem_bytes M (Suc a) n = Some xs \<and> bs = x # xs)"
    by (auto simp: bind_eq_Some_conv)
  then show ?case by (cases bs) (auto simp: holds_Cons Suc)
qed

lemma readable_bytes: "readable M a n \<Longrightarrow> \<exists>bs. mem_bytes M a n = Some bs \<and> length bs = n"
  using holds_exists [of M a n] mem_bytes_holds by blast

lemma length_lit [simp]: "length (lit s) = length s"
  by (simp add: lit_def)

lemma mem_eq_total: "readable M a (length s) \<Longrightarrow> \<exists>b. mem_eq M a s = Some b"
  using readable_bytes [of M a "length s"] by (auto simp: mem_eq_def)

lemma mem_eq_holds:
  assumes "holds M a bs" "length bs = length s"
  shows "mem_eq M a s = Some (bs = lit s)"
  using mem_bytes_holds [of M a "length s" bs] assms by (simp add: mem_eq_def)

lemma rd16be_total: "readable M a 2 \<Longrightarrow> \<exists>v. rd16be M a = Some v"
  using readable_at [of M a 2 a] readable_at [of M a 2 "a + 1"] by (auto simp: rd16be_def)

lemma rd32be_total: "readable M a 4 \<Longrightarrow> \<exists>v. rd32be M a = Some v"
  using readable_at [of M a 4 a] readable_at [of M a 4 "a + 1"] readable_at [of M a 4 "a + 2"]
    readable_at [of M a 4 "a + 3"] by (auto simp: rd32be_def)

lemma rd32le_total: "readable M a 4 \<Longrightarrow> \<exists>v. rd32le M a = Some v"
  using readable_at [of M a 4 a] readable_at [of M a 4 "a + 1"] readable_at [of M a 4 "a + 2"]
    readable_at [of M a 4 "a + 3"] by (auto simp: rd32le_def)

subsection \<open>The structs\<close>

abbreviation (input) IPOQUE_MAX_PARSE_LINES_PER_PACKET :: nat where "IPOQUE_MAX_PARSE_LINES_PER_PACKET \<equiv> 200"
abbreviation (input) MAX_PACKET_COUNTER :: u16 where "MAX_PACKET_COUNTER \<equiv> 65000"

record one_line =
  ol_ptr :: addr
  ol_len :: u16

text \<open>The one-bit field \<^verbatim>\<open>packet_direction\<close> is a bool, and an array of two indexed by it a pair.\<close>

record packet_struct =
  pk_iph :: addr
  pk_tcp :: addr
  pk_udp :: addr
  pk_generic_l4_ptr :: addr
  pk_payload :: addr
  pk_tick_timestamp :: u32
  pk_detected_protocol :: u32
  pk_line :: "one_line list"
  pk_unix_line :: "one_line list"
  pk_host_line :: one_line
  pk_referer_line :: one_line
  pk_content_line :: one_line
  pk_accept_line :: one_line
  pk_user_agent_line :: one_line
  pk_http_url_name :: one_line
  pk_http_encoding :: one_line
  pk_http_transfer_encoding :: one_line
  pk_http_contentlen :: one_line
  pk_http_cookie :: one_line
  pk_http_x_session_type :: one_line
  pk_l3_packet_len :: u16
  pk_l4_packet_len :: u16
  pk_payload_packet_len :: u16
  pk_actual_payload_len :: u16
  pk_num_retried_bytes :: u16
  pk_parsed_lines :: u16
  pk_parsed_unix_lines :: u16
  pk_empty_line_position :: u16
  pk_tcp_retransmission :: bool
  pk_detected_sub_protocol :: u8
  pk_l4_protocol :: u8
  pk_packet_lines_parsed_complete :: bool
  pk_packet_unix_lines_parsed_complete :: bool
  pk_empty_line_position_set :: bool
  pk_packet_direction :: bool

text \<open>The fields of a flow or an id that belong to one dissector are kept by name.\<close>

record flow_struct =
  fl_excluded :: protocol_bitmask
  fl_detected_protocol :: u32
  fl_next_tcp_seq_nr :: "u32 \<times> u32"
  fl_packet_counter :: u16
  fl_packet_direction_counter :: "u16 \<times> u16"
  fl_protocol_subtype :: u8
  fl_init_finished :: bool
  fl_setup_packet_direction :: bool
  fl_stage :: "string \<Rightarrow> nat"

record id_struct =
  id_detected :: protocol_bitmask
  id_field :: "string \<Rightarrow> nat"

text \<open>The module. The flow is the caller's, reached only through the module's pointer: it is kept by
  value, absent for a NULL pointer; \<open>ds_ids\<close> is the caller's store of id structs, which \<^verbatim>\<open>src\<close> and
  \<^verbatim>\<open>dst\<close> may share.\<close>

record detection_module = callbacks +
  ds_ticks_per_second :: u32
  ds_packet :: packet_struct
  ds_flow :: "flow_struct option"
  ds_src :: addr
  ds_dst :: addr
  ds_ids :: "addr \<rightharpoonup> id_struct"
  ds_tcp_max_retransmission_window_size :: u32
  ds_config :: "string \<Rightarrow> u32"

definition dir_get :: "bool \<Rightarrow> 'a \<times> 'a \<Rightarrow> 'a" where
  "dir_get d p = (if d then snd p else fst p)"

definition dir_set :: "bool \<Rightarrow> 'a \<Rightarrow> 'a \<times> 'a \<Rightarrow> 'a \<times> 'a" where
  "dir_set d x p = (if d then (fst p, x) else (x, snd p))"

lemma dir_get_set [simp]: "dir_get d (dir_set e x p) = (if d = e then x else dir_get d p)"
  by (auto simp: dir_get_def dir_set_def)

definition zero_line :: one_line where
  "zero_line = \<lparr>ol_ptr = NULL, ol_len = 0\<rparr>"

definition zero_flow :: flow_struct where
  "zero_flow = \<lparr>fl_excluded = IPOQUE_BITMASK_RESET, fl_detected_protocol = 0, fl_next_tcp_seq_nr = (0, 0),
     fl_packet_counter = 0, fl_packet_direction_counter = (0, 0), fl_protocol_subtype = 0,
     fl_init_finished = False, fl_setup_packet_direction = False, fl_stage = (\<lambda>_. 0)\<rparr>"

definition zero_packet :: packet_struct where
  "zero_packet = \<lparr>pk_iph = NULL, pk_tcp = NULL, pk_udp = NULL, pk_generic_l4_ptr = NULL, pk_payload = NULL,
     pk_tick_timestamp = 0, pk_detected_protocol = 0,
     pk_line = replicate IPOQUE_MAX_PARSE_LINES_PER_PACKET zero_line,
     pk_unix_line = replicate IPOQUE_MAX_PARSE_LINES_PER_PACKET zero_line,
     pk_host_line = zero_line, pk_referer_line = zero_line, pk_content_line = zero_line,
     pk_accept_line = zero_line, pk_user_agent_line = zero_line, pk_http_url_name = zero_line,
     pk_http_encoding = zero_line, pk_http_transfer_encoding = zero_line, pk_http_contentlen = zero_line,
     pk_http_cookie = zero_line, pk_http_x_session_type = zero_line,
     pk_l3_packet_len = 0, pk_l4_packet_len = 0, pk_payload_packet_len = 0, pk_actual_payload_len = 0,
     pk_num_retried_bytes = 0, pk_parsed_lines = 0, pk_parsed_unix_lines = 0, pk_empty_line_position = 0,
     pk_tcp_retransmission = False, pk_detected_sub_protocol = 0, pk_l4_protocol = 0,
     pk_packet_lines_parsed_complete = False, pk_packet_unix_lines_parsed_complete = False,
     pk_empty_line_position_set = False, pk_packet_direction = False\<rparr>"

end
