(* ===== verification/Ipq_Packet.thy ===== *)
theory Ipq_Packet
  imports Ipq_State
begin

text \<open>
  Parsing of the IPv4, TCP and UDP headers (\<^verbatim>\<open>ipq_init_packet_header\<close>) and the tracking of the
  connection (\<^verbatim>\<open>ipoque_connection_tracking\<close>) of \<^verbatim>\<open>ipq_main.c\<close>.
\<close>

subsection \<open>Header fields\<close>

text \<open>The bit fields of \<^verbatim>\<open>struct iphdr\<close> and \<^verbatim>\<open>struct tcphdr\<close> on a little-endian machine, and the
  fields that are wider than a byte. \<^verbatim>\<open>saddr\<close> and \<^verbatim>\<open>daddr\<close> are compared as the machine reads them.\<close>

definition ip_version :: "mem \<Rightarrow> addr \<Rightarrow> nat option" where
  "ip_version M p = do { x \<leftarrow> M p; Some (unat x div 16) }"

definition ip_ihl :: "mem \<Rightarrow> addr \<Rightarrow> nat option" where
  "ip_ihl M p = do { x \<leftarrow> M p; Some (unat x mod 16) }"

definition ip_tot_len :: "mem \<Rightarrow> addr \<Rightarrow> u16 option" where
  "ip_tot_len M p = rd16be M (p + 2)"

definition ip_frag_off :: "mem \<Rightarrow> addr \<Rightarrow> u16 option" where
  "ip_frag_off M p = rd16be M (p + 6)"

definition ip_protocol :: "mem \<Rightarrow> addr \<Rightarrow> u8 option" where
  "ip_protocol M p = M (p + 9)"

definition ip_saddr :: "mem \<Rightarrow> addr \<Rightarrow> u32 option" where
  "ip_saddr M p = rd32le M (p + 12)"

definition ip_daddr :: "mem \<Rightarrow> addr \<Rightarrow> u32 option" where
  "ip_daddr M p = rd32le M (p + 16)"

definition l4_source :: "mem \<Rightarrow> addr \<Rightarrow> u16 option" where
  "l4_source M p = rd16be M p"

definition l4_dest :: "mem \<Rightarrow> addr \<Rightarrow> u16 option" where
  "l4_dest M p = rd16be M (p + 2)"

definition tcp_seq :: "mem \<Rightarrow> addr \<Rightarrow> u32 option" where
  "tcp_seq M p = rd32be M (p + 4)"

definition tcp_ack_seq :: "mem \<Rightarrow> addr \<Rightarrow> u32 option" where
  "tcp_ack_seq M p = rd32be M (p + 8)"

definition tcp_doff :: "mem \<Rightarrow> addr \<Rightarrow> nat option" where
  "tcp_doff M p = do { x \<leftarrow> M (p + 12); Some (unat x div 16) }"

definition tcp_flag :: "mem \<Rightarrow> addr \<Rightarrow> nat \<Rightarrow> bool option" where
  "tcp_flag M p n = do { x \<leftarrow> M (p + 13); Some (bit x n) }"

abbreviation (input) "tcp_syn M p \<equiv> tcp_flag M p 1"
abbreviation (input) "tcp_rst M p \<equiv> tcp_flag M p 2"
abbreviation (input) "tcp_ack M p \<equiv> tcp_flag M p 4"

abbreviation (input) IP_FRAG_MASK :: u16 where "IP_FRAG_MASK \<equiv> 0x1FFF"

subsection \<open>\<^verbatim>\<open>ipq_init_packet_header\<close>\<close>

text \<open>\<^verbatim>\<open>memset(flow, 0, ...)\<close> for a SYN without ACK on a known but undetected flow.\<close>

definition reset_on_syn :: "bool \<Rightarrow> bool \<Rightarrow> flow_struct option \<Rightarrow> flow_struct option" where
  "reset_on_syn syn ack fl = (case fl of None \<Rightarrow> None | Some f \<Rightarrow>
     if syn \<and> \<not> ack \<and> fl_init_finished f \<and> fl_detected_protocol f = 0 then Some zero_flow else Some f)"

definition init_tcp :: "mem \<Rightarrow> addr \<Rightarrow> u16 \<Rightarrow> detection_module \<Rightarrow> detection_module option" where
  "init_tcp M l4 l4len m =
     do { doff \<leftarrow> tcp_doff M l4;
          let pk = (ds_packet m)\<lparr>pk_tcp := l4\<rparr>;
          if doff * 4 \<le> unat l4len
          then do { let plen = l4len - of_nat (doff * 4);
                    syn \<leftarrow> tcp_syn M l4; ack \<leftarrow> tcp_ack M l4;
                    Some (m\<lparr>ds_packet := pk\<lparr>pk_payload_packet_len := plen, pk_actual_payload_len := plen,
                              pk_payload := l4 + doff * 4\<rparr>,
                            ds_flow := reset_on_syn syn ack (ds_flow m)\<rparr>) }
          else Some (m\<lparr>ds_packet := pk\<lparr>pk_tcp := NULL\<rparr>\<rparr>) }"

text \<open>The result is 0 (go on) or 1 (not an IPv4 packet this library inspects). \<open>l4len\<close> is computed in
  16 bits.\<close>

definition ipq_init_packet_header :: "mem \<Rightarrow> u16 \<Rightarrow> detection_module \<Rightarrow> (nat \<times> detection_module) option" where
  "ipq_init_packet_header M packetlen m =
     do { let p = pk_iph (ds_packet m);
          let pk = (ds_packet m)\<lparr>pk_payload_packet_len := 0, pk_l4_packet_len := 0, pk_l3_packet_len := packetlen,
                     pk_tcp := NULL, pk_udp := NULL, pk_generic_l4_ptr := NULL\<rparr>;
          version \<leftarrow> ip_version M p; ihl \<leftarrow> ip_ihl M p;
          if \<not> (version = 4 \<and> 5 \<le> ihl)
          then Some (1, m\<lparr>ds_packet := pk\<lparr>pk_iph := NULL\<rparr>\<rparr>)
          else do {
            tot_len \<leftarrow> ip_tot_len M p; frag \<leftarrow> ip_frag_off M p;
            if ihl * 4 \<le> unat packetlen \<and> tot_len \<le> packetlen \<and> frag AND IP_FRAG_MASK = 0
            then do {
              protocol \<leftarrow> ip_protocol M p;
              let l4 = p + ihl * 4;
              let l4len = tot_len - of_nat (ihl * 4);
              let m = m\<lparr>ds_packet := pk\<lparr>pk_l4_protocol := protocol, pk_l4_packet_len := l4len\<rparr>\<rparr>;
              if protocol = 6 \<and> 20 \<le> l4len
              then do { m \<leftarrow> init_tcp M l4 l4len m; Some (0, m) }
              else if protocol = 17 \<and> 8 \<le> l4len
              then Some (0, m\<lparr>ds_packet := (ds_packet m)\<lparr>pk_udp := l4, pk_payload_packet_len := l4len - 8,
                                 pk_payload := l4 + 8\<rparr>\<rparr>)
              else Some (0, m\<lparr>ds_packet := (ds_packet m)\<lparr>pk_generic_l4_ptr := l4\<rparr>\<rparr>) }
            else Some (1, m\<lparr>ds_packet := pk\<rparr>) } }"

subsection \<open>\<^verbatim>\<open>ipoque_connection_tracking\<close>\<close>

text \<open>The update of the TCP sequence counters, on the packet and the flow.\<close>

definition track_tcp :: "u32 \<Rightarrow> u32 \<Rightarrow> u32 \<Rightarrow> bool \<Rightarrow> packet_struct \<Rightarrow> flow_struct \<Rightarrow> packet_struct \<times> flow_struct" where
  "track_tcp window seq ack_seq rst pk fl =
     (let dir = pk_packet_direction pk;
          plen = (ucast (pk_payload_packet_len pk) :: u32);
          nx = fl_next_tcp_seq_nr fl;
          expected = dir_get dir nx;
          advanced = dir_set dir (seq + plen) nx;
          (retransmission, retried, actual, nx) =
            (if nx = (0, 0)
             then (if seq \<noteq> 0 \<and> ack_seq \<noteq> 0
                   then (pk_tcp_retransmission pk, 0, pk_actual_payload_len pk, dir_set (\<not> dir) ack_seq advanced)
                   else (pk_tcp_retransmission pk, 0, pk_actual_payload_len pk, nx))
             else if pk_payload_packet_len pk > 0
             then (if seq - expected > window
                   then (if expected - seq < plen
                         then (True, ucast (expected - seq), pk_payload_packet_len pk - ucast (expected - seq), advanced)
                         else (True, 0, pk_actual_payload_len pk, nx))
                   else (pk_tcp_retransmission pk, 0, pk_actual_payload_len pk, advanced))
             else (pk_tcp_retransmission pk, 0, pk_actual_payload_len pk, nx))
      in (pk\<lparr>pk_tcp_retransmission := retransmission, pk_num_retried_bytes := retried, pk_actual_payload_len := actual\<rparr>,
          fl\<lparr>fl_next_tcp_seq_nr := (if rst then (0, 0) else nx)\<rparr>))"

definition count_up :: "bool \<Rightarrow> u16 \<Rightarrow> u16" where
  "count_up payload c = (if c < MAX_PACKET_COUNTER \<and> payload then c + 1 else c)"

definition count_packet :: "packet_struct \<Rightarrow> flow_struct \<Rightarrow> flow_struct" where
  "count_packet pk fl =
     (let dir = pk_packet_direction pk; payload = pk_payload_packet_len pk \<noteq> 0
      in fl\<lparr>fl_packet_counter := count_up payload (fl_packet_counter fl),
            fl_packet_direction_counter := dir_set dir
              (count_up payload (dir_get dir (fl_packet_direction_counter fl))) (fl_packet_direction_counter fl)\<rparr>)"

definition packet_direction :: "mem \<Rightarrow> addr \<Rightarrow> bool option" where
  "packet_direction M iph = (if iph \<noteq> NULL
     then do { s \<leftarrow> ip_saddr M iph; d \<leftarrow> ip_daddr M iph; Some (s < d) } else Some False)"

definition track_segment ::
    "mem \<Rightarrow> u32 \<Rightarrow> packet_struct \<Rightarrow> flow_struct \<Rightarrow> (packet_struct \<times> flow_struct) option" where
  "track_segment M window pk fl = (if pk_tcp pk \<noteq> NULL
     then do { seq \<leftarrow> tcp_seq M (pk_tcp pk); ack_seq \<leftarrow> tcp_ack_seq M (pk_tcp pk); rst \<leftarrow> tcp_rst M (pk_tcp pk);
               Some (track_tcp window seq ack_seq rst pk fl) }
     else Some (pk, fl))"

definition ipoque_connection_tracking :: "mem \<Rightarrow> detection_module \<Rightarrow> detection_module option" where
  "ipoque_connection_tracking M m =
     do { dir \<leftarrow> packet_direction M (pk_iph (ds_packet m));
          let pk = (ds_packet m)\<lparr>pk_detected_protocol := 0, pk_tcp_retransmission := False, pk_packet_direction := dir,
                     pk_packet_lines_parsed_complete := False, pk_packet_unix_lines_parsed_complete := False\<rparr>;
          case ds_flow m of
            None \<Rightarrow> Some (m\<lparr>ds_packet := pk\<rparr>)
          | Some fl \<Rightarrow> do {
              let fl = (if fl_init_finished fl then fl
                        else fl\<lparr>fl_init_finished := True, fl_setup_packet_direction := dir\<rparr>);
              let pk = pk\<lparr>pk_detected_protocol := fl_detected_protocol fl,
                          pk_detected_sub_protocol := fl_protocol_subtype fl\<rparr>;
              (pk, fl) \<leftarrow> track_segment M (ds_tcp_max_retransmission_window_size m) pk fl;
              Some (m\<lparr>ds_packet := pk, ds_flow := Some (count_packet pk fl)\<rparr>) } }"

subsection \<open>Safety of the header parser\<close>

text \<open>Everything the dissectors may look at: the payload and the headers the packet struct points to.\<close>

definition windows_ok :: "mem \<Rightarrow> packet_struct \<Rightarrow> bool" where
  "windows_ok M pk \<longleftrightarrow> readable M (pk_payload pk) (unat (pk_payload_packet_len pk))
     \<and> (pk_iph pk \<noteq> NULL \<longrightarrow> readable M (pk_iph pk) 20)
     \<and> (pk_tcp pk \<noteq> NULL \<longrightarrow> readable M (pk_tcp pk) 20)
     \<and> (pk_udp pk \<noteq> NULL \<longrightarrow> readable M (pk_udp pk) 8)"

text \<open>The total length of the IP header covers the header itself.\<close>

definition sized :: "mem \<Rightarrow> addr \<Rightarrow> bool" where
  "sized M p \<longleftrightarrow> (case (ip_ihl M p, ip_tot_len M p) of (Some ihl, Some t) \<Rightarrow> ihl * 4 \<le> unat t | _ \<Rightarrow> False)"

lemma ip_fields_total:
  assumes "readable M p 20"
  shows "\<exists>v. ip_version M p = Some v" "\<exists>v. ip_ihl M p = Some v \<and> v < 16" "\<exists>v. ip_tot_len M p = Some v"
    "\<exists>v. ip_frag_off M p = Some v" "\<exists>v. ip_protocol M p = Some v" "\<exists>v. ip_saddr M p = Some v"
    "\<exists>v. ip_daddr M p = Some v"
  using assms readable_at [OF assms, of p] readable_at [OF assms, of "p + 9"]
    rd16be_total [OF readable_sub [OF assms, of "p + 2" 2]] rd16be_total [OF readable_sub [OF assms, of "p + 6" 2]]
    rd32le_total [OF readable_sub [OF assms, of "p + 12" 4]] rd32le_total [OF readable_sub [OF assms, of "p + 16" 4]]
  by (auto simp: ip_version_def ip_ihl_def ip_tot_len_def ip_frag_off_def ip_protocol_def ip_saddr_def ip_daddr_def)

lemma tcp_fields_total:
  assumes "readable M p 20"
  shows "\<exists>v. tcp_seq M p = Some v" "\<exists>v. tcp_ack_seq M p = Some v" "\<exists>v. tcp_doff M p = Some v \<and> v < 16"
    "\<exists>v. tcp_flag M p n = Some v" "\<exists>v. l4_source M p = Some v" "\<exists>v. l4_dest M p = Some v"
  using assms readable_at [OF assms, of "p + 12"] readable_at [OF assms, of "p + 13"]
    rd16be_total [OF readable_sub [OF assms, of p 2]] rd16be_total [OF readable_sub [OF assms, of "p + 2" 2]]
    rd32be_total [OF readable_sub [OF assms, of "p + 4" 4]] rd32be_total [OF readable_sub [OF assms, of "p + 8" 4]]
  by (auto simp: tcp_seq_def tcp_ack_seq_def tcp_doff_def tcp_flag_def l4_source_def l4_dest_def div_less_iff_less_mult)

lemma udp_fields_total:
  assumes "readable M p 8"
  shows "\<exists>v. l4_source M p = Some v" "\<exists>v. l4_dest M p = Some v"
  using rd16be_total [OF readable_sub [OF assms, of p 2]] rd16be_total [OF readable_sub [OF assms, of "p + 2" 2]]
  by (auto simp: l4_source_def l4_dest_def)

lemma u16_minus_nat: "n \<le> unat (w :: u16) \<Longrightarrow> unat (w - of_nat n) = unat w - n"
proof -
  assume n: "n \<le> unat w"
  then have "unat (of_nat n :: u16) = n" using unat_u16_less [of w] by (simp add: unat_of_nat take_bit_eq_mod)
  then show ?thesis using n by (metis unat_sub word_le_nat_alt)
qed

lemma u16_le_iff: "(a :: u16) \<le> b \<longleftrightarrow> unat a \<le> unat b"
  by (rule word_le_nat_alt)

text \<open>What the header parser leaves alone.\<close>

definition same_lines :: "packet_struct \<Rightarrow> packet_struct \<Rightarrow> bool" where
  "same_lines pk pk' \<longleftrightarrow> pk_line pk' = pk_line pk \<and> pk_unix_line pk' = pk_unix_line pk
     \<and> pk_referer_line pk' = pk_referer_line pk"

definition same_config :: "detection_module \<Rightarrow> detection_module \<Rightarrow> bool" where
  "same_config m m' \<longleftrightarrow> callbacks.truncate m' = callbacks.truncate m
     \<and> ds_tcp_max_retransmission_window_size m' = ds_tcp_max_retransmission_window_size m"

lemma same_config_refl [simp]: "same_config m m"
  by (simp add: same_config_def)

lemma same_config_trans: "same_config a b \<Longrightarrow> same_config b c \<Longrightarrow> same_config a c"
  by (simp add: same_config_def)

lemma same_config_upd [simp]:
  "same_config m (m'\<lparr>ds_packet := pk\<rparr>) = same_config m m'" "same_config m (m'\<lparr>ds_flow := fl\<rparr>) = same_config m m'"
  "same_config m (m'\<lparr>ds_src := a\<rparr>) = same_config m m'" "same_config m (m'\<lparr>ds_dst := a\<rparr>) = same_config m m'"
  "same_config m (m'\<lparr>ds_ids := i\<rparr>) = same_config m m'"
  "same_config (m\<lparr>ds_packet := pk\<rparr>) m' = same_config m m'" "same_config (m\<lparr>ds_flow := fl\<rparr>) m' = same_config m m'"
  "same_config (m\<lparr>ds_src := a\<rparr>) m' = same_config m m'" "same_config (m\<lparr>ds_dst := a\<rparr>) m' = same_config m m'"
  "same_config (m\<lparr>ds_ids := i\<rparr>) m' = same_config m m'"
  by (auto simp: same_config_def callbacks.defs)

lemma reset_on_syn_cases: "reset_on_syn syn ack fl = fl \<or> (fl \<noteq> None \<and> reset_on_syn syn ack fl = Some zero_flow)"
  by (auto simp: reset_on_syn_def split: option.splits)

lemma reset_on_syn_None [simp]: "reset_on_syn syn ack fl = None \<longleftrightarrow> fl = None"
  by (auto simp: reset_on_syn_def split: option.splits)

text \<open>The result of a successful header parse: which transport header was found and where.\<close>

definition header_view :: "addr \<Rightarrow> nat \<Rightarrow> nat \<Rightarrow> packet_struct \<Rightarrow> bool" where
  "header_view p n r pk \<longleftrightarrow>
     (r = 0 \<or> (pk_tcp pk = NULL \<and> pk_udp pk = NULL \<and> pk_payload_packet_len pk = 0))
   \<and> (pk_tcp pk \<noteq> NULL \<longrightarrow> pk_udp pk = NULL \<and> pk_l4_protocol pk = 6 \<and> p + 20 \<le> pk_tcp pk \<and> pk_tcp pk + 20 \<le> p + n)
   \<and> (pk_udp pk \<noteq> NULL \<longrightarrow> pk_tcp pk = NULL \<and> pk_l4_protocol pk = 17 \<and> p + 20 \<le> pk_udp pk \<and> pk_udp pk + 8 \<le> p + n)
   \<and> (pk_payload_packet_len pk \<noteq> 0 \<longrightarrow> (pk_tcp pk \<noteq> NULL \<or> pk_udp pk \<noteq> NULL)
        \<and> p + 20 \<le> pk_payload pk \<and> pk_payload pk + unat (pk_payload_packet_len pk) \<le> p + n)"

lemma init_tcp_ok:
  assumes "readable M p n" "p + 20 \<le> l4" "l4 + unat l4len \<le> p + n" "20 \<le> unat l4len"
    and "pk_udp (ds_packet m) = NULL" "pk_l4_protocol (ds_packet m) = 6" "pk_payload_packet_len (ds_packet m) = 0"
  obtains m' where "init_tcp M l4 l4len m = Some m'" "header_view p n 0 (ds_packet m')"
    "pk_iph (ds_packet m') = pk_iph (ds_packet m)" "same_lines (ds_packet m) (ds_packet m')" "same_config m m'"
    "ds_flow m' = ds_flow m \<or> (ds_flow m \<noteq> None \<and> ds_flow m' = Some zero_flow)"
    "ds_ids m' = ds_ids m"
proof -
  have r: "readable M l4 20" by (rule readable_sub [OF assms(1)]) (use assms(2-4) in auto)
  obtain doff where doff: "tcp_doff M l4 = Some doff" using tcp_fields_total(3) [OF r] by blast
  obtain syn ack where fl: "tcp_syn M l4 = Some syn" "tcp_ack M l4 = Some ack" using tcp_fields_total(4) [OF r] by meson
  show thesis
  proof (cases "doff * 4 \<le> unat l4len")
    case True
    have len: "unat (l4len - of_nat (doff * 4)) = unat l4len - doff * 4" using u16_minus_nat [OF True] .
    show ?thesis
      by (rule that [of "m\<lparr>ds_packet := (ds_packet m)\<lparr>pk_tcp := l4, pk_payload_packet_len := l4len - of_nat (doff * 4),
              pk_actual_payload_len := l4len - of_nat (doff * 4), pk_payload := l4 + doff * 4\<rparr>,
            ds_flow := reset_on_syn syn ack (ds_flow m)\<rparr>"])
        (use True assms reset_on_syn_cases [of syn ack "ds_flow m"] len fl in
          \<open>auto simp: init_tcp_def doff Let_def header_view_def same_lines_def simp del: of_nat_mult One_nat_def\<close>)
  next
    case False
    show ?thesis
      by (rule that [of "m\<lparr>ds_packet := (ds_packet m)\<lparr>pk_tcp := NULL\<rparr>\<rparr>"])
        (use False assms in \<open>auto simp: init_tcp_def doff Let_def header_view_def same_lines_def\<close>)
  qed
qed

lemma header_ok:
  assumes "readable M p (unat packetlen)" "20 \<le> unat packetlen" "sized M p" "p \<noteq> NULL" "pk_iph (ds_packet m) = p"
  obtains r m' where "ipq_init_packet_header M packetlen m = Some (r, m')"
    "header_view p (unat packetlen) r (ds_packet m')" "r = 0 \<longrightarrow> pk_iph (ds_packet m') = p"
    "pk_iph (ds_packet m') = p \<or> pk_iph (ds_packet m') = NULL"
    "same_lines (ds_packet m) (ds_packet m')" "same_config m m'" "ds_ids m' = ds_ids m"
    "ds_flow m' = ds_flow m \<or> (ds_flow m \<noteq> None \<and> ds_flow m' = Some zero_flow)"
proof -
  let ?n = "unat packetlen"
  have r20: "readable M p 20" using readable_mono [OF assms(1,2)] .
  obtain v ihl tlen fr pr where h: "ip_version M p = Some v" "ip_ihl M p = Some ihl" "ip_tot_len M p = Some tlen"
    "ip_frag_off M p = Some fr" "ip_protocol M p = Some pr" "ihl < 16"
    using ip_fields_total [OF r20] by metis
  have sz: "ihl * 4 \<le> unat tlen" using assms(3) h by (simp add: sized_def)
  define l4len where "l4len = tlen - of_nat (ihl * 4)"
  have len: "unat l4len = unat tlen - ihl * 4" unfolding l4len_def by (rule u16_minus_nat [OF sz])
  have z: "unat (8 :: u16) = 8" "unat (20 :: u16) = 20" by simp_all
  define pk where "pk = (ds_packet m)\<lparr>pk_payload_packet_len := 0, pk_l4_packet_len := 0, pk_l3_packet_len := packetlen,
      pk_tcp := NULL, pk_udp := NULL, pk_generic_l4_ptr := NULL\<rparr>"
  have fields: "pk_tcp pk = NULL" "pk_udp pk = NULL" "pk_payload_packet_len pk = 0" "pk_iph pk = p"
    "same_lines (ds_packet m) pk"
    by (simp_all add: pk_def assms(5) same_lines_def)
  define m1 where "m1 = m\<lparr>ds_packet := pk\<lparr>pk_l4_protocol := pr, pk_l4_packet_len := l4len\<rparr>\<rparr>"
  have run: "ipq_init_packet_header M packetlen m =
      (if \<not> (v = 4 \<and> 5 \<le> ihl) then Some (1, m\<lparr>ds_packet := pk\<lparr>pk_iph := NULL\<rparr>\<rparr>)
       else if ihl * 4 \<le> ?n \<and> tlen \<le> packetlen \<and> fr AND IP_FRAG_MASK = 0
       then if pr = 6 \<and> 20 \<le> l4len then do { m \<leftarrow> init_tcp M (p + ihl * 4) l4len m1; Some (0, m) }
            else if pr = 17 \<and> 8 \<le> l4len
            then Some (0, m1\<lparr>ds_packet := (ds_packet m1)\<lparr>pk_udp := p + ihl * 4, pk_payload_packet_len := l4len - 8,
                               pk_payload := p + ihl * 4 + 8\<rparr>\<rparr>)
            else Some (0, m1\<lparr>ds_packet := (ds_packet m1)\<lparr>pk_generic_l4_ptr := p + ihl * 4\<rparr>\<rparr>)
       else Some (1, m\<lparr>ds_packet := pk\<rparr>))"
    by (simp only: ipq_init_packet_header_def Let_def assms(5) h(1-5) bind.bind_lunit m1_def l4len_def pk_def)
  have m1: "pk_tcp (ds_packet m1) = NULL" "pk_udp (ds_packet m1) = NULL" "pk_payload_packet_len (ds_packet m1) = 0"
    "pk_iph (ds_packet m1) = p" "pk_l4_protocol (ds_packet m1) = pr" "same_lines (ds_packet m) (ds_packet m1)"
    "same_config m m1" "ds_flow m1 = ds_flow m" "ds_ids m1 = ds_ids m"
    using fields by (simp_all add: m1_def same_lines_def)
  consider (bad) "\<not> (v = 4 \<and> 5 \<le> ihl)"
    | (skip) "v = 4" "5 \<le> ihl" "\<not> (ihl * 4 \<le> ?n \<and> tlen \<le> packetlen \<and> fr AND IP_FRAG_MASK = 0)"
    | (ok) "v = 4" "5 \<le> ihl" "ihl * 4 \<le> ?n" "tlen \<le> packetlen" "fr AND IP_FRAG_MASK = 0" by blast
  then show thesis
  proof cases
    case bad
    then have "ipq_init_packet_header M packetlen m = Some (1, m\<lparr>ds_packet := pk\<lparr>pk_iph := NULL\<rparr>\<rparr>)"
      unfolding run by (simp only: if_P simp_thms)
    then show ?thesis by (rule that) (use fields in \<open>auto simp: header_view_def same_lines_def\<close>)
  next
    case skip
    then have "ipq_init_packet_header M packetlen m = Some (1, m\<lparr>ds_packet := pk\<rparr>)"
      unfolding run by (simp only: if_P if_not_P simp_thms)
    then show ?thesis by (rule that) (use fields in \<open>auto simp: header_view_def same_lines_def\<close>)
  next
    case ok
    have in_n: "unat tlen \<le> ?n" using ok(4) by (simp add: u16_le_iff)
    note go = run [simplified ok if_not_P if_P simp_thms]
    consider (tcp) "pr = 6" "20 \<le> l4len" | (udp) "pr = 17" "8 \<le> l4len"
      | (other) "\<not> (pr = 6 \<and> 20 \<le> l4len)" "\<not> (pr = 17 \<and> 8 \<le> l4len)" by blast
    then show ?thesis
    proof cases
      case tcp
      have "20 \<le> unat l4len" using tcp(2) by (simp add: u16_le_iff z)
      then obtain m' where m': "init_tcp M (p + ihl * 4) l4len m1 = Some m'" "header_view p ?n 0 (ds_packet m')"
        "pk_iph (ds_packet m') = pk_iph (ds_packet m1)" "same_lines (ds_packet m1) (ds_packet m')" "same_config m1 m'"
        "ds_flow m' = ds_flow m1 \<or> (ds_flow m1 \<noteq> None \<and> ds_flow m' = Some zero_flow)" "ds_ids m' = ds_ids m1"
        using init_tcp_ok [OF assms(1), of "p + ihl * 4" l4len m1] ok(2) sz in_n len tcp(1) m1 by auto
      have "ipq_init_packet_header M packetlen m = Some (0, m')" using go tcp m'(1) by simp
      then show ?thesis
        by (rule that) (use m' m1 in \<open>auto simp: same_lines_def intro: same_config_trans\<close>)
    next
      case udp
      have l8: "8 \<le> unat l4len" using udp(2) by (simp add: u16_le_iff z)
      then have sub8: "unat (l4len - 8) = unat l4len - 8" using u16_minus_nat [of 8 l4len] by simp
      have "ipq_init_packet_header M packetlen m = Some (0, m1\<lparr>ds_packet := (ds_packet m1)\<lparr>pk_udp := p + ihl * 4,
          pk_payload_packet_len := l4len - 8, pk_payload := p + ihl * 4 + 8\<rparr>\<rparr>)"
        using go udp by simp
      then show ?thesis
        by (rule that) (use udp ok(2) sz in_n len m1 l8 sub8 in \<open>auto simp: header_view_def same_lines_def\<close>)
    next
      case other
      have "ipq_init_packet_header M packetlen m
          = Some (0, m1\<lparr>ds_packet := (ds_packet m1)\<lparr>pk_generic_l4_ptr := p + ihl * 4\<rparr>\<rparr>)"
        using go unfolding if_not_P [OF other(1)] if_not_P [OF other(2)] .
      then show ?thesis by (rule that) (use m1 in \<open>auto simp: header_view_def same_lines_def\<close>)
    qed
  qed
qed

lemma header_view_windows:
  assumes "header_view p n r pk" "readable M p n" "20 \<le> n" "pk_iph pk = p \<or> pk_iph pk = NULL"
  shows "windows_ok M pk"
proof -
  have "readable M (pk_payload pk) (unat (pk_payload_packet_len pk))"
  proof (cases "pk_payload_packet_len pk = 0")
    case False
    then show ?thesis using assms(1) by (intro readable_sub [OF assms(2)]) (auto simp: header_view_def)
  qed simp
  moreover have "readable M (pk_tcp pk) 20" if "pk_tcp pk \<noteq> NULL"
    using assms(1) that by (intro readable_sub [OF assms(2)]) (auto simp: header_view_def)
  moreover have "readable M (pk_udp pk) 8" if "pk_udp pk \<noteq> NULL"
    using assms(1) that by (intro readable_sub [OF assms(2)]) (auto simp: header_view_def)
  moreover have "readable M p 20" using readable_mono [OF assms(2,3)] .
  ultimately show ?thesis using assms(4) by (auto simp: windows_ok_def)
qed

subsection \<open>Connection tracking\<close>

definition flow_ok :: "flow_struct \<Rightarrow> bool" where
  "flow_ok fl \<longleftrightarrow> fl_packet_counter fl \<le> MAX_PACKET_COUNTER
     \<and> (\<forall>d. dir_get d (fl_packet_direction_counter fl) \<le> MAX_PACKET_COUNTER)"

lemma zero_flow_ok [simp]: "flow_ok zero_flow"
  by (simp add: flow_ok_def zero_flow_def dir_get_def)

lemma saturating_le: "c \<le> n \<Longrightarrow> (if c < n \<and> b then c + 1 else c) \<le> (n :: u16)"
  by (auto intro: inc_le)

lemma count_up_le: "c \<le> MAX_PACKET_COUNTER \<Longrightarrow> count_up payload c \<le> MAX_PACKET_COUNTER"
  unfolding count_up_def by (rule saturating_le)

lemma count_packet_ok: "flow_ok fl \<Longrightarrow> flow_ok (count_packet pk fl)"
  by (simp add: count_packet_def flow_ok_def Let_def count_up_le)

lemma count_packet_frame [simp]:
  "fl_excluded (count_packet pk fl) = fl_excluded fl"
  "fl_detected_protocol (count_packet pk fl) = fl_detected_protocol fl"
  "fl_next_tcp_seq_nr (count_packet pk fl) = fl_next_tcp_seq_nr fl"
  "fl_init_finished (count_packet pk fl) = fl_init_finished fl"
  "fl_stage (count_packet pk fl) = fl_stage fl"
  by (simp_all add: count_packet_def Let_def)

definition same_windows :: "packet_struct \<Rightarrow> packet_struct \<Rightarrow> bool" where
  "same_windows pk pk' \<longleftrightarrow> pk_iph pk' = pk_iph pk \<and> pk_tcp pk' = pk_tcp pk \<and> pk_udp pk' = pk_udp pk
     \<and> pk_payload pk' = pk_payload pk \<and> pk_payload_packet_len pk' = pk_payload_packet_len pk
     \<and> pk_l4_protocol pk' = pk_l4_protocol pk \<and> pk_tcp_retransmission pk' = pk_tcp_retransmission pk"

lemma track_tcp_frame:
  assumes "track_tcp w seq ack rst pk fl = (pk', fl')"
  shows "same_lines pk pk'" "same_windows (pk\<lparr>pk_tcp_retransmission := pk_tcp_retransmission pk'\<rparr>) pk'"
    "pk_detected_protocol pk' = pk_detected_protocol pk" "pk_packet_direction pk' = pk_packet_direction pk"
    "pk_packet_lines_parsed_complete pk' = pk_packet_lines_parsed_complete pk"
    "pk_packet_unix_lines_parsed_complete pk' = pk_packet_unix_lines_parsed_complete pk"
    "fl_excluded fl' = fl_excluded fl" "fl_detected_protocol fl' = fl_detected_protocol fl"
    "fl_init_finished fl' = fl_init_finished fl" "fl_stage fl' = fl_stage fl" "flow_ok fl \<Longrightarrow> flow_ok fl'"
proof -
  obtain b r a n where "pk' = pk\<lparr>pk_tcp_retransmission := b, pk_num_retried_bytes := r, pk_actual_payload_len := a\<rparr>"
    "fl' = fl\<lparr>fl_next_tcp_seq_nr := n\<rparr>"
    using assms unfolding track_tcp_def Let_def case_prod_beta prod.inject by metis
  then show "same_lines pk pk'" "same_windows (pk\<lparr>pk_tcp_retransmission := pk_tcp_retransmission pk'\<rparr>) pk'"
    "pk_detected_protocol pk' = pk_detected_protocol pk" "pk_packet_direction pk' = pk_packet_direction pk"
    "pk_packet_lines_parsed_complete pk' = pk_packet_lines_parsed_complete pk"
    "pk_packet_unix_lines_parsed_complete pk' = pk_packet_unix_lines_parsed_complete pk"
    "fl_excluded fl' = fl_excluded fl" "fl_detected_protocol fl' = fl_detected_protocol fl"
    "fl_init_finished fl' = fl_init_finished fl" "fl_stage fl' = fl_stage fl" "flow_ok fl \<Longrightarrow> flow_ok fl'"
    by (simp_all add: same_lines_def same_windows_def flow_ok_def)
qed

text \<open>What a tracked module looks like: the flow is known, its protocol is the packet's, no line has been parsed.\<close>

definition tracked :: "detection_module \<Rightarrow> bool" where
  "tracked m \<longleftrightarrow> \<not> pk_packet_lines_parsed_complete (ds_packet m) \<and> \<not> pk_packet_unix_lines_parsed_complete (ds_packet m)
     \<and> (case ds_flow m of None \<Rightarrow> pk_detected_protocol (ds_packet m) = 0
        | Some fl \<Rightarrow> fl_init_finished fl \<and> pk_detected_protocol (ds_packet m) = fl_detected_protocol fl)"

lemma packet_direction_total:
  "iph \<noteq> NULL \<longrightarrow> readable M iph 20 \<Longrightarrow> \<exists>dir. packet_direction M iph = Some dir"
proof (cases "iph = NULL")
  case False
  assume "iph \<noteq> NULL \<longrightarrow> readable M iph 20"
  with False have "readable M iph 20" by blast
  then obtain s d where "ip_saddr M iph = Some s" "ip_daddr M iph = Some d" using ip_fields_total(6,7) by blast
  with False show ?thesis by (simp add: packet_direction_def)
qed (auto simp: packet_direction_def)

lemma tracking_ok:
  assumes "windows_ok M (ds_packet m)" "pred_option flow_ok (ds_flow m)"
  obtains m' where "ipoque_connection_tracking M m = Some m'" "tracked m'" "windows_ok M (ds_packet m')"
    "same_lines (ds_packet m) (ds_packet m')"
    "same_windows ((ds_packet m)\<lparr>pk_tcp_retransmission := pk_tcp_retransmission (ds_packet m')\<rparr>) (ds_packet m')"
    "same_config m m'" "pred_option flow_ok (ds_flow m')" "ds_flow m' = None \<longleftrightarrow> ds_flow m = None"
    "map_option fl_excluded (ds_flow m') = map_option fl_excluded (ds_flow m)"
    "map_option fl_detected_protocol (ds_flow m') = map_option fl_detected_protocol (ds_flow m)"
    "ds_ids m' = ds_ids m" "ds_src m' = ds_src m" "ds_dst m' = ds_dst m"
proof -
  let ?pk = "ds_packet m"
  have win: "same_windows (?pk\<lparr>pk_tcp_retransmission := b\<rparr>) pk' \<Longrightarrow> windows_ok M pk'" for b pk'
    using assms(1) by (auto simp: same_windows_def windows_ok_def)
  obtain dir where dir: "packet_direction M (pk_iph ?pk) = Some dir"
    using assms(1) packet_direction_total unfolding windows_ok_def by meson
  define pk where "pk = ?pk\<lparr>pk_detected_protocol := 0, pk_tcp_retransmission := False, pk_packet_direction := dir,
      pk_packet_lines_parsed_complete := False, pk_packet_unix_lines_parsed_complete := False\<rparr>"
  have pk: "same_lines ?pk pk" "same_windows (?pk\<lparr>pk_tcp_retransmission := False\<rparr>) pk" "pk_tcp pk = pk_tcp ?pk"
    "\<not> pk_packet_lines_parsed_complete pk" "\<not> pk_packet_unix_lines_parsed_complete pk" "pk_detected_protocol pk = 0"
    "\<not> pk_tcp_retransmission pk"
    by (simp_all add: pk_def same_lines_def same_windows_def)
  show thesis
  proof (cases "ds_flow m")
    case None
    have "ipoque_connection_tracking M m = Some (m\<lparr>ds_packet := pk\<rparr>)"
      by (simp only: ipoque_connection_tracking_def Let_def dir None bind.bind_lunit option.case pk_def)
    then show ?thesis
      by (rule that) (use pk None win [OF pk(2)] in \<open>auto simp: tracked_def\<close>)
  next
    case (Some fl)
    define fl1 where "fl1 = (if fl_init_finished fl then fl else fl\<lparr>fl_init_finished := True, fl_setup_packet_direction := dir\<rparr>)"
    define pk1 where "pk1 = pk\<lparr>pk_detected_protocol := fl_detected_protocol fl1, pk_detected_sub_protocol := fl_protocol_subtype fl1\<rparr>"
    have fl1: "fl_init_finished fl1" "fl_excluded fl1 = fl_excluded fl" "fl_detected_protocol fl1 = fl_detected_protocol fl"
      "flow_ok fl1"
      using assms(2) Some by (auto simp: fl1_def flow_ok_def)
    have pk1: "same_lines ?pk pk1" "same_windows (?pk\<lparr>pk_tcp_retransmission := False\<rparr>) pk1" "pk_tcp pk1 = pk_tcp ?pk"
      "\<not> pk_packet_lines_parsed_complete pk1" "\<not> pk_packet_unix_lines_parsed_complete pk1"
      "pk_detected_protocol pk1 = fl_detected_protocol fl" "\<not> pk_tcp_retransmission pk1"
      using pk fl1 by (simp_all add: pk1_def same_lines_def same_windows_def)
    obtain pk2 fl2 where t: "track_segment M (ds_tcp_max_retransmission_window_size m) pk1 fl1 = Some (pk2, fl2)"
      and f: "same_lines pk1 pk2" "same_windows (pk1\<lparr>pk_tcp_retransmission := pk_tcp_retransmission pk2\<rparr>) pk2"
        "pk_detected_protocol pk2 = pk_detected_protocol pk1"
        "\<not> pk_packet_lines_parsed_complete pk2" "\<not> pk_packet_unix_lines_parsed_complete pk2"
        "fl_excluded fl2 = fl_excluded fl1" "fl_detected_protocol fl2 = fl_detected_protocol fl1" "fl_init_finished fl2"
        "flow_ok fl2"
    proof (cases "pk_tcp pk1 = NULL")
      case True
      then show ?thesis using that [of pk1 fl1] pk1 fl1 by (simp add: track_segment_def same_lines_def same_windows_def)
    next
      case False
      then have "readable M (pk_tcp pk1) 20" using assms(1) pk1(3) by (simp add: windows_ok_def)
      then obtain seq ack rst where h: "tcp_seq M (pk_tcp pk1) = Some seq" "tcp_ack_seq M (pk_tcp pk1) = Some ack"
        "tcp_rst M (pk_tcp pk1) = Some rst"
        using tcp_fields_total by meson
      obtain pk2 fl2 where "track_tcp (ds_tcp_max_retransmission_window_size m) seq ack rst pk1 fl1 = (pk2, fl2)"
        by fastforce
      with track_tcp_frame [OF this] show ?thesis using that [of pk2 fl2] h False pk1 fl1 by (simp add: track_segment_def)
    qed
    define m' where "m' = m\<lparr>ds_packet := pk2, ds_flow := Some (count_packet pk2 fl2)\<rparr>"
    have m': "ds_packet m' = pk2" "ds_flow m' = Some (count_packet pk2 fl2)" "same_config m m'" "ds_ids m' = ds_ids m"
      "ds_src m' = ds_src m" "ds_dst m' = ds_dst m"
      by (simp_all add: m'_def)
    have w: "same_windows (?pk\<lparr>pk_tcp_retransmission := pk_tcp_retransmission pk2\<rparr>) pk2"
      using f(2) pk1(2) by (simp add: same_windows_def)
    have "ipoque_connection_tracking M m = Some m'"
      using t by (simp only: ipoque_connection_tracking_def Let_def dir Some bind.bind_lunit option.case pk_def pk1_def
          fl1_def m'_def prod.case)
    moreover have "tracked m'" using f pk1 fl1 by (simp add: tracked_def m')
    moreover have "windows_ok M (ds_packet m')" unfolding m' by (rule win [OF w])
    moreover have "same_lines ?pk (ds_packet m')" using f(1) pk1(1) by (simp add: same_lines_def m')
    moreover have "same_windows (?pk\<lparr>pk_tcp_retransmission := pk_tcp_retransmission (ds_packet m')\<rparr>) (ds_packet m')"
      unfolding m' by (rule w)
    moreover have "pred_option flow_ok (ds_flow m')" using f(9) by (simp add: m' count_packet_ok)
    moreover have "ds_flow m' = None \<longleftrightarrow> ds_flow m = None" by (simp add: m' Some)
    moreover have "map_option fl_excluded (ds_flow m') = map_option fl_excluded (ds_flow m)"
      "map_option fl_detected_protocol (ds_flow m') = map_option fl_detected_protocol (ds_flow m)"
      using f fl1 Some by (simp_all add: m')
    ultimately show ?thesis
      by (rule that [OF _ _ _ _ _ m'(3) _ _ _ _ m'(4-6)])
  qed
qed

subsection \<open>Bounds of the header parser\<close>

lemma header_windows:
  assumes "readable M p (unat len)" "20 \<le> unat len" "sized M p" "p \<noteq> NULL" "pk_iph (ds_packet m) = p"
  obtains r m' where "ipq_init_packet_header M len m = Some (r, m')" "windows_ok M (ds_packet m')"
    "pk_tcp (ds_packet m') \<noteq> NULL \<Longrightarrow> p + 20 \<le> pk_tcp (ds_packet m') \<and> pk_tcp (ds_packet m') + 20 \<le> p + unat len"
    "pk_udp (ds_packet m') \<noteq> NULL \<Longrightarrow> p + 20 \<le> pk_udp (ds_packet m') \<and> pk_udp (ds_packet m') + 8 \<le> p + unat len"
    "pk_payload_packet_len (ds_packet m') \<noteq> 0 \<Longrightarrow> p + 20 \<le> pk_payload (ds_packet m')
       \<and> pk_payload (ds_packet m') + unat (pk_payload_packet_len (ds_packet m')) \<le> p + unat len"
proof -
  obtain r m' where h: "ipq_init_packet_header M len m = Some (r, m')" "header_view p (unat len) r (ds_packet m')"
    "pk_iph (ds_packet m') = p \<or> pk_iph (ds_packet m') = NULL"
    by (rule header_ok [OF assms])
  show thesis
    by (rule that [OF h(1) header_view_windows [OF h(2) assms(1,2) h(3)]]) (use h(2) in \<open>simp_all add: header_view_def\<close>)
qed

text \<open>A total length below the header length: the length of the payload wraps around.\<close>

lemma short_total_length:
  assumes "length bs = 20" "bs ! 0 = 0x45" "bs ! 2 = 0" "bs ! 3 < 20" "bs ! 6 = 0" "bs ! 7 = 0" "bs ! 9 = 6"
    and "pk_iph (ds_packet m) = p"
  shows "ipq_init_packet_header (mem_of p bs) 20 m = None"
proof -
  have at: "mem_of p bs (p + i) = Some (bs ! i)" if "i < 20" for i
    using that assms(1) by (simp add: mem_of_def)
  have b3: "unat (bs ! 3) < 20" using assms(4) by (simp add: word_less_nat_alt)
  define t :: u16 where "t = of_nat (unat (bs ! 3))"
  have ut: "unat t = unat (bs ! 3)" unfolding t_def using b3 by (intro unat_of_nat_u16) simp
  have nxt: "p + 2 + 1 = p + 3" "p + 6 + 1 = p + 7" by simp_all
  have "rd16be (mem_of p bs) (p + 2) = Some t" "rd16be (mem_of p bs) (p + 6) = Some 0"
    unfolding rd16be_def nxt using at [of 2] at [of 3] at [of 6] at [of 7] assms(3,5,6)
    by (simp_all add: be_val_def t_def)
  then have f: "ip_version (mem_of p bs) p = Some 4" "ip_ihl (mem_of p bs) p = Some 5" "ip_tot_len (mem_of p bs) p = Some t"
    "ip_frag_off (mem_of p bs) p = Some 0" "ip_protocol (mem_of p bs) p = Some 6"
    using at [of 0] at [of 9] assms(2,7)
    by (simp_all add: ip_version_def ip_ihl_def ip_tot_len_def ip_frag_off_def ip_protocol_def)
  have le: "t \<le> 20" using ut b3 by (simp add: word_le_nat_alt)
  have "uint t = int (unat (bs ! 3))" using ut by (metis uint_nat)
  moreover have "(x - 20) mod 65536 = 65536 + x - 20" if "0 \<le> x" "x < 20" for x :: int
    using that mod_add_self2 [of "x - 20" 65536] by simp
  moreover have "uint (bs ! 3) < 20" using assms(4) by (simp add: word_less_def)
  ultimately have "uint (t - 20) = 65536 + int (unat (bs ! 3)) - 20"
    unfolding uint_word_ariths by simp
  then have "20 \<le> t - 20" unfolding word_le_def by simp
  moreover have "tcp_doff (mem_of p bs) (p + 20) = None" using assms(1) by (simp add: tcp_doff_def mem_of_def)
  ultimately show ?thesis
    using f le assms(8) by (simp add: ipq_init_packet_header_def init_tcp_def Let_def)
qed


subsection \<open>What the tracking computes\<close>

lemma track_forward:
  assumes "fl_next_tcp_seq_nr fl \<noteq> (0, 0)" "0 < pk_payload_packet_len pk"
    and "seq - dir_get (pk_packet_direction pk) (fl_next_tcp_seq_nr fl) \<le> window"
  shows "track_tcp window seq ack False pk fl =
    (pk\<lparr>pk_num_retried_bytes := 0\<rparr>,
     fl\<lparr>fl_next_tcp_seq_nr := dir_set (pk_packet_direction pk) (seq + ucast (pk_payload_packet_len pk)) (fl_next_tcp_seq_nr fl)\<rparr>)"
  using assms unfolding track_tcp_def Let_def by (simp add: not_less)

lemma u32_behind:
  fixes e :: u32
  assumes "0 < d" "d < 2 ^ 32 - unat window" "seq = e - of_nat d"
  shows "window < seq - e" "e - seq = of_nat d" "unat (of_nat d :: u32) = d"
proof -
  have d: "d < 2 ^ 32" using assms(2) by simp
  then show u: "unat (of_nat d :: u32) = d" by (simp add: unat_of_nat take_bit_eq_mod)
  have "uint (of_nat d :: u32) = int d" using u by (metis uint_nat)
  then have "uint (- (of_nat d :: u32)) = 2 ^ 32 - int d"
    unfolding uint_word_ariths using d assms(1) by (simp add: zmod_zminus1_eq_if)
  then have "unat (- (of_nat d :: u32)) = 2 ^ 32 - d" unfolding unat_eq_nat_uint using d by simp
  then show "window < seq - e" using assms(2) by (simp add: assms(3) word_less_nat_alt)
  show "e - seq = of_nat d" by (simp add: assms(3))
qed

lemma track_behind:
  fixes d :: nat
  assumes "fl_next_tcp_seq_nr fl \<noteq> (0, 0)" "0 < pk_payload_packet_len pk" "0 < d" "d < 2 ^ 32 - unat window"
    and "seq = dir_get (pk_packet_direction pk) (fl_next_tcp_seq_nr fl) - of_nat d"
    and "track_tcp window seq ack False pk fl = (pk', fl')"
  shows "pk_tcp_retransmission pk'"
    and "d < unat (pk_payload_packet_len pk) \<Longrightarrow> unat (pk_num_retried_bytes pk') = d
      \<and> unat (pk_actual_payload_len pk') = unat (pk_payload_packet_len pk) - d
      \<and> fl_next_tcp_seq_nr fl' = dir_set (pk_packet_direction pk) (seq + ucast (pk_payload_packet_len pk)) (fl_next_tcp_seq_nr fl)"
    and "unat (pk_payload_packet_len pk) \<le> d \<Longrightarrow> pk_num_retried_bytes pk' = 0 \<and> fl' = fl"
proof -
  let ?e = "dir_get (pk_packet_direction pk) (fl_next_tcp_seq_nr fl)" and ?n = "pk_payload_packet_len pk"
  note b = u32_behind [OF assms(3,4,5)]
  have lt: "?e - seq < ucast ?n \<longleftrightarrow> d < unat ?n"
    by (simp only: b(2) word_less_nat_alt b(3)) simp
  have run: "track_tcp window seq ack False pk fl = (if d < unat ?n
      then (pk\<lparr>pk_tcp_retransmission := True, pk_num_retried_bytes := ucast (?e - seq),
              pk_actual_payload_len := ?n - ucast (?e - seq)\<rparr>,
            fl\<lparr>fl_next_tcp_seq_nr := dir_set (pk_packet_direction pk) (seq + ucast ?n) (fl_next_tcp_seq_nr fl)\<rparr>)
      else (pk\<lparr>pk_tcp_retransmission := True, pk_num_retried_bytes := 0\<rparr>, fl))"
    using assms(1,2) b(1) by (simp add: track_tcp_def Let_def lt)
  show "pk_tcp_retransmission pk'" using run assms(6) by (auto split: if_splits)
  show "unat ?n \<le> d \<Longrightarrow> pk_num_retried_bytes pk' = 0 \<and> fl' = fl" using run assms(6) by auto
  show "unat (pk_num_retried_bytes pk') = d \<and> unat (pk_actual_payload_len pk') = unat ?n - d
      \<and> fl_next_tcp_seq_nr fl' = dir_set (pk_packet_direction pk) (seq + ucast ?n) (fl_next_tcp_seq_nr fl)" if less: "d < unat ?n"
  proof -
    have u: "(ucast (?e - seq) :: u16) = of_nat d" unfolding b(2) using assms(4) by (simp add: unsigned_of_nat take_bit_nat_eq_self)
    have "unat (of_nat d :: u16) = d" using less unat_u16_less [of ?n] by (simp add: unat_of_nat take_bit_eq_mod)
    moreover have "unat (?n - of_nat d) = unat ?n - d" using less by (intro u16_minus_nat) simp
    ultimately show ?thesis using run assms(6) less by (auto simp: u)
  qed
qed

end
