(* ===== verification/Ipq_Lines.thy ===== *)
theory Ipq_Lines
  imports Ipq_Packet
begin

text \<open>
  The line parsers of \<^verbatim>\<open>ipq_main.c\<close>: \<^verbatim>\<open>ipq_parse_packet_line_info\<close> splits the payload at CR LF and
  notes the HTTP header lines the dissectors use, \<^verbatim>\<open>ipq_parse_packet_line_info_unix\<close> splits it at LF.
  A specification of the split lines and the lemmas that both parsers terminate, stay inside the
  payload and the arrays, and find these lines.
\<close>

subsection \<open>Header lines\<close>

fun mem_eq_any :: "mem \<Rightarrow> addr \<Rightarrow> string list \<Rightarrow> bool option" where
  "mem_eq_any M a [] = Some False"
| "mem_eq_any M a (s # ss) = do { b \<leftarrow> mem_eq M a s; if b then Some True else mem_eq_any M a ss }"

text \<open>\<^verbatim>\<open>if (line.len > n && memcmp(line.ptr, s, n) == 0 || ...) { f.ptr = &line.ptr[n]; f.len = line.len - n; }\<close>\<close>

definition note_line ::
    "mem \<Rightarrow> string list \<Rightarrow> nat \<Rightarrow> (one_line \<Rightarrow> packet_struct \<Rightarrow> packet_struct) \<Rightarrow> one_line
     \<Rightarrow> packet_struct \<Rightarrow> packet_struct option" where
  "note_line M ss n set_field ln pk =
     (if of_nat n < ol_len ln
      then do { b \<leftarrow> mem_eq_any M (ol_ptr ln) ss;
                Some (if b then set_field \<lparr>ol_ptr = ol_ptr ln + n, ol_len = ol_len ln - of_nat n\<rparr> pk else pk) }
      else Some pk)"

definition note_host :: "mem \<Rightarrow> one_line \<Rightarrow> packet_struct \<Rightarrow> packet_struct option" where
  "note_host M ln pk =
     (if 6 < ol_len ln
      then do { b \<leftarrow> mem_eq M (ol_ptr ln) ''Host:'';
                if b
                then do { c \<leftarrow> M (ol_ptr ln + 5);
                          let n = (if c = 0x20 then 6 else 5 :: nat);
                          Some (pk\<lparr>pk_host_line := \<lparr>ol_ptr = ol_ptr ln + n, ol_len = ol_len ln - of_nat n\<rparr>\<rparr>) }
                else Some pk }
      else Some pk)"

definition note_headers :: "mem \<Rightarrow> one_line \<Rightarrow> packet_struct \<Rightarrow> packet_struct option" where
  "note_headers M ln pk =
     do { pk \<leftarrow> note_host M ln pk;
          pk \<leftarrow> note_line M [''Content-Type: '', ''Content-type: ''] 14 (\<lambda>l pk. pk\<lparr>pk_content_line := l\<rparr>) ln pk;
          pk \<leftarrow> note_line M [''content-type:''] 13 (\<lambda>l pk. pk\<lparr>pk_content_line := l\<rparr>) ln pk;
          pk \<leftarrow> note_line M [''Accept: ''] 8 (\<lambda>l pk. pk\<lparr>pk_accept_line := l\<rparr>) ln pk;
          pk \<leftarrow> note_line M [''Referer: ''] 9 (\<lambda>l pk. pk\<lparr>pk_referer_line := l\<rparr>) ln pk;
          pk \<leftarrow> note_line M [''User-Agent: ''] 12 (\<lambda>l pk. pk\<lparr>pk_user_agent_line := l\<rparr>) ln pk;
          pk \<leftarrow> note_line M [''Content-Encoding: ''] 18 (\<lambda>l pk. pk\<lparr>pk_http_encoding := l\<rparr>) ln pk;
          pk \<leftarrow> note_line M [''Transfer-Encoding: ''] 19 (\<lambda>l pk. pk\<lparr>pk_http_transfer_encoding := l\<rparr>) ln pk;
          pk \<leftarrow> note_line M [''Content-Length: '', ''content-length: ''] 16 (\<lambda>l pk. pk\<lparr>pk_http_contentlen := l\<rparr>) ln pk;
          pk \<leftarrow> note_line M [''Cookie: ''] 8 (\<lambda>l pk. pk\<lparr>pk_http_cookie := l\<rparr>) ln pk;
          note_line M [''X-Session-Type: ''] 16 (\<lambda>l pk. pk\<lparr>pk_http_x_session_type := l\<rparr>) ln pk }"

subsection \<open>\<^verbatim>\<open>ipq_parse_packet_line_info\<close>\<close>

definition get_line :: "one_line list \<Rightarrow> nat \<Rightarrow> one_line option" where
  "get_line ls i = (if i < length ls then Some (ls ! i) else None)"

definition line_until :: "addr \<Rightarrow> one_line \<Rightarrow> one_line" where
  "line_until a ln = ln\<lparr>ol_len := of_int (int a - int (ol_ptr ln))\<rparr>"

text \<open>The body of the loop at a CR LF at offset \<open>a\<close>; the result says whether the function returns.\<close>

definition crlf_step :: "mem \<Rightarrow> nat \<Rightarrow> packet_struct \<Rightarrow> (packet_struct \<times> bool) option" where
  "crlf_step M a pk =
     do { let i = unat (pk_parsed_lines pk);
          ln \<leftarrow> get_line (pk_line pk) i;
          let ln = line_until (pk_payload pk + a) ln;
          pk \<leftarrow> note_headers M ln (pk\<lparr>pk_line := (pk_line pk)[i := ln]\<rparr>);
          let pk = (if ol_len ln = 0 then pk\<lparr>pk_empty_line_position := of_nat a, pk_empty_line_position_set := True\<rparr> else pk);
          if IPOQUE_MAX_PARSE_LINES_PER_PACKET - 1 \<le> i then Some (pk, True)
          else do { _ \<leftarrow> get_line (pk_line pk) (i + 1);
                    Some (pk\<lparr>pk_parsed_lines := pk_parsed_lines pk + 1,
                             pk_line := (pk_line pk)[i + 1 := \<lparr>ol_ptr = pk_payload pk + (a + 2), ol_len = 0\<rparr>]\<rparr>,
                          unat (pk_payload_packet_len pk) \<le> a + 2) } }"

function line_loop :: "mem \<Rightarrow> nat \<Rightarrow> nat \<Rightarrow> packet_struct \<Rightarrow> (packet_struct \<times> bool) option" where
  "line_loop M fin a pk =
     (if a < fin
      then do { x \<leftarrow> M (pk_payload pk + a); y \<leftarrow> M (pk_payload pk + a + 1);
                if x = 0x0d \<and> y = 0x0a
                then do { (pk, stop) \<leftarrow> crlf_step M a pk;
                          if stop then Some (pk, True) else line_loop M fin (a + 2) pk }
                else line_loop M fin (a + 1) pk }
      else Some (pk, False))"
  by auto
termination by (relation "measure (\<lambda>(M, fin, a, pk). fin - a)") auto

declare line_loop.simps [simp del]

text \<open>\<^verbatim>\<open>referer_line\<close> is the one header line the function does not reset.\<close>

definition reset_lines :: "packet_struct \<Rightarrow> packet_struct" where
  "reset_lines pk = pk\<lparr>pk_packet_lines_parsed_complete := True, pk_parsed_lines := 0, pk_empty_line_position_set := False,
     pk_host_line := zero_line, pk_content_line := zero_line, pk_accept_line := zero_line, pk_user_agent_line := zero_line,
     pk_http_url_name := zero_line, pk_http_encoding := zero_line, pk_http_transfer_encoding := zero_line,
     pk_http_contentlen := zero_line, pk_http_cookie := zero_line, pk_http_x_session_type := zero_line\<rparr>"

definition last_line :: "packet_struct \<Rightarrow> packet_struct option" where
  "last_line pk =
     (if 1 \<le> pk_parsed_lines pk
      then do { let i = unat (pk_parsed_lines pk);
                ln \<leftarrow> get_line (pk_line pk) i;
                Some (pk\<lparr>pk_line := (pk_line pk)[i := line_until (pk_payload pk + unat (pk_payload_packet_len pk)) ln],
                         pk_parsed_lines := pk_parsed_lines pk + 1\<rparr>) }
      else Some pk)"

definition ipq_parse_packet_line_info :: "mem \<Rightarrow> packet_struct \<Rightarrow> packet_struct option" where
  "ipq_parse_packet_line_info M pk =
     (if pk_packet_lines_parsed_complete pk then Some pk
      else do { let pk = reset_lines pk;
                if pk_payload_packet_len pk = 0 then Some pk
                else do { _ \<leftarrow> get_line (pk_line pk) 0;
                          let pk = pk\<lparr>pk_line := (pk_line pk)[0 := \<lparr>ol_ptr = pk_payload pk, ol_len = 0\<rparr>]\<rparr>;
                          (pk, returned) \<leftarrow> line_loop M (unat (pk_payload_packet_len pk - 1)) 0 pk;
                          if returned then Some pk else last_line pk } })"

subsection \<open>\<^verbatim>\<open>ipq_parse_packet_line_info_unix\<close>\<close>

function unix_loop :: "mem \<Rightarrow> nat \<Rightarrow> nat \<Rightarrow> packet_struct \<Rightarrow> packet_struct option" where
  "unix_loop M fin a pk =
     (if a < fin
      then do { x \<leftarrow> M (pk_payload pk + a);
                if x = 0x0a
                then do { let i = unat (pk_parsed_unix_lines pk);
                          ln \<leftarrow> get_line (pk_unix_line pk) i;
                          let pk = pk\<lparr>pk_unix_line := (pk_unix_line pk)[i := line_until (pk_payload pk + a) ln]\<rparr>;
                          if IPOQUE_MAX_PARSE_LINES_PER_PACKET - 1 \<le> i then Some pk
                          else do { _ \<leftarrow> get_line (pk_unix_line pk) (i + 1);
                                    let pk = pk\<lparr>pk_parsed_unix_lines := pk_parsed_unix_lines pk + 1,
                                      pk_unix_line := (pk_unix_line pk)[i + 1 := \<lparr>ol_ptr = pk_payload pk + (a + 1), ol_len = 0\<rparr>]\<rparr>;
                                    if unat (pk_payload_packet_len pk) \<le> a + 1 then Some pk
                                    else unix_loop M fin (a + 1) pk } }
                else unix_loop M fin (a + 1) pk }
      else Some pk)"
  by auto
termination by (relation "measure (\<lambda>(M, fin, a, pk). fin - a)") auto

declare unix_loop.simps [simp del]

definition ipq_parse_packet_line_info_unix :: "mem \<Rightarrow> packet_struct \<Rightarrow> packet_struct option" where
  "ipq_parse_packet_line_info_unix M pk =
     (if pk_packet_unix_lines_parsed_complete pk then Some pk
      else do { let pk = pk\<lparr>pk_packet_unix_lines_parsed_complete := True, pk_parsed_unix_lines := 0\<rparr>;
                if pk_payload_packet_len pk = 0 then Some pk
                else do { _ \<leftarrow> get_line (pk_unix_line pk) 0;
                          let pk = pk\<lparr>pk_unix_line := (pk_unix_line pk)[0 := \<lparr>ol_ptr = pk_payload pk, ol_len = 0\<rparr>]\<rparr>;
                          unix_loop M (unat (pk_payload_packet_len pk)) 0 pk } })"

subsection \<open>Specification\<close>

text \<open>The complete lines of a byte string and what follows the last separator.\<close>

fun prepend_byte :: "u8 \<Rightarrow> bytes list \<times> bytes \<Rightarrow> bytes list \<times> bytes" where
  "prepend_byte x ([], r) = ([], x # r)"
| "prepend_byte x (l # ls, r) = ((x # l) # ls, r)"

fun split_crlf :: "bytes \<Rightarrow> bytes list \<times> bytes" where
  "split_crlf (x # y # bs) =
     (if x = 0x0d \<and> y = 0x0a then (let (ls, r) = split_crlf bs in ([] # ls, r))
      else prepend_byte x (split_crlf (y # bs)))"
| "split_crlf bs = ([], bs)"

fun split_lf :: "bytes \<Rightarrow> bytes list \<times> bytes" where
  "split_lf [] = ([], [])"
| "split_lf (x # bs) = (if x = 0x0a then (let (ls, r) = split_lf bs in ([] # ls, r)) else prepend_byte x (split_lf bs))"

text \<open>The lines the first parser reports: the rest counts as a line if it is not empty and follows a separator.\<close>

definition crlf_lines :: "bytes \<Rightarrow> bytes list" where
  "crlf_lines bs = (case split_crlf bs of (ls, r) \<Rightarrow> if ls \<noteq> [] \<and> r \<noteq> [] then ls @ [r] else ls)"

definition line_holds :: "mem \<Rightarrow> one_line \<Rightarrow> bytes \<Rightarrow> bool" where
  "line_holds M ln l \<longleftrightarrow> holds M (ol_ptr ln) l \<and> unat (ol_len ln) = length l"

text \<open>A line that may be inspected: its pointer is NULL or its window readable.\<close>

definition line_ok :: "mem \<Rightarrow> one_line \<Rightarrow> bool" where
  "line_ok M l \<longleftrightarrow> (ol_ptr l \<noteq> NULL \<longrightarrow> readable M (ol_ptr l) (unat (ol_len l)))"

text \<open>The noted host may also be inspected from six bytes before its end, which lie in the line it was found in, up to the
  carriage return that ends that line.\<close>

definition host_ok :: "mem \<Rightarrow> one_line \<Rightarrow> bool" where
  "host_ok M l \<longleftrightarrow> (ol_ptr l \<noteq> NULL \<longrightarrow> readable M (ol_ptr l + unat (ol_len l) - 6) 6
     \<and> M (ol_ptr l + unat (ol_len l)) = Some 0x0d)"

definition http_ok :: "mem \<Rightarrow> packet_struct \<Rightarrow> bool" where
  "http_ok M pk \<longleftrightarrow> host_ok M (pk_host_line pk) \<and> list_all (line_ok M) [pk_host_line pk, pk_content_line pk, pk_accept_line pk, pk_user_agent_line pk,
     pk_http_url_name pk, pk_http_encoding pk, pk_http_transfer_encoding pk, pk_http_contentlen pk, pk_http_cookie pk,
     pk_http_x_session_type pk]"

subsection \<open>What noting a header line changes\<close>

text \<open>\<open>quiet\<close>: what both parsers leave alone.\<close>

definition quiet :: "packet_struct \<Rightarrow> packet_struct \<Rightarrow> bool" where
  "quiet pk pk' \<longleftrightarrow> same_windows pk pk' \<and> pk_detected_protocol pk' = pk_detected_protocol pk
     \<and> pk_packet_direction pk' = pk_packet_direction pk"

lemma quiet_refl [simp]: "quiet pk pk"
  by (simp add: quiet_def same_windows_def)

lemma quiet_trans [trans]: "quiet a b \<Longrightarrow> quiet b c \<Longrightarrow> quiet a c"
  by (simp add: quiet_def same_windows_def)

text \<open>A memory in which no header line \<^verbatim>\<open>Referer: \<close> starts.\<close>

definition no_referer :: "mem \<Rightarrow> bool" where
  "no_referer M \<longleftrightarrow> (\<forall>a. mem_eq M a ''Referer: '' \<noteq> Some True)"

definition noted :: "mem \<Rightarrow> packet_struct \<Rightarrow> packet_struct \<Rightarrow> bool" where
  "noted M pk pk' \<longleftrightarrow> quiet pk pk' \<and> pk_line pk' = pk_line pk \<and> pk_unix_line pk' = pk_unix_line pk
     \<and> pk_parsed_lines pk' = pk_parsed_lines pk \<and> pk_parsed_unix_lines pk' = pk_parsed_unix_lines pk
     \<and> pk_packet_unix_lines_parsed_complete pk' = pk_packet_unix_lines_parsed_complete pk
     \<and> pk_packet_lines_parsed_complete pk' = pk_packet_lines_parsed_complete pk
     \<and> pk_empty_line_position pk' = pk_empty_line_position pk \<and> pk_empty_line_position_set pk' = pk_empty_line_position_set pk
     \<and> (http_ok M pk \<longrightarrow> http_ok M pk')
     \<and> (line_ok M (pk_referer_line pk) \<longrightarrow> line_ok M (pk_referer_line pk'))
     \<and> (no_referer M \<longrightarrow> pk_referer_line pk' = pk_referer_line pk)"

lemma noted_refl [simp]: "noted M pk pk"
  by (simp add: noted_def)

lemma noted_trans: "noted M a b \<Longrightarrow> noted M b c \<Longrightarrow> noted M a c"
  unfolding noted_def using quiet_trans by metis

lemma mem_eq_any_total:
  "readable M a n \<Longrightarrow> \<forall>s\<in>set ss. length s \<le> n \<Longrightarrow> \<exists>b. mem_eq_any M a ss = Some b"
proof (induction ss)
  case (Cons s ss)
  then obtain b where "mem_eq M a s = Some b" using mem_eq_total readable_mono by (metis list.set_intros(1))
  with Cons show ?case by auto
qed auto

lemma note_line_total:
  assumes "readable M (ol_ptr ln) (unat (ol_len ln))" "\<forall>s\<in>set ss. length s \<le> n" "n < 65536"
    and "\<And>l. line_ok M l \<Longrightarrow> mem_eq_any M (ol_ptr ln) ss = Some True \<Longrightarrow> noted M pk (f l pk)"
  shows "\<exists>pk'. note_line M ss n f ln pk = Some pk' \<and> noted M pk pk'"
proof (cases "of_nat n < ol_len ln")
  case True
  have n: "unat (of_nat n :: u16) = n" using assms(3) by (simp add: unat_of_nat take_bit_eq_mod)
  then have less: "n < unat (ol_len ln)" using True by (simp add: word_less_nat_alt)
  then obtain b where b: "mem_eq_any M (ol_ptr ln) ss = Some b"
    using mem_eq_any_total [OF assms(1)] assms(2) by (meson less_imp_le order_trans)
  have "unat (ol_len ln - of_nat n) = unat (ol_len ln) - n" using less by (intro u16_minus_nat) simp
  then have "line_ok M \<lparr>ol_ptr = ol_ptr ln + n, ol_len = ol_len ln - of_nat n\<rparr>"
    using less by (auto simp: line_ok_def intro: readable_sub [OF assms(1)])
  then show ?thesis using True b assms(4) by (cases b) (auto simp: note_line_def)
next
  case False
  then show ?thesis by (auto simp: note_line_def)
qed

lemma note_host_total:
  assumes "readable M (ol_ptr ln) (unat (ol_len ln))" "M (ol_ptr ln + unat (ol_len ln)) = Some 0x0d"
  shows "\<exists>pk'. note_host M ln pk = Some pk' \<and> noted M pk pk'"
proof (cases "6 < ol_len ln")
  case True
  then have less: "6 < unat (ol_len ln)" by (simp add: word_less_nat_alt)
  obtain b where b: "mem_eq M (ol_ptr ln) ''Host:'' = Some b"
    using mem_eq_total [of M "ol_ptr ln" "''Host:''"] readable_mono [OF assms(1), of "length ''Host:''"] less by auto
  obtain c where c: "M (ol_ptr ln + 5) = Some c" using readable_at [OF assms(1), of "ol_ptr ln + 5"] less by auto
  define k where "k = (if c = 0x20 then 6 else 5 :: nat)"
  have k: "k \<le> unat (ol_len ln)" using less by (simp add: k_def)
  have "unat (ol_len ln - of_nat k) = unat (ol_len ln) - k" by (rule u16_minus_nat [OF k])
  then have l: "line_ok M \<lparr>ol_ptr = ol_ptr ln + k, ol_len = ol_len ln - of_nat k\<rparr>"
    using k by (auto simp: line_ok_def intro: readable_sub [OF assms(1)])
  have e: "host_ok M \<lparr>ol_ptr = ol_ptr ln + k, ol_len = ol_len ln - of_nat k\<rparr>"
    using k less u16_minus_nat [OF k] assms(2) by (auto simp: host_ok_def intro!: readable_sub [OF assms(1)])
  define h where "h = \<lparr>ol_ptr = ol_ptr ln + k, ol_len = ol_len ln - of_nat k\<rparr>"
  have "noted M pk (pk\<lparr>pk_host_line := h\<rparr>)"
    using l e unfolding h_def [symmetric] by (simp add: noted_def quiet_def same_windows_def http_ok_def)
  moreover have "note_host M ln pk = Some (if b then pk\<lparr>pk_host_line := h\<rparr> else pk)"
    using True by (simp add: note_host_def b c Let_def h_def k_def [symmetric])
  ultimately show ?thesis by simp
qed (simp add: note_host_def)

lemma noted_bind:
  "\<exists>pk'. x = Some pk' \<and> noted M pk pk' \<Longrightarrow> (\<And>pk'. \<exists>pk''. f pk' = Some pk'' \<and> noted M pk' pk'')
    \<Longrightarrow> \<exists>pk''. (x \<bind> f) = Some pk'' \<and> noted M pk pk''"
  using noted_trans by (metis bind.bind_lunit)

lemma note_headers_total:
  assumes "readable M (ol_ptr ln) (unat (ol_len ln))" "M (ol_ptr ln + unat (ol_len ln)) = Some 0x0d"
  shows "\<exists>pk'. note_headers M ln pk = Some pk' \<and> noted M pk pk'"
  unfolding note_headers_def
  by (intro noted_bind note_host_total note_line_total assms)
    (auto simp: noted_def quiet_def same_windows_def http_ok_def no_referer_def bind_eq_Some_conv split: if_splits)

subsection \<open>The loop at CR LF\<close>

text \<open>The state of the parser at offset \<open>a\<close>: \<open>ready\<close> are the lines reported so far, the current line starts at
  offset \<open>st\<close>.\<close>

definition parsing :: "mem \<Rightarrow> bytes \<Rightarrow> bytes list \<Rightarrow> nat \<Rightarrow> nat \<Rightarrow> packet_struct \<Rightarrow> bool" where
  "parsing M bs ready st a pk \<longleftrightarrow> holds M (pk_payload pk) bs \<and> unat (pk_payload_packet_len pk) = length bs
     \<and> length (pk_line pk) = IPOQUE_MAX_PARSE_LINES_PER_PACKET \<and> unat (pk_parsed_lines pk) = length ready
     \<and> length ready < IPOQUE_MAX_PARSE_LINES_PER_PACKET
     \<and> list_all2 (line_holds M) (take (length ready) (pk_line pk)) ready
     \<and> ol_ptr (pk_line pk ! length ready) = pk_payload pk + st \<and> st \<le> a \<and> a \<le> length bs"

definition segment :: "bytes \<Rightarrow> nat \<Rightarrow> nat \<Rightarrow> bytes" where
  "segment bs i j = take (j - i) (drop i bs)"

lemma length_segment: "i \<le> j \<Longrightarrow> j \<le> length bs \<Longrightarrow> length (segment bs i j) = j - i"
  by (simp add: segment_def)

lemma segment_snoc: "i \<le> j \<Longrightarrow> j < length bs \<Longrightarrow> segment bs i (Suc j) = segment bs i j @ [bs ! j]"
  by (simp add: segment_def Suc_diff_le take_Suc_conv_app_nth)

lemma holds_segment: "holds M p bs \<Longrightarrow> i \<le> j \<Longrightarrow> j \<le> length bs \<Longrightarrow> holds M (p + i) (segment bs i j)"
  by (auto simp: holds_def segment_def add.assoc)

lemma line_until_len:
  assumes "ol_ptr ln = p + st" "st \<le> a" "a < 65536"
  shows "unat (ol_len (line_until (p + a) ln)) = a - st" "ol_ptr (line_until (p + a) ln) = p + st"
proof -
  have "int (p + a) - int (p + st) = int (a - st)" using assms by simp
  then have "ol_len (line_until (p + a) ln) = of_nat (a - st)" unfolding line_until_def assms(1)
    by (simp only: of_int_of_nat_eq) simp
  then show "unat (ol_len (line_until (p + a) ln)) = a - st" using assms(2,3)
    by (simp only: unat_of_nat take_bit_eq_mod) simp
qed (use assms in \<open>simp add: line_until_def\<close>)

lemma u16_add_1: "unat (w :: u16) < 65535 \<Longrightarrow> unat (w + 1) = unat w + 1"
  using unat_add_lem [of w 1] by simp

text \<open>A noted empty line lies inside the packet, its CR LF included.\<close>

definition empty_ok :: "packet_struct \<Rightarrow> bool" where
  "empty_ok pk \<longleftrightarrow> (pk_empty_line_position_set pk \<longrightarrow> unat (pk_empty_line_position pk) + 2 \<le> unat (pk_payload_packet_len pk))"

definition line_kept :: "mem \<Rightarrow> packet_struct \<Rightarrow> packet_struct \<Rightarrow> bool" where
  "line_kept M pk pk' \<longleftrightarrow> quiet pk pk' \<and> length (pk_line pk') = length (pk_line pk) \<and> pk_unix_line pk' = pk_unix_line pk
     \<and> pk_parsed_unix_lines pk' = pk_parsed_unix_lines pk
     \<and> pk_packet_unix_lines_parsed_complete pk' = pk_packet_unix_lines_parsed_complete pk
     \<and> pk_packet_lines_parsed_complete pk' = pk_packet_lines_parsed_complete pk
     \<and> (empty_ok pk \<longrightarrow> empty_ok pk')
     \<and> (http_ok M pk \<longrightarrow> http_ok M pk')
     \<and> (line_ok M (pk_referer_line pk) \<longrightarrow> line_ok M (pk_referer_line pk'))
     \<and> (no_referer M \<longrightarrow> pk_referer_line pk' = pk_referer_line pk)"

lemma line_kept_refl [simp]: "line_kept M pk pk"
  by (simp add: line_kept_def)

lemma line_kept_trans: "line_kept M a b \<Longrightarrow> line_kept M b c \<Longrightarrow> line_kept M a c"
  unfolding line_kept_def using quiet_trans by metis

lemma noted_line_kept: "noted M pk pk' \<Longrightarrow> line_kept M pk pk'"
  by (simp add: noted_def line_kept_def empty_ok_def quiet_def same_windows_def)

lemma line_kept_upd:
  "unat x + 2 \<le> unat (pk_payload_packet_len pk) \<Longrightarrow> line_kept M pk (pk\<lparr>pk_empty_line_position := x, pk_empty_line_position_set := y\<rparr>)"
  "length ls = length (pk_line pk) \<Longrightarrow> line_kept M pk (pk\<lparr>pk_line := ls\<rparr>)"
  "length ls = length (pk_line pk) \<Longrightarrow> line_kept M pk (pk\<lparr>pk_parsed_lines := n, pk_line := ls\<rparr>)"
  "length ls = length (pk_line pk) \<Longrightarrow> line_kept M pk (pk\<lparr>pk_line := ls, pk_parsed_lines := n\<rparr>)"
  by (simp_all add: line_kept_def empty_ok_def quiet_def same_windows_def http_ok_def)

definition reported :: "mem \<Rightarrow> packet_struct \<Rightarrow> bytes list \<Rightarrow> bool" where
  "reported M pk ls \<longleftrightarrow> unat (pk_parsed_lines pk) = length ls \<and> length ls \<le> length (pk_line pk)
     \<and> list_all2 (line_holds M) (take (length ls) (pk_line pk)) ls"

lemma crlf_step_ok:
  assumes "parsing M bs ready st a pk" "a + 2 \<le> length bs" "bs ! a = 0x0d"
  obtains pk' stop where "crlf_step M a pk = Some (pk', stop)" "line_kept M pk pk'"
    "length ready = 199 \<Longrightarrow> stop \<and> reported M pk' ready"
    "length ready < 199 \<Longrightarrow> parsing M bs (ready @ [segment bs st a]) (a + 2) (a + 2) pk' \<and> (stop \<longleftrightarrow> length bs = a + 2)"
proof -
  let ?p = "pk_payload pk" and ?i = "length ready"
  note P = assms(1) [unfolded parsing_def]
  have n16: "length bs < 65536" using P unat_u16_less [of "pk_payload_packet_len pk"] by simp
  define ln where "ln = line_until (?p + a) (pk_line pk ! ?i)"
  have ln: "unat (ol_len ln) = a - st" "ol_ptr ln = ?p + st"
    unfolding ln_def using P assms(2) n16 by (simp_all add: line_until_len)
  have seg: "line_holds M ln (segment bs st a)"
    using holds_segment [of M ?p bs st a] P ln by (simp add: line_holds_def length_segment)
  have "readable M (ol_ptr ln) (unat (ol_len ln))"
    using seg holds_readable by (fastforce simp: line_holds_def)
  moreover have "M (ol_ptr ln + unat (ol_len ln)) = Some 0x0d"
    using holds_at [of M ?p bs a] P ln assms(2,3) by simp
  ultimately obtain pk1 where pk1: "note_headers M ln (pk\<lparr>pk_line := (pk_line pk)[?i := ln]\<rparr>) = Some pk1"
    "noted M (pk\<lparr>pk_line := (pk_line pk)[?i := ln]\<rparr>) pk1"
    using note_headers_total by blast
  define pk2 where "pk2 = (if ol_len ln = 0 then pk1\<lparr>pk_empty_line_position := of_nat a, pk_empty_line_position_set := True\<rparr> else pk1)"
  have k2: "line_kept M pk pk2"
  proof -
    have "line_kept M pk (pk\<lparr>pk_line := (pk_line pk)[?i := ln]\<rparr>)" by (rule line_kept_upd) simp
    moreover have "line_kept M pk1 pk2"
    proof -
      have "unat (of_nat a :: u16) + 2 \<le> unat (pk_payload_packet_len pk1)"
        using pk1(2) P assms(2) n16 by (simp add: noted_def quiet_def same_windows_def unat_of_nat take_bit_eq_mod)
      then show ?thesis by (simp add: pk2_def line_kept_upd)
    qed
    ultimately show ?thesis using noted_line_kept [OF pk1(2)] line_kept_trans by blast
  qed
  have f2: "pk_line pk2 = (pk_line pk)[?i := ln]" "pk_parsed_lines pk2 = pk_parsed_lines pk" "pk_payload pk2 = ?p"
    "pk_payload_packet_len pk2 = pk_payload_packet_len pk"
    using pk1(2) by (simp_all add: pk2_def noted_def quiet_def same_windows_def)
  have get: "get_line (pk_line pk) ?i = Some (pk_line pk ! ?i)" using P by (simp add: get_line_def)
  have run: "crlf_step M a pk = (if 199 \<le> ?i then Some (pk2, True) else do { _ \<leftarrow> get_line (pk_line pk2) (?i + 1);
      Some (pk2\<lparr>pk_parsed_lines := pk_parsed_lines pk2 + 1,
                pk_line := (pk_line pk2)[?i + 1 := \<lparr>ol_ptr = pk_payload pk2 + (a + 2), ol_len = 0\<rparr>]\<rparr>,
            unat (pk_payload_packet_len pk2) \<le> a + 2) })"
    using P get pk1(1) unfolding crlf_step_def Let_def by (simp add: ln_def [symmetric] pk2_def [symmetric])
  show thesis
  proof (cases "?i = 199")
    case True
    then have "crlf_step M a pk = Some (pk2, True)" using run by simp
    then show ?thesis by (rule that [OF _ k2]) (use P f2 True in \<open>auto simp: reported_def\<close>)
  next
    case False
    then have i: "?i < 199" using P by simp
    define pk3 where "pk3 = pk2\<lparr>pk_parsed_lines := pk_parsed_lines pk2 + 1,
                pk_line := (pk_line pk2)[?i + 1 := \<lparr>ol_ptr = pk_payload pk2 + (a + 2), ol_len = 0\<rparr>]\<rparr>"
    have A: "crlf_step M a pk = Some (pk3, unat (pk_payload_packet_len pk2) \<le> a + 2)"
      using run i P f2 by (simp add: get_line_def pk3_def)
    have B: "line_kept M pk pk3" by (rule line_kept_trans [OF k2]) (simp add: pk3_def line_kept_upd)
    have C: "parsing M bs (ready @ [segment bs st a]) (a + 2) (a + 2) pk3"
    proof -
      have "take (Suc ?i) (pk_line pk3) = take ?i (pk_line pk) @ [ln]"
        using P i f2 by (simp add: pk3_def take_Suc_conv_app_nth nth_list_update)
      then have "list_all2 (line_holds M) (take (Suc ?i) (pk_line pk3)) (ready @ [segment bs st a])"
        using P seg by (simp add: list_all2_appendI)
      moreover have "unat (pk_parsed_lines pk2 + 1) = Suc ?i" using P i f2 by (simp add: u16_add_1)
      ultimately show ?thesis using P i f2 assms(2) by (simp add: parsing_def pk3_def)
    qed
    show ?thesis by (rule that [OF A B]) (use C False assms(2) P f2 in auto)
  qed
qed

text \<open>The reported lines of a run that starts at offset \<open>a\<close> in a line that starts at \<open>st\<close>, and the rest.\<close>

definition run_lines :: "bytes \<Rightarrow> bytes list \<Rightarrow> nat \<Rightarrow> nat \<Rightarrow> bytes list \<times> bytes" where
  "run_lines bs ready st a = (case split_crlf (drop a bs) of
     ([], r) \<Rightarrow> (ready, segment bs st a @ r)
   | (l # ls, r) \<Rightarrow> (ready @ (segment bs st a @ l) # ls, r))"

lemma run_lines_other:
  assumes "a + 1 < length bs" "st \<le> a" "\<not> (bs ! a = 0x0d \<and> bs ! (a + 1) = 0x0a)"
  shows "run_lines bs ready st (a + 1) = run_lines bs ready st a"
proof -
  have d: "drop a bs = bs ! a # bs ! (a + 1) # drop (a + 2) bs" "drop (a + 1) bs = bs ! (a + 1) # drop (a + 2) bs"
    using assms(1) by (simp_all add: Cons_nth_drop_Suc)
  have seg: "segment bs st (a + 1) = segment bs st a @ [bs ! a]"
    using assms segment_snoc [of st a bs] by simp
  obtain ls r where ls: "split_crlf (bs ! (a + 1) # drop (a + 2) bs) = (ls, r)" by fastforce
  then have "split_crlf (drop a bs) = prepend_byte (bs ! a) (ls, r)"
    unfolding d(1) split_crlf.simps(1) if_not_P [OF assms(3)] by (rule arg_cong)
  moreover have "split_crlf (drop (a + 1) bs) = (ls, r)" unfolding d(2) by (rule ls)
  ultimately show ?thesis unfolding run_lines_def seg by (cases ls) simp_all
qed

lemma run_lines_crlf:
  assumes "a + 1 < length bs" "bs ! a = 0x0d" "bs ! (a + 1) = 0x0a"
  shows "run_lines bs ready st a = run_lines bs (ready @ [segment bs st a]) (a + 2) (a + 2)"
proof -
  have d: "drop a bs = bs ! a # bs ! (a + 1) # drop (a + 2) bs"
    using assms(1) by (simp add: Cons_nth_drop_Suc)
  obtain ls r where ls: "split_crlf (drop (a + 2) bs) = (ls, r)" by fastforce
  then have "split_crlf (drop a bs) = ([] # ls, r)" using assms(2,3) by (simp add: d)
  then show ?thesis using ls by (cases ls) (simp_all add: run_lines_def segment_def)
qed

lemma run_lines_end:
  assumes "length bs \<le> a + 1" "st \<le> a"
  shows "run_lines bs ready st a = (ready, drop st bs)"
proof -
  have "split_crlf (drop a bs) = ([], drop a bs)"
    using assms(1) by (cases "drop a bs" rule: split_crlf.cases) (auto dest: arg_cong [of _ _ length])
  moreover have "segment bs st a @ drop a bs = drop st bs"
    using assms(2) append_take_drop_id [of "a - st" "drop st bs"] by (simp add: segment_def)
  ultimately show ?thesis by (simp add: run_lines_def)
qed

lemma run_lines_prefix: "take (length ready) (fst (run_lines bs ready st a)) = ready
    \<and> length ready \<le> length (fst (run_lines bs ready st a))"
  by (auto simp: run_lines_def split: prod.split list.split)

text \<open>The loop: it ends for every payload; if the array of lines suffices it has reported exactly the
  lines of the payload when it returns early, and is left with the unfinished last line otherwise.\<close>

lemma line_loop_ok:
  assumes "parsing M bs ready st a pk" "bs \<noteq> []"
  shows "\<exists>pk' b. line_loop M (length bs - 1) a pk = Some (pk', b) \<and> line_kept M pk pk'
    \<and> (case run_lines bs ready st a of (ls, r) \<Rightarrow>
         if length ls \<le> 199
         then (if b then reported M pk' ls \<and> r = [] \<and> ls \<noteq> []
               else \<exists>st'. parsing M bs ls st' (length bs) pk' \<and> drop st' bs = r \<and> (r = [] \<longrightarrow> st = length bs \<and> ls = ready))
         else b \<and> reported M pk' (take 199 ls))
    \<and> (fst (run_lines bs ready st a) = [] \<longrightarrow> pk_host_line pk' = pk_host_line pk)"
  using assms
proof (induction "length bs - a" arbitrary: a st ready pk rule: less_induct)
  case less
  note P = less.prems(1) [unfolded parsing_def]
  show ?case
  proof (cases "a < length bs - 1")
    case False
    then have "run_lines bs ready st a = (ready, drop st bs)" using P by (intro run_lines_end) auto
    moreover have "line_loop M (length bs - 1) a pk = Some (pk, False)" using False by (subst line_loop.simps) simp
    moreover have "parsing M bs ready st (length bs) pk" using P by (simp add: parsing_def)
    ultimately show ?thesis using P by auto
  next
    case True
    have at: "M (pk_payload pk + a) = Some (bs ! a)" "M (pk_payload pk + a + 1) = Some (bs ! (a + 1))"
      using holds_at [of M "pk_payload pk" bs a] holds_at [of M "pk_payload pk" bs "a + 1"] P True
      by (simp_all add: add.assoc)
    show ?thesis
    proof (cases "bs ! a = 0x0d \<and> bs ! (a + 1) = 0x0a")
      case False
      have par: "parsing M bs ready st (a + 1) pk" using P True by (simp add: parsing_def)
      moreover have "line_loop M (length bs - 1) a pk = line_loop M (length bs - 1) (a + 1) pk"
        using True at False by (subst line_loop.simps) auto
      moreover have "run_lines bs ready st (a + 1) = run_lines bs ready st a"
        using True P False by (intro run_lines_other) auto
      ultimately show ?thesis using less.hyps [OF _ par less.prems(2)] True by simp
    next
      case sep: True
      obtain pk1 stop where s: "crlf_step M a pk = Some (pk1, stop)" "line_kept M pk pk1"
        "length ready = 199 \<Longrightarrow> stop \<and> reported M pk1 ready"
        "length ready < 199 \<Longrightarrow> parsing M bs (ready @ [segment bs st a]) (a + 2) (a + 2) pk1 \<and> (stop \<longleftrightarrow> length bs = a + 2)"
        by (rule crlf_step_ok [OF less.prems(1)]) (use True sep in auto)
      have loop: "line_loop M (length bs - 1) a pk = (if stop then Some (pk1, True) else line_loop M (length bs - 1) (a + 2) pk1)"
        using True at sep s(1) by (subst line_loop.simps) auto
      let ?ready = "ready @ [segment bs st a]"
      have run: "run_lines bs ready st a = run_lines bs ?ready (a + 2) (a + 2)"
        using True sep by (intro run_lines_crlf) auto
      consider (full) "length ready = 199" | (fin) "length ready < 199" "length bs = a + 2" | (go) "length ready < 199" "length bs \<noteq> a + 2"
        using P by linarith
      then show ?thesis
      proof cases
        case full
        obtain ls r where ls: "run_lines bs ready st a = (ls, r)" by fastforce
        have "take 199 ls = ready" using run_lines_prefix [of ready bs st a] ls full by simp
        moreover have "\<not> length ls \<le> 199"
          using run_lines_prefix [of ?ready bs "a + 2" "a + 2"] ls full by (simp add: run)
        ultimately show ?thesis using s(2) s(3) [OF full] loop by (auto simp: ls)
      next
        case fin
        then have "run_lines bs ready st a = (?ready, [])" unfolding run by (subst run_lines_end) simp_all
        moreover have "reported M pk1 ?ready" using s(4) fin by (simp add: parsing_def reported_def)
        ultimately show ?thesis using s(2,4) loop fin by auto
      next
        case go
        have k: "line_kept M pk pk'" if "line_kept M pk1 pk'" for pk' using line_kept_trans [OF s(2) that] .
        have par: "parsing M bs ?ready (a + 2) (a + 2) pk1" and ns: "\<not> stop" using s(4) go by auto
        obtain ls r where ls: "run_lines bs ?ready (a + 2) (a + 2) = (ls, r)" by fastforce
        have dec: "length bs - (a + 2) < length bs - a" using True by simp
        obtain pk' b where ih: "line_loop M (length bs - 1) (a + 2) pk1 = Some (pk', b)" "line_kept M pk1 pk'"
          "if length ls \<le> 199
           then (if b then reported M pk' ls \<and> r = [] \<and> ls \<noteq> []
                 else \<exists>st'. parsing M bs ls st' (length bs) pk' \<and> drop st' bs = r \<and> (r = [] \<longrightarrow> a + 2 = length bs \<and> ls = ?ready))
           else b \<and> reported M pk' (take 199 ls)"
          using less.hyps [OF dec par less.prems(2)] unfolding ls prod.case by blast
        have "line_loop M (length bs - 1) a pk = Some (pk', b)" using loop ns ih(1) by simp
        moreover have "ls \<noteq> []" using run_lines_prefix [of ?ready bs "a + 2" "a + 2"] ls by auto
        moreover have "if length ls \<le> 199
           then (if b then reported M pk' ls \<and> r = [] \<and> ls \<noteq> []
                 else \<exists>st'. parsing M bs ls st' (length bs) pk' \<and> drop st' bs = r \<and> (r = [] \<longrightarrow> st = length bs \<and> ls = ready))
           else b \<and> reported M pk' (take 199 ls)"
          using ih(3) go(2) by (cases "length ls \<le> 199"; cases b) auto
        ultimately show ?thesis unfolding run ls prod.case fst_conv using k [OF ih(2)] by blast
      qed
    qed
  qed
qed

lemma last_line_ok:
  assumes "parsing M bs ls st (length bs) pk" "ls \<noteq> [] \<longrightarrow> drop st bs \<noteq> []"
  shows "\<exists>pk'. last_line pk = Some pk' \<and> line_kept M pk pk' \<and> reported M pk' (if ls = [] then [] else ls @ [drop st bs])"
proof (cases "ls = []")
  case True
  then have "pk_parsed_lines pk = 0" using assms(1) by (simp add: parsing_def unat_eq_zero)
  then show ?thesis using True by (simp add: last_line_def reported_def)
next
  case False
  let ?i = "length ls" and ?p = "pk_payload pk"
  note P = assms(1) [unfolded parsing_def]
  have n16: "length bs < 65536" using P unat_u16_less [of "pk_payload_packet_len pk"] by simp
  define ln where "ln = line_until (?p + length bs) (pk_line pk ! ?i)"
  have ln: "unat (ol_len ln) = length bs - st" "ol_ptr ln = ?p + st"
    unfolding ln_def using P n16 by (simp_all add: line_until_len)
  have "line_holds M ln (drop st bs)"
    using P ln holds_segment [of M ?p bs st "length bs"] by (simp add: line_holds_def segment_def)
  moreover have "take (Suc ?i) ((pk_line pk)[?i := ln]) = take ?i (pk_line pk) @ [ln]"
    using P by (simp add: take_Suc_conv_app_nth)
  moreover have "unat (pk_parsed_lines pk + 1) = Suc ?i" using P by (simp add: u16_add_1)
  ultimately have "reported M (pk\<lparr>pk_line := (pk_line pk)[?i := ln], pk_parsed_lines := pk_parsed_lines pk + 1\<rparr>) (ls @ [drop st bs])"
    using P by (simp add: reported_def list_all2_appendI)
  moreover have "1 \<le> pk_parsed_lines pk" using P False by (simp add: word_le_nat_alt Suc_leI)
  ultimately show ?thesis
    using P False by (simp add: last_line_def get_line_def ln_def line_kept_upd Let_def)
qed

text \<open>The parser on a payload of known bytes.\<close>

lemma parse_lines_ok:
  assumes "holds M (pk_payload pk) bs" "unat (pk_payload_packet_len pk) = length bs"
    and "length (pk_line pk) = IPOQUE_MAX_PARSE_LINES_PER_PACKET" "\<not> pk_packet_lines_parsed_complete pk"
  obtains pk' where "ipq_parse_packet_line_info M pk = Some pk'" "line_kept M (reset_lines pk) pk'"
    "reported M pk' (if length (fst (split_crlf bs)) \<le> 199 then crlf_lines bs else take 199 (fst (split_crlf bs)))"
    "fst (split_crlf bs) = [] \<longrightarrow> pk_host_line pk' = zero_line"
proof (cases "bs = []")
  case True
  then have "pk_payload_packet_len pk = 0" using assms(2) by (simp add: unat_eq_zero)
  then have "ipq_parse_packet_line_info M pk = Some (reset_lines pk)"
    using assms(4) by (simp add: ipq_parse_packet_line_info_def reset_lines_def)
  then show thesis
    by (rule that) (use True in \<open>simp_all add: reported_def crlf_lines_def reset_lines_def\<close>)
next
  case False
  define pk0 where "pk0 = (reset_lines pk)\<lparr>pk_line := (pk_line pk)[0 := \<lparr>ol_ptr = pk_payload pk, ol_len = 0\<rparr>]\<rparr>"
  have r: "pk_line (reset_lines pk) = pk_line pk" "pk_payload (reset_lines pk) = pk_payload pk"
    "pk_payload_packet_len (reset_lines pk) = pk_payload_packet_len pk"
    by (simp_all add: reset_lines_def)
  have par: "parsing M bs [] 0 0 pk0" using assms by (simp add: parsing_def pk0_def reset_lines_def)
  have len: "unat (pk_payload_packet_len pk - 1) = length bs - 1" "pk_payload_packet_len pk \<noteq> 0"
    using assms(2) False u16_minus_nat [of 1 "pk_payload_packet_len pk"] by (auto simp: Suc_leI)
  have k0: "line_kept M (reset_lines pk) pk0" unfolding pk0_def by (rule line_kept_upd) (simp add: r)
  obtain ls rest where ls: "split_crlf bs = (ls, rest)" by fastforce
  then have fst_ls: "fst (split_crlf bs) = ls" by simp
  from ls have run: "run_lines bs [] 0 0 = (ls, rest)" by (cases ls) (simp_all add: run_lines_def segment_def)
  obtain pk1 b where l: "line_loop M (length bs - 1) 0 pk0 = Some (pk1, b)" "line_kept M pk0 pk1"
    and out: "if length ls \<le> 199
         then (if b then reported M pk1 ls \<and> rest = [] \<and> ls \<noteq> []
               else \<exists>st'. parsing M bs ls st' (length bs) pk1 \<and> drop st' bs = rest \<and> (rest = [] \<longrightarrow> 0 = length bs \<and> ls = []))
         else b \<and> reported M pk1 (take 199 ls)"
    and host: "ls = [] \<longrightarrow> pk_host_line pk1 = zero_line"
    using line_loop_ok [OF par False] by (auto simp: run pk0_def reset_lines_def)
  have step: "ipq_parse_packet_line_info M pk = (if b then Some pk1 else last_line pk1)"
    using assms(3,4) len l(1) by (simp add: ipq_parse_packet_line_info_def Let_def r get_line_def pk0_def)
  show thesis
  proof (cases b)
    case True
    then have "ipq_parse_packet_line_info M pk = Some pk1" using step by simp
    moreover have "reported M pk1 (if length ls \<le> 199 then crlf_lines bs else take 199 ls)"
      using True out ls by (cases "length ls \<le> 199") (simp_all add: crlf_lines_def)
    ultimately show ?thesis using that line_kept_trans [OF k0 l(2)] host unfolding fst_ls by blast
  next
    case b: False
    then obtain st' where p1: "parsing M bs ls st' (length bs) pk1" "drop st' bs = rest" "rest \<noteq> []" and "length ls \<le> 199"
      using out False by (cases "length ls \<le> 199") auto
    moreover obtain pk' where "last_line pk1 = Some pk'" "line_kept M pk1 pk'" "reported M pk' (if ls = [] then [] else ls @ [rest])"
      using last_line_ok [OF p1(1)] p1(2,3) by auto
    moreover from this have "line_kept M (reset_lines pk) pk'" using line_kept_trans [OF line_kept_trans [OF k0 l(2)]] by blast
    moreover have "crlf_lines bs = (if ls = [] then [] else ls @ [rest])" using p1(3) ls by (simp add: crlf_lines_def)
    moreover have "ls = [] \<longrightarrow> pk_host_line pk' = zero_line"
      using host calculation p1(1) by (auto simp: last_line_def parsing_def word_le_nat_alt)
    ultimately show ?thesis using that [of pk'] b step by (simp add: fst_ls)
  qed
qed

lemma http_ok_reset: "http_ok M (reset_lines pk)"
  by (simp add: http_ok_def reset_lines_def line_ok_def host_ok_def zero_line_def)

lemma quiet_reset: "quiet pk (reset_lines pk)"
  by (simp add: quiet_def same_windows_def reset_lines_def)

text \<open>The lines reported so far may be inspected; a packet with a host has at least one; an empty line lies inside the packet.\<close>

definition lines_ok :: "mem \<Rightarrow> packet_struct \<Rightarrow> bool" where
  "lines_ok M pk \<longleftrightarrow> unat (pk_parsed_lines pk) \<le> length (pk_line pk)
     \<and> list_all (\<lambda>l. readable M (ol_ptr l) (unat (ol_len l)) \<and> ol_len l \<le> pk_payload_packet_len pk)
         (take (unat (pk_parsed_lines pk)) (pk_line pk))
     \<and> (ol_ptr (pk_host_line pk) \<noteq> NULL \<longrightarrow> 0 < pk_parsed_lines pk)
     \<and> (pk_empty_line_position_set pk \<longrightarrow> unat (pk_empty_line_position pk) + 2 \<le> unat (pk_payload_packet_len pk))"

lemma line_holds_readable: "line_holds M ln l \<Longrightarrow> readable M (ol_ptr ln) (unat (ol_len ln))"
  using holds_readable by (fastforce simp: line_holds_def)

lemma lines_hold_readable:
  "list_all2 (line_holds M) ls bss \<Longrightarrow> list_all (\<lambda>l. readable M (ol_ptr l) (unat (ol_len l))) ls"
  unfolding list_all_length list_all2_conv_all_nth using line_holds_readable by blast

lemma prepend_byte_bounded:
  "\<forall>l\<in>set (fst r). length l \<le> n \<Longrightarrow> length (snd r) \<le> n
    \<Longrightarrow> (\<forall>l\<in>set (fst (prepend_byte x r)). length l \<le> Suc n) \<and> length (snd (prepend_byte x r)) \<le> Suc n"
  by (cases "(x, r)" rule: prepend_byte.cases) (auto simp: le_SucI)

lemma split_crlf_shorter: "(\<forall>l\<in>set (fst (split_crlf bs)). length l \<le> length bs) \<and> length (snd (split_crlf bs)) \<le> length bs"
proof (induction bs rule: split_crlf.induct)
  case (1 x y bs)
  show ?case
  proof (cases "x = 0x0d \<and> y = 0x0a")
    case True
    then show ?thesis using "1.IH"(1) by (cases "split_crlf bs") (auto simp: le_SucI)
  next
    case False
    then show ?thesis using prepend_byte_bounded [of "split_crlf (y # bs)" "length (y # bs)" x] "1.IH"(2) by auto
  qed
qed simp_all

lemma crlf_lines_shorter: "l \<in> set (crlf_lines bs) \<Longrightarrow> length l \<le> length bs"
proof -
  obtain ls r where "split_crlf bs = (ls, r)" by fastforce
  then show "l \<in> set (crlf_lines bs) \<Longrightarrow> length l \<le> length bs"
    using split_crlf_shorter [of bs] by (auto simp: crlf_lines_def split: if_splits)
qed

lemma reported_lines_ok:
  assumes "reported M pk ls" "\<And>l. l \<in> set ls \<Longrightarrow> length l \<le> unat (pk_payload_packet_len pk)"
    and "ls = [] \<longrightarrow> pk_host_line pk = zero_line" "empty_ok pk"
  shows "lines_ok M pk"
proof -
  have r: "list_all2 (line_holds M) (take (length ls) (pk_line pk)) ls" using assms(1) by (simp add: reported_def)
  then have "list_all (\<lambda>l. readable M (ol_ptr l) (unat (ol_len l)) \<and> ol_len l \<le> pk_payload_packet_len pk) (take (length ls) (pk_line pk))"
    using lines_hold_readable [OF r] assms(2)
    by (auto simp: list_all_length list_all2_conv_all_nth line_holds_def word_le_nat_alt)
  moreover have "0 < pk_parsed_lines pk" if "ls \<noteq> []" using assms(1) that by (simp add: reported_def word_less_nat_alt)
  ultimately show ?thesis using assms(1,3,4) by (auto simp: lines_ok_def empty_ok_def reported_def zero_line_def)
qed

text \<open>The parser never fails on a readable payload.\<close>

lemma parse_lines_total:
  assumes "readable M (pk_payload pk) (unat (pk_payload_packet_len pk))"
    and "length (pk_line pk) = IPOQUE_MAX_PARSE_LINES_PER_PACKET"
    and "pk_packet_lines_parsed_complete pk \<longrightarrow> http_ok M pk \<and> lines_ok M pk"
  shows "\<exists>pk'. ipq_parse_packet_line_info M pk = Some pk' \<and> quiet pk pk' \<and> http_ok M pk' \<and> lines_ok M pk'
    \<and> length (pk_line pk') = length (pk_line pk) \<and> pk_unix_line pk' = pk_unix_line pk
    \<and> pk_packet_unix_lines_parsed_complete pk' = pk_packet_unix_lines_parsed_complete pk
    \<and> pk_packet_lines_parsed_complete pk' \<and> pk_parsed_unix_lines pk' = pk_parsed_unix_lines pk
    \<and> (line_ok M (pk_referer_line pk) \<longrightarrow> line_ok M (pk_referer_line pk'))
     \<and> (no_referer M \<longrightarrow> pk_referer_line pk' = pk_referer_line pk)"
proof (cases "pk_packet_lines_parsed_complete pk")
  case True
  then show ?thesis using assms(3) by (simp add: ipq_parse_packet_line_info_def)
next
  case False
  obtain bs where bs: "length bs = unat (pk_payload_packet_len pk)" "holds M (pk_payload pk) bs"
    using holds_exists [OF assms(1)] by blast
  define ls where "ls = (if length (fst (split_crlf bs)) \<le> 199 then crlf_lines bs else take 199 (fst (split_crlf bs)))"
  obtain pk' where pk': "ipq_parse_packet_line_info M pk = Some pk'" "line_kept M (reset_lines pk) pk'" "reported M pk' ls"
    "fst (split_crlf bs) = [] \<longrightarrow> pk_host_line pk' = zero_line"
    unfolding ls_def by (rule parse_lines_ok [OF bs(2) bs(1) [symmetric] assms(2) False])
  have q: "quiet pk pk'" using pk'(2) quiet_trans [OF quiet_reset] by (simp add: line_kept_def)
  have "length l \<le> length bs" if "l \<in> set ls" for l
    using that crlf_lines_shorter [of l bs] split_crlf_shorter [of bs] by (auto simp: ls_def split: if_splits dest: in_set_takeD)
  moreover have "ls = [] \<longrightarrow> pk_host_line pk' = zero_line"
    using pk'(4) by (cases "split_crlf bs") (auto simp: ls_def crlf_lines_def split: if_splits)
  moreover have "empty_ok pk'" using pk'(2) by (simp add: line_kept_def empty_ok_def reset_lines_def)
  ultimately have "lines_ok M pk'"
    using reported_lines_ok [OF pk'(3)] q bs(1) by (simp add: quiet_def same_windows_def)
  moreover have "pk_line (reset_lines pk) = pk_line pk" "pk_unix_line (reset_lines pk) = pk_unix_line pk"
    "pk_packet_unix_lines_parsed_complete (reset_lines pk) = pk_packet_unix_lines_parsed_complete pk"
    "pk_packet_lines_parsed_complete (reset_lines pk)" "pk_parsed_unix_lines (reset_lines pk) = pk_parsed_unix_lines pk"
    "pk_referer_line (reset_lines pk) = pk_referer_line pk"
    by (simp_all add: reset_lines_def)
  ultimately show ?thesis
    using http_ok_reset [of M pk] q pk'(1) pk'(2) [unfolded line_kept_def] by simp
qed

subsection \<open>The loop at LF\<close>

definition uparsing :: "mem \<Rightarrow> bytes \<Rightarrow> bytes list \<Rightarrow> nat \<Rightarrow> nat \<Rightarrow> packet_struct \<Rightarrow> bool" where
  "uparsing M bs ready st a pk \<longleftrightarrow> holds M (pk_payload pk) bs \<and> unat (pk_payload_packet_len pk) = length bs
     \<and> length (pk_unix_line pk) = IPOQUE_MAX_PARSE_LINES_PER_PACKET \<and> unat (pk_parsed_unix_lines pk) = length ready
     \<and> length ready < IPOQUE_MAX_PARSE_LINES_PER_PACKET
     \<and> list_all2 (line_holds M) (take (length ready) (pk_unix_line pk)) ready
     \<and> ol_ptr (pk_unix_line pk ! length ready) = pk_payload pk + st \<and> st \<le> a \<and> a \<le> length bs"

definition ureported :: "mem \<Rightarrow> packet_struct \<Rightarrow> bytes list \<Rightarrow> bool" where
  "ureported M pk ls \<longleftrightarrow> unat (pk_parsed_unix_lines pk) = length ls \<and> length ls \<le> length (pk_unix_line pk)
     \<and> list_all2 (line_holds M) (take (length ls) (pk_unix_line pk)) ls"

definition urun :: "bytes \<Rightarrow> bytes list \<Rightarrow> nat \<Rightarrow> nat \<Rightarrow> bytes list" where
  "urun bs ready st a = (case split_lf (drop a bs) of
     ([], r) \<Rightarrow> ready | (l # ls, r) \<Rightarrow> ready @ (segment bs st a @ l) # ls)"

definition ukept :: "packet_struct \<Rightarrow> packet_struct \<Rightarrow> bool" where
  "ukept pk pk' \<longleftrightarrow> (\<exists>n ls. pk' = pk\<lparr>pk_parsed_unix_lines := n, pk_unix_line := ls\<rparr> \<and> length ls = length (pk_unix_line pk))"

lemma ukeptI:
  "length ls = length (pk_unix_line pk) \<Longrightarrow> ukept pk (pk\<lparr>pk_parsed_unix_lines := n, pk_unix_line := ls\<rparr>)"
  unfolding ukept_def by blast

lemma ukept_line: "length ls = length (pk_unix_line pk) \<Longrightarrow> ukept pk (pk\<lparr>pk_unix_line := ls\<rparr>)"
  using ukeptI [of ls pk "pk_parsed_unix_lines pk"] by simp

lemma ukept_refl [simp]: "ukept pk pk"
  using ukept_line [of "pk_unix_line pk" pk] by simp

lemma ukept_trans:
  assumes "ukept a b" "ukept b c"
  shows "ukept a c"
proof -
  obtain n ls n' ls' where "b = a\<lparr>pk_parsed_unix_lines := n, pk_unix_line := ls\<rparr>" "length ls = length (pk_unix_line a)"
    "c = b\<lparr>pk_parsed_unix_lines := n', pk_unix_line := ls'\<rparr>" "length ls' = length (pk_unix_line b)"
    using assms unfolding ukept_def by blast
  then show ?thesis using ukeptI [of ls' a n'] by simp
qed

lemma urun_end: "length bs \<le> a \<Longrightarrow> urun bs ready st a = ready"
  by (simp add: urun_def)

lemma urun_other:
  assumes "a < length bs" "st \<le> a" "bs ! a \<noteq> 0x0a"
  shows "urun bs ready st (a + 1) = urun bs ready st a"
proof -
  have d: "drop a bs = bs ! a # drop (a + 1) bs" using assms(1) by (simp add: Cons_nth_drop_Suc)
  have seg: "segment bs st (a + 1) = segment bs st a @ [bs ! a]" using assms segment_snoc [of st a bs] by simp
  obtain ls r where ls: "split_lf (drop (a + 1) bs) = (ls, r)" by fastforce
  then have "split_lf (drop a bs) = prepend_byte (bs ! a) (ls, r)"
    unfolding d split_lf.simps(2) if_not_P [OF assms(3)] by (rule arg_cong)
  then show ?thesis unfolding urun_def seg ls by (cases ls) simp_all
qed

lemma urun_lf:
  assumes "a < length bs" "bs ! a = 0x0a"
  shows "urun bs ready st a = urun bs (ready @ [segment bs st a]) (a + 1) (a + 1)"
proof -
  have d: "drop a bs = bs ! a # drop (a + 1) bs" using assms(1) by (simp add: Cons_nth_drop_Suc)
  obtain ls r where ls: "split_lf (drop (a + 1) bs) = (ls, r)" by fastforce
  then have "split_lf (drop a bs) = ([] # ls, r)" unfolding d using assms(2) by simp
  then show ?thesis unfolding urun_def ls by (cases ls) (simp_all add: segment_def)
qed

lemma urun_prefix: "\<exists>ls. urun bs ready st a = ready @ ls"
  by (auto simp: urun_def split: prod.split list.split)

lemma unix_loop_ok:
  assumes "uparsing M bs ready st a pk"
  shows "\<exists>pk'. unix_loop M (length bs) a pk = Some pk' \<and> ukept pk pk' \<and> ureported M pk' (take 199 (urun bs ready st a))"
  using assms
proof (induction "length bs - a" arbitrary: a st ready pk rule: less_induct)
  case less
  let ?p = "pk_payload pk" and ?i = "length ready"
  note P = less.prems(1) [unfolded uparsing_def]
  show ?case
  proof (cases "a < length bs")
    case False
    then show ?thesis using P by (subst unix_loop.simps) (simp add: urun_end ureported_def min_def)
  next
    case True
    have at: "M (?p + a) = Some (bs ! a)" using holds_at P True by blast
    show ?thesis
    proof (cases "bs ! a = 0x0a")
      case False
      have par: "uparsing M bs ready st (a + 1) pk" using P True by (simp add: uparsing_def)
      moreover have "unix_loop M (length bs) a pk = unix_loop M (length bs) (a + 1) pk"
        using True at False by (subst unix_loop.simps) auto
      moreover have "urun bs ready st (a + 1) = urun bs ready st a" using True P False by (intro urun_other) auto
      ultimately show ?thesis using less.hyps [OF _ par] True by simp
    next
      case lf: True
      have n16: "length bs < 65536" using P unat_u16_less [of "pk_payload_packet_len pk"] by simp
      define ln where "ln = line_until (?p + a) (pk_unix_line pk ! ?i)"
      have seg: "line_holds M ln (segment bs st a)"
        unfolding ln_def line_holds_def using P True n16 holds_segment [of M ?p bs st a]
        by (simp add: line_until_len length_segment)
      define pk1 where "pk1 = pk\<lparr>pk_unix_line := (pk_unix_line pk)[?i := ln]\<rparr>"
      define pk2 where "pk2 = pk1\<lparr>pk_parsed_unix_lines := pk_parsed_unix_lines pk1 + 1,
          pk_unix_line := (pk_unix_line pk1)[?i + 1 := \<lparr>ol_ptr = ?p + (a + 1), ol_len = 0\<rparr>]\<rparr>"
      have run: "unix_loop M (length bs) a pk = (if 199 \<le> ?i then Some pk1
          else if length bs \<le> a + 1 then Some pk2 else unix_loop M (length bs) (a + 1) pk2)"
        using True at lf P by (subst unix_loop.simps) (simp add: Let_def get_line_def ln_def pk1_def pk2_def)
      let ?ready = "ready @ [segment bs st a]"
      have next_run: "urun bs ready st a = urun bs ?ready (a + 1) (a + 1)" using True lf by (rule urun_lf)
      have k: "ukept pk pk1" "ukept pk pk2"
        unfolding pk1_def pk2_def by (simp_all add: ukept_line ukeptI)
      consider (full) "?i = 199" | (fin) "?i < 199" "length bs \<le> a + 1" | (go) "?i < 199" "a + 1 < length bs"
        using P by linarith
      then show ?thesis
      proof cases
        case full
        then have "take 199 (urun bs ready st a) = ready" using urun_prefix [of bs ready st a] by auto
        then show ?thesis using run full k P by (simp add: ureported_def pk1_def)
      next
        case fin
        have par: "uparsing M bs ?ready (a + 1) (a + 1) pk2"
          using P fin True seg by (simp add: uparsing_def pk1_def pk2_def u16_add_1 take_Suc_conv_app_nth nth_list_update list_all2_appendI)
        have "urun bs ?ready (a + 1) (a + 1) = ?ready" using fin by (simp add: urun_end)
        then show ?thesis using run fin k par by (simp add: next_run ureported_def uparsing_def)
      next
        case go
        have par: "uparsing M bs ?ready (a + 1) (a + 1) pk2"
          using P go seg by (simp add: uparsing_def pk1_def pk2_def u16_add_1 take_Suc_conv_app_nth nth_list_update list_all2_appendI)
        then obtain pk' where "unix_loop M (length bs) (a + 1) pk2 = Some pk'" "ukept pk2 pk'"
          "ureported M pk' (take 199 (urun bs ?ready (a + 1) (a + 1)))"
          using less.hyps [OF diff_less_mono2 par] True by (metis less_add_one)
        then show ?thesis using run go ukept_trans [OF k(2)] by (simp add: next_run)
      qed
    qed
  qed
qed

lemma parse_unix_ok:
  assumes "holds M (pk_payload pk) bs" "unat (pk_payload_packet_len pk) = length bs"
    and "length (pk_unix_line pk) = IPOQUE_MAX_PARSE_LINES_PER_PACKET" "\<not> pk_packet_unix_lines_parsed_complete pk"
  obtains pk' where "ipq_parse_packet_line_info_unix M pk = Some pk'"
    "ukept (pk\<lparr>pk_packet_unix_lines_parsed_complete := True\<rparr>) pk'" "ureported M pk' (take 199 (fst (split_lf bs)))"
proof (cases "bs = []")
  case True
  then have "pk_payload_packet_len pk = 0" using assms(2) by (simp add: unat_eq_zero)
  then have "ipq_parse_packet_line_info_unix M pk
      = Some (pk\<lparr>pk_packet_unix_lines_parsed_complete := True, pk_parsed_unix_lines := 0\<rparr>)"
    using assms(4) by (simp add: ipq_parse_packet_line_info_unix_def)
  then show thesis
    by (rule that) (use True ukeptI [of "pk_unix_line pk" "pk\<lparr>pk_packet_unix_lines_parsed_complete := True\<rparr>" 0]
      in \<open>simp_all add: ureported_def\<close>)
next
  case False
  define pk0 where "pk0 = pk\<lparr>pk_packet_unix_lines_parsed_complete := True, pk_parsed_unix_lines := 0,
      pk_unix_line := (pk_unix_line pk)[0 := \<lparr>ol_ptr = pk_payload pk, ol_len = 0\<rparr>]\<rparr>"
  have par: "uparsing M bs [] 0 0 pk0" using assms by (simp add: uparsing_def pk0_def)
  have k0: "ukept (pk\<lparr>pk_packet_unix_lines_parsed_complete := True\<rparr>) pk0"
    unfolding pk0_def by (rule ukeptI) simp
  have "urun bs [] 0 0 = fst (split_lf bs)" by (auto simp: urun_def segment_def split: prod.split list.split)
  then obtain pk' where l: "unix_loop M (length bs) 0 pk0 = Some pk'" "ukept pk0 pk'" "ureported M pk' (take 199 (fst (split_lf bs)))"
    using unix_loop_ok [OF par] by auto
  have "pk_payload_packet_len pk \<noteq> 0" using assms(2) False by auto
  then have "ipq_parse_packet_line_info_unix M pk = Some pk'"
    using assms(2-4) l(1) by (simp add: ipq_parse_packet_line_info_unix_def Let_def get_line_def pk0_def)
  then show thesis by (rule that) (use l ukept_trans [OF k0] in auto)
qed

lemma ukept_frame:
  assumes "ukept pk pk'"
  shows "quiet pk pk'" "pk_line pk' = pk_line pk" "http_ok M pk' = http_ok M pk" "pk_referer_line pk' = pk_referer_line pk"
    "pk_packet_lines_parsed_complete pk' = pk_packet_lines_parsed_complete pk"
    "pk_packet_unix_lines_parsed_complete pk' = pk_packet_unix_lines_parsed_complete pk"
    "length (pk_unix_line pk') = length (pk_unix_line pk)" "pk_parsed_lines pk' = pk_parsed_lines pk"
    "pk_host_line pk' = pk_host_line pk" "pk_empty_line_position pk' = pk_empty_line_position pk"
    "pk_empty_line_position_set pk' = pk_empty_line_position_set pk"
  using assms by (auto simp: ukept_def quiet_def same_windows_def http_ok_def)

definition unix_ok :: "mem \<Rightarrow> packet_struct \<Rightarrow> bool" where
  "unix_ok M pk \<longleftrightarrow> unat (pk_parsed_unix_lines pk) < IPOQUE_MAX_PARSE_LINES_PER_PACKET
     \<and> list_all (\<lambda>l. readable M (ol_ptr l) (unat (ol_len l))) (take (unat (pk_parsed_unix_lines pk)) (pk_unix_line pk))"

lemma ureported_unix_ok:
  assumes "ureported M pk ls" "length ls < 200"
  shows "unix_ok M pk"
proof -
  have "list_all2 (line_holds M) (take (length ls) (pk_unix_line pk)) ls" using assms(1) by (simp add: ureported_def)
  then show ?thesis using assms lines_hold_readable by (simp add: ureported_def unix_ok_def)
qed

lemma parse_unix_total:
  assumes "readable M (pk_payload pk) (unat (pk_payload_packet_len pk))"
    and "length (pk_unix_line pk) = IPOQUE_MAX_PARSE_LINES_PER_PACKET"
    and "pk_packet_unix_lines_parsed_complete pk \<longrightarrow> unix_ok M pk"
  shows "\<exists>pk'. ipq_parse_packet_line_info_unix M pk = Some pk' \<and> quiet pk pk' \<and> unix_ok M pk'
    \<and> (http_ok M pk' = http_ok M pk) \<and> pk_line pk' = pk_line pk
    \<and> length (pk_unix_line pk') = length (pk_unix_line pk) \<and> pk_referer_line pk' = pk_referer_line pk
    \<and> pk_packet_lines_parsed_complete pk' = pk_packet_lines_parsed_complete pk
    \<and> pk_packet_unix_lines_parsed_complete pk' \<and> pk_parsed_lines pk' = pk_parsed_lines pk
    \<and> pk_host_line pk' = pk_host_line pk \<and> pk_empty_line_position pk' = pk_empty_line_position pk
    \<and> pk_empty_line_position_set pk' = pk_empty_line_position_set pk"
proof (cases "pk_packet_unix_lines_parsed_complete pk")
  case True
  then show ?thesis using assms(3) by (simp add: ipq_parse_packet_line_info_unix_def)
next
  case False
  let ?pk = "pk\<lparr>pk_packet_unix_lines_parsed_complete := True\<rparr>"
  obtain bs where "length bs = unat (pk_payload_packet_len pk)" "holds M (pk_payload pk) bs"
    using holds_exists [OF assms(1)] by blast
  then obtain pk' where pk': "ipq_parse_packet_line_info_unix M pk = Some pk'" "ukept ?pk pk'"
      "ureported M pk' (take 199 (fst (split_lf bs)))"
    using parse_unix_ok [OF _ _ assms(2) False] by metis
  moreover have "unix_ok M pk'" by (rule ureported_unix_ok [OF pk'(3)]) simp
  moreover have "quiet pk ?pk" by (simp add: quiet_def same_windows_def)
  moreover have "http_ok M ?pk = http_ok M pk" by (simp add: http_ok_def)
  ultimately show ?thesis using ukept_frame [OF pk'(2)] quiet_trans [of pk ?pk pk'] by simp
qed

end
