(* ===== verification/Ipq_Dissect.thy ===== *)
theory Ipq_Dissect
  imports Ipq_Lines
begin

text \<open>
  Dissectors of \<^verbatim>\<open>lib/protocols\<close>: one definition per \<^verbatim>\<open>ipoque_search_*\<close> function. They share their
  \<^verbatim>\<open>ipoque_int_*_add_connection\<close>, which differs from file to file only in the protocol number.
\<close>

subsection \<open>Common operations\<close>

definition mark_id :: "nat \<Rightarrow> addr \<Rightarrow> (addr \<rightharpoonup> id_struct) \<Rightarrow> (addr \<rightharpoonup> id_struct) option" where
  "mark_id proto a ids = (if a = NULL then Some ids
     else do { i \<leftarrow> ids a; Some (ids(a \<mapsto> i\<lparr>id_detected := IPOQUE_ADD_PROTOCOL_TO_BITMASK proto (id_detected i)\<rparr>)) })"

definition mark_ids :: "nat \<Rightarrow> detection_module \<Rightarrow> detection_module option" where
  "mark_ids proto m = do { ids \<leftarrow> mark_id proto (ds_src m) (ds_ids m); ids \<leftarrow> mark_id proto (ds_dst m) ids; Some (m\<lparr>ds_ids := ids\<rparr>) }"

definition set_detected :: "nat \<Rightarrow> detection_module \<Rightarrow> detection_module" where
  "set_detected proto m = m\<lparr>ds_flow := map_option (\<lambda>fl. fl\<lparr>fl_detected_protocol := of_nat proto\<rparr>) (ds_flow m),
     ds_packet := (ds_packet m)\<lparr>pk_detected_protocol := of_nat proto\<rparr>\<rparr>"

definition ipoque_int_add_connection :: "nat \<Rightarrow> detection_module \<Rightarrow> detection_module option" where
  "ipoque_int_add_connection proto m = do { _ \<leftarrow> ds_flow m; mark_ids proto (set_detected proto m) }"

definition exclude :: "nat \<Rightarrow> detection_module \<Rightarrow> detection_module option" where
  "exclude proto m = do { fl \<leftarrow> ds_flow m;
     Some (m\<lparr>ds_flow := Some (fl\<lparr>fl_excluded := IPOQUE_ADD_PROTOCOL_TO_BITMASK proto (fl_excluded fl)\<rparr>)\<rparr>) }"

definition set_stage :: "string \<Rightarrow> nat \<Rightarrow> detection_module \<Rightarrow> detection_module option" where
  "set_stage f v m = do { fl \<leftarrow> ds_flow m; Some (m\<lparr>ds_flow := Some (fl\<lparr>fl_stage := (fl_stage fl)(f := v)\<rparr>)\<rparr>) }"

definition get_stage :: "string \<Rightarrow> detection_module \<Rightarrow> nat option" where
  "get_stage f m = do { fl \<leftarrow> ds_flow m; Some (fl_stage fl f) }"

text \<open>Conditions: \<open>allM\<close> and \<open>anyM\<close> are \<^verbatim>\<open>&&\<close> and \<^verbatim>\<open>||\<close>, which stop at the first operand that decides.\<close>

fun allM :: "bool option list \<Rightarrow> bool option" where
  "allM [] = Some True"
| "allM (x # xs) = do { b \<leftarrow> x; if b then allM xs else Some False }"

fun anyM :: "bool option list \<Rightarrow> bool option" where
  "anyM [] = Some False"
| "anyM (x # xs) = do { b \<leftarrow> x; if b then Some True else anyM xs }"

definition byte_is :: "mem \<Rightarrow> addr \<Rightarrow> (u8 \<Rightarrow> bool) \<Rightarrow> bool option" where
  "byte_is M a P = do { x \<leftarrow> M a; Some (P x) }"

definition half_is :: "mem \<Rightarrow> addr \<Rightarrow> (u16 \<Rightarrow> bool) \<Rightarrow> bool option" where
  "half_is M a P = do { x \<leftarrow> rd16be M a; Some (P x) }"

definition word_is :: "mem \<Rightarrow> addr \<Rightarrow> (u32 \<Rightarrow> bool) \<Rightarrow> bool option" where
  "word_is M a P = do { x \<leftarrow> rd32be M a; Some (P x) }"

text \<open>Ports of a transport header the packet may not have.\<close>

definition port_is :: "mem \<Rightarrow> addr \<Rightarrow> nat \<Rightarrow> (u16 \<Rightarrow> bool) \<Rightarrow> bool option" where
  "port_is M hdr off P = (if hdr = NULL then None else half_is M (hdr + off) P)"

abbreviation (input) "source_is M hdr P \<equiv> port_is M hdr 0 P"
abbreviation (input) "dest_is M hdr P \<equiv> port_is M hdr 2 P"

text \<open>Add the connection if the condition holds, exclude the protocol otherwise.\<close>

definition decide :: "nat \<Rightarrow> bool option \<Rightarrow> detection_module \<Rightarrow> detection_module option" where
  "decide proto cond m = do { b \<leftarrow> cond; if b then ipoque_int_add_connection proto m else exclude proto m }"

abbreviation (input) "plen m \<equiv> pk_payload_packet_len (ds_packet m)"
abbreviation (input) "pay m \<equiv> pk_payload (ds_packet m)"

subsection \<open>One packet decides\<close>

definition ipoque_search_ntp_udp :: "mem \<Rightarrow> detection_module \<Rightarrow> detection_module option" where
  "ipoque_search_ntp_udp M m = decide IPOQUE_PROTOCOL_NTP
     (allM [anyM [dest_is M (pk_udp (ds_packet m)) ((=) 123), source_is M (pk_udp (ds_packet m)) ((=) 123)],
            Some (plen m = 48), byte_is M (pay m) (\<lambda>x. drop_bit 3 (x AND 0x38) \<le> 4)]) m"

definition ipoque_search_dhcp_udp :: "mem \<Rightarrow> detection_module \<Rightarrow> detection_module option" where
  "ipoque_search_dhcp_udp M m = decide IPOQUE_PROTOCOL_DHCP
     (let udp = pk_udp (ds_packet m) in
      allM [Some (244 \<le> plen m),
            anyM [source_is M udp ((=) 67), source_is M udp ((=) 68)],
            anyM [dest_is M udp ((=) 67), dest_is M udp ((=) 68)],
            word_is M (pay m + 236) ((=) 0x63825363), half_is M (pay m + 240) ((=) 0x3501)]) m"

definition ipoque_search_rdp :: "mem \<Rightarrow> detection_module \<Rightarrow> detection_module option" where
  "ipoque_search_rdp M m = decide IPOQUE_PROTOCOL_RDP
     (allM [Some (10 < plen m), byte_is M (pay m) (\<lambda>x. 0 < x), byte_is M (pay m) (\<lambda>x. x < 4),
            half_is M (pay m + 2) ((=) (plen m)),
            byte_is M (pay m + 4) (\<lambda>x. int (unat x) = int (unat (plen m)) - 5),
            byte_is M (pay m + 5) ((=) 0xe0), half_is M (pay m + 6) ((=) 0), half_is M (pay m + 8) ((=) 0),
            byte_is M (pay m + 10) ((=) 0)]) m"

definition ipoque_search_kontiki :: "mem \<Rightarrow> detection_module \<Rightarrow> detection_module option" where
  "ipoque_search_kontiki M m = decide IPOQUE_PROTOCOL_KONTIKI
     (anyM [allM [Some (plen m = 4), word_is M (pay m) ((=) 0x02010100)],
            allM [Some (0 < plen m), byte_is M (pay m) ((=) 0x02),
                  anyM [allM [Some (plen m = 20), word_is M (pay m + 16) ((=) 0x02040100)],
                        allM [Some (plen m = 16), word_is M (pay m + 12) ((=) 0x000004e4)]]]]) m"

definition ipoque_search_applejuice_tcp :: "mem \<Rightarrow> detection_module \<Rightarrow> detection_module option" where
  "ipoque_search_applejuice_tcp M m = decide IPOQUE_PROTOCOL_APPLEJUICE
     (allM [Some (7 < plen m), byte_is M (pay m + 6) ((=) 0x0d), byte_is M (pay m + 7) ((=) 0x0a),
            mem_eq M (pay m) ''ajprot'']) m"

text \<open>\<^verbatim>\<open>get_u64(...) == 0xffffffffffffffff\<close> is written as two 32-bit words.\<close>

definition ipoque_search_bgp :: "mem \<Rightarrow> detection_module \<Rightarrow> detection_module option" where
  "ipoque_search_bgp M m = decide IPOQUE_PROTOCOL_BGP
     (let tcp = pk_tcp (ds_packet m) in
      allM [Some (18 < plen m),
            word_is M (pay m) ((=) 0xffffffff), word_is M (pay m + 4) ((=) 0xffffffff),
            word_is M (pay m + 8) ((=) 0xffffffff), word_is M (pay m + 12) ((=) 0xffffffff),
            half_is M (pay m + 16) (\<lambda>x. x \<le> plen m),
            anyM [dest_is M tcp ((=) 179), source_is M tcp ((=) 179)],
            byte_is M (pay m + 18) (\<lambda>x. x < 5)]) m"

definition ipoque_search_smb_tcp :: "mem \<Rightarrow> detection_module \<Rightarrow> detection_module option" where
  "ipoque_search_smb_tcp M m = decide IPOQUE_PROTOCOL_SMB
     (allM [dest_is M (pk_tcp (ds_packet m)) ((=) 445), Some (32 + 4 + 4 < plen m),
            word_is M (pay m) (\<lambda>x. unat x = unat (plen m) - 4), word_is M (pay m + 4) ((=) 0xff534d42)]) m"

definition ipoque_search_pcanywhere :: "mem \<Rightarrow> detection_module \<Rightarrow> detection_module option" where
  "ipoque_search_pcanywhere M m = decide IPOQUE_PROTOCOL_PCANYWHERE
     (let udp = pk_udp (ds_packet m) in
      allM [Some (udp \<noteq> NULL), dest_is M udp ((=) 5632), Some (plen m = 2),
            anyM [mem_eq M (pay m) ''NQ'', mem_eq M (pay m) ''ST'']]) m"

definition ipoque_search_stealthnet :: "mem \<Rightarrow> detection_module \<Rightarrow> detection_module option" where
  "ipoque_search_stealthnet M m = decide IPOQUE_PROTOCOL_STEALTHNET
     (allM [Some (40 < plen m), mem_eq M (pay m) (''LARS REGENSBURGER'' @ [CHR 0x27] @ ''S FILE SHARING PROTOCOL'')]) m"

definition ipoque_search_ssdp :: "mem \<Rightarrow> detection_module \<Rightarrow> detection_module option" where
  "ipoque_search_ssdp M m = decide IPOQUE_PROTOCOL_SSDP
     (allM [Some (pk_udp (ds_packet m) \<noteq> NULL), Some (100 < plen m),
            anyM [mem_eq M (pay m) ''M-SEARCH * HTTP/1.1'', mem_eq M (pay m) ''NOTIFY * HTTP/1.1'']]) m"

definition ipoque_search_quake :: "mem \<Rightarrow> detection_module \<Rightarrow> detection_module option" where
  "ipoque_search_quake M m = decide IPOQUE_PROTOCOL_QUAKE
     (anyM [allM [Some (plen m = 14), half_is M (pay m) ((=) 0xffff), mem_eq M (pay m + 2) ''getInfo''],
            allM [Some (plen m = 17), half_is M (pay m) ((=) 0xffff), mem_eq M (pay m + 2) ''challenge''],
            allM [Some (20 < plen m), Some (plen m < 30), half_is M (pay m) ((=) 0xffff),
                  mem_eq M (pay m + 2) ''getServers'']]) m"

definition ipoque_search_xdmcp :: "mem \<Rightarrow> detection_module \<Rightarrow> detection_module option" where
  "ipoque_search_xdmcp M m = decide IPOQUE_PROTOCOL_XDMCP
     (let tcp = pk_tcp (ds_packet m); udp = pk_udp (ds_packet m) in
      anyM [allM [Some (tcp \<noteq> NULL), dest_is M tcp (\<lambda>p. 6000 \<le> p \<and> p \<le> 6005), Some (plen m = 48),
                  byte_is M (pay m) ((=) 0x6c), byte_is M (pay m + 1) ((=) 0x00),
                  half_is M (pay m + 6) ((=) 0x1200), half_is M (pay m + 8) ((=) 0x1000)],
            allM [Some (udp \<noteq> NULL), dest_is M udp ((=) 177), Some (6 \<le> plen m),
                  half_is M (pay m + 4) (\<lambda>x. unat (plen m) = 6 + unat x),
                  half_is M (pay m) ((=) 0x0001), half_is M (pay m + 2) ((=) 0x0002)]]) m"

text \<open>The loop looks for the first zero byte from offset 7 on; only the bytes after that one decide.\<close>

function mysql_scan :: "mem \<Rightarrow> addr \<Rightarrow> nat \<Rightarrow> nat \<Rightarrow> bool option" where
  "mysql_scan M p n a =
     (if a + 31 < n
      then do { x \<leftarrow> M (p + a);
                if x = 0
                then allM [byte_is M (p + (a + 13)) ((=) 0), word_is M (p + (a + 19)) ((=) 0), word_is M (p + (a + 23)) ((=) 0),
                           word_is M (p + (a + 27)) ((=) 0), byte_is M (p + (a + 31)) ((=) 0)]
                else mysql_scan M p n (a + 1) }
      else Some False)"
  by auto
termination by (relation "measure (\<lambda>(M, p, n, a). n - a)") auto

declare mysql_scan.simps [simp del]

text \<open>\<^verbatim>\<open>get_u16(payload, 0)\<close> is compared in machine order.\<close>

definition ipoque_search_mysql_tcp :: "mem \<Rightarrow> detection_module \<Rightarrow> detection_module option" where
  "ipoque_search_mysql_tcp M m = decide IPOQUE_PROTOCOL_MYSQL
     (allM [Some (37 < plen m), half_is M (pay m) (\<lambda>x. bswap16 x = plen m - 4),
            byte_is M (pay m + 2) ((=) 0), byte_is M (pay m + 3) ((=) 0),
            byte_is M (pay m + 5) (\<lambda>x. 0x30 < x), byte_is M (pay m + 5) (\<lambda>x. x < 0x37),
            byte_is M (pay m + 6) ((=) 0x2e), mysql_scan M (pay m) (unat (plen m)) 7]) m"

definition id_has_protocol :: "addr \<Rightarrow> nat \<Rightarrow> detection_module \<Rightarrow> bool option" where
  "id_has_protocol a proto m = (if a = NULL then Some False
     else do { i \<leftarrow> ds_ids m a; Some (IPOQUE_COMPARE_PROTOCOL_TO_BITMASK (id_detected i) proto \<noteq> 0) })"

definition ipoque_search_worldofwarcraft :: "mem \<Rightarrow> detection_module \<Rightarrow> detection_module option" where
  "ipoque_search_worldofwarcraft M m = decide IPOQUE_PROTOCOL_WORLDOFWARCRAFT
     (let tcp = pk_tcp (ds_packet m) in
      allM [Some (tcp \<noteq> NULL),
        anyM [allM [dest_is M tcp ((=) 3724), Some (plen m < 70), Some (40 < plen m),
                    anyM [mem_eq M (pay m + 4) ''WoW'', mem_eq M (pay m + 5) ''WoW'']],
              allM [anyM [id_has_protocol (ds_src m) IPOQUE_PROTOCOL_WORLDOFWARCRAFT m,
                          id_has_protocol (ds_dst m) IPOQUE_PROTOCOL_WORLDOFWARCRAFT m],
                    source_is M tcp ((=) 3724), Some (plen m = 8), word_is M (pay m) ((=) 0x0006ec01)]]]) m"

subsection \<open>Two packets decide\<close>

text \<open>The first packet sets the stage to one plus its direction; a packet of the other direction completes the
  exchange.\<close>

abbreviation (input) "dirn m \<equiv> (if pk_packet_direction (ds_packet m) then 1 else 0 :: nat)"

definition two_way ::
    "nat \<Rightarrow> string \<Rightarrow> bool option \<Rightarrow> bool option \<Rightarrow> detection_module \<Rightarrow> detection_module option" where
  "two_way proto f first second m =
     do { stage \<leftarrow> get_stage f m;
          if stage = 0
          then do { b \<leftarrow> first; if b then set_stage f (1 + dirn m) m else exclude proto m }
          else if stage = 2 - dirn m
          then decide proto second m
          else exclude proto m }"

definition ipoque_search_ssh_tcp :: "mem \<Rightarrow> detection_module \<Rightarrow> detection_module option" where
  "ipoque_search_ssh_tcp M m =
     (let banner = allM [Some (7 < plen m), Some (plen m < 100), mem_eq M (pay m) ''SSH-'']
      in two_way IPOQUE_PROTOCOL_SSH ''ssh_stage'' banner banner m)"

definition ipoque_search_vnc_tcp :: "mem \<Rightarrow> detection_module \<Rightarrow> detection_module option" where
  "ipoque_search_vnc_tcp M m =
     (let version = allM [Some (plen m = 12), mem_eq M (pay m) ''RFB 003.00'', byte_is M (pay m + 11) ((=) 0x0a)]
      in two_way IPOQUE_PROTOCOL_VNC ''vnc_stage'' version version m)"

definition ipoque_search_steam :: "mem \<Rightarrow> detection_module \<Rightarrow> detection_module option" where
  "ipoque_search_steam M m = two_way IPOQUE_PROTOCOL_STEAM ''steam_stage''
     (allM [Some (plen m = 4), word_is M (pay m) (\<lambda>x. x \<le> 7),
            dest_is M (pk_tcp (ds_packet m)) (\<lambda>p. 27030 \<le> p), dest_is M (pk_tcp (ds_packet m)) (\<lambda>p. p \<le> 27040)])
     (allM [Some (plen m = 1 \<or> plen m = 5), byte_is M (pay m) ((=) 1)]) m"

definition ipoque_search_halflife2 :: "mem \<Rightarrow> detection_module \<Rightarrow> detection_module option" where
  "ipoque_search_halflife2 M m =
     (let query = allM [Some (20 \<le> plen m), word_is M (pay m) ((=) 0xFFFFFFFF),
                        word_is M (pay m + (unat (plen m) - 4)) ((=) 0x30303000)]
      in two_way IPOQUE_PROTOCOL_HALFLIFE2 ''halflife2_stage'' query query m)"

definition ipoque_search_tftp :: "mem \<Rightarrow> detection_module \<Rightarrow> detection_module option" where
  "ipoque_search_tftp M m =
     do { stage \<leftarrow> get_stage ''tftp_stage'' m;
          data \<leftarrow> allM [Some (3 < plen m), Some (stage = 0), word_is M (pay m) ((=) 0x00030001)];
          if data then set_stage ''tftp_stage'' 1 m
          else do {
            acked \<leftarrow> allM [Some (3 < plen m), Some (stage = 1), word_is M (pay m) ((=) 0x00040001)];
            if acked then ipoque_int_add_connection IPOQUE_PROTOCOL_TFTP m
            else do {
              initial \<leftarrow> allM [Some (1 < plen m),
                anyM [allM [byte_is M (pay m) ((=) 0), byte_is M (pay m + (unat (plen m) - 1)) ((=) 0)],
                      allM [Some (plen m = 4), word_is M (pay m) ((=) 0x00040000)]]];
              if initial then Some m else exclude IPOQUE_PROTOCOL_TFTP m } } }"

subsection \<open>Dissectors that look at lines\<close>

definition with_packet :: "(packet_struct \<Rightarrow> packet_struct option) \<Rightarrow> detection_module \<Rightarrow> detection_module option" where
  "with_packet f m = do { pk \<leftarrow> f (ds_packet m); Some (m\<lparr>ds_packet := pk\<rparr>) }"

fun any_line :: "mem \<Rightarrow> string \<Rightarrow> one_line list \<Rightarrow> bool option" where
  "any_line M s [] = Some False"
| "any_line M s (l # ls) =
     do { b \<leftarrow> allM [Some (ol_ptr l \<noteq> NULL), Some (of_nat (length s) < ol_len l), mem_eq M (ol_ptr l) s];
          if b then Some True else any_line M s ls }"

text \<open>The loop counter is a \<^verbatim>\<open>u8\<close>; at most 199 lines are counted.\<close>

definition ipoque_search_icecast_tcp :: "mem \<Rightarrow> detection_module \<Rightarrow> detection_module option" where
  "ipoque_search_icecast_tcp M m =
     do { b \<leftarrow> allM [Some (plen m < 500), Some (7 \<le> plen m), mem_eq M (pay m) ''SOURCE ''];
          if b
          then do { m \<leftarrow> with_packet (ipq_parse_packet_line_info_unix M) m;
                    decide IPOQUE_PROTOCOL_ICECAST
                      (any_line M ''ice-'' (take (unat (pk_parsed_unix_lines (ds_packet m))) (pk_unix_line (ds_packet m)))) m }
          else exclude IPOQUE_PROTOCOL_ICECAST m }"

definition ipoque_search_openft_tcp :: "mem \<Rightarrow> detection_module \<Rightarrow> detection_module option" where
  "ipoque_search_openft_tcp M m =
     do { b \<leftarrow> allM [Some (5 < plen m), mem_eq M (pay m) ''GET /''];
          if b
          then do { m \<leftarrow> with_packet (ipq_parse_packet_line_info M) m;
                    let pk = ds_packet m;
                    decide IPOQUE_PROTOCOL_OPENFT
                      (if 2 \<le> pk_parsed_lines pk
                       then do { l \<leftarrow> get_line (pk_line pk) 1;
                                 allM [Some (13 < ol_len l), mem_eq M (ol_ptr l) ''X-OpenftAlias:''] }
                       else Some False) m }
          else exclude IPOQUE_PROTOCOL_OPENFT m }"

text \<open>A suffix of a noted header line.\<close>

definition ends_with :: "mem \<Rightarrow> one_line \<Rightarrow> string \<Rightarrow> bool option" where
  "ends_with M l s = mem_eq M (ol_ptr l + unat (ol_len l) - length s) s"

definition ipoque_search_veohtv_tcp :: "mem \<Rightarrow> detection_module \<Rightarrow> detection_module option" where
  "ipoque_search_veohtv_tcp M m =
     do { b \<leftarrow> allM [Some (4 < plen m), mem_eq M (pay m) ''GET ''];
          if b
          then do { m \<leftarrow> with_packet (ipq_parse_packet_line_info M) m;
                    let host = pk_host_line (ds_packet m);
                    let referer = pk_referer_line (ds_packet m);
                    decide IPOQUE_PROTOCOL_VEOHTV
                      (allM [Some (ol_ptr host \<noteq> NULL), Some (9 < ol_len host), ends_with M host ''.veoh.com'',
                             Some (ol_ptr referer \<noteq> NULL), Some (20 < ol_len referer),
                             ends_with M referer ''fullscreen_client.swf'']) m }
          else exclude IPOQUE_PROTOCOL_VEOHTV m }"

subsection \<open>Other transport protocols\<close>

definition l4_protocols :: "(u8 \<times> nat) list" where
  "l4_protocols = [(50, IPOQUE_PROTOCOL_IPSEC), (51, IPOQUE_PROTOCOL_IPSEC), (0x2F, IPOQUE_PROTOCOL_GRE),
     (0x01, IPOQUE_PROTOCOL_ICMP), (0x02, IPOQUE_PROTOCOL_IGMP), (0x08, IPOQUE_PROTOCOL_EGP),
     (132, IPOQUE_PROTOCOL_SCTP), (0x59, IPOQUE_PROTOCOL_OSPF), (0x04, IPOQUE_PROTOCOL_IP_IN_IP)]"

definition set_protocol_and_bmask :: "nat \<Rightarrow> detection_module \<Rightarrow> detection_module option" where
  "set_protocol_and_bmask proto m =
     (if IPOQUE_COMPARE_PROTOCOL_TO_BITMASK (detection_bitmask m) proto \<noteq> 0
      then mark_ids proto (set_detected proto m) else Some m)"

definition ipoque_search_in_non_tcp_udp :: "mem \<Rightarrow> detection_module \<Rightarrow> detection_module option" where
  "ipoque_search_in_non_tcp_udp M m =
     (if pk_iph (ds_packet m) = NULL then Some m
      else case map_of l4_protocols (pk_l4_protocol (ds_packet m)) of
        Some proto \<Rightarrow> set_protocol_and_bmask proto m
      | None \<Rightarrow> Some m)"

end
