(* ===== verification/Ipq_Contract.thy ===== *)
theory Ipq_Contract
  imports Ipq_Dissect
begin

text \<open>
  What the dispatcher relies on in a dissector: called on a module whose pointers may be followed it returns,
  keeps the module in that state, and changes nothing of the packet and the configuration that later dissectors
  depend on. The modelled dissectors keep this contract.
\<close>

subsection \<open>The contract\<close>

definition ids_ok :: "detection_module \<Rightarrow> bool" where
  "ids_ok m \<longleftrightarrow> (\<forall>a\<in>{ds_src m, ds_dst m}. a \<noteq> NULL \<longrightarrow> a \<in> dom (ds_ids m))"

text \<open>The detected protocols of the packet and of its flow are numbers the bitmasks can hold. They need not agree: DirectConnect
  forgets the protocol of the packet alone.\<close>

definition protocols_ok :: "detection_module \<Rightarrow> bool" where
  "protocols_ok m \<longleftrightarrow> unat (pk_detected_protocol (ds_packet m)) < 128
     \<and> (case ds_flow m of None \<Rightarrow> True | Some fl \<Rightarrow> unat (fl_detected_protocol fl) < 128)"

definition arrays_200 :: "packet_struct \<Rightarrow> bool" where
  "arrays_200 pk \<longleftrightarrow> length (pk_line pk) = IPOQUE_MAX_PARSE_LINES_PER_PACKET
     \<and> length (pk_unix_line pk) = IPOQUE_MAX_PARSE_LINES_PER_PACKET"

definition packet_ok :: "mem \<Rightarrow> packet_struct \<Rightarrow> bool" where
  "packet_ok M pk \<longleftrightarrow> windows_ok M pk \<and> arrays_200 pk
     \<and> (pk_tcp pk \<noteq> NULL \<or> pk_udp pk \<noteq> NULL \<longrightarrow> pk_iph pk \<noteq> NULL)
     \<and> (pk_packet_lines_parsed_complete pk \<longrightarrow> http_ok M pk \<and> lines_ok M pk)
     \<and> (pk_packet_unix_lines_parsed_complete pk \<longrightarrow> unix_ok M pk)"

definition view_ok :: "mem \<Rightarrow> detection_module \<Rightarrow> bool" where
  "view_ok M m \<longleftrightarrow> packet_ok M (ds_packet m) \<and> ids_ok m \<and> protocols_ok m \<and> pred_option flow_ok (ds_flow m)"

definition excl :: "detection_module \<Rightarrow> nat set" where
  "excl m = (case ds_flow m of None \<Rightarrow> {} | Some fl \<Rightarrow> bm_set (fl_excluded fl))"

definition step_ok :: "detection_module \<Rightarrow> detection_module \<Rightarrow> bool" where
  "step_ok m m' \<longleftrightarrow> same_config m m' \<and> same_windows (ds_packet m) (ds_packet m')
     \<and> pk_packet_direction (ds_packet m') = pk_packet_direction (ds_packet m)
     \<and> (ds_flow m' = None \<longleftrightarrow> ds_flow m = None) \<and> excl m \<subseteq> excl m'
     \<and> ds_src m' = ds_src m \<and> ds_dst m' = ds_dst m \<and> dom (ds_ids m') = dom (ds_ids m)"

definition good :: "mem \<Rightarrow> detection_module \<Rightarrow> detection_module option \<Rightarrow> bool" where
  "good M m r \<longleftrightarrow> (\<exists>m'. r = Some m' \<and> view_ok M m' \<and> step_ok m m')"

lemma step_ok_refl [simp]: "step_ok m m"
  by (simp add: step_ok_def same_windows_def)

lemma step_ok_trans: "step_ok a b \<Longrightarrow> step_ok b c \<Longrightarrow> step_ok a c"
  unfolding step_ok_def same_windows_def using same_config_trans by (metis subset_trans)

lemma good_Some: "view_ok M m \<Longrightarrow> good M m (Some m)"
  by (simp add: good_def)

lemma good_bind:
  assumes "good M m x" and "\<And>m'. view_ok M m' \<Longrightarrow> step_ok m m' \<Longrightarrow> good M m' (f m')"
  shows "good M m (x \<bind> f)"
  using assms step_ok_trans unfolding good_def by (metis bind.bind_lunit)

subsection \<open>The common operations keep it\<close>

lemma mark_id_ok:
  "(a \<noteq> NULL \<longrightarrow> a \<in> dom ids) \<Longrightarrow> \<exists>ids'. mark_id p a ids = Some ids' \<and> dom ids' = dom ids"
  by (auto simp: mark_id_def)

lemma mark_ids_ok:
  assumes "ids_ok m"
  shows "\<exists>ids. mark_ids p m = Some (m\<lparr>ds_ids := ids\<rparr>) \<and> dom ids = dom (ds_ids m)"
proof -
  obtain i1 where i1: "mark_id p (ds_src m) (ds_ids m) = Some i1" "dom i1 = dom (ds_ids m)"
    using mark_id_ok [of "ds_src m" "ds_ids m" p] assms by (auto simp: ids_ok_def)
  obtain i2 where i2: "mark_id p (ds_dst m) i1 = Some i2" "dom i2 = dom i1"
    using mark_id_ok [of "ds_dst m" i1 p] assms i1 by (auto simp: ids_ok_def)
  show ?thesis using i1 i2 by (intro exI [of _ i2]) (simp add: mark_ids_def)
qed

lemma packet_ok_detected [simp]: "packet_ok M (pk\<lparr>pk_detected_protocol := v\<rparr>) = packet_ok M pk"
  by (simp add: packet_ok_def windows_ok_def arrays_200_def http_ok_def lines_ok_def unix_ok_def)

lemma marked_good:
  assumes "view_ok M m" "p < 128"
  shows "good M m (mark_ids p (set_detected p m))"
proof -
  have "ids_ok (set_detected p m)" using assms(1) by (simp add: view_ok_def ids_ok_def set_detected_def)
  then obtain ids where ids: "mark_ids p (set_detected p m) = Some (set_detected p m\<lparr>ds_ids := ids\<rparr>)"
    "dom ids = dom (ds_ids (set_detected p m))"
    using mark_ids_ok by blast
  have p: "unat (of_nat p :: u32) < 128" using assms(2) by (simp add: unat_of_nat take_bit_eq_mod)
  have "view_ok M (set_detected p m\<lparr>ds_ids := ids\<rparr>)"
    using assms(1) ids(2) p
    by (auto simp: view_ok_def ids_ok_def protocols_ok_def set_detected_def flow_ok_def option.pred_map pred_option_def
        split: option.splits)
  moreover have "step_ok m (set_detected p m\<lparr>ds_ids := ids\<rparr>)"
    using ids(2) by (auto simp: step_ok_def set_detected_def same_windows_def excl_def split: option.splits)
  ultimately show ?thesis using ids(1) by (simp add: good_def)
qed

lemma add_connection_good:
  assumes "view_ok M m" "p < 128" "ds_flow m \<noteq> None"
  shows "good M m (ipoque_int_add_connection p m)"
  using marked_good [OF assms(1,2)] assms(3) by (auto simp: ipoque_int_add_connection_def)

lemma flow_update_good:
  assumes "view_ok M m" "ds_flow m = Some fl" "flow_ok fl \<Longrightarrow> flow_ok fl'"
    and "fl_detected_protocol fl' = fl_detected_protocol fl" "bm_set (fl_excluded fl) \<subseteq> bm_set (fl_excluded fl')"
  shows "good M m (Some (m\<lparr>ds_flow := Some fl'\<rparr>))"
  using assms by (auto simp: good_def view_ok_def step_ok_def ids_ok_def protocols_ok_def same_windows_def excl_def)

lemma exclude_good:
  assumes "view_ok M m" "p < 128" "ds_flow m \<noteq> None"
  shows "good M m (exclude p m)"
proof -
  obtain fl where fl: "ds_flow m = Some fl" using assms(3) by blast
  have "good M m (Some (m\<lparr>ds_flow := Some (fl\<lparr>fl_excluded := IPOQUE_ADD_PROTOCOL_TO_BITMASK p (fl_excluded fl)\<rparr>)\<rparr>))"
    using bm.insert_law [OF assms(2), of "fl_excluded fl"]
    by (intro flow_update_good [OF assms(1) fl]) (auto simp: flow_ok_def)
  then show ?thesis by (simp add: exclude_def fl)
qed

lemma set_stage_good:
  assumes "view_ok M m" "ds_flow m \<noteq> None"
  shows "good M m (set_stage f v m)"
proof -
  obtain fl where fl: "ds_flow m = Some fl" using assms(2) by blast
  have "good M m (Some (m\<lparr>ds_flow := Some (fl\<lparr>fl_stage := (fl_stage fl)(f := v)\<rparr>)\<rparr>))"
    by (intro flow_update_good [OF assms(1) fl]) (auto simp: flow_ok_def)
  then show ?thesis by (simp add: set_stage_def fl)
qed

lemma decide_good:
  assumes "view_ok M m" "p < 128" "ds_flow m \<noteq> None" "\<exists>b. cond = Some b"
  shows "good M m (decide p cond m)"
  using assms add_connection_good exclude_good by (auto simp: decide_def)

lemma two_way_good:
  assumes "view_ok M m" "p < 128" "ds_flow m \<noteq> None" "\<exists>b. c1 = Some b" "\<exists>b. c2 = Some b"
  shows "good M m (two_way p f c1 c2 m)"
proof -
  obtain s where "get_stage f m = Some s" using assms(3) by (auto simp: get_stage_def)
  then show ?thesis
    using assms decide_good exclude_good set_stage_good by (auto simp: two_way_def)
qed

lemma if_good: "(b \<Longrightarrow> good M m x) \<Longrightarrow> (\<not> b \<Longrightarrow> good M m y) \<Longrightarrow> good M m (if b then x else y)"
  by simp

lemma bool_bind_good:
  "\<exists>b. c = Some b \<Longrightarrow> (\<And>b. c = Some b \<Longrightarrow> good M m (f b)) \<Longrightarrow> good M m (c \<bind> f)"
  by auto

subsection \<open>Conditions are defined\<close>

named_theorems cond_total \<open>conditions of dissectors that always have a value\<close>

lemma Some_total [cond_total]: "\<exists>b. Some x = Some b"
  by blast

lemma allM_Nil_total [cond_total]: "\<exists>b. allM [] = Some b"
  unfolding allM.simps by blast

lemma anyM_Nil_total [cond_total]: "\<exists>b. anyM [] = Some b"
  unfolding anyM.simps by blast

lemma allM_total [cond_total]:
  "\<exists>b. x = Some b \<Longrightarrow> (x = Some True \<Longrightarrow> \<exists>b. allM xs = Some b) \<Longrightarrow> \<exists>b. allM (x # xs) = Some b"
  by auto

lemma anyM_total [cond_total]:
  "\<exists>b. x = Some b \<Longrightarrow> (x = Some False \<Longrightarrow> \<exists>b. anyM xs = Some b) \<Longrightarrow> \<exists>b. anyM (x # xs) = Some b"
  by auto

lemma byte_is_total: "readable M a 1 \<Longrightarrow> \<exists>b. byte_is M a P = Some b"
  using readable_at [of M a 1 a] by (auto simp: byte_is_def)

lemma half_is_total: "readable M a 2 \<Longrightarrow> \<exists>b. half_is M a P = Some b"
  using rd16be_total [of M a] by (auto simp: half_is_def)

lemma word_is_total: "readable M a 4 \<Longrightarrow> \<exists>b. word_is M a P = Some b"
  using rd32be_total [of M a] by (auto simp: word_is_def)

lemma pay_readable:
  assumes "view_ok M m" "k + j \<le> unat (plen m)"
  shows "readable M (pay m + k) j"
proof -
  have "readable M (pay m) (unat (plen m))" using assms(1) unfolding view_ok_def packet_ok_def windows_ok_def by blast
  then show ?thesis by (rule readable_sub) (use assms(2) in simp_all)
qed

lemma pay_total:
  assumes "view_ok M m"
  shows "k + 1 \<le> unat (plen m) \<Longrightarrow> \<exists>b. byte_is M (pay m + k) P = Some b"
    "k + 2 \<le> unat (plen m) \<Longrightarrow> \<exists>b. half_is M (pay m + k) Q = Some b"
    "k + 4 \<le> unat (plen m) \<Longrightarrow> \<exists>b. word_is M (pay m + k) R = Some b"
    "k + length s \<le> unat (plen m) \<Longrightarrow> \<exists>b. mem_eq M (pay m + k) s = Some b"
  using pay_readable [OF assms] byte_is_total half_is_total word_is_total mem_eq_total by blast+

lemma pay_total_0:
  assumes "view_ok M m"
  shows "1 \<le> unat (plen m) \<Longrightarrow> \<exists>b. byte_is M (pay m) P = Some b"
    "2 \<le> unat (plen m) \<Longrightarrow> \<exists>b. half_is M (pay m) Q = Some b"
    "4 \<le> unat (plen m) \<Longrightarrow> \<exists>b. word_is M (pay m) R = Some b"
    "length s \<le> unat (plen m) \<Longrightarrow> \<exists>b. mem_eq M (pay m) s = Some b"
  using pay_total [OF assms, of 0] by simp_all

lemma port_total:
  assumes "view_ok M m" "off + 2 \<le> 8"
  shows "pk_tcp (ds_packet m) \<noteq> NULL \<Longrightarrow> \<exists>b. port_is M (pk_tcp (ds_packet m)) off P = Some b"
    "pk_udp (ds_packet m) \<noteq> NULL \<Longrightarrow> \<exists>b. port_is M (pk_udp (ds_packet m)) off P = Some b"
proof -
  have "readable M (h + off) 2" if "readable M h 8" for h
    using that assms(2) by (intro readable_sub [OF that]) auto
  moreover have "readable M h 8" if "readable M h 20" for h
    using that by (rule readable_mono) simp
  ultimately show "pk_tcp (ds_packet m) \<noteq> NULL \<Longrightarrow> \<exists>b. port_is M (pk_tcp (ds_packet m)) off P = Some b"
    "pk_udp (ds_packet m) \<noteq> NULL \<Longrightarrow> \<exists>b. port_is M (pk_udp (ds_packet m)) off P = Some b"
    using assms(1) half_is_total by (auto simp: port_is_def view_ok_def packet_ok_def windows_ok_def)
qed

end
