(* ===== verification/Ipq_Conformance.thy ===== *)
theory Ipq_Conformance
  imports Ipq_Contract
begin

text \<open>
  The modelled dissectors keep the contract of \<^verbatim>\<open>Ipq_Contract\<close>: on a packet of the kind they are registered for they
  read inside the packet only and return.
\<close>

subsection \<open>One packet decides\<close>

lemmas read_rules = cond_total pay_total pay_total_0 port_total

lemmas len_simps = word_less_nat_alt word_le_nat_alt

lemma ntp_good:
  assumes "view_ok M m" "ds_flow m \<noteq> None" "pk_udp (ds_packet m) \<noteq> NULL"
  shows "good M m (ipoque_search_ntp_udp M m)"
  unfolding ipoque_search_ntp_udp_def using assms
  by (intro decide_good read_rules) (simp_all add: len_simps)

lemma dhcp_good:
  assumes "view_ok M m" "ds_flow m \<noteq> None" "pk_udp (ds_packet m) \<noteq> NULL"
  shows "good M m (ipoque_search_dhcp_udp M m)"
  unfolding ipoque_search_dhcp_udp_def Let_def using assms
  by (intro decide_good read_rules) (simp_all add: len_simps)

lemma rdp_good:
  assumes "view_ok M m" "ds_flow m \<noteq> None"
  shows "good M m (ipoque_search_rdp M m)"
  unfolding ipoque_search_rdp_def using assms
  by (intro decide_good read_rules) (simp_all add: len_simps)

lemma kontiki_good:
  assumes "view_ok M m" "ds_flow m \<noteq> None"
  shows "good M m (ipoque_search_kontiki M m)"
  unfolding ipoque_search_kontiki_def using assms
  by (intro decide_good read_rules) (simp_all add: len_simps)

lemma applejuice_good:
  assumes "view_ok M m" "ds_flow m \<noteq> None"
  shows "good M m (ipoque_search_applejuice_tcp M m)"
  unfolding ipoque_search_applejuice_tcp_def using assms
  by (intro decide_good read_rules) (simp_all add: len_simps)

lemma bgp_good:
  assumes "view_ok M m" "ds_flow m \<noteq> None" "pk_tcp (ds_packet m) \<noteq> NULL"
  shows "good M m (ipoque_search_bgp M m)"
  unfolding ipoque_search_bgp_def Let_def using assms
  by (intro decide_good read_rules) (simp_all add: len_simps)

lemma smb_good:
  assumes "view_ok M m" "ds_flow m \<noteq> None" "pk_tcp (ds_packet m) \<noteq> NULL"
  shows "good M m (ipoque_search_smb_tcp M m)"
  unfolding ipoque_search_smb_tcp_def using assms
  by (intro decide_good read_rules) (simp_all add: len_simps)

lemma pcanywhere_good:
  assumes "view_ok M m" "ds_flow m \<noteq> None"
  shows "good M m (ipoque_search_pcanywhere M m)"
  unfolding ipoque_search_pcanywhere_def Let_def using assms
  by (intro decide_good read_rules) (simp_all add: len_simps)

lemma stealthnet_good:
  assumes "view_ok M m" "ds_flow m \<noteq> None"
  shows "good M m (ipoque_search_stealthnet M m)"
  unfolding ipoque_search_stealthnet_def using assms
  by (intro decide_good read_rules) (simp_all add: len_simps)

lemma ssdp_good:
  assumes "view_ok M m" "ds_flow m \<noteq> None"
  shows "good M m (ipoque_search_ssdp M m)"
  unfolding ipoque_search_ssdp_def using assms
  by (intro decide_good read_rules) (simp_all add: len_simps)

lemma quake_good:
  assumes "view_ok M m" "ds_flow m \<noteq> None"
  shows "good M m (ipoque_search_quake M m)"
  unfolding ipoque_search_quake_def using assms
  by (intro decide_good read_rules) (simp_all add: len_simps)

lemma xdmcp_good:
  assumes "view_ok M m" "ds_flow m \<noteq> None"
  shows "good M m (ipoque_search_xdmcp M m)"
  unfolding ipoque_search_xdmcp_def Let_def using assms
  by (intro decide_good read_rules) (simp_all add: len_simps)

lemma mysql_scan_total:
  assumes "readable M p n"
  shows "\<exists>b. mysql_scan M p n a = Some b"
  using assms
proof (induction M p n a rule: mysql_scan.induct)
  case (1 M p n a)
  show ?case
  proof (cases "a + 31 < n")
    case True
    have sub: "readable M (p + (a + k)) j" if "k + j \<le> 32" for k j
      using 1(2) by (rule readable_sub) (use True that in simp_all)
    obtain x where x: "M (p + a) = Some x" using readable_at [OF sub [of 0 1]] by auto
    have "\<exists>b. allM [byte_is M (p + (a + 13)) ((=) 0), word_is M (p + (a + 19)) ((=) 0), word_is M (p + (a + 23)) ((=) 0),
        word_is M (p + (a + 27)) ((=) 0), byte_is M (p + (a + 31)) ((=) 0)] = Some b"
      by (intro cond_total byte_is_total word_is_total sub) simp_all
    then show ?thesis
      using 1(1) [OF True x _ 1(2)] True by (subst mysql_scan.simps) (simp add: x)
  next
    case False
    then show ?thesis by (subst mysql_scan.simps) auto
  qed
qed

lemma mysql_good:
  assumes "view_ok M m" "ds_flow m \<noteq> None"
  shows "good M m (ipoque_search_mysql_tcp M m)"
proof -
  have "readable M (pay m) (unat (plen m))" using assms(1) unfolding view_ok_def packet_ok_def windows_ok_def by blast
  then show ?thesis
    unfolding ipoque_search_mysql_tcp_def using assms
    by (intro decide_good read_rules mysql_scan_total) (simp_all add: len_simps)
qed

lemma id_has_protocol_total:
  assumes "view_ok M m" "a \<in> {ds_src m, ds_dst m}"
  shows "\<exists>b. id_has_protocol a p m = Some b"
  using assms by (auto simp: id_has_protocol_def view_ok_def ids_ok_def)

lemma worldofwarcraft_good:
  assumes "view_ok M m" "ds_flow m \<noteq> None"
  shows "good M m (ipoque_search_worldofwarcraft M m)"
  unfolding ipoque_search_worldofwarcraft_def Let_def using assms
  by (intro decide_good read_rules id_has_protocol_total) (simp_all add: len_simps)

subsection \<open>Two packets decide\<close>

lemma ssh_good:
  assumes "view_ok M m" "ds_flow m \<noteq> None"
  shows "good M m (ipoque_search_ssh_tcp M m)"
  unfolding ipoque_search_ssh_tcp_def Let_def using assms
  by (intro two_way_good read_rules) (simp_all add: len_simps)

lemma vnc_good:
  assumes "view_ok M m" "ds_flow m \<noteq> None"
  shows "good M m (ipoque_search_vnc_tcp M m)"
  unfolding ipoque_search_vnc_tcp_def Let_def using assms
  by (intro two_way_good read_rules) (simp_all add: len_simps)

lemma steam_good:
  assumes "view_ok M m" "ds_flow m \<noteq> None" "pk_tcp (ds_packet m) \<noteq> NULL"
  shows "good M m (ipoque_search_steam M m)"
  unfolding ipoque_search_steam_def Let_def using assms
  by (intro two_way_good read_rules) (auto simp add: len_simps)

lemma halflife2_good:
  assumes "view_ok M m" "ds_flow m \<noteq> None"
  shows "good M m (ipoque_search_halflife2 M m)"
  unfolding ipoque_search_halflife2_def Let_def using assms
  by (intro two_way_good read_rules) (simp_all add: len_simps)

lemma tftp_good:
  assumes "view_ok M m" "ds_flow m \<noteq> None"
  shows "good M m (ipoque_search_tftp M m)"
proof -
  obtain stage where stage: "get_stage ''tftp_stage'' m = Some stage" using assms(2) by (auto simp: get_stage_def)
  show ?thesis
    unfolding ipoque_search_tftp_def stage bind.bind_lunit using assms
    by (intro bool_bind_good if_good set_stage_good add_connection_good good_Some exclude_good read_rules)
       (simp_all add: len_simps)
qed

subsection \<open>Dissectors that look at lines\<close>

lemma packet_update_good:
  assumes "view_ok M m" "quiet (ds_packet m) pk" "packet_ok M pk"
  shows "good M m (Some (m\<lparr>ds_packet := pk\<rparr>))"
  using assms by (simp add: good_def view_ok_def step_ok_def ids_ok_def protocols_ok_def excl_def quiet_def split: option.splits)

lemma quiet_windows: "quiet pk pk' \<Longrightarrow> windows_ok M pk \<Longrightarrow> windows_ok M pk'"
  by (simp add: quiet_def same_windows_def windows_ok_def)

lemma good_bind_Some:
  assumes "good M m (Some m')" "view_ok M m' \<Longrightarrow> step_ok m m' \<Longrightarrow> good M m' (f m')"
  shows "good M m (f m')"
  using assms step_ok_trans unfolding good_def by blast

lemma parse_good:
  assumes "view_ok M m" "\<And>m'. view_ok M m' \<Longrightarrow> step_ok m m' \<Longrightarrow> pk_packet_lines_parsed_complete (ds_packet m') \<Longrightarrow> good M m' (f m')"
  shows "good M m (with_packet (ipq_parse_packet_line_info M) m \<bind> f)"
proof -
  let ?pk = "ds_packet m"
  have ok: "packet_ok M ?pk" using assms(1) by (simp add: view_ok_def)
  have "readable M (pk_payload ?pk) (unat (pk_payload_packet_len ?pk))" using ok unfolding packet_ok_def windows_ok_def by blast
  moreover have "length (pk_line ?pk) = 200" "pk_packet_lines_parsed_complete ?pk \<longrightarrow> http_ok M ?pk \<and> lines_ok M ?pk"
    using ok by (simp_all add: packet_ok_def arrays_200_def)
  ultimately obtain pk where pk: "ipq_parse_packet_line_info M ?pk = Some pk" "quiet ?pk pk" "http_ok M pk" "lines_ok M pk"
    "length (pk_line pk) = length (pk_line ?pk)" "pk_unix_line pk = pk_unix_line ?pk"
    "pk_packet_unix_lines_parsed_complete pk = pk_packet_unix_lines_parsed_complete ?pk"
    "pk_parsed_unix_lines pk = pk_parsed_unix_lines ?pk" "pk_packet_lines_parsed_complete pk"
    using parse_lines_total [of M ?pk] by blast
  have "packet_ok M pk"
    using ok pk quiet_windows [OF pk(2), of M] by (simp add: packet_ok_def arrays_200_def unix_ok_def quiet_def same_windows_def)
  then have g: "good M m (Some (m\<lparr>ds_packet := pk\<rparr>))" by (rule packet_update_good [OF assms(1) pk(2)])
  show ?thesis
    unfolding with_packet_def pk(1) bind.bind_lunit
    by (rule good_bind_Some [OF g]) (use pk in \<open>auto intro: assms(2)\<close>)
qed

lemma parse_unix_good:
  assumes "view_ok M m" "\<And>m'. view_ok M m' \<Longrightarrow> step_ok m m' \<Longrightarrow> pk_packet_unix_lines_parsed_complete (ds_packet m') \<Longrightarrow> good M m' (f m')"
  shows "good M m (with_packet (ipq_parse_packet_line_info_unix M) m \<bind> f)"
proof -
  let ?pk = "ds_packet m"
  have ok: "packet_ok M ?pk" using assms(1) by (simp add: view_ok_def)
  have "readable M (pk_payload ?pk) (unat (pk_payload_packet_len ?pk))" using ok unfolding packet_ok_def windows_ok_def by blast
  moreover have "length (pk_unix_line ?pk) = 200" "pk_packet_unix_lines_parsed_complete ?pk \<longrightarrow> unix_ok M ?pk"
    using ok by (simp_all add: packet_ok_def arrays_200_def)
  ultimately obtain pk where pk: "ipq_parse_packet_line_info_unix M ?pk = Some pk" "quiet ?pk pk" "unix_ok M pk"
    "http_ok M pk = http_ok M ?pk" "pk_line pk = pk_line ?pk" "length (pk_unix_line pk) = length (pk_unix_line ?pk)"
    "pk_packet_lines_parsed_complete pk = pk_packet_lines_parsed_complete ?pk" "pk_parsed_lines pk = pk_parsed_lines ?pk"
    "pk_packet_unix_lines_parsed_complete pk" "pk_host_line pk = pk_host_line ?pk"
    "pk_empty_line_position pk = pk_empty_line_position ?pk" "pk_empty_line_position_set pk = pk_empty_line_position_set ?pk"
    using parse_unix_total [of M ?pk] by blast
  have "lines_ok M pk = lines_ok M ?pk" using pk(2) by (simp only: lines_ok_def pk quiet_def same_windows_def)
  then have "packet_ok M pk"
    using ok pk quiet_windows [OF pk(2), of M] by (simp add: packet_ok_def arrays_200_def quiet_def same_windows_def)
  then have g: "good M m (Some (m\<lparr>ds_packet := pk\<rparr>))" by (rule packet_update_good [OF assms(1) pk(2)])
  show ?thesis
    unfolding with_packet_def pk(1) bind.bind_lunit
    by (rule good_bind_Some [OF g]) (use pk in \<open>auto intro: assms(2)\<close>)
qed

lemma any_line_total:
  assumes "list_all (\<lambda>l. readable M (ol_ptr l) (unat (ol_len l))) ls" "length s < 65536"
  shows "\<exists>b. any_line M s ls = Some b"
  using assms(1)
proof (induction ls)
  case (Cons l ls)
  have len: "unat (of_nat (length s) :: u16) = length s" using assms(2) by (simp add: unat_of_nat take_bit_eq_mod)
  have "readable M (ol_ptr l) (length s)" if "of_nat (length s) < ol_len l"
    using Cons.prems that by (auto simp: word_less_nat_alt len intro: readable_mono)
  then have "\<exists>b. allM [Some (ol_ptr l \<noteq> NULL), Some (of_nat (length s) < ol_len l), mem_eq M (ol_ptr l) s] = Some b"
    by (intro cond_total mem_eq_total) simp_all
  then obtain b where "allM [Some (ol_ptr l \<noteq> NULL), Some (of_nat (length s) < ol_len l), mem_eq M (ol_ptr l) s] = Some b" ..
  then show ?case using Cons by (auto simp del: allM.simps)
qed auto

lemma icecast_good:
  assumes "view_ok M m" "ds_flow m \<noteq> None"
  shows "good M m (ipoque_search_icecast_tcp M m)"
  unfolding ipoque_search_icecast_tcp_def using assms
  by (intro bool_bind_good if_good parse_unix_good exclude_good decide_good any_line_total read_rules)
     (simp_all add: len_simps view_ok_def packet_ok_def unix_ok_def step_ok_def)

lemma openft_good:
  assumes "view_ok M m" "ds_flow m \<noteq> None"
  shows "good M m (ipoque_search_openft_tcp M m)"
proof -
  have "\<exists>b. (if 2 \<le> pk_parsed_lines pk then do { l \<leftarrow> get_line (pk_line pk) 1;
        allM [Some (13 < ol_len l), mem_eq M (ol_ptr l) ''X-OpenftAlias:''] } else Some False) = Some b"
    if ok: "lines_ok M pk" for pk
  proof (cases "2 \<le> pk_parsed_lines pk")
    case True
    then have two: "2 \<le> unat (pk_parsed_lines pk)" by (simp add: word_le_nat_alt)
    let ?l = "pk_line pk ! 1"
    have len: "1 < length (pk_line pk)" using ok two by (simp add: lines_ok_def)
    have "readable M (ol_ptr ?l) (unat (ol_len ?l))"
      using ok two len unfolding lines_ok_def list_all_length by auto
    then have "readable M (ol_ptr ?l) 14" if "13 < ol_len ?l" using that by (elim readable_mono) (simp add: word_less_nat_alt)
    then have "\<exists>b. allM [Some (13 < ol_len ?l), mem_eq M (ol_ptr ?l) ''X-OpenftAlias:''] = Some b"
      by (intro cond_total mem_eq_total) (simp_all add: eval_nat_numeral)
    then show ?thesis using True len by (simp add: get_line_def del: allM.simps)
  qed auto
  then show ?thesis
    unfolding ipoque_search_openft_tcp_def Let_def using assms
    by (intro bool_bind_good if_good parse_good exclude_good decide_good read_rules)
       (simp_all add: len_simps view_ok_def packet_ok_def step_ok_def)
qed

subsection \<open>Other transport protocols\<close>

lemma non_tcp_udp_good:
  assumes "view_ok M m"
  shows "good M m (ipoque_search_in_non_tcp_udp M m)"
proof -
  have "good M m (set_protocol_and_bmask p m)" if "p < 128" for p
    using assms that by (auto simp: set_protocol_and_bmask_def intro: marked_good good_Some)
  moreover have "p < 128" if "map_of l4_protocols k = Some p" for k p
    using that by (auto simp: l4_protocols_def split: if_splits)
  ultimately show ?thesis
    using assms by (auto simp: ipoque_search_in_non_tcp_udp_def intro: good_Some split: option.split)
qed

subsection \<open>The exchange of SSH banners\<close>

definition ssh_banner :: "bytes \<Rightarrow> bool" where
  "ssh_banner bs \<longleftrightarrow> 7 < length bs \<and> length bs < 100 \<and> take 4 bs = lit ''SSH-''"

lemma mem_eq_prefix:
  assumes "holds M a bs" "length s \<le> length bs"
  shows "mem_eq M a s = Some (take (length s) bs = lit s)"
proof -
  have "holds M a (take (length s) bs @ drop (length s) bs)" using assms(1) by simp
  then have "holds M a (take (length s) bs)" unfolding holds_append by blast
  then show ?thesis using mem_eq_holds [of M a "take (length s) bs" s] assms(2) by simp
qed

lemma ssh_search:
  assumes "holds M (pay m) bs" "unat (plen m) = length bs" "ds_flow m = Some fl"
  shows "ipoque_search_ssh_tcp M m =
    (if \<not> ssh_banner bs then exclude IPOQUE_PROTOCOL_SSH m
     else if fl_stage fl ''ssh_stage'' = 0 then set_stage ''ssh_stage'' (1 + dirn m) m
     else if fl_stage fl ''ssh_stage'' = 2 - dirn m then ipoque_int_add_connection IPOQUE_PROTOCOL_SSH m
     else exclude IPOQUE_PROTOCOL_SSH m)"
proof -
  have four: "length ''SSH-'' = 4" by simp
  have "allM [Some (7 < plen m), Some (plen m < 100), mem_eq M (pay m) ''SSH-''] = Some (ssh_banner bs)"
    using mem_eq_prefix [OF assms(1), of "''SSH-''", unfolded four] assms(2)
    by (auto simp: word_less_nat_alt ssh_banner_def)
  then show ?thesis
    unfolding ipoque_search_ssh_tcp_def Let_def two_way_def decide_def by (simp add: get_stage_def assms(3))
qed

end
