(* ===== verification/Ipq_Command.thy ===== *)
theory Ipq_Command
  imports Ipq_Conformance
begin

text \<open>
  The statements the dissectors of \<^verbatim>\<open>lib/protocols\<close> are made of, beyond those of \<^verbatim>\<open>Ipq_Dissect\<close>: branches on a
  condition that reads the packet, comparisons of several bytes, searches for an index, the fields of flows and ids
  that belong to one dissector; and the rules by which a dissector made of them keeps the contract.
\<close>

subsection \<open>Conditions\<close>

text \<open>\<open>if (c) x; else y\<close>, where \<open>c\<close> may read memory.\<close>

definition branch :: "bool option \<Rightarrow> 'a option \<Rightarrow> 'a option \<Rightarrow> 'a option" where
  "branch c x y = do { b \<leftarrow> c; if b then x else y }"

definition notM :: "bool option \<Rightarrow> bool option" where
  "notM c = do { b \<leftarrow> c; Some (\<not> b) }"

text \<open>\<^verbatim>\<open>p[0] == x && p[1] == y && ...\<close>, one byte after the other.\<close>

fun bytes_at :: "mem \<Rightarrow> addr \<Rightarrow> u8 list \<Rightarrow> bool option" where
  "bytes_at M a [] = Some True"
| "bytes_at M a (x # xs) = do { y \<leftarrow> M a; if y = x then bytes_at M (a + 1) xs else Some False }"

text \<open>\<^verbatim>\<open>memcmp\<close> with bytes that are not characters.\<close>

definition mem_is :: "mem \<Rightarrow> addr \<Rightarrow> u8 list \<Rightarrow> bool option" where
  "mem_is M a xs = do { bs \<leftarrow> mem_bytes M a (length xs); Some (bs = xs) }"

text \<open>Letters in either case: \<open>s\<close> is given in capitals.\<close>

fun letters :: "mem \<Rightarrow> addr \<Rightarrow> string \<Rightarrow> bool option" where
  "letters M a [] = Some True"
| "letters M a (c # cs) =
     do { x \<leftarrow> M a; if x = of_nat (of_char c) \<or> x = of_nat (of_char c + 32) then letters M (a + 1) cs else Some False }"

text \<open>A relation between two bytes.\<close>

definition bytes_rel :: "mem \<Rightarrow> addr \<Rightarrow> addr \<Rightarrow> (u8 \<Rightarrow> u8 \<Rightarrow> bool) \<Rightarrow> bool option" where
  "bytes_rel M a b R = do { x \<leftarrow> M a; y \<leftarrow> M b; Some (R x y) }"

text \<open>The first alternative whose condition holds: \<^verbatim>\<open>if ... else if ... else\<close>.\<close>

fun select_first :: "(bool option \<times> 'a) list \<Rightarrow> 'a \<Rightarrow> 'a option" where
  "select_first [] d = Some d"
| "select_first (x # xs) d = do { b \<leftarrow> fst x; if b then Some (snd x) else select_first xs d }"

text \<open>\<^verbatim>\<open>get_l16\<close>, \<^verbatim>\<open>get_l32\<close>, and reads in machine order, which is little endian.\<close>

definition rd16le :: "mem \<Rightarrow> addr \<Rightarrow> u16 option" where
  "rd16le M a = do { x \<leftarrow> M a; y \<leftarrow> M (a + 1); Some (of_nat (le_val [x, y])) }"

definition lhalf_is :: "mem \<Rightarrow> addr \<Rightarrow> (u16 \<Rightarrow> bool) \<Rightarrow> bool option" where
  "lhalf_is M a P = do { x \<leftarrow> rd16le M a; Some (P x) }"

definition lword_is :: "mem \<Rightarrow> addr \<Rightarrow> (u32 \<Rightarrow> bool) \<Rightarrow> bool option" where
  "lword_is M a P = do { x \<leftarrow> rd32le M a; Some (P x) }"

definition digit :: "u8 \<Rightarrow> bool" where
  "digit c \<longleftrightarrow> 0x30 \<le> c \<and> c \<le> 0x39"

text \<open>The first index from \<open>i\<close> below \<open>n\<close> at which the condition holds.\<close>

function first_index :: "(nat \<Rightarrow> bool option) \<Rightarrow> nat \<Rightarrow> nat \<Rightarrow> nat option option" where
  "first_index P i n =
     (if i < n then do { b \<leftarrow> P i; if b then Some (Some i) else first_index P (i + 1) n } else Some None)"
  by auto
termination by (relation "measure (\<lambda>(P, i, n). n - i)") auto

declare first_index.simps [simp del]

definition any_index :: "(nat \<Rightarrow> bool option) \<Rightarrow> nat \<Rightarrow> nat \<Rightarrow> bool option" where
  "any_index P i n = do { r \<leftarrow> first_index P i n; Some (r \<noteq> None) }"

definition all_index :: "(nat \<Rightarrow> bool option) \<Rightarrow> nat \<Rightarrow> nat \<Rightarrow> bool option" where
  "all_index P i n = notM (any_index (\<lambda>j. notM (P j)) i n)"

subsection \<open>Fields of the flow and of the ids\<close>

definition counter_is :: "detection_module \<Rightarrow> (u16 \<Rightarrow> bool) \<Rightarrow> bool option" where
  "counter_is m P = do { fl \<leftarrow> ds_flow m; Some (P (fl_packet_counter fl)) }"

definition excluded :: "nat \<Rightarrow> detection_module \<Rightarrow> bool option" where
  "excluded proto m = do { fl \<leftarrow> ds_flow m; Some (IPOQUE_COMPARE_PROTOCOL_TO_BITMASK (fl_excluded fl) proto \<noteq> 0) }"

abbreviation (input) "detected proto m \<equiv> pk_detected_protocol (ds_packet m) = of_nat proto"

definition get_id_field :: "addr \<Rightarrow> string \<Rightarrow> detection_module \<Rightarrow> nat option" where
  "get_id_field a f m = do { i \<leftarrow> ds_ids m a; Some (id_field i f) }"

definition set_id_field :: "addr \<Rightarrow> string \<Rightarrow> nat \<Rightarrow> detection_module \<Rightarrow> detection_module option" where
  "set_id_field a f v m = do { i \<leftarrow> ds_ids m a; Some (m\<lparr>ds_ids := (ds_ids m)(a \<mapsto> i\<lparr>id_field := (id_field i)(f := v)\<rparr>)\<rparr>) }"

text \<open>\<^verbatim>\<open>if (id != NULL) id->f = v\<close>.\<close>

definition note_id :: "addr \<Rightarrow> string \<Rightarrow> nat \<Rightarrow> detection_module \<Rightarrow> detection_module option" where
  "note_id a f v m = (if a = NULL then Some m else set_id_field a f v m)"

abbreviation (input) "either_has proto m \<equiv> anyM [id_has_protocol (ds_src m) proto m, id_has_protocol (ds_dst m) proto m]"

abbreviation (input) "now m \<equiv> pk_tick_timestamp (ds_packet m)"

text \<open>An address of the IP header, as a number to compare and as the raw value to store; the push flag.\<close>

definition ip_addr_is :: "mem \<Rightarrow> detection_module \<Rightarrow> nat \<Rightarrow> (u32 \<Rightarrow> bool) \<Rightarrow> bool option" where
  "ip_addr_is M m off P = (if pk_iph (ds_packet m) = NULL then None else word_is M (pk_iph (ds_packet m) + off) P)"

definition ip_addr :: "mem \<Rightarrow> detection_module \<Rightarrow> nat \<Rightarrow> u32 option" where
  "ip_addr M m off = (if pk_iph (ds_packet m) = NULL then None else rd32le M (pk_iph (ds_packet m) + off))"

definition tcp_psh :: "mem \<Rightarrow> detection_module \<Rightarrow> bool option" where
  "tcp_psh M m = (if pk_tcp (ds_packet m) = NULL then None else tcp_flag M (pk_tcp (ds_packet m)) 3)"

text \<open>Time since a stored tick, at the width of the tick counter.\<close>

definition since :: "detection_module \<Rightarrow> nat \<Rightarrow> u32" where
  "since m t = now m - of_nat t"

subsection \<open>Lines\<close>

abbreviation (input) "lines_of m \<equiv> take (unat (pk_parsed_lines (ds_packet m))) (pk_line (ds_packet m))"
abbreviation (input) "unix_lines_of m \<equiv> take (unat (pk_parsed_unix_lines (ds_packet m))) (pk_unix_line (ds_packet m))"

text \<open>A line that is longer than \<open>n\<close> and starts with \<open>s\<close>; a line whose pointer is set as well.\<close>

definition line_starts :: "mem \<Rightarrow> one_line \<Rightarrow> nat \<Rightarrow> string \<Rightarrow> bool option" where
  "line_starts M l n s = allM [Some (n < unat (ol_len l)), mem_eq M (ol_ptr l) s]"

abbreviation (input) "parse_lines M m \<equiv> with_packet (ipq_parse_packet_line_info M) m"
abbreviation (input) "parse_unix_lines M m \<equiv> with_packet (ipq_parse_packet_line_info_unix M) m"

subsection \<open>Conditions have a value\<close>

lemma allM_True: "allM xs = Some True \<longleftrightarrow> list_all (\<lambda>x. x = Some True) xs"
  by (induction xs) (auto split: bind_splits if_splits)

lemma anyM_False: "anyM xs = Some False \<longleftrightarrow> list_all (\<lambda>x. x = Some False) xs"
  by (induction xs) (auto split: bind_splits if_splits)

lemma notM_value [simp]: "notM c = Some b \<longleftrightarrow> c = Some (\<not> b)"
  by (cases c) (auto simp: notM_def)

lemma notM_total [cond_total]: "\<exists>b. c = Some b \<Longrightarrow> \<exists>b. notM c = Some b"
  by (auto simp: notM_def)

lemma if_total [cond_total]:
  "(P \<Longrightarrow> \<exists>b. x = Some b) \<Longrightarrow> (\<not> P \<Longrightarrow> \<exists>b. y = Some b) \<Longrightarrow> \<exists>b. (if P then x else y) = Some b"
  by simp

lemma case_option_total [cond_total]:
  "(r = None \<Longrightarrow> \<exists>b. x = Some b) \<Longrightarrow> (\<And>j. r = Some j \<Longrightarrow> \<exists>b. f j = Some b)
    \<Longrightarrow> \<exists>b. (case r of None \<Rightarrow> x | Some j \<Rightarrow> f j) = Some b"
  by (cases r) auto

lemma bind_total: "\<exists>x. c = Some x \<Longrightarrow> (\<And>x. \<exists>y. f x = Some y) \<Longrightarrow> \<exists>y. (c \<bind> f) = Some (y :: 'a)"
  for c :: "'b option"
  by auto

lemma bytes_at_total: "readable M a (length xs) \<Longrightarrow> \<exists>b. bytes_at M a xs = Some b"
proof (induction xs arbitrary: a)
  case (Cons x xs)
  have "readable M a 1" by (rule readable_mono [OF Cons.prems]) simp
  then obtain y where "M a = Some y" using readable_at [of M a 1 a] by auto
  moreover have "readable M (a + 1) (length xs)" by (rule readable_sub [OF Cons.prems]) simp_all
  ultimately show ?case using Cons.IH [of "a + 1"] by auto
qed auto

declare bytes_at.simps [simp del]

lemma letters_total: "readable M a (length s) \<Longrightarrow> \<exists>b. letters M a s = Some b"
proof (induction s arbitrary: a)
  case (Cons c s)
  have "readable M a 1" by (rule readable_mono [OF Cons.prems]) simp
  then obtain y where "M a = Some y" using readable_at [of M a 1 a] by auto
  moreover have "readable M (a + 1) (length s)" by (rule readable_sub [OF Cons.prems]) simp_all
  ultimately show ?case using Cons.IH [of "a + 1"] by auto
qed auto

declare letters.simps [simp del]

lemma bytes_rel_total: "readable M a 1 \<Longrightarrow> readable M b 1 \<Longrightarrow> \<exists>r. bytes_rel M a b R = Some r"
  using readable_at [of M a 1 a] readable_at [of M b 1 b] by (auto simp: bytes_rel_def)

lemma select_first_total [cond_total]:
  "\<exists>r. select_first [] d = Some r"
  "\<exists>b. fst x = Some b \<Longrightarrow> (fst x = Some False \<Longrightarrow> \<exists>r. select_first xs d = Some r) \<Longrightarrow> \<exists>r. select_first (x # xs) d = Some r"
  by auto

lemma fst_total [cond_total]: "\<exists>b. c = Some b \<Longrightarrow> \<exists>b. fst (c, v) = Some b"
  by simp

lemma mem_is_total: "readable M a (length xs) \<Longrightarrow> \<exists>b. mem_is M a xs = Some b"
  using readable_bytes [of M a "length xs"] by (auto simp: mem_is_def)

lemma rd16le_total: "readable M a 2 \<Longrightarrow> \<exists>v. rd16le M a = Some v"
  using readable_at [of M a 2 a] readable_at [of M a 2 "a + 1"] by (auto simp: rd16le_def)

lemma lhalf_is_total: "readable M a 2 \<Longrightarrow> \<exists>b. lhalf_is M a P = Some b"
  using rd16le_total [of M a] by (auto simp: lhalf_is_def)

lemma lword_is_total: "readable M a 4 \<Longrightarrow> \<exists>b. lword_is M a P = Some b"
  using rd32le_total [of M a] by (auto simp: lword_is_def)

text \<open>The reads of the payload, inside it.\<close>

lemma pay_reads:
  assumes "view_ok M m"
  shows "k + length xs \<le> unat (plen m) \<Longrightarrow> \<exists>b. bytes_at M (pay m + k) xs = Some b"
    "k + length xs \<le> unat (plen m) \<Longrightarrow> \<exists>b. mem_is M (pay m + k) xs = Some b"
    "k + 2 \<le> unat (plen m) \<Longrightarrow> \<exists>b. lhalf_is M (pay m + k) P = Some b"
    "k + 4 \<le> unat (plen m) \<Longrightarrow> \<exists>b. lword_is M (pay m + k) Q = Some b"
    "k + length s \<le> unat (plen m) \<Longrightarrow> \<exists>b. letters M (pay m + k) s = Some b"
    "k + 1 \<le> unat (plen m) \<Longrightarrow> j + 1 \<le> unat (plen m) \<Longrightarrow> \<exists>b. bytes_rel M (pay m + k) (pay m + j) R = Some b"
  by (intro bytes_at_total mem_is_total lhalf_is_total lword_is_total letters_total bytes_rel_total pay_readable [OF assms]; simp)+

lemma pay_reads_0:
  assumes "view_ok M m"
  shows "length xs \<le> unat (plen m) \<Longrightarrow> \<exists>b. bytes_at M (pay m) xs = Some b"
    "length xs \<le> unat (plen m) \<Longrightarrow> \<exists>b. mem_is M (pay m) xs = Some b"
    "2 \<le> unat (plen m) \<Longrightarrow> \<exists>b. lhalf_is M (pay m) P = Some b"
    "4 \<le> unat (plen m) \<Longrightarrow> \<exists>b. lword_is M (pay m) Q = Some b"
    "length s \<le> unat (plen m) \<Longrightarrow> \<exists>b. letters M (pay m) s = Some b"
  using pay_reads [OF assms, of 0] by simp_all

lemma pay_readable_0: "view_ok M m \<Longrightarrow> j \<le> unat (plen m) \<Longrightarrow> readable M (pay m) j"
  using pay_readable [of M m 0 j] by simp

text \<open>A search that finds an index has tested it.\<close>

lemma first_index_total:
  assumes "\<And>j. i \<le> j \<Longrightarrow> j < n \<Longrightarrow> \<exists>b. P j = Some b"
  shows "\<exists>r. first_index P i n = Some r \<and> (\<forall>j. r = Some j \<longrightarrow> i \<le> j \<and> j < n \<and> P j = Some True)"
  using assms
proof (induction P i n rule: first_index.induct)
  case (1 P i n)
  show ?case
  proof (cases "i < n")
    case True
    then obtain b where b: "P i = Some b" using 1(2) by blast
    show ?thesis
    proof (cases b)
      case False
      have "\<exists>r. first_index P (i + 1) n = Some r \<and> (\<forall>j. r = Some j \<longrightarrow> i + 1 \<le> j \<and> j < n \<and> P j = Some True)"
        by (rule 1(1) [OF True b False]) (use 1(2) in simp)
      then show ?thesis using True b False by (subst first_index.simps) fastforce
    qed (use True b in \<open>subst first_index.simps, simp\<close>)
  qed (subst first_index.simps, simp)
qed

lemma any_index_total [cond_total]:
  "(\<And>j. i \<le> j \<Longrightarrow> j < n \<Longrightarrow> \<exists>b. P j = Some b) \<Longrightarrow> \<exists>b. any_index P i n = Some b"
  using first_index_total [of i n P] by (auto simp: any_index_def)

lemma all_index_total [cond_total]:
  "(\<And>j. i \<le> j \<Longrightarrow> j < n \<Longrightarrow> \<exists>b. P j = Some b) \<Longrightarrow> \<exists>b. all_index P i n = Some b"
  unfolding all_index_def by (intro cond_total)

lemma first_index_cond [cond_total]:
  "(\<And>j. i \<le> j \<Longrightarrow> j < n \<Longrightarrow> \<exists>b. P j = Some b)
    \<Longrightarrow> (\<And>r. (\<And>j. r = Some j \<Longrightarrow> i \<le> j \<and> j < n \<and> P j = Some True) \<Longrightarrow> \<exists>b. f r = Some b)
    \<Longrightarrow> \<exists>b. (first_index P i n \<bind> f) = Some b"
  using first_index_total [of i n P] by fastforce

lemma read_cond [cond_total]:
  "readable M a 2 \<Longrightarrow> (\<And>x. \<exists>b. f16 x = Some b) \<Longrightarrow> \<exists>b. (rd16be M a \<bind> f16) = Some b"
  "readable M a 2 \<Longrightarrow> (\<And>x. \<exists>b. f16 x = Some b) \<Longrightarrow> \<exists>b. (rd16le M a \<bind> f16) = Some b"
  "readable M a 4 \<Longrightarrow> (\<And>y. \<exists>b. f32 y = Some b) \<Longrightarrow> \<exists>b. (rd32be M a \<bind> f32) = Some b"
  "readable M a 4 \<Longrightarrow> (\<And>y. \<exists>b. f32 y = Some b) \<Longrightarrow> \<exists>b. (rd32le M a \<bind> f32) = Some b"
  "readable M a 1 \<Longrightarrow> (\<And>z. \<exists>b. f8 z = Some b) \<Longrightarrow> \<exists>b. (M a \<bind> f8) = Some b"
  using rd16be_total [of M a] rd16le_total [of M a] rd32be_total [of M a] rd32le_total [of M a] readable_at [of M a 1 a]
  by auto

text \<open>The IP header, which a packet with a transport header has.\<close>

lemma iph_readable:
  assumes "view_ok M m" "pk_iph (ds_packet m) \<noteq> NULL" "k + 4 \<le> 20"
  shows "readable M (pk_iph (ds_packet m) + k) 4"
proof -
  have "readable M (pk_iph (ds_packet m)) 20" using assms(1,2) unfolding view_ok_def packet_ok_def windows_ok_def by blast
  then show ?thesis by (rule readable_sub) (use assms(3) in auto)
qed

lemma iph_total:
  assumes "view_ok M m" "k + 4 \<le> 20"
  shows "pk_iph (ds_packet m) \<noteq> NULL \<Longrightarrow> \<exists>b. word_is M (pk_iph (ds_packet m) + k) P = Some b"
    "pk_tcp (ds_packet m) \<noteq> NULL \<or> pk_udp (ds_packet m) \<noteq> NULL \<Longrightarrow> \<exists>b. ip_addr_is M m k P = Some b"
    "pk_tcp (ds_packet m) \<noteq> NULL \<or> pk_udp (ds_packet m) \<noteq> NULL \<Longrightarrow> \<exists>x. ip_addr M m k = Some x"
proof -
  have t: "pk_iph (ds_packet m) \<noteq> NULL" if "pk_tcp (ds_packet m) \<noteq> NULL \<or> pk_udp (ds_packet m) \<noteq> NULL"
    using assms(1) that unfolding view_ok_def packet_ok_def by blast
  note r = iph_readable [OF assms(1) _ assms(2)]
  show "pk_iph (ds_packet m) \<noteq> NULL \<Longrightarrow> \<exists>b. word_is M (pk_iph (ds_packet m) + k) P = Some b"
    by (rule word_is_total [OF r])
  then show "pk_tcp (ds_packet m) \<noteq> NULL \<or> pk_udp (ds_packet m) \<noteq> NULL \<Longrightarrow> \<exists>b. ip_addr_is M m k P = Some b"
    using t by (auto simp: ip_addr_is_def)
  show "pk_tcp (ds_packet m) \<noteq> NULL \<or> pk_udp (ds_packet m) \<noteq> NULL \<Longrightarrow> \<exists>x. ip_addr M m k = Some x"
    using rd32le_total [OF r] t by (auto simp: ip_addr_def)
qed

lemma ip_addr_good:
  "view_ok M m \<Longrightarrow> pk_tcp (ds_packet m) \<noteq> NULL \<or> pk_udp (ds_packet m) \<noteq> NULL \<Longrightarrow> k + 4 \<le> 20
    \<Longrightarrow> (\<And>x. good M m (f x)) \<Longrightarrow> good M m (ip_addr M m k \<bind> f)"
  using iph_total(3) [of M m k] by auto

lemma tcp_psh_good:
  assumes "view_ok M m" "pk_tcp (ds_packet m) \<noteq> NULL" "\<And>b. good M m (f b)"
  shows "good M m (tcp_psh M m \<bind> f)"
proof -
  have "readable M (pk_tcp (ds_packet m)) 20" using assms(1,2) unfolding view_ok_def packet_ok_def windows_ok_def by blast
  then show ?thesis using tcp_fields_total(4) [of M "pk_tcp (ds_packet m)" 3] assms(2,3) by (auto simp: tcp_psh_def)
qed

lemma counter_is_total: "ds_flow m \<noteq> None \<Longrightarrow> \<exists>b. counter_is m P = Some b"
  by (auto simp: counter_is_def)

lemma excluded_total: "ds_flow m \<noteq> None \<Longrightarrow> \<exists>b. excluded p m = Some b"
  by (auto simp: excluded_def)

lemma either_has_total:
  assumes "view_ok M m"
  shows "\<exists>b. id_has_protocol (ds_src m) p m = Some b" "\<exists>b. id_has_protocol (ds_dst m) p m = Some b"
  using id_has_protocol_total [OF assms] by blast+

text \<open>Lines.\<close>

lemma anyM_map_total [cond_total]:
  "(\<And>x. x \<in> set xs \<Longrightarrow> \<exists>b. P x = Some b) \<Longrightarrow> \<exists>b. anyM (List.map P xs) = Some b"
proof (induction xs)
  case (Cons x xs)
  then obtain b c where "P x = Some b" "anyM (List.map P xs) = Some c" by (meson list.set_intros)
  then show ?case by auto
qed auto

lemma line_starts_total:
  assumes "readable M (ol_ptr l) (unat (ol_len l))" "length s \<le> Suc n"
  shows "\<exists>b. line_starts M l n s = Some b"
  unfolding line_starts_def by (intro cond_total mem_eq_total readable_mono [OF assms(1)]) (use assms(2) in simp)

lemma line_total:
  assumes "readable M (ol_ptr l) (unat (ol_len l))"
  shows "length s \<le> unat (ol_len l) \<Longrightarrow> \<exists>b. mem_eq M (ol_ptr l) s = Some b"
    "k < unat (ol_len l) \<Longrightarrow> \<exists>b. byte_is M (ol_ptr l + k) P = Some b"
    "0 < unat (ol_len l) \<Longrightarrow> \<exists>b. byte_is M (ol_ptr l) P = Some b"
    "length s \<le> unat (ol_len l) \<Longrightarrow> \<exists>b. letters M (ol_ptr l) s = Some b"
    "k + length s \<le> unat (ol_len l) \<Longrightarrow> \<exists>b. letters M (ol_ptr l + k) s = Some b"
    "k + length s \<le> unat (ol_len l) \<Longrightarrow> \<exists>b. mem_eq M (ol_ptr l + k) s = Some b"
  by (intro mem_eq_total byte_is_total letters_total readable_sub [OF assms]; simp)+

lemma parsed_line_readable:
  assumes "view_ok M m"
  shows "pk_packet_lines_parsed_complete (ds_packet m) \<Longrightarrow> l \<in> set (lines_of m) \<Longrightarrow> readable M (ol_ptr l) (unat (ol_len l))"
    "pk_packet_unix_lines_parsed_complete (ds_packet m) \<Longrightarrow> l \<in> set (unix_lines_of m) \<Longrightarrow> readable M (ol_ptr l) (unat (ol_len l))"
  using assms unfolding view_ok_def packet_ok_def lines_ok_def unix_ok_def list_all_iff by blast+

lemma parsed_line_short:
  assumes "view_ok M m" "pk_packet_lines_parsed_complete (ds_packet m)" "l \<in> set (lines_of m)"
  shows "ol_len l \<le> plen m"
  using assms unfolding view_ok_def packet_ok_def lines_ok_def list_all_iff by blast

lemma line_at_cond [cond_total]:
  assumes "view_ok M m" "pk_packet_lines_parsed_complete (ds_packet m)" "k < unat (pk_parsed_lines (ds_packet m))"
    and "\<And>l. readable M (ol_ptr l) (unat (ol_len l)) \<Longrightarrow> \<exists>b. f l = Some b"
  shows "\<exists>b. (get_line (pk_line (ds_packet m)) k \<bind> f) = Some b"
proof -
  have len: "unat (pk_parsed_lines (ds_packet m)) \<le> length (pk_line (ds_packet m))"
    using assms(1,2) unfolding view_ok_def packet_ok_def lines_ok_def by blast
  then have "pk_line (ds_packet m) ! k \<in> set (lines_of m)" using assms(3) by (auto simp: in_set_conv_nth intro!: exI [of _ k])
  then show ?thesis
    using assms(3,4) len parsed_line_readable(1) [OF assms(1,2)] by (simp add: get_line_def)
qed

lemma noted_line_readable:
  assumes "view_ok M m" "pk_packet_lines_parsed_complete (ds_packet m)"
  shows
    "ol_ptr (pk_host_line (ds_packet m)) \<noteq> NULL
      \<Longrightarrow> readable M (ol_ptr (pk_host_line (ds_packet m))) (unat (ol_len (pk_host_line (ds_packet m))))"
    "ol_ptr (pk_content_line (ds_packet m)) \<noteq> NULL
      \<Longrightarrow> readable M (ol_ptr (pk_content_line (ds_packet m))) (unat (ol_len (pk_content_line (ds_packet m))))"
    "ol_ptr (pk_accept_line (ds_packet m)) \<noteq> NULL
      \<Longrightarrow> readable M (ol_ptr (pk_accept_line (ds_packet m))) (unat (ol_len (pk_accept_line (ds_packet m))))"
    "ol_ptr (pk_user_agent_line (ds_packet m)) \<noteq> NULL
      \<Longrightarrow> readable M (ol_ptr (pk_user_agent_line (ds_packet m))) (unat (ol_len (pk_user_agent_line (ds_packet m))))"
    "ol_ptr (pk_http_url_name (ds_packet m)) \<noteq> NULL
      \<Longrightarrow> readable M (ol_ptr (pk_http_url_name (ds_packet m))) (unat (ol_len (pk_http_url_name (ds_packet m))))"
    "ol_ptr (pk_http_encoding (ds_packet m)) \<noteq> NULL
      \<Longrightarrow> readable M (ol_ptr (pk_http_encoding (ds_packet m))) (unat (ol_len (pk_http_encoding (ds_packet m))))"
    "ol_ptr (pk_http_transfer_encoding (ds_packet m)) \<noteq> NULL
      \<Longrightarrow> readable M (ol_ptr (pk_http_transfer_encoding (ds_packet m))) (unat (ol_len (pk_http_transfer_encoding (ds_packet m))))"
    "ol_ptr (pk_http_contentlen (ds_packet m)) \<noteq> NULL
      \<Longrightarrow> readable M (ol_ptr (pk_http_contentlen (ds_packet m))) (unat (ol_len (pk_http_contentlen (ds_packet m))))"
    "ol_ptr (pk_http_cookie (ds_packet m)) \<noteq> NULL
      \<Longrightarrow> readable M (ol_ptr (pk_http_cookie (ds_packet m))) (unat (ol_len (pk_http_cookie (ds_packet m))))"
    "ol_ptr (pk_http_x_session_type (ds_packet m)) \<noteq> NULL
      \<Longrightarrow> readable M (ol_ptr (pk_http_x_session_type (ds_packet m))) (unat (ol_len (pk_http_x_session_type (ds_packet m))))"
  using assms by (simp_all add: view_ok_def packet_ok_def http_ok_def line_ok_def)

subsection \<open>Statements keep the contract\<close>

lemma branch_good:
  "\<exists>b. c = Some b \<Longrightarrow> (c = Some True \<Longrightarrow> good M m x) \<Longrightarrow> (c = Some False \<Longrightarrow> good M m y) \<Longrightarrow> good M m (branch c x y)"
  by (auto simp: branch_def)

lemma get_stage_good:
  "ds_flow m \<noteq> None \<Longrightarrow> (\<And>s. get_stage f m = Some s \<Longrightarrow> good M m (g s)) \<Longrightarrow> good M m (get_stage f m \<bind> g)"
  by (auto simp: get_stage_def)

lemma rd_good:
  "readable M a 2 \<Longrightarrow> (\<And>x. good M m (f16 x)) \<Longrightarrow> good M m (rd16be M a \<bind> f16)"
  "readable M a 2 \<Longrightarrow> (\<And>x. good M m (f16 x)) \<Longrightarrow> good M m (rd16le M a \<bind> f16)"
  "readable M a 4 \<Longrightarrow> (\<And>y. good M m (f32 y)) \<Longrightarrow> good M m (rd32be M a \<bind> f32)"
  "readable M a 4 \<Longrightarrow> (\<And>y. good M m (f32 y)) \<Longrightarrow> good M m (rd32le M a \<bind> f32)"
  "readable M a 1 \<Longrightarrow> (\<And>z. good M m (f8 z)) \<Longrightarrow> good M m (M a \<bind> f8)"
  using rd16be_total [of M a] rd16le_total [of M a] rd32be_total [of M a] rd32le_total [of M a] readable_at [of M a 1 a]
  by auto

lemma first_index_good:
  assumes "\<And>j. i \<le> j \<Longrightarrow> j < n \<Longrightarrow> \<exists>b. P j = Some b"
    and "\<And>r. (\<And>j. r = Some j \<Longrightarrow> i \<le> j \<and> j < n \<and> P j = Some True) \<Longrightarrow> good M m (f r)"
  shows "good M m (first_index P i n \<bind> f)"
  using first_index_total [of i n P] assms by fastforce

lemma case_option_good:
  "(r = None \<Longrightarrow> good M m x) \<Longrightarrow> (\<And>j. r = Some j \<Longrightarrow> good M m (f j)) \<Longrightarrow> good M m (case r of None \<Rightarrow> x | Some j \<Rightarrow> f j)"
  by (cases r) auto

text \<open>What later statements may use of the module after an earlier one.\<close>

lemma config_bitmask: "same_config m m' \<Longrightarrow> detection_bitmask m' = detection_bitmask m"
  by (drule arg_cong [of _ _ detection_bitmask] | simp add: same_config_def callbacks.truncate_def)+

lemma branch_bind: "branch c x y \<bind> f = branch c (x \<bind> f) (y \<bind> f)"
  by (cases c) (auto simp: branch_def)

lemma if_bind: "(if b then x else y) \<bind> f = (if b then x \<bind> f else (y :: 'a option) \<bind> f)"
  by simp

lemma good_then:
  assumes "good M m x"
    and "\<And>m'. view_ok M m' \<Longrightarrow> (ds_flow m' = None \<longleftrightarrow> ds_flow m = None) \<Longrightarrow> same_windows (ds_packet m) (ds_packet m')
      \<Longrightarrow> ds_src m' = ds_src m \<Longrightarrow> ds_dst m' = ds_dst m
      \<Longrightarrow> pk_packet_direction (ds_packet m') = pk_packet_direction (ds_packet m)
      \<Longrightarrow> detection_bitmask m' = detection_bitmask m \<Longrightarrow> good M m' (f m')"
  shows "good M m (x \<bind> f)"
  by (rule good_bind [OF assms(1)]) (use assms(2) in \<open>simp add: step_ok_def config_bitmask\<close>)

lemma parse_then:
  assumes "view_ok M m"
    and "\<And>m'. view_ok M m' \<Longrightarrow> pk_packet_lines_parsed_complete (ds_packet m') \<Longrightarrow> (ds_flow m' = None \<longleftrightarrow> ds_flow m = None)
      \<Longrightarrow> same_windows (ds_packet m) (ds_packet m')
      \<Longrightarrow> ds_src m' = ds_src m \<Longrightarrow> ds_dst m' = ds_dst m
      \<Longrightarrow> pk_packet_direction (ds_packet m') = pk_packet_direction (ds_packet m)
      \<Longrightarrow> detection_bitmask m' = detection_bitmask m \<Longrightarrow> good M m' (f m')"
  shows "good M m (parse_lines M m \<bind> f)"
  by (rule parse_good [OF assms(1)]) (use assms(2) in \<open>simp add: step_ok_def config_bitmask\<close>)

lemma parse_unix_then:
  assumes "view_ok M m"
    and "\<And>m'. view_ok M m' \<Longrightarrow> pk_packet_unix_lines_parsed_complete (ds_packet m') \<Longrightarrow> (ds_flow m' = None \<longleftrightarrow> ds_flow m = None)
      \<Longrightarrow> same_windows (ds_packet m) (ds_packet m')
      \<Longrightarrow> ds_src m' = ds_src m \<Longrightarrow> ds_dst m' = ds_dst m
      \<Longrightarrow> pk_packet_direction (ds_packet m') = pk_packet_direction (ds_packet m)
      \<Longrightarrow> detection_bitmask m' = detection_bitmask m \<Longrightarrow> good M m' (f m')"
  shows "good M m (parse_unix_lines M m \<bind> f)"
  by (rule parse_unix_good [OF assms(1)]) (use assms(2) in \<open>simp add: step_ok_def config_bitmask\<close>)

lemma set_id_field_good:
  assumes "view_ok M m" "a \<noteq> NULL" "a = ds_src m \<or> a = ds_dst m"
  shows "good M m (set_id_field a f v m)"
proof -
  obtain i where i: "ds_ids m a = Some i" using assms by (auto simp: view_ok_def ids_ok_def)
  let ?ids = "(ds_ids m)(a \<mapsto> i\<lparr>id_field := (id_field i)(f := v)\<rparr>)"
  have "dom ?ids = dom (ds_ids m)" using i by auto
  then have "good M m (Some (m\<lparr>ds_ids := ?ids\<rparr>))"
    using assms(1)
    by (simp add: good_def view_ok_def step_ok_def ids_ok_def protocols_ok_def same_windows_def excl_def same_config_def
        callbacks.truncate_def split: option.splits)
  then show ?thesis by (simp add: set_id_field_def i)
qed

lemma note_id_good:
  "view_ok M m \<Longrightarrow> a = ds_src m \<or> a = ds_dst m \<Longrightarrow> good M m (note_id a f v m)"
  by (auto simp: note_id_def intro: good_Some set_id_field_good)

lemma get_id_field_good:
  assumes "view_ok M m" "a \<noteq> NULL" "a = ds_src m \<or> a = ds_dst m" "\<And>v. good M m (g v)"
  shows "good M m (get_id_field a f m \<bind> g)"
  using assms by (auto simp: get_id_field_def view_ok_def ids_ok_def)

lemmas contract_rules = branch_good if_good ip_addr_good tcp_psh_good get_stage_good rd_good first_index_good case_option_good set_stage_good exclude_good
  add_connection_good good_Some decide_good parse_then parse_unix_then note_id_good get_id_field_good set_id_field_good
  good_then bool_bind_good

lemmas condition_rules = cond_total read_rules pay_reads pay_reads_0 iph_total counter_is_total excluded_total either_has_total line_starts_total

lemmas value_simps = len_simps allM_True anyM_False same_windows_def

end
