(* ===== verification/Ipq_Streams.thy ===== *)
theory Ipq_Streams
  imports Ipq_Command
begin

text \<open>
  Dissectors of streaming protocols: \<^verbatim>\<open>tvants.c\<close>, \<^verbatim>\<open>mms.c\<close>, \<^verbatim>\<open>shoutcast.c\<close>, \<^verbatim>\<open>flash.c\<close>, \<^verbatim>\<open>ppstream.c\<close>,
  \<^verbatim>\<open>feidian.c\<close>, \<^verbatim>\<open>tvuplayer.c\<close>, \<^verbatim>\<open>sopcast.c\<close> and \<^verbatim>\<open>rtsp.c\<close>, each with the lemma that it keeps the contract.
\<close>

subsection \<open>Detection from one packet\<close>

text \<open>The length in the bytes 4 and 5, little endian.\<close>

definition tvants_header :: "mem \<Rightarrow> detection_module \<Rightarrow> (u8 \<Rightarrow> bool) \<Rightarrow> bool option" where
  "tvants_header M m version =
     allM [bytes_at M (pay m) [0x04, 0x00], byte_is M (pay m + 2) version, byte_is M (pay m + 3) ((=) 0x00),
           lhalf_is M (pay m + 4) ((=) (plen m)), bytes_at M (pay m + 6) [0x00, 0x00]]"

text \<open>The protocol is excluded also when it has been detected: the source has no return there.\<close>

definition ipoque_search_tvants_udp :: "mem \<Rightarrow> detection_module \<Rightarrow> detection_module option" where
  "ipoque_search_tvants_udp M m =
     branch (anyM [allM [Some (pk_udp (ds_packet m) \<noteq> NULL), Some (57 < plen m),
                         tvants_header M m (\<lambda>x. x = 0x05 \<or> x = 0x06 \<or> x = 0x07),
                         anyM [mem_eq M (pay m + 48) ''TVANTS'', mem_eq M (pay m + 49) ''TVANTS'', mem_eq M (pay m + 51) ''TVANTS'']],
                   allM [Some (pk_tcp (ds_packet m) \<noteq> NULL), Some (15 < plen m), tvants_header M m ((=) 0x07),
                         mem_eq M (pay m + 8) ''TVANTS'']])
       (do { m \<leftarrow> ipoque_int_add_connection IPOQUE_PROTOCOL_TVANTS m; exclude IPOQUE_PROTOCOL_TVANTS m })
       (exclude IPOQUE_PROTOCOL_TVANTS m)"

lemma tvants_good:
  assumes "view_ok M m" "ds_flow m \<noteq> None"
  shows "good M m (ipoque_search_tvants_udp M m)"
  unfolding ipoque_search_tvants_udp_def tvants_header_def using assms
  by (intro contract_rules condition_rules) (simp_all add: value_simps del: allM.simps anyM.simps)

definition tvuplayer_datagram :: "mem \<Rightarrow> detection_module \<Rightarrow> bool option" where
  "tvuplayer_datagram M m =
     (let swapped = (\<lambda>k. anyM [bytes_at M (pay m + k) [0x05, 0x14], bytes_at M (pay m + k) [0x14, 0x05]]);
          zero = [byte_is M (pay m) ((=) 0x00), byte_is M (pay m + 2) ((=) 0x00)];
          zero4 = zero @ [bytes_at M (pay m + 10) [0x00, 0x00]] in
      anyM [allM [Some (plen m = 56), bytes_at M (pay m) [0xff, 0xff, 0x00, 0x01], bytes_at M (pay m + 10) [0x00, 0x00, 0x02, 0xff],
                  byte_is M (pay m + 19) ((=) 0x2c), swapped 26],
            allM (Some (plen m = 82) # zero4 @ [bytes_at M (pay m + 12) [0x01, 0xff], byte_is M (pay m + 19) ((=) 0x14),
                  bytes_at M (pay m + 32) [0x03, 0xff, 0x01], byte_is M (pay m + 39) ((=) 0x32), swapped 46]),
            allM (Some (plen m = 32) # zero4 @ [byte_is M (pay m + 12) ((=) 0x01),
                  byte_is M (pay m + 13) (\<lambda>x. x = 0xff \<or> x = 0x01), byte_is M (pay m + 19) ((=) 0x14)]),
            allM (Some (plen m = 84) # zero4 @ [bytes_at M (pay m + 12) [0x01, 0xff], byte_is M (pay m + 19) ((=) 0x14),
                  bytes_at M (pay m + 32) [0x03, 0xff, 0x01], byte_is M (pay m + 39) ((=) 0x34)]),
            allM (Some (plen m = 102) # zero4 @ [bytes_at M (pay m + 12) [0x01, 0xff], byte_is M (pay m + 19) ((=) 0x14),
                  byte_is M (pay m + 33) ((=) 0xff), byte_is M (pay m + 39) ((=) 0x14)]),
            allM (Some (plen m = 62) # zero @ [bytes_at M (pay m + 12) [0x03, 0xff], byte_is M (pay m + 19) ((=) 0x32), swapped 26]),
            allM (Some (plen m = 60) # zero4 @ [bytes_at M (pay m + 12) [0x06, 0x00], byte_is M (pay m + 19) ((=) 0x30)])])"

definition ipoque_search_tvuplayer :: "mem \<Rightarrow> detection_module \<Rightarrow> detection_module option" where
  "ipoque_search_tvuplayer M m = decide IPOQUE_PROTOCOL_TVUPLAYER
     (anyM [allM [Some (pk_tcp (ds_packet m) \<noteq> NULL), Some (plen m = 36 \<or> plen m = 24), byte_is M (pay m) ((=) 0x00),
                  word_is M (pay m + 2) ((=) 0x31323334), word_is M (pay m + 6) ((=) 0x35363837), byte_is M (pay m + 10) ((=) 0x01)],
            allM [Some (pk_udp (ds_packet m) \<noteq> NULL), tvuplayer_datagram M m]]) m"

lemma tvuplayer_good:
  assumes "view_ok M m" "ds_flow m \<noteq> None"
  shows "good M m (ipoque_search_tvuplayer M m)"
  unfolding ipoque_search_tvuplayer_def tvuplayer_datagram_def Let_def append.simps using assms
  by (intro contract_rules condition_rules) (auto simp add: value_simps simp del: allM.simps anyM.simps)

text \<open>SopCast: fixed headers over UDP; over TCP relations between the bytes of the first segment.\<close>

definition ipoque_search_sopcast_tcp :: "mem \<Rightarrow> detection_module \<Rightarrow> detection_module option" where
  "ipoque_search_sopcast_tcp M m = decide IPOQUE_PROTOCOL_SOPCAST
     (let rel = (\<lambda>i j R. bytes_rel M (pay m + i) (pay m + j) R);
          same = (\<lambda>i j. rel i j (=));
          near = (\<lambda>d x y. int (unat x) = int (unat y) - d \<or> int (unat x) = int (unat y) + d) in
      allM [counter_is m ((=) 1), Some (plen m = 54), half_is M (pay m) ((=) 0x0036), rel 2 3 (near 4), rel 2 4 (near 1),
            same 4 5, same 3 25, same 4 28, same 28 30, same 30 31, same 30 32, same 31 33, same 32 34, same 33 35,
            same 42 53, rel 45 46 (near 1), same 45 49, same 46 50, same 47 51]) m"

definition sopcast_datagram :: "mem \<Rightarrow> detection_module \<Rightarrow> bool option" where
  "sopcast_datagram M m =
     (let at = (\<lambda>k bs. bytes_at M (pay m + k) bs) in
      anyM [allM [Some (plen m = 52), bytes_at M (pay m) [0xff, 0xff, 0x01], at 8 [0x02, 0xff, 0x00, 0x2c, 0x00, 0x00, 0x00]],
            allM [Some (plen m = 80 \<or> plen m = 28 \<or> plen m = 94), bytes_at M (pay m) [0x00],
                  byte_is M (pay m + 2) (\<lambda>x. x = 0x02 \<or> x = 0x01), at 8 [0x01, 0xff, 0x00, 0x14, 0x00, 0x00]],
            allM [Some (plen m = 60), bytes_at M (pay m) [0x00], at 2 [0x01], at 8 [0x03, 0xff, 0x00, 0x34, 0x00, 0x00, 0x00]],
            allM [Some (plen m = 42), bytes_at M (pay m) [0x00, 0x02, 0x01, 0x07, 0x03], at 8 [0x06, 0x01, 0x00, 0x22, 0x00, 0x00]],
            allM [Some (plen m = 28), bytes_at M (pay m) [0x00, 0x0c, 0x01, 0x07, 0x00], at 8 [0x01, 0x01, 0x00, 0x14, 0x00, 0x00]],
            allM [Some (plen m = 286), bytes_at M (pay m) [0x00, 0x02, 0x01, 0x07, 0x03], at 8 [0x06, 0x01, 0x01, 0x16, 0x00, 0x00]],
            allM [Some (plen m = 76), bytes_at M (pay m) [0xff, 0xff, 0x01], at 8 [0x0c, 0xff, 0x00, 0x44], at 16 [0x01], at 15 [0x01],
                  at 12 [0x00, 0x00, 0x00]]])"

definition ipoque_search_sopcast_udp :: "mem \<Rightarrow> detection_module \<Rightarrow> detection_module option" where
  "ipoque_search_sopcast_udp M m = decide IPOQUE_PROTOCOL_SOPCAST (sopcast_datagram M m) m"

definition ipoque_search_sopcast :: "mem \<Rightarrow> detection_module \<Rightarrow> detection_module option" where
  "ipoque_search_sopcast M m =
     do { m \<leftarrow> (if pk_udp (ds_packet m) \<noteq> NULL then ipoque_search_sopcast_udp M m else Some m);
          if pk_tcp (ds_packet m) \<noteq> NULL then ipoque_search_sopcast_tcp M m else Some m }"

lemma sopcast_tcp_good:
  assumes "view_ok M m" "ds_flow m \<noteq> None"
  shows "good M m (ipoque_search_sopcast_tcp M m)"
  unfolding ipoque_search_sopcast_tcp_def Let_def using assms
  by (intro contract_rules condition_rules) (simp_all add: value_simps del: allM.simps anyM.simps)

lemma sopcast_datagram_total: "view_ok M m \<Longrightarrow> \<exists>b. sopcast_datagram M m = Some b"
  unfolding sopcast_datagram_def Let_def
  by (intro condition_rules) (auto simp: value_simps simp del: allM.simps anyM.simps)

lemma sopcast_good:
  assumes "view_ok M m" "ds_flow m \<noteq> None"
  shows "good M m (ipoque_search_sopcast M m)"
  unfolding ipoque_search_sopcast_def ipoque_search_sopcast_udp_def using assms
  by (intro contract_rules sopcast_tcp_good sopcast_datagram_total) simp_all

subsection \<open>Detection from an exchange\<close>

definition mms_header :: "mem \<Rightarrow> detection_module \<Rightarrow> bool option" where
  "mms_header M m = allM [bytes_at M (pay m + 4) [0xce, 0xfa, 0x0b, 0xb0], bytes_at M (pay m + 12) [0x4d, 0x4d, 0x53, 0x20]]"

text \<open>Exclude a protocol that may use HTTP only once HTTP is excluded.\<close>

definition exclude_after_http :: "nat \<Rightarrow> detection_module \<Rightarrow> detection_module option" where
  "exclude_after_http proto m = branch (excluded IPOQUE_PROTOCOL_HTTP m) (exclude proto m) (Some m)"

lemma exclude_after_http_good:
  "view_ok M m \<Longrightarrow> ds_flow m \<noteq> None \<Longrightarrow> p < 128 \<Longrightarrow> good M m (exclude_after_http p m)"
  unfolding exclude_after_http_def by (intro contract_rules excluded_total)

definition ipoque_search_mms_tcp :: "mem \<Rightarrow> detection_module \<Rightarrow> detection_module option" where
  "ipoque_search_mms_tcp M m =
     do { stage \<leftarrow> get_stage ''mms_stage'' m;
          branch (allM [Some (20 \<le> plen m), Some (stage = 0), mms_header M m]) (set_stage ''mms_stage'' (1 + dirn m) m)
         (branch (allM [Some (20 \<le> plen m), Some (stage = 2 - dirn m), mms_header M m])
            (ipoque_int_add_connection IPOQUE_PROTOCOL_MMS m)
            (exclude_after_http IPOQUE_PROTOCOL_MMS m)) }"

lemma mms_good:
  assumes "view_ok M m" "ds_flow m \<noteq> None"
  shows "good M m (ipoque_search_mms_tcp M m)"
  unfolding ipoque_search_mms_tcp_def mms_header_def using assms
  by (intro contract_rules condition_rules exclude_after_http_good) (simp_all add: value_simps del: allM.simps anyM.simps)

definition ipoque_search_shoutcast_tcp :: "mem \<Rightarrow> detection_module \<Rightarrow> detection_module option" where
  "ipoque_search_shoutcast_tcp M m =
     branch (allM [counter_is m ((=) 1),
               anyM [allM [Some (6 \<le> plen m), Some (plen m < 80), mem_eq M (pay m) ''123456''],
                     Some (detected IPOQUE_PROTOCOL_HTTP m)]]) (Some m)
    (branch (allM [Some (11 < plen m), mem_eq M (pay m) (''ICY 200 OK'' @ [CHR 0x0d, CHR 0x0a])])
       (ipoque_int_add_connection IPOQUE_PROTOCOL_SHOUTCAST m)
    (branch (counter_is m ((=) 2))
       (branch (anyM [allM [Some (plen m = 2), mem_is M (pay m) [0x0d, 0x0a]], allM [Some (3 < plen m), mem_eq M (pay m) ''OK2'']])
          (Some m) (exclude IPOQUE_PROTOCOL_SHOUTCAST m))
    (branch (counter_is m (\<lambda>c. c = 3 \<or> c = 4))
       (branch (allM [Some (3 < plen m), mem_eq M (pay m) ''OK2'']) (Some m)
          (decide IPOQUE_PROTOCOL_SHOUTCAST (allM [Some (4 < plen m), mem_eq M (pay m) ''icy-'']) m))
       (exclude IPOQUE_PROTOCOL_SHOUTCAST m))))"

lemma shoutcast_good:
  assumes "view_ok M m" "ds_flow m \<noteq> None"
  shows "good M m (ipoque_search_shoutcast_tcp M m)"
  unfolding ipoque_search_shoutcast_tcp_def using assms
  by (intro contract_rules condition_rules) (simp_all add: value_simps del: allM.simps anyM.simps)

text \<open>Flash: 1537 bytes up to the pushed segment. The byte counter is a \<^verbatim>\<open>u16\<close>.\<close>

definition flash_policy :: "mem \<Rightarrow> detection_module \<Rightarrow> detection_module option" where
  "flash_policy M m =
     do { stage \<leftarrow> get_stage ''flash_stage'' m;
          branch (allM [dest_is M (pk_tcp (ds_packet m)) ((=) 843), Some (stage = 0), Some (22 \<le> plen m),
                        mem_eq M (pay m) ''<policy-file-request/>''])
            (ipoque_int_add_connection IPOQUE_PROTOCOL_FLASH m)
            (exclude_after_http IPOQUE_PROTOCOL_FLASH m) }"

definition ipoque_search_flash :: "mem \<Rightarrow> detection_module \<Rightarrow> detection_module option" where
  "ipoque_search_flash M m =
     do { stage \<leftarrow> get_stage ''flash_stage'' m;
          branch (allM [Some (stage = 0), Some (0 < plen m), byte_is M (pay m) (\<lambda>x. x = 0x03 \<or> x = 0x06)])
            (do { m \<leftarrow> set_stage ''flash_bytes'' (unat (plen m)) m;
                  psh \<leftarrow> tcp_psh M m;
                  if \<not> psh then set_stage ''flash_stage'' (dirn m + 1) m
                  else if plen m = 1537 then ipoque_int_add_connection IPOQUE_PROTOCOL_FLASH m
                  else flash_policy M m })
            (if stage = 1 + dirn m
             then do { old \<leftarrow> get_stage ''flash_bytes'' m;
                       let bytes = (old + unat (plen m)) mod 65536;
                       m \<leftarrow> set_stage ''flash_bytes'' bytes m;
                       psh \<leftarrow> tcp_psh M m;
                       if psh \<and> bytes = 1537 then ipoque_int_add_connection IPOQUE_PROTOCOL_FLASH m
                       else if \<not> psh \<and> bytes < 1537 then Some m
                       else flash_policy M m }
             else flash_policy M m) }"

lemma flash_policy_good:
  assumes "view_ok M m" "ds_flow m \<noteq> None" "pk_tcp (ds_packet m) \<noteq> NULL"
  shows "good M m (flash_policy M m)"
  unfolding flash_policy_def using assms
  by (intro contract_rules condition_rules exclude_after_http_good) (simp_all add: value_simps del: allM.simps anyM.simps)

lemma flash_good:
  assumes "view_ok M m" "ds_flow m \<noteq> None" "pk_tcp (ds_packet m) \<noteq> NULL"
  shows "good M m (ipoque_search_flash M m)"
  unfolding ipoque_search_flash_def Let_def using assms
  by (intro contract_rules condition_rules flash_policy_good) (simp_all add: value_simps del: allM.simps anyM.simps)

definition ppstream_length :: "mem \<Rightarrow> detection_module \<Rightarrow> bool option" where
  "ppstream_length M m =
     anyM [lhalf_is M (pay m) (\<lambda>x. int (unat x) = int (unat (plen m)) - 4), lhalf_is M (pay m) ((=) (plen m)),
           allM [Some (6 \<le> plen m), lhalf_is M (pay m) (\<lambda>x. unat x = unat (plen m) - 6)]]"

text \<open>\<^verbatim>\<open>ppstream_stage\<close> has three bits.\<close>

definition ppstream_datagram :: "mem \<Rightarrow> detection_module \<Rightarrow> detection_module option" where
  "ppstream_datagram M m =
     do { stage \<leftarrow> get_stage ''ppstream_stage'' m;
          branch (allM [Some (2 < plen m), byte_is M (pay m + 2) ((=) 0x43), ppstream_length M m])
            (do { m \<leftarrow> set_stage ''ppstream_stage'' ((stage + 1) mod 8) m;
                  if (stage + 1) mod 8 = 5 then ipoque_int_add_connection IPOQUE_PROTOCOL_PPSTREAM m else Some m })
         (branch (allM [Some (stage = 0), Some (4 < plen m), ppstream_length M m, bytes_at M (pay m + 2) [0x00, 0x00, 0x03]])
            (set_stage ''ppstream_stage'' 7 m)
            (decide IPOQUE_PROTOCOL_PPSTREAM
               (allM [Some (stage = 7), Some (4 < plen m), byte_is M (pay m + 3) ((=) 0x00), ppstream_length M m,
                      byte_is M (pay m + 2) ((=) 0x00), byte_is M (pay m + 4) ((=) 0x03)]) m)) }"

definition ipoque_search_ppstream_tcp :: "mem \<Rightarrow> detection_module \<Rightarrow> detection_module option" where
  "ipoque_search_ppstream_tcp M m =
     branch (allM [Some (pk_tcp (ds_packet m) \<noteq> NULL), Some (60 \<le> plen m), lword_is M (pay m + 52) ((=) 0),
                   mem_eq M (pay m) (''PSProtocol'' @ [CHR 0x00])])
       (ipoque_int_add_connection IPOQUE_PROTOCOL_PPSTREAM m)
       (if pk_udp (ds_packet m) \<noteq> NULL then ppstream_datagram M m else exclude IPOQUE_PROTOCOL_PPSTREAM m)"

lemma ppstream_good:
  assumes "view_ok M m" "ds_flow m \<noteq> None"
  shows "good M m (ipoque_search_ppstream_tcp M m)"
  unfolding ipoque_search_ppstream_tcp_def ppstream_datagram_def ppstream_length_def using assms
  by (intro contract_rules condition_rules) (simp_all add: value_simps del: allM.simps anyM.simps)

definition feidian_datagram :: "mem \<Rightarrow> detection_module \<Rightarrow> detection_module option" where
  "feidian_datagram M m =
     (let udp = pk_udp (ds_packet m) in
      branch (anyM [source_is M udp ((=) 53124), dest_is M udp ((=) 53124)])
        (do { stage \<leftarrow> get_stage ''feidian_stage'' m;
              branch (allM [Some (stage = 0), Some (plen m = 112), bytes_at M (pay m) [0x1c, 0x1c, 0x32, 0x01]])
                (set_stage ''feidian_stage'' 1 m)
                (decide IPOQUE_PROTOCOL_FEIDIAN
                   (allM [Some (stage = 1), Some (plen m = 116 \<or> plen m = 112), bytes_at M (pay m) [0x1c, 0x1c, 0x32, 0x01]]) m) })
        (exclude IPOQUE_PROTOCOL_FEIDIAN m))"

definition ipoque_search_feidian :: "mem \<Rightarrow> detection_module \<Rightarrow> detection_module option" where
  "ipoque_search_feidian M m =
     (let tcp = pk_tcp (ds_packet m) in
      if tcp \<noteq> NULL
      then branch (allM [dest_is M tcp ((=) 8080), Some (plen m = 4), bytes_at M (pay m) [0x29, 0x1c, 0x32, 0x01]])
             (ipoque_int_add_connection IPOQUE_PROTOCOL_FEIDIAN m)
          (branch (allM [Some (50 < plen m), mem_eq M (pay m) ''GET /''])
             (do { m \<leftarrow> parse_lines M m;
                   let l = pk_host_line (ds_packet m);
                   decide IPOQUE_PROTOCOL_FEIDIAN
                     (allM [Some (ol_ptr l \<noteq> NULL), Some (ol_len l = 18), mem_eq M (ol_ptr l) ''config.feidian.com'']) m })
             (exclude IPOQUE_PROTOCOL_FEIDIAN m))
      else if pk_udp (ds_packet m) \<noteq> NULL then feidian_datagram M m
      else exclude IPOQUE_PROTOCOL_FEIDIAN m)"

lemma feidian_good:
  assumes "view_ok M m" "ds_flow m \<noteq> None"
  shows "good M m (ipoque_search_feidian M m)"
  unfolding ipoque_search_feidian_def feidian_datagram_def Let_def using assms
  by (intro contract_rules condition_rules line_total noted_line_readable) (auto simp: value_simps simp del: allM.simps anyM.simps)

subsection \<open>RTSP\<close>

text \<open>
  The dissector is written but no block of the registration installs it. The addresses and times of a control
  connection are kept in the ids.
\<close>

definition note_rtsp :: "mem \<Rightarrow> addr \<Rightarrow> nat \<Rightarrow> detection_module \<Rightarrow> detection_module option" where
  "note_rtsp M a off m =
     (if a = NULL then Some m
      else do { ip \<leftarrow> ip_addr M m off;
                m \<leftarrow> set_id_field a ''rtsp_ip_address'' (unat ip) m;
                m \<leftarrow> set_id_field a ''rtsp_timer'' (unat (now m)) m;
                set_id_field a ''rtsp_ts_set'' 1 m })"

definition note_rtsp_peers :: "mem \<Rightarrow> detection_module \<Rightarrow> detection_module option" where
  "note_rtsp_peers M m = do { m \<leftarrow> note_rtsp M (ds_dst m) 12 m; note_rtsp M (ds_src m) 16 m }"

definition ipoque_search_rdt_connection :: "mem \<Rightarrow> detection_module \<Rightarrow> detection_module option" where
  "ipoque_search_rdt_connection M m =
     (let src = ds_src m in
      if src = NULL then Some m
      else do {
        ts_set \<leftarrow> get_id_field src ''rtsp_ts_set'' m;
        timer \<leftarrow> get_id_field src ''rtsp_timer'' m;
        ip \<leftarrow> get_id_field src ''rtsp_ip_address'' m;
        if ts_set = 1 \<and> since m timer < ds_config m ''rtsp_connection_timeout''
        then do {
          dst_ip \<leftarrow> ip_addr M m 16;
          branch (allM [Some (unat dst_ip = ip), id_has_protocol src IPOQUE_PROTOCOL_RTSP m, Some (plen m = 3),
                        bytes_at M (pay m) [0x00, 0xff, 0x03]])
            (ipoque_int_add_connection IPOQUE_PROTOCOL_RTSP m) (Some m) }
        else set_id_field src ''rtsp_ts_set'' 0 m })"

definition rtsp_start :: "mem \<Rightarrow> detection_module \<Rightarrow> detection_module option" where
  "rtsp_start M m =
     do { m \<leftarrow> set_stage ''rtsprdt_stage'' (1 + dirn m) m;
          if pk_udp (ds_packet m) \<noteq> NULL then ipoque_search_rdt_connection M m else Some m }"

definition ipoque_search_rtsp_tcp_udp :: "mem \<Rightarrow> detection_module \<Rightarrow> detection_module option" where
  "ipoque_search_rtsp_tcp_udp M m =
     do { fl \<leftarrow> ds_flow m;
          control \<leftarrow> get_stage ''rtsp_control_flow'' m;
          stage \<leftarrow> get_stage ''rtsprdt_stage'' m;
          if fl_detected_protocol fl = of_nat IPOQUE_PROTOCOL_RTSP \<and> control = 1 then note_rtsp_peers M m
          else if stage = 0 then rtsp_start M m
          else branch (allM [counter_is m (\<lambda>c. c < 3), Some (stage = 1 + dirn m)]) (Some m)
         (branch (allM [Some (20 < plen m), Some (stage = 2 - dirn m), mem_eq M (pay m) ''RTSP/1.0 ''])
            (do { m \<leftarrow> note_rtsp_peers M m;
                  m \<leftarrow> set_stage ''rtsp_control_flow'' 1 m;
                  ipoque_int_add_connection IPOQUE_PROTOCOL_RTSP m })
         (branch (allM [Some (pk_udp (ds_packet m) \<noteq> NULL), Some (detected IPOQUE_PROTOCOL_UNKNOWN m), counter_is m (\<lambda>c. c < 5)])
            (Some m) (exclude IPOQUE_PROTOCOL_RTSP m))) }"

lemma note_rtsp_good:
  assumes "view_ok M m" "a = ds_src m \<or> a = ds_dst m" "pk_tcp (ds_packet m) \<noteq> NULL \<or> pk_udp (ds_packet m) \<noteq> NULL" "off \<le> 16"
  shows "good M m (note_rtsp M a off m)"
  unfolding note_rtsp_def using assms by (intro contract_rules) (auto simp: same_windows_def)

lemma note_rtsp_peers_good:
  assumes "view_ok M m" "pk_tcp (ds_packet m) \<noteq> NULL \<or> pk_udp (ds_packet m) \<noteq> NULL"
  shows "good M m (note_rtsp_peers M m)"
  unfolding note_rtsp_peers_def using assms by (intro contract_rules note_rtsp_good) (auto simp: same_windows_def)

lemma rdt_good:
  assumes "view_ok M m" "ds_flow m \<noteq> None" "pk_udp (ds_packet m) \<noteq> NULL"
  shows "good M m (ipoque_search_rdt_connection M m)"
  unfolding ipoque_search_rdt_connection_def Let_def using assms
  by (intro contract_rules condition_rules) (simp_all add: value_simps del: allM.simps anyM.simps)

lemma rtsp_good:
  assumes "view_ok M m" "ds_flow m \<noteq> None" "pk_tcp (ds_packet m) \<noteq> NULL \<or> pk_udp (ds_packet m) \<noteq> NULL"
  shows "good M m (ipoque_search_rtsp_tcp_udp M m)"
proof -
  obtain fl where "ds_flow m = Some fl" using assms(2) by blast
  then show ?thesis
    unfolding ipoque_search_rtsp_tcp_udp_def rtsp_start_def using assms
    by (simp only: bind.bind_lunit)
       (intro contract_rules condition_rules note_rtsp_peers_good rdt_good;
        simp add: value_simps del: allM.simps anyM.simps)
qed

end
