(* ===== verification/Ipq_Games.thy ===== *)
theory Ipq_Games
  imports Ipq_Command
begin

text \<open>
  Dissectors of games: \<^verbatim>\<open>secondlife.c\<close>, \<^verbatim>\<open>battlefield.c\<close> and \<^verbatim>\<open>xbox.c\<close>, each with the lemma that it keeps the
  contract.
\<close>

definition ipoque_search_secondlife :: "mem \<Rightarrow> detection_module \<Rightarrow> detection_module option" where
  "ipoque_search_secondlife M m = decide IPOQUE_PROTOCOL_SECONDLIFE
     (anyM [allM [Some (plen m = 46), mem_is M (pay m) [0x40, 0x00, 0x00, 0x00, 0x01, 0x00, 0xff, 0xff, 0x00, 0x03]],
            allM [Some (plen m = 54), mem_is M (pay m) [0x40, 0x00, 0x00, 0x00, 0x01, 0x00, 0xff, 0xff, 0x00, 0x52]],
            allM [Some (54 < plen m), mem_is M (pay m) [0x40, 0x00, 0x00, 0x00, 0x01, 0x00, 0x08],
                  lword_is M (pay m + (unat (plen m) - 4)) ((=) 0)]]) m"

lemma secondlife_good:
  assumes "view_ok M m" "ds_flow m \<noteq> None"
  shows "good M m (ipoque_search_secondlife M m)"
  unfolding ipoque_search_secondlife_def using assms
  by (intro contract_rules condition_rules) (simp_all add: value_simps del: allM.simps anyM.simps)

text \<open>Battlefield: the time an id last took part is renewed while it is recent.\<close>

definition recent :: "addr \<Rightarrow> string \<Rightarrow> u32 \<Rightarrow> detection_module \<Rightarrow> bool option" where
  "recent a f timeout m = (if a = NULL then Some False else do { t \<leftarrow> get_id_field a f m; Some (since m t < timeout) })"

definition battlefield_renew :: "detection_module \<Rightarrow> detection_module option" where
  "battlefield_renew m =
     (let timeout = ds_config m ''battlefield_timeout'' in
      branch (recent (ds_src m) ''battlefield_ts'' timeout m) (set_id_field (ds_src m) ''battlefield_ts'' (unat (now m)) m)
     (branch (recent (ds_dst m) ''battlefield_ts'' timeout m) (set_id_field (ds_dst m) ''battlefield_ts'' (unat (now m)) m)
        (Some m)))"

definition battlefield_add :: "detection_module \<Rightarrow> detection_module option" where
  "battlefield_add m =
     do { m \<leftarrow> ipoque_int_add_connection IPOQUE_PROTOCOL_BATTLEFIELD m;
          m \<leftarrow> note_id (ds_src m) ''battlefield_ts'' (unat (now m)) m;
          note_id (ds_dst m) ''battlefield_ts'' (unat (now m)) m }"

definition battlefield_packet :: "mem \<Rightarrow> detection_module \<Rightarrow> detection_module option" where
  "battlefield_packet M m =
     branch (anyM [allM [Some (plen m = 18), mem_eq M (pay m + 5) (''battlefield2'' @ [CHR 0x00])],
                   allM [Some (10 < plen m),
                     anyM [mem_is M (pay m) [0x11, 0x20, 0x00, 0x01, 0x00, 0x00, 0x50, 0xb9, 0x10, 0x11],
                           mem_is M (pay m) [0x11, 0x20, 0x00, 0x01, 0x00, 0x00, 0x30, 0xb9, 0x10, 0x11],
                           mem_is M (pay m) [0x11, 0x20, 0x00, 0x01, 0x00, 0x00, 0xa0, 0x98, 0x00, 0x11]]]])
       (battlefield_add m) (exclude IPOQUE_PROTOCOL_BATTLEFIELD m)"

definition ipoque_search_battlefield :: "mem \<Rightarrow> detection_module \<Rightarrow> detection_module option" where
  "ipoque_search_battlefield M m =
     (let udp = pk_udp (ds_packet m) in
      if detected IPOQUE_PROTOCOL_BATTLEFIELD m then battlefield_renew m
      else branch (allM [anyM [source_is M udp (\<lambda>p. 27000 \<le> p), dest_is M udp (\<lambda>p. 27000 \<le> p)],
                         either_has IPOQUE_PROTOCOL_BATTLEFIELD m])
        (do { stage \<leftarrow> get_stage ''battlefield_stage'' m;
              msg_id \<leftarrow> get_stage ''battlefield_msg_id'' m;
              if stage = 0 \<or> stage = 1 + dirn m
              then branch (allM [Some (8 < plen m), half_is M (pay m) ((=) 0xfefd)])
                     (do { x \<leftarrow> rd32le M (pay m + 2);
                           m \<leftarrow> set_stage ''battlefield_msg_id'' (unat x) m;
                           set_stage ''battlefield_stage'' (1 + dirn m) m })
                     (battlefield_packet M m)
              else branch (allM [Some (stage = 2 - dirn m), Some (8 < plen m), lword_is M (pay m) (\<lambda>x. unat x = msg_id)])
                     (battlefield_add m) (battlefield_packet M m) })
        (battlefield_packet M m))"

lemma recent_total:
  "view_ok M m \<Longrightarrow> a = ds_src m \<or> a = ds_dst m \<Longrightarrow> \<exists>b. recent a f t m = Some b"
  by (auto simp: recent_def get_id_field_def view_ok_def ids_ok_def)

lemma recent_id: "recent a f t m = Some True \<Longrightarrow> a \<noteq> NULL"
  by (auto simp: recent_def split: if_splits)

lemma battlefield_renew_good: "view_ok M m \<Longrightarrow> good M m (battlefield_renew m)"
  unfolding battlefield_renew_def Let_def
  by (intro contract_rules recent_total) (auto dest: recent_id)

lemma battlefield_add_good: "view_ok M m \<Longrightarrow> ds_flow m \<noteq> None \<Longrightarrow> good M m (battlefield_add m)"
  unfolding battlefield_add_def by (intro contract_rules) simp_all

lemma battlefield_packet_good:
  assumes "view_ok M m" "ds_flow m \<noteq> None"
  shows "good M m (battlefield_packet M m)"
  unfolding battlefield_packet_def using assms
  by (intro contract_rules condition_rules battlefield_add_good) (simp_all add: value_simps del: allM.simps anyM.simps)

lemma battlefield_good:
  assumes "view_ok M m" "ds_flow m \<noteq> None" "pk_udp (ds_packet m) \<noteq> NULL"
  shows "good M m (ipoque_search_battlefield M m)"
  unfolding ipoque_search_battlefield_def Let_def using assms
  by (intro contract_rules condition_rules battlefield_renew_good battlefield_packet_good battlefield_add_good pay_readable)
     (simp_all add: value_simps del: allM.simps anyM.simps)

text \<open>Xbox: \<^verbatim>\<open>xbox_stage\<close> is one bit.\<close>

definition xbox_greeting :: "mem \<Rightarrow> detection_module \<Rightarrow> bool option" where
  "xbox_greeting M m =
     (let pair = (\<lambda>p. allM [byte_is M (pay m + 4) ((=) (fst p)), byte_is M (pay m + 6) ((=) (snd p))]) in
      allM [Some (12 < plen m), lword_is M (pay m) ((=) 0), byte_is M (pay m + 5) ((=) 0x58), mem_is M (pay m + 7) [0, 0, 0],
            anyM (List.map pair [(0x0c, 0x76), (0x02, 0x18), (0x0b, 0x80), (0x03, 0x40), (0x06, 0x4e)])])"

definition xbox_port :: "mem \<Rightarrow> detection_module \<Rightarrow> bool option" where
  "xbox_port M m =
     (let udp = pk_udp (ds_packet m) in
      allM [anyM [dest_is M udp ((=) 3074), source_is M udp ((=) 3074)],
            anyM [allM [Some (plen m = 24), byte_is M (pay m) ((=) 0x00)],
                  allM [Some (plen m = 42), byte_is M (pay m) ((=) 0x4f), byte_is M (pay m + 2) ((=) 0x0a)],
                  allM [Some (plen m = 80), half_is M (pay m) ((=) 0x50bc), byte_is M (pay m + 2) ((=) 0x45)],
                  allM [Some (plen m = 40), word_is M (pay m) ((=) 0xcf5f3202)],
                  allM [Some (plen m = 38), word_is M (pay m) ((=) 0xc1457f03)],
                  allM [Some (plen m = 28), word_is M (pay m) ((=) 0x015f2c00)]]])"

definition ipoque_search_xbox :: "mem \<Rightarrow> detection_module \<Rightarrow> detection_module option" where
  "ipoque_search_xbox M m =
     (if pk_udp (ds_packet m) \<noteq> NULL
      then branch (xbox_greeting M m) (ipoque_int_add_connection IPOQUE_PROTOCOL_XBOX m)
          (branch (xbox_port M m)
             (do { stage \<leftarrow> get_stage ''xbox_stage'' m;
                   if stage = 1 then ipoque_int_add_connection IPOQUE_PROTOCOL_XBOX m
                   else set_stage ''xbox_stage'' ((stage + 1) mod 2) m })
             (branch (anyM [Some (pk_tcp (ds_packet m) = NULL), excluded IPOQUE_PROTOCOL_HTTP m])
                (exclude IPOQUE_PROTOCOL_XBOX m) (Some m)))
      else Some m)"

lemma xbox_greeting_total: "view_ok M m \<Longrightarrow> \<exists>b. xbox_greeting M m = Some b"
  unfolding xbox_greeting_def Let_def by (intro condition_rules) (auto simp: value_simps simp del: allM.simps anyM.simps)

lemma xbox_port_total: "view_ok M m \<Longrightarrow> pk_udp (ds_packet m) \<noteq> NULL \<Longrightarrow> \<exists>b. xbox_port M m = Some b"
  unfolding xbox_port_def Let_def by (intro condition_rules) (auto simp: value_simps simp del: allM.simps anyM.simps)

lemma xbox_good:
  assumes "view_ok M m" "ds_flow m \<noteq> None"
  shows "good M m (ipoque_search_xbox M m)"
  unfolding ipoque_search_xbox_def using assms
  by (intro contract_rules condition_rules xbox_greeting_total xbox_port_total) simp_all

end
