(* ===== verification/Ipq_Sharing.thy ===== *)
theory Ipq_Sharing
  imports Ipq_Command
begin

text \<open>
  Dissectors of file sharing protocols: \<^verbatim>\<open>socrates.c\<close>, \<^verbatim>\<open>fasttrack.c\<close>, \<^verbatim>\<open>filetopia.c\<close>, \<^verbatim>\<open>i23v5.c\<close>,
  \<^verbatim>\<open>pando.c\<close>, \<^verbatim>\<open>winmx.c\<close> and \<^verbatim>\<open>manolito.c\<close>, each with the lemma that it keeps the contract.
\<close>

text \<open>Socrates is excluded also when it has been detected: the source has no return there.\<close>

definition ipoque_search_socrates :: "mem \<Rightarrow> detection_module \<Rightarrow> detection_module option" where
  "ipoque_search_socrates M m =
     (let frame = [byte_is M (pay m) ((=) 0xfe), byte_is M (pay m + (unat (plen m) - 1)) ((=) 0x05)] in
      branch (if pk_udp (ds_packet m) \<noteq> NULL
              then allM (Some (9 < plen m) # frame @ [mem_eq M (pay m + 2) ''socrates''])
              else if pk_tcp (ds_packet m) \<noteq> NULL
              then allM (Some (13 < plen m) # frame @
                     [word_is M (pay m + 2) (\<lambda>x. x = ucast (plen m)), mem_eq M (pay m + 6) ''socrates''])
              else Some False)
        (do { m \<leftarrow> ipoque_int_add_connection IPOQUE_PROTOCOL_SOCRATES m; exclude IPOQUE_PROTOCOL_SOCRATES m })
        (exclude IPOQUE_PROTOCOL_SOCRATES m))"

lemma socrates_good:
  assumes "view_ok M m" "ds_flow m \<noteq> None"
  shows "good M m (ipoque_search_socrates M m)"
  unfolding ipoque_search_socrates_def Let_def append.simps using assms
  by (intro contract_rules condition_rules) (simp_all add: value_simps del: allM.simps anyM.simps)

text \<open>The request of a FastTrack peer: a number up to the line end, or an HTTP request with a Kazaa header.\<close>

definition ipoque_search_fasttrack_tcp :: "mem \<Rightarrow> detection_module \<Rightarrow> detection_module option" where
  "ipoque_search_fasttrack_tcp M m =
     (let n = unat (plen m) in
      branch (allM [Some (6 < plen m), half_is M (pay m + (n - 2)) ((=) 0x0d0a)])
        (branch (allM [mem_eq M (pay m) ''GIVE '', Some (8 \<le> plen m)])
           (decide IPOQUE_PROTOCOL_FASTTRACK (all_index (\<lambda>i. byte_is M (pay m + i) digit) 5 (n - 2)) m)
        (branch (allM [Some (50 < plen m), mem_eq M (pay m) ''GET /''])
           (do { m \<leftarrow> parse_lines M m;
                 decide IPOQUE_PROTOCOL_FASTTRACK
                   (anyM (List.map (\<lambda>l. anyM [line_starts M l 17 ''X-Kazaa-Username: '',
                                              line_starts M l 23 ''User-Agent: PeerEnabler/'']) (lines_of m))) m })
           (exclude IPOQUE_PROTOCOL_FASTTRACK m)))
        (exclude IPOQUE_PROTOCOL_FASTTRACK m))"

lemma fasttrack_good:
  assumes "view_ok M m" "ds_flow m \<noteq> None"
  shows "good M m (ipoque_search_fasttrack_tcp M m)"
  unfolding ipoque_search_fasttrack_tcp_def Let_def using assms
  by (intro contract_rules condition_rules parsed_line_readable) (simp_all add: value_simps del: allM.simps anyM.simps)

definition ipoque_search_filetopia_tcp :: "mem \<Rightarrow> detection_module \<Rightarrow> detection_module option" where
  "ipoque_search_filetopia_tcp M m =
     do { stage \<leftarrow> get_stage ''filetopia_stage'' m;
          if stage = 0
          then branch (allM [Some (50 \<le> plen m), Some (plen m \<le> 70), bytes_at M (pay m) [0x03, 0x9a],
                             byte_is M (pay m + 3) ((=) 0x22), byte_is M (pay m + (unat (plen m) - 1)) ((=) 0x2b)])
                 (set_stage ''filetopia_stage'' 1 m) (exclude IPOQUE_PROTOCOL_FILETOPIA m)
          else if stage = 1
          then branch (allM [Some (100 \<le> plen m), bytes_at M (pay m) [0x03, 0x9a], byte_is M (pay m + 3) (\<lambda>x. x = 0x22 \<or> x = 0x23),
                             all_index (\<lambda>i. byte_is M (pay m + (5 + i)) (\<lambda>x. 0x20 \<le> x \<and> x \<le> 0x7e)) 0 10])
                 (set_stage ''filetopia_stage'' 2 m) (exclude IPOQUE_PROTOCOL_FILETOPIA m)
          else decide IPOQUE_PROTOCOL_FILETOPIA
                 (allM [Some (stage = 2), Some (4 \<le> plen m), Some (plen m \<le> 100), bytes_at M (pay m) [0x03, 0x9a],
                        byte_is M (pay m + 3) (\<lambda>x. x = 0x22 \<or> x = 0x23)]) m }"

lemma filetopia_good:
  assumes "view_ok M m" "ds_flow m \<noteq> None"
  shows "good M m (ipoque_search_filetopia_tcp M m)"
  unfolding ipoque_search_filetopia_tcp_def using assms
  by (intro contract_rules condition_rules) (simp_all add: value_simps del: allM.simps anyM.simps)

text \<open>
  i23v5: three packets carry a length each, a fourth their sum. Each search stops the dissector when it finds its
  tag, and a detection does not leave the last loop, which adds the connection again; the protocol is then excluded.
\<close>

definition i23v5_tag :: "mem \<Rightarrow> detection_module \<Rightarrow> u8 \<Rightarrow> nat option option" where
  "i23v5_tag M m tag = first_index (\<lambda>i. bytes_at M (pay m + i) [tag, 0x58]) 3 (unat (plen m) - 5)"

definition i23v5_note :: "mem \<Rightarrow> detection_module \<Rightarrow> string \<Rightarrow> nat \<Rightarrow> detection_module option" where
  "i23v5_note M m f i = do { x \<leftarrow> rd32le M (pay m + (i + 2)); set_stage f (unat x) m }"

definition i23v5_sum :: "mem \<Rightarrow> detection_module \<Rightarrow> detection_module option" where
  "i23v5_sum M m =
     do { a \<leftarrow> get_stage ''i23v5_len1'' m; b \<leftarrow> get_stage ''i23v5_len2'' m; c \<leftarrow> get_stage ''i23v5_len3'' m;
          found \<leftarrow> (if a \<noteq> 0 \<and> b \<noteq> 0 \<and> c \<noteq> 0
                   then any_index (\<lambda>i. lword_is M (pay m + i) ((=) (of_nat a + of_nat b + of_nat c))) 3 (unat (plen m) - 5)
                   else Some False);
          m \<leftarrow> (if found then ipoque_int_add_connection IPOQUE_PROTOCOL_I23V5 m else Some m);
          exclude IPOQUE_PROTOCOL_I23V5 m }"

definition ipoque_search_i23v5 :: "mem \<Rightarrow> detection_module \<Rightarrow> detection_module option" where
  "ipoque_search_i23v5 M m =
     branch (allM [Some (7 < plen m), byte_is M (pay m) (\<lambda>x. x AND 0x04 = 0x04), byte_is M (pay m + 2) (\<lambda>x. x AND 0x80 = 0x80)])
       (do { r1 \<leftarrow> i23v5_tag M m 0x0d;
             case r1 of Some i \<Rightarrow> i23v5_note M m ''i23v5_len1'' i | None \<Rightarrow> do {
             r2 \<leftarrow> i23v5_tag M m 0x0e;
             case r2 of Some i \<Rightarrow> i23v5_note M m ''i23v5_len2'' i | None \<Rightarrow> do {
             r3 \<leftarrow> i23v5_tag M m 0x0f;
             case r3 of Some i \<Rightarrow> i23v5_note M m ''i23v5_len3'' i | None \<Rightarrow> i23v5_sum M m }}})
       (exclude IPOQUE_PROTOCOL_I23V5 m)"

lemma i23v5_note_good:
  assumes "view_ok M m" "ds_flow m \<noteq> None" "i + 6 \<le> unat (plen m)"
  shows "good M m (i23v5_note M m f i)"
  unfolding i23v5_note_def using assms by (intro contract_rules pay_readable) simp_all

lemma i23v5_sum_good:
  assumes "view_ok M m" "ds_flow m \<noteq> None"
  shows "good M m (i23v5_sum M m)"
  unfolding i23v5_sum_def using assms
  by (intro contract_rules condition_rules) (simp_all add: value_simps del: allM.simps anyM.simps)

lemma i23v5_good:
  assumes "view_ok M m" "ds_flow m \<noteq> None"
  shows "good M m (ipoque_search_i23v5 M m)"
  unfolding ipoque_search_i23v5_def i23v5_tag_def using assms
  by (intro contract_rules condition_rules i23v5_note_good i23v5_sum_good)
     (auto simp: value_simps simp del: allM.simps anyM.simps)

text \<open>Pando: the search returns 1 (found), 2 (maybe) or 0.\<close>

definition search_pando :: "mem \<Rightarrow> detection_module \<Rightarrow> (nat \<times> detection_module) option" where
  "search_pando M m =
     (let found = do { m \<leftarrow> ipoque_int_add_connection IPOQUE_PROTOCOL_PANDO m; Some (1, m) } in
      if pk_tcp (ds_packet m) \<noteq> NULL
      then branch (allM [Some (plen m = 63), mem_eq M (pay m + 1) ''Pando protocol'']) found (Some (0, m))
      else if pk_udp (ds_packet m) \<noteq> NULL
      then branch (allM [Some (20 < plen m), Some (plen m < 100), bytes_at M (pay m) [0x00, 0x00, 0x00, 0x09, 0x00, 0x00]])
             (branch (anyM [allM [Some (plen m = 87), mem_eq M (pay m + 25) ''Pando protocol''],
                            allM [Some (plen m = 92), mem_eq M (pay m + 72) ''Pando'']]) found (Some (2, m)))
             (Some (0, m))
      else Some (0, m))"

definition ipoque_search_pando_tcp_udp :: "mem \<Rightarrow> detection_module \<Rightarrow> detection_module option" where
  "ipoque_search_pando_tcp_udp M m =
     do { (r, m) \<leftarrow> search_pando M m; if r \<noteq> 0 then Some m else exclude IPOQUE_PROTOCOL_PANDO m }"

lemma pando_good:
  assumes "view_ok M m" "ds_flow m \<noteq> None"
  shows "good M m (ipoque_search_pando_tcp_udp M m)"
proof -
  have "good M m (ipoque_int_add_connection IPOQUE_PROTOCOL_PANDO m)" using assms by (intro contract_rules) simp_all
  then have a: "good M m (ipoque_int_add_connection IPOQUE_PROTOCOL_PANDO m \<bind> Some)" by simp
  show ?thesis
    unfolding ipoque_search_pando_tcp_udp_def search_pando_def Let_def if_bind branch_bind
      bind_assoc bind.bind_lunit prod.case using assms a
    by (intro contract_rules condition_rules) (simp_all add: value_simps del: allM.simps anyM.simps)
qed

text \<open>WinMX: the second packet ends in digits after a space; the backward loop stops at index 0.\<close>

fun winmx_number :: "mem \<Rightarrow> addr \<Rightarrow> nat \<Rightarrow> bool option" where
  "winmx_number M p 0 = Some False"
| "winmx_number M p (Suc left) =
     do { x \<leftarrow> M (p + Suc left);
          if x = 0x20 then Some True else if x < 0x30 \<or> 0x39 < x then Some False else winmx_number M p left }"

definition ipoque_search_winmx_tcp :: "mem \<Rightarrow> detection_module \<Rightarrow> detection_module option" where
  "ipoque_search_winmx_tcp M m =
     do { stage \<leftarrow> get_stage ''winmx_stage'' m;
          if stage = 0
          then branch (anyM [Some (plen m = 1), allM [Some (1 < plen m), byte_is M (pay m) ((=) 0x31)]]) (Some m)
              (branch (allM [Some (plen m = 4), mem_eq M (pay m) ''SEND'']) (set_stage ''winmx_stage'' 1 m)
              (branch (allM [Some (plen m = 3), mem_eq M (pay m) ''GET'']) (ipoque_int_add_connection IPOQUE_PROTOCOL_WINMX m)
                 (decide IPOQUE_PROTOCOL_WINMX
                    (allM [Some (plen m = 149), byte_is M (pay m) ((=) 0x38), lword_is M (pay m + 17) ((=) 0),
                           lword_is M (pay m + 21) ((=) 0), lword_is M (pay m + 25) ((=) 0), lhalf_is M (pay m + 39) ((=) 0),
                           half_is M (pay m + 135) ((=) 0x7edf), half_is M (pay m + 147) ((=) 0xf792)]) m)))
          else decide IPOQUE_PROTOCOL_WINMX
                 (allM [Some (stage = 1), Some (10 < plen m), Some (plen m < 1000), winmx_number M (pay m) (unat (plen m) - 1)]) m }"

lemma winmx_number_total: "readable M p (Suc left) \<Longrightarrow> \<exists>b. winmx_number M p left = Some b"
proof (induction left)
  case (Suc left)
  have "readable M p (Suc left)" by (rule readable_mono [OF Suc.prems]) simp
  moreover obtain x where "M (p + Suc left) = Some x" using readable_at [OF Suc.prems, of "p + Suc left"] by auto
  ultimately show ?case using Suc.IH by auto
qed auto

lemma winmx_good:
  assumes "view_ok M m" "ds_flow m \<noteq> None"
  shows "good M m (ipoque_search_winmx_tcp M m)"
  unfolding ipoque_search_winmx_tcp_def using assms
  by (intro contract_rules condition_rules winmx_number_total pay_readable_0)
     (auto simp: value_simps simp del: allM.simps anyM.simps)

text \<open>Manolito: a TCP handshake of four messages; over UDP the time an id was last active.\<close>

definition int_manolito_add_connection :: "detection_module \<Rightarrow> detection_module option" where
  "int_manolito_add_connection m =
     do { m \<leftarrow> ipoque_int_add_connection IPOQUE_PROTOCOL_MANOLITO m;
          if pk_udp (ds_packet m) \<noteq> NULL
          then do { m \<leftarrow> note_id (ds_src m) ''manolito_last_pkt_arrival_time'' (unat (now m)) m;
                    note_id (ds_dst m) ''manolito_last_pkt_arrival_time'' (unat (now m)) m }
          else Some m }"

definition search_manolito_tcp :: "mem \<Rightarrow> detection_module \<Rightarrow> detection_module option" where
  "search_manolito_tcp M m =
     do { stage \<leftarrow> get_stage ''manolito_stage'' m;
          let next_stage = (\<lambda>s t. branch (mem_eq M (pay m) s) (set_stage ''manolito_stage'' (t + dirn m) m)
                (exclude IPOQUE_PROTOCOL_MANOLITO m));
          if stage = 0 \<and> 6 < plen m then next_stage ''SIZ '' 1
          else if stage = 2 - dirn m \<and> 4 < plen m then next_stage ''STR '' 3
          else if stage = 4 - dirn m \<and> 5 < plen m then next_stage ''MD5 '' 5
          else branch (allM [Some (stage = 6 - dirn m), Some (plen m = 4), mem_eq M (pay m) ''GO!!''])
                 (int_manolito_add_connection m) (exclude IPOQUE_PROTOCOL_MANOLITO m) }"

definition manolito_peer ::
    "addr \<Rightarrow> (detection_module \<Rightarrow> detection_module option) \<Rightarrow> detection_module \<Rightarrow> detection_module option" where
  "manolito_peer a next m =
     (if a = NULL then next m
      else do { t \<leftarrow> get_id_field a ''manolito_last_pkt_arrival_time'' m;
                let timeout = ds_config m ''manolito_subscriber_timeout'';
                if t \<noteq> 0 \<and> since m t < timeout then int_manolito_add_connection m
                else if timeout \<le> since m t
                then do { m \<leftarrow> set_id_field a ''manolito_last_pkt_arrival_time'' 0 m; next m }
                else next m })"

definition manolito_datagram :: "mem \<Rightarrow> detection_module \<Rightarrow> detection_module option" where
  "manolito_datagram M m =
     branch (anyM [allM [Some (plen m = 20), half_is M (pay m) ((=) 0x3d4b), byte_is M (pay m + 2) ((=) 0xd9),
                         half_is M (pay m + 16) ((=) 0xedbb)],
                   allM [Some (plen m = 25), half_is M (pay m) ((=) 0x3e4a), half_is M (pay m + 20) ((=) 0x092f),
                         byte_is M (pay m + 22) ((=) 0x20)],
                   allM [Some (plen m = 20), half_is M (pay m + 2) ((=) 0), word_is M (pay m + 8) ((=) 0),
                         half_is M (pay m + 18) ((=) 0), half_is M (pay m) ((\<noteq>) 0)]])
       (int_manolito_add_connection m)
       (branch (counter_is m (\<lambda>c. c < 7)) (Some m) (exclude IPOQUE_PROTOCOL_MANOLITO m))"

definition search_manolito_udp :: "mem \<Rightarrow> detection_module \<Rightarrow> detection_module option" where
  "search_manolito_udp M m =
     do { fl \<leftarrow> ds_flow m;
          if fl_detected_protocol fl = of_nat IPOQUE_PROTOCOL_MANOLITO
          then do { m \<leftarrow> note_id (ds_src m) ''manolito_last_pkt_arrival_time'' (unat (now m)) m;
                    note_id (ds_dst m) ''manolito_last_pkt_arrival_time'' (unat (now m)) m }
          else branch (anyM [source_is M (pk_udp (ds_packet m)) ((=) 41170), dest_is M (pk_udp (ds_packet m)) ((=) 41170)])
                 (manolito_peer (ds_src m) (\<lambda>m. manolito_peer (ds_dst m) (manolito_datagram M) m) m)
                 (exclude IPOQUE_PROTOCOL_MANOLITO m) }"

definition ipoque_search_manolito_tcp_udp :: "mem \<Rightarrow> detection_module \<Rightarrow> detection_module option" where
  "ipoque_search_manolito_tcp_udp M m =
     (if pk_tcp (ds_packet m) \<noteq> NULL then search_manolito_tcp M m
      else if pk_udp (ds_packet m) \<noteq> NULL then search_manolito_udp M m
      else exclude IPOQUE_PROTOCOL_MANOLITO m)"

lemma manolito_add_good: "view_ok M m \<Longrightarrow> ds_flow m \<noteq> None \<Longrightarrow> good M m (int_manolito_add_connection m)"
  unfolding int_manolito_add_connection_def by (intro contract_rules) simp_all

lemma manolito_tcp_good:
  assumes "view_ok M m" "ds_flow m \<noteq> None"
  shows "good M m (search_manolito_tcp M m)"
  unfolding search_manolito_tcp_def Let_def using assms
  by (intro contract_rules condition_rules manolito_add_good) (simp_all add: value_simps del: allM.simps anyM.simps)

lemma manolito_peer_good:
  assumes "view_ok M m" "ds_flow m \<noteq> None" "a = ds_src m \<or> a = ds_dst m"
    and "\<And>m'. view_ok M m' \<Longrightarrow> ds_flow m' \<noteq> None \<Longrightarrow> ds_src m' = ds_src m \<Longrightarrow> ds_dst m' = ds_dst m \<Longrightarrow> good M m' (next m')"
  shows "good M m (manolito_peer a next m)"
  unfolding manolito_peer_def Let_def using assms by (intro contract_rules manolito_add_good assms(4)) simp_all

lemma manolito_datagram_good:
  assumes "view_ok M m" "ds_flow m \<noteq> None"
  shows "good M m (manolito_datagram M m)"
  unfolding manolito_datagram_def using assms
  by (intro contract_rules condition_rules manolito_add_good) (simp_all add: value_simps del: allM.simps anyM.simps)

lemma manolito_udp_good:
  assumes "view_ok M m" "ds_flow m \<noteq> None" "pk_udp (ds_packet m) \<noteq> NULL"
  shows "good M m (search_manolito_udp M m)"
proof -
  obtain fl where "ds_flow m = Some fl" using assms(2) by blast
  then show ?thesis
    unfolding search_manolito_udp_def using assms
    by (simp only: bind.bind_lunit)
       (intro contract_rules condition_rules manolito_peer_good manolito_datagram_good; simp del: allM.simps anyM.simps)
qed

lemma manolito_good:
  assumes "view_ok M m" "ds_flow m \<noteq> None"
  shows "good M m (ipoque_search_manolito_tcp_udp M m)"
  unfolding ipoque_search_manolito_tcp_udp_def using assms
  by (intro contract_rules manolito_tcp_good manolito_udp_good) simp_all

end
