(* ===== verification/Ipq_Mail.thy ===== *)
theory Ipq_Mail
  imports Ipq_Command
begin

text \<open>
  Dissectors of mail protocols: \<^verbatim>\<open>mail_smtp.c\<close>, \<^verbatim>\<open>mail_pop.c\<close> and \<^verbatim>\<open>mail_imap.c\<close>, each with the lemma that it
  keeps the contract. They recognise commands in either case and count the different ones.
\<close>

subsection \<open>Commands seen\<close>

definition crlf_end :: "mem \<Rightarrow> detection_module \<Rightarrow> bool option" where
  "crlf_end M m = half_is M (pay m + (unat (plen m) - 2)) ((=) 0x0d0a)"

definition bit_count :: "u16 \<Rightarrow> nat" where
  "bit_count w = length (filter (bit w) [0..<16])"

fun or_lines :: "(one_line \<Rightarrow> u16 option) \<Rightarrow> one_line list \<Rightarrow> u16 \<Rightarrow> u16 option" where
  "or_lines f [] w = Some w"
| "or_lines f (l # ls) w = do { x \<leftarrow> f l; or_lines f ls (w OR x) }"

lemma or_lines_good:
  assumes "\<And>l. l \<in> set ls \<Longrightarrow> \<exists>x. f l = Some x" "\<And>w. good M m (g w)"
  shows "good M m (or_lines f ls w \<bind> g)"
  using assms(1)
proof (induction ls arbitrary: w)
  case (Cons l ls)
  obtain x where "f l = Some x" using Cons.prems by auto
  then show ?case using Cons.IH [of "w OR x"] Cons.prems by simp
qed (use assms(2) in simp)

lemma crlf_end_total: "view_ok M m \<Longrightarrow> 2 \<le> unat (plen m) \<Longrightarrow> \<exists>b. crlf_end M m = Some b"
  unfolding crlf_end_def by (intro condition_rules) simp_all

subsection \<open>SMTP\<close>

text \<open>The last four letters of \<^verbatim>\<open>STARTTLS\<close> in small letters are looked for at the first four positions.\<close>

definition smtp_line :: "mem \<Rightarrow> one_line \<Rightarrow> u16 option" where
  "smtp_line M l =
     (let p = ol_ptr l; n = unat (ol_len l) in do {
        code \<leftarrow> (if 3 \<le> n then select_first [(mem_eq M p ''220'', 0x01), (mem_eq M p ''250'', 0x02), (mem_eq M p ''235'', 0x04),
                  (mem_eq M p ''334'', 0x08), (mem_eq M p ''354'', 0x10)] 0 else Some 0);
        word \<leftarrow> (if 5 \<le> n then select_first
                  [(allM [anyM [letters M p ''HE'', letters M p ''EH''], letters M (p + 2) ''LO'', byte_is M (p + 4) ((=) 0x20)], 0x20),
                   (allM [letters M p ''MAIL'', byte_is M (p + 4) ((=) 0x20)], 0x40),
                   (allM [letters M p ''RCPT'', byte_is M (p + 4) ((=) 0x20)], 0x80),
                   (allM [letters M p ''AUTH'', byte_is M (p + 4) ((=) 0x20)], 0x100)] 0 else Some 0);
        tls \<leftarrow> (if 8 \<le> n then select_first
                  [(allM [letters M p ''STAR'', bytes_rel M (p + 4) p (\<lambda>x y. x = 0x54 \<or> y = 0x74),
                          bytes_rel M (p + 5) (p + 1) (\<lambda>x y. x = 0x54 \<or> y = 0x74),
                          bytes_rel M (p + 6) (p + 2) (\<lambda>x y. x = 0x4c \<or> y = 0x6c),
                          bytes_rel M (p + 7) (p + 3) (\<lambda>x y. x = 0x53 \<or> y = 0x73)], 0x200)] 0 else Some 0);
        short \<leftarrow> (if 4 \<le> n then select_first
                  [(letters M p ''DATA'', 0x400), (letters M p ''NOOP'', 0x800), (letters M p ''RSET'', 0x1000)] 0 else Some 0);
        Some (code OR word OR tls OR short) })"

definition ipoque_search_mail_smtp_tcp :: "mem \<Rightarrow> detection_module \<Rightarrow> detection_module option" where
  "ipoque_search_mail_smtp_tcp M m =
     branch (allM [Some (2 < plen m), crlf_end M m])
       (do { m \<leftarrow> parse_lines M m;
             seen \<leftarrow> get_stage ''smtp_command_bitmask'' m;
             w \<leftarrow> or_lines (smtp_line M) (lines_of m) (of_nat seen);
             m \<leftarrow> set_stage ''smtp_command_bitmask'' (unat w) m;
             if 3 \<le> bit_count w then ipoque_int_add_connection IPOQUE_PROTOCOL_MAIL_SMTP m
             else branch (allM [Some (1 \<le> bit_count w), counter_is m (\<lambda>c. c < 12)]) (Some m)
                    (exclude IPOQUE_PROTOCOL_MAIL_SMTP m) })
       (exclude IPOQUE_PROTOCOL_MAIL_SMTP m)"

lemma smtp_line_total:
  assumes "readable M (ol_ptr l) (unat (ol_len l))"
  shows "\<exists>x. smtp_line M l = Some x"
proof -
  have r: "readable M (ol_ptr l + k) j" if "k + j \<le> unat (ol_len l)" for k j
    by (rule readable_sub [OF assms]) (use that in auto)
  have r0: "readable M (ol_ptr l) j" if "j \<le> unat (ol_len l)" for j using readable_mono [OF assms that] .
  show ?thesis
    unfolding smtp_line_def Let_def
    by (intro bind_total cond_total mem_eq_total letters_total bytes_rel_total byte_is_total r r0) simp_all
qed

lemma smtp_good:
  assumes "view_ok M m" "ds_flow m \<noteq> None"
  shows "good M m (ipoque_search_mail_smtp_tcp M m)"
  unfolding ipoque_search_mail_smtp_tcp_def using assms
  by (intro or_lines_good contract_rules condition_rules crlf_end_total smtp_line_total parsed_line_readable)
     (simp_all add: value_simps del: allM.simps anyM.simps)

subsection \<open>POP3\<close>

definition int_mail_pop_check_for_client_commands :: "mem \<Rightarrow> detection_module \<Rightarrow> u16 option" where
  "int_mail_pop_check_for_client_commands M m =
     (if 4 < plen m
      then select_first [(letters M (pay m) ''AUTH'', 0x001), (letters M (pay m) ''APOP'', 0x002), (letters M (pay m) ''USER'', 0x004),
        (letters M (pay m) ''PASS'', 0x008), (letters M (pay m) ''CAPA'', 0x010), (letters M (pay m) ''LIST'', 0x020),
        (letters M (pay m) ''STAT'', 0x040), (letters M (pay m) ''UIDL'', 0x080), (letters M (pay m) ''RETR'', 0x100),
        (letters M (pay m) ''DELE'', 0x200)] 0
      else Some 0)"

definition pop_count :: "mem \<Rightarrow> detection_module \<Rightarrow> detection_module option" where
  "pop_count M m =
     do { seen \<leftarrow> get_stage ''pop_command_bitmask'' m;
          stage \<leftarrow> get_stage ''mail_pop_stage'' m;
          branch (allM [Some (2 < plen m), crlf_end M m])
            (if 3 \<le> bit_count (of_nat seen) + stage then ipoque_int_add_connection IPOQUE_PROTOCOL_MAIL_POP m else Some m)
            (Some m) }"

definition pop_split :: "mem \<Rightarrow> detection_module \<Rightarrow> detection_module option" where
  "pop_split M m =
     do { seen \<leftarrow> get_stage ''pop_command_bitmask'' m;
          stage \<leftarrow> get_stage ''mail_pop_stage'' m;
          branch (allM [anyM [allM [Some (2 < plen m), crlf_end M m], Some (seen \<noteq> 0), Some (stage \<noteq> 0)], counter_is m (\<lambda>c. c < 12)])
            (Some m) (exclude IPOQUE_PROTOCOL_MAIL_POP m) }"

text \<open>\<^verbatim>\<open>mail_pop_stage\<close> has two bits, the command bitmask is a \<^verbatim>\<open>u16\<close>.\<close>

definition ipoque_search_mail_pop_tcp :: "mem \<Rightarrow> detection_module \<Rightarrow> detection_module option" where
  "ipoque_search_mail_pop_tcp M m =
     branch (anyM [allM [Some (3 < plen m), byte_is M (pay m) ((=) 0x2b), letters M (pay m + 1) ''OK''],
                   allM [Some (4 < plen m), byte_is M (pay m) ((=) 0x2d), letters M (pay m + 1) ''ERR'']])
       (do { stage \<leftarrow> get_stage ''mail_pop_stage'' m;
             m \<leftarrow> set_stage ''mail_pop_stage'' ((stage + 1) mod 4) m;
             pop_count M m })
       (do { c \<leftarrow> int_mail_pop_check_for_client_commands M m;
             if c = 0 then pop_split M m
             else do { seen \<leftarrow> get_stage ''pop_command_bitmask'' m;
                       m \<leftarrow> set_stage ''pop_command_bitmask'' (unat ((of_nat seen :: u16) OR c)) m;
                       pop_count M m } })"

lemma pop_command_total: "view_ok M m \<Longrightarrow> \<exists>c. int_mail_pop_check_for_client_commands M m = Some c"
  unfolding int_mail_pop_check_for_client_commands_def by (intro condition_rules) (simp_all add: value_simps)

lemma pop_parts_good:
  assumes "view_ok M m" "ds_flow m \<noteq> None"
  shows "good M m (pop_count M m)" "good M m (pop_split M m)"
  unfolding pop_count_def pop_split_def using assms
  by (intro contract_rules condition_rules crlf_end_total; simp add: value_simps del: allM.simps anyM.simps)+

lemma pop_good:
  assumes "view_ok M m" "ds_flow m \<noteq> None"
  shows "good M m (ipoque_search_mail_pop_tcp M m)"
proof -
  obtain c where "int_mail_pop_check_for_client_commands M m = Some c" using pop_command_total [OF assms(1)] ..
  then show ?thesis
    unfolding ipoque_search_mail_pop_tcp_def using assms
    by (simp only: bind.bind_lunit)
       (intro contract_rules condition_rules pop_parts_good; simp add: value_simps del: allM.simps anyM.simps)
qed

subsection \<open>IMAP\<close>

text \<open>
  The tag, an optional number and the position of the space before the command; None where the source excludes the
  protocol. Both loops stop at index 20; the second one leaves the position alone when it finds no space before.
\<close>

definition tag_char :: "u8 \<Rightarrow> bool" where
  "tag_char x \<longleftrightarrow> 0x61 \<le> x \<and> x \<le> 0x7a \<or> 0x41 \<le> x \<and> x \<le> 0x5a \<or> digit x \<or> x = 0x2a"

definition imap_tag :: "mem \<Rightarrow> detection_module \<Rightarrow> nat option option" where
  "imap_tag M m =
     (let n = unat (plen m) in do {
        r \<leftarrow> first_index (\<lambda>i. anyM [allM [Some (0 < i), byte_is M (pay m + i) ((=) 0x20)], notM (byte_is M (pay m + i) tag_char)])
               0 (min 20 n);
        case r of None \<Rightarrow> Some None
        | Some i \<Rightarrow> do { b \<leftarrow> byte_is M (pay m + i) ((=) 0x20); Some (if 0 < i \<and> b \<and> i \<noteq> n - 1 then Some i else None) } })"

definition imap_number :: "mem \<Rightarrow> detection_module \<Rightarrow> nat \<Rightarrow> nat option option" where
  "imap_number M m sp =
     (let n = unat (plen m) in
      branch (allM [Some (sp + 1 < n), byte_is M (pay m + (sp + 1)) digit])
        (do { r \<leftarrow> first_index (\<lambda>i. anyM [byte_is M (pay m + i) ((=) 0x20), notM (byte_is M (pay m + i) digit)]) (sp + 1) (min 20 n);
              case r of None \<Rightarrow> Some (Some sp)
              | Some i \<Rightarrow> do { b \<leftarrow> byte_is M (pay m + i) ((=) 0x20); Some (if b \<and> i \<noteq> n - 1 then Some i else None) } })
        (Some (Some sp)))"

definition imap_space :: "mem \<Rightarrow> detection_module \<Rightarrow> nat option option" where
  "imap_space M m = do { r \<leftarrow> imap_tag M m; case r of None \<Rightarrow> Some None | Some sp \<Rightarrow> imap_number M m sp }"

text \<open>
  The groups of commands that are tested one after the other, each with the number of bytes that must follow the
  start of the command. \<^verbatim>\<open>FETCH\<close> accepts a small \<^verbatim>\<open>j\<close> and \<^verbatim>\<open>LSUB\<close> a small \<^verbatim>\<open>s\<close> in the wrong place.
\<close>

definition imap_groups :: "mem \<Rightarrow> addr \<Rightarrow> (nat \<times> bool option) list" where
  "imap_groups M p =
     [(3, anyM [allM [letters M p ''OK'', byte_is M (p + 2) ((=) 0x20)], letters M p ''UID'']),
      (10, letters M p ''CAPABILITY''), (8, letters M p ''STARTTLS''),
      (5, anyM [letters M p ''LOGIN'', allM [letters M p ''FETC'', byte_is M (p + 4) (\<lambda>x. x = 0x48 \<or> x = 0x6a)],
                letters M p ''FLAGS'', letters M p ''CHECK'']),
      (12, letters M p ''AUTHENTICATE''), (9, letters M p ''NAMESPACE''),
      (4, anyM [allM [byte_is M p (\<lambda>x. x = 0x4c \<or> x = 0x73), letters M (p + 1) ''SUB''], letters M p ''LIST'', letters M p ''NOOP'',
                letters M p ''IDLE'']),
      (6, anyM [letters M p ''SELECT'', letters M p ''EXISTS''])]"

fun count_groups :: "nat \<Rightarrow> (nat \<times> bool option) list \<Rightarrow> nat option" where
  "count_groups r [] = Some 0"
| "count_groups r (g # gs) =
     do { b \<leftarrow> (if fst g < r then snd g else Some False); k \<leftarrow> count_groups r gs; Some (if b then k + 1 else k) }"

definition imap_excluded :: "mem \<Rightarrow> detection_module \<Rightarrow> detection_module option" where
  "imap_excluded M m =
     do { stage \<leftarrow> get_stage ''mail_imap_stage'' m;
          branch (allM [Some (2 \<le> plen m), crlf_end M m, counter_is m (\<lambda>c. c < 6), Some (1 \<le> stage)])
            (Some m) (exclude IPOQUE_PROTOCOL_MAIL_IMAP m) }"

text \<open>\<^verbatim>\<open>mail_imap_stage\<close> has two bits.\<close>

definition imap_commands :: "mem \<Rightarrow> nat \<Rightarrow> detection_module \<Rightarrow> detection_module option" where
  "imap_commands M k m =
     (if k = 0 then imap_excluded M m
      else do { stage \<leftarrow> get_stage ''mail_imap_stage'' m;
                m \<leftarrow> set_stage ''mail_imap_stage'' ((stage + k) mod 4) m;
                if (stage + k) mod 4 = 3 then ipoque_int_add_connection IPOQUE_PROTOCOL_MAIL_IMAP m else imap_excluded M m })"

definition ipoque_search_mail_imap_tcp :: "mem \<Rightarrow> detection_module \<Rightarrow> detection_module option" where
  "ipoque_search_mail_imap_tcp M m =
     branch (allM [Some (4 \<le> plen m), crlf_end M m])
       (branch (allM [Some (plen m = 6), letters M (pay m) ''DONE'']) (imap_commands M 1 m)
          (do { r \<leftarrow> imap_space M m;
                case r of None \<Rightarrow> imap_excluded M m
                | Some sp \<Rightarrow> do { k \<leftarrow> count_groups (unat (plen m) - (sp + 1)) (imap_groups M (pay m + (sp + 1)));
                                imap_commands M k m } }))
       (imap_excluded M m)"

lemma imap_space_total:
  assumes "view_ok M m"
  shows "\<exists>r. imap_space M m = Some r"
proof -
  let ?n = "unat (plen m)"
  have b: "\<exists>b. byte_is M (pay m + i) P = Some b" if "i < ?n" for i P
    using that by (intro pay_total [OF assms]) simp
  have number: "\<exists>r. imap_number M m sp = Some r" for sp
  proof (cases "sp + 1 < ?n \<and> byte_is M (pay m + (sp + 1)) digit = Some True")
    case True
    obtain r where r: "first_index (\<lambda>i. anyM [byte_is M (pay m + i) ((=) 0x20), notM (byte_is M (pay m + i) digit)])
        (sp + 1) (min 20 ?n) = Some r" "\<forall>j. r = Some j \<longrightarrow> sp + 1 \<le> j \<and> j < min 20 ?n"
      using first_index_total [of "sp + 1" "min 20 ?n"
          "\<lambda>i. anyM [byte_is M (pay m + i) ((=) 0x20), notM (byte_is M (pay m + i) digit)]"]
      by (metis (no_types, lifting) anyM_total anyM_Nil_total b min_less_iff_conj notM_total)
    show ?thesis
    proof (cases r)
      case None
      then show ?thesis using True r(1) by (simp add: imap_number_def Let_def branch_def)
    next
      case (Some i)
      then obtain x where "byte_is M (pay m + i) ((=) 0x20) = Some x" using r(2) b [of i] by auto
      then show ?thesis using True r Some by (simp add: imap_number_def Let_def branch_def)
    qed
  next
    case False
    then show ?thesis using b [of "sp + 1" digit] by (auto simp: imap_number_def Let_def branch_def)
  qed
  have tag: "\<exists>r. imap_tag M m = Some r"
  proof -
    obtain r where r: "first_index (\<lambda>i. anyM [allM [Some (0 < i), byte_is M (pay m + i) ((=) 0x20)],
        notM (byte_is M (pay m + i) tag_char)]) 0 (min 20 ?n) = Some r" "\<forall>j. r = Some j \<longrightarrow> j < min 20 ?n"
      using first_index_total [of 0 "min 20 ?n" "\<lambda>i. anyM [allM [Some (0 < i), byte_is M (pay m + i) ((=) 0x20)],
        notM (byte_is M (pay m + i) tag_char)]"]
      by (metis (no_types, lifting) Some_total allM_Nil_total allM_total anyM_total anyM_Nil_total b min_less_iff_conj notM_total)
    show ?thesis
    proof (cases r)
      case None
      then show ?thesis using r(1) by (simp add: imap_tag_def Let_def)
    next
      case (Some i)
      then obtain x where "byte_is M (pay m + i) ((=) 0x20) = Some x" using r(2) b [of i] by auto
      then show ?thesis using r Some by (simp add: imap_tag_def Let_def)
    qed
  qed
  show ?thesis using tag number unfolding imap_space_def by (auto split: option.split)
qed

lemma count_groups_total:
  assumes "\<And>g. g \<in> set gs \<Longrightarrow> fst g < r \<Longrightarrow> \<exists>b. snd g = Some b"
  shows "\<exists>k. count_groups r gs = Some k"
  using assms
proof (induction gs)
  case (Cons g gs)
  then obtain k where "count_groups r gs = Some k" by auto
  moreover obtain b where "(if fst g < r then snd g else Some False) = Some b" using Cons.prems [of g] by (cases "fst g < r") auto
  ultimately show ?case by simp
qed simp

lemma imap_groups_total:
  assumes "readable M p r" "g \<in> set (imap_groups M p)" "fst g < r"
  shows "\<exists>b. snd g = Some b"
proof -
  have s: "readable M (p + k) j" if "k + j \<le> r" for k j by (rule readable_sub [OF assms(1)]) (use that in auto)
  have s0: "readable M p j" if "j \<le> r" for j using readable_mono [OF assms(1) that] .
  show ?thesis
    using assms(2,3) unfolding imap_groups_def set_simps insert_iff empty_iff
    by (elim disjE; simp only: fst_conv snd_conv simp_thms)
       (intro cond_total letters_total byte_is_total s s0; simp)+
qed

lemma imap_excluded_good: "view_ok M m \<Longrightarrow> ds_flow m \<noteq> None \<Longrightarrow> good M m (imap_excluded M m)"
  unfolding imap_excluded_def
  by (intro contract_rules condition_rules crlf_end_total) (simp_all add: value_simps del: allM.simps anyM.simps)

lemma imap_commands_good: "view_ok M m \<Longrightarrow> ds_flow m \<noteq> None \<Longrightarrow> good M m (imap_commands M k m)"
  unfolding imap_commands_def by (intro contract_rules imap_excluded_good) simp_all

lemma imap_good:
  assumes "view_ok M m" "ds_flow m \<noteq> None"
  shows "good M m (ipoque_search_mail_imap_tcp M m)"
proof -
  obtain r where r: "imap_space M m = Some r" using imap_space_total [OF assms(1)] ..
  have "\<exists>k. count_groups (unat (plen m) - (sp + 1)) (imap_groups M (pay m + (sp + 1))) = Some k" for sp
  proof (cases "sp + 1 \<le> unat (plen m)")
    case True
    then have "readable M (pay m + (sp + 1)) (unat (plen m) - (sp + 1))" by (intro pay_readable [OF assms(1)]) simp
    then show ?thesis by (intro count_groups_total imap_groups_total)
  qed (intro count_groups_total, simp)
  then obtain k where k: "count_groups (unat (plen m) - (sp + 1)) (imap_groups M (pay m + (sp + 1))) = Some (k sp)" for sp
    by metis
  show ?thesis
    unfolding ipoque_search_mail_imap_tcp_def r k bind.bind_lunit using assms
    by (intro contract_rules condition_rules crlf_end_total imap_excluded_good imap_commands_good)
       (simp_all add: value_simps del: allM.simps anyM.simps)
qed

end
