(* ===== verification/Ipq_Ssl.thy ===== *)
theory Ipq_Ssl
  imports Ipq_Command
begin

text \<open>
  The dissector of \<^verbatim>\<open>ssl.c\<close>: the handshake in both directions, and the search of the certificate for the names of
  other protocols, with the lemma that it keeps the contract.
\<close>

subsection \<open>Names in a certificate\<close>

datatype ssl_name = Talk | Aol_certificate | Aol_host

text \<open>What the body of the search loop finds at offset \<open>a\<close>, in the order of its tests.\<close>

definition aol_certificate :: "mem \<Rightarrow> detection_module \<Rightarrow> nat \<Rightarrow> bool option" where
  "aol_certificate M m a =
     (let name = (\<lambda>s. allM [Some (a + length s < unat (plen m)), mem_eq M (pay m + a) s]) in
      allM [byte_is M (pay m + a) (\<lambda>x. x \<in> {0x41, 0x6b, 0x63, 0x68}),
            anyM [name ''America Online Inc.'', name ''kdc.uas.aol.com'', name ''corehc@aol.net'',
                  name ''http://crl.aol.com/AOLMSPKI/aolServerCert'', name ''http://ocsp.web.aol.com/ocsp'',
                  name ''http://pki-info.aol.com/AOLMSPKI'']])"

definition ssl_name_at :: "mem \<Rightarrow> detection_module \<Rightarrow> nat \<Rightarrow> ssl_name option option" where
  "ssl_name_at M m a = select_first
     [(allM [byte_is M (pay m + a) ((=) 0x74), mem_eq M (pay m + a) ''talk.google.com'',
             Some (IPOQUE_COMPARE_PROTOCOL_TO_BITMASK (detection_bitmask m) IPOQUE_PROTOCOL_UNENCRYPED_JABBER \<noteq> 0)], Some Talk),
      (aol_certificate M m a, Some Aol_certificate),
      (allM [byte_is M (pay m + a) (\<lambda>x. x = 0x6d \<or> x = 0x73), Some (a + 21 < unat (plen m)),
             anyM [mem_eq M (pay m + a) ''my.screenname.aol.com'', mem_eq M (pay m + a) ''sns-static.aolcdn.com'']], Some Aol_host)]
     None"

text \<open>The 32 bytes of a session id are kept as the number they spell.\<close>

definition note_session :: "mem \<Rightarrow> detection_module \<Rightarrow> detection_module option" where
  "note_session M m =
     (if ds_dst m \<noteq> NULL \<and> 75 < plen m
      then do { bs \<leftarrow> mem_bytes M (pay m + 44) 32;
                m \<leftarrow> set_id_field (ds_dst m) ''oscar_ssl_session_id'' (be_val bs) m;
                set_id_field (ds_dst m) ''oscar_last_safe_access_time'' (unat (now m)) m }
      else Some m)"

definition ssl_mark_and_payload_search_for_other_protocols :: "mem \<Rightarrow> detection_module \<Rightarrow> detection_module option" where
  "ssl_mark_and_payload_search_for_other_protocols M m =
     (if IPOQUE_COMPARE_PROTOCOL_TO_BITMASK (detection_bitmask m) IPOQUE_PROTOCOL_UNENCRYPED_JABBER \<noteq> 0
        \<or> IPOQUE_COMPARE_PROTOCOL_TO_BITMASK (detection_bitmask m) IPOQUE_PROTOCOL_OSCAR \<noteq> 0
      then do {
        r \<leftarrow> first_index (\<lambda>a. do { x \<leftarrow> ssl_name_at M m a; Some (x \<noteq> None) }) 5 (unat (plen m) - 20);
        case r of None \<Rightarrow> ipoque_int_add_connection IPOQUE_PROTOCOL_SSL m
        | Some a \<Rightarrow> do {
            x \<leftarrow> ssl_name_at M m a;
            if x = Some Talk then ipoque_int_add_connection IPOQUE_PROTOCOL_UNENCRYPED_JABBER m
            else if x = Some Aol_certificate
            then do { m \<leftarrow> note_session M m; ipoque_int_add_connection IPOQUE_PROTOCOL_OSCAR m }
            else ipoque_int_add_connection IPOQUE_PROTOCOL_OSCAR m } }
      else ipoque_int_add_connection IPOQUE_PROTOCOL_SSL m)"

lemma ssl_name_at_total:
  assumes "view_ok M m" "a < unat (plen m) - 20"
  shows "\<exists>x. ssl_name_at M m a = Some x"
  unfolding ssl_name_at_def aol_certificate_def Let_def using assms
  by (intro condition_rules) (simp_all add: value_simps del: allM.simps anyM.simps)

lemma note_session_good:
  assumes "view_ok M m" shows "good M m (note_session M m)"
proof (cases "ds_dst m \<noteq> NULL \<and> 75 < plen m")
  case True
  then have "readable M (pay m + 44) 32" by (intro pay_readable [OF assms]) (simp add: len_simps)
  then obtain bs where "mem_bytes M (pay m + 44) 32 = Some bs" using readable_bytes by blast
  then show ?thesis
    unfolding note_session_def if_P [OF True] using True assms
    by (simp only: bind.bind_lunit) (intro contract_rules; simp)
qed (use assms in \<open>auto simp: note_session_def intro: good_Some\<close>)

lemma ssl_mark_good:
  assumes "view_ok M m" "ds_flow m \<noteq> None"
  shows "good M m (ssl_mark_and_payload_search_for_other_protocols M m)"
proof -
  have n: "\<exists>b. do { x \<leftarrow> ssl_name_at M m a; Some (x \<noteq> None) } = Some b" if "a < unat (plen m) - 20" for a
    using ssl_name_at_total [OF assms(1) that] by auto
  have x: "good M m (ssl_name_at M m a \<bind> f)" if "a < unat (plen m) - 20" "\<And>x. good M m (f x)" for a f
    using ssl_name_at_total [OF assms(1) that(1)] that(2) by auto
  show ?thesis
    unfolding ssl_mark_and_payload_search_for_other_protocols_def using assms
    by (intro x contract_rules n note_session_good) auto
qed

subsection \<open>Records\<close>

text \<open>A record at offset \<open>t\<close>: too long, or ending with the packet, or followed by what \<open>k\<close> accepts.\<close>

definition ssl_record :: "mem \<Rightarrow> detection_module \<Rightarrow> (u8 \<Rightarrow> bool) \<Rightarrow> (nat \<Rightarrow> bool option) \<Rightarrow> nat \<Rightarrow> bool option" where
  "ssl_record M m kind k t =
     allM [Some (t + 5 \<le> unat (plen m)), byte_is M (pay m + t) kind, byte_is M (pay m + (t + 1)) ((=) 0x03),
           do { x \<leftarrow> rd16be M (pay m + (t + 3));
                let t = t + (unat x + 5);
                anyM [Some (10000 < t), Some (unat (plen m) = t), k t] }]"

definition ipoque_search_sslv3_direction1 :: "mem \<Rightarrow> detection_module \<Rightarrow> bool option" where
  "ipoque_search_sslv3_direction1 M m =
     (let n = unat (plen m); handshake = (=) 0x16 in
      allM [Some (5 \<le> plen m), bytes_at M (pay m) [0x16, 0x03], byte_is M (pay m + 2) (\<lambda>x. x \<le> 0x02),
        anyM [Some (1300 \<le> plen m),
          do { x \<leftarrow> rd16be M (pay m + 3);
               let t = unat x + 5;
               anyM [Some (n = t \<or> t < n \<and> 500 < n),
                 allM [Some (n < t \<and> t < 5000 \<and> 9 < n),
                       do { c \<leftarrow> rd16be M (pay m + 7);
                            allM [Some (unat c + 9 < n), byte_is M (pay m + (unat c + 9)) ((=) 0x0b)] }],
                 ssl_record M m (\<lambda>x. x = 0x14 \<or> x = 0x16)
                   (ssl_record M m handshake (ssl_record M m handshake (\<lambda>t. Some False))) t] }]])"

definition dir_counter_is :: "detection_module \<Rightarrow> (u16 \<Rightarrow> bool) \<Rightarrow> bool option" where
  "dir_counter_is m P = do { fl \<leftarrow> ds_flow m; Some (P (dir_get (pk_packet_direction (ds_packet m)) (fl_packet_direction_counter fl))) }"

definition ssl_client_hello :: "mem \<Rightarrow> detection_module \<Rightarrow> bool option" where
  "ssl_client_hello M m =
     anyM [allM [bytes_at M (pay m + 2) [0x01, 0x03], byte_is M (pay m + 4) (\<lambda>x. x \<le> 0x02),
                 byte_is M (pay m + 1) (\<lambda>x. unat (plen m) - unat x = 2)],
           allM [bytes_at M (pay m) [0x16, 0x03], byte_is M (pay m + 2) (\<lambda>x. x \<le> 0x02),
                 half_is M (pay m + 3) (\<lambda>x. int (unat (plen m)) - int (unat x) = 5)]]"

definition ipoque_search_ssl_tcp :: "mem \<Rightarrow> detection_module \<Rightarrow> detection_module option" where
  "ipoque_search_ssl_tcp M m =
     do { stage \<leftarrow> get_stage ''ssl_stage'' m;
          branch (allM [Some (40 < plen m), Some (stage = 0), ssl_client_hello M m]) (set_stage ''ssl_stage'' (1 + dirn m) m)
         (branch (allM [Some (40 < plen m), Some (stage = 1 + dirn m), dir_counter_is m (\<lambda>c. c < 5)]) (Some m)
         (branch (allM [Some (40 < plen m), Some (stage = 2 - dirn m)])
            (branch (anyM [allM [bytes_at M (pay m + 2) [0x01, 0x03], byte_is M (pay m + 4) (\<lambda>x. x \<le> 0x02),
                                 byte_is M (pay m + 1) (\<lambda>x. unat x \<le> unat (plen m) - 2)],
                           ipoque_search_sslv3_direction1 M m])
               (ssl_mark_and_payload_search_for_other_protocols M m)
               (branch (dir_counter_is m (\<lambda>c. c < 5)) (Some m) (exclude IPOQUE_PROTOCOL_SSL m)))
            (exclude IPOQUE_PROTOCOL_SSL m))) }"

lemma ssl_record_total:
  assumes "view_ok M m" "\<And>t. \<exists>b. k t = Some b"
  shows "\<exists>b. ssl_record M m kind k t = Some b"
  unfolding ssl_record_def Let_def using assms
  by (intro condition_rules pay_readable) simp_all

lemma sslv3_direction1_total:
  assumes "view_ok M m"
  shows "\<exists>b. ipoque_search_sslv3_direction1 M m = Some b"
  unfolding ipoque_search_sslv3_direction1_def Let_def using assms
  by (intro condition_rules pay_readable ssl_record_total) (simp_all add: value_simps del: allM.simps anyM.simps)

lemma dir_counter_total: "ds_flow m \<noteq> None \<Longrightarrow> \<exists>b. dir_counter_is m P = Some b"
  by (auto simp: dir_counter_is_def)

lemma ssl_good:
  assumes "view_ok M m" "ds_flow m \<noteq> None"
  shows "good M m (ipoque_search_ssl_tcp M m)"
  unfolding ipoque_search_ssl_tcp_def ssl_client_hello_def using assms
  by (intro contract_rules condition_rules ssl_mark_good sslv3_direction1_total dir_counter_total)
     (simp_all add: value_simps del: allM.simps anyM.simps)

end
