(* ===== verification/Ipq_Http.thy ===== *)
theory Ipq_Http
  imports Ipq_Command
begin

text \<open>
  The HTTP dissector of \<^verbatim>\<open>http.c\<close>: the request line, the content types, agents and hosts that turn a flow into that of
  another protocol, the first bytes of a response, and the stages of a connection.
\<close>

subsection \<open>Statements\<close>

definition int_http_add_connection :: "nat \<Rightarrow> detection_module \<Rightarrow> detection_module option" where
  "int_http_add_connection proto m =
     do { m \<leftarrow> set_stage ''http_detected'' 1 m;
          m \<leftarrow> set_stage ''server_direction'' (dirn m) m;
          ipoque_int_add_connection proto m }"

definition enabled :: "nat \<Rightarrow> detection_module \<Rightarrow> bool" where
  "enabled proto m \<longleftrightarrow> IPOQUE_COMPARE_PROTOCOL_TO_BITMASK (detection_bitmask m) proto \<noteq> 0"

text \<open>A line that is at least \<open>n\<close> long and starts with \<open>s\<close>, for one of several \<open>(n, s)\<close>.\<close>

definition line_is :: "mem \<Rightarrow> one_line \<Rightarrow> (nat \<times> string) list \<Rightarrow> bool option" where
  "line_is M l ps = anyM (List.map (\<lambda>(n, s). allM [Some (n \<le> unat (ol_len l)), mem_eq M (ol_ptr l) s]) ps)"

definition http_line :: "mem \<Rightarrow> one_line \<Rightarrow> nat \<Rightarrow> (nat \<times> string) list \<Rightarrow> detection_module \<Rightarrow> detection_module option" where
  "http_line M l proto ps m =
     (if enabled proto m then branch (line_is M l ps) (int_http_add_connection proto m) (Some m) else Some m)"

definition mpeg_types :: "(nat \<times> string) list" where
  "mpeg_types = [(10, ''audio/mpeg''), (12, ''audio/x-mpeg''), (11, ''audio/mpeg3''), (11, ''audio/mp4a''), (10, ''video/mpeg''),
     (9, ''video/nsv''), (13, ''misc/ultravox'')]"

definition ogg_types :: "(nat \<times> string) list" where
  "ogg_types = [(9, ''audio/ogg''), (9, ''video/ogg''), (15, ''application/ogg'')]"

definition flash_types :: "(nat \<times> string) list" where
  "flash_types = [(9, ''video/flv''), (11, ''video/x-flv''), (17, ''application/x-fcs''), (29, ''application/x-shockwave-flash''),
     (11, ''video/flash''), (15, ''application/flv''), (28, ''flv-application/octet-stream'')]"

definition qt_types :: "(nat \<times> string) list" where
  "qt_types = [(15, ''video/quicktime''), (9, ''video/mp4''), (11, ''video/x-m4v'')]"

definition realmedia_types :: "(nat \<times> string) list" where
  "realmedia_types = [(20, ''audio/x-pn-realaudio''), (28, ''application/vnd.rn-realmedia'')]"

definition windowsmedia_types :: "(nat \<times> string) list" where
  "windowsmedia_types = [(14, ''video/x-ms-wmv''), (14, ''video/x-ms-asf''), (14, ''video/x-ms-asx''), (24, ''video/x-msvideo''),
     (24, ''audio/x-wav''), (32, ''application/vnd.ms.wms-hdr.asfv1'')]"

definition move_parse_packet_contentline :: "mem \<Rightarrow> one_line \<Rightarrow> detection_module \<Rightarrow> detection_module option" where
  "move_parse_packet_contentline M l m =
     (if enabled IPOQUE_PROTOCOL_MOVE m
      then branch (allM [Some (ol_len l = 15), anyM [mem_eq M (ol_ptr l) ''application/qmx'', mem_eq M (ol_ptr l) ''application/qss'']])
             (int_http_add_connection IPOQUE_PROTOCOL_MOVE m) (Some m)
      else Some m)"

text \<open>The end of the host name is compared before its length is known; the bytes before it belong to the same line.\<close>

definition qq_parse_packet_URL_and_hostname :: "mem \<Rightarrow> packet_struct \<Rightarrow> detection_module \<Rightarrow> detection_module option" where
  "qq_parse_packet_URL_and_hostname M pk m =
     (let h = pk_host_line pk in
      if enabled IPOQUE_PROTOCOL_QQ m
      then branch (allM [Some (100 \<le> pk_payload_packet_len pk), mem_eq M (ol_ptr h + unat (ol_len h) - 6) ''qq.com'',
             anyM (List.map (\<lambda>l. anyM [line_starts M l 22 ''QzoneAuth: zzpaneluin='', line_starts M l 19 ''Cookie: zzpanelkey='',
                                       line_starts M l 13 ''Cookie: adid=''])
               (take (unat (pk_parsed_lines pk)) (pk_line pk)))])
             (int_http_add_connection IPOQUE_PROTOCOL_QQ m) (Some m)
      else Some m)"

subsection \<open>The lines of a request or response\<close>

text \<open>The lines are those of the packet at the start: marking a flow leaves them alone.\<close>

definition check_content_line :: "mem \<Rightarrow> packet_struct \<Rightarrow> detection_module \<Rightarrow> detection_module option" where
  "check_content_line M pk m =
     (let l = pk_content_line pk in
      if ol_ptr l \<noteq> NULL \<and> ol_len l \<noteq> 0
      then do { m \<leftarrow> http_line M l IPOQUE_PROTOCOL_MPEG mpeg_types m;
                m \<leftarrow> http_line M l IPOQUE_PROTOCOL_FLASH flash_types m;
                m \<leftarrow> http_line M l IPOQUE_PROTOCOL_QUICKTIME qt_types m;
                m \<leftarrow> http_line M l IPOQUE_PROTOCOL_REALMEDIA realmedia_types m;
                m \<leftarrow> http_line M l IPOQUE_PROTOCOL_WINDOWSMEDIA windowsmedia_types m;
                m \<leftarrow> http_line M l IPOQUE_PROTOCOL_MMS [(24, ''application/x-mms-framed'')] m;
                m \<leftarrow> http_line M l IPOQUE_PROTOCOL_OFF [(4, ''off/'')] m;
                m \<leftarrow> http_line M l IPOQUE_PROTOCOL_OGG ogg_types m;
                move_parse_packet_contentline M l m }
      else Some m)"

definition check_content_type_and_change_protocol :: "mem \<Rightarrow> detection_module \<Rightarrow> detection_module option" where
  "check_content_type_and_change_protocol M m =
     (let pk = ds_packet m; agent = pk_user_agent_line pk in do {
        m \<leftarrow> check_content_line M pk m;
        m \<leftarrow> (if ol_ptr agent \<noteq> NULL \<and> ol_len agent \<noteq> 0
              then do { m \<leftarrow> http_line M agent IPOQUE_PROTOCOL_XBOX [(17, ''Xbox Live Client/'')] m;
                        http_line M agent IPOQUE_PROTOCOL_WINDOWSMEDIA [(9, ''NSPlayer/'')] m }
              else Some m);
        m \<leftarrow> (if ol_ptr (pk_host_line pk) \<noteq> NULL then qq_parse_packet_URL_and_hostname M pk m else Some m);
        m \<leftarrow> (if ol_ptr (pk_accept_line pk) \<noteq> NULL
              then http_line M (pk_accept_line pk) IPOQUE_PROTOCOL_RTSP [(28, ''application/x-rtsp-tunnelled'')] m
              else Some m);
        branch (anyM (List.map (\<lambda>l. line_starts M l 11 ''Icy-MetaData'') (take (unat (pk_parsed_lines pk)) (pk_line pk))))
          (int_http_add_connection IPOQUE_PROTOCOL_MPEG m) (Some m) })"

subsection \<open>The first bytes of a response\<close>

text \<open>The test of the length leaves room for nine bytes from two behind the empty line, but the ninth is read: with \<^verbatim>\<open>FLASH\<close>
  enabled a response may be read one byte too far.\<close>

definition flash_check_http_payload :: "mem \<Rightarrow> detection_module \<Rightarrow> detection_module option" where
  "flash_check_http_payload M m =
     (let e = unat (pk_empty_line_position (ds_packet m)) in
      branch (allM [Some (pk_empty_line_position_set (ds_packet m)), Some (e + 10 \<le> unat (plen m)), mem_eq M (pay m + (e + 2)) ''FLV'',
          byte_is M (pay m + (e + 5)) ((=) 0x01), byte_is M (pay m + (e + 6)) (\<lambda>x. x \<in> {0x01, 0x04, 0x05}),
          bytes_at M (pay m + (e + 7)) [0x00, 0x00, 0x00, 0x09]])
        (int_http_add_connection IPOQUE_PROTOCOL_FLASH m) (Some m))"

definition avi_check_http_payload :: "mem \<Rightarrow> detection_module \<Rightarrow> detection_module option" where
  "avi_check_http_payload M m =
     (let e = unat (pk_empty_line_position (ds_packet m)); found = pk_empty_line_position_set (ds_packet m);
          riff = (\<lambda>k. [mem_eq M (pay m + k) ''RIFF'', mem_eq M (pay m + (k + 8)) ''AVI LIST'']) in do {
        seen \<leftarrow> get_stage ''http_empty_line_seen'' m;
        if \<not> found \<and> seen = 0 then Some m
        else if found \<and> unat (plen m) < e + 20 \<and> seen = 0 then set_stage ''http_empty_line_seen'' 1 m
        else if seen = 1
        then do { m \<leftarrow> branch (allM (Some (20 < plen m) # riff 0)) (int_http_add_connection IPOQUE_PROTOCOL_AVI m) (Some m);
                  set_stage ''http_empty_line_seen'' 0 m }
        else if found
        then branch (allM (Some (e + 2 + 16 \<le> unat (plen m)) # riff (e + 2))) (int_http_add_connection IPOQUE_PROTOCOL_AVI m) (Some m)
        else Some m })"

definition check_http_payload :: "mem \<Rightarrow> detection_module \<Rightarrow> detection_module option" where
  "check_http_payload M m =
     do { m \<leftarrow> (if enabled IPOQUE_PROTOCOL_FLASH m then flash_check_http_payload M m else Some m);
          if enabled IPOQUE_PROTOCOL_AVI m then avi_check_http_payload M m else Some m }"

subsection \<open>The stages of a connection\<close>

definition http_request_url_offset :: "mem \<Rightarrow> detection_module \<Rightarrow> nat option" where
  "http_request_url_offset M m =
     (if plen m < 10 then Some 0
      else select_first [(mem_eq M (pay m) ''GET '', 4), (mem_eq M (pay m) ''POST '', 5), (mem_eq M (pay m) ''OPTIONS '', 8),
        (mem_eq M (pay m) ''HEAD '', 5), (mem_eq M (pay m) ''PUT '', 4), (mem_eq M (pay m) ''DELETE '', 7),
        (mem_eq M (pay m) ''CONNECT '', 8)] 0)"

fun exclude_all :: "nat list \<Rightarrow> detection_module \<Rightarrow> detection_module option" where
  "exclude_all [] m = Some m"
| "exclude_all (p # ps) m = do { m \<leftarrow> exclude p m; exclude_all ps m }"

definition http_bitmask_exclude :: "detection_module \<Rightarrow> detection_module option" where
  "http_bitmask_exclude = exclude_all [IPOQUE_PROTOCOL_HTTP, IPOQUE_PROTOCOL_MPEG, IPOQUE_PROTOCOL_QUICKTIME,
     IPOQUE_PROTOCOL_WINDOWSMEDIA, IPOQUE_PROTOCOL_REALMEDIA, IPOQUE_PROTOCOL_AVI, IPOQUE_PROTOCOL_OGG, IPOQUE_PROTOCOL_MOVE,
     IPOQUE_PROTOCOL_OFF, IPOQUE_PROTOCOL_XBOX]"

text \<open>The first line ends with the version, whose last character is not compared; \<open>k\<close> is the least length.\<close>

definition http_version :: "mem \<Rightarrow> nat \<Rightarrow> detection_module \<Rightarrow> bool option" where
  "http_version M k m =
     do { l \<leftarrow> get_line (pk_line (ds_packet m)) 0;
          allM [Some (k \<le> unat (ol_len l)), mem_eq M (ol_ptr l + (unat (ol_len l) - 9)) '' HTTP/1.''] }"

definition set_url :: "nat \<Rightarrow> detection_module \<Rightarrow> detection_module option" where
  "set_url k m =
     do { l \<leftarrow> get_line (pk_line (ds_packet m)) 0;
          Some (m\<lparr>ds_packet := (ds_packet m)\<lparr>pk_http_url_name := \<lparr>ol_ptr = pay m + k, ol_len = ol_len l - of_nat (k + 9)\<rparr>\<rparr>\<rparr>) }"

definition http_request :: "mem \<Rightarrow> nat \<Rightarrow> detection_module \<Rightarrow> detection_module option" where
  "http_request M k m = do { m \<leftarrow> set_url k m; int_http_add_connection IPOQUE_PROTOCOL_HTTP m }"

definition after_host :: "detection_module \<Rightarrow> detection_module option" where
  "after_host m = set_stage ''http_stage'' (if ol_ptr (pk_host_line (ds_packet m)) \<noteq> NULL then 2 else 1) m"

definition http_first :: "mem \<Rightarrow> detection_module \<Rightarrow> detection_module option" where
  "http_first M m =
     do { k \<leftarrow> http_request_url_offset M m;
          if k = 0 then http_bitmask_exclude m
          else do { m \<leftarrow> parse_lines M m;
                    if pk_parsed_lines (ds_packet m) \<le> 1 then set_stage ''http_stage'' 1 m
                    else branch (http_version M (9 + k) m)
                      (do { m \<leftarrow> http_request M k m; m \<leftarrow> check_content_type_and_change_protocol M m; after_host m })
                      (http_bitmask_exclude m) } }"

definition http_second :: "mem \<Rightarrow> detection_module \<Rightarrow> detection_module option" where
  "http_second M m =
     do { m \<leftarrow> parse_lines M m;
          if pk_parsed_lines (ds_packet m) \<le> 1 then http_bitmask_exclude m
          else branch (http_version M 9 m)
            (do { m \<leftarrow> int_http_add_connection IPOQUE_PROTOCOL_HTTP m; m \<leftarrow> check_content_type_and_change_protocol M m;
                  set_stage ''http_stage'' 2 m })
            (http_bitmask_exclude m) }"

definition http_next :: "mem \<Rightarrow> detection_module \<Rightarrow> detection_module option" where
  "http_next M m =
     do { m \<leftarrow> parse_lines M m;
          k \<leftarrow> http_request_url_offset M m;
          m \<leftarrow> branch (allM [Some (k \<noteq> 0), Some (1 < pk_parsed_lines (ds_packet m)), http_version M (9 + k) m])
                (http_request M k m) (Some m);
          m \<leftarrow> check_content_type_and_change_protocol M m;
          after_host m }"

definition http_response :: "mem \<Rightarrow> nat \<Rightarrow> detection_module \<Rightarrow> detection_module option" where
  "http_response M stage m =
     do { m \<leftarrow> parse_lines M m;
          m \<leftarrow> check_content_type_and_change_protocol M m;
          seen \<leftarrow> get_stage ''http_empty_line_seen'' m;
          m \<leftarrow> (if pk_empty_line_position_set (ds_packet m) \<or> seen = 1 then check_http_payload M m else Some m);
          set_stage ''http_stage'' (if stage = 2 then 3 else 0) m }"

definition http_parse_detection :: "mem \<Rightarrow> bool \<Rightarrow> nat \<Rightarrow> detection_module \<Rightarrow> detection_module option" where
  "http_parse_detection M client stage m =
     (if client
      then if stage = 0 \<or> stage = 3 then http_next M m
        else if stage = 1
        then do { m \<leftarrow> parse_lines M m; m \<leftarrow> check_content_type_and_change_protocol M m; set_stage ''http_stage'' 2 m }
        else Some m
      else if 0 < stage then http_response M stage m else Some m)"

definition ipoque_search_http_tcp :: "mem \<Rightarrow> detection_module \<Rightarrow> detection_module option" where
  "ipoque_search_http_tcp M m =
     do { setup \<leftarrow> get_stage ''http_setup_dir'' m;
          m \<leftarrow> (if setup = 0 then set_stage ''http_setup_dir'' (1 + dirn m) m else Some m);
          setup \<leftarrow> get_stage ''http_setup_dir'' m;
          stage \<leftarrow> get_stage ''http_stage'' m;
          let client = (setup = 1 + dirn m);
          if IPOQUE_COMPARE_PROTOCOL_TO_BITMASK (generic_http_packet_bitmask m) (unat (pk_detected_protocol (ds_packet m))) \<noteq> 0
          then http_parse_detection M client stage m
          else if client \<and> stage = 0 then http_first M m
          else if client \<and> stage = 1 then http_second M m
          else http_bitmask_exclude m }"

subsection \<open>The contract\<close>

text \<open>Marking a flow as HTTP leaves the packet's lines alone.\<close>

lemma int_http_add_good:
  "view_ok M m \<Longrightarrow> ds_flow m \<noteq> None \<Longrightarrow> p < 128 \<Longrightarrow> good M m (int_http_add_connection p m)"
  unfolding int_http_add_connection_def by (intro contract_rules) simp_all

lemma line_is_total:
  assumes "readable M (ol_ptr l) (unat (ol_len l))" "list_all (\<lambda>(n, s). length s \<le> n) ps"
  shows "\<exists>b. line_is M l ps = Some b"
  unfolding line_is_def using assms
  by (auto simp: list_all_iff split: prod.split intro!: cond_total mem_eq_total intro: readable_mono)

lemma http_line_good:
  assumes "view_ok M m" "ds_flow m \<noteq> None" "p < 128" "readable M (ol_ptr l) (unat (ol_len l))"
    and "list_all (\<lambda>(n, s). length s \<le> n) ps"
  shows "good M m (http_line M l p ps m)"
  unfolding http_line_def using assms by (intro contract_rules line_is_total int_http_add_good)

lemmas types_defs = mpeg_types_def ogg_types_def flash_types_def qt_types_def realmedia_types_def windowsmedia_types_def

lemma check_content_line_good:
  assumes "view_ok M m" "ds_flow m \<noteq> None"
    and "ol_ptr (pk_content_line pk) \<noteq> NULL \<Longrightarrow> readable M (ol_ptr (pk_content_line pk)) (unat (ol_len (pk_content_line pk)))"
  shows "good M m (check_content_line M pk m)"
  unfolding check_content_line_def move_parse_packet_contentline_def Let_def using assms
  by (intro contract_rules condition_rules line_total http_line_good int_http_add_good)
     (simp_all add: value_simps types_defs del: allM.simps anyM.simps)

lemma host_readable:
  assumes "view_ok M m" "pk_packet_lines_parsed_complete (ds_packet m)" "ol_ptr (pk_host_line (ds_packet m)) \<noteq> NULL"
  shows "readable M (ol_ptr (pk_host_line (ds_packet m)) + unat (ol_len (pk_host_line (ds_packet m))) - 6) 6"
  using assms unfolding view_ok_def packet_ok_def http_ok_def host_ok_def by blast

lemma check_content_type_good:
  assumes "view_ok M m" "ds_flow m \<noteq> None" "pk_packet_lines_parsed_complete (ds_packet m)"
  shows "good M m (check_content_type_and_change_protocol M m)"
proof -
  note lines = parsed_line_readable(1) [OF assms(1,3)] noted_line_readable [OF assms(1,3)]
  have "readable M (ol_ptr (pk_host_line (ds_packet m)) + unat (ol_len (pk_host_line (ds_packet m))) - 6) (length ''qq.com'')"
    if "ol_ptr (pk_host_line (ds_packet m)) \<noteq> NULL"
    using host_readable [OF assms(1,3) that] by (simp add: numeral_eq_Suc)
  note host = mem_eq_total [OF this]
  show ?thesis
    unfolding check_content_type_and_change_protocol_def qq_parse_packet_URL_and_hostname_def Let_def using assms lines
    by (intro contract_rules host condition_rules line_starts_total http_line_good int_http_add_good check_content_line_good)
       (simp_all add: value_simps del: allM.simps anyM.simps)
qed

lemma check_http_payload_good:
  assumes "view_ok M m" "ds_flow m \<noteq> None" "\<not> enabled IPOQUE_PROTOCOL_FLASH m"
  shows "good M m (check_http_payload M m)"
  unfolding check_http_payload_def if_not_P [OF assms(3)] bind.bind_lunit avi_check_http_payload_def Let_def using assms(1,2)
  by (intro contract_rules condition_rules int_http_add_good) (simp_all add: value_simps del: allM.simps anyM.simps)

text \<open>What is left alone by the statements between the parse of the lines and their use.\<close>

lemma set_url_then:
  assumes "view_ok M m" "pk_packet_lines_parsed_complete (ds_packet m)" "http_version M (9 + k) m = Some True"
    and "0 < unat (pk_parsed_lines (ds_packet m))" "k \<le> unat (plen m)"
    and "\<And>m'. view_ok M m' \<Longrightarrow> pk_packet_lines_parsed_complete (ds_packet m') \<Longrightarrow> (ds_flow m' = None \<longleftrightarrow> ds_flow m = None)
      \<Longrightarrow> same_windows (ds_packet m) (ds_packet m') \<Longrightarrow> good M m' (f m')"
  shows "good M m (set_url k m \<bind> f)"
proof -
  let ?pk = "ds_packet m"
  have ok: "packet_ok M ?pk" using assms(1) by (simp add: view_ok_def)
  have lines: "unat (pk_parsed_lines ?pk) \<le> length (pk_line ?pk)" using ok assms(2) by (simp add: packet_ok_def lines_ok_def)
  then obtain l where l: "get_line (pk_line ?pk) 0 = Some l" "l \<in> set (lines_of m)"
    using assms(4) by (cases "pk_line ?pk"; cases "unat (pk_parsed_lines ?pk)") (auto simp: get_line_def)
  have "9 + k \<le> unat (ol_len l)" using assms(3) l(1) by (auto simp: http_version_def allM_True simp del: allM.simps)
  then have len: "unat (ol_len l - of_nat (k + 9)) = unat (ol_len l) - (k + 9)" by (intro u16_minus_nat) simp
  moreover have "unat (ol_len l) \<le> unat (plen m)" using parsed_line_short [OF assms(1,2) l(2)] by (simp add: word_le_nat_alt)
  ultimately have "readable M (pay m + k) (unat (ol_len l - of_nat (k + 9)))"
    by (intro pay_readable [OF assms(1)]) (use assms(5) in simp)
  define url where "url = \<lparr>ol_ptr = pay m + k, ol_len = ol_len l - of_nat (k + 9)\<rparr>"
  define pk where "pk = ?pk\<lparr>pk_http_url_name := url\<rparr>"
  have "line_ok M url" using \<open>readable M (pay m + k) _\<close> by (simp add: url_def line_ok_def)
  then have "packet_ok M pk"
    using ok by (auto simp: pk_def packet_ok_def windows_ok_def arrays_200_def http_ok_def lines_ok_def unix_ok_def)
  moreover have q: "quiet ?pk pk" by (simp add: pk_def quiet_def same_windows_def)
  ultimately have g: "good M m (Some (m\<lparr>ds_packet := pk\<rparr>))" by (intro packet_update_good [OF assms(1)])
  have "set_url k m = Some (m\<lparr>ds_packet := pk\<rparr>)" by (simp add: set_url_def l(1) pk_def url_def)
  then show ?thesis
    by (simp only: bind.bind_lunit) (rule good_bind_Some [OF g], rule assms(6), use assms(2) q in \<open>simp_all add: pk_def quiet_def\<close>)
qed

lemma http_add_lines:
  "int_http_add_connection p m = Some m' \<Longrightarrow> pk_packet_lines_parsed_complete (ds_packet m')
    = pk_packet_lines_parsed_complete (ds_packet m)"
  by (auto simp: int_http_add_connection_def ipoque_int_add_connection_def set_stage_def set_detected_def mark_ids_def
      bind_eq_Some_conv split: if_splits)

lemma http_add_then:
  assumes "view_ok M m" "ds_flow m \<noteq> None" "p < 128" "pk_packet_lines_parsed_complete (ds_packet m)"
    and "\<And>m'. view_ok M m' \<Longrightarrow> pk_packet_lines_parsed_complete (ds_packet m') \<Longrightarrow> (ds_flow m' = None \<longleftrightarrow> ds_flow m = None)
      \<Longrightarrow> same_windows (ds_packet m) (ds_packet m') \<Longrightarrow> good M m' (f m')"
  shows "good M m (int_http_add_connection p m \<bind> f)"
proof -
  obtain m' where m': "int_http_add_connection p m = Some m'" "view_ok M m'" "step_ok m m'"
    using int_http_add_good [OF assms(1-3)] by (auto simp: good_def)
  have "good M m (Some m')" using m' by (simp add: good_def)
  then show ?thesis
    unfolding m'(1) bind.bind_lunit
    by (rule good_bind_Some) (rule assms(5), use m' assms(4) http_add_lines [OF m'(1)] in \<open>simp_all add: step_ok_def\<close>)
qed

lemma http_request_then:
  assumes "view_ok M m" "ds_flow m \<noteq> None" "pk_packet_lines_parsed_complete (ds_packet m)"
    and "http_version M (9 + k) m = Some True" "0 < unat (pk_parsed_lines (ds_packet m))" "k \<le> unat (plen m)"
    and "\<And>m'. view_ok M m' \<Longrightarrow> pk_packet_lines_parsed_complete (ds_packet m') \<Longrightarrow> (ds_flow m' = None \<longleftrightarrow> ds_flow m = None)
      \<Longrightarrow> same_windows (ds_packet m) (ds_packet m') \<Longrightarrow> good M m' (f m')"
  shows "good M m (http_request M k m \<bind> f)"
  unfolding http_request_def Option.bind_assoc using assms
  by (intro set_url_then http_add_then) (simp_all add: same_windows_def)

lemma http_version_total:
  assumes "view_ok M m" "pk_packet_lines_parsed_complete (ds_packet m)" "0 < unat (pk_parsed_lines (ds_packet m))" "9 \<le> k"
  shows "\<exists>b. http_version M k m = Some b"
  unfolding http_version_def using assms
  by (intro condition_rules line_total) (simp_all add: value_simps del: allM.simps anyM.simps)

text \<open>The offset of the URL lies in the packet.\<close>

lemma url_offset:
  assumes "view_ok M m"
  obtains k where "http_request_url_offset M m = Some k" "k \<le> 8" "k \<noteq> 0 \<longrightarrow> 10 \<le> unat (plen m)"
proof -
  have "\<exists>k. http_request_url_offset M m = Some k"
    unfolding http_request_url_offset_def using assms
    by (intro condition_rules) (simp_all add: value_simps del: allM.simps anyM.simps)
  then obtain k where k: "http_request_url_offset M m = Some k" ..
  then have "k \<le> 8" "k \<noteq> 0 \<longrightarrow> 10 \<le> unat (plen m)"
    by (auto simp: http_request_url_offset_def bind_eq_Some_conv word_less_nat_alt split: if_splits)
  with k show thesis by (intro that) auto
qed

lemma exclude_all_good:
  "view_ok M m \<Longrightarrow> ds_flow m \<noteq> None \<Longrightarrow> list_all (\<lambda>p. p < 128) ps \<Longrightarrow> good M m (exclude_all ps m)"
proof (induction ps arbitrary: m)
  case (Cons p ps)
  then show ?case by (auto intro!: good_then exclude_good)
qed (simp add: good_Some)

lemma http_exclude_good: "view_ok M m \<Longrightarrow> ds_flow m \<noteq> None \<Longrightarrow> good M m (http_bitmask_exclude m)"
  unfolding http_bitmask_exclude_def by (rule exclude_all_good) simp_all

lemma after_host_good: "view_ok M m \<Longrightarrow> ds_flow m \<noteq> None \<Longrightarrow> good M m (after_host m)"
  unfolding after_host_def by (intro contract_rules)

lemma http_first_good:
  assumes "view_ok M m" "ds_flow m \<noteq> None"
  shows "good M m (http_first M m)"
proof -
  obtain k where k: "http_request_url_offset M m = Some k" "k \<le> 8" "k \<noteq> 0 \<longrightarrow> 10 \<le> unat (plen m)"
    by (rule url_offset [OF assms(1)])
  show ?thesis
    unfolding http_first_def k(1) bind.bind_lunit using assms k(2,3)
    by (intro http_request_then contract_rules http_version_total http_exclude_good check_content_type_good after_host_good)
       (simp_all add: value_simps)
qed

lemma http_second_good:
  assumes "view_ok M m" "ds_flow m \<noteq> None"
  shows "good M m (http_second M m)"
  unfolding http_second_def using assms
  by (intro http_add_then contract_rules http_version_total http_exclude_good check_content_type_good) (simp_all add: value_simps)

lemma url_offset_good:
  assumes "view_ok M m" "\<And>k. k \<le> 8 \<Longrightarrow> k \<noteq> 0 \<longrightarrow> 10 \<le> unat (plen m) \<Longrightarrow> good M m (f k)"
  shows "good M m (http_request_url_offset M m \<bind> f)"
  by (rule url_offset [OF assms(1)]) (use assms(2) in simp)

lemma http_next_good:
  assumes "view_ok M m" "ds_flow m \<noteq> None"
  shows "good M m (http_next M m)"
  unfolding http_next_def branch_bind bind.bind_lunit using assms
  by (intro url_offset_good http_request_then contract_rules condition_rules http_version_total check_content_type_good
      after_host_good)
     (auto simp: value_simps simp del: allM.simps anyM.simps)

lemma http_response_good:
  assumes "view_ok M m" "ds_flow m \<noteq> None" "\<not> enabled IPOQUE_PROTOCOL_FLASH m"
  shows "good M m (http_response M stage m)"
  unfolding http_response_def using assms
  by (intro contract_rules check_content_type_good check_http_payload_good) (simp_all add: value_simps enabled_def)

lemma http_parse_detection_good:
  assumes "view_ok M m" "ds_flow m \<noteq> None" "\<not> enabled IPOQUE_PROTOCOL_FLASH m"
  shows "good M m (http_parse_detection M client stage m)"
  unfolding http_parse_detection_def using assms
  by (intro http_next_good http_response_good contract_rules check_content_type_good) (simp_all add: value_simps)

lemma http_good:
  assumes "view_ok M m" "ds_flow m \<noteq> None" "\<not> enabled IPOQUE_PROTOCOL_FLASH m"
  shows "good M m (ipoque_search_http_tcp M m)"
  unfolding ipoque_search_http_tcp_def Let_def using assms
  by (intro http_parse_detection_good http_first_good http_second_good http_exclude_good contract_rules)
     (simp_all add: value_simps enabled_def)

end
