(* ===== verification/Ipq_Chat.thy ===== *)
theory Ipq_Chat
  imports Ipq_Command
begin

text \<open>
  Messengers: Popo (\<^verbatim>\<open>popo.c\<close>) and QQ (\<^verbatim>\<open>qq.c\<close>).
\<close>

subsection \<open>Popo\<close>

definition popo_address :: "mem \<Rightarrow> detection_module \<Rightarrow> bool option" where
  "popo_address M m =
     any_index (\<lambda>i. allM [byte_is M (pay m + i) ((=) 0x40),
         anyM [mem_eq M (pay m + (i + 1)) ''163.com'',
               allM [Some (i + 13 \<le> unat (plen m)), mem_eq M (pay m + (i + 1)) ''popo.163.com'']]])
       14 (min 50 (unat (plen m) - 8))"

text \<open>The servers are at 220.181.28.220 to 220.181.28.238.\<close>

definition ipoque_search_popo_tcp_udp :: "mem \<Rightarrow> detection_module \<Rightarrow> detection_module option" where
  "ipoque_search_popo_tcp_udp M m =
     (let add = ipoque_int_add_connection IPOQUE_PROTOCOL_POPO m;
          tcp = Some (pk_tcp (ds_packet m) \<noteq> NULL) in
      branch (allM [tcp, Some (plen m = 20), word_is M (pay m) ((=) 0x0c000000), word_is M (pay m + 4) ((=) 0x01010000),
                word_is M (pay m + 8) ((=) 0x06000000), word_is M (pay m + 12) ((=) 0), word_is M (pay m + 16) ((=) 0)])
        add
        (branch (allM [tcp, either_has IPOQUE_PROTOCOL_POPO m, ip_addr_is M m 16 (\<lambda>a. 0xdcb51cdc \<le> a \<and> a \<le> 0xdcb51cee)])
           add
           (decide IPOQUE_PROTOCOL_POPO
              (allM [Some (13 < plen m), lword_is M (pay m) (\<lambda>x. unat x = unat (plen m)), lhalf_is M (pay m + 12) ((=) 0),
                     popo_address M m]) m)))"

lemma popo_good:
  assumes "view_ok M m" "ds_flow m \<noteq> None"
  shows "good M m (ipoque_search_popo_tcp_udp M m)"
  unfolding ipoque_search_popo_tcp_udp_def popo_address_def Let_def using assms
  by (intro contract_rules condition_rules) (auto simp: value_simps simp del: allM.simps anyM.simps)

subsection \<open>QQ\<close>

text \<open>A hit raises the stage (a field of four bits); the third hit detects the flow.\<close>

definition qq_hit :: "detection_module \<Rightarrow> detection_module option" where
  "qq_hit m =
     do { stage \<leftarrow> get_stage ''qq_stage'' m;
          m \<leftarrow> set_stage ''qq_stage'' ((stage + 1) mod 16) m;
          if (stage + 1) mod 16 = 3 then ipoque_int_add_connection IPOQUE_PROTOCOL_QQ m else Some m }"

definition last_is :: "mem \<Rightarrow> detection_module \<Rightarrow> (u8 \<Rightarrow> bool) \<Rightarrow> bool option" where
  "last_is M m P = byte_is M (pay m + (unat (plen m) - 1)) P"

definition len_byte :: "mem \<Rightarrow> detection_module \<Rightarrow> nat \<Rightarrow> bool option" where
  "len_byte M m k = byte_is M (pay m + k) (\<lambda>x. unat x = unat (plen m))"

definition p8000_patt_02 :: "u16 list" where
  "p8000_patt_02 = [0x1549, 0x1801, 0x0961, 0x1501, 0x0e35, 0x113f, 0x0b37, 0x1131, 0x163a]"

definition qq_datagram :: "mem \<Rightarrow> detection_module \<Rightarrow> bool option" where
  "qq_datagram M m =
     (let tag = (\<lambda>h b. allM [half_is M (pay m) ((=) h), byte_is M (pay m + 2) ((=) b)]) in
      anyM
       [allM [Some (plen m = 27), tag 0x0300 0x01],
        allM [Some (plen m = 84), anyM [tag 0x000e 0x35, tag 0x0015 0x01, tag 0x000b 0x37, tag 0x0015 0x49]],
        allM [Some (10 < plen m), anyM [tag 0x000b 0x37,
          allM [word_is M (pay m) ((=) 0x04163a00), last_is M m ((=) 0x03), len_byte M m 4]]]])"

definition qq_command :: "mem \<Rightarrow> detection_module \<Rightarrow> bool option" where
  "qq_command M m =
     (let short = Some (2 < plen m) in
      anyM
       [allM [short, byte_is M (pay m) ((=) 0x02), half_is M (pay m + 1) (\<lambda>x. x \<in> set p8000_patt_02), last_is M m ((=) 0x03)],
        allM [short, byte_is M (pay m) ((=) 0x04), half_is M (pay m + 1) (\<lambda>x. x \<in> {0x1549, 0x1801, 0x0961}), last_is M m ((=) 0x03)],
        allM [short, byte_is M (pay m) (\<lambda>x. x = 0x06 \<or> x = 0x02), half_is M (pay m + 1) ((=) 0x0100),
              last_is M m (\<lambda>x. x = 0x00 \<or> x = 0x03)],
        allM [short, byte_is M (pay m) ((=) 0x02), half_is M (pay m + 1) ((=) 0x1131), last_is M m ((=) 0x03)],
        allM [anyM [dest_is M (pk_udp (ds_packet m)) ((=) 9000), source_is M (pk_udp (ds_packet m)) ((=) 9000)],
              Some (3 < plen m), half_is M (pay m) ((=) 0x0202), half_is M (pay m + 2) ((=) (plen m))]])"

definition ipoque_search_qq_udp :: "mem \<Rightarrow> detection_module \<Rightarrow> detection_module option" where
  "ipoque_search_qq_udp M m =
     do { stage \<leftarrow> get_stage ''qq_stage'' m;
          branch (allM [Some (stage \<le> 3), anyM [qq_datagram M m, qq_command M m]]) (qq_hit m)
            (branch (allM [Some (stage \<noteq> 0), counter_is m (\<lambda>c. c \<le> 5)]) (Some m) (exclude IPOQUE_PROTOCOL_QQ m)) }"

definition qq_segment :: "mem \<Rightarrow> detection_module \<Rightarrow> bool option" where
  "qq_segment M m =
     (let n = plen m; len = (\<lambda>k. half_is M (pay m + k) ((=) n)); at = (\<lambda>k x. byte_is M (pay m + k) ((=) x));
          half = (\<lambda>k x. half_is M (pay m + k) ((=) x)); word = (\<lambda>k x. word_is M (pay m + k) ((=) x));
          final = last_is M m ((=) 0x03) in
      anyM
       [allM [Some (4 < n), len 0, half 2 0x0212, at 4 0x0b],
        allM [Some (9 < n), word 0 0x04154900, lhalf_is M (pay m + 4) ((=) n), final],
        allM [Some (9 < n), word 0 0x040e3500, lhalf_is M (pay m + 4) ((=) n), at 9 0x33, final],
        allM [Some (9 < n), word 0 0x040e0215, lhalf_is M (pay m + 4) ((=) n), at 9 0x33, final],
        allM [Some (6 < n), word 2 0x020d5500, len 0, final],
        allM [Some (6 < n), half 0 0x0418, at 2 0x01, len 3, final],
        allM [Some (6 < n), half 0 0x0411, at 2 0x31, len 3, final],
        allM [Some (6 < n), len 0, half 2 0x0211, at 4 0x31, final],
        allM [Some (6 < n), len 0, half 2 0x0218, at 4 0x01, final],
        allM [Some (10 < n), word 0 0x04163a00, final, len_byte M m 4]])"

text \<open>Requests that carry the client's name; the lines are parsed before they are looked at.\<close>

definition qq_lines :: "mem \<Rightarrow> detection_module \<Rightarrow> bool option" where
  "qq_lines M m =
     (let agent = pk_user_agent_line (ds_packet m); h = pk_host_line (ds_packet m) in
      anyM [allM [Some (ol_ptr agent \<noteq> NULL), line_starts M agent 7 ''QQClient''],
            anyM (List.map (\<lambda>l. line_starts M l 3 ''QQ: '') (lines_of m)),
            allM [Some (ol_ptr h \<noteq> NULL), line_starts M h 11 ''www.qq.co.za'']])"

definition qq_first :: "mem \<Rightarrow> detection_module \<Rightarrow> bool option" where
  "qq_first M m =
     (let word = (\<lambda>k x. word_is M (pay m + k) ((=) x)); zero = (\<lambda>i. byte_is M (pay m + i) ((=) 0)) in
      anyM
       [allM [Some (plen m = 82), word 0 0x0000004e, word 4 0x01010000, all_index zero 8 82],
        allM [Some (plen m = 182), word 0 0x000000b2, word 4 0x01020000, word 8 0x04015151, word 12 0x4d61696c],
        allM [Some (plen m = 204), word 200 0xfbffffff, all_index zero 0 200]])"

definition qq_rest :: "mem \<Rightarrow> nat \<Rightarrow> detection_module \<Rightarrow> detection_module option" where
  "qq_rest M stage m =
     branch (allM [Some (stage = 0), qq_first M m]) (ipoque_int_add_connection IPOQUE_PROTOCOL_QQ m)
       (branch (excluded IPOQUE_PROTOCOL_HTTP m) (exclude IPOQUE_PROTOCOL_QQ m) (Some m))"

definition ipoque_search_qq_tcp :: "mem \<Rightarrow> detection_module \<Rightarrow> detection_module option" where
  "ipoque_search_qq_tcp M m =
     do { stage \<leftarrow> get_stage ''qq_stage'' m;
          let add = ipoque_int_add_connection IPOQUE_PROTOCOL_QQ;
          branch (qq_segment M m) (qq_hit m)
           (branch (allM [Some (plen m = 39), word_is M (pay m) ((=) 0x27000000), half_is M (pay m + 4) ((=) 0x0014),
                          half_is M (pay m + 37) ((=) 0)])
              (if stage = 4 then add m else set_stage ''qq_stage'' 4 m)
              (branch (allM [Some (100 < plen m), anyM [mem_eq M (pay m) ''GET'', mem_eq M (pay m) ''POST'']])
                 (branch (mem_eq M (pay m) ''GET /qqfile/qq'') (add m)
                    (do { m \<leftarrow> parse_lines M m; branch (qq_lines M m) (add m) (qq_rest M stage m) }))
                 (qq_rest M stage m))) }"

text \<open>A packet has one transport header; the code asks for each.\<close>

definition ipoque_search_qq :: "mem \<Rightarrow> detection_module \<Rightarrow> detection_module option" where
  "ipoque_search_qq M m =
     do { m \<leftarrow> (if pk_udp (ds_packet m) \<noteq> NULL then ipoque_search_qq_udp M m else Some m);
          if pk_tcp (ds_packet m) \<noteq> NULL then ipoque_search_qq_tcp M m else Some m }"

lemma qq_hit_good: "view_ok M m \<Longrightarrow> ds_flow m \<noteq> None \<Longrightarrow> good M m (qq_hit m)"
  unfolding qq_hit_def by (intro contract_rules) simp_all

lemma qq_udp_good:
  assumes "view_ok M m" "ds_flow m \<noteq> None" "pk_udp (ds_packet m) \<noteq> NULL"
  shows "good M m (ipoque_search_qq_udp M m)"
  unfolding ipoque_search_qq_udp_def qq_datagram_def qq_command_def last_is_def len_byte_def Let_def using assms
  by (intro qq_hit_good contract_rules condition_rules) (simp_all add: value_simps del: allM.simps anyM.simps)

lemma qq_rest_good: "view_ok M m \<Longrightarrow> ds_flow m \<noteq> None \<Longrightarrow> good M m (qq_rest M stage m)"
  unfolding qq_rest_def qq_first_def Let_def
  by (intro contract_rules condition_rules) (simp_all add: value_simps del: allM.simps anyM.simps)

lemma qq_segment_total: "view_ok M m \<Longrightarrow> \<exists>b. qq_segment M m = Some b"
  unfolding qq_segment_def last_is_def len_byte_def Let_def
  by (intro condition_rules) (simp_all add: value_simps del: allM.simps anyM.simps)

lemma qq_lines_total:
  assumes "view_ok M m" "pk_packet_lines_parsed_complete (ds_packet m)"
  shows "\<exists>b. qq_lines M m = Some b"
  unfolding qq_lines_def Let_def
  by (intro condition_rules line_starts_total parsed_line_readable(1) [OF assms] noted_line_readable [OF assms]) simp_all

lemma qq_tcp_good:
  assumes "view_ok M m" "ds_flow m \<noteq> None"
  shows "good M m (ipoque_search_qq_tcp M m)"
  unfolding ipoque_search_qq_tcp_def Let_def using assms
  by (intro qq_hit_good qq_rest_good contract_rules qq_segment_total qq_lines_total condition_rules)
     (simp_all add: value_simps del: allM.simps anyM.simps)

lemma qq_good:
  assumes "view_ok M m" "ds_flow m \<noteq> None"
  shows "good M m (ipoque_search_qq M m)"
  unfolding ipoque_search_qq_def using assms
  by (intro qq_udp_good qq_tcp_good contract_rules) (simp_all add: value_simps)

end
