(* ===== verification/Ipq_Services.thy ===== *)
theory Ipq_Services
  imports Ipq_Command
begin

text \<open>
  Dissectors of network services: \<^verbatim>\<open>afp.c\<close>, \<^verbatim>\<open>nfs.c\<close>, \<^verbatim>\<open>tds.c\<close>, \<^verbatim>\<open>dns.c\<close>, \<^verbatim>\<open>mdns.c\<close>, \<^verbatim>\<open>mgcp.c\<close>,
  \<^verbatim>\<open>syslog.c\<close>, \<^verbatim>\<open>ipp.c\<close>, \<^verbatim>\<open>telnet.c\<close>, \<^verbatim>\<open>snmp.c\<close>, \<^verbatim>\<open>usenet.c\<close>, \<^verbatim>\<open>sip.c\<close>, \<^verbatim>\<open>netbios.c\<close> and \<^verbatim>\<open>rtp.c\<close>, each with the
  lemma that it keeps the contract.
\<close>

subsection \<open>File servers and databases\<close>

definition ipoque_search_afp :: "mem \<Rightarrow> detection_module \<Rightarrow> detection_module option" where
  "ipoque_search_afp M m = decide IPOQUE_PROTOCOL_AFP
     (let body = (\<lambda>x :: u32. unat x = unat (plen m) - 16) in
      anyM [allM [Some (22 \<le> plen m), half_is M (pay m) ((=) 0x0004), half_is M (pay m + 2) ((=) 0x0001),
                  word_is M (pay m + 4) ((=) 0), word_is M (pay m + 8) body, word_is M (pay m + 12) ((=) 0),
                  half_is M (pay m + 16) ((=) 0x0104)],
            allM [Some (18 \<le> plen m), half_is M (pay m) ((=) 0x0003), half_is M (pay m + 2) ((=) 0x0001),
                  word_is M (pay m + 4) ((=) 0), word_is M (pay m + 8) body, word_is M (pay m + 12) ((=) 0),
                  half_is M (pay m + 16) ((=) 0x0f00)]]) m"

lemma afp_good:
  assumes "view_ok M m" "ds_flow m \<noteq> None"
  shows "good M m (ipoque_search_afp M m)"
  unfolding ipoque_search_afp_def Let_def using assms
  by (intro contract_rules condition_rules) (simp_all add: value_simps del: allM.simps anyM.simps)

definition ipoque_search_nfs :: "mem \<Rightarrow> detection_module \<Rightarrow> detection_module option" where
  "ipoque_search_nfs M m = decide IPOQUE_PROTOCOL_NFS
     (let offset = (if pk_tcp (ds_packet m) \<noteq> NULL then 4 else 0) in
      allM [Some (40 + offset \<le> unat (plen m)),
            (if offset \<noteq> 0 then word_is M (pay m) ((=) (0x80000000 + ucast (plen m) - 4)) else Some True),
            word_is M (pay m + (4 + offset)) ((=) 0), word_is M (pay m + (8 + offset)) ((=) 0x02),
            word_is M (pay m + (12 + offset)) (\<lambda>x. x = 0x000186a5 \<or> x = 0x000186a3 \<or> x = 0x000186a0),
            word_is M (pay m + (16 + offset)) (\<lambda>x. x \<le> 4)]) m"

lemma nfs_good:
  assumes "view_ok M m" "ds_flow m \<noteq> None"
  shows "good M m (ipoque_search_nfs M m)"
  unfolding ipoque_search_nfs_def Let_def using assms
  by (intro contract_rules condition_rules) (simp_all add: value_simps del: allM.simps anyM.simps split: if_splits)

definition ipoque_search_tds_tcp :: "mem \<Rightarrow> detection_module \<Rightarrow> detection_module option" where
  "ipoque_search_tds_tcp M m =
     branch (allM [Some (8 < plen m), Some (plen m < 512), byte_is M (pay m + 1) (\<lambda>x. x < 0x02),
                   half_is M (pay m + 2) ((=) (plen m)), half_is M (pay m + 4) ((=) 0x0000)])
       (do { stage \<leftarrow> get_stage ''tds_stage'' m;
             if stage = 0
             then do { x \<leftarrow> M (pay m);
                       if x \<noteq> 0x02 \<and> x \<noteq> 0x07 \<and> x \<noteq> 0x12 then exclude IPOQUE_PROTOCOL_TDS m
                       else do { m \<leftarrow> set_stage ''tds_stage'' (1 + dirn m) m; set_stage ''tds_login_version'' (unat x) m } }
             else do {
               version \<leftarrow> get_stage ''tds_login_version'' m;
               if stage = 2 - dirn m
               then branch (allM [Some (version = 0x12), byte_is M (pay m) ((=) 0x04)])
                      (set_stage ''tds_stage'' (3 + dirn m) m) (exclude IPOQUE_PROTOCOL_TDS m)
               else if stage = 4 - dirn m
               then decide IPOQUE_PROTOCOL_TDS (allM [Some (version = 0x12), byte_is M (pay m) ((=) 0x12)]) m
               else exclude IPOQUE_PROTOCOL_TDS m } })
       (exclude IPOQUE_PROTOCOL_TDS m)"

lemma tds_good:
  assumes "view_ok M m" "ds_flow m \<noteq> None"
  shows "good M m (ipoque_search_tds_tcp M m)"
  unfolding ipoque_search_tds_tcp_def using assms
  by (intro contract_rules condition_rules pay_readable_0)
     (simp_all add: value_simps del: allM.simps anyM.simps)

subsection \<open>Names\<close>

definition ipoque_search_dns :: "mem \<Rightarrow> detection_module \<Rightarrow> detection_module option" where
  "ipoque_search_dns M m = decide IPOQUE_PROTOCOL_DNS
     (let tcp = pk_tcp (ds_packet m); udp = pk_udp (ds_packet m) in
      allM [(if tcp \<noteq> NULL then dest_is M tcp ((=) 53) else if udp \<noteq> NULL then dest_is M udp ((=) 53) else Some False),
            Some (12 \<le> plen m),
            anyM [allM [byte_is M (pay m + 2) (\<lambda>x. x AND 0x80 = 0), half_is M (pay m + 4) (\<lambda>x. x \<le> 16),
                        half_is M (pay m + 4) (\<lambda>x. x \<noteq> 0), half_is M (pay m + 6) ((=) 0), half_is M (pay m + 8) ((=) 0),
                        half_is M (pay m + 10) (\<lambda>x. x \<le> 16)],
                  allM [half_is M (pay m) (\<lambda>x. unat x = unat (plen m) - 2), byte_is M (pay m + 4) (\<lambda>x. x AND 0x80 = 0),
                        half_is M (pay m + 6) (\<lambda>x. x \<le> 16), half_is M (pay m + 6) (\<lambda>x. x \<noteq> 0),
                        half_is M (pay m + 8) ((=) 0), half_is M (pay m + 10) ((=) 0), Some (14 \<le> plen m),
                        half_is M (pay m + 12) (\<lambda>x. x \<le> 16)]]]) m"

lemma dns_good:
  assumes "view_ok M m" "ds_flow m \<noteq> None"
  shows "good M m (ipoque_search_dns M m)"
  unfolding ipoque_search_dns_def Let_def using assms
  by (intro contract_rules condition_rules) (simp_all add: value_simps del: allM.simps anyM.simps)

definition ipoque_int_check_mdns_payload :: "mem \<Rightarrow> detection_module \<Rightarrow> bool option" where
  "ipoque_int_check_mdns_payload M m =
     anyM [allM [byte_is M (pay m + 2) (\<lambda>x. x AND 0x80 = 0), half_is M (pay m + 4) (\<lambda>x. x \<le> 128),
                 half_is M (pay m + 6) (\<lambda>x. x \<le> 128)],
           allM [byte_is M (pay m + 2) (\<lambda>x. x AND 0x80 \<noteq> 0), half_is M (pay m + 4) ((=) 0),
                 half_is M (pay m + 6) (\<lambda>x. x \<le> 128), half_is M (pay m + 6) (\<lambda>x. x \<noteq> 0)]]"

definition ipoque_search_mdns :: "mem \<Rightarrow> detection_module \<Rightarrow> detection_module option" where
  "ipoque_search_mdns M m = decide IPOQUE_PROTOCOL_MDNS
     (let udp = pk_udp (ds_packet m); iph = pk_iph (ds_packet m) in
      allM [Some (udp \<noteq> NULL), dest_is M udp ((=) 5353), Some (12 \<le> plen m),
            Some (iph \<noteq> NULL), word_is M (iph + 16) ((=) 0xe00000fb), ipoque_int_check_mdns_payload M m]) m"

lemma mdns_good:
  assumes "view_ok M m" "ds_flow m \<noteq> None"
  shows "good M m (ipoque_search_mdns M m)"
  unfolding ipoque_search_mdns_def ipoque_int_check_mdns_payload_def Let_def using assms
  by (intro contract_rules condition_rules) (simp_all add: value_simps del: allM.simps anyM.simps)

subsection \<open>Devices and logs\<close>

definition ipoque_search_mgcp_connection :: "mem \<Rightarrow> detection_module \<Rightarrow> detection_module option" where
  "ipoque_search_mgcp_connection M m = decide IPOQUE_PROTOCOL_MGCP
     (let n = unat (plen m) in
      allM [Some (8 \<le> plen m), anyM [byte_is M (pay m + (n - 1)) ((=) 0x0a), half_is M (pay m + (n - 2)) ((=) 0x0d0a)],
            byte_is M (pay m) (\<lambda>x. x \<in> set (lit ''ACDEMNR'')),
            anyM (List.map (mem_eq M (pay m)) [''AUEP '', ''AUCX '', ''CRCX '', ''DLCX '', ''EPCF '', ''MDCX '', ''NTFY '',
              ''RQNT '', ''RSIP '']),
            any_index (\<lambda>pos. mem_eq M (pay m + pos) ''MGCP '') 4 (n - 5)]) m"

definition ipoque_search_mgcp :: "mem \<Rightarrow> detection_module \<Rightarrow> detection_module option" where
  "ipoque_search_mgcp M m = ipoque_search_mgcp_connection M m"

lemma mgcp_good:
  assumes "view_ok M m" "ds_flow m \<noteq> None"
  shows "good M m (ipoque_search_mgcp M m)"
  unfolding ipoque_search_mgcp_def ipoque_search_mgcp_connection_def Let_def using assms
  by (intro contract_rules condition_rules) (auto simp: value_simps simp del: allM.simps anyM.simps)

definition months :: "string list" where
  "months = [''Jan'', ''Feb'', ''Mar'', ''Apr'', ''May'', ''Jun'', ''Jul'', ''Aug'', ''Sep'', ''Oct'', ''Nov'', ''Dec'']"

text \<open>The priority has at most four digits; the loop then stops at index 5 whatever it holds.\<close>

definition ipoque_search_syslog :: "mem \<Rightarrow> detection_module \<Rightarrow> detection_module option" where
  "ipoque_search_syslog M m =
     branch (allM [Some (20 < plen m), Some (plen m \<le> 1024), byte_is M (pay m) ((=) 0x3c)])
       (do { r \<leftarrow> first_index (\<lambda>i. notM (byte_is M (pay m + i) digit)) 1 5;
             let i = (case r of Some j \<Rightarrow> j | None \<Rightarrow> 5);
             branch (byte_is M (pay m + i) ((=) 0x3e))
               (branch (byte_is M (pay m + (i + 1)) ((=) 0x20))
                  (decide IPOQUE_PROTOCOL_SYSLOG (anyM (List.map (mem_eq M (pay m + (i + 2))) months)) m)
                  (decide IPOQUE_PROTOCOL_SYSLOG (anyM (List.map (mem_eq M (pay m + (i + 1))) months)) m))
               (exclude IPOQUE_PROTOCOL_SYSLOG m) })
       (exclude IPOQUE_PROTOCOL_SYSLOG m)"

lemma syslog_good:
  assumes "view_ok M m" "ds_flow m \<noteq> None"
  shows "good M m (ipoque_search_syslog M m)"
  unfolding ipoque_search_syslog_def Let_def using assms
  by (intro contract_rules condition_rules)
     (auto simp: value_simps months_def simp del: allM.simps anyM.simps split: option.splits)

text \<open>A print job: up to eight hexadecimal digits, a space, a number, a space and the scheme.\<close>

definition hexchar :: "u8 \<Rightarrow> bool" where
  "hexchar c \<longleftrightarrow> digit c \<or> 0x61 \<le> c \<and> c \<le> 0x66 \<or> 0x41 \<le> c \<and> c \<le> 0x46"

definition ipp_job :: "mem \<Rightarrow> addr \<Rightarrow> bool option" where
  "ipp_job M p = allM [byte_is M p digit,
     do { r \<leftarrow> first_index (\<lambda>i. notM (byte_is M (p + i) hexchar)) 1 9;
          let i = (case r of Some j \<Rightarrow> j | None \<Rightarrow> 9);
          allM [byte_is M (p + i) ((=) 0x20), byte_is M (p + (i + 1)) digit,
            do { r \<leftarrow> first_index (\<lambda>k. notM (byte_is M (p + k) digit)) (i + 2) 13;
                 let k = (case r of Some j \<Rightarrow> j | None \<Rightarrow> 13);
                 mem_eq M (p + k) '' ipp://'' }] }]"

definition ipoque_search_ipp :: "mem \<Rightarrow> detection_module \<Rightarrow> detection_module option" where
  "ipoque_search_ipp M m =
     branch (allM [Some (20 < plen m), ipp_job M (pay m)]) (ipoque_int_add_connection IPOQUE_PROTOCOL_IPP m)
       (branch (allM [Some (3 < plen m), mem_eq M (pay m) ''POST''])
          (do { m \<leftarrow> parse_lines M m;
                let l = pk_content_line (ds_packet m);
                decide IPOQUE_PROTOCOL_IPP (allM [Some (ol_ptr l \<noteq> NULL), line_starts M l 14 ''application/ipp'']) m })
          (exclude IPOQUE_PROTOCOL_IPP m))"

lemma ipp_job_total:
  assumes "readable M p 21"
  shows "\<exists>b. ipp_job M p = Some b"
proof -
  have r: "readable M (p + k) j" if "k + j \<le> 21" for k j by (rule readable_sub [OF assms]) (use that in auto)
  have r0: "readable M p 1" using r [of 0 1] by simp
  show ?thesis
    unfolding ipp_job_def Let_def
    by (intro cond_total byte_is_total mem_eq_total r r0) (auto split: option.splits)
qed

lemma ipp_good:
  assumes "view_ok M m" "ds_flow m \<noteq> None"
  shows "good M m (ipoque_search_ipp M m)"
  unfolding ipoque_search_ipp_def Let_def using assms
  by (intro contract_rules condition_rules ipp_job_total pay_readable_0 noted_line_readable)
     (simp_all add: value_simps del: allM.simps anyM.simps)

subsection \<open>Terminals and news\<close>

definition search_iac :: "mem \<Rightarrow> detection_module \<Rightarrow> bool option" where
  "search_iac M m =
     allM [Some (3 \<le> plen m), byte_is M (pay m) ((=) 0xff), byte_is M (pay m + 1) (\<lambda>x. 0xf9 < x \<and> x \<noteq> 0xff),
           byte_is M (pay m + 2) (\<lambda>x. x < 0x28),
           all_index (\<lambda>a. anyM [byte_is M (pay m + a) ((\<noteq>) 0xff),
               byte_is M (pay m + (a + 1)) (\<lambda>x. 0xf0 \<le> x \<and> x \<le> 0xfa),
               allM [byte_is M (pay m + (a + 1)) (\<lambda>x. 0xfb \<le> x \<and> x \<noteq> 0xff), byte_is M (pay m + (a + 2)) (\<lambda>x. x \<le> 0x28)]])
             3 (unat (plen m) - 2)]"

definition ipoque_search_telnet_tcp :: "mem \<Rightarrow> detection_module \<Rightarrow> detection_module option" where
  "ipoque_search_telnet_tcp M m =
     do { stage \<leftarrow> get_stage ''telnet_stage'' m;
          branch (search_iac M m)
            (if stage = 2 then ipoque_int_add_connection IPOQUE_PROTOCOL_TELNET m
             else set_stage ''telnet_stage'' ((stage + 1) mod 4) m)
            (branch (anyM [allM [counter_is m (\<lambda>c. c < 12), Some (0 < stage)], counter_is m (\<lambda>c. c < 6)])
               (Some m) (exclude IPOQUE_PROTOCOL_TELNET m)) }"

lemma telnet_good:
  assumes "view_ok M m" "ds_flow m \<noteq> None"
  shows "good M m (ipoque_search_telnet_tcp M m)"
  unfolding ipoque_search_telnet_tcp_def search_iac_def using assms
  by (intro contract_rules condition_rules) (simp_all add: value_simps del: allM.simps anyM.simps)

text \<open>\<^verbatim>\<open>usenet_stage\<close> has two bits.\<close>

definition ipoque_search_usenet_tcp :: "mem \<Rightarrow> detection_module \<Rightarrow> detection_module option" where
  "ipoque_search_usenet_tcp M m =
     do { stage \<leftarrow> get_stage ''usenet_stage'' m;
          branch (allM [Some (stage = 0), Some (10 < plen m), anyM [mem_eq M (pay m) ''200 '', mem_eq M (pay m) ''201 '']])
            (set_stage ''usenet_stage'' (1 + dirn m) m)
            (branch (allM [Some (stage = 2 - dirn m), Some (20 < plen m), mem_eq M (pay m) ''AUTHINFO USER ''])
               (do { m \<leftarrow> set_stage ''usenet_stage'' ((3 + dirn m) mod 4) m;
                     ipoque_int_add_connection IPOQUE_PROTOCOL_USENET m })
               (decide IPOQUE_PROTOCOL_USENET
                  (allM [Some (stage = 2 - dirn m), Some (plen m = 13),
                         mem_eq M (pay m) (''MODE READER'' @ [CHR 0x0d, CHR 0x0a])]) m)) }"

lemma usenet_good:
  assumes "view_ok M m" "ds_flow m \<noteq> None"
  shows "good M m (ipoque_search_usenet_tcp M m)"
  unfolding ipoque_search_usenet_tcp_def using assms
  by (intro contract_rules condition_rules) (simp_all add: value_simps del: allM.simps anyM.simps)

subsection \<open>Network management\<close>

text \<open>The message id: for version 3 \<^verbatim>\<open>ntohs\<close> cuts the 32-bit value to its first half.\<close>

definition snmp_id :: "mem \<Rightarrow> detection_module \<Rightarrow> nat \<Rightarrow> u8 \<Rightarrow> nat option" where
  "snmp_id M m offset version =
     (if version = 3 then do { x \<leftarrow> rd32le M (pay m + (offset + 8)); Some (unat (bswap16 (ucast x))) }
      else if version = 0 then do { x \<leftarrow> M (pay m + (offset + 15)); Some (unat x) }
      else do { x \<leftarrow> rd16be M (pay m + (offset + 15)); Some (unat x) })"

definition snmp_exchange :: "mem \<Rightarrow> nat \<Rightarrow> detection_module \<Rightarrow> detection_module option" where
  "snmp_exchange M offset m =
     do { version \<leftarrow> M (pay m + (offset + 2));
          stage \<leftarrow> get_stage ''snmp_stage'' m;
          if stage = 0
          then branch (anyM [dest_is M (pk_udp (ds_packet m)) ((=) 161), dest_is M (pk_udp (ds_packet m)) ((=) 162)])
                 (ipoque_int_add_connection IPOQUE_PROTOCOL_SNMP m)
                 (do { i \<leftarrow> snmp_id M m offset version;
                       m \<leftarrow> set_stage ''snmp_msg_id'' i m;
                       set_stage ''snmp_stage'' (1 + dirn m) m })
          else if stage = 2 - dirn m
          then do { i \<leftarrow> snmp_id M m offset version;
                    old \<leftarrow> get_stage ''snmp_msg_id'' m;
                    if old \<noteq> i then exclude IPOQUE_PROTOCOL_SNMP m else ipoque_int_add_connection IPOQUE_PROTOCOL_SNMP m }
          else exclude IPOQUE_PROTOCOL_SNMP m }"

text \<open>A second packet of the direction that set the stage excludes the protocol with every message id.\<close>

definition ipoque_search_snmp :: "mem \<Rightarrow> detection_module \<Rightarrow> detection_module option" where
  "ipoque_search_snmp M m =
     branch (allM [Some (32 < plen m), byte_is M (pay m) ((=) 0x30)])
       (do { x \<leftarrow> M (pay m + 1);
             if 0x82 < x then exclude IPOQUE_PROTOCOL_SNMP m
             else do {
               let offset = (if x = 0x81 then 3 else if x = 0x82 then 4 else 2);
               branch (allM [half_is M (pay m + offset) ((=) 0x0201), byte_is M (pay m + (offset + 2)) (\<lambda>x. x < 0x04)])
                 (snmp_exchange M offset m) (exclude IPOQUE_PROTOCOL_SNMP m) } })
       (exclude IPOQUE_PROTOCOL_SNMP m)"

lemma snmp_id_good:
  assumes "view_ok M m" "offset + 17 \<le> unat (plen m)" "\<And>i. good M m (f i)"
  shows "good M m (snmp_id M m offset version \<bind> f)"
proof -
  have "readable M (pay m + (offset + k)) j" if "k + j \<le> 17" for k j
    using assms(2) that by (intro pay_readable [OF assms(1)]) simp
  note r = this [of 8 4] this [of 15 1] this [of 15 2]
  obtain x y z where "rd32le M (pay m + (offset + 8)) = Some x" "M (pay m + (offset + 15)) = Some y"
    "rd16be M (pay m + (offset + 15)) = Some z"
    using rd32le_total [OF r(1)] rd16be_total [OF r(3)] readable_at [OF r(2) le_refl] by auto
  then show ?thesis using assms(3) by (simp add: snmp_id_def)
qed

lemma snmp_exchange_good:
  assumes "view_ok M m" "ds_flow m \<noteq> None" "pk_udp (ds_packet m) \<noteq> NULL" "offset + 17 \<le> unat (plen m)"
  shows "good M m (snmp_exchange M offset m)"
  unfolding snmp_exchange_def using assms
  by (intro contract_rules condition_rules pay_readable snmp_id_good)
     (simp_all add: value_simps del: allM.simps anyM.simps)

lemma snmp_good:
  assumes "view_ok M m" "ds_flow m \<noteq> None" "pk_udp (ds_packet m) \<noteq> NULL"
  shows "good M m (ipoque_search_snmp M m)"
  unfolding ipoque_search_snmp_def Let_def using assms
  by (intro contract_rules condition_rules pay_readable snmp_exchange_good)
     (simp_all add: value_simps del: allM.simps anyM.simps)

subsection \<open>Calls\<close>

definition sip_request :: "mem \<Rightarrow> detection_module \<Rightarrow> bool option" where
  "sip_request M m =
     allM [Some (14 \<le> plen m),
       anyM [allM [anyM [mem_eq M (pay m) ''REGISTER '', mem_eq M (pay m) ''register ''],
                   anyM [mem_eq M (pay m + 9) ''SIP:'', mem_eq M (pay m + 9) ''sip:'']],
             allM [anyM [mem_eq M (pay m) ''INVITE '', mem_eq M (pay m) ''invite ''],
                   anyM [mem_eq M (pay m + 7) ''SIP:'', mem_eq M (pay m + 7) ''sip:'']],
             mem_eq M (pay m) ''SIP/2.0 200 OK'', mem_eq M (pay m) ''sip/2.0 200 OK'']]"

definition sip_yahoo :: "mem \<Rightarrow> detection_module \<Rightarrow> bool option" where
  "sip_yahoo M m =
     allM [Some (30 < plen m), byte_is M (pay m) ((=) 0x90), byte_is M (pay m + 3) (\<lambda>x. unat x = unat (plen m) - 20),
           lword_is M (pay m + 4) ((=) 0), lword_is M (pay m + 8) ((=) 0)]"

definition ipoque_search_sip_handshake :: "mem \<Rightarrow> detection_module \<Rightarrow> detection_module option" where
  "ipoque_search_sip_handshake M m =
     branch (sip_request M m) (ipoque_int_add_connection IPOQUE_PROTOCOL_SIP m)
    (branch (allM [Some (pk_udp (ds_packet m) \<noteq> NULL), counter_is m (\<lambda>c. c < 10)]) (Some m)
    (branch (allM [Some (plen m = 4), lword_is M (pay m) ((=) 0)]) (Some m)
       (do { yahoo \<leftarrow> sip_yahoo M m;
             m \<leftarrow> (if yahoo then set_stage ''sip_yahoo_voice'' 1 m else Some m);
             voice \<leftarrow> get_stage ''sip_yahoo_voice'' m;
             branch (allM [Some (voice \<noteq> 0), counter_is m (\<lambda>c. c < 10)]) (Some m) (exclude IPOQUE_PROTOCOL_SIP m) })))"

definition ipoque_search_sip :: "mem \<Rightarrow> detection_module \<Rightarrow> detection_module option" where
  "ipoque_search_sip M m =
     (if \<not> detected IPOQUE_PROTOCOL_SIP m \<and> \<not> pk_tcp_retransmission (ds_packet m)
      then ipoque_search_sip_handshake M m else Some m)"

lemma sip_request_total: "view_ok M m \<Longrightarrow> \<exists>b. sip_request M m = Some b"
  unfolding sip_request_def
  by (intro condition_rules) (simp_all add: value_simps del: allM.simps anyM.simps)

lemma sip_yahoo_total: "view_ok M m \<Longrightarrow> \<exists>b. sip_yahoo M m = Some b"
  unfolding sip_yahoo_def
  by (intro condition_rules) (simp_all add: value_simps del: allM.simps anyM.simps)

lemma sip_good:
  assumes "view_ok M m" "ds_flow m \<noteq> None"
  shows "good M m (ipoque_search_sip M m)"
  unfolding ipoque_search_sip_def ipoque_search_sip_handshake_def using assms
  by (intro contract_rules condition_rules sip_request_total sip_yahoo_total)
     (simp_all add: value_simps del: allM.simps anyM.simps)

subsection \<open>NetBIOS\<close>

text \<open>The flags and the four counts of a name service datagram; its second kind compares one byte of the flags.\<close>

definition netbios_counts :: "mem \<Rightarrow> detection_module \<Rightarrow> u16 list \<Rightarrow> bool option" where
  "netbios_counts M m cs = allM (List.map (\<lambda>(k, c). half_is M (pay m + k) ((=) c)) (zip [4, 6, 8, 10] cs))"

definition netbios_name :: "mem \<Rightarrow> detection_module \<Rightarrow> bool option" where
  "netbios_name M m =
     (let is = (\<lambda>flags counts. allM [half_is M (pay m + 2) ((=) flags), netbios_counts M m counts]) in
      allM [dest_is M (pk_udp (ds_packet m)) ((=) 137), Some (50 \<le> plen m),
            anyM [is 0 [1, 0, 0, 0],
                  allM [byte_is M (pay m + 2) ((=) 0x80), netbios_counts M m [1, 0, 0, 1]],
                  is 0x4000 [1, 0, 0, 1], is 0x8400 [0, 1, 0, 0], is 0x8500 [0, 1, 0, 0], is 0x2910 [1, 0, 0, 1],
                  is 0xad86 [0, 1, 0, 0], is 0x0110 [1, 0, 0, 0]]])"

definition netbios_datagram :: "mem \<Rightarrow> detection_module \<Rightarrow> bool option" where
  "netbios_datagram M m =
     allM [dest_is M (pk_udp (ds_packet m)) ((=) 138), Some (14 \<le> plen m),
           half_is M (pay m + 10) (\<lambda>x. unat x = unat (plen m) - 14), byte_is M (pay m) (\<lambda>x. 0x11 \<le> x \<and> x \<le> 0x16),
           do { a \<leftarrow> rd32be M (pay m + 4); ip_addr_is M m 12 ((=) a) }]"

definition netbios_session :: "mem \<Rightarrow> detection_module \<Rightarrow> bool option" where
  "netbios_session M m =
     allM [dest_is M (pk_tcp (ds_packet m)) ((=) 139), Some (plen m = 72), bytes_at M (pay m) [0x81, 0],
           half_is M (pay m + 2) ((=) 68)]"

definition ipoque_search_netbios :: "mem \<Rightarrow> detection_module \<Rightarrow> detection_module option" where
  "ipoque_search_netbios M m = decide IPOQUE_PROTOCOL_NETBIOS
     (anyM [allM [Some (pk_udp (ds_packet m) \<noteq> NULL), anyM [netbios_name M m, netbios_datagram M m]],
            allM [Some (pk_tcp (ds_packet m) \<noteq> NULL), netbios_session M m]]) m"

lemma netbios_counts_total: "view_ok M m \<Longrightarrow> 12 \<le> unat (plen m) \<Longrightarrow> length cs = 4 \<Longrightarrow> \<exists>b. netbios_counts M m cs = Some b"
proof -
  assume a: "view_ok M m" "12 \<le> unat (plen m)" "length cs = 4"
  obtain w x y z where "cs = [w, x, y, z]"
    using a(3) by (auto simp: numeral_eq_Suc length_Suc_conv)
  then show ?thesis
    using a(1,2) unfolding netbios_counts_def
    by (simp only: zip_Cons_Cons zip_Nil list.map prod.case) (intro condition_rules; simp)
qed

lemma netbios_good:
  assumes "view_ok M m" "ds_flow m \<noteq> None"
  shows "good M m (ipoque_search_netbios M m)"
  unfolding ipoque_search_netbios_def netbios_name_def netbios_datagram_def netbios_session_def Let_def using assms
  by (intro contract_rules condition_rules netbios_counts_total pay_readable)
     (auto simp: value_simps simp del: allM.simps anyM.simps)

text \<open>
  RTP: the fields of a direction are \<^verbatim>\<open>rtp_ssid\<close>, \<^verbatim>\<open>rtp_seqnum\<close> and \<^verbatim>\<open>rtp_stage1\<close> or \<^verbatim>\<open>rtp_stage2\<close>. The
  distance of two sequence numbers is kept in a \<^verbatim>\<open>u8\<close> before it is compared.
\<close>

definition of_dir :: "string \<Rightarrow> detection_module \<Rightarrow> string" where
  "of_dir f m = f @ (if pk_packet_direction (ds_packet m) then ''1'' else ''0'')"

definition rtp_stage :: "detection_module \<Rightarrow> string" where
  "rtp_stage m = (if pk_packet_direction (ds_packet m) then ''rtp_stage2'' else ''rtp_stage1'')"

definition rtp_far :: "nat \<Rightarrow> nat \<Rightarrow> bool" where
  "rtp_far seq expected \<longleftrightarrow> 10 < (if expected < seq then seq - expected else expected - seq) mod 256"

definition rtp_out :: "detection_module \<Rightarrow> detection_module option" where
  "rtp_out m = (if detected IPOQUE_PROTOCOL_STUN m then Some m else exclude IPOQUE_PROTOCOL_RTP m)"

definition rtp_reset :: "u8 \<Rightarrow> detection_module \<Rightarrow> detection_module option" where
  "rtp_reset ptype m =
     do { old \<leftarrow> get_stage ''rtp_payload_type'' m;
          m \<leftarrow> (if old \<noteq> 0 \<and> old \<noteq> unat ptype
                then do { m \<leftarrow> set_stage (of_dir ''rtp_ssid'' m) 0 m; m \<leftarrow> set_stage (of_dir ''rtp_seqnum'' m) 0 m;
                          m \<leftarrow> set_stage ''rtp_stage1'' 0 m; set_stage ''rtp_stage2'' 0 m }
                else Some m);
          set_stage ''rtp_payload_type'' (unat ptype) m }"

definition rtp_advance :: "nat \<Rightarrow> detection_module \<Rightarrow> detection_module option" where
  "rtp_advance stage m =
     (if stage = 3 then ipoque_int_add_connection IPOQUE_PROTOCOL_RTP m
      else do { s \<leftarrow> get_stage (rtp_stage m) m; set_stage (rtp_stage m) ((s + 1) mod 4) m })"

definition rtp_track :: "u32 \<Rightarrow> u16 \<Rightarrow> detection_module \<Rightarrow> detection_module option" where
  "rtp_track ssid seq m =
     do { stage \<leftarrow> get_stage (rtp_stage m) m;
          if 0 < stage
          then do {
            known \<leftarrow> get_stage (of_dir ''rtp_ssid'' m) m;
            expected \<leftarrow> get_stage (of_dir ''rtp_seqnum'' m) m;
            if known \<noteq> unat ssid then rtp_out m
            else if unat seq = expected then Some m
            else if rtp_far (unat seq) expected then rtp_out m
            else do { m \<leftarrow> set_stage (of_dir ''rtp_seqnum'' m) (unat seq) m;
                      if seq \<le> 3 then Some m else rtp_advance stage m } }
          else do { m \<leftarrow> set_stage (of_dir ''rtp_ssid'' m) (unat ssid) m;
                    m \<leftarrow> set_stage (of_dir ''rtp_seqnum'' m) (unat seq) m;
                    if seq \<le> 3 then Some m else rtp_advance stage m } }"

definition ipoque_search_rtp_udp :: "mem \<Rightarrow> detection_module \<Rightarrow> detection_module option" where
  "ipoque_search_rtp_udp M m =
     branch (allM [Some (plen m = 1), byte_is M (pay m) ((=) 0)]) (Some m)
       (if plen m < 12 then rtp_out m
        else branch (allM [Some (plen m = 12), lword_is M (pay m) ((=) 0), lword_is M (pay m + 4) ((=) 0),
                           lword_is M (pay m + 8) ((=) 0)]) (Some m)
       (branch (byte_is M (pay m) (\<lambda>x. x AND 0xc0 \<noteq> 0x80)) (rtp_out m)
          (do { x \<leftarrow> M (pay m + 1); seq \<leftarrow> rd16be M (pay m + 2); ssid \<leftarrow> rd32le M (pay m + 8);
                m \<leftarrow> rtp_reset (x AND 0x7F) m;
                rtp_track ssid seq m })))"

lemma rtp_out_good: "view_ok M m \<Longrightarrow> ds_flow m \<noteq> None \<Longrightarrow> good M m (rtp_out m)"
  unfolding rtp_out_def by (intro contract_rules) simp_all

lemma rtp_reset_good: "view_ok M m \<Longrightarrow> ds_flow m \<noteq> None \<Longrightarrow> good M m (rtp_reset t m)"
  unfolding rtp_reset_def by (intro contract_rules) simp_all

lemma rtp_advance_good: "view_ok M m \<Longrightarrow> ds_flow m \<noteq> None \<Longrightarrow> good M m (rtp_advance s m)"
  unfolding rtp_advance_def by (intro contract_rules) simp_all

lemma rtp_track_good: "view_ok M m \<Longrightarrow> ds_flow m \<noteq> None \<Longrightarrow> good M m (rtp_track ssid seq m)"
  unfolding rtp_track_def by (intro contract_rules rtp_out_good rtp_advance_good) simp_all

lemma rtp_good:
  assumes "view_ok M m" "ds_flow m \<noteq> None"
  shows "good M m (ipoque_search_rtp_udp M m)"
  unfolding ipoque_search_rtp_udp_def using assms
  by (intro contract_rules condition_rules rtp_out_good pay_readable rtp_reset_good rtp_track_good)
     (simp_all add: value_simps del: allM.simps anyM.simps)

end
