(* ===== verification/Ipq_Peers.thy ===== *)
theory Ipq_Peers
  imports Ipq_Services Ipq_Games
begin

text \<open>
  File sharing and streaming between peers, continued: Aimini (\<^verbatim>\<open>aimini.c\<close>), BitTorrent (\<^verbatim>\<open>bittorrent.c\<close>), PPLive
  (\<^verbatim>\<open>pplive.c\<close>) and DirectConnect (\<^verbatim>\<open>directconnect.c\<close>).
\<close>

text \<open>The protocol of the packet and its flow, without a mark on the hosts.\<close>

definition mark_flow :: "nat \<Rightarrow> detection_module \<Rightarrow> detection_module option" where
  "mark_flow p m = (if ds_flow m = None then None else Some (set_detected p m))"

lemma mark_flow_good:
  assumes "view_ok M m" "ds_flow m \<noteq> None" "p < 128"
  shows "good M m (mark_flow p m)"
proof -
  have "unat (of_nat p :: u32) < 128" using assms(3) by (simp add: unat_of_nat take_bit_eq_mod)
  then have "view_ok M (set_detected p m)" "step_ok m (set_detected p m)"
    using assms
    by (auto simp: view_ok_def ids_ok_def protocols_ok_def set_detected_def flow_ok_def option.pred_map pred_option_def step_ok_def
        same_windows_def excl_def split: option.splits)
  then show ?thesis using assms(2) by (simp add: mark_flow_def good_def)
qed

subsection \<open>Aimini\<close>

text \<open>Six exchanges of three or more datagrams, each told by its length and its first two bytes.\<close>

datatype aimini_step = Next nat | Found | Unknown

definition aimini_select :: "mem \<Rightarrow> detection_module \<Rightarrow> nat \<Rightarrow> aimini_step option" where
  "aimini_select M m s =
     (let is = (\<lambda>n codes. allM [Some (plen m = n), half_is M (pay m) (\<lambda>x. x \<in> set codes)]);
          long = allM [Some (100 < plen m), half_is M (pay m) ((=) 0x0115)];
          on = (\<lambda>k c. allM [Some (s = k), c]) in
      select_first
       [(on 0 (is 64 [0x010b]), Next 1), (on 0 (is 136 [0x01c9, 0x0165]), Next 4), (on 0 (is 88 [0x0101]), Next 7),
        (on 0 (is 104 [0x0102]), Next 10), (on 0 (is 32 [0x01ca]), Next 13), (on 0 (is 16 [0x010c]), Next 16),
        (on 1 long, Next 2),
        (on 2 (anyM [is 16 [0x010c], is 64 [0x010b]]), Next 3),
        (on 3 (anyM [is 16 [0x010c], is 64 [0x010b], long]), Found),
        (on 4 (is 136 [0x01c9, 0x0165]), Next 5), (on 5 (is 136 [0x01c9, 0x0165]), Next 6),
        (on 6 (anyM [is 136 [0x0165, 0x01c9], is 32 [0x01ca]]), Found),
        (on 7 (is 88 [0x0101]), Next 8), (on 8 (is 88 [0x0101]), Next 9), (on 9 (is 88 [0x0101]), Found),
        (on 10 (is 104 [0x0102]), Next 11), (on 11 (is 104 [0x0102]), Next 12),
        (on 12 (anyM [is 104 [0x0102], is 32 [0x01ca]]), Found),
        (on 13 (is 32 [0x01ca]), Next 14),
        (on 14 (anyM [is 32 [0x01ca], is 136 [0x0166]]), Next 15),
        (on 15 (anyM [is 136 [0x0166], is 32 [0x01ca]]), Found),
        (on 16 (is 16 [0x010c]), Next 17), (on 17 (is 16 [0x010c]), Next 18), (on 18 (is 16 [0x010c]), Found)] Unknown)"

definition ipoque_search_aimini :: "mem \<Rightarrow> detection_module \<Rightarrow> detection_module option" where
  "ipoque_search_aimini M m =
     do { s \<leftarrow> get_stage ''aimini_stage'' m;
          step \<leftarrow> aimini_select M m s;
          case step of
            Next t \<Rightarrow> set_stage ''aimini_stage'' t m
          | Found \<Rightarrow> ipoque_int_add_connection IPOQUE_PROTOCOL_AIMINI m
          | Unknown \<Rightarrow> exclude IPOQUE_PROTOCOL_AIMINI m }"

lemma aimini_select_total: "view_ok M m \<Longrightarrow> \<exists>r. aimini_select M m s = Some r"
  unfolding aimini_select_def Let_def
  by (intro condition_rules) (simp_all add: value_simps del: allM.simps anyM.simps)

lemma aimini_good:
  assumes "view_ok M m" "ds_flow m \<noteq> None"
  shows "good M m (ipoque_search_aimini M m)"
  unfolding ipoque_search_aimini_def using assms
  by (intro contract_rules aimini_select_total) (auto split: aimini_step.split intro: set_stage_good add_connection_good exclude_good)

subsection \<open>BitTorrent\<close>

text \<open>The hosts of a BitTorrent flow are not marked.\<close>

definition add_connection_as_bittorrent :: "detection_module \<Rightarrow> detection_module option" where
  "add_connection_as_bittorrent m = mark_flow IPOQUE_PROTOCOL_BITTORRENT m"

text \<open>The index of the parameter \<^verbatim>\<open>info_hash=\<close>, before the first carriage return and with 50 bytes left.\<close>

definition bt_parameter :: "mem \<Rightarrow> detection_module \<Rightarrow> nat option option" where
  "bt_parameter M m =
     do { r \<leftarrow> first_index (\<lambda>k. anyM [byte_is M (pay m + k) ((=) 0x0d), mem_eq M (pay m + k) ''info_hash='']) 4 (unat (plen m) - 49);
          case r of
            None \<Rightarrow> Some None
          | Some k \<Rightarrow> branch (byte_is M (pay m + k) ((=) 0x0d)) (Some None) (Some (Some k)) }"

text \<open>\<open>a\<close> characters of a hash, some escaped, with \<open>len\<close> bytes left.\<close>

fun bt_hash :: "mem \<Rightarrow> addr \<Rightarrow> nat \<Rightarrow> nat \<Rightarrow> bool option" where
  "bt_hash M p 0 len = Some True"
| "bt_hash M p (Suc a) len =
     (if len < 3 then Some False
      else do { x \<leftarrow> M p;
                if x = 0x25
                then do { y \<leftarrow> M (p + 1); z \<leftarrow> M (p + 2); if hexchar y \<and> hexchar z then bt_hash M (p + 3) a (len - 3) else Some False }
                else if 32 \<le> x \<and> x < 127 then bt_hash M (p + 1) a (len - 1)
                else Some False })"

definition bt_tracker :: "mem \<Rightarrow> detection_module \<Rightarrow> bool option" where
  "bt_tracker M m =
     do { r \<leftarrow> bt_parameter M m;
          case r of None \<Rightarrow> Some False | Some k \<Rightarrow> bt_hash M (pay m + (k + 10)) 20 (unat (plen m) - k - 10) }"

text \<open>Line \<open>k\<close> is longer than \<open>n\<close> and starts with \<open>s\<close>.\<close>

definition line_at :: "mem \<Rightarrow> detection_module \<Rightarrow> nat \<Rightarrow> nat \<Rightarrow> string \<Rightarrow> bool option" where
  "line_at M m k n s = do { l \<leftarrow> get_line (pk_line (ds_packet m)) k; allM [Some (ol_ptr l \<noteq> NULL), line_starts M l n s] }"

definition bt_agent :: "mem \<Rightarrow> detection_module \<Rightarrow> bool option" where
  "bt_agent M m =
     (let agent = pk_user_agent_line (ds_packet m) in
      allM [Some (ol_ptr agent \<noteq> NULL),
            anyM [line_starts M agent 8 ''Azureus '', line_starts M agent 9 ''BitTorrent'', line_starts M agent 10 ''BTWebClient'']])"

definition bt_shareaza :: "mem \<Rightarrow> detection_module \<Rightarrow> bool option" where
  "bt_shareaza M m =
     (let agent = pk_user_agent_line (ds_packet m) in
      allM [Some (ol_ptr agent \<noteq> NULL), line_starts M agent 8 ''Shareaza '', Some (8 < pk_parsed_lines (ds_packet m)),
            line_at M m 8 8 ''X-Queue: ''])"

text \<open>The eleventh line is read when ten lines precede it; it may lie behind the parsed lines.\<close>

definition bt_mozilla :: "mem \<Rightarrow> detection_module \<Rightarrow> bool option" where
  "bt_mozilla M m =
     (let pk = ds_packet m; agent = pk_user_agent_line pk; h = pk_host_line pk in
      allM [anyM [Some (pk_parsed_lines pk = 10),
                  allM [Some (pk_parsed_lines pk = 11), do { l \<leftarrow> get_line (pk_line pk) 11; Some (ol_len l = 0) }]],
            Some (ol_ptr agent \<noteq> NULL), line_starts M agent 12 ''Mozilla/4.0 '',
            Some (ol_ptr h \<noteq> NULL), Some (7 \<le> unat (ol_len h)),
            line_at M m 2 14 ''Keep-Alive: 300'', line_at M m 3 21 ''Connection: Keep-alive'',
            anyM [line_at M m 4 10 ''Accpet: */*'', line_at M m 4 10 ''Accept: */*''],
            line_at M m 5 12 ''Range: bytes='', line_at M m 7 15 ''Pragma: no-cache'', line_at M m 8 22 ''Cache-Control: no-cache''])"

definition bt_end :: "mem \<Rightarrow> detection_module \<Rightarrow> detection_module option" where
  "bt_end M m =
     (if plen m = 80
      then branch (allM [mem_is M (pay m) [0x4c, 0x00, 0x00, 0x00, 0xff, 0xff, 0xff, 0xff, 0x57, 0x00, 0x00, 0x00, 0x00, 0x00, 0x00,
                                           0x00, 0x20, 0x00, 0x00, 0x00],
                         mem_is M (pay m + 52) [0x28, 0x23, 0x00, 0x00, 0x01, 0x00, 0x00, 0x00, 0x10, 0x00, 0x00, 0x00]])
             (add_connection_as_bittorrent m) (Some m)
      else branch (allM [Some (50 < plen m), mem_eq M (pay m) ''GET''])
             (do { m \<leftarrow> parse_lines M m;
                   let h = pk_host_line (ds_packet m);
                   branch (allM [Some (ol_ptr h \<noteq> NULL), line_starts M h 8 ''ip2p.com:'']) (add_connection_as_bittorrent m) (Some m) })
             (Some m))"

definition int_search_bittorrent_tcp_zero :: "mem \<Rightarrow> detection_module \<Rightarrow> detection_module option" where
  "int_search_bittorrent_tcp_zero M m =
     branch (anyM [allM [Some (20 < plen m), byte_is M (pay m) ((=) 0x13), mem_eq M (pay m + 1) ''BitTorrent protocol''],
                   allM [Some (23 < plen m), mem_eq M (pay m) ''GET /webseed?info_hash=''],
                   allM [Some (60 < plen m), mem_eq M (pay m) ''GET /data?fid='', mem_eq M (pay m + 54) ''&size='']])
       (add_connection_as_bittorrent m)
       (branch (allM [Some (100 < plen m), mem_eq M (pay m) ''GET ''])
          (do { m \<leftarrow> parse_lines M m;
                branch (anyM [bt_agent M m, bt_shareaza M m, bt_mozilla M m, bt_tracker M m])
                  (add_connection_as_bittorrent m) (bt_end M m) })
          (bt_end M m))"

definition int_search_bittorrent_tcp :: "mem \<Rightarrow> detection_module \<Rightarrow> detection_module option" where
  "int_search_bittorrent_tcp M m =
     (if plen m = 0 then Some m
      else do { stage \<leftarrow> get_stage ''bittorrent_stage'' m;
                if stage = 0 then do { m \<leftarrow> set_stage ''bittorrent_stage'' 1 m; int_search_bittorrent_tcp_zero M m } else Some m })"

definition ipoque_search_bittorrent :: "mem \<Rightarrow> detection_module \<Rightarrow> detection_module option" where
  "ipoque_search_bittorrent M m =
     (if \<not> detected IPOQUE_PROTOCOL_BITTORRENT m \<and> pk_tcp (ds_packet m) \<noteq> NULL
        \<and> (\<not> pk_tcp_retransmission (ds_packet m) \<or> pk_num_retried_bytes (ds_packet m) \<noteq> 0)
      then int_search_bittorrent_tcp M m else Some m)"

lemma bittorrent_add_good: "view_ok M m \<Longrightarrow> ds_flow m \<noteq> None \<Longrightarrow> good M m (add_connection_as_bittorrent m)"
  unfolding add_connection_as_bittorrent_def by (rule mark_flow_good) simp_all

lemma bt_hash_total: "readable M p len \<Longrightarrow> \<exists>b. bt_hash M p a len = Some b"
proof (induction a arbitrary: p len)
  case (Suc a)
  show ?case
  proof (cases "len < 3")
    case False
    then obtain x y z where "M p = Some x" "M (p + 1) = Some y" "M (p + 2) = Some z"
      using readable_at [OF Suc.prems, of p] readable_at [OF Suc.prems, of "p + 1"] readable_at [OF Suc.prems, of "p + 2"] by auto
    moreover have "\<exists>b. bt_hash M (p + 3) a (len - 3) = Some b" "\<exists>b. bt_hash M (p + 1) a (len - 1) = Some b"
      using False by (intro Suc.IH readable_sub [OF Suc.prems]; simp)+
    ultimately show ?thesis using False by auto
  qed (simp, blast)
qed (simp, blast)

lemma bt_tracker_total: "view_ok M m \<Longrightarrow> \<exists>b. bt_tracker M m = Some b"
proof -
  assume v: "view_ok M m"
  have "\<exists>r. bt_parameter M m = Some r \<and> (\<forall>k. r = Some k \<longrightarrow> k + 50 \<le> unat (plen m))"
  proof -
    obtain r where r: "first_index (\<lambda>k. anyM [byte_is M (pay m + k) ((=) 0x0d), mem_eq M (pay m + k) ''info_hash='']) 4
        (unat (plen m) - 49) = Some r" "\<forall>j. r = Some j \<longrightarrow> j < unat (plen m) - 49"
      using first_index_total [of 4 "unat (plen m) - 49" "\<lambda>k. anyM [byte_is M (pay m + k) ((=) 0x0d), mem_eq M (pay m + k) ''info_hash='']"]
        pay_total(1,4) [OF v] by (force simp del: anyM.simps intro!: cond_total)
    show ?thesis
    proof (cases r)
      case (Some k)
      then have "k + 50 \<le> unat (plen m)" using r(2) by simp
      moreover obtain b where "byte_is M (pay m + k) ((=) 0x0d) = Some b" using pay_total(1) [OF v, of k] calculation by auto
      ultimately show ?thesis using r(1) Some by (simp add: bt_parameter_def branch_def)
    qed (use r(1) in \<open>simp add: bt_parameter_def\<close>)
  qed
  then obtain r where "bt_parameter M m = Some r" "\<forall>k. r = Some k \<longrightarrow> k + 50 \<le> unat (plen m)" by blast
  then show ?thesis
    by (cases r) (auto simp: bt_tracker_def intro!: bt_hash_total pay_readable [OF v])
qed

lemma line_at_total:
  assumes "view_ok M m" "pk_packet_lines_parsed_complete (ds_packet m)" "k < unat (pk_parsed_lines (ds_packet m))" "length s \<le> Suc n"
  shows "\<exists>b. line_at M m k n s = Some b"
  unfolding line_at_def by (intro line_at_cond [OF assms(1-3)] cond_total line_starts_total) (simp_all add: assms(4))

lemma bt_request_total:
  assumes "view_ok M m" "pk_packet_lines_parsed_complete (ds_packet m)"
  shows "\<exists>b. bt_agent M m = Some b" "\<exists>b. bt_shareaza M m = Some b" "\<exists>b. bt_mozilla M m = Some b"
proof -
  note agent = noted_line_readable(4) [OF assms]
  have "length (pk_line (ds_packet m)) = 200" using assms(1) by (simp add: view_ok_def packet_ok_def arrays_200_def)
  then have l: "\<exists>b. (get_line (pk_line (ds_packet m)) 11 \<bind> (\<lambda>l. Some (ol_len l = 0))) = Some b" by (simp add: get_line_def)
  let ?parsed = "anyM [Some (pk_parsed_lines (ds_packet m) = 10), allM [Some (pk_parsed_lines (ds_packet m) = 11),
    get_line (pk_line (ds_packet m)) 11 \<bind> (\<lambda>l. Some (ol_len l = 0))]]"
  have c: "\<exists>b. ?parsed = Some b" by (intro l cond_total)
  have n: "10 \<le> unat (pk_parsed_lines (ds_packet m))" if "?parsed = Some True" using that by (auto split: if_splits)
  show "\<exists>b. bt_agent M m = Some b" "\<exists>b. bt_shareaza M m = Some b"
    unfolding bt_agent_def bt_shareaza_def Let_def
    by (intro cond_total line_starts_total line_at_total assms; force simp: agent value_simps simp del: allM.simps anyM.simps)+
  show "\<exists>b. bt_mozilla M m = Some b"
    unfolding bt_mozilla_def Let_def
    by (intro c cond_total line_starts_total line_at_total assms) (use n in \<open>simp_all add: agent del: allM.simps anyM.simps\<close>)
qed

lemma bittorrent_good:
  assumes "view_ok M m" "ds_flow m \<noteq> None"
  shows "good M m (ipoque_search_bittorrent M m)"
proof -
  have e: "good M m (bt_end M m)" if "view_ok M m" "ds_flow m \<noteq> None" for m
    unfolding bt_end_def Let_def using that
    by (intro contract_rules condition_rules line_starts_total noted_line_readable bittorrent_add_good)
       (simp_all add: value_simps del: allM.simps anyM.simps)
  show ?thesis
    unfolding ipoque_search_bittorrent_def int_search_bittorrent_tcp_def int_search_bittorrent_tcp_zero_def using assms
    by (intro e contract_rules condition_rules bt_request_total bt_tracker_total bittorrent_add_good)
       (simp_all add: value_simps del: allM.simps anyM.simps)
qed


subsection \<open>PPLive\<close>

text \<open>
  A port of a header, and the comparison of one with the port kept for an id. Ports are kept by value, which compares as
  the stored network order does.
\<close>

definition port_of :: "mem \<Rightarrow> addr \<Rightarrow> nat \<Rightarrow> nat option" where
  "port_of M hdr off = (if hdr = NULL then None else do { x \<leftarrow> rd16be M (hdr + off); Some (unat x) })"

definition id_port_is :: "mem \<Rightarrow> addr \<Rightarrow> string \<Rightarrow> addr \<Rightarrow> nat \<Rightarrow> detection_module \<Rightarrow> bool option" where
  "id_port_is M a f hdr off m =
     (if a = NULL then Some False else do { p \<leftarrow> get_id_field a f m; port_is M hdr off (\<lambda>x. unat x = p) })"

text \<open>
  A host that serves video at a known port: the flow is PPLive while the host was seen there lately; the port is forgotten
  otherwise, for the source without the flag that its time is set.
\<close>

definition pplive_peer ::
    "mem \<Rightarrow> addr \<Rightarrow> bool \<Rightarrow> addr \<Rightarrow> nat \<Rightarrow> (detection_module \<Rightarrow> detection_module option)
      \<Rightarrow> (detection_module \<Rightarrow> detection_module option) \<Rightarrow> detection_module \<Rightarrow> detection_module option" where
  "pplive_peer M a clear hdr off add next m =
     branch (allM [Some (a \<noteq> NULL), id_port_is M a ''pplive_vod_cli_port'' hdr off m, id_has_protocol a IPOQUE_PROTOCOL_PPLIVE m])
       (do { set \<leftarrow> get_id_field a ''pplive_last_packet_time_set'' m;
             branch (allM [Some (set = 1), recent a ''pplive_last_packet_time'' (ds_config m ''pplive_connection_timeout'') m])
               (do { m \<leftarrow> add m;
                     m \<leftarrow> note_id a ''pplive_last_packet_time_set'' 1 m;
                     note_id a ''pplive_last_packet_time'' (unat (now m)) m })
               (do { m \<leftarrow> (if clear then note_id a ''pplive_last_packet_time_set'' 0 m else Some m);
                     m \<leftarrow> note_id a ''pplive_vod_cli_port'' 0 m;
                     m \<leftarrow> note_id a ''pplive_last_packet_time'' 0 m;
                     next m }) })
       (next m)"

definition pplive_peers ::
    "mem \<Rightarrow> addr \<Rightarrow> (detection_module \<Rightarrow> detection_module option) \<Rightarrow> (detection_module \<Rightarrow> detection_module option)
      \<Rightarrow> detection_module \<Rightarrow> detection_module option" where
  "pplive_peers M hdr add next m =
     pplive_peer M (ds_src m) False hdr 0 (ipoque_int_add_connection IPOQUE_PROTOCOL_PPLIVE)
       (\<lambda>m. pplive_peer M (ds_dst m) True hdr 2 add next m) m"

definition pplive_datagram :: "mem \<Rightarrow> detection_module \<Rightarrow> bool option" where
  "pplive_datagram M m =
     (let at = (\<lambda>k xs. byte_is M (pay m + k) (\<lambda>x. x \<in> set xs)); n = plen m in
      anyM
       [allM [Some (76 \<le> n), at 0 [0x01, 0x18, 0x05], at 1 [0x00], lword_is M (pay m + 12) ((=) 0), at 16 [0, 1], at 17 [0],
              at 24 [0xac]],
        allM [Some (50 < n), at 0 [0xe9], at 1 [0x03], at 3 [0x00, 0x01], bytes_at M (pay m + 4) [0x98, 0xab, 0x01, 0x02]],
        allM [Some (n = 94), at 8 [0x00], word_is M (pay m + 9) ((=) 0x02010000), word_is M (pay m + 58) ((=) 0xb1130000)],
        allM [Some (90 \<le> n), Some (n \<le> 110), byte_is M (pay m) (\<lambda>x. 0x0a \<le> x \<and> x \<le> 0x0f), word_is M (pay m + 86) ((=) 0),
              anyM (List.map (\<lambda>i. allM [word_is M (pay m + i) ((=) 0x4fde7e7f), half_is M (pay m + (i + 4)) ((=) 0)])
                [56, 58, 60, 62, 64, 66])]])"

text \<open>The first four packets only prepare the stage.\<close>

definition pplive_prepare :: "mem \<Rightarrow> detection_module \<Rightarrow> detection_module option" where
  "pplive_prepare M m =
     (let n = unat (plen m) in do {
       m \<leftarrow> branch (allM [Some (90 \<le> plen m), Some (plen m \<le> 110),
                       anyM [word_is M (pay m + (n - 16)) ((=) 0), word_is M (pay m + (n - 4)) ((=) 0)]])
             (set_stage ''pplive_stage'' 2 m) (Some m);
       branch (allM [Some (plen m = 68), lhalf_is M (pay m) ((=) 0x21), bytes_rel M (pay m + 19) (pay m + 20) (=),
                     bytes_rel M (pay m + 20) (pay m + 21) (=), bytes_rel M (pay m + 12) (pay m + 13) (=),
                     bytes_rel M (pay m + 14) (pay m + 15) (=)])
         (set_stage ''pplive_stage'' (3 + dirn m) m) (Some m) })"

definition pplive_vod :: "mem \<Rightarrow> detection_module \<Rightarrow> detection_module option" where
  "pplive_vod M m =
     do { port \<leftarrow> port_of M (pk_udp (ds_packet m)) 2;
          m \<leftarrow> note_id (ds_dst m) ''pplive_vod_cli_port'' port m;
          m \<leftarrow> note_id (ds_dst m) ''pplive_last_packet_time'' (unat (now m)) m;
          m \<leftarrow> note_id (ds_dst m) ''pplive_last_packet_time_set'' 1 m;
          ipoque_int_add_connection IPOQUE_PROTOCOL_PPLIVE m }"

definition pplive_udp :: "mem \<Rightarrow> detection_module \<Rightarrow> detection_module option" where
  "pplive_udp M m =
     branch (pplive_datagram M m) (ipoque_int_add_connection IPOQUE_PROTOCOL_PPLIVE m)
       (do { stage \<leftarrow> get_stage ''pplive_stage'' m;
             branch (allM [counter_is m (\<lambda>c. c < 5), Some (stage = 0)]) (pplive_prepare M m)
            (if stage = 3 + dirn m then Some m
             else branch (allM [Some (stage = 4 - dirn m), Some (67 < plen m),
                     anyM [lhalf_is M (pay m) ((=) 0x21),
                           allM [lhalf_is M (pay m) ((=) 0x22), lhalf_is M (pay m + 28) ((=) 0)]]])
               (pplive_vod M m)
            (branch (allM [Some (stage = 2),
                     anyM [allM [Some (plen m = 30), byte_is M (pay m) (\<lambda>x. x = 0x02 \<or> x = 0x03), word_is M (pay m + 21) ((=) 1)],
                           allM [Some (plen m = 28), byte_is M (pay m) (\<lambda>x. x = 0x01 \<or> x = 0x00), word_is M (pay m + 19) ((=) 1)]]])
               (ipoque_int_add_connection IPOQUE_PROTOCOL_PPLIVE m)
            (branch (allM [Some (stage = 2), counter_is m (\<lambda>c. c < 45)]) (Some m) (exclude IPOQUE_PROTOCOL_PPLIVE m)))) })"

text \<open>The request of the web client.\<close>

definition pplive_version :: "mem \<Rightarrow> detection_module \<Rightarrow> bool option" where
  "pplive_version M m =
     do { l \<leftarrow> get_line (pk_line (ds_packet m)) 0;
          allM [Some (ol_ptr l \<noteq> NULL), Some (8 \<le> unat (ol_len l)), mem_eq M (pay m + (unat (ol_len l) - 8)) ''HTTP/1.''] }"

definition pplive_request :: "mem \<Rightarrow> detection_module \<Rightarrow> bool option" where
  "pplive_request M m =
     (let pk = ds_packet m; agent = pk_user_agent_line pk in
      anyM
       [allM [Some (pk_parsed_lines pk = 8), pplive_version M m, line_at M m 2 15 ''x-flash-version:'',
              Some (ol_ptr agent \<noteq> NULL), line_starts M agent 10 ''Mozilla/4.0'', line_at M m 6 20 ''Pragma: Client=PPLive''],
        allM [Some (pk_parsed_lines pk = 6), pplive_version M m,
              Some (ol_ptr agent \<noteq> NULL), line_starts M agent 9 ''PPLive DAC'']])"

definition pplive_length :: "mem \<Rightarrow> detection_module \<Rightarrow> bool option" where
  "pplive_length M m = word_is M (pay m) (\<lambda>x. unat x = unat (plen m) - 4)"

definition pplive_segment :: "mem \<Rightarrow> detection_module \<Rightarrow> nat \<Rightarrow> bool option" where
  "pplive_segment M m stage =
     (let n = plen m; same = (\<lambda>j k. bytes_rel M (pay m + j) (pay m + k) (=)); sized = pplive_length M m in
      anyM
       [allM [Some (20 < n), sized, bytes_at M (pay m + 4) [0x21, 0x00], same 9 10, same 9 11, same 16 17, same 16 18, same 16 19],
        allM [Some (20 < n), Some (stage \<noteq> 0), bytes_at M (pay m) [0x21, 0x00], same 5 6, same 5 7, same 12 13, same 14 15,
              same 12 14],
        allM [Some (11 < n), sized, bytes_at M (pay m + 4) [0xe9, 0x03], anyM [same 7 10, same 7 11]],
        allM [Some (10 < n), Some (stage \<noteq> 0), bytes_at M (pay m) [0xe9, 0x03], anyM [same 3 6, same 3 7]],
        allM [Some (11 < n), sized,
              anyM [allM [bytes_at M (pay m + 4) [0x21, 0x00], bytes_at M (pay m + 8) [0x98, 0xab, 0x01, 0x02]],
                    allM [Some (20 < n), all_index (\<lambda>i. byte_is M (pay m + i) digit) 4 20]]]])"

definition pplive_tag :: "mem \<Rightarrow> detection_module \<Rightarrow> bool option" where
  "pplive_tag M m = allM [bytes_at M (pay m) [0xe9, 0x03], bytes_at M (pay m + 4) [0x98, 0xab, 0x01, 0x02]]"

text \<open>A packet of the announced size, or one that holds two or three messages; the offset of the next one has 16 bits.\<close>

definition pplive_step :: "mem \<Rightarrow> detection_module \<Rightarrow> nat \<Rightarrow> nat option option" where
  "pplive_step M m a =
     branch (allM [Some (a + 4 < unat (plen m)), byte_is M (pay m + (a + 2)) ((=) 0), byte_is M (pay m + (a + 3)) ((=) 0),
                   byte_is M (pay m + a) ((\<noteq>) 0)])
       (do { x \<leftarrow> M (pay m + a); y \<leftarrow> M (pay m + (a + 1)); Some (Some ((a + 256 * unat y + unat x + 4) mod 65536)) })
       (Some None)"

definition pplive_messages :: "mem \<Rightarrow> detection_module \<Rightarrow> nat \<Rightarrow> bool option" where
  "pplive_messages M m sz =
     do { r \<leftarrow> pplive_step M m sz;
          case r of None \<Rightarrow> Some False
          | Some a \<Rightarrow> if unat (plen m) = a then Some True
                      else do { r \<leftarrow> pplive_step M m a; Some (r = Some (unat (plen m))) } }"

definition pplive_sized :: "mem \<Rightarrow> detection_module \<Rightarrow> nat \<Rightarrow> bool option" where
  "pplive_sized M m sz =
     (let n = unat (plen m) in
      allM [Some (7 < n), Some (4 \<le> sz),
        anyM [allM [Some (n = sz),
                anyM [pplive_tag M m, allM [Some (16 < n), all_index (\<lambda>i. byte_is M (pay m + i) digit) 0 16],
                      allM [Some (79 < n), word_is M (pay m + (n - 9)) ((=) 0), word_is M (pay m + (n - 5)) ((=) 0)]]],
              allM [Some (sz < n), pplive_tag M m, pplive_messages M m sz]]])"

definition pplive_tcp :: "mem \<Rightarrow> detection_module \<Rightarrow> detection_module option" where
  "pplive_tcp M m =
     do { stage \<leftarrow> get_stage ''pplive_stage'' m;
          sz \<leftarrow> get_stage (of_dir ''pplive_next_packet_size'' m) m;
          let announce = allM [Some (plen m = 4), byte_is M (pay m) (\<lambda>x. 0x04 < x), mem_is M (pay m + 1) [0, 0, 0]];
          let note = (\<lambda>m. do { x \<leftarrow> M (pay m); set_stage (of_dir ''pplive_next_packet_size'' m) (unat x) m });
          branch (pplive_segment M m stage) (ipoque_int_add_connection IPOQUE_PROTOCOL_PPLIVE m)
         (if stage = 0
          then branch announce (do { m \<leftarrow> set_stage ''pplive_stage'' (1 + dirn m) m; note m }) (exclude IPOQUE_PROTOCOL_PPLIVE m)
          else if stage = 2 - dirn m
          then do { m \<leftarrow> branch announce (note m) (Some m); set_stage ''pplive_stage'' 3 m }
          else branch (if stage = 1 + dirn m \<or> stage = 3 then pplive_sized M m sz else Some False)
                 (ipoque_int_add_connection IPOQUE_PROTOCOL_PPLIVE m) (exclude IPOQUE_PROTOCOL_PPLIVE m)) }"

definition ipoque_search_pplive_tcp_udp :: "mem \<Rightarrow> detection_module \<Rightarrow> detection_module option" where
  "ipoque_search_pplive_tcp_udp M m =
     (let udp = pk_udp (ds_packet m); tcp = pk_tcp (ds_packet m) in
      if udp \<noteq> NULL then pplive_peers M udp (ipoque_int_add_connection IPOQUE_PROTOCOL_PPLIVE) (pplive_udp M) m
      else if tcp \<noteq> NULL
      then pplive_peers M tcp (mark_flow IPOQUE_PROTOCOL_PPLIVE)
             (\<lambda>m. branch (allM [Some (4 < plen m), mem_eq M (pay m) ''GET /''])
                    (do { m \<leftarrow> parse_lines M m;
                          branch (pplive_request M m) (ipoque_int_add_connection IPOQUE_PROTOCOL_PPLIVE m) (pplive_tcp M m) })
                    (pplive_tcp M m)) m
      else exclude IPOQUE_PROTOCOL_PPLIVE m)"

lemma id_port_total:
  assumes "view_ok M m" "a = ds_src m \<or> a = ds_dst m" "off + 2 \<le> 8" "hdr \<noteq> NULL"
    and "hdr = pk_tcp (ds_packet m) \<or> hdr = pk_udp (ds_packet m)"
  shows "\<exists>b. id_port_is M a f hdr off m = Some b"
proof -
  have "\<exists>b. port_is M hdr off P = Some b" for P using port_total [OF assms(1,3)] assms(4,5) by blast
  then show ?thesis using assms(1,2) by (auto simp: id_port_is_def get_id_field_def view_ok_def ids_ok_def)
qed

lemma port_of_good:
  assumes "view_ok M m" "off + 2 \<le> 8" "hdr \<noteq> NULL" "hdr = pk_tcp (ds_packet m) \<or> hdr = pk_udp (ds_packet m)"
    and "\<And>x. good M m (f x)"
  shows "good M m (port_of M hdr off \<bind> f)"
proof -
  have "\<exists>b. half_is M (hdr + off) (\<lambda>_. True) = Some b"
    using port_total [OF assms(1,2), of "\<lambda>_. True"] assms(3,4) by (auto simp: port_is_def)
  then show ?thesis using assms(3,5) by (cases "rd16be M (hdr + off)") (auto simp: half_is_def port_of_def)
qed

lemma pplive_peer_good:
  assumes "view_ok M m" "ds_flow m \<noteq> None" "a = ds_src m \<or> a = ds_dst m" "off + 2 \<le> 8" "hdr \<noteq> NULL"
    and "hdr = pk_tcp (ds_packet m) \<or> hdr = pk_udp (ds_packet m)"
    and add: "\<And>m'. view_ok M m' \<Longrightarrow> ds_flow m' \<noteq> None \<Longrightarrow> good M m' (add m')"
    and rest: "\<And>m'. view_ok M m' \<Longrightarrow> ds_flow m' \<noteq> None \<Longrightarrow> same_windows (ds_packet m) (ds_packet m')
      \<Longrightarrow> ds_src m' = ds_src m \<Longrightarrow> ds_dst m' = ds_dst m
      \<Longrightarrow> pk_packet_direction (ds_packet m') = pk_packet_direction (ds_packet m) \<Longrightarrow> good M m' (next m')"
  shows "good M m (pplive_peer M a clear hdr off add next m)"
proof -
  have "\<exists>b. id_has_protocol a IPOQUE_PROTOCOL_PPLIVE m = Some b" using either_has_total [OF assms(1)] assms(3) by blast
  then show ?thesis
    unfolding pplive_peer_def using assms(1-6)
    by (intro add contract_rules condition_rules id_port_total recent_total rest) (simp_all add: value_simps del: allM.simps anyM.simps)
qed

lemma pplive_datagram_total: "view_ok M m \<Longrightarrow> \<exists>b. pplive_datagram M m = Some b"
  unfolding pplive_datagram_def Let_def
  by (intro condition_rules) (auto simp: value_simps simp del: allM.simps anyM.simps)

lemma pplive_prepare_good:
  assumes "view_ok M m" "ds_flow m \<noteq> None"
  shows "good M m (pplive_prepare M m)"
  unfolding pplive_prepare_def Let_def using assms
  by (intro contract_rules condition_rules) (simp_all add: value_simps del: allM.simps anyM.simps)

lemma pplive_udp_good:
  assumes "view_ok M m" "ds_flow m \<noteq> None" "pk_udp (ds_packet m) \<noteq> NULL"
  shows "good M m (pplive_udp M m)"
proof -
  have "good M m (pplive_vod M m)"
    unfolding pplive_vod_def using assms by (intro port_of_good contract_rules) simp_all
  then show ?thesis
    unfolding pplive_udp_def using assms
    by (intro contract_rules condition_rules pplive_datagram_total pplive_prepare_good)
       (simp_all add: value_simps del: allM.simps anyM.simps)
qed

lemma pplive_request_total:
  assumes "view_ok M m" "pk_packet_lines_parsed_complete (ds_packet m)"
  shows "\<exists>b. pplive_request M m = Some b"
proof -
  have v: "\<exists>b. pplive_version M m = Some b" if "0 < unat (pk_parsed_lines (ds_packet m))"
  proof -
    have "0 < length (pk_line (ds_packet m))" using assms(1) by (simp add: view_ok_def packet_ok_def arrays_200_def)
    moreover have "pk_line (ds_packet m) ! 0 \<in> set (lines_of m)"
      using that calculation by (auto simp: in_set_conv_nth intro!: exI [of _ 0])
    then have "unat (ol_len (pk_line (ds_packet m) ! 0)) \<le> unat (plen m)"
      using parsed_line_short [OF assms] by (simp add: word_le_nat_alt)
    ultimately show ?thesis
      unfolding pplive_version_def get_line_def using assms(1)
      by (simp only: if_True bind.bind_lunit) (intro condition_rules; simp)
  qed
  show ?thesis
    unfolding pplive_request_def Let_def using assms
    by (intro v condition_rules line_at_total noted_line_readable) (simp_all del: allM.simps anyM.simps)
qed

lemma pplive_segment_total: "view_ok M m \<Longrightarrow> \<exists>b. pplive_segment M m stage = Some b"
  unfolding pplive_segment_def pplive_length_def Let_def
  by (intro condition_rules) (auto simp: value_simps simp del: allM.simps anyM.simps)

lemma branch_total:
  "\<exists>b. c = Some b \<Longrightarrow> (c = Some True \<Longrightarrow> \<exists>r. x = Some r) \<Longrightarrow> (c = Some False \<Longrightarrow> \<exists>r. y = Some r) \<Longrightarrow> \<exists>r. branch c x y = Some r"
  by (auto simp: branch_def)

lemma pplive_step_total:
  assumes "view_ok M m"
  shows "\<exists>r. pplive_step M m a = Some r"
  unfolding pplive_step_def using assms
  by (intro branch_total condition_rules pay_readable) (auto simp: value_simps simp del: allM.simps anyM.simps)

lemma pplive_messages_total: "view_ok M m \<Longrightarrow> \<exists>b. pplive_messages M m sz = Some b"
proof -
  assume v: "view_ok M m"
  obtain r where r: "pplive_step M m sz = Some r" using pplive_step_total [OF v] by blast
  show ?thesis
  proof (cases r)
    case (Some a)
    then show ?thesis using r pplive_step_total [OF v, of a] by (auto simp: pplive_messages_def)
  qed (use r in \<open>auto simp: pplive_messages_def\<close>)
qed

lemma pplive_sized_total: "view_ok M m \<Longrightarrow> \<exists>b. pplive_sized M m sz = Some b"
  unfolding pplive_sized_def pplive_tag_def Let_def
  by (intro condition_rules pplive_messages_total) (auto simp: value_simps simp del: allM.simps anyM.simps)

lemma pplive_tcp_good:
  assumes "view_ok M m" "ds_flow m \<noteq> None"
  shows "good M m (pplive_tcp M m)"
  unfolding pplive_tcp_def Let_def using assms
  by (intro contract_rules condition_rules pplive_segment_total pplive_sized_total pay_readable_0)
     (simp_all add: value_simps del: allM.simps anyM.simps)

lemma pplive_good:
  assumes "view_ok M m" "ds_flow m \<noteq> None"
  shows "good M m (ipoque_search_pplive_tcp_udp M m)"
  unfolding ipoque_search_pplive_tcp_udp_def pplive_peers_def Let_def using assms
  by (intro if_good pplive_peer_good pplive_udp_good add_connection_good mark_flow_good exclude_good branch_good parse_then
      pplive_tcp_good pplive_request_total condition_rules)
     (simp_all add: value_simps del: allM.simps anyM.simps)

subsection \<open>DirectConnect\<close>

text \<open>The code that reads an SSL port from \<^verbatim>\<open>BINF\<close> and \<^verbatim>\<open>DCTM\<close> messages stands behind \<^verbatim>\<open>if (0)\<close> and is left out.\<close>

abbreviation (input) "dc_time \<equiv> ''directconnect_last_safe_access_time''"
abbreviation (input) "dc_recent a m \<equiv> recent a dc_time (ds_config m ''directconnect_connection_ip_tick_timeout'') m"
abbreviation (input) "dc_renew a m \<equiv> note_id a dc_time (unat (now m)) m"

text \<open>A port of a peer is noted once.\<close>

definition note_port :: "mem \<Rightarrow> addr \<Rightarrow> string \<Rightarrow> addr \<Rightarrow> nat \<Rightarrow> detection_module \<Rightarrow> detection_module option" where
  "note_port M a f hdr off m =
     do { p \<leftarrow> get_id_field a f m;
          if p = 0 then do { x \<leftarrow> port_of M hdr off; note_id a f x m } else Some m }"

definition int_directconnect_add_connection :: "mem \<Rightarrow> bool \<Rightarrow> detection_module \<Rightarrow> detection_module option" where
  "int_directconnect_add_connection M peer m =
     do { fl \<leftarrow> ds_flow m;
          m \<leftarrow> ipoque_int_add_connection IPOQUE_PROTOCOL_DIRECTCONNECT m;
          m \<leftarrow> dc_renew (ds_src m) m;
          let pk = ds_packet m;
          m \<leftarrow> (if ds_src m \<noteq> NULL \<and> peer \<and> pk_tcp pk \<noteq> NULL \<and> fl_setup_packet_direction fl \<noteq> pk_packet_direction pk
               then note_port M (ds_src m) ''detected_directconnect_port'' (pk_tcp pk) 0 m else Some m);
          m \<leftarrow> (if ds_src m \<noteq> NULL \<and> peer \<and> pk_udp pk \<noteq> NULL
               then note_port M (ds_src m) ''detected_directconnect_udp_port'' (pk_udp pk) 0 m else Some m);
          dc_renew (ds_dst m) m }"

text \<open>A peer is known by one of its ports while it was seen lately; otherwise that port is forgotten, and the packet not looked at.\<close>

definition dc_peer ::
    "mem \<Rightarrow> addr \<Rightarrow> string \<Rightarrow> addr \<Rightarrow> nat \<Rightarrow> (detection_module \<Rightarrow> detection_module option) \<Rightarrow> detection_module \<Rightarrow> detection_module option" where
  "dc_peer M a f hdr off next m =
     branch (id_port_is M a f hdr off m)
       (branch (dc_recent a m) (do { m \<leftarrow> mark_flow IPOQUE_PROTOCOL_DIRECTCONNECT m; dc_renew a m }) (note_id a f 0 m))
       (next m)"

definition dc_adc :: "mem \<Rightarrow> detection_module \<Rightarrow> detection_module option \<Rightarrow> detection_module option" where
  "dc_adc M m other =
     branch (allM [Some (11 \<le> plen m), anyM [mem_eq M (pay m) ''HSUP ADBAS0'', mem_eq M (pay m) ''HSUP ADBASE'']])
       (int_directconnect_add_connection M False m)
    (branch (allM [Some (11 \<le> plen m), anyM [mem_eq M (pay m) ''CSUP ADBAS0'', mem_eq M (pay m) ''CSUP ADBASE'']])
       (int_directconnect_add_connection M False m) other)"

definition dc_command :: "mem \<Rightarrow> detection_module \<Rightarrow> (u8 \<Rightarrow> bool) \<Rightarrow> bool option" where
  "dc_command M m first = allM [byte_is M (pay m) first, byte_is M (pay m + (unat (plen m) - 1)) ((=) 0x7c)]"

definition dc_exchange :: "mem \<Rightarrow> detection_module \<Rightarrow> detection_module option" where
  "dc_exchange M m =
     do { stage \<leftarrow> get_stage ''directconnect_stage'' m;
          let out = exclude IPOQUE_PROTOCOL_DIRECTCONNECT m;
          if stage = 0
          then branch (allM [Some (6 < plen m), dc_command M m ((=) 0x24), mem_eq M (pay m + 1) ''Lock ''])
                 (set_stage ''directconnect_stage'' 1 m)
              (branch (allM [Some (7 < plen m), dc_command M m ((=) 0x24), mem_eq M (pay m + 1) ''MyNick ''])
                 (set_stage ''directconnect_stage'' 2 m)
                 (dc_adc M m out))
          else if stage = 1
          then dc_adc M m (branch (allM [Some (6 < plen m), dc_command M m (\<lambda>x. x = 0x24 \<or> x = 0x3c)])
                             (int_directconnect_add_connection M False m) out)
          else branch (allM [Some (stage = 2), Some (6 < plen m), dc_command M m ((=) 0x24)])
                 (int_directconnect_add_connection M True m) out }"

definition ipoque_search_directconnect_tcp :: "mem \<Rightarrow> detection_module \<Rightarrow> detection_module option" where
  "ipoque_search_directconnect_tcp M m =
     (let tcp = pk_tcp (ds_packet m); src = ds_src m; dst = ds_dst m;
          port = ''detected_directconnect_port''; ssl = ''detected_directconnect_ssl_port'' in
      dc_peer M src port tcp 0 (dc_peer M src ssl tcp 2 (dc_peer M dst port tcp 2 (dc_peer M dst ssl tcp 2 (dc_exchange M)))) m)"

text \<open>
  A search result ends in \<^verbatim>\<open>(address)|\<close>, with the hash before the address. The bracket is looked for in at most 21 steps,
  which both ids share.
\<close>

fun dc_open :: "mem \<Rightarrow> addr \<Rightarrow> nat \<Rightarrow> nat \<Rightarrow> (nat \<times> nat) option" where
  "dc_open M p 0 count = Some (0, count)"
| "dc_open M p (Suc k) count =
     do { x \<leftarrow> M (p + Suc k); if x \<noteq> 0x28 \<and> count < 21 then dc_open M p k (count + 1) else Some (Suc k, count) }"

definition dc_result :: "mem \<Rightarrow> detection_module \<Rightarrow> nat \<Rightarrow> (bool \<times> nat) option" where
  "dc_result M m count =
     branch (byte_is M (pay m + (unat (plen m) - 2)) ((=) 0x29))
       (do { (pos, count) \<leftarrow> dc_open M (pay m) (unat (plen m) - 2) count;
             hit \<leftarrow> allM [byte_is M (pay m + pos) ((=) 0x28), Some (46 < pos), mem_eq M (pay m + (pos - 44)) ''TTH:''];
             Some (hit, count) })
       (Some (False, count))"

definition dc_search ::
    "mem \<Rightarrow> addr \<Rightarrow> nat \<Rightarrow> (nat \<Rightarrow> detection_module \<Rightarrow> detection_module option) \<Rightarrow> detection_module \<Rightarrow> detection_module option" where
  "dc_search M a count next m =
     branch (allM [id_has_protocol a IPOQUE_PROTOCOL_DIRECTCONNECT m, dc_command M m ((=) 0x24), mem_eq M (pay m + 1) ''SR ''])
       (do { (hit, count) \<leftarrow> dc_result M m count;
             if hit then int_directconnect_add_connection M True m
             else do { stage \<leftarrow> get_stage ''directconnect_stage'' m;
                       m \<leftarrow> set_stage ''directconnect_stage'' ((stage + 1) mod 4) m;
                       if (stage + 1) mod 4 < 3 then Some m else next count m } })
       (next count m)"

definition ipoque_search_directconnect_udp :: "mem \<Rightarrow> detection_module \<Rightarrow> detection_module option" where
  "ipoque_search_directconnect_udp M m =
     dc_peer M (ds_dst m) ''detected_directconnect_udp_port'' (pk_udp (ds_packet m)) 2
       (\<lambda>m. if 58 < plen m
            then dc_search M (ds_src m) 0 (\<lambda>count. dc_search M (ds_dst m) count (\<lambda>_. exclude IPOQUE_PROTOCOL_DIRECTCONNECT)) m
            else exclude IPOQUE_PROTOCOL_DIRECTCONNECT m) m"

text \<open>A detected packet of peers not seen lately loses its protocol; the flow keeps it.\<close>

definition ipoque_search_directconnect :: "mem \<Rightarrow> detection_module \<Rightarrow> detection_module option" where
  "ipoque_search_directconnect M m =
     (if detected IPOQUE_PROTOCOL_DIRECTCONNECT m
      then branch (dc_recent (ds_src m) m) (dc_renew (ds_src m) m)
          (branch (dc_recent (ds_dst m) m) (dc_renew (ds_dst m) m)
             (Some (m\<lparr>ds_packet := (ds_packet m)\<lparr>pk_detected_protocol := of_nat IPOQUE_PROTOCOL_UNKNOWN\<rparr>\<rparr>)))
      else do { m \<leftarrow> (if pk_tcp (ds_packet m) \<noteq> NULL then ipoque_search_directconnect_tcp M m else Some m);
                if pk_udp (ds_packet m) \<noteq> NULL then ipoque_search_directconnect_udp M m else Some m })"

lemma note_port_good:
  assumes "view_ok M m" "a \<noteq> NULL" "a = ds_src m \<or> a = ds_dst m" "off + 2 \<le> 8" "hdr \<noteq> NULL"
    and "hdr = pk_tcp (ds_packet m) \<or> hdr = pk_udp (ds_packet m)"
  shows "good M m (note_port M a f hdr off m)"
  unfolding note_port_def using assms by (intro get_id_field_good if_good port_of_good note_id_good good_Some) simp_all

lemma directconnect_add_good:
  assumes "view_ok M m" "ds_flow m \<noteq> None"
  shows "good M m (int_directconnect_add_connection M peer m)"
proof -
  obtain fl where fl: "ds_flow m = Some fl" using assms(2) by blast
  show ?thesis
    unfolding int_directconnect_add_connection_def Let_def fl bind.bind_lunit using assms
    by (intro contract_rules note_port_good) (simp_all add: same_windows_def)
qed

lemma dc_peer_good:
  assumes "view_ok M m" "ds_flow m \<noteq> None" "a = ds_src m \<or> a = ds_dst m" "off + 2 \<le> 8" "hdr \<noteq> NULL"
    and "hdr = pk_tcp (ds_packet m) \<or> hdr = pk_udp (ds_packet m)" "good M m (next m)"
  shows "good M m (dc_peer M a f hdr off next m)"
  unfolding dc_peer_def using assms
  by (intro contract_rules id_port_total recent_total mark_flow_good) simp_all

lemma dc_command_total: "view_ok M m \<Longrightarrow> 0 < unat (plen m) \<Longrightarrow> \<exists>b. dc_command M m P = Some b"
  unfolding dc_command_def by (intro condition_rules) simp_all

lemma directconnect_tcp_good:
  assumes "view_ok M m" "ds_flow m \<noteq> None" "pk_tcp (ds_packet m) \<noteq> NULL"
  shows "good M m (ipoque_search_directconnect_tcp M m)"
proof -
  have "good M m (dc_exchange M m)"
    unfolding dc_exchange_def dc_adc_def Let_def using assms
    by (intro contract_rules condition_rules dc_command_total directconnect_add_good)
       (simp_all add: value_simps del: allM.simps anyM.simps)
  then show ?thesis unfolding ipoque_search_directconnect_tcp_def Let_def using assms by (intro dc_peer_good) simp_all
qed

lemma dc_open_total: "readable M p (Suc k) \<Longrightarrow> \<exists>j c. dc_open M p k count = Some (j, c) \<and> j \<le> k"
proof (induction k arbitrary: count)
  case (Suc k)
  obtain x where "M (p + Suc k) = Some x" using readable_at [OF Suc.prems, of "p + Suc k"] by auto
  moreover obtain j c where "dc_open M p k (count + 1) = Some (j, c)" "j \<le> k"
    using Suc.IH [of "count + 1"] readable_mono [OF Suc.prems, of "Suc k"] by auto
  ultimately show ?case by (auto simp: le_Suc_eq)
qed simp

lemma dc_result_total:
  assumes "view_ok M m" "2 \<le> unat (plen m)"
  shows "\<exists>hit c. dc_result M m count = Some (hit, c)"
proof -
  let ?n = "unat (plen m)"
  have "readable M (pay m) (Suc (?n - 2))" by (rule pay_readable_0 [OF assms(1)]) (use assms(2) in simp)
  then obtain j c where j: "dc_open M (pay m) (?n - 2) count = Some (j, c)" "j \<le> ?n - 2" using dc_open_total by blast
  have "\<exists>b. allM [byte_is M (pay m + j) ((=) 0x28), Some (46 < j), mem_eq M (pay m + (j - 44)) ''TTH:''] = Some b"
    using assms j(2) by (intro condition_rules) simp_all
  moreover have "\<exists>b. byte_is M (pay m + (?n - 2)) ((=) 0x29) = Some b" using assms by (intro condition_rules) simp_all
  ultimately show ?thesis unfolding dc_result_def branch_def j(1) by (auto simp del: allM.simps)
qed

lemma dc_search_good:
  assumes "view_ok M m" "ds_flow m \<noteq> None" "a = ds_src m \<or> a = ds_dst m" "58 < plen m"
    and rest: "\<And>c m'. view_ok M m' \<Longrightarrow> ds_flow m' \<noteq> None \<Longrightarrow> same_windows (ds_packet m) (ds_packet m')
      \<Longrightarrow> ds_src m' = ds_src m \<Longrightarrow> ds_dst m' = ds_dst m \<Longrightarrow> good M m' (next c m')"
  shows "good M m (dc_search M a count next m)"
proof -
  have p: "58 < unat (plen m)" using assms(4) by (simp add: word_less_nat_alt)
  obtain hit c where r: "dc_result M m count = Some (hit, c)" using dc_result_total [OF assms(1)] p by force
  have "\<exists>b. id_has_protocol a IPOQUE_PROTOCOL_DIRECTCONNECT m = Some b" using either_has_total [OF assms(1)] assms(3) by blast
  then show ?thesis
    unfolding dc_search_def r bind.bind_lunit prod.case using assms(1-4) p
    by (intro contract_rules condition_rules dc_command_total directconnect_add_good rest)
       (simp_all add: value_simps del: allM.simps anyM.simps)
qed

lemma directconnect_udp_good:
  assumes "view_ok M m" "ds_flow m \<noteq> None" "pk_udp (ds_packet m) \<noteq> NULL"
  shows "good M m (ipoque_search_directconnect_udp M m)"
  unfolding ipoque_search_directconnect_udp_def using assms
  by (intro dc_peer_good if_good dc_search_good exclude_good) (simp_all add: same_windows_def)

lemma directconnect_good:
  assumes "view_ok M m" "ds_flow m \<noteq> None"
  shows "good M m (ipoque_search_directconnect M m)"
proof -
  have "good M m (Some (m\<lparr>ds_packet := (ds_packet m)\<lparr>pk_detected_protocol := of_nat IPOQUE_PROTOCOL_UNKNOWN\<rparr>\<rparr>))"
    using assms(1) by (auto simp: good_def view_ok_def ids_ok_def protocols_ok_def step_ok_def same_windows_def excl_def)
  then show ?thesis
    unfolding ipoque_search_directconnect_def using assms
    by (intro contract_rules recent_total directconnect_tcp_good directconnect_udp_good) (simp_all add: same_windows_def)
qed

end
