(* ===== verification/Ipq_Download.thy ===== *)
theory Ipq_Download
  imports Ipq_Services "HOL-Library.Sublist"
begin

text \<open>
  Direct downloads (\<^verbatim>\<open>directdownloadlink.c\<close>): HTTP requests whose host is one of 71 sites. The source compares the
  host in nested blocks, one per shared ending, that a program generated; the blocks are data here, run by \<open>ddl_match\<close>,
  and proved to accept a host exactly if a site of the list \<open>download_sites\<close> ends it after a space or a dot.
\<close>

subsection \<open>The nested comparisons\<close>

text \<open>
  A block compares the bytes before the offset it stands at. \<open>Site s\<close> accepts \<open>s\<close> after a space or a dot; \<open>Ending s rs stop\<close>
  enters its own blocks below \<open>s\<close>, and the search is over after them if it ends in \<^verbatim>\<open>goto end_ddl_nothing_found\<close>.
\<close>

datatype ddl_rule = Site string | Ending string "ddl_rule list" bool

text \<open>None: no block of the list has decided. The first \<open>n - off\<close> bytes at \<open>p\<close> are still to be compared.\<close>

fun ddl_match :: "mem \<Rightarrow> addr \<Rightarrow> nat \<Rightarrow> nat \<Rightarrow> ddl_rule list \<Rightarrow> bool option option" where
  "ddl_match M p n off [] = Some None"
| "ddl_match M p n off (Site s # rs) =
     branch (allM [Some (off + length s + 1 \<le> n), mem_eq M (p + (n - off - length s)) s,
                   byte_is M (p + (n - off - length s - 1)) (\<lambda>c. c = 0x20 \<or> c = 0x2e)])
       (Some (Some True)) (ddl_match M p n off rs)"
| "ddl_match M p n off (Ending s sub stop # rs) =
     branch (allM [Some (off + length s \<le> n), mem_eq M (p + (n - off - length s)) s])
       (do { r \<leftarrow> ddl_match M p n (off + length s) sub;
             case r of Some b \<Rightarrow> Some (Some b) | None \<Rightarrow> if stop then Some (Some False) else ddl_match M p n off rs })
       (ddl_match M p n off rs)"

definition ddl_com_d :: ddl_rule where
  "ddl_com_d =
     Ending ''d'' [Site ''4share'', Site ''fileclou'', Ending ''uploa'' [Site ''files-'', Site ''mega'',
      Site ''rapid'', Site ''turbo''] True] True"

definition ddl_com_o :: ddl_rule where
  "ddl_com_o =
     Ending ''o'' [Site ''badong'', Site ''fileh''] True"

definition ddl_com_g :: ddl_rule where
  "ddl_com_g =
     Ending ''g'' [Ending ''in'' [Ending ''shar'' [Site ''best'', Site ''quick''] True, Site ''upload''] True,
      Site ''sharebi''] True"

definition ddl_com_e_fil :: ddl_rule where
  "ddl_com_e_fil =
     Ending ''fil'' [Ending ''mo'' [Site ''china'', Site ''''] False, Site ''hot'', Site ''keepmy'', Ending ''e''
      [Site ''sav'', Site ''sendm''] True, Site ''sharebig'', Site ''up-''] True"

definition ddl_com_e_r :: ddl_rule where
  "ddl_com_e_r =
     Ending ''r'' [Ending ''sha'' [Ending ''-'' [Site ''easy'', Site ''fast'', Site ''live''] True, Site ''ftp2'',
      Site ''gige'', Site ''mega'', Site ''rapid''] True, Site ''mediafi''] True"

definition ddl_com_e :: ddl_rule where
  "ddl_com_e =
     Ending ''e'' [ddl_com_e_fil, ddl_com_e_r, Site ''gigasiz'', Site ''sendspac'', Site ''sharebe'',
      Site ''sharebigfli''] True"

definition ddl_com :: ddl_rule where
  "ddl_com =
     Ending ''.com'' [ddl_com_d, ddl_com_o, ddl_com_g, Site ''bigfilez'', ddl_com_e, Ending ''s'' [Ending ''e''
      [Site ''depositfil'', Site ''megashar''] True, Site ''fileupyour''] True, Site ''filefactory'', Ending ''t''
      [Site ''filefron'', Site ''uploadingi'', Site ''yourfilehos''] True, Ending ''r'' [Site ''mytempdi'',
      Site ''uploadpowe''] True] True"

definition ddl_net :: ddl_rule where
  "ddl_net =
     Ending ''.net'' [Site ''badongo'', Ending ''d'' [Ending ''loa'' [Site ''fast-'', Ending ''up'' [Site ''file-'',
      Site ''simple'', Site ''wii''] True] True, Site ''filesen''] True, Site ''filer'', Site ''livedepot'',
      Ending ''e'' [Site ''mofil'', Site ''odsiebie.najlepsz'', Site ''zshar''] True] True"

definition ddl_to :: ddl_rule where
  "ddl_to =
     Ending ''.to'' [Ending ''e'' [Site ''filesaf'', Site ''sharebas''] True, Site ''files'', Ending ''d''
      [Ending ''loa'' [Site ''file-up'', Site ''''] False, Site ''uploade''] True] True"

definition ddl_de :: ddl_rule where
  "ddl_de =
     Ending ''.de'' [Ending ''share'' [Site ''rapid'', Site ''ultra''] True, Site ''uploadyourfiles''] True"

definition ddl_rules :: "ddl_rule list" where
  "ddl_rules =
     [ddl_com, ddl_net, Ending ''u'' [Site ''data.h'', Ending ''.r'' [Site ''filearchiv'', Site ''filepost'',
      Site ''ifolder''] True] True, Site ''filehost.tv'', ddl_to, Ending ''z'' [Site ''leteckaposta.c'',
      Site ''yourfiles.bi''] True, Site ''netload.in'', ddl_de, Site ''speedshare.org'']"

text \<open>The sites, and the sites a list of blocks stands for.\<close>

definition download_sites :: "string list" where
  "download_sites =
     [''4shared.com'', ''filecloud.com'', ''files-upload.com'', ''megaupload.com'', ''rapidupload.com'',
      ''turboupload.com'', ''badongo.com'', ''fileho.com'', ''bestsharing.com'', ''quicksharing.com'',
      ''uploading.com'', ''sharebig.com'', ''bigfilez.com'', ''chinamofile.com'', ''mofile.com'', ''hotfile.com'',
      ''keepmyfile.com'', ''savefile.com'', ''sendmefile.com'', ''sharebigfile.com'', ''up-file.com'',
      ''easy-share.com'', ''fast-share.com'', ''live-share.com'', ''ftp2share.com'', ''gigeshare.com'',
      ''megashare.com'', ''rapidshare.com'', ''mediafire.com'', ''gigasize.com'', ''sendspace.com'', ''sharebee.com'',
      ''sharebigflie.com'', ''depositfiles.com'', ''megashares.com'', ''fileupyours.com'', ''filefactory.com'',
      ''filefront.com'', ''uploadingit.com'', ''yourfilehost.com'', ''mytempdir.com'', ''uploadpower.com'',
      ''badongo.net'', ''fast-load.net'', ''file-upload.net'', ''simpleupload.net'', ''wiiupload.net'',
      ''filesend.net'', ''filer.net'', ''livedepot.net'', ''mofile.net'', ''odsiebie.najlepsze.net'', ''zshare.net'',
      ''data.hu'', ''filearchiv.ru'', ''filepost.ru'', ''ifolder.ru'', ''filehost.tv'', ''filesafe.to'',
      ''sharebase.to'', ''files.to'', ''file-upload.to'', ''load.to'', ''uploaded.to'', ''leteckaposta.cz'',
      ''yourfiles.biz'', ''netload.in'', ''rapidshare.de'', ''ultrashare.de'', ''uploadyourfiles.de'',
      ''speedshare.org'']"

fun ddl_sites :: "ddl_rule list \<Rightarrow> string list" where
  "ddl_sites [] = []"
| "ddl_sites (Site s # rs) = s # ddl_sites rs"
| "ddl_sites (Ending s sub stop # rs) = List.map (\<lambda>d. d @ s) (ddl_sites sub) @ ddl_sites rs"

text \<open>A host that ends in a site, after a space or a dot.\<close>

definition site_at :: "bytes \<Rightarrow> string \<Rightarrow> bool" where
  "site_at h d \<longleftrightarrow> (\<exists>q c. h = q @ c # lit d \<and> (c = 0x20 \<or> c = 0x2e))"

text \<open>The blocks on the bytes of the host.\<close>

fun ddl_hit :: "bytes \<Rightarrow> ddl_rule list \<Rightarrow> bool option" where
  "ddl_hit h [] = None"
| "ddl_hit h (Site s # rs) = (if site_at h s then Some True else ddl_hit h rs)"
| "ddl_hit h (Ending s sub stop # rs) =
     (if suffix (lit s) h
      then (case ddl_hit (take (length h - length s) h) sub of
              Some b \<Rightarrow> Some b | None \<Rightarrow> if stop then Some False else ddl_hit h rs)
      else ddl_hit h rs)"

text \<open>
  The blocks lose no site: what follows a block that ends the search has no ending in common with it, and a block that falls
  through holds sites only.
\<close>

fun is_site :: "ddl_rule \<Rightarrow> bool" where
  "is_site (Site s) = True"
| "is_site (Ending s sub stop) = False"

fun ddl_apart :: "ddl_rule list \<Rightarrow> bool" where
  "ddl_apart [] = True"
| "ddl_apart (Site s # rs) = ddl_apart rs"
| "ddl_apart (Ending s sub stop # rs) =
     (ddl_apart sub \<and> ddl_apart rs
      \<and> (if stop then list_all (\<lambda>d. \<not> suffix s d \<and> \<not> suffix d s) (ddl_sites rs) else list_all is_site sub))"

subsection \<open>The blocks accept exactly the sites\<close>

lemma lit_inj: "lit a = lit b \<longleftrightarrow> a = b"
proof -
  have "inj (\<lambda>c. of_nat (of_char c) :: u8)"
    by (rule injI) (simp add: word_of_nat_eq_iff take_bit_eq_mod of_char_mod_256)
  then show ?thesis by (simp add: lit_def inj_map_eq_map)
qed

lemma lit_append: "lit (a @ b) = lit a @ lit b"
  by (simp add: lit_def)

lemma suffix_lit: "suffix (lit a) (lit b) \<longleftrightarrow> suffix a b"
proof
  assume "suffix (lit a) (lit b)"
  then obtain q where "lit b = q @ lit a" by (auto simp: suffix_def)
  then obtain q' a' where "b = q' @ a'" "lit a' = lit a" unfolding lit_def by (auto simp: map_eq_append_conv)
  then show "suffix a b" by (simp add: lit_inj suffix_def)
qed (auto simp: suffix_def lit_append)

lemma suffix_drop: "length s \<le> length t \<Longrightarrow> suffix s t \<longleftrightarrow> drop (length t - length s) t = s"
  unfolding suffix_def by (metis append_eq_conv_conj append_take_drop_id diff_diff_cancel length_append length_drop add_diff_cancel_right')

lemma suffix_at:
  assumes "holds M p h" "k \<le> length h" "length s \<le> k"
  shows "mem_eq M (p + (k - length s)) s = Some (suffix (lit s) (take k h))"
proof -
  have "holds M (p + (k - length s)) (drop (k - length s) (take k h))"
    using holds_segment [OF assms(1), of "k - length s" k] assms(2,3) by (simp add: segment_def drop_take)
  then have "mem_eq M (p + (k - length s)) s = Some (drop (k - length s) (take k h) = lit s)"
    by (rule mem_eq_holds) (use assms(2,3) in simp)
  then show ?thesis using suffix_drop [of "lit s" "take k h"] assms(2,3) by simp
qed

lemma site_at_last:
  "site_at h d \<longleftrightarrow> length d < length h \<and> suffix (lit d) h \<and> h ! (length h - length d - 1) \<in> {0x20, 0x2e}"
proof
  assume r: "length d < length h \<and> suffix (lit d) h \<and> h ! (length h - length d - 1) \<in> {0x20, 0x2e}"
  then obtain q where q: "h = q @ lit d" by (auto simp: suffix_def)
  then have "q \<noteq> []" using r by auto
  then obtain q' c where "q = q' @ [c]" by (metis append_butlast_last_id)
  then show "site_at h d" using r q by (auto simp: site_at_def nth_append)
qed (auto simp: site_at_def suffix_def nth_append intro!: exI [of _ "_ @ [_]"])

lemma match_hit:
  assumes "holds M p h" "n = length h" "off \<le> n"
  shows "ddl_match M p n off rs = Some (ddl_hit (take (n - off) h) rs)"
  using assms
proof (induction M p n off rs rule: ddl_match.induct)
  case (1 M p n off)
  then show ?case by simp
next
  case (2 M p n off s rs)
  let ?g = "take (n - off) h"
  have "allM [Some (off + length s + 1 \<le> n), mem_eq M (p + (n - off - length s)) s,
      byte_is M (p + (n - off - length s - 1)) (\<lambda>c. c = 0x20 \<or> c = 0x2e)] = Some (site_at ?g s)"
  proof (cases "off + length s + 1 \<le> n")
    case True
    then have "mem_eq M (p + (n - off - length s)) s = Some (suffix (lit s) ?g)"
      using suffix_at [of M p h "n - off" s] "2.prems" by simp
    moreover have "M (p + (n - off - length s - 1)) = Some (?g ! (n - off - length s - 1))"
      using holds_at [OF "2.prems"(1), of "n - off - length s - 1"] "2.prems"(2,3) True by simp
    moreover have "length s < length h - off" using True "2.prems"(2) by simp
    ultimately show ?thesis using True "2.prems"(2,3) by (simp add: site_at_last byte_is_def)
  next
    case False
    moreover from this have "\<not> length s < length h - off" using "2.prems"(2,3) by simp
    ultimately show ?thesis using "2.prems"(2,3) by (simp add: site_at_last)
  qed
  then show ?case using 2 by (simp add: branch_def del: allM.simps)
next
  case (3 M p n off s sub stop rs)
  let ?g = "take (n - off) h"
  have c: "allM [Some (off + length s \<le> n), mem_eq M (p + (n - off - length s)) s] = Some (suffix (lit s) ?g)"
  proof (cases "off + length s \<le> n")
    case True
    then show ?thesis using suffix_at [of M p h "n - off" s] "3.prems" by simp
  next
    case False
    then have "\<not> suffix (lit s) ?g" using "3.prems"(2,3) by (auto dest: suffix_length_le)
    then show ?thesis using False by simp
  qed
  show ?case
  proof (cases "suffix (lit s) ?g")
    case True
    then have l: "off + length s \<le> n" using "3.prems"(2,3) by (auto dest: suffix_length_le)
    have g: "length ?g = n - off" using "3.prems"(2) by simp
    have t: "take (length ?g - length s) ?g = take (n - (off + length s)) h"
      unfolding g take_take by (simp add: min_def)
    obtain r where r: "ddl_hit (take (length ?g - length s) ?g) sub = r" by blast
    moreover from this have "ddl_match M p n (off + length s) sub = Some r"
      using "3.IH"(1) [OF "3.prems"(1,2) l] t by simp
    ultimately show ?thesis using True c "3.IH"(2) [OF _ _ _ "3.prems"]
      by (cases r) (auto simp: branch_def simp del: allM.simps)
  next
    case False
    then show ?thesis using c 3 by (simp add: branch_def del: allM.simps)
  qed
qed

lemma site_at_append: "site_at (h @ lit s) (d @ s) \<longleftrightarrow> site_at h d"
  by (auto simp: site_at_def lit_append)

lemma apart_site:
  assumes "site_at h d" "suffix (lit s) h"
  shows "suffix s d \<or> suffix d s"
proof -
  have "suffix (lit d) h" using assms(1) by (simp add: site_at_last)
  then have "suffix (lit s) (lit d) \<or> suffix (lit d) (lit s)" using assms(2) suffix_same_cases by blast
  then show ?thesis by (simp add: suffix_lit)
qed

lemma sites_only: "list_all is_site rs \<Longrightarrow> ddl_hit h rs \<noteq> Some False"
  by (induction h rs rule: ddl_hit.induct) auto

lemma hit_exact: "ddl_apart rs \<Longrightarrow> ddl_hit h rs = Some True \<longleftrightarrow> (\<exists>d\<in>set (ddl_sites rs). site_at h d)"
proof (induction h rs rule: ddl_hit.induct)
  case (3 h s sub stop rs)
  show ?case
  proof (cases "suffix (lit s) h")
    case True
    then obtain g where h: "h = g @ lit s" by (auto simp: suffix_def)
    have sub: "ddl_hit g sub = Some True \<longleftrightarrow> (\<exists>d\<in>set (ddl_sites sub). site_at h (d @ s))"
      using "3.IH"(1) 3(4) True by (simp add: h site_at_append)
    have rest: "ddl_hit h rs = Some True \<longleftrightarrow> (\<exists>d\<in>set (ddl_sites rs). site_at h d)"
      if "ddl_hit g sub = None" "\<not> stop"
      using "3.IH"(2) 3(4) True that by (simp add: h)
    have none: "\<not> (\<exists>d\<in>set (ddl_sites rs). site_at h d)" if stop
      using 3(4) that apart_site [OF _ True] by (auto simp: list_all_iff)
    have "ddl_hit g sub \<noteq> Some False" if "\<not> stop" using 3(4) that sites_only by simp
    then show ?thesis using True sub rest none
      by (cases "ddl_hit g sub"; cases stop) (auto simp: h)
  next
    case False
    then have "\<not> site_at h (d @ s)" for d
      by (auto simp: site_at_def suffix_def lit_append)
    then show ?thesis using False "3.IH"(3) 3(4) by auto
  qed
qed auto

lemma rules_apart: "ddl_apart ddl_rules"
  by code_simp

lemma rules_sites: "ddl_sites ddl_rules = download_sites"
  by code_simp

subsection \<open>The dissector\<close>

text \<open>
  The port at the end of the host: its digits are counted in a \<^verbatim>\<open>u8\<close>, which wraps around after 255 of them and then
  points at the byte behind the line. That byte is the carriage return, which ends the count.
\<close>

partial_function (option) ddl_digits :: "mem \<Rightarrow> addr \<Rightarrow> nat \<Rightarrow> nat \<Rightarrow> nat option" where
  "ddl_digits M p n i =
     (if i \<le> n then do { x \<leftarrow> M (p + n - i); if digit x then ddl_digits M p n ((i + 1) mod 256) else Some i } else Some i)"

definition ddl_host_len :: "mem \<Rightarrow> one_line \<Rightarrow> nat option" where
  "ddl_host_len M l =
     (let n = unat (ol_len l); p = ol_ptr l in
      branch (allM [Some (1 \<le> n), byte_is M (p + (n - 1)) digit])
        (do { i \<leftarrow> ddl_digits M p n 2;
              branch (allM [Some (i \<le> n), byte_is M (p + n - i) ((=) 0x3a)]) (Some (n - i)) (Some n) })
        (Some n))"

definition int_direct_download_link_add_connection :: "detection_module \<Rightarrow> detection_module option" where
  "int_direct_download_link_add_connection m =
     do { m \<leftarrow> set_stage ''ddlink_server_direction'' (dirn m) m;
          ipoque_int_add_connection IPOQUE_PROTOCOL_DIRECT_DOWNLOAD_LINK m }"

definition ddl_request ::
    "mem \<Rightarrow> nat \<Rightarrow> (bool \<Rightarrow> detection_module \<Rightarrow> detection_module option) \<Rightarrow> detection_module \<Rightarrow> detection_module option" where
  "ddl_request M filename_start k m =
     (let h = pk_host_line (ds_packet m) in
      if ol_ptr h = NULL then k False m
      else do {
        line \<leftarrow> get_line (pk_line (ds_packet m)) 0;
        branch (allM [Some (9 + filename_start \<le> unat (ol_len line)),
                      mem_eq M (ol_ptr line + (unat (ol_len line) - 9)) '' HTTP/1.''])
          (do { n \<leftarrow> ddl_host_len M h;
                r \<leftarrow> ddl_match M (ol_ptr h) n 0 ddl_rules;
                if r = Some True then do { m \<leftarrow> int_direct_download_link_add_connection m; k True m } else k False m })
          (k False m) })"

definition search_ddl_domains ::
    "mem \<Rightarrow> (bool \<Rightarrow> detection_module \<Rightarrow> detection_module option) \<Rightarrow> detection_module \<Rightarrow> detection_module option" where
  "search_ddl_domains M k m =
     branch (allM [Some (100 \<le> plen m), mem_eq M (pay m) ''POST '']) (do { m \<leftarrow> parse_lines M m; ddl_request M 5 k m })
    (branch (allM [Some (100 \<le> plen m), mem_eq M (pay m) ''GET '']) (do { m \<leftarrow> parse_lines M m; ddl_request M 4 k m })
       (k False m))"

text \<open>
  A client that wants the traffic counted registers a callback; it is given numbers only, and nothing of the module depends
  on it. The search goes on in \<open>k\<close> with its result.
\<close>

definition ipoque_search_direct_download_link_tcp :: "mem \<Rightarrow> detection_module \<Rightarrow> detection_module option" where
  "ipoque_search_direct_download_link_tcp M m =
     (if ds_config m ''direct_download_link_counter_callback'' \<noteq> 0
      then if detected IPOQUE_PROTOCOL_DIRECT_DOWNLOAD_LINK m
           then do { d \<leftarrow> get_stage ''ddlink_server_direction'' m;
                     if dirn m = d then search_ddl_domains M (\<lambda>_. Some) m else Some m }
           else Some m
      else if \<not> detected IPOQUE_PROTOCOL_DIRECT_DOWNLOAD_LINK m
      then search_ddl_domains M (\<lambda>found m. if found then Some m else exclude IPOQUE_PROTOCOL_DIRECT_DOWNLOAD_LINK m) m
      else Some m)"

lemma ddl_digits_total:
  assumes "readable M p n" "M (p + n) = Some 0x0d" "0 < i" "i < 256"
  shows "\<exists>j. ddl_digits M p n i = Some j \<and> (j = 0 \<or> i \<le> j)"
  using assms(3,4)
proof (induction "256 - i" arbitrary: i rule: less_induct)
  case less
  show ?case
  proof (cases "i \<le> n")
    case True
    have "n - i < n" using True less.prems(1) by simp
    then have "M (p + (n - i)) \<noteq> None" using assms(1) unfolding readable_def by blast
    then obtain x where x: "M (p + n - i) = Some x" using True by auto
    have z: "ddl_digits M p n 0 = Some 0" by (subst ddl_digits.simps) (simp add: assms(2) digit_def)
    show ?thesis
    proof (cases "digit x")
      case d: True
      show ?thesis
      proof (cases "i + 1 < 256")
        case True
        then have "\<exists>j. ddl_digits M p n (i + 1) = Some j \<and> (j = 0 \<or> i + 1 \<le> j)" by (intro less.hyps) simp_all
        then show ?thesis using \<open>i \<le> n\<close> x d True by (subst ddl_digits.simps) auto
      next
        case False
        then have "i = 255" using less.prems by simp
        then show ?thesis using \<open>i \<le> n\<close> x d z by (subst ddl_digits.simps) auto
      qed
    qed (use True x in \<open>subst ddl_digits.simps, simp\<close>)
  qed (subst ddl_digits.simps, simp)
qed

lemma ddl_host_len_total:
  assumes "readable M (ol_ptr l) (unat (ol_len l))" "M (ol_ptr l + unat (ol_len l)) = Some 0x0d"
  shows "\<exists>n. ddl_host_len M l = Some n \<and> n \<le> unat (ol_len l)"
proof -
  let ?n = "unat (ol_len l)" and ?p = "ol_ptr l"
  obtain i where i: "ddl_digits M ?p ?n 2 = Some i" "i = 0 \<or> 2 \<le> i" using ddl_digits_total [OF assms, of 2] by auto
  have "readable M (?p + ?n - i) 1" if "i \<le> ?n"
  proof -
    have "i \<noteq> 0 \<longrightarrow> ?n - i < ?n" using that by simp
    then have "i \<noteq> 0 \<longrightarrow> M (?p + (?n - i)) \<noteq> None" using assms(1) unfolding readable_def by blast
    then show ?thesis using assms(2) that by (cases "i = 0") (auto simp: readable_def)
  qed
  then have c: "\<exists>b. allM [Some (i \<le> ?n), byte_is M (?p + ?n - i) ((=) 0x3a)] = Some b"
    by (intro cond_total byte_is_total) simp_all
  have "\<exists>b. allM [Some (1 \<le> ?n), byte_is M (?p + (?n - 1)) digit] = Some b"
    by (intro cond_total line_total(2) [OF assms(1)]) simp_all
  then show ?thesis unfolding ddl_host_len_def Let_def i(1) branch_def using c by (auto simp del: allM.simps)
qed

lemma ddl_request_good:
  assumes m: "view_ok M m" "ds_flow m \<noteq> None" "pk_packet_lines_parsed_complete (ds_packet m)"
    and k: "\<And>b m'. view_ok M m' \<Longrightarrow> ds_flow m' \<noteq> None \<Longrightarrow> good M m' (k b m')"
  shows "good M m (ddl_request M fs k m)"
proof (cases "ol_ptr (pk_host_line (ds_packet m)) = NULL")
  case True
  then show ?thesis using k [OF m(1,2)] by (simp add: ddl_request_def)
next
  case h: False
  let ?h = "pk_host_line (ds_packet m)"
  have ok: "http_ok M (ds_packet m)" "lines_ok M (ds_packet m)" using m(1,3) by (simp_all add: view_ok_def packet_ok_def)
  have r: "readable M (ol_ptr ?h) (unat (ol_len ?h))" by (rule noted_line_readable(1) [OF m(1,3) h])
  have "M (ol_ptr ?h + unat (ol_len ?h)) = Some 0x0d" using ok(1) h by (simp add: http_ok_def host_ok_def)
  then obtain n where n: "ddl_host_len M ?h = Some n" "n \<le> unat (ol_len ?h)" using ddl_host_len_total [OF r] by blast
  obtain hs where hs: "holds M (ol_ptr ?h) hs" "length hs = n" using holds_exists [OF readable_mono [OF r n(2)]] by blast
  obtain x where x: "ddl_match M (ol_ptr ?h) n 0 ddl_rules = Some x" using match_hit [OF hs(1), of n 0] hs(2) by auto
  have add: "good M m (int_direct_download_link_add_connection m \<bind> k True)"
    unfolding int_direct_download_link_add_connection_def using m(1,2) by (intro contract_rules k) simp_all
  have "\<exists>b. (get_line (pk_line (ds_packet m)) 0 \<bind> (\<lambda>line. allM [Some (9 + fs \<le> unat (ol_len line)),
      mem_eq M (ol_ptr line + (unat (ol_len line) - 9)) '' HTTP/1.''])) = Some b"
    using m(1,3) ok(2) h
    by (intro line_at_cond cond_total line_total(6)) (simp_all add: lines_ok_def word_less_nat_alt del: allM.simps)
  then obtain line b where line: "get_line (pk_line (ds_packet m)) 0 = Some line"
    "allM [Some (9 + fs \<le> unat (ol_len line)), mem_eq M (ol_ptr line + (unat (ol_len line) - 9)) '' HTTP/1.''] = Some b"
    by (cases "get_line (pk_line (ds_packet m)) 0") (auto simp del: allM.simps)
  show ?thesis
    unfolding ddl_request_def Let_def if_not_P [OF h] line(1) bind.bind_lunit branch_def line(2) n(1) x
    using add k [OF m(1,2)] by simp
qed

lemma search_ddl_good:
  assumes "view_ok M m" "ds_flow m \<noteq> None"
    and k: "\<And>b m'. view_ok M m' \<Longrightarrow> ds_flow m' \<noteq> None \<Longrightarrow> good M m' (k b m')"
  shows "good M m (search_ddl_domains M k m)"
  unfolding search_ddl_domains_def using assms(1,2)
  by (intro branch_good parse_then ddl_request_good k condition_rules)
     (simp_all add: value_simps del: allM.simps anyM.simps)

lemma direct_download_good:
  assumes "view_ok M m" "ds_flow m \<noteq> None"
  shows "good M m (ipoque_search_direct_download_link_tcp M m)"
  unfolding ipoque_search_direct_download_link_tcp_def using assms
  by (intro if_good get_stage_good search_ddl_good good_Some exclude_good) simp_all

end
