(* ===== verification/Ipq_Gadu.thy ===== *)
theory Ipq_Gadu
  imports Ipq_Peers
begin

text \<open>
  Gadu-Gadu (\<^verbatim>\<open>gadu_gadu.c\<close>): requests of its web services, logins at the ports 443 and 8074, and transfers between
  hosts announced in a login.
\<close>

subsection \<open>Web services\<close>

text \<open>Bytes copied into an array of an id, one field per index.\<close>

fun note_bytes :: "addr \<Rightarrow> string \<Rightarrow> nat \<Rightarrow> bytes \<Rightarrow> detection_module \<Rightarrow> detection_module option" where
  "note_bytes a f k [] m = Some m"
| "note_bytes a f k (x # xs) m =
     do { m \<leftarrow> note_id a (f @ [char_of (48 + k)]) (unat x) m; note_bytes a f (k + 1) xs m }"

text \<open>The number of the sender, at most seven characters up to an ampersand; an even longer one is dropped.\<close>

definition parse_gg_foneno :: "mem \<Rightarrow> detection_module \<Rightarrow> detection_module option" where
  "parse_gg_foneno M m =
     (let n = unat (plen m) in
      if n < 19 then Some m
      else do {
        r \<leftarrow> first_index (\<lambda>k. byte_is M (pay m + k) ((=) 0x3f)) 18 (max 19 (n - 17));
        case r of None \<Rightarrow> Some m
        | Some k \<Rightarrow>
            branch (allM [Some (k + 17 < n), mem_eq M (pay m + (k + 1)) ''fmnumber=''])
              (do { e \<leftarrow> first_index (\<lambda>i. byte_is M (pay m + (k + 10 + i)) ((=) 0x26)) 0 8;
                    case e of None \<Rightarrow> Some m
                    | Some i \<Rightarrow> do { bs \<leftarrow> mem_bytes M (pay m + (k + 10)) i; note_bytes (ds_src m) ''gg_fmnumber'' 0 bs m } })
              (Some m) })"

text \<open>A host of the expected length that differs is refused; a shorter one is not compared. \<open>k\<close> is the rest of the dissector.\<close>

definition gg_host ::
    "mem \<Rightarrow> string \<Rightarrow> (detection_module \<Rightarrow> detection_module option) \<Rightarrow> detection_module \<Rightarrow> detection_module option" where
  "gg_host M s k m =
     do { m \<leftarrow> parse_lines M m;
          let h = pk_host_line (ds_packet m);
          if pk_parsed_lines (ds_packet m) \<le> 1 \<or> ol_ptr h = NULL then k m
          else branch (allM [Some (length s \<le> unat (ol_len h)), notM (mem_eq M (ol_ptr h) s)]) (k m)
                 (ipoque_int_add_connection IPOQUE_PROTOCOL_GADUGADU m) }"

text \<open>A packet of at least 50 bytes that is no request of this kind ends the dissector as well.\<close>

definition check_for_http ::
    "mem \<Rightarrow> (detection_module \<Rightarrow> detection_module option) \<Rightarrow> detection_module \<Rightarrow> detection_module option" where
  "check_for_http M k m =
     (if plen m < 50 then k m
      else branch (mem_eq M (pay m) ''GET /appsvc/appmsg'')
             (do { m \<leftarrow> parse_gg_foneno M m; gg_host M ''appmsg.gadu-gadu.pl'' k m })
          (branch (mem_eq M (pay m) ''POST /send/mess'') (gg_host M ''life.gadu-gadu.pl'' k m)
          (branch (mem_eq M (pay m) ''GET /rotate_token'') (gg_host M ''sms.orange.pl'' k m) (Some m))))"

subsection \<open>Logins\<close>

definition gg_stage_up :: "detection_module \<Rightarrow> detection_module option" where
  "gg_stage_up m = do { s \<leftarrow> get_stage ''gadugadu_stage'' m; set_stage ''gadugadu_stage'' ((s + 1) mod 4) m }"

definition gg_login :: "mem \<Rightarrow> detection_module \<Rightarrow> bool option" where
  "gg_login M m =
     allM [Some (plen m = 9 \<or> plen m = 12 \<or> plen m = 100 \<or> 190 < plen m \<and> plen m < 210),
           lword_is M (pay m + 4) (\<lambda>x. unat x = unat (plen m) - 8),
           word_is M (pay m) (\<lambda>x. x \<in> {0x01000000, 0x02000000, 0x03000000, 0x12000000, 0x19000000, 0x31000000, 0x35000000,
             0x10000000, 0x15000000})]"

text \<open>
  An id keeps four bytes of each of two call ids as one number, selected by \<^verbatim>\<open>gg_next_id\<close>, which the source never sets.
  The port is in little endian order in the packet.
\<close>

definition gg_call_id :: "nat \<Rightarrow> string" where
  "gg_call_id next = (if next = 0 then ''gg_call_id0'' else ''gg_call_id1'')"

definition gg_note :: "mem \<Rightarrow> addr \<Rightarrow> detection_module \<Rightarrow> detection_module option" where
  "gg_note M a m =
     (if a = NULL then Some m
      else do { next \<leftarrow> get_id_field a ''gg_next_id'' m;
                call \<leftarrow> rd32be M (pay m + 8); ip \<leftarrow> rd32be M (pay m + 86); port \<leftarrow> rd16le M (pay m + 90);
                m \<leftarrow> note_id a (gg_call_id next) (unat call) m;
                m \<leftarrow> note_id a ''gg_ft_ip_address'' (unat ip) m;
                note_id a ''gg_ft_port'' (unat port) m })"

definition gg_mirinda :: "mem \<Rightarrow> detection_module \<Rightarrow> detection_module option" where
  "gg_mirinda M m =
     branch (allM [Some (plen m = 114), word_is M (pay m) ((=) 0x19000000), lword_is M (pay m + 4) ((=) 106)])
       (do { m \<leftarrow> gg_stage_up m;
             s \<leftarrow> get_stage ''gadugadu_stage'' m;
             if s = 2 then do { m \<leftarrow> gg_note M (ds_src m) m; gg_note M (ds_dst m) m } else Some m })
       (Some m)"

definition gg_server :: "mem \<Rightarrow> detection_module \<Rightarrow> detection_module option" where
  "gg_server M m =
     do { m \<leftarrow> branch (gg_login M m) (gg_stage_up m) (Some m);
          m \<leftarrow> gg_mirinda M m;
          s \<leftarrow> get_stage ''gadugadu_stage'' m;
          if s = 2 then ipoque_int_add_connection IPOQUE_PROTOCOL_GADUGADU m else Some m }"

subsection \<open>Transfers\<close>

definition gg_recent :: "addr \<Rightarrow> detection_module \<Rightarrow> bool option" where
  "gg_recent a m = recent a ''gg_timeout'' (ds_config m ''gadugadu_peer_connection_timeout'') m"

definition gg_ip_is :: "mem \<Rightarrow> addr \<Rightarrow> nat \<Rightarrow> detection_module \<Rightarrow> bool option" where
  "gg_ip_is M a off m = do { ip \<leftarrow> get_id_field a ''gg_ft_ip_address'' m; ip_addr_is M m off (\<lambda>x. unat x = ip) }"

definition gg_call_is :: "mem \<Rightarrow> addr \<Rightarrow> nat \<Rightarrow> detection_module \<Rightarrow> bool option" where
  "gg_call_is M a off m =
     do { c0 \<leftarrow> get_id_field a ''gg_call_id0'' m; c1 \<leftarrow> get_id_field a ''gg_call_id1'' m;
          anyM [word_is M (pay m + off) (\<lambda>x. unat x = c0),
                allM [Some (c1 div 2 ^ 24 \<noteq> 0), word_is M (pay m + off) (\<lambda>x. unat x = c1)]] }"

definition gg_peer ::
    "mem \<Rightarrow> addr \<Rightarrow> nat \<Rightarrow> (detection_module \<Rightarrow> detection_module option) \<Rightarrow> detection_module \<Rightarrow> detection_module option" where
  "gg_peer M a off next m =
     (let tcp = pk_tcp (ds_packet m); known = id_has_protocol a IPOQUE_PROTOCOL_GADUGADU m;
          add = ipoque_int_add_connection IPOQUE_PROTOCOL_GADUGADU m in
      if a = NULL then next m
      else branch (allM [known, anyM [allM [gg_ip_is M a 12 m, id_port_is M a ''gg_ft_port'' tcp 0 m],
                                      allM [gg_ip_is M a 16 m, id_port_is M a ''gg_ft_port'' tcp 2 m]]])
             (branch (gg_recent a m) add
                (do { m \<leftarrow> note_id a ''gg_ft_ip_address'' 0 m; m \<leftarrow> note_id a ''gg_ft_port'' 0 m; next m }))
          (branch (allM [known, anyM [dest_is M tcp ((=) 80), source_is M tcp ((=) 80)], Some (plen m = 12), gg_call_is M a off m])
             (branch (gg_recent a m) add (next m))
          (branch (allM [known, Some (plen m = 8), gg_call_is M a 0 m])
             (branch (gg_recent a m) add (next m))
             (next m))))"

subsection \<open>The dissector\<close>

text \<open>A detected flow renews the times of its hosts; a packet of 311 bytes tells a transfer from a call.\<close>

definition gg_known :: "mem \<Rightarrow> detection_module \<Rightarrow> detection_module option" where
  "gg_known M m =
     (let note = (\<lambda>f v m. do { m \<leftarrow> note_id (ds_src m) f v m; note_id (ds_dst m) f v m }) in
      do { m \<leftarrow> note ''gg_timeout'' (unat (now m)) m;
           if plen m \<noteq> 311 then Some m
           else branch (byte_is M (pay m + 28) ((\<noteq>) 0))
                  (do { server \<leftarrow> dest_is M (pk_tcp (ds_packet m)) (\<lambda>p. p = 8074 \<or> p = 443);
                        m \<leftarrow> note ''gadu_gadu_ft_direction'' (if server then 0 else 1) m;
                        note ''gadu_gadu_voice'' 0 m })
                  (note ''gadu_gadu_voice'' 1 m) })"

definition gg_rest :: "mem \<Rightarrow> detection_module \<Rightarrow> detection_module option" where
  "gg_rest M m =
     (let tcp = pk_tcp (ds_packet m); server = (\<lambda>p. p = 443 \<or> p = 8074) in
      branch (allM [Some (tcp \<noteq> NULL), anyM [dest_is M tcp server, source_is M tcp server], counter_is m (\<lambda>c. c \<le> 6)])
        (gg_server M m)
        (if tcp \<noteq> NULL
         then gg_peer M (ds_src m) 5 (gg_peer M (ds_dst m) 0 (exclude IPOQUE_PROTOCOL_GADUGADU)) m
         else exclude IPOQUE_PROTOCOL_GADUGADU m))"

definition ipoque_search_gadugadu_tcp :: "mem \<Rightarrow> detection_module \<Rightarrow> detection_module option" where
  "ipoque_search_gadugadu_tcp M m =
     (let tcp = pk_tcp (ds_packet m) in
      if detected IPOQUE_PROTOCOL_GADUGADU m then (if tcp \<noteq> NULL then gg_known M m else Some m)
      else branch (allM [Some (detected IPOQUE_PROTOCOL_HTTP m), Some (tcp \<noteq> NULL), dest_is M tcp ((=) 80)])
             (check_for_http M (gg_rest M) m) (gg_rest M m))"

definition ipoque_search_gadugadu :: "mem \<Rightarrow> detection_module \<Rightarrow> detection_module option" where
  "ipoque_search_gadugadu M m = ipoque_search_gadugadu_tcp M m"

lemma note_bytes_good:
  "view_ok M m \<Longrightarrow> a = ds_src m \<or> a = ds_dst m \<Longrightarrow> good M m (note_bytes a f k xs m)"
proof (induction xs arbitrary: k m)
  case (Cons x xs)
  show ?case
    by (simp only: note_bytes.simps, rule good_then [OF note_id_good [OF Cons.prems]])
       (rule Cons.IH; use Cons.prems in simp)
qed (simp add: good_Some)

lemma mem_bytes_good:
  "readable M a n \<Longrightarrow> (\<And>bs. good M m (f bs)) \<Longrightarrow> good M m (mem_bytes M a n \<bind> f)"
  using readable_bytes by fastforce

lemma parse_gg_foneno_good:
  assumes "view_ok M m"
  shows "good M m (parse_gg_foneno M m)"
  unfolding parse_gg_foneno_def Let_def using assms
  by (intro contract_rules condition_rules mem_bytes_good note_bytes_good pay_readable)
     (auto simp: value_simps simp del: allM.simps anyM.simps)

lemma gg_host_good:
  assumes "view_ok M m" "ds_flow m \<noteq> None"
    and "\<And>m'. view_ok M m' \<Longrightarrow> ds_flow m' \<noteq> None \<Longrightarrow> same_windows (ds_packet m) (ds_packet m') \<Longrightarrow> good M m' (k m')"
  shows "good M m (gg_host M s k m)"
proof -
  have "\<exists>b. mem_eq M (ol_ptr (pk_host_line (ds_packet m'))) s = Some b"
    if "view_ok M m'" "pk_packet_lines_parsed_complete (ds_packet m')" "ol_ptr (pk_host_line (ds_packet m')) \<noteq> NULL"
      "length s \<le> unat (ol_len (pk_host_line (ds_packet m')))" for m'
    by (rule mem_eq_total [OF readable_sub [OF noted_line_readable(1) [OF that(1-3)]]]) (use that(4) in simp_all)
  note host = this
  show ?thesis
    unfolding gg_host_def Let_def using assms(1,2)
    by (intro contract_rules cond_total host assms(3)) (simp_all add: value_simps del: allM.simps anyM.simps)
qed

lemma check_for_http_good:
  assumes "view_ok M m" "ds_flow m \<noteq> None"
    and "\<And>m'. view_ok M m' \<Longrightarrow> ds_flow m' \<noteq> None \<Longrightarrow> same_windows (ds_packet m) (ds_packet m') \<Longrightarrow> good M m' (k m')"
  shows "good M m (check_for_http M k m)"
proof -
  have k: "good M m' (k m')" if "view_ok M m'" "ds_flow m' \<noteq> None" "same_windows (ds_packet m) (ds_packet m')" for m'
    using assms(3) that .
  show ?thesis
    unfolding check_for_http_def using assms(1,2)
    by (intro if_good branch_good good_Some gg_host_good k good_then parse_gg_foneno_good condition_rules)
       (auto simp: value_simps simp del: allM.simps anyM.simps)
qed

lemma gg_stage_up_good: "view_ok M m \<Longrightarrow> ds_flow m \<noteq> None \<Longrightarrow> good M m (gg_stage_up m)"
  unfolding gg_stage_up_def by (intro contract_rules) simp_all

lemma gg_login_total: "view_ok M m \<Longrightarrow> \<exists>b. gg_login M m = Some b"
  unfolding gg_login_def
  by (intro condition_rules) (auto simp: value_simps simp del: allM.simps anyM.simps)

lemma gg_note_good:
  assumes "view_ok M m" "a = ds_src m \<or> a = ds_dst m" "92 \<le> unat (plen m)"
  shows "good M m (gg_note M a m)"
  unfolding gg_note_def using assms
  by (intro if_good get_id_field_good rd_good good_then note_id_good good_Some pay_readable) simp_all

lemma gg_server_good:
  assumes "view_ok M m" "ds_flow m \<noteq> None"
  shows "good M m (gg_server M m)"
proof -
  have mirinda: "good M m' (gg_mirinda M m')" if "view_ok M m'" "ds_flow m' \<noteq> None" for m'
    unfolding gg_mirinda_def using that
    by (intro if_good branch_good get_stage_good good_Some good_then gg_stage_up_good gg_note_good condition_rules)
       (auto simp: value_simps simp del: allM.simps anyM.simps)
  show ?thesis
    unfolding gg_server_def using assms
    by (intro if_good branch_good get_stage_good good_Some good_then mirinda gg_stage_up_good gg_login_total add_connection_good) simp_all
qed

lemma gg_field_total:
  assumes "view_ok M m" "a = ds_src m \<or> a = ds_dst m" "a \<noteq> NULL"
  shows "\<exists>v. get_id_field a f m = Some v"
  using assms by (auto simp: get_id_field_def view_ok_def ids_ok_def)

lemma gg_ip_is_total:
  assumes "view_ok M m" "a = ds_src m \<or> a = ds_dst m" "a \<noteq> NULL" "off + 4 \<le> 20" "pk_tcp (ds_packet m) \<noteq> NULL"
  shows "\<exists>b. gg_ip_is M a off m = Some b"
proof -
  obtain ip where "get_id_field a ''gg_ft_ip_address'' m = Some ip" using gg_field_total [OF assms(1-3)] by blast
  then show ?thesis using iph_total(2) [OF assms(1,4)] assms(5) by (simp add: gg_ip_is_def)
qed

lemma gg_call_is_total:
  assumes "view_ok M m" "a = ds_src m \<or> a = ds_dst m" "a \<noteq> NULL" "off + 4 \<le> unat (plen m)"
  shows "\<exists>b. gg_call_is M a off m = Some b"
proof -
  obtain c0 c1 where "get_id_field a ''gg_call_id0'' m = Some c0" "get_id_field a ''gg_call_id1'' m = Some c1"
    using gg_field_total [OF assms(1-3)] by metis
  then show ?thesis
    unfolding gg_call_is_def using assms(1,4) by (simp only: bind.bind_lunit) (intro condition_rules; simp)
qed

lemma gg_peer_good:
  assumes "view_ok M m" "ds_flow m \<noteq> None" "a = ds_src m \<or> a = ds_dst m" "off \<le> 8" "pk_tcp (ds_packet m) \<noteq> NULL"
    and rest: "\<And>m'. view_ok M m' \<Longrightarrow> ds_flow m' \<noteq> None \<Longrightarrow> same_windows (ds_packet m) (ds_packet m')
      \<Longrightarrow> ds_src m' = ds_src m \<Longrightarrow> ds_dst m' = ds_dst m \<Longrightarrow> good M m' (next m')"
  shows "good M m (gg_peer M a off next m)"
proof (cases "a = NULL")
  case True
  then show ?thesis unfolding gg_peer_def Let_def using assms(1,2) by (simp add: rest same_windows_def)
next
  case a: False
  have "\<exists>b. id_has_protocol a IPOQUE_PROTOCOL_GADUGADU m = Some b" using either_has_total [OF assms(1)] assms(3) by blast
  then show ?thesis
    unfolding gg_peer_def Let_def gg_recent_def if_not_P [OF a] using assms(1-5) a
    by (intro branch_good good_then note_id_good add_connection_good condition_rules gg_ip_is_total gg_call_is_total
          id_port_total recent_total rest) (simp_all add: value_simps del: allM.simps anyM.simps)
qed

lemma gg_rest_good:
  assumes "view_ok M m" "ds_flow m \<noteq> None"
  shows "good M m (gg_rest M m)"
  unfolding gg_rest_def Let_def using assms
  by (intro if_good branch_good gg_server_good gg_peer_good exclude_good condition_rules)
     (simp_all add: value_simps del: allM.simps anyM.simps)

lemma gg_known_good:
  assumes "view_ok M m" "ds_flow m \<noteq> None" "pk_tcp (ds_packet m) \<noteq> NULL"
  shows "good M m (gg_known M m)"
  unfolding gg_known_def Let_def using assms
  by (intro if_good branch_good good_then note_id_good good_Some bool_bind_good condition_rules)
     (simp_all add: value_simps del: allM.simps anyM.simps)

lemma gadugadu_good:
  assumes "view_ok M m" "ds_flow m \<noteq> None"
  shows "good M m (ipoque_search_gadugadu M m)"
  unfolding ipoque_search_gadugadu_def ipoque_search_gadugadu_tcp_def Let_def using assms
  by (intro if_good branch_good good_Some gg_known_good check_for_http_good gg_rest_good condition_rules)
     (simp_all add: value_simps del: allM.simps anyM.simps)

end
