(* ===== verification/Ipq_Table.thy ===== *)
theory Ipq_Table
  imports Ipq_Streams Ipq_Games Ipq_Sharing Ipq_Mail Ipq_Ssl Ipq_Http Ipq_Chat Ipq_Peers Ipq_Download Ipq_Gadu
begin

text \<open>
  The dissectors by the name of their C function, as the registration names them in its entries, and the protocols they
  detect. A dissector that the registration never names (RTSP, RTP without STUN), or whose reads can leave the packet, is not in the table.
\<close>

definition dissector_table :: "(string \<times> (mem \<Rightarrow> detection_module \<Rightarrow> detection_module option)) list" where
  "dissector_table = [
     (''ipoque_search_in_non_tcp_udp'', ipoque_search_in_non_tcp_udp),
     (''ipoque_search_ntp_udp'', ipoque_search_ntp_udp), (''ipoque_search_dhcp_udp'', ipoque_search_dhcp_udp),
     (''ipoque_search_rdp'', ipoque_search_rdp), (''ipoque_search_kontiki'', ipoque_search_kontiki),
     (''ipoque_search_applejuice_tcp'', ipoque_search_applejuice_tcp), (''ipoque_search_bgp'', ipoque_search_bgp),
     (''ipoque_search_smb_tcp'', ipoque_search_smb_tcp), (''ipoque_search_pcanywhere'', ipoque_search_pcanywhere),
     (''ipoque_search_stealthnet'', ipoque_search_stealthnet), (''ipoque_search_ssdp'', ipoque_search_ssdp),
     (''ipoque_search_quake'', ipoque_search_quake), (''ipoque_search_xdmcp'', ipoque_search_xdmcp),
     (''ipoque_search_mysql_tcp'', ipoque_search_mysql_tcp),
     (''ipoque_search_worldofwarcraft'', ipoque_search_worldofwarcraft),
     (''ipoque_search_ssh_tcp'', ipoque_search_ssh_tcp), (''ipoque_search_vnc_tcp'', ipoque_search_vnc_tcp),
     (''ipoque_search_steam'', ipoque_search_steam), (''ipoque_search_halflife2'', ipoque_search_halflife2),
     (''ipoque_search_tftp'', ipoque_search_tftp), (''ipoque_search_icecast_tcp'', ipoque_search_icecast_tcp),
     (''ipoque_search_openft_tcp'', ipoque_search_openft_tcp), (''ipoque_search_afp'', ipoque_search_afp),
     (''ipoque_search_nfs'', ipoque_search_nfs), (''ipoque_search_tds_tcp'', ipoque_search_tds_tcp),
     (''ipoque_search_dns'', ipoque_search_dns), (''ipoque_search_mdns'', ipoque_search_mdns),
     (''ipoque_search_mgcp'', ipoque_search_mgcp), (''ipoque_search_syslog'', ipoque_search_syslog),
     (''ipoque_search_ipp'', ipoque_search_ipp), (''ipoque_search_telnet_tcp'', ipoque_search_telnet_tcp),
     (''ipoque_search_usenet_tcp'', ipoque_search_usenet_tcp), (''ipoque_search_snmp'', ipoque_search_snmp),
     (''ipoque_search_sip'', ipoque_search_sip), (''ipoque_search_tvants_udp'', ipoque_search_tvants_udp),
     (''ipoque_search_tvuplayer'', ipoque_search_tvuplayer), (''ipoque_search_sopcast'', ipoque_search_sopcast),
     (''ipoque_search_shoutcast_tcp'', ipoque_search_shoutcast_tcp),
     (''ipoque_search_ppstream_tcp'', ipoque_search_ppstream_tcp),
     (''ipoque_search_feidian'', ipoque_search_feidian), (''ipoque_search_secondlife'', ipoque_search_secondlife),
     (''ipoque_search_battlefield'', ipoque_search_battlefield),
     (''ipoque_search_socrates'', ipoque_search_socrates),
     (''ipoque_search_fasttrack_tcp'', ipoque_search_fasttrack_tcp),
     (''ipoque_search_filetopia_tcp'', ipoque_search_filetopia_tcp), (''ipoque_search_i23v5'', ipoque_search_i23v5),
     (''ipoque_search_pando_tcp_udp'', ipoque_search_pando_tcp_udp),
     (''ipoque_search_winmx_tcp'', ipoque_search_winmx_tcp),
     (''ipoque_search_manolito_tcp_udp'', ipoque_search_manolito_tcp_udp),
     (''ipoque_search_mail_smtp_tcp'', ipoque_search_mail_smtp_tcp),
     (''ipoque_search_mail_pop_tcp'', ipoque_search_mail_pop_tcp),
     (''ipoque_search_mail_imap_tcp'', ipoque_search_mail_imap_tcp),
     (''ipoque_search_ssl_tcp'', ipoque_search_ssl_tcp), (''ipoque_search_http_tcp'', ipoque_search_http_tcp),
     (''ipoque_search_mms_tcp'', ipoque_search_mms_tcp), (''ipoque_search_xbox'', ipoque_search_xbox),
     (''ipoque_search_popo_tcp_udp'', ipoque_search_popo_tcp_udp), (''ipoque_search_qq'', ipoque_search_qq),
     (''ipoque_search_aimini'', ipoque_search_aimini), (''ipoque_search_bittorrent'', ipoque_search_bittorrent),
     (''ipoque_search_pplive_tcp_udp'', ipoque_search_pplive_tcp_udp),
     (''ipoque_search_directconnect'', ipoque_search_directconnect),
     (''ipoque_search_netbios'', ipoque_search_netbios),
     (''ipoque_search_direct_download_link_tcp'', ipoque_search_direct_download_link_tcp),
     (''ipoque_search_gadugadu'', ipoque_search_gadugadu)]"

definition dissector_of :: "string \<Rightarrow> mem \<Rightarrow> detection_module \<Rightarrow> detection_module option" where
  "dissector_of name = (case map_of dissector_table name of Some f \<Rightarrow> f | None \<Rightarrow> (\<lambda>M m. None))"

text \<open>The protocols these dissectors detect.\<close>

definition modelled_protocols :: protocol_bitmask where
  "modelled_protocols = fold IPOQUE_ADD_PROTOCOL_TO_BITMASK [
     IPOQUE_PROTOCOL_IPSEC, IPOQUE_PROTOCOL_GRE, IPOQUE_PROTOCOL_ICMP, IPOQUE_PROTOCOL_IGMP, IPOQUE_PROTOCOL_EGP,
     IPOQUE_PROTOCOL_SCTP, IPOQUE_PROTOCOL_OSPF, IPOQUE_PROTOCOL_IP_IN_IP, IPOQUE_PROTOCOL_NTP, IPOQUE_PROTOCOL_DHCP,
     IPOQUE_PROTOCOL_RDP, IPOQUE_PROTOCOL_KONTIKI, IPOQUE_PROTOCOL_APPLEJUICE, IPOQUE_PROTOCOL_BGP,
     IPOQUE_PROTOCOL_SMB, IPOQUE_PROTOCOL_PCANYWHERE, IPOQUE_PROTOCOL_STEALTHNET, IPOQUE_PROTOCOL_SSDP,
     IPOQUE_PROTOCOL_QUAKE, IPOQUE_PROTOCOL_XDMCP, IPOQUE_PROTOCOL_MYSQL, IPOQUE_PROTOCOL_WORLDOFWARCRAFT,
     IPOQUE_PROTOCOL_SSH, IPOQUE_PROTOCOL_VNC, IPOQUE_PROTOCOL_STEAM, IPOQUE_PROTOCOL_HALFLIFE2,
     IPOQUE_PROTOCOL_TFTP, IPOQUE_PROTOCOL_ICECAST, IPOQUE_PROTOCOL_OPENFT, IPOQUE_PROTOCOL_AFP, IPOQUE_PROTOCOL_NFS,
     IPOQUE_PROTOCOL_TDS, IPOQUE_PROTOCOL_DNS, IPOQUE_PROTOCOL_MDNS, IPOQUE_PROTOCOL_MGCP, IPOQUE_PROTOCOL_SYSLOG,
     IPOQUE_PROTOCOL_IPP, IPOQUE_PROTOCOL_TELNET, IPOQUE_PROTOCOL_USENET, IPOQUE_PROTOCOL_SNMP, IPOQUE_PROTOCOL_SIP,
     IPOQUE_PROTOCOL_TVANTS, IPOQUE_PROTOCOL_TVUPLAYER, IPOQUE_PROTOCOL_SOPCAST, IPOQUE_PROTOCOL_SHOUTCAST,
     IPOQUE_PROTOCOL_PPSTREAM, IPOQUE_PROTOCOL_FEIDIAN, IPOQUE_PROTOCOL_SECONDLIFE, IPOQUE_PROTOCOL_BATTLEFIELD,
     IPOQUE_PROTOCOL_SOCRATES, IPOQUE_PROTOCOL_FASTTRACK, IPOQUE_PROTOCOL_FILETOPIA, IPOQUE_PROTOCOL_I23V5,
     IPOQUE_PROTOCOL_PANDO, IPOQUE_PROTOCOL_WINMX, IPOQUE_PROTOCOL_MANOLITO, IPOQUE_PROTOCOL_MAIL_SMTP,
     IPOQUE_PROTOCOL_MAIL_POP, IPOQUE_PROTOCOL_MAIL_IMAP, IPOQUE_PROTOCOL_SSL, IPOQUE_PROTOCOL_HTTP,
     IPOQUE_PROTOCOL_MPEG, IPOQUE_PROTOCOL_QUICKTIME, IPOQUE_PROTOCOL_REALMEDIA, IPOQUE_PROTOCOL_WINDOWSMEDIA,
     IPOQUE_PROTOCOL_OFF, IPOQUE_PROTOCOL_AVI, IPOQUE_PROTOCOL_OGG, IPOQUE_PROTOCOL_MOVE, IPOQUE_PROTOCOL_RTSP,
     IPOQUE_PROTOCOL_MMS, IPOQUE_PROTOCOL_XBOX, IPOQUE_PROTOCOL_POPO, IPOQUE_PROTOCOL_QQ, IPOQUE_PROTOCOL_AIMINI,
     IPOQUE_PROTOCOL_BITTORRENT, IPOQUE_PROTOCOL_PPLIVE, IPOQUE_PROTOCOL_DIRECTCONNECT, IPOQUE_PROTOCOL_NETBIOS,
     IPOQUE_PROTOCOL_DIRECT_DOWNLOAD_LINK, IPOQUE_PROTOCOL_GADUGADU]
     IPOQUE_BITMASK_RESET"

end
