(* ===== verification/Ipq_Register.thy ===== *)
theory Ipq_Register
  imports Ipq_Callbacks "HOL-Library.Sublist"
begin

text \<open>
  What the registration of the dissectors computes: the list of entries of a protocol selection,
  as a specification without arrays and counters, and the lemmas that
  \<open>set_protocol_detection_bitmask2\<close> writes exactly this list, whatever the arrays held before.
\<close>

subsection \<open>Specification\<close>

definition blank_entry :: call_function where
  "blank_entry = \<lparr>cf_detection = IPOQUE_BITMASK_RESET, cf_excluded = IPOQUE_BITMASK_RESET,
     cf_selection = 0, cf_func = []\<rparr>"

definition block_entry :: "reg_block \<Rightarrow> call_function" where
  "block_entry b = rb_fill b blank_entry"

definition registered :: "protocol_bitmask \<Rightarrow> call_function list" where
  "registered dbm = (if http_enabled dbm then [http_entry] else [])
     @ List.map block_entry (filter (rb_enabled dbm) reg_blocks)"

definition arrays_ok :: "'a callbacks_scheme \<Rightarrow> bool" where
  "arrays_ok s \<longleftrightarrow> length (callback_buffer s) = CALLBACKS
     \<and> length (callback_buffer_tcp_payload s) = CALLBACKS \<and> length (callback_buffer_tcp_no_payload s) = CALLBACKS
     \<and> length (callback_buffer_udp s) = CALLBACKS \<and> length (callback_buffer_non_tcp_udp s) = CALLBACKS"

text \<open>The arrays describe the entry list \<open>es\<close>.\<close>

definition arrays_of :: "'a callbacks_scheme \<Rightarrow> call_function list \<Rightarrow> bool" where
  "arrays_of s es \<longleftrightarrow>
     take (callback_buffer_size s) (callback_buffer s) = es
   \<and> take (callback_buffer_size_tcp_payload s) (callback_buffer_tcp_payload s) = filter wants_tcp es
   \<and> take (callback_buffer_size_tcp_no_payload s) (callback_buffer_tcp_no_payload s) = filter wants_tcp_no_payload es
   \<and> take (callback_buffer_size_udp s) (callback_buffer_udp s) = filter wants_udp es
   \<and> take (callback_buffer_size_non_tcp_udp s) (callback_buffer_non_tcp_udp s) = filter wants_non_tcp_udp es"

definition sizes_ok :: "'a callbacks_scheme \<Rightarrow> bool" where
  "sizes_ok s \<longleftrightarrow> callback_buffer_size s \<le> CALLBACKS
     \<and> callback_buffer_size_tcp_payload s \<le> CALLBACKS \<and> callback_buffer_size_tcp_no_payload s \<le> CALLBACKS
     \<and> callback_buffer_size_udp s \<le> CALLBACKS \<and> callback_buffer_size_non_tcp_udp s \<le> CALLBACKS"

subsection \<open>Blocks do not depend on what their entry held\<close>

fun bm_fixes :: "bm_op \<Rightarrow> bool" where
  "bm_fixes (Save v) = True"
| "bm_fixes Reset = True"
| "bm_fixes _ = False"

lemma bm_ops_fixed: "list_ex bm_fixes ops \<Longrightarrow> fold bm_apply ops b = fold bm_apply ops c"
proof (induction ops arbitrary: b c)
  case (Cons op ops)
  show ?case
  proof (cases "bm_fixes op")
    case True
    then have "bm_apply op b = bm_apply op c" by (cases op) auto
    then show ?thesis by simp
  qed (use Cons in auto)
qed simp

definition block_fixed :: "reg_block \<Rightarrow> bool" where
  "block_fixed b \<longleftrightarrow> list_ex bm_fixes (rb_det b) \<and> list_ex bm_fixes (rb_exc b)"

lemma rb_fill_fixed: "block_fixed b \<Longrightarrow> rb_fill b e = block_entry b"
  using bm_ops_fixed by (auto simp: block_fixed_def rb_fill_def block_entry_def)

lemmas reg_blocks_defs = reg_blocks_def reg_blocks_1_def reg_blocks_2_def reg_blocks_3_def reg_blocks_4_def
  reg_blocks_5_def reg_blocks_6_def reg_blocks_7_def reg_blocks_8_def reg_blocks_9_def

lemma reg_blocks_fixed: "list_all block_fixed reg_blocks"
  by (simp add: reg_blocks_defs block_fixed_def)

lemma length_reg_blocks: "length reg_blocks = 82"
  by (simp add: reg_blocks_defs)

lemma length_registered: "length (registered dbm) \<le> 83"
  using length_filter_le [of "rb_enabled dbm" reg_blocks] by (simp add: registered_def length_reg_blocks)

subsection \<open>The loops over the arrays\<close>

lemma exec_blocks_writes:
  assumes "list_all block_fixed bs" and "a + length (filter (rb_enabled dbm) bs) \<le> length buf"
  shows "\<exists>buf'. exec_blocks dbm bs (buf, a) = Some (buf', a + length (filter (rb_enabled dbm) bs))
    \<and> length buf' = length buf
    \<and> take (a + length (filter (rb_enabled dbm) bs)) buf'
        = take a buf @ List.map block_entry (filter (rb_enabled dbm) bs)"
  using assms
proof (induction bs arbitrary: buf a)
  case Nil
  then show ?case by simp
next
  case (Cons b bs)
  show ?case
  proof (cases "rb_enabled dbm b")
    case True
    let ?buf = "buf[a := block_entry b]"
    have a: "a < length buf" using Cons.prems(2) True by simp
    have step: "exec_block dbm b (buf, a) = Some (?buf, Suc a)"
      using True a Cons.prems(1) by (simp add: exec_block_def rb_fill_fixed)
    have "take (Suc a) ?buf = take a buf @ [block_entry b]"
      using a by (simp add: take_Suc_conv_app_nth)
    then show ?thesis
      using Cons.IH [of "Suc a" ?buf] Cons.prems True by (auto simp: step)
  next
    case False
    then show ?thesis using Cons.IH [of a buf] Cons.prems by (simp add: exec_block_def)
  qed
qed

lemma copy_selected_writes:
  assumes "k + length (filter P (List.map ((!) src) is)) \<le> length dst"
  shows "\<exists>dst'. copy_selected P src is (dst, k) = Some (dst', k + length (filter P (List.map ((!) src) is)))
    \<and> length dst' = length dst
    \<and> take (k + length (filter P (List.map ((!) src) is))) dst'
        = take k dst @ filter P (List.map ((!) src) is)"
  using assms
proof (induction "is" arbitrary: dst k)
  case Nil
  then show ?case by simp
next
  case (Cons i "is")
  show ?case
  proof (cases "P (src ! i)")
    case True
    let ?dst = "dst[k := src ! i]"
    have k: "k < length dst" using Cons.prems True by simp
    have "take (Suc k) ?dst = take k dst @ [src ! i]" using k by (simp add: take_Suc_conv_app_nth)
    then show ?thesis using Cons.IH [of "Suc k" ?dst] Cons.prems True k by auto
  next
    case False
    then show ?thesis using Cons.IH [of k dst] Cons.prems by simp
  qed
qed

lemma copy_selected_prefix:
  assumes "n \<le> length src" and "n \<le> length dst"
  obtains dst' where "copy_selected P src [0..<n] (dst, 0) = Some (dst', length (filter P (take n src)))"
    and "length dst' = length dst"
    and "take (length (filter P (take n src))) dst' = filter P (take n src)"
proof -
  have m: "List.map ((!) src) [0..<n] = take n src"
    using assms(1) by (simp add: list_eq_iff_nth_eq)
  have "length (filter P (take n src)) \<le> length dst"
    using length_filter_le [of P "take n src"] assms by simp
  then show thesis
    using copy_selected_writes [of 0 P src "[0..<n]" dst] m that by auto
qed

subsection \<open>The registration\<close>

lemma register_http_writes:
  assumes "0 < length buf"
  shows "\<exists>g buf' n. register_http dbm generic (buf, 0) = Some (g, buf', n) \<and> length buf' = length buf
    \<and> n \<le> 1 \<and> take n buf' = (if http_enabled dbm then [http_entry] else [])"
  using assms by (cases buf) (auto simp: register_http_def)

lemma set_protocol_detection_bitmask2_ok:
  assumes "arrays_ok s"
  obtains t where "set_protocol_detection_bitmask2 dbm s = Some t" and "arrays_ok t"
    and "arrays_of t (registered dbm)" and "sizes_ok t" and "detection_bitmask t = dbm"
    and "callbacks.more t = callbacks.more s"
proof -
  let ?s = "s\<lparr>detection_bitmask := IPOQUE_BITMASK_SET dbm, callback_buffer_size := 0\<rparr>"
  have len: "length (callback_buffer s) = 102" using assms by (simp add: arrays_ok_def)
  obtain g buf n where http: "register_http dbm (generic_http_packet_bitmask s) (callback_buffer s, 0) = Some (g, buf, n)"
    "length buf = 102" "n \<le> 1" "take n buf = (if http_enabled dbm then [http_entry] else [])"
    using register_http_writes [of "callback_buffer s" dbm] len by fastforce
  define m where "m = n + length (filter (rb_enabled dbm) reg_blocks)"
  have m84: "m \<le> 83"
    using length_filter_le [of "rb_enabled dbm" reg_blocks] http(3) by (simp add: m_def length_reg_blocks)
  obtain buf' where blocks: "exec_blocks dbm reg_blocks (buf, n) = Some (buf', m)" "length buf' = 102"
    "take m buf' = registered dbm"
    using exec_blocks_writes [OF reg_blocks_fixed, of n dbm buf] m84 http(2,4)
    by (auto simp: registered_def simp flip: m_def)
  have fits: "m \<le> length buf'" "m \<le> 102" using m84 blocks(2) by auto
  have cnt: "length (filter P (registered dbm)) \<le> 102" for P
    using length_filter_le [of P "registered dbm"] length_registered [of dbm] by linarith
  let ?n = "\<lambda>P. length (filter P (registered dbm))"
  note copied = copy_selected_prefix [OF fits(1), unfolded blocks(3)]
  obtain tp where tp: "copy_selected wants_tcp buf' [0..<m] (callback_buffer_tcp_payload s, 0) = Some (tp, ?n wants_tcp)"
      "length tp = 102" "take (?n wants_tcp) tp = filter wants_tcp (registered dbm)"
    by (rule copied [of "callback_buffer_tcp_payload s"]) (use assms fits(2) in \<open>auto simp: arrays_ok_def\<close>)
  obtain tn where tn: "copy_selected wants_tcp_no_payload buf' [0..<m] (callback_buffer_tcp_no_payload s, 0)
        = Some (tn, ?n wants_tcp_no_payload)"
      "length tn = 102" "take (?n wants_tcp_no_payload) tn = filter wants_tcp_no_payload (registered dbm)"
    by (rule copied [of "callback_buffer_tcp_no_payload s"]) (use assms fits(2) in \<open>auto simp: arrays_ok_def\<close>)
  obtain u where u: "copy_selected wants_udp buf' [0..<m] (callback_buffer_udp s, 0) = Some (u, ?n wants_udp)"
      "length u = 102" "take (?n wants_udp) u = filter wants_udp (registered dbm)"
    by (rule copied [of "callback_buffer_udp s"]) (use assms fits(2) in \<open>auto simp: arrays_ok_def\<close>)
  obtain v where v: "copy_selected wants_non_tcp_udp buf' [0..<m] (callback_buffer_non_tcp_udp s, 0)
        = Some (v, ?n wants_non_tcp_udp)"
      "length v = 102" "take (?n wants_non_tcp_udp) v = filter wants_non_tcp_udp (registered dbm)"
    by (rule copied [of "callback_buffer_non_tcp_udp s"]) (use assms fits(2) in \<open>auto simp: arrays_ok_def\<close>)
  define t where "t = s\<lparr>detection_bitmask := dbm, generic_http_packet_bitmask := g, callback_buffer := buf',
    callback_buffer_size := m, callback_buffer_tcp_payload := tp, callback_buffer_size_tcp_payload := ?n wants_tcp,
    callback_buffer_tcp_no_payload := tn, callback_buffer_size_tcp_no_payload := ?n wants_tcp_no_payload,
    callback_buffer_udp := u, callback_buffer_size_udp := ?n wants_udp, callback_buffer_non_tcp_udp := v,
    callback_buffer_size_non_tcp_udp := ?n wants_non_tcp_udp\<rparr>"
  have "set_protocol_detection_bitmask2 dbm s = Some t"
    by (simp add: set_protocol_detection_bitmask2_def Let_def http(1) blocks(1) tp(1) tn(1) u(1) v(1) t_def IPOQUE_BITMASK_SET_def)
  moreover have "arrays_ok t" using blocks(2) tp(2) tn(2) u(2) v(2) by (simp add: t_def arrays_ok_def)
  moreover have "arrays_of t (registered dbm)"
    using blocks(3) tp(3) tn(3) u(3) v(3) by (simp add: t_def arrays_of_def)
  moreover have "sizes_ok t" using cnt fits(2) by (simp add: t_def sizes_ok_def)
  moreover have "detection_bitmask t = dbm" "callbacks.more t = callbacks.more s" by (simp_all add: t_def)
  ultimately show thesis by (rule that)
qed

subsection \<open>The entry for PPLIVE\<close>

lemma pplive_block:
  "list_all (\<lambda>b. rb_func b = ''ipoque_search_pplive_tcp_udp''
    \<longrightarrow> rb_det b = [Add IPOQUE_PROTOCOL_PPLIVE, Save IPOQUE_PROTOCOL_UNKNOWN]) reg_blocks"
  by (simp add: reg_blocks_defs)

lemma pplive_entry:
  assumes "e \<in> set (registered d)" "cf_func e = ''ipoque_search_pplive_tcp_udp''"
  shows "bm_set (cf_detection e) = {IPOQUE_PROTOCOL_UNKNOWN}"
proof -
  have "e \<noteq> http_entry" using assms(2) by (auto simp: http_entry_def)
  then obtain b where b: "b \<in> set reg_blocks" "e = block_entry b" using assms(1) by (auto simp: registered_def split: if_splits)
  then have "rb_det b = [Add IPOQUE_PROTOCOL_PPLIVE, Save IPOQUE_PROTOCOL_UNKNOWN]"
    using pplive_block assms(2) by (simp add: list_all_iff block_entry_def rb_fill_def)
  then show ?thesis using b(2) bm.single_law [of IPOQUE_PROTOCOL_UNKNOWN] by (simp add: block_entry_def rb_fill_def)
qed

end
