(* ===== verification/Ipq_Dispatch.thy ===== *)
theory Ipq_Dispatch
  imports Ipq_Contract Ipq_Register
begin

text \<open>
  \<^verbatim>\<open>ipoque_detection_process_packet\<close>: parse the header, track the connection, then call the registered dissectors
  of the packet's class. A function pointer is the name of the function; the functions are a parameter \<open>tab\<close>. The
  locale \<open>dissectors\<close> states what the dispatcher relies on in them.
\<close>

subsection \<open>The dispatcher\<close>

definition selection_packet :: "packet_struct \<Rightarrow> u32" where
  "selection_packet pk = SEL_COMPLETE_TRAFFIC
     OR (if pk_iph pk \<noteq> NULL then SEL_IP OR SEL_IPV4_OR_IPV6 else 0)
     OR (if pk_tcp pk \<noteq> NULL then SEL_INT_TCP OR SEL_INT_TCP_OR_UDP else 0)
     OR (if pk_udp pk \<noteq> NULL then SEL_INT_UDP OR SEL_INT_TCP_OR_UDP else 0)
     OR (if pk_payload_packet_len pk \<noteq> 0 then SEL_HAS_PAYLOAD else 0)
     OR (if \<not> pk_tcp_retransmission pk then SEL_NO_TCP_RETRANSMISSION else 0)"

text \<open>The guard of a call. Only the loop over the last array (\<open>null_ok\<close>) allows for a NULL flow.\<close>

definition callback_runs :: "bool \<Rightarrow> u32 \<Rightarrow> protocol_bitmask \<Rightarrow> call_function \<Rightarrow> detection_module \<Rightarrow> bool option" where
  "callback_runs null_ok sel det e m =
     allM [Some (cf_selection e AND sel = cf_selection e),
           (case ds_flow m of None \<Rightarrow> if null_ok then Some True else None
            | Some fl \<Rightarrow> Some (\<not> IPOQUE_BITMASK_COMPARE (fl_excluded fl) (cf_excluded e))),
           Some (IPOQUE_BITMASK_COMPARE (cf_detection e) det)]"

type_synonym dissector = "mem \<Rightarrow> detection_module \<Rightarrow> detection_module option"

definition callback_step ::
    "(string \<Rightarrow> dissector) \<Rightarrow> mem \<Rightarrow> bool \<Rightarrow> u32 \<Rightarrow> protocol_bitmask \<Rightarrow> call_function \<Rightarrow> detection_module
     \<Rightarrow> detection_module option" where
  "callback_step tab M null_ok sel det e m =
     do { b \<leftarrow> callback_runs null_ok sel det e m; if b then tab (cf_func e) M m else Some m }"

text \<open>The array and its size are read again in every iteration.\<close>

partial_function (option) run_callbacks ::
    "(detection_module \<Rightarrow> call_function list) \<Rightarrow> (detection_module \<Rightarrow> nat)
     \<Rightarrow> (call_function \<Rightarrow> detection_module \<Rightarrow> detection_module option) \<Rightarrow> nat \<Rightarrow> detection_module
     \<Rightarrow> detection_module option" where
  [code]: "run_callbacks buf sz step a m =
     (if a < sz m
      then if a < length (buf m)
           then do { m \<leftarrow> step (buf m ! a) m; run_callbacks buf sz step (a + 1) m }
           else None
      else Some m)"

definition call_dissectors :: "(string \<Rightarrow> dissector) \<Rightarrow> mem \<Rightarrow> detection_module \<Rightarrow> detection_module option" where
  "call_dissectors tab M m =
     (if 128 \<le> unat (pk_detected_protocol (ds_packet m)) then None
      else let pk = ds_packet m; sel = selection_packet pk;
               det = IPOQUE_SAVE_AS_BITMASK (unat (pk_detected_protocol pk)) in
        if ds_flow m \<noteq> None \<and> pk_tcp pk \<noteq> NULL
        then if pk_payload_packet_len pk \<noteq> 0
             then run_callbacks callback_buffer_tcp_payload callback_buffer_size_tcp_payload
                    (callback_step tab M False sel det) 0 m
             else run_callbacks callback_buffer_tcp_no_payload callback_buffer_size_tcp_no_payload
                    (callback_step tab M False sel det) 0 m
        else if ds_flow m \<noteq> None \<and> pk_udp pk \<noteq> NULL
        then run_callbacks callback_buffer_udp callback_buffer_size_udp (callback_step tab M False sel det) 0 m
        else run_callbacks callback_buffer_non_tcp_udp callback_buffer_size_non_tcp_udp
               (callback_step tab M True sel det) 0 m)"

definition give_up :: "detection_module \<Rightarrow> (nat \<times> detection_module) option" where
  "give_up m = Some (IPOQUE_PROTOCOL_UNKNOWN, m\<lparr>ds_packet := (ds_packet m)\<lparr>pk_detected_protocol := of_nat IPOQUE_PROTOCOL_UNKNOWN\<rparr>\<rparr>)"

text \<open>The reported protocol; a number of 128 or more would be looked up outside the bitmask.\<close>

definition reported_protocol :: "detection_module \<Rightarrow> nat option" where
  "reported_protocol m =
     (let a = unat (pk_detected_protocol (ds_packet m)) in
      if 128 \<le> a then None
      else if IPOQUE_COMPARE_PROTOCOL_TO_BITMASK (detection_bitmask m) a = 0 then Some IPOQUE_PROTOCOL_UNKNOWN
      else Some a)"

text \<open>The call of the dissectors is an argument here, so that the code's loops can be exchanged for a plainer one.\<close>

definition process_packet_with ::
    "(detection_module \<Rightarrow> detection_module option) \<Rightarrow> mem \<Rightarrow> addr \<Rightarrow> u16 \<Rightarrow> u32 \<Rightarrow> flow_struct option \<Rightarrow> addr \<Rightarrow> addr
     \<Rightarrow> detection_module \<Rightarrow> (nat \<times> detection_module) option" where
  "process_packet_with calls M packet packetlen current_tick flow src dst m =
     (if packetlen < 20 then give_up m
      else do {
        (err, m) \<leftarrow> ipq_init_packet_header M packetlen
          (m\<lparr>ds_packet := (ds_packet m)\<lparr>pk_tick_timestamp := current_tick, pk_iph := packet\<rparr>, ds_flow := flow\<rparr>);
        if err \<noteq> 0 then give_up m
        else do {
          m \<leftarrow> ipoque_connection_tracking M (m\<lparr>ds_src := src, ds_dst := dst\<rparr>);
          if flow = None \<and> (pk_tcp (ds_packet m) \<noteq> NULL \<or> pk_udp (ds_packet m) \<noteq> NULL) then give_up m
          else do { m \<leftarrow> calls m; a \<leftarrow> reported_protocol m; Some (a, m) } } })"

definition ipoque_detection_process_packet ::
    "(string \<Rightarrow> dissector) \<Rightarrow> mem \<Rightarrow> addr \<Rightarrow> u16 \<Rightarrow> u32 \<Rightarrow> flow_struct option \<Rightarrow> addr \<Rightarrow> addr \<Rightarrow> detection_module
     \<Rightarrow> (nat \<times> detection_module) option" where
  "ipoque_detection_process_packet tab M = process_packet_with (call_dissectors tab M) M"

subsection \<open>Calling the dissectors of a list\<close>

fun dispatch_list :: "(call_function \<Rightarrow> detection_module \<Rightarrow> detection_module option) \<Rightarrow> call_function list
    \<Rightarrow> detection_module \<Rightarrow> detection_module option" where
  "dispatch_list step [] m = Some m"
| "dispatch_list step (e # es) m = do { m \<leftarrow> step e m; dispatch_list step es m }"

lemma dispatch_list_good:
  assumes "\<And>e m. e \<in> set es \<Longrightarrow> P m \<Longrightarrow> view_ok M m \<Longrightarrow> good M m (step e m)"
    and "\<And>m m'. P m \<Longrightarrow> step_ok m m' \<Longrightarrow> P m'" and "P m" "view_ok M m"
  shows "good M m (dispatch_list step es m)"
  using assms(1,3,4)
proof (induction es arbitrary: m)
  case Nil
  then show ?case by (simp add: good_Some)
next
  case (Cons e es)
  have "good M m (step e m)" by (rule Cons.prems) (use Cons.prems in simp_all)
  then show ?case
    unfolding dispatch_list.simps by (rule good_bind) (use Cons assms(2) in simp_all)
qed

text \<open>The loop over an array runs the entries the array holds, as long as the dissectors leave it alone.\<close>

lemma run_callbacks_list:
  assumes "\<And>e m m'. P m \<Longrightarrow> e \<in> set (take (sz m) (buf m)) \<Longrightarrow> step e m = Some m'
      \<Longrightarrow> P m' \<and> buf m' = buf m \<and> sz m' = sz m"
    and "P m" "sz m \<le> length (buf m)"
  shows "run_callbacks buf sz step a m = dispatch_list step (drop a (take (sz m) (buf m))) m"
  using assms(2,3)
proof (induction "sz m - a" arbitrary: a m)
  case 0
  then show ?case by (simp add: run_callbacks.simps)
next
  case (Suc n)
  then have a: "a < sz m" "a < length (buf m)" by auto
  then have d: "drop a (take (sz m) (buf m)) = buf m ! a # drop (a + 1) (take (sz m) (buf m))"
    by (simp add: Cons_nth_drop_Suc [symmetric])
  show ?case
  proof (cases "step (buf m ! a) m")
    case (Some m')
    moreover have "buf m ! a \<in> set (take (sz m) (buf m))" using a by (auto simp: in_set_conv_nth)
    ultimately have "P m'" "buf m' = buf m" "sz m' = sz m" using assms(1) Suc.prems(1) by blast+
    then show ?thesis using Suc.hyps(1) [of m' "a + 1"] Suc.hyps(2) Suc.prems a Some
      by (subst run_callbacks.simps) (simp add: d)
  qed (use a in \<open>subst run_callbacks.simps, simp add: d\<close>)
qed

subsection \<open>What the dispatcher relies on\<close>

definition selected :: "call_function \<Rightarrow> packet_struct \<Rightarrow> bool" where
  "selected e pk \<longleftrightarrow> cf_selection e AND selection_packet pk = cf_selection e"

text \<open>Packets of TCP and UDP come with a flow; at most one transport header is present, and it is the one the IP
  header announces.\<close>

definition flow_known :: "detection_module \<Rightarrow> bool" where
  "flow_known m \<longleftrightarrow> (ds_flow m = None \<longrightarrow> pk_tcp (ds_packet m) = NULL \<and> pk_udp (ds_packet m) = NULL)"

definition transport_ok :: "packet_struct \<Rightarrow> bool" where
  "transport_ok pk \<longleftrightarrow> (pk_tcp pk \<noteq> NULL \<longrightarrow> pk_udp pk = NULL \<and> pk_l4_protocol pk = 6)
     \<and> (pk_udp pk \<noteq> NULL \<longrightarrow> pk_l4_protocol pk = 17)"

lemma selection_step: "step_ok m m' \<Longrightarrow> selection_packet (ds_packet m') = selection_packet (ds_packet m)"
  by (simp add: step_ok_def same_windows_def selection_packet_def)

lemma transport_step: "step_ok m m' \<Longrightarrow> transport_ok (ds_packet m') = transport_ok (ds_packet m)"
  by (simp add: step_ok_def same_windows_def transport_ok_def)

lemma flow_known_step: "step_ok m m' \<Longrightarrow> flow_known m' = flow_known m"
  by (simp add: step_ok_def same_windows_def flow_known_def)

lemma flow_step: "step_ok m m' \<Longrightarrow> ds_flow m' = None \<longleftrightarrow> ds_flow m = None"
  by (simp add: step_ok_def)

lemma config_fields:
  assumes "same_config m m'"
  shows "arrays_ok m' = arrays_ok m" "arrays_of m' es = arrays_of m es" "sizes_ok m' = sizes_ok m"
    "detection_bitmask m' = detection_bitmask m"
    "callback_buffer_tcp_payload m' = callback_buffer_tcp_payload m"
    "callback_buffer_size_tcp_payload m' = callback_buffer_size_tcp_payload m"
    "callback_buffer_tcp_no_payload m' = callback_buffer_tcp_no_payload m"
    "callback_buffer_size_tcp_no_payload m' = callback_buffer_size_tcp_no_payload m"
    "callback_buffer_udp m' = callback_buffer_udp m" "callback_buffer_size_udp m' = callback_buffer_size_udp m"
    "callback_buffer_non_tcp_udp m' = callback_buffer_non_tcp_udp m"
    "callback_buffer_size_non_tcp_udp m' = callback_buffer_size_non_tcp_udp m"
  using assms by (simp_all add: same_config_def callbacks.defs arrays_ok_def arrays_of_def sizes_ok_def)

text \<open>The bits of the packet's selection word.\<close>

lemma selection_bits:
  "bit (selection_packet pk) 1 \<longleftrightarrow> pk_tcp pk \<noteq> NULL" "bit (selection_packet pk) 2 \<longleftrightarrow> pk_udp pk \<noteq> NULL"
  "bit (selection_packet pk) 3 \<longleftrightarrow> pk_tcp pk \<noteq> NULL \<or> pk_udp pk \<noteq> NULL"
  "bit (selection_packet pk) 4 \<longleftrightarrow> pk_payload_packet_len pk \<noteq> 0"
  by (simp_all add: selection_packet_def bit_or_iff)

lemma selected_bit: "selected e pk \<Longrightarrow> bit (cf_selection e) n \<Longrightarrow> bit (selection_packet pk) n"
  unfolding selected_def by (metis bit_and_iff)

text \<open>The entries of the array the dispatcher picks, in terms of the whole list.\<close>

definition class_filter :: "detection_module \<Rightarrow> call_function \<Rightarrow> bool" where
  "class_filter m = (let pk = ds_packet m in
     if ds_flow m \<noteq> None \<and> pk_tcp pk \<noteq> NULL
     then if pk_payload_packet_len pk \<noteq> 0 then wants_tcp else wants_tcp_no_payload
     else if ds_flow m \<noteq> None \<and> pk_udp pk \<noteq> NULL then wants_udp else wants_non_tcp_udp)"

definition callback :: "(string \<Rightarrow> dissector) \<Rightarrow> mem \<Rightarrow> detection_module \<Rightarrow> call_function \<Rightarrow> detection_module
    \<Rightarrow> detection_module option" where
  "callback tab M m = callback_step tab M
     (\<not> (ds_flow m \<noteq> None \<and> (pk_tcp (ds_packet m) \<noteq> NULL \<or> pk_udp (ds_packet m) \<noteq> NULL)))
     (selection_packet (ds_packet m)) (IPOQUE_SAVE_AS_BITMASK (unat (pk_detected_protocol (ds_packet m))))"

definition config_ok :: "call_function list \<Rightarrow> detection_module \<Rightarrow> bool" where
  "config_ok es m \<longleftrightarrow> arrays_ok m \<and> arrays_of m es \<and> sizes_ok m"

lemma config_ok_step: "same_config m m' \<Longrightarrow> config_ok es m' = config_ok es m"
  by (simp add: config_ok_def config_fields)

text \<open>The contract of a table of dissectors for the entries \<open>es\<close> and the protocols \<open>allowed\<close>: a dissector that is called
  on a packet its entry selects, with no other protocol enabled, returns and keeps the module in order.\<close>

definition enables :: "protocol_bitmask \<Rightarrow> detection_module \<Rightarrow> bool" where
  "enables allowed m \<longleftrightarrow> bm_set (detection_bitmask m) \<subseteq> bm_set allowed"

lemma enables_step: "same_config m m' \<Longrightarrow> enables allowed m' = enables allowed m"
  by (simp add: enables_def config_fields)

locale dissectors =
  fixes tab :: "string \<Rightarrow> dissector" and es :: "call_function list" and allowed :: protocol_bitmask
  assumes conforms: "e \<in> set es \<Longrightarrow> selected e (ds_packet m) \<Longrightarrow> flow_known m \<Longrightarrow> view_ok M m
    \<Longrightarrow> enables allowed m \<Longrightarrow> good M m (tab (cf_func e) M m)"
begin

definition ready :: "bool \<Rightarrow> u32 \<Rightarrow> detection_module \<Rightarrow> bool" where
  "ready null_ok sel m \<longleftrightarrow> selection_packet (ds_packet m) = sel \<and> flow_known m \<and> (null_ok \<or> ds_flow m \<noteq> None)
     \<and> enables allowed m"

lemma ready_step: "ready null_ok sel m \<Longrightarrow> step_ok m m' \<Longrightarrow> ready null_ok sel m'"
  using selection_step [of m m'] flow_known_step [of m m'] flow_step [of m m'] enables_step [of m m']
  by (simp add: ready_def step_ok_def)

lemma callback_step_good:
  assumes "e \<in> set es" "ready null_ok sel m" "view_ok M m"
  shows "good M m (callback_step tab M null_ok sel det e m)"
proof -
  have "good M m (tab (cf_func e) M m)" if "callback_runs null_ok sel det e m = Some True"
    using assms that by (intro conforms) (auto simp: callback_runs_def ready_def selected_def bind_eq_Some_conv split: if_splits)
  moreover have "\<exists>b. callback_runs null_ok sel det e m = Some b"
    unfolding callback_runs_def using assms(2) by (intro cond_total) (auto simp: ready_def split: option.split)
  then obtain b where "callback_runs null_ok sel det e m = Some b" ..
  ultimately show ?thesis using assms(3) by (cases b) (simp_all add: callback_step_def good_Some)
qed

lemma dispatch_good:
  "set es' \<subseteq> set es \<Longrightarrow> ready null_ok sel m \<Longrightarrow> view_ok M m
    \<Longrightarrow> good M m (dispatch_list (callback_step tab M null_ok sel det) es' m)"
  using callback_step_good ready_step by (intro dispatch_list_good [where P = "ready null_ok sel"]) auto

lemma run_callbacks_eq:
  assumes "set (take (sz m) (buf m)) \<subseteq> set es" "ready null_ok sel m" "view_ok M m" "sz m \<le> length (buf m)"
    and frame: "\<And>m m'. same_config m m' \<Longrightarrow> buf m' = buf m \<and> sz m' = sz m"
  shows "run_callbacks buf sz (callback_step tab M null_ok sel det) 0 m
    = dispatch_list (callback_step tab M null_ok sel det) (take (sz m) (buf m)) m"
proof -
  let ?P = "\<lambda>m'. view_ok M m' \<and> ready null_ok sel m' \<and> set (take (sz m') (buf m')) \<subseteq> set es"
  have "?P m'' \<and> buf m'' = buf m' \<and> sz m'' = sz m'"
    if "?P m'" "e \<in> set (take (sz m') (buf m'))" "callback_step tab M null_ok sel det e m' = Some m''" for e m' m''
  proof -
    have e: "e \<in> set es" and rdy: "ready null_ok sel m'" and vw: "view_ok M m'" using that(1,2) by blast+
    have "view_ok M m''" "step_ok m' m''"
      using callback_step_good [OF e rdy vw, of det] unfolding that(3) good_def by simp_all
    moreover have "buf m'' = buf m' \<and> sz m'' = sz m'"
      by (rule frame) (use \<open>step_ok m' m''\<close> in \<open>simp add: step_ok_def\<close>)
    ultimately show ?thesis using that(1) ready_step [OF rdy] by simp
  qed
  then have "run_callbacks buf sz (callback_step tab M null_ok sel det) 0 m
      = dispatch_list (callback_step tab M null_ok sel det) (drop 0 (take (sz m) (buf m))) m"
    by (rule run_callbacks_list) (use assms(1-4) in simp_all)
  then show ?thesis by simp
qed

text \<open>The loops over the arrays call the dissectors of the packet's class, and nothing goes wrong.\<close>

lemma call_dissectors_eq:
  assumes "view_ok M m" "flow_known m" "config_ok es' m" "set es' \<subseteq> set es" "enables allowed m"
  shows "call_dissectors tab M m = dispatch_list (callback tab M m) (filter (class_filter m) es') m"
proof -
  have arr: "arrays_ok m" "arrays_of m es'" "sizes_ok m" using assms(3) by (simp_all add: config_ok_def)
  have p: "\<not> 128 \<le> unat (pk_detected_protocol (ds_packet m))" using assms(1) by (simp add: view_ok_def protocols_ok_def)
  have sub: "set (filter P es') \<subseteq> set es" for P using assms(4) by auto
  have r: "ready n (selection_packet (ds_packet m)) m" if "n \<or> ds_flow m \<noteq> None" for n
    using that assms(2,5) by (simp add: ready_def)
  note run = run_callbacks_eq [OF _ _ assms(1)]
  show ?thesis
    unfolding call_dissectors_def if_not_P [OF p] Let_def class_filter_def callback_def
    using arr sub r
    by (auto simp: arrays_of_def arrays_ok_def sizes_ok_def config_fields run)
qed

lemma call_dissectors_good:
  assumes "view_ok M m" "flow_known m" "config_ok es' m" "set es' \<subseteq> set es" "enables allowed m"
  shows "good M m (call_dissectors tab M m)"
  unfolding call_dissectors_eq [OF assms] callback_def
  using assms by (intro dispatch_good) (auto simp: ready_def)

end

subsection \<open>The arrays of a packet class against the whole list\<close>

lemma and_or_0: "x AND (a OR b) = 0 \<longleftrightarrow> x AND a = 0 \<and> x AND b = (0::u32)"
  by (simp add: bit.conj_disj_distrib or_eq_0_iff)

lemma and_bits: "x AND 2 = 0 \<longleftrightarrow> \<not> bit x 1" "x AND 4 = 0 \<longleftrightarrow> \<not> bit x 2" "x AND 8 = 0 \<longleftrightarrow> \<not> bit x 3"
    "x AND 16 = 0 \<longleftrightarrow> \<not> bit x 4" "x AND 256 = 0 \<longleftrightarrow> \<not> bit x 8" for x :: u32
  using and_exp_eq_0_iff_not_bit [of x 1] and_exp_eq_0_iff_not_bit [of x 2] and_exp_eq_0_iff_not_bit [of x 3]
    and_exp_eq_0_iff_not_bit [of x 4] and_exp_eq_0_iff_not_bit [of x 8] by simp_all

lemma wants_bits:
  "wants_tcp e \<longleftrightarrow> bit (cf_selection e) 1 \<or> bit (cf_selection e) 3 \<or> bit (cf_selection e) 8"
  "wants_tcp_no_payload e \<longleftrightarrow> wants_tcp e \<and> \<not> bit (cf_selection e) 4"
  "wants_udp e \<longleftrightarrow> bit (cf_selection e) 2 \<or> bit (cf_selection e) 3 \<or> bit (cf_selection e) 8"
  "wants_non_tcp_udp e \<longleftrightarrow> \<not> (bit (cf_selection e) 1 \<or> bit (cf_selection e) 2 \<or> bit (cf_selection e) 3) \<or> bit (cf_selection e) 8"
  unfolding wants_tcp_def wants_tcp_no_payload_def wants_udp_def wants_non_tcp_udp_def and_or_0 and_bits by blast+

lemma not_in_class:
  assumes "\<not> class_filter m e" "selected e (ds_packet m)" "flow_known m" "transport_ok (ds_packet m)"
  shows "pk_tcp (ds_packet m) \<noteq> NULL \<or> pk_udp (ds_packet m) \<noteq> NULL" "\<not> wants_tcp e" "\<not> wants_udp e"
proof -
  have s: "bit (cf_selection e) 1 \<longrightarrow> pk_tcp (ds_packet m) \<noteq> NULL" "bit (cf_selection e) 2 \<longrightarrow> pk_udp (ds_packet m) \<noteq> NULL"
    "bit (cf_selection e) 3 \<longrightarrow> pk_tcp (ds_packet m) \<noteq> NULL \<or> pk_udp (ds_packet m) \<noteq> NULL"
    "bit (cf_selection e) 4 \<longrightarrow> pk_payload_packet_len (ds_packet m) \<noteq> 0"
    using selected_bit [OF assms(2)] selection_bits by blast+
  consider (tcp) "ds_flow m \<noteq> None" "pk_tcp (ds_packet m) \<noteq> NULL" "pk_udp (ds_packet m) = NULL"
    | (udp) "ds_flow m \<noteq> None" "pk_tcp (ds_packet m) = NULL" "pk_udp (ds_packet m) \<noteq> NULL"
    | (other) "pk_tcp (ds_packet m) = NULL" "pk_udp (ds_packet m) = NULL"
    using assms(3,4) unfolding flow_known_def transport_ok_def by metis
  then have "(pk_tcp (ds_packet m) \<noteq> NULL \<or> pk_udp (ds_packet m) \<noteq> NULL) \<and> \<not> wants_tcp e \<and> \<not> wants_udp e"
  proof cases
    case tcp
    then have "class_filter m = (if pk_payload_packet_len (ds_packet m) \<noteq> 0 then wants_tcp else wants_tcp_no_payload)"
      by (simp add: class_filter_def Let_def)
    then show ?thesis using assms(1) s tcp unfolding wants_bits by (simp add: wants_bits split: if_splits)
  next
    case udp
    then have "class_filter m = wants_udp" by (simp add: class_filter_def Let_def)
    then show ?thesis using assms(1) s udp by (simp add: wants_bits)
  next
    case other
    then have "class_filter m = wants_non_tcp_udp" by (simp add: class_filter_def Let_def)
    then show ?thesis using assms(1) s other by (simp add: wants_bits)
  qed
  then show "pk_tcp (ds_packet m) \<noteq> NULL \<or> pk_udp (ds_packet m) \<noteq> NULL" "\<not> wants_tcp e" "\<not> wants_udp e" by blast+
qed

text \<open>An entry for all of IP, whose dissector is not in the arrays for TCP and UDP, would do nothing there.\<close>

locale idle_dissectors = dissectors +
  assumes idle: "e \<in> set es \<Longrightarrow> \<not> wants_tcp e \<Longrightarrow> \<not> wants_udp e \<Longrightarrow> transport_ok (ds_packet m)
    \<Longrightarrow> pk_tcp (ds_packet m) \<noteq> NULL \<or> pk_udp (ds_packet m) \<noteq> NULL \<Longrightarrow> tab (cf_func e) M m = Some m"
begin

lemma skipped:
  assumes "e \<in> set es" "\<not> class_filter m e" "ready null_ok (selection_packet (ds_packet m)) m"
    and "transport_ok (ds_packet m)"
  shows "callback_step tab M null_ok (selection_packet (ds_packet m)) det e m = Some m"
proof (cases "selected e (ds_packet m)")
  case True
  then have "tab (cf_func e) M m = Some m"
    using assms not_in_class [OF assms(2) True] by (intro idle) (simp_all add: ready_def)
  moreover have "\<exists>b. callback_runs null_ok (selection_packet (ds_packet m)) det e m = Some b"
    unfolding callback_runs_def using assms(3) by (intro cond_total) (auto simp: ready_def split: option.split)
  ultimately show ?thesis by (auto simp: callback_step_def)
qed (simp add: callback_step_def callback_runs_def selected_def)

lemma class_step: "step_ok m m' \<Longrightarrow> class_filter m' = class_filter m"
  using flow_step [of m m'] by (simp add: class_filter_def step_ok_def same_windows_def Let_def)

lemma dispatch_class:
  assumes "set es' \<subseteq> set es" "ready null_ok sel m" "view_ok M m" "transport_ok (ds_packet m)" "class_filter m = C"
  shows "dispatch_list (callback_step tab M null_ok sel det) (filter C es') m
    = dispatch_list (callback_step tab M null_ok sel det) es' m"
  using assms
proof (induction es' arbitrary: m)
  case (Cons e es')
  have sel: "selection_packet (ds_packet m) = sel" using Cons.prems(2) by (simp add: ready_def)
  have step: "good M m (callback_step tab M null_ok sel det e m)"
    by (rule callback_step_good) (use Cons.prems in simp_all)
  then obtain m' where m': "callback_step tab M null_ok sel det e m = Some m'" "view_ok M m'" "step_ok m m'"
    by (auto simp: good_def)
  have ih: "dispatch_list (callback_step tab M null_ok sel det) (filter C es') m'
      = dispatch_list (callback_step tab M null_ok sel det) es' m'"
    using Cons.prems m' ready_step [OF _ m'(3)] transport_step [OF m'(3)] class_step [OF m'(3)]
    by (intro Cons.IH) simp_all
  show ?case
  proof (cases "C e")
    case False
    then have "m' = m" using skipped [of e m null_ok M det] Cons.prems m'(1) sel by simp
    then show ?thesis using False ih m'(1) by simp
  qed (use ih m'(1) in simp)
qed simp

text \<open>The arrays are an optimisation: the dispatcher does what a loop over the whole list of entries would do.\<close>

lemma call_dissectors_all:
  assumes "view_ok M m" "flow_known m" "transport_ok (ds_packet m)" "config_ok es' m" "set es' \<subseteq> set es" "enables allowed m"
  shows "call_dissectors tab M m = dispatch_list (callback tab M m) es' m"
  unfolding call_dissectors_eq [OF assms(1,2,4-6)] unfolding callback_def
  using assms by (intro dispatch_class) (auto simp: ready_def)

end

end
