(* ===== verification/Ipq_Process.thy ===== *)
theory Ipq_Process
  imports Ipq_Dispatch
begin

text \<open>
  \<^verbatim>\<open>ipoque_detection_process_packet\<close> as a whole: on a packet whose IP header is consistent it returns, reports an enabled
  protocol or none, and keeps the invariant of the module.
\<close>

definition flow_good :: "flow_struct \<Rightarrow> bool" where
  "flow_good fl \<longleftrightarrow> flow_ok fl \<and> unat (fl_detected_protocol fl) < 128"

definition module_ok :: "call_function list \<Rightarrow> detection_module \<Rightarrow> bool" where
  "module_ok es m \<longleftrightarrow> config_ok es m \<and> arrays_200 (ds_packet m)"

text \<open>What the caller passes: a packet in memory, a flow that is in order, and id structs that exist.\<close>

definition call_ok :: "mem \<Rightarrow> addr \<Rightarrow> u16 \<Rightarrow> flow_struct option \<Rightarrow> addr \<Rightarrow> addr \<Rightarrow> detection_module \<Rightarrow> bool" where
  "call_ok M p len flow src dst m \<longleftrightarrow> p \<noteq> NULL \<and> readable M p (unat len) \<and> (20 \<le> unat len \<longrightarrow> sized M p)
     \<and> pred_option flow_good flow \<and> {src, dst} - {NULL} \<subseteq> dom (ds_ids m)"

lemma zero_flow_good [simp]: "flow_good zero_flow"
  by (simp add: flow_good_def) (simp add: zero_flow_def)

lemma give_up_ok:
  "module_ok es m \<Longrightarrow> \<exists>m'. give_up m = Some (IPOQUE_PROTOCOL_UNKNOWN, m') \<and> module_ok es m' \<and> same_config m m'
    \<and> ds_ids m' = ds_ids m \<and> ds_flow m' = ds_flow m"
  by (simp add: give_up_def module_ok_def config_ok_step arrays_200_def) (simp add: config_ok_def arrays_ok_def arrays_of_def sizes_ok_def)

text \<open>Up to the call of the dissectors.\<close>

lemma process_packet_start:
  assumes "call_ok M p len flow src dst m" "module_ok es m"
  obtains (stop) m' where "\<And>calls. process_packet_with calls M p len tick flow src dst m = give_up m'"
      "module_ok es m'" "same_config m m'" "ds_ids m' = ds_ids m"
      "20 \<le> unat len \<Longrightarrow> pred_option flow_good (ds_flow m')" "20 \<le> unat len \<Longrightarrow> ds_flow m' = None \<longleftrightarrow> flow = None"
    | (go) m' where "\<And>calls. process_packet_with calls M p len tick flow src dst m
        = do { m \<leftarrow> calls m'; a \<leftarrow> reported_protocol m; Some (a, m) }"
      "view_ok M m'" "flow_known m'" "transport_ok (ds_packet m')" "module_ok es m'" "same_config m m'"
      "ds_ids m' = ds_ids m" "ds_flow m' = None \<longleftrightarrow> flow = None" "20 \<le> unat len"
proof (cases "len < 20")
  case True
  then have "process_packet_with calls M p len tick flow src dst m = give_up m" for calls
    by (simp add: process_packet_with_def)
  moreover have "\<not> 20 \<le> unat len" using True by (simp add: word_less_nat_alt)
  ultimately show ?thesis by (intro stop [of m]) (use assms(2) in simp_all)
next
  case False
  then have n: "20 \<le> unat len" by (simp add: word_less_nat_alt not_less)
  let ?m = "m\<lparr>ds_packet := (ds_packet m)\<lparr>pk_tick_timestamp := tick, pk_iph := p\<rparr>, ds_flow := flow\<rparr>"
  have c: "readable M p (unat len)" "sized M p" "p \<noteq> NULL" "pred_option flow_good flow"
    "{src, dst} - {NULL} \<subseteq> dom (ds_ids m)"
    using assms(1) n by (simp_all add: call_ok_def)
  obtain r m1 where h: "ipq_init_packet_header M len ?m = Some (r, m1)" "header_view p (unat len) r (ds_packet m1)"
    "pk_iph (ds_packet m1) = p \<or> pk_iph (ds_packet m1) = NULL" "same_lines (ds_packet ?m) (ds_packet m1)"
    "same_config ?m m1" "ds_ids m1 = ds_ids ?m" "ds_flow m1 = ds_flow ?m \<or> (ds_flow ?m \<noteq> None \<and> ds_flow m1 = Some zero_flow)"
    "r = 0 \<longrightarrow> pk_iph (ds_packet m1) = p"
    by (rule header_ok [OF c(1) n c(2,3), of ?m]) simp_all
  have m1: "same_config m m1" "ds_ids m1 = ds_ids m" "pred_option flow_good (ds_flow m1)" "ds_flow m1 = None \<longleftrightarrow> flow = None"
    "arrays_200 (ds_packet m1)"
    using h(4-7) c(4) assms(2) by (auto simp: module_ok_def arrays_200_def same_lines_def)
  then have ok1: "module_ok es m1" using assms(2) by (simp add: module_ok_def config_ok_step)
  show ?thesis
  proof (cases "r = 0")
    case False
    then have "process_packet_with calls M p len tick flow src dst m = give_up m1" for calls
      using \<open>\<not> len < 20\<close> by (simp add: process_packet_with_def h(1))
    then show ?thesis by (rule stop) (use ok1 m1 in simp_all)
  next
    case True
    let ?m1 = "m1\<lparr>ds_src := src, ds_dst := dst\<rparr>"
    have win: "windows_ok M (ds_packet ?m1)" using header_view_windows [OF h(2) c(1) n h(3)] by simp
    have fl: "pred_option flow_ok (ds_flow ?m1)" using m1(3) by (simp add: flow_good_def pred_option_def)
    obtain m2 where t: "ipoque_connection_tracking M ?m1 = Some m2" "tracked m2" "windows_ok M (ds_packet m2)"
      "same_lines (ds_packet m1) (ds_packet m2)"
      "same_windows ((ds_packet m1)\<lparr>pk_tcp_retransmission := pk_tcp_retransmission (ds_packet m2)\<rparr>) (ds_packet m2)"
      "same_config m1 m2" "pred_option flow_ok (ds_flow m2)" "ds_flow m2 = None \<longleftrightarrow> ds_flow m1 = None"
      "map_option fl_detected_protocol (ds_flow m2) = map_option fl_detected_protocol (ds_flow m1)"
      "ds_ids m2 = ds_ids m1" "ds_src m2 = src" "ds_dst m2 = dst"
      by (rule tracking_ok [OF win fl]) simp_all
    have m2: "same_config m m2" "ds_ids m2 = ds_ids m" "ds_flow m2 = None \<longleftrightarrow> flow = None" "arrays_200 (ds_packet m2)"
      using t(4,6,8,10) m1 same_config_trans by (auto simp: arrays_200_def same_lines_def)
    then have ok2: "module_ok es m2" using assms(2) by (simp add: module_ok_def config_ok_step)
    have good2: "pred_option flow_good (ds_flow m2)"
      using t(7,9) m1(3) by (cases "ds_flow m1"; cases "ds_flow m2") (simp_all add: flow_good_def)
    have run: "process_packet_with calls M p len tick flow src dst m
        = (if flow = None \<and> (pk_tcp (ds_packet m2) \<noteq> NULL \<or> pk_udp (ds_packet m2) \<noteq> NULL) then give_up m2
           else do { m \<leftarrow> calls m2; a \<leftarrow> reported_protocol m; Some (a, m) })" for calls
      using \<open>\<not> len < 20\<close> True by (simp add: process_packet_with_def h(1) t(1))
    show ?thesis
    proof (cases "flow = None \<and> (pk_tcp (ds_packet m2) \<noteq> NULL \<or> pk_udp (ds_packet m2) \<noteq> NULL)")
      case True
      show ?thesis
        by (rule stop [of m2, OF run [unfolded if_P [OF True]]]) (use ok2 m2 good2 in simp_all)
    next
      case False
      have "pk_iph (ds_packet m2) \<noteq> NULL" using t(5) h(8) c(3) \<open>r = 0\<close> by (simp add: same_windows_def)
      then have "packet_ok M (ds_packet m2)" using t(2,3) m2(4) by (simp add: packet_ok_def tracked_def)
      moreover have "ids_ok m2" using c(5) t(10-12) m1(2) by (auto simp: ids_ok_def)
      moreover have "protocols_ok m2" using t(2) good2 by (auto simp: protocols_ok_def tracked_def flow_good_def split: option.splits)
      ultimately have "view_ok M m2" using t(7) by (simp add: view_ok_def)
      moreover have "flow_known m2" using False m2(3) by (auto simp: flow_known_def)
      moreover have "transport_ok (ds_packet m2)"
        using h(2) t(5) unfolding header_view_def same_windows_def transport_ok_def by simp
      ultimately show ?thesis
        by (intro go [of m2, OF run [unfolded if_not_P [OF False]]]) (use ok2 m2 n in simp_all)
    qed
  qed
qed

lemma reported_ok:
  assumes "protocols_ok m"
  obtains a where "reported_protocol m = Some a" "a = IPOQUE_PROTOCOL_UNKNOWN \<or> a \<in> bm_set (detection_bitmask m)"
proof -
  have "unat (pk_detected_protocol (ds_packet m)) < 128" using assms by (simp add: protocols_ok_def)
  then show thesis
    using that bm.member_law [of "unat (pk_detected_protocol (ds_packet m))" "detection_bitmask m"]
    by (auto simp: reported_protocol_def Let_def split: if_splits)
qed

text \<open>Any table of dissectors that keeps the contract makes the call safe.\<close>

context dissectors
begin

lemma process_packet_ok:
  assumes "call_ok M p len flow src dst m" "module_ok es' m" "set es' \<subseteq> set es" "enables allowed m"
  obtains r m' where "ipoque_detection_process_packet tab M p len tick flow src dst m = Some (r, m')"
    "r = IPOQUE_PROTOCOL_UNKNOWN \<or> r \<in> bm_set (detection_bitmask m)" "module_ok es' m'" "same_config m m'"
    "dom (ds_ids m') = dom (ds_ids m)" "20 \<le> unat len \<Longrightarrow> pred_option flow_good (ds_flow m')"
    "20 \<le> unat len \<Longrightarrow> ds_flow m' = None \<longleftrightarrow> flow = None"
proof (rule process_packet_start [OF assms(1,2), of tick])
  fix m1
  assume h: "\<And>calls. process_packet_with calls M p len tick flow src dst m = give_up m1"
      "module_ok es' m1" "same_config m m1" "ds_ids m1 = ds_ids m"
      "20 \<le> unat len \<Longrightarrow> pred_option flow_good (ds_flow m1)" "20 \<le> unat len \<Longrightarrow> ds_flow m1 = None \<longleftrightarrow> flow = None"
  obtain m' where "give_up m1 = Some (IPOQUE_PROTOCOL_UNKNOWN, m')" "module_ok es' m'" "same_config m1 m'"
    "ds_ids m' = ds_ids m1" "ds_flow m' = ds_flow m1"
    using give_up_ok [OF h(2)] by blast
  then show thesis using h same_config_trans by (intro that [of IPOQUE_PROTOCOL_UNKNOWN m']) (simp_all add: ipoque_detection_process_packet_def)
next
  fix m1
  assume h: "\<And>calls. process_packet_with calls M p len tick flow src dst m
        = do { m \<leftarrow> calls m1; a \<leftarrow> reported_protocol m; Some (a, m) }"
      "view_ok M m1" "flow_known m1" "transport_ok (ds_packet m1)" "module_ok es' m1" "same_config m m1"
      "ds_ids m1 = ds_ids m" "ds_flow m1 = None \<longleftrightarrow> flow = None" "20 \<le> unat len"
  have "good M m1 (call_dissectors tab M m1)"
    by (rule call_dissectors_good [OF h(2,3) _ assms(3)]) (use h(5,6) assms(4) enables_step in \<open>auto simp: module_ok_def\<close>)
  then obtain m' where m': "call_dissectors tab M m1 = Some m'" "view_ok M m'" "step_ok m1 m'" by (auto simp: good_def)
  have cfg: "same_config m m'" using h(6) m'(3) same_config_trans by (auto simp: step_ok_def)
  obtain a where a: "reported_protocol m' = Some a" "a = IPOQUE_PROTOCOL_UNKNOWN \<or> a \<in> bm_set (detection_bitmask m')"
    by (rule reported_ok [of m']) (use m'(2) in \<open>simp add: view_ok_def\<close>)
  have "module_ok es' m'"
    using assms(2) cfg m'(2) by (simp add: module_ok_def config_ok_step [OF cfg] view_ok_def packet_ok_def)
  moreover have "pred_option flow_good (ds_flow m')"
    using m'(2) by (auto simp: view_ok_def protocols_ok_def flow_good_def pred_option_def split: option.splits)
  moreover have "dom (ds_ids m') = dom (ds_ids m)" "ds_flow m' = None \<longleftrightarrow> flow = None"
    using m'(3) h(7,8) by (simp_all add: step_ok_def)
  ultimately show thesis
    using a config_fields(4) [OF cfg] cfg by (intro that [of a m']) (simp_all add: ipoque_detection_process_packet_def h(1) m'(1))
qed

end

text \<open>Without the arrays: the same function with a loop over all registered entries.\<close>

definition process_packet_spec ::
    "(string \<Rightarrow> dissector) \<Rightarrow> call_function list \<Rightarrow> mem \<Rightarrow> addr \<Rightarrow> u16 \<Rightarrow> u32 \<Rightarrow> flow_struct option \<Rightarrow> addr \<Rightarrow> addr
     \<Rightarrow> detection_module \<Rightarrow> (nat \<times> detection_module) option" where
  "process_packet_spec tab es M = process_packet_with (\<lambda>m. dispatch_list (callback tab M m) es m) M"

context idle_dissectors
begin

lemma process_packet_refines:
  assumes "call_ok M p len flow src dst m" "module_ok es' m" "set es' \<subseteq> set es" "enables allowed m"
  shows "ipoque_detection_process_packet tab M p len tick flow src dst m = process_packet_spec tab es' M p len tick flow src dst m"
proof (rule process_packet_start [OF assms(1,2), of tick])
  fix m1
  assume "\<And>calls. process_packet_with calls M p len tick flow src dst m = give_up m1"
  then show ?thesis by (simp add: ipoque_detection_process_packet_def process_packet_spec_def)
next
  fix m1
  assume "\<And>calls. process_packet_with calls M p len tick flow src dst m
        = do { m \<leftarrow> calls m1; a \<leftarrow> reported_protocol m; Some (a, m) }"
      and h: "view_ok M m1" "flow_known m1" "transport_ok (ds_packet m1)" "module_ok es' m1" "same_config m m1"
  moreover have "config_ok es' m1" "enables allowed m1" using h(4,5) assms(4) enables_step by (auto simp: module_ok_def)
  ultimately show ?thesis
    by (simp add: ipoque_detection_process_packet_def process_packet_spec_def call_dissectors_all [OF h(1-3) _ assms(3)])
qed

end

end
