(* ===== verification/Ipq_Modelled.thy ===== *)
theory Ipq_Modelled
  imports Ipq_Table Ipq_Process
begin

text \<open>
  The dispatcher with the dissectors of \<^verbatim>\<open>Ipq_Table\<close>: the entries the registration makes for their protocols, and the
  interpretation of the dispatcher's contract on them.
\<close>

subsection \<open>The entries of the modelled protocols\<close>

lemma conditions_in_range: "list_all (\<lambda>b. list_all (\<lambda>v. v < 128) (rb_cond b)) reg_blocks"
  by (simp add: reg_blocks_defs)

lemma enabled_mono:
  assumes "bm_set d \<subseteq> bm_set d'" "list_all (\<lambda>v. v < 128) vs"
    and "\<exists>v\<in>set vs. IPOQUE_COMPARE_PROTOCOL_TO_BITMASK d v \<noteq> 0"
  shows "\<exists>v\<in>set vs. IPOQUE_COMPARE_PROTOCOL_TO_BITMASK d' v \<noteq> 0"
proof -
  obtain v where v: "v \<in> set vs" "IPOQUE_COMPARE_PROTOCOL_TO_BITMASK d v \<noteq> 0" using assms(3) by blast
  moreover have "v < 128" using assms(2) v(1) by (simp add: list_all_iff)
  ultimately have "v \<in> bm_set d'" using bm.member_law [of v d] assms(1) by auto
  then show ?thesis using bm.member_law [OF \<open>v < 128\<close>, of d'] v(1) by blast
qed

lemma registered_mono:
  assumes "bm_set d \<subseteq> bm_set d'"
  shows "set (registered d) \<subseteq> set (registered d')"
proof -
  have "http_enabled d \<longrightarrow> http_enabled d'"
    unfolding http_enabled_def using enabled_mono [OF assms, of "http_protocols @ [IPOQUE_PROTOCOL_HTTP]"]
    by (simp add: http_protocols_def)
  moreover have "rb_enabled d' b" if "b \<in> set reg_blocks" "rb_enabled d b" for b
    using that conditions_in_range enabled_mono [OF assms, of "rb_cond b"] by (auto simp: rb_enabled_def list_all_iff)
  ultimately show ?thesis by (auto simp: registered_def)
qed

lemma modelled_words: "modelled_protocols = \<lparr>bm0 = 1116891502849032188, bm1 = 135283064709\<rparr>"
  by code_simp

lemma modelled_entries:
  "List.map (\<lambda>e. (cf_func e, cf_selection e)) (registered modelled_protocols) = [
     (''ipoque_search_http_tcp'', 146), (''ipoque_search_ssl_tcp'', 19), (''ipoque_search_sip'', 25),
     (''ipoque_search_bittorrent'', 9), (''ipoque_search_fasttrack_tcp'', 51), (''ipoque_search_winmx_tcp'', 51),
     (''ipoque_search_directconnect'', 57), (''ipoque_search_applejuice_tcp'', 51),
     (''ipoque_search_mail_pop_tcp'', 51), (''ipoque_search_mail_imap_tcp'', 51),
     (''ipoque_search_mail_smtp_tcp'', 51), (''ipoque_search_usenet_tcp'', 51), (''ipoque_search_dns'', 57),
     (''ipoque_search_filetopia_tcp'', 51), (''ipoque_search_manolito_tcp_udp'', 57),
     (''ipoque_search_mms_tcp'', 51), (''ipoque_search_pando_tcp_udp'', 57), (''ipoque_search_in_non_tcp_udp'', 1),
     (''ipoque_search_tvants_udp'', 25), (''ipoque_search_sopcast'', 25), (''ipoque_search_tvuplayer'', 25),
     (''ipoque_search_ppstream_tcp'', 25), (''ipoque_search_pplive_tcp_udp'', 25), (''ipoque_search_mgcp'', 21),
     (''ipoque_search_gadugadu'', 25), (''ipoque_search_qq'', 57), (''ipoque_search_feidian'', 57),
     (''ipoque_search_ssh_tcp'', 51), (''ipoque_search_popo_tcp_udp'', 57), (''ipoque_search_vnc_tcp'', 51),
     (''ipoque_search_dhcp_udp'', 21), (''ipoque_search_i23v5'', 51), (''ipoque_search_socrates'', 25),
     (''ipoque_search_steam'', 51), (''ipoque_search_halflife2'', 21), (''ipoque_search_xbox'', 57),
     (''ipoque_search_smb_tcp'', 51), (''ipoque_search_telnet_tcp'', 51), (''ipoque_search_ntp_udp'', 21),
     (''ipoque_search_nfs'', 57), (''ipoque_search_ssdp'', 21), (''ipoque_search_worldofwarcraft'', 51),
     (''ipoque_search_mysql_tcp'', 51), (''ipoque_search_bgp'', 51), (''ipoque_search_quake'', 21),
     (''ipoque_search_battlefield'', 21), (''ipoque_search_secondlife'', 21), (''ipoque_search_pcanywhere'', 57),
     (''ipoque_search_rdp'', 51), (''ipoque_search_snmp'', 21), (''ipoque_search_kontiki'', 21),
     (''ipoque_search_icecast_tcp'', 51), (''ipoque_search_shoutcast_tcp'', 51), (''ipoque_search_openft_tcp'', 51),
     (''ipoque_search_syslog'', 57), (''ipoque_search_tds_tcp'', 51),
     (''ipoque_search_direct_download_link_tcp'', 19), (''ipoque_search_netbios'', 57), (''ipoque_search_mdns'', 21),
     (''ipoque_search_ipp'', 57), (''ipoque_search_xdmcp'', 25), (''ipoque_search_tftp'', 148),
     (''ipoque_search_stealthnet'', 178), (''ipoque_search_afp'', 178), (''ipoque_search_aimini'', 148)]"
  by (simp add: modelled_words registered_def http_enabled_def http_protocols_def reg_blocks_defs rb_enabled_def
    IPOQUE_COMPARE_PROTOCOL_TO_BITMASK_def bm_word_def bm_bit_def block_entry_def rb_fill_def http_entry_def)

lemma modelled_dissectors:
  assumes "e \<in> set (registered modelled_protocols)"
  shows "(cf_func e, cf_selection e) \<in> set (List.map (\<lambda>e. (cf_func e, cf_selection e)) (registered modelled_protocols))"
  using assms by simp

text \<open>An entry that asks for TCP or for UDP is called only on packets with that header.\<close>

lemma selected_transport:
  assumes "selected e (ds_packet m)" "flow_known m"
  shows "bit (cf_selection e) 1 \<Longrightarrow> pk_tcp (ds_packet m) \<noteq> NULL \<and> ds_flow m \<noteq> None"
    "bit (cf_selection e) 2 \<Longrightarrow> pk_udp (ds_packet m) \<noteq> NULL \<and> ds_flow m \<noteq> None"
    "bit (cf_selection e) 3 \<Longrightarrow> ds_flow m \<noteq> None"
  using selected_bit [OF assms(1)] selection_bits [of "ds_packet m"] assms(2) by (auto simp: flow_known_def)

subsection \<open>Interpretation\<close>

lemma table_distinct: "distinct (List.map fst dissector_table)"
  unfolding dissector_table_def by (simp only: list.map fst_conv) code_simp

lemma table_lookup: "list_all (\<lambda>(name, f). dissector_of name = f) dissector_table"
  using map_of_is_SomeI [OF table_distinct] by (auto simp: list_all_iff dissector_of_def)

lemmas dissector_names = table_lookup [unfolded dissector_table_def list.pred_inject prod.case]

lemmas all_good =
  non_tcp_udp_good ntp_good dhcp_good rdp_good kontiki_good applejuice_good bgp_good smb_good pcanywhere_good
  stealthnet_good ssdp_good quake_good xdmcp_good mysql_good worldofwarcraft_good ssh_good vnc_good steam_good
  halflife2_good tftp_good icecast_good openft_good afp_good nfs_good tds_good dns_good mdns_good mgcp_good
  syslog_good ipp_good telnet_good usenet_good snmp_good sip_good tvants_good tvuplayer_good sopcast_good
  shoutcast_good ppstream_good feidian_good secondlife_good battlefield_good socrates_good fasttrack_good
  filetopia_good i23v5_good pando_good winmx_good manolito_good smtp_good pop_good imap_good ssl_good http_good
  mms_good xbox_good popo_good qq_good aimini_good bittorrent_good pplive_good directconnect_good netbios_good
  direct_download_good gadugadu_good

text \<open>\<^verbatim>\<open>FLASH\<close>, for which HTTP responses are read too far, is not among the protocols.\<close>

lemma flash_disabled: "enables modelled_protocols m \<Longrightarrow> \<not> enabled IPOQUE_PROTOCOL_FLASH m"
proof -
  assume "enables modelled_protocols m"
  moreover have "IPOQUE_PROTOCOL_FLASH \<notin> bm_set modelled_protocols"
    using bm.member_law [of IPOQUE_PROTOCOL_FLASH modelled_protocols]
    by (simp add: modelled_words IPOQUE_COMPARE_PROTOCOL_TO_BITMASK_def bm_word_def bm_bit_def)
  ultimately have "IPOQUE_PROTOCOL_FLASH \<notin> bm_set (detection_bitmask m)" by (auto simp: enables_def)
  then show ?thesis using bm.member_law [of IPOQUE_PROTOCOL_FLASH "detection_bitmask m"] by (simp add: enabled_def)
qed

lemma modelled_conform:
  assumes "e \<in> set (registered modelled_protocols)" "selected e (ds_packet m)" "flow_known m" "view_ok M m"
    and "enables modelled_protocols m"
  shows "good M m (dissector_of (cf_func e) M m)"
proof -
  note t = selected_transport [OF assms(2,3)] flash_disabled [OF assms(5)]
  show ?thesis
    using modelled_dissectors [OF assms(1), unfolded modelled_entries] t assms(4)
    by (simp only: set_simps insert_iff empty_iff prod.inject simp_thms)
       (elim disjE conjE; simp add: dissector_names all_good)
qed

lemma modelled_idle:
  assumes "e \<in> set (registered modelled_protocols)" "\<not> wants_tcp e" "\<not> wants_udp e" "transport_ok (ds_packet m)"
    and "pk_tcp (ds_packet m) \<noteq> NULL \<or> pk_udp (ds_packet m) \<noteq> NULL"
  shows "dissector_of (cf_func e) M m = Some m"
proof -
  have "cf_func e = ''ipoque_search_in_non_tcp_udp''"
    using modelled_dissectors [OF assms(1), unfolded modelled_entries] assms(2,3) unfolding wants_bits
    by (simp only: set_simps insert_iff empty_iff prod.inject simp_thms) (elim disjE conjE; simp)
  moreover have "pk_l4_protocol (ds_packet m) = 6 \<or> pk_l4_protocol (ds_packet m) = 17"
    using assms(4,5) by (auto simp: transport_ok_def)
  then have "map_of l4_protocols (pk_l4_protocol (ds_packet m)) = None" by (auto simp: l4_protocols_def)
  ultimately show ?thesis by (simp add: dissector_names ipoque_search_in_non_tcp_udp_def)
qed

interpretation table: dissectors dissector_of "registered modelled_protocols" modelled_protocols
  by unfold_locales (fact modelled_conform)

interpretation modelled: idle_dissectors dissector_of "registered modelled_protocols" modelled_protocols
  by unfold_locales (fact modelled_idle)

end
