(* ===== verification/Ipq_System.thy ===== *)
theory Ipq_System
  imports Ipq_Modelled
begin

text \<open>
  The life of a detection module: \<^verbatim>\<open>ipoque_init_detection_module\<close>, \<^verbatim>\<open>ipoque_exit_detection_module\<close>, and a step relation in
  which a client creates the module, enables protocols, allocates flow and id structs and passes packets, in any order.
\<close>

subsection \<open>Initialisation\<close>

definition zero_entry :: call_function where
  "zero_entry = \<lparr>cf_detection = IPOQUE_BITMASK_RESET, cf_excluded = IPOQUE_BITMASK_RESET, cf_selection = 0, cf_func = []\<rparr>"

definition zero_module :: "(addr \<rightharpoonup> id_struct) \<Rightarrow> detection_module" where
  "zero_module ids = \<lparr>detection_bitmask = IPOQUE_BITMASK_RESET, generic_http_packet_bitmask = IPOQUE_BITMASK_RESET,
     callback_buffer = replicate CALLBACKS zero_entry, callback_buffer_size = 0,
     callback_buffer_tcp_no_payload = replicate CALLBACKS zero_entry, callback_buffer_size_tcp_no_payload = 0,
     callback_buffer_tcp_payload = replicate CALLBACKS zero_entry, callback_buffer_size_tcp_payload = 0,
     callback_buffer_udp = replicate CALLBACKS zero_entry, callback_buffer_size_udp = 0,
     callback_buffer_non_tcp_udp = replicate CALLBACKS zero_entry, callback_buffer_size_non_tcp_udp = 0,
     ds_ticks_per_second = 0, ds_packet = zero_packet, ds_flow = None, ds_src = NULL, ds_dst = NULL, ds_ids = ids,
     ds_tcp_max_retransmission_window_size = 0, ds_config = (\<lambda>_. 0)\<rparr>"

text \<open>The settings of the dissectors, by field name; products wrap around in 32 bits.\<close>

definition default_config :: "u32 \<Rightarrow> string \<Rightarrow> u32" where
  "default_config ticks f = (case map_of
    [(''directconnect_connection_ip_tick_timeout'', 600 * ticks), (''gadugadu_peer_connection_timeout'', 120 * ticks),
     (''edonkey_upper_ports_only'', 0), (''ftp_connection_timeout'', 10 * ticks), (''imesh_connection_timeout'', 5 * ticks),
     (''pplive_connection_timeout'', 120 * ticks), (''rtsp_connection_timeout'', 5 * ticks),
     (''tvants_connection_timeout'', 5 * ticks), (''irc_timeout'', 120 * ticks), (''gnutella_timeout'', 60 * ticks),
     (''battlefield_timeout'', 60 * ticks), (''thunder_timeout'', 30 * ticks), (''yahoo_detect_http_connections'', 1),
     (''yahoo_lan_video_timeout'', 30 * ticks), (''zattoo_connection_timeout'', 120 * ticks),
     (''jabber_stun_timeout'', 30 * ticks), (''jabber_file_transfer_timeout'', 5 * ticks),
     (''soulseek_connection_ip_tick_timeout'', 600 * ticks), (''manolito_subscriber_timeout'', 120)] f
    of Some v \<Rightarrow> v | None \<Rightarrow> 0)"

abbreviation (input) IPOQUE_DEFAULT_MAX_TCP_RETRANSMISSION_WINDOW_SIZE :: u32 where
  "IPOQUE_DEFAULT_MAX_TCP_RETRANSMISSION_WINDOW_SIZE \<equiv> 0x10000"

text \<open>The result is None if the allocation fails (the code then returns NULL).\<close>

definition ipoque_init_detection_module :: "u32 \<Rightarrow> bool \<Rightarrow> (addr \<rightharpoonup> id_struct) \<Rightarrow> detection_module option" where
  "ipoque_init_detection_module ticks allocated ids =
     (if \<not> allocated then None
      else Some ((zero_module ids)\<lparr>detection_bitmask := IPOQUE_BITMASK_RESET, ds_ticks_per_second := ticks,
        ds_tcp_max_retransmission_window_size := IPOQUE_DEFAULT_MAX_TCP_RETRANSMISSION_WINDOW_SIZE,
        ds_config := default_config ticks\<rparr>))"

definition ipoque_exit_detection_module :: "detection_module option \<Rightarrow> detection_module option" where
  "ipoque_exit_detection_module m = (case m of None \<Rightarrow> None | Some _ \<Rightarrow> None)"

lemma init_module_ok:
  assumes "ipoque_init_detection_module ticks allocated ids = Some m"
  shows "module_ok [] m" "ds_ids m = ids" "detection_bitmask m = IPOQUE_BITMASK_RESET"
  using assms
  by (auto simp: ipoque_init_detection_module_def zero_module_def module_ok_def config_ok_def arrays_ok_def arrays_of_def
      sizes_ok_def arrays_200_def zero_packet_def split: if_splits)

text \<open>The registration keeps the invariant and replaces the entries.\<close>

lemma set_bitmask_module_ok:
  assumes "module_ok es m"
  obtains m' where "set_protocol_detection_bitmask2 dbm m = Some m'" "module_ok (registered dbm) m'"
    "detection_bitmask m' = dbm" "ds_ids m' = ds_ids m"
proof -
  obtain m' where m': "set_protocol_detection_bitmask2 dbm m = Some m'" "arrays_ok m'" "arrays_of m' (registered dbm)"
    "sizes_ok m'" "detection_bitmask m' = dbm" "callbacks.more m' = callbacks.more m"
    by (rule set_protocol_detection_bitmask2_ok [of m dbm]) (use assms in \<open>auto simp: module_ok_def config_ok_def\<close>)
  have "ds_packet m' = ds_packet m" "ds_ids m' = ds_ids m" using m'(6) by (cases m, cases m', simp)+
  then show thesis using that m' assms by (simp add: module_ok_def config_ok_def)
qed

subsection \<open>A client\<close>

record dpi_system =
  sy_module :: "detection_module option"
  sy_flows :: "addr \<rightharpoonup> flow_struct"
  sy_ids :: "addr \<rightharpoonup> id_struct"

datatype dpi_event =
    Init u32 bool
  | Exit
  | Enable protocol_bitmask
  | New_flow addr
  | New_id addr
  | Packet mem addr u16 u32 addr addr addr

definition flow_arg :: "dpi_system \<Rightarrow> addr \<Rightarrow> flow_struct option" where
  "flow_arg s f = (if f = NULL then None else sy_flows s f)"

text \<open>What the client owes for a packet: its bytes, a total length that covers the IP header, structs that exist.\<close>

definition packet_input :: "dpi_system \<Rightarrow> mem \<Rightarrow> addr \<Rightarrow> u16 \<Rightarrow> addr \<Rightarrow> addr \<Rightarrow> addr \<Rightarrow> bool" where
  "packet_input s M p len f src dst \<longleftrightarrow> p \<noteq> NULL \<and> readable M p (unat len) \<and> (20 \<le> unat len \<longrightarrow> sized M p)
     \<and> (f \<noteq> NULL \<longrightarrow> f \<in> dom (sy_flows s)) \<and> {src, dst} - {NULL} \<subseteq> dom (sy_ids s)"

text \<open>The flow and id structs are the client's memory; a call sees them and leaves them changed.\<close>

definition after_packet :: "dpi_system \<Rightarrow> u16 \<Rightarrow> addr \<Rightarrow> detection_module \<Rightarrow> dpi_system" where
  "after_packet s len f m = s\<lparr>sy_module := Some m, sy_ids := ds_ids m,
     sy_flows := (if f = NULL \<or> len < 20 then sy_flows s else (sy_flows s)(f := ds_flow m))\<rparr>"

inductive dpi_step :: "dpi_system \<Rightarrow> dpi_event \<Rightarrow> nat option \<Rightarrow> dpi_system \<Rightarrow> bool" where
  init: "sy_module s = None \<Longrightarrow>
    dpi_step s (Init ticks ok) None (s\<lparr>sy_module := ipoque_init_detection_module ticks ok (sy_ids s)\<rparr>)"
| exit: "dpi_step s Exit None (s\<lparr>sy_module := ipoque_exit_detection_module (sy_module s)\<rparr>)"
| enable: "sy_module s = Some m \<Longrightarrow> bm_set dbm \<subseteq> bm_set modelled_protocols
    \<Longrightarrow> set_protocol_detection_bitmask2 dbm m = Some m' \<Longrightarrow> dpi_step s (Enable dbm) None (s\<lparr>sy_module := Some m'\<rparr>)"
| new_flow: "a \<noteq> NULL \<Longrightarrow> a \<notin> dom (sy_flows s) \<Longrightarrow>
    dpi_step s (New_flow a) None (s\<lparr>sy_flows := (sy_flows s)(a \<mapsto> zero_flow)\<rparr>)"
| new_id: "a \<noteq> NULL \<Longrightarrow> a \<notin> dom (sy_ids s) \<Longrightarrow>
    dpi_step s (New_id a) None (s\<lparr>sy_ids := (sy_ids s)(a \<mapsto> \<lparr>id_detected = IPOQUE_BITMASK_RESET, id_field = (\<lambda>_. 0)\<rparr>)\<rparr>)"
| packet: "sy_module s = Some m \<Longrightarrow> packet_input s M p len f src dst
    \<Longrightarrow> ipoque_detection_process_packet dissector_of M p len tick (flow_arg s f) src dst (m\<lparr>ds_ids := sy_ids s\<rparr>) = Some (r, m')
    \<Longrightarrow> dpi_step s (Packet M p len tick f src dst) (Some r) (after_packet s len f m')"

definition dpi_start :: dpi_system where
  "dpi_start = \<lparr>sy_module = None, sy_flows = Map.empty, sy_ids = Map.empty\<rparr>"

inductive dpi_reach :: "dpi_system \<Rightarrow> bool" where
  start: "dpi_reach dpi_start"
| step: "dpi_reach s \<Longrightarrow> dpi_step s ev r s' \<Longrightarrow> dpi_reach s'"

inductive_cases packet_stepE: "dpi_step s (Packet M p len tick f src dst) r s'"

subsection \<open>The invariant\<close>

definition enabled_ok :: "detection_module \<Rightarrow> bool" where
  "enabled_ok m \<longleftrightarrow> enables modelled_protocols m
     \<and> (\<exists>es. module_ok es m \<and> set es \<subseteq> set (registered modelled_protocols))"

definition system_ok :: "dpi_system \<Rightarrow> bool" where
  "system_ok s \<longleftrightarrow> pred_option enabled_ok (sy_module s) \<and> (\<forall>fl\<in>ran (sy_flows s). flow_good fl)"

lemma module_ok_ids [simp]: "module_ok es (m\<lparr>ds_ids := ids\<rparr>) = module_ok es m"
  by (simp add: module_ok_def config_ok_def arrays_ok_def arrays_of_def sizes_ok_def)

lemma packet_call_ok:
  assumes "system_ok s" "packet_input s M p len f src dst"
  shows "call_ok M p len (flow_arg s f) src dst (m\<lparr>ds_ids := sy_ids s\<rparr>)" "flow_arg s f = None \<longleftrightarrow> f = NULL"
  using assms by (auto simp: call_ok_def packet_input_def flow_arg_def system_ok_def ran_def pred_option_def)

text \<open>Every packet the client may pass has a result, which is an enabled protocol or none.\<close>

lemma packet_total:
  assumes "system_ok s" "sy_module s = Some m" "packet_input s M p len f src dst"
  obtains r m' where
    "ipoque_detection_process_packet dissector_of M p len tick (flow_arg s f) src dst (m\<lparr>ds_ids := sy_ids s\<rparr>) = Some (r, m')"
    "r = IPOQUE_PROTOCOL_UNKNOWN \<or> r \<in> bm_set (detection_bitmask m)" "system_ok (after_packet s len f m')"
proof -
  obtain es where es: "module_ok es m" "set es \<subseteq> set (registered modelled_protocols)" "enables modelled_protocols m"
    using assms(1,2) by (auto simp: system_ok_def enabled_ok_def)
  let ?m = "m\<lparr>ds_ids := sy_ids s\<rparr>"
  note call = packet_call_ok [OF assms(1,3)]
  have ok: "module_ok es ?m" "enables modelled_protocols ?m" using es(1,3) by (simp_all add: enables_def)
  obtain r m' where p: "ipoque_detection_process_packet dissector_of M p len tick (flow_arg s f) src dst ?m = Some (r, m')"
    "r = IPOQUE_PROTOCOL_UNKNOWN \<or> r \<in> bm_set (detection_bitmask ?m)" "module_ok es m'"
    "20 \<le> unat len \<Longrightarrow> pred_option flow_good (ds_flow m')" "same_config ?m m'"
    using table.process_packet_ok [OF call(1) ok(1) es(2) ok(2), of tick] by metis
  have "flow_good fl" if "fl \<in> ran (sy_flows (after_packet s len f m'))" for fl
  proof (cases "f = NULL \<or> len < 20")
    case True
    then show ?thesis using that assms(1) by (auto simp: after_packet_def system_ok_def)
  next
    case False
    then have "pred_option flow_good (ds_flow m')" by (intro p(4)) (simp add: word_less_nat_alt)
    then show ?thesis using that assms(1) False by (auto simp: after_packet_def system_ok_def ran_def split: if_splits)
  qed
  then have "system_ok (after_packet s len f m')"
    using p(3) es(2) enables_step [OF p(5)] ok(2) by (auto simp: system_ok_def after_packet_def enabled_ok_def)
  with p show thesis by (intro that) simp_all
qed

lemma system_step:
  assumes "dpi_step s ev r s'" "system_ok s"
  shows "system_ok s'"
  using assms
proof (cases rule: dpi_step.cases)
  case (init ticks ok)
  show ?thesis
  proof (cases "ipoque_init_detection_module ticks ok (sy_ids s)")
    case None
    then show ?thesis using assms(2) init by (simp add: system_ok_def)
  next
    case (Some m)
    have "enables modelled_protocols m" unfolding enables_def init_module_ok(3) [OF Some] bm.empty_law by (rule empty_subsetI)
    then show ?thesis using assms(2) init Some init_module_ok(1) [OF Some] by (auto simp: system_ok_def enabled_ok_def)
  qed
next
  case exit
  then show ?thesis using assms(2) by (simp add: system_ok_def ipoque_exit_detection_module_def split: option.split)
next
  case (enable m dbm m')
  then obtain es where "module_ok es m" using assms(2) by (auto simp: system_ok_def enabled_ok_def)
  then obtain m'' where "set_protocol_detection_bitmask2 dbm m = Some m''" "module_ok (registered dbm) m''"
    "detection_bitmask m'' = dbm"
    by (rule set_bitmask_module_ok)
  then have "enabled_ok m'" using registered_mono [OF enable(5)] enable(5,6) by (auto simp: enabled_ok_def enables_def)
  then show ?thesis using assms(2) enable(3) by (simp add: system_ok_def)
next
  case (new_flow a)
  then show ?thesis using assms(2) by (auto simp: system_ok_def ran_def split: if_splits)
next
  case (new_id a)
  then show ?thesis using assms(2) by (simp add: system_ok_def)
next
  case (packet m M p len f src dst tick r m')
  then show ?thesis using packet_total [OF assms(2) packet(4,5), of tick] by auto
qed

lemma reach_ok: "dpi_reach s \<Longrightarrow> system_ok s"
proof (induction rule: dpi_reach.induct)
  case start
  show ?case by (simp add: dpi_start_def system_ok_def)
qed (rule system_step)

end
