(* ===== verification/Ipq_Overread.thy ===== *)
theory Ipq_Overread
  imports Ipq_Gadu
begin

text \<open>
  Dissectors that read past the end of the payload. Each is modelled in full; what it needs is stated as a number of
  readable bytes behind the packet, its slack, and with that slack it keeps the contract of the others.
\<close>

subsection \<open>Slack\<close>

definition slack :: "mem \<Rightarrow> detection_module \<Rightarrow> nat \<Rightarrow> bool" where
  "slack M m k \<longleftrightarrow> readable M (pay m) (unat (plen m) + k)"

lemma slack_readable:
  assumes "slack M m k" "i + n \<le> unat (plen m) + k"
  shows "readable M (pay m + i) n"
proof (rule readable_sub)
  show "readable M (pay m) (unat (plen m) + k)" using assms(1) unfolding slack_def .
qed (use assms(2) in simp_all)

lemma slack_same: "slack M m k \<Longrightarrow> same_windows (ds_packet m) (ds_packet m') \<Longrightarrow> slack M m' k"
  by (simp add: slack_def same_windows_def)

text \<open>The reads of the payload, up to the slack.\<close>

lemma slack_reads:
  assumes "slack M m k"
  shows "i + 1 \<le> unat (plen m) + k \<Longrightarrow> \<exists>b. byte_is M (pay m + i) P = Some b"
    "i + 2 \<le> unat (plen m) + k \<Longrightarrow> \<exists>b. half_is M (pay m + i) Q = Some b"
    "i + 4 \<le> unat (plen m) + k \<Longrightarrow> \<exists>b. word_is M (pay m + i) R = Some b"
    "i + 4 \<le> unat (plen m) + k \<Longrightarrow> \<exists>b. lword_is M (pay m + i) R = Some b"
    "i + length s \<le> unat (plen m) + k \<Longrightarrow> \<exists>b. mem_eq M (pay m + i) s = Some b"
    "i + length bs \<le> unat (plen m) + k \<Longrightarrow> \<exists>b. mem_is M (pay m + i) bs = Some b"
  by (intro byte_is_total half_is_total word_is_total lword_is_total mem_eq_total mem_is_total slack_readable [OF assms]; simp)+

lemma slack_reads_0:
  assumes "slack M m k"
  shows "1 \<le> unat (plen m) + k \<Longrightarrow> \<exists>b. byte_is M (pay m) P = Some b"
    "2 \<le> unat (plen m) + k \<Longrightarrow> \<exists>b. half_is M (pay m) Q = Some b"
    "4 \<le> unat (plen m) + k \<Longrightarrow> \<exists>b. word_is M (pay m) R = Some b"
    "4 \<le> unat (plen m) + k \<Longrightarrow> \<exists>b. lword_is M (pay m) R = Some b"
    "length s \<le> unat (plen m) + k \<Longrightarrow> \<exists>b. mem_eq M (pay m) s = Some b"
    "length bs \<le> unat (plen m) + k \<Longrightarrow> \<exists>b. mem_is M (pay m) bs = Some b"
  using slack_reads [OF assms, of 0] by simp_all

lemmas slack_rules = cond_total slack_reads slack_reads_0 port_total counter_is_total excluded_total either_has_total
  line_starts_total

subsection \<open>IAX\<close>

text \<open>At most fifteen information elements; the length of each stands in its second byte. Slack: the byte behind the packet.\<close>

fun iax_elements :: "mem \<Rightarrow> detection_module \<Rightarrow> nat \<Rightarrow> nat \<Rightarrow> bool option" where
  "iax_elements M m 0 len = Some False"
| "iax_elements M m (Suc i) len =
     do { x \<leftarrow> M (pay m + (len + 1));
          let len = len + 2 + unat x;
          if len = unat (plen m) then Some True
          else if unat (plen m) < len then Some False else iax_elements M m i len }"

definition ipoque_search_setup_iax :: "mem \<Rightarrow> detection_module \<Rightarrow> detection_module option" where
  "ipoque_search_setup_iax M m =
     (let udp = pk_udp (ds_packet m) in
      decide IPOQUE_PROTOCOL_IAX
        (allM [anyM [source_is M udp ((=) 4569), dest_is M udp ((=) 4569)], Some (12 \<le> plen m),
               byte_is M (pay m) (\<lambda>x. x AND 0x80 \<noteq> 0), byte_is M (pay m + 8) ((=) 0), byte_is M (pay m + 9) (\<lambda>x. x = 0 \<or> x = 1),
               byte_is M (pay m + 10) ((=) 0x06), byte_is M (pay m + 11) (\<lambda>x. x \<le> 15),
               anyM [Some (plen m = 12), iax_elements M m 15 12]]) m)"

definition ipoque_search_iax :: "mem \<Rightarrow> detection_module \<Rightarrow> detection_module option" where
  "ipoque_search_iax M m = (if detected IPOQUE_PROTOCOL_UNKNOWN m then ipoque_search_setup_iax M m else Some m)"

lemma iax_elements_total:
  assumes "slack M m 1"
  shows "len < unat (plen m) \<Longrightarrow> \<exists>b. iax_elements M m i len = Some b"
proof (induction i arbitrary: len)
  case (Suc i)
  obtain x where "M (pay m + (len + 1)) = Some x"
    using readable_at [OF slack_readable [OF assms, of "len + 1" 1], of "pay m + (len + 1)"] Suc.prems by auto
  then show ?case using Suc.IH [of "len + 2 + unat x"] by (auto simp: Let_def)
qed (simp add: exI [of _ False])

lemma iax_good:
  assumes "view_ok M m" "ds_flow m \<noteq> None" "slack M m 1" "pk_udp (ds_packet m) \<noteq> NULL"
  shows "good M m (ipoque_search_iax M m)"
proof -
  have "\<exists>b. iax_elements M m 15 12 = Some b" if "12 \<le> plen m" "plen m \<noteq> 12"
  proof -
    have "12 < plen m" using that by order
    then show ?thesis by (intro iax_elements_total assms(3)) (simp add: word_less_nat_alt)
  qed
  note elements = this
  show ?thesis
    unfolding ipoque_search_iax_def ipoque_search_setup_iax_def Let_def using assms
    by (intro if_good decide_good good_Some slack_rules elements)
       (auto simp: value_simps simp del: allM.simps anyM.simps)
qed

subsection \<open>eDonkey\<close>

text \<open>The messages of a packet, each with its length; the length of the last may reach four bytes past the packet.\<close>

function check_edk_len :: "mem \<Rightarrow> detection_module \<Rightarrow> nat \<Rightarrow> bool option" where
  "check_edk_len M m parsed =
     do { l \<leftarrow> rd32le M (pay m + (1 + parsed));
          if unat (plen m) < unat l then Some False
          else let parsed' = parsed + 5 + unat l in
            if parsed' = unat (plen m) then Some True
            else if unat (plen m) < parsed' then Some False
            else do { x \<leftarrow> M (pay m + parsed');
                      if x = 0xe3 \<or> x = 0xc5 \<or> x = 0xd4 then check_edk_len M m parsed' else Some False } }"
  by auto
termination by (relation "measure (\<lambda>(M, m, p). unat (plen m) - p)") auto

declare check_edk_len.simps [simp del]

definition edk_low_port :: "u16 \<Rightarrow> bool" where
  "edk_low_port p \<longleftrightarrow> p < 1024 \<and> p \<noteq> 80 \<and> p \<noteq> 443"

definition edk_hello :: "mem \<Rightarrow> detection_module \<Rightarrow> bool option" where
  "edk_hello M m =
     allM [Some (32 \<le> plen m), lword_is M (pay m + 1) (\<lambda>l. unat l \<le> unat (plen m) - 5), byte_is M (pay m) (\<lambda>x. x = 0xe3 \<or> x = 0xc5),
           byte_is M (pay m + 5) ((=) 0x01),
           anyM [allM [byte_is M (pay m + 6) ((=) 0x10), lword_is M (pay m + 29) (\<lambda>l. l < 0x0f)],
                 allM [lword_is M (pay m + 28) (\<lambda>l. 0 < l), lword_is M (pay m + 28) (\<lambda>l. l < 0x0f)]]]"

definition edk_answer :: "mem \<Rightarrow> detection_module \<Rightarrow> bool option" where
  "edk_answer M m =
     (let n = unat (plen m); first = (\<lambda>P. byte_is M (pay m) P); code = (\<lambda>x. byte_is M (pay m + 5) ((=) x));
          len = (\<lambda>P. lword_is M (pay m + 1) (\<lambda>l. P (unat l))) in
      anyM [allM [Some (32 \<le> n), len (\<lambda>l. l = 9), first ((=) 0xe3), code 0x40],
            allM [Some (32 \<le> n), first ((=) 0xe3), code 0x40, check_edk_len M m 0],
            allM [Some (32 \<le> n), first ((=) 0xe3), code 0x4c, anyM [len (\<lambda>l. l = n - 5), check_edk_len M m 0]],
            allM [Some (32 \<le> n), len (\<lambda>l. l = n - 5), first ((=) 0xe3), code 0x38],
            allM [Some (20 \<le> n), len (\<lambda>l. l = n - 5), first ((=) 0xc5), code 0x92],
            allM [Some (20 \<le> n), len (\<lambda>l. l \<le> n - 5), first ((=) 0xe3), code 0x58],
            allM [Some (20 \<le> n), len (\<lambda>l. l \<le> n - 5), first (\<lambda>x. x = 0xe3 \<or> x = 0xc5), code 0x01]])"

text \<open>The flow stays a candidate while it waits for the answer: \<^verbatim>\<open>edk_stage\<close> is 16 plus the direction of the greeting.\<close>

definition edk_packet :: "mem \<Rightarrow> detection_module \<Rightarrow> detection_module option" where
  "edk_packet M m =
     do { stage \<leftarrow> get_stage ''edk_stage'' m;
          if plen m = 0 then Some m
          else if stage = 0 \<and> \<not> detected IPOQUE_PROTOCOL_UNKNOWN m then Some m
          else branch (allM [Some (stage = 0), edk_hello M m]) (set_stage ''edk_stage'' (16 + dirn m) m)
              (branch (allM [Some (17 - dirn m = stage), edk_answer M m])
                 (mark_flow IPOQUE_PROTOCOL_EDONKEY m)
                 (exclude IPOQUE_PROTOCOL_EDONKEY m)) }"

definition int_edonkey_tcp :: "mem \<Rightarrow> detection_module \<Rightarrow> detection_module option" where
  "int_edonkey_tcp M m =
     (let tcp = pk_tcp (ds_packet m) in
      branch (excluded IPOQUE_PROTOCOL_EDONKEY m) (Some m)
     (branch (allM [Some (ds_config m ''edonkey_upper_ports_only'' \<noteq> 0),
                    anyM [source_is M tcp edk_low_port, dest_is M tcp edk_low_port]])
        (exclude IPOQUE_PROTOCOL_EDONKEY m) (edk_packet M m)))"

definition ipoque_search_edonkey :: "mem \<Rightarrow> detection_module \<Rightarrow> detection_module option" where
  "ipoque_search_edonkey M m =
     (if \<not> detected IPOQUE_PROTOCOL_EDONKEY m \<and> pk_tcp (ds_packet m) \<noteq> NULL \<and> \<not> pk_tcp_retransmission (ds_packet m)
      then int_edonkey_tcp M m else Some m)"

lemma check_edk_len_total:
  assumes "slack M m 4" "p < unat (plen m)"
  shows "\<exists>b. check_edk_len M m p = Some b"
  using assms
proof (induction M m p rule: check_edk_len.induct)
  case (1 M m p)
  obtain l where l: "rd32le M (pay m + (1 + p)) = Some l"
    using rd32le_total [OF slack_readable [OF 1(2), of "1 + p" 4]] 1(3) by auto
  show ?case
  proof (cases "unat l \<le> unat (plen m) \<and> p + 5 + unat l < unat (plen m)")
    case True
    then obtain x where x: "M (pay m + (p + 5 + unat l)) = Some x"
      using readable_at [OF slack_readable [OF 1(2), of "p + 5 + unat l" 1], of "pay m + (p + 5 + unat l)"] by auto
    have "\<exists>b. check_edk_len M m (p + 5 + unat l) = Some b" if "x = 0xe3 \<or> x = 0xc5 \<or> x = 0xd4"
      by (rule 1(1) [OF l _ refl _ _ x that 1(2)]) (use True in auto)
    then show ?thesis using l x True by (subst check_edk_len.simps) (auto simp: Let_def)
  qed (use l in \<open>subst check_edk_len.simps, auto simp: Let_def\<close>)
qed

lemma edk_hello_total: "slack M m 1 \<Longrightarrow> \<exists>b. edk_hello M m = Some b"
  unfolding edk_hello_def by (intro slack_rules) (auto simp: value_simps simp del: allM.simps anyM.simps)

lemma edk_answer_total: "slack M m 4 \<Longrightarrow> \<exists>b. edk_answer M m = Some b"
  unfolding edk_answer_def Let_def
  by (intro slack_rules check_edk_len_total) (auto simp: value_simps simp del: allM.simps anyM.simps)

lemma edk_packet_good:
  assumes "view_ok M m" "ds_flow m \<noteq> None" "slack M m 4"
  shows "good M m (edk_packet M m)"
proof -
  have "slack M m 1" using assms(3) unfolding slack_def by (rule readable_mono) simp
  then show ?thesis
    unfolding edk_packet_def using assms
    by (intro if_good branch_good get_stage_good set_stage_good exclude_good mark_flow_good good_Some slack_rules
          edk_hello_total edk_answer_total) simp_all
qed

lemma edonkey_good:
  assumes "view_ok M m" "ds_flow m \<noteq> None" "slack M m 4"
  shows "good M m (ipoque_search_edonkey M m)"
  unfolding ipoque_search_edonkey_def int_edonkey_tcp_def Let_def using assms
  by (intro if_good branch_good exclude_good edk_packet_good good_Some slack_rules)
     (simp_all add: value_simps del: allM.simps anyM.simps)

subsection \<open>Oscar\<close>

text \<open>A flow with the voice mark is compared with the length in its first two bytes whatever its length: slack four.\<close>

definition int_oscar_add_connection :: "detection_module \<Rightarrow> detection_module option" where
  "int_oscar_add_connection m =
     do { m \<leftarrow> ipoque_int_add_connection IPOQUE_PROTOCOL_OSCAR m;
          m \<leftarrow> note_id (ds_src m) ''oscar_last_safe_access_time'' (unat (now m)) m;
          note_id (ds_dst m) ''oscar_last_safe_access_time'' (unat (now m)) m }"

definition oscar_signon :: "mem \<Rightarrow> detection_module \<Rightarrow> bool option" where
  "oscar_signon M m =
     allM [Some (10 \<le> plen m), byte_is M (pay m) ((=) 0x2a),
       anyM [allM [byte_is M (pay m + 1) ((=) 0x01), half_is M (pay m + 4) (\<lambda>l. unat l = unat (plen m) - 6),
                   word_is M (pay m + 6) ((=) 1)],
             allM [byte_is M (pay m + 1) ((=) 0x02), half_is M (pay m + 4) (\<lambda>l. unat (plen m) - 6 \<le> unat l),
                   half_is M (pay m + 6) ((=) 0x0004),
                   anyM [half_is M (pay m + 8) ((=) 0x0006), half_is M (pay m + 8) ((=) 0x000c)]]]]"

definition oscar_agent :: "mem \<Rightarrow> detection_module \<Rightarrow> bool option" where
  "oscar_agent M m =
     (let l = pk_user_agent_line (ds_packet m) in
      allM [Some (15 < ol_len l), Some (ol_ptr l \<noteq> NULL), anyM [mem_eq M (ol_ptr l) ''mobileAIM/'', mem_eq M (ol_ptr l) ''mobileICQ/'']])"

definition oscar_proxy :: "mem \<Rightarrow> detection_module \<Rightarrow> bool option" where
  "oscar_proxy M m =
     anyM [allM [Some (40 < plen m), mem_eq M (pay m) ''CONNECT '',
                 anyM [mem_eq M (pay m) ''CONNECT login.icq.com:443 HTTP/1.'', mem_eq M (pay m) ''CONNECT login.oscar.aol.com:5190 HTTP/1.'']],
           allM [Some (43 < plen m), mem_eq M (pay m) ''GET http://http.proxy.icq.com/hello HTTP/1.''],
           allM [Some (46 < plen m), mem_eq M (pay m) ''GET http://aimhttp.oscar.aol.com/hello HTTP/1.'']]"

definition oscar_greeting :: "mem \<Rightarrow> detection_module \<Rightarrow> bool option" where
  "oscar_greeting M m =
     allM [counter_is m ((=) 1),
       anyM [allM [Some (plen m = 9), mem_is M (pay m) [0x00, 0x09, 0x00, 0x00, 0x83, 0x01, 0xc0, 0x00, 0x00]],
             allM [Some (plen m = 13), anyM [mem_is M (pay m) [0x00, 0x0d, 0x00, 0x87, 0x01, 0xc0],
                                             mem_is M (pay m) [0x00, 0x0d, 0x00, 0x87, 0x01, 0xc1]]]]]"

definition oscar_voice :: "mem \<Rightarrow> detection_module \<Rightarrow> bool option" where
  "oscar_voice M m =
     do { v \<leftarrow> get_stage ''oscar_video_voice'' m;
          allM [Some (v \<noteq> 0), half_is M (pay m) (\<lambda>l. l = plen m), byte_is M (pay m + 2) ((=) 0), byte_is M (pay m + 3) ((=) 0)] }"

definition oscar_transfer :: "mem \<Rightarrow> detection_module \<Rightarrow> bool option" where
  "oscar_transfer M m =
     allM [Some (70 \<le> plen m), half_is M (pay m + 4) (\<lambda>l. l = plen m),
       anyM [allM [mem_eq M (pay m) ''OFT'',
               anyM [allM [byte_is M (pay m + 3) ((=) 0x33), anyM [mem_is M (pay m + 4) [0x01, 0x00, 0x01, 0x01], mem_is M (pay m + 6) [0x01, 0x01, 0x00]]],
                     allM [byte_is M (pay m + 3) ((=) 0x32), mem_is M (pay m + 6) [0x01, 0x01]]]],
             allM [mem_eq M (pay m) ''ODC2'', mem_is M (pay m + 6) [0x00, 0x01, 0x00, 0x06]]]]"

definition oscar_picture :: "mem \<Rightarrow> detection_module \<Rightarrow> bool option" where
  "oscar_picture M m =
     (let n = unat (plen m) in
      allM [Some (40 < n), mem_is M (pay m + 2) [0x04, 0x4a, 0x00], mem_is M (pay m + 6) [0x00, 0x00],
            byte_is M (pay m + (n - 15)) ((=) 0x46), byte_is M (pay m + (n - 12)) ((=) 0x4c),
            mem_eq M (pay m + (n - 6)) ''DEST'', mem_is M (pay m + (n - 2)) [0x00, 0x00]])"

text \<open>
  The last test means to wait for a second packet after two known beginnings, but \<^verbatim>\<open>memcmp\<close> is not compared with 0: one of
  the two comparisons always differs, so that any packet longer than 11 bytes among the first two is let through.
\<close>

definition oscar_rest :: "mem \<Rightarrow> detection_module \<Rightarrow> detection_module option" where
  "oscar_rest M m =
     branch (allM [counter_is m (\<lambda>c. c < 3), Some (11 < plen m),
              anyM [notM (mem_is M (pay m) [0x00, 0x37, 0x04, 0x4a]), notM (mem_is M (pay m) [0x00, 0x0a, 0x04, 0x4a])]])
       (Some m)
       (if detected IPOQUE_PROTOCOL_OSCAR m then Some m else exclude IPOQUE_PROTOCOL_OSCAR m)"

definition oscar_known :: "mem \<Rightarrow> detection_module \<Rightarrow> detection_module option" where
  "oscar_known M m =
     (let tcp = pk_tcp (ds_packet m) in
      do { m \<leftarrow> branch (oscar_greeting M m) (set_stage ''oscar_video_voice'' 1 m) (Some m);
           m \<leftarrow> branch (oscar_voice M m) (int_oscar_add_connection m) (Some m);
           branch (oscar_transfer M m) (int_oscar_add_connection m)
          (branch (oscar_picture M m)
             (do { m \<leftarrow> int_oscar_add_connection m;
                   branch (anyM [dest_is M tcp ((=) 443), source_is M tcp ((=) 443)]) (set_stage ''oscar_ssl_voice_stage'' 1 m) (Some m) })
             (oscar_rest M m)) })"

definition oscar_peer :: "mem \<Rightarrow> detection_module \<Rightarrow> detection_module option" where
  "oscar_peer M m =
     branch (oscar_proxy M m) (int_oscar_add_connection m)
       (branch (either_has IPOQUE_PROTOCOL_OSCAR m) (oscar_known M m) (oscar_rest M m))"

definition ipoque_search_oscar_tcp_connect :: "mem \<Rightarrow> detection_module \<Rightarrow> detection_module option" where
  "ipoque_search_oscar_tcp_connect M m =
     branch (oscar_signon M m) (int_oscar_add_connection m)
       (branch (allM [Some (40 < plen m), anyM [mem_eq M (pay m) ''GET /aim'', mem_eq M (pay m) ''GET /im'']])
          (do { m \<leftarrow> parse_lines M m;
                branch (oscar_agent M m) (int_oscar_add_connection m) (oscar_peer M m) })
          (oscar_peer M m))"

definition ipoque_search_oscar :: "mem \<Rightarrow> detection_module \<Rightarrow> detection_module option" where
  "ipoque_search_oscar M m = (if pk_tcp (ds_packet m) \<noteq> NULL then ipoque_search_oscar_tcp_connect M m else Some m)"

lemma oscar_add_good: "view_ok M m \<Longrightarrow> ds_flow m \<noteq> None \<Longrightarrow> good M m (int_oscar_add_connection m)"
  unfolding int_oscar_add_connection_def by (intro contract_rules) simp_all

lemma oscar_totals:
  assumes "slack M m 4" "ds_flow m \<noteq> None"
  shows "\<exists>b. oscar_signon M m = Some b" "\<exists>b. oscar_proxy M m = Some b" "\<exists>b. oscar_greeting M m = Some b"
    "\<exists>b. oscar_voice M m = Some b" "\<exists>b. oscar_transfer M m = Some b" "\<exists>b. oscar_picture M m = Some b"
proof -
  note r = slack_reads [OF assms(1)] slack_reads_0 [OF assms(1)] cond_total counter_is_total [OF assms(2)]
  show "\<exists>b. oscar_signon M m = Some b" "\<exists>b. oscar_proxy M m = Some b" "\<exists>b. oscar_greeting M m = Some b"
    "\<exists>b. oscar_transfer M m = Some b" "\<exists>b. oscar_picture M m = Some b"
    unfolding oscar_signon_def oscar_proxy_def oscar_greeting_def oscar_transfer_def oscar_picture_def Let_def
    by (intro r; simp add: value_simps del: allM.simps anyM.simps)+
  obtain fl where "ds_flow m = Some fl" using assms(2) by blast
  then show "\<exists>b. oscar_voice M m = Some b"
    unfolding oscar_voice_def get_stage_def
    by (simp only: bind.bind_lunit) (intro r; simp add: value_simps del: allM.simps anyM.simps)
qed

lemma oscar_agent_total:
  assumes "view_ok M m" "pk_packet_lines_parsed_complete (ds_packet m)"
  shows "\<exists>b. oscar_agent M m = Some b"
proof -
  let ?l = "pk_user_agent_line (ds_packet m)"
  have "\<exists>b. mem_eq M (ol_ptr ?l) s = Some b" if "15 < ol_len ?l" "ol_ptr ?l \<noteq> NULL" "length s \<le> 15" for s
    by (rule mem_eq_total [OF readable_sub [OF noted_line_readable(4) [OF assms that(2)]]])
       (use that in \<open>simp_all add: word_less_nat_alt\<close>)
  then show ?thesis
    unfolding oscar_agent_def Let_def by (intro cond_total; simp del: allM.simps anyM.simps)
qed

lemma oscar_rest_good:
  assumes "view_ok M m" "ds_flow m \<noteq> None" "slack M m 4"
  shows "good M m (oscar_rest M m)"
  unfolding oscar_rest_def using assms
  by (intro if_good branch_good good_Some exclude_good slack_rules) (simp_all add: value_simps del: allM.simps anyM.simps)

lemma oscar_known_good:
  assumes "view_ok M m" "ds_flow m \<noteq> None" "slack M m 4" "pk_tcp (ds_packet m) \<noteq> NULL"
  shows "good M m (oscar_known M m)"
  unfolding oscar_known_def Let_def using assms
  by (intro good_then branch_good good_Some set_stage_good oscar_add_good oscar_rest_good oscar_totals cond_total port_total)
     (simp_all add: slack_def same_windows_def)

lemma oscar_good:
  assumes "view_ok M m" "ds_flow m \<noteq> None" "slack M m 4"
  shows "good M m (ipoque_search_oscar M m)"
proof -
  have peer: "good M m' (oscar_peer M m')"
    if "view_ok M m'" "ds_flow m' \<noteq> None" "slack M m' 4" "pk_tcp (ds_packet m') \<noteq> NULL" for m'
    unfolding oscar_peer_def using that
    by (intro branch_good oscar_add_good oscar_known_good oscar_rest_good oscar_totals cond_total either_has_total) simp_all
  show ?thesis
    unfolding ipoque_search_oscar_def ipoque_search_oscar_tcp_connect_def using assms
    by (intro if_good branch_good good_Some parse_then oscar_add_good peer oscar_totals oscar_agent_total slack_rules)
       (simp_all add: value_simps slack_def del: allM.simps anyM.simps)
qed

subsection \<open>Gnutella\<close>

text \<open>The ports of a host are kept in network order; the second is set when the first differs from the port in host order.\<close>

definition int_gnutella_add_connection :: "mem \<Rightarrow> detection_module \<Rightarrow> detection_module option" where
  "int_gnutella_add_connection M m =
     (let src = ds_src m; udp = pk_udp (ds_packet m);
          port1 = ''detected_gnutella_udp_port1''; port2 = ''detected_gnutella_udp_port2'' in
      do { m \<leftarrow> ipoque_int_add_connection IPOQUE_PROTOCOL_GNUTELLA m;
           m \<leftarrow> note_id src ''gnutella_ts'' (unat (now m)) m;
           m \<leftarrow> (if src \<noteq> NULL \<and> udp \<noteq> NULL
                then do { p1 \<leftarrow> get_id_field src port1 m;
                          p2 \<leftarrow> get_id_field src port2 m;
                          raw \<leftarrow> rd16le M udp; host \<leftarrow> rd16be M udp;
                          if p1 = 0 then note_id src port1 (unat raw) m
                          else if unat host \<noteq> p1 \<and> p2 = 0 then note_id src port2 (unat raw) m
                          else Some m }
                else Some m);
           note_id (ds_dst m) ''gnutella_ts'' (unat (now m)) m })"

definition gnutella_overdue :: "addr \<Rightarrow> detection_module \<Rightarrow> bool option" where
  "gnutella_overdue a m =
     (if a = NULL then Some False
      else do { t \<leftarrow> get_id_field a ''gnutella_ts'' m; Some (ds_config m ''gnutella_timeout'' < since m t) })"

definition gnutella_forget :: "addr \<Rightarrow> detection_module \<Rightarrow> detection_module option" where
  "gnutella_forget a m =
     branch (gnutella_overdue a m)
       (do { m \<leftarrow> note_id a ''detected_gnutella_udp_port1'' 0 m; note_id a ''detected_gnutella_udp_port2'' 0 m }) (Some m)"

definition gnutella_renew :: "detection_module \<Rightarrow> detection_module option" where
  "gnutella_renew m =
     (let timeout = ds_config m ''gnutella_timeout''; renew = (\<lambda>a. note_id a ''gnutella_ts'' (unat (now m)) m) in
      do { m \<leftarrow> branch (recent (ds_src m) ''gnutella_ts'' timeout m) (renew (ds_src m))
                  (branch (recent (ds_dst m) ''gnutella_ts'' timeout m) (renew (ds_dst m)) (Some m));
           m \<leftarrow> gnutella_forget (ds_src m) m;
           gnutella_forget (ds_dst m) m })"

definition gnutella_get :: "mem \<Rightarrow> detection_module \<Rightarrow> bool option" where
  "gnutella_get M m = allM [Some (50 < plen m), anyM [mem_eq M (pay m) ''GET /get/'', mem_eq M (pay m) ''GET /uri-res/'']]"

definition gnutella_line :: "mem \<Rightarrow> one_line \<Rightarrow> bool option" where
  "gnutella_line M l =
     anyM [line_starts M l 19 ''User-Agent: Gnutella'', line_starts M l 10 ''X-Gnutella-'', line_starts M l 7 ''X-Queue:'',
           line_starts M l 36 ''Content-Type: application/x-gnutella-'']"

definition gnutella_agent :: "mem \<Rightarrow> detection_module \<Rightarrow> bool option" where
  "gnutella_agent M m =
     (let a = pk_user_agent_line (ds_packet m); c = pk_accept_line (ds_packet m) in
      anyM [allM [Some (ol_ptr a \<noteq> NULL), line_starts M a 15 ''BearShare Lite ''],
            allM [Some (ol_ptr c \<noteq> NULL), line_starts M c 24 ''application n/x-gnutella'']])"

text \<open>The search stops at a question mark, and the byte it stopped at is compared with the \<^verbatim>\<open>u\<close> of the name.\<close>

definition gnutella_urn :: "mem \<Rightarrow> detection_module \<Rightarrow> bool option" where
  "gnutella_urn M m =
     allM [gnutella_get M m,
           do { r \<leftarrow> first_index (\<lambda>c. byte_is M (pay m + c) ((=) 0x3f)) 8 (unat (plen m) - 9);
                case r of None \<Rightarrow> Some False | Some c \<Rightarrow> mem_eq M (pay m + c) ''urn:sha1:'' }]"

definition gnutella_foxy :: "mem \<Rightarrow> detection_module \<Rightarrow> bool option" where
  "gnutella_foxy M m =
     (let end = unat (plen m) - 3; crlf = [CHR 0x0d, CHR 0x0a];
          at = (\<lambda>c s. allM [Some (length s < end - c), mem_eq M (pay m + c) s]) in
      allM [Some (250 < plen m), mem_eq M (pay m) ''GET /gnutella/'',
            any_index (\<lambda>c. anyM [mem_eq M (pay m + 14) ''tigertree/'', at c (crlf @ ''User-Agent: Foxy''),
                at c (crlf @ ''Accept: application/tigertree-breadthfirst''), at c (crlf @ ''X-Queue:''), at c (crlf @ ''X-Features:'')])
              13 end])"

definition gnutella_push :: "mem \<Rightarrow> detection_module \<Rightarrow> bool option" where
  "gnutella_push M m =
     anyM [allM [Some (30 < plen m), mem_eq M (pay m) ''HEAD /gnutella/push-proxy?''],
           allM [Some (plen m = 46), mem_eq M (pay m) ''PUSH guid:''],
           gnutella_foxy M m]"

definition gnutella_ssl :: "mem \<Rightarrow> detection_module \<Rightarrow> bool option" where
  "gnutella_ssl M m =
     anyM [allM [Some (plen m = 46), word_is M (pay m) ((=) 0x802c0103), word_is M (pay m + 4) ((=) 0x01000300),
                 word_is M (pay m + 8) ((=) 0x00002000), half_is M (pay m + 12) ((=) 0x0034)],
           allM [Some (plen m = 82), word_is M (pay m) ((=) 0x16030100), word_is M (pay m + 4) ((=) 0x4d010000),
                 half_is M (pay m + 8) ((=) 0x4903), half_is M (pay m + 76) ((=) 0x0002), word_is M (pay m + 78) ((=) 0x00340100)]]"

text \<open>The last test, for connections between two high ports: three bytes of the first packet return in the second.\<close>

definition gnutella_note_ids :: "mem \<Rightarrow> detection_module \<Rightarrow> detection_module option" where
  "gnutella_note_ids M m =
     do { a \<leftarrow> M (pay m + 4); b \<leftarrow> M (pay m + 6); c \<leftarrow> M (pay m + 8);
          m \<leftarrow> set_stage ''gnutella_msg_id0'' (unat a) m;
          m \<leftarrow> set_stage ''gnutella_msg_id1'' (unat b) m;
          m \<leftarrow> set_stage ''gnutella_msg_id2'' (unat c) m;
          set_stage ''gnutella_stage'' (1 + dirn m) m }"

definition gnutella_ids :: "mem \<Rightarrow> detection_module \<Rightarrow> bool \<Rightarrow> bool option" where
  "gnutella_ids M m sizes =
     do { a \<leftarrow> get_stage ''gnutella_msg_id0'' m; b \<leftarrow> get_stage ''gnutella_msg_id1'' m; c \<leftarrow> get_stage ''gnutella_msg_id2'' m;
          allM [counter_is m ((=) 2), Some sizes, byte_is M (pay m) (\<lambda>x. unat x = a), byte_is M (pay m + 2) (\<lambda>x. unat x = b),
                byte_is M (pay m + 4) (\<lambda>x. unat x = c), either_has IPOQUE_PROTOCOL_GNUTELLA m] }"

definition gnutella_ports :: "mem \<Rightarrow> detection_module \<Rightarrow> detection_module option" where
  "gnutella_ports M m =
     (let tcp = pk_tcp (ds_packet m); add = int_gnutella_add_connection M m; out = exclude IPOQUE_PROTOCOL_GNUTELLA m in
      branch (allM [Some (tcp \<noteq> NULL), source_is M tcp (\<lambda>p. 1024 \<le> p), dest_is M tcp (\<lambda>p. 1024 \<le> p)])
        (do { stage \<leftarrow> get_stage ''gnutella_stage'' m;
              if stage = 0
              then branch (allM [counter_is m ((=) 1), Some (plen m = 11 \<or> plen m = 33 \<or> plen m = 37)]) (gnutella_note_ids M m) out
              else if stage = 1 + dirn m then branch (gnutella_ids M m (plen m = 33 \<or> plen m = 22)) add out
              else if stage = 2 - dirn m then branch (gnutella_ids M m (plen m = 10 \<or> plen m = 75)) add out
              else out })
        out)"

definition gnutella_tail :: "mem \<Rightarrow> detection_module \<Rightarrow> detection_module option" where
  "gnutella_tail M m =
     (let n = unat (plen m) in
      branch (gnutella_push M m) (int_gnutella_add_connection M m)
     (branch (allM [byte_is M (pay m + (n - 1)) ((=) 0x0a), byte_is M (pay m + (n - 2)) ((=) 0x0a)])
       (branch (allM [Some (3 < n), mem_eq M (pay m) ''GIV'']) (Some m) (gnutella_ports M m))
       (branch (gnutella_ssl M m) (int_gnutella_add_connection M m) (gnutella_ports M m))))"

text \<open>Two of the additions are not followed by a return: the packet goes on to the later tests.\<close>

definition gnutella_requests :: "mem \<Rightarrow> detection_module \<Rightarrow> detection_module option" where
  "gnutella_requests M m =
     do { m \<leftarrow> branch (allM [Some (50 < plen m), mem_eq M (pay m) ''GET / HTT''])
                 (do { m \<leftarrow> parse_lines M m; branch (gnutella_agent M m) (int_gnutella_add_connection M m) (Some m) }) (Some m);
          m \<leftarrow> branch (gnutella_urn M m) (int_gnutella_add_connection M m) (Some m);
          gnutella_tail M m }"

definition gnutella_tcp :: "mem \<Rightarrow> detection_module \<Rightarrow> detection_module option" where
  "gnutella_tcp M m =
     branch (anyM [allM [Some (10 < plen m), mem_eq M (pay m) ''GNUTELLA/''],
                   allM [Some (17 < plen m), mem_eq M (pay m) ''GNUTELLA CONNECT/'']])
       (int_gnutella_add_connection M m)
    (branch (gnutella_get M m)
       (do { m \<leftarrow> parse_lines M m;
             branch (anyM (List.map (gnutella_line M) (lines_of m))) (int_gnutella_add_connection M m) (gnutella_requests M m) })
       (gnutella_requests M m))"

text \<open>Datagrams. \<^verbatim>\<open>GND\<close> is compared with three bytes although two were checked for: slack one.\<close>

definition gnutella_gnd :: "mem \<Rightarrow> detection_module \<Rightarrow> bool option" where
  "gnutella_gnd M m =
     (let n = unat (plen m); tag = (\<lambda>k xs. allM [Some (n = k), mem_is M (pay m + 6) xs]) in
      allM [mem_eq M (pay m) ''GND'',
        anyM [tag 8 [0x01, 0x00], tag 11 [0x01, 0x01, 0x08, 0x50, 0x49], tag 17 [0x01, 0x01, 0x4c, 0x05, 0x50],
              tag 28 [0x01, 0x01, 0x54, 0x0f, 0x51, 0x4b, 0x52, 0x50, 0x06, 0x52],
              tag 41 [0x01, 0x01, 0x5c, 0x1b, 0x50, 0x55, 0x53, 0x48, 0x48, 0x10],
              allM [Some (200 < n), Some (n < 300), byte_is M (pay m + 3) ((=) 0x03)],
              allM [Some (300 < n), byte_is M (pay m + 3) (\<lambda>x. x = 0x01 \<or> x = 0x03)]]])"

definition gnutella_datagram :: "mem \<Rightarrow> detection_module \<Rightarrow> bool option" where
  "gnutella_datagram M m =
     (let n = unat (plen m) in
      anyM [allM [Some (n = 23), bytes_at M (pay m + 15) [0x00, 0x41, 0x01, 0x00, 0x00, 0x00, 0x00, 0x00]],
            allM [Some (n = 35), bytes_at M (pay m + 25) [0x49, 0x50, 0x40, 0x83, 0x53, 0x43, 0x50, 0x41]],
            allM [Some (n = 32), mem_is M (pay m + 16) [0x31, 0x01, 0x00, 0x09, 0x00, 0x00, 0x00, 0x4c, 0x49, 0x4d, 0x45]],
            allM [Some (n = 34), mem_eq M (pay m + 25) ''SCP@'', mem_eq M (pay m + 30) ''DNA@''],
            allM [Some (n = 73 \<or> n = 96), mem_eq M (pay m + 32) ''urn:sha1:''],
            gnutella_gnd M m,
            allM [Some (n = 32), mem_is M (pay m + 16) [0x31, 0x01, 0x00, 0x09, 0x00, 0x00, 0x00]],
            allM [Some (n = 23), mem_is M (pay m + 16) [0x00, 0x01, 0x00, 0x00, 0x00, 0x00, 0x00]]])"

definition gnutella_host :: "mem \<Rightarrow> detection_module \<Rightarrow> bool option" where
  "gnutella_host M m =
     (let src = ds_src m; udp = pk_udp (ds_packet m) in
      if src = NULL then Some False
      else do { p1 \<leftarrow> get_id_field src ''detected_gnutella_udp_port1'' m;
                p2 \<leftarrow> get_id_field src ''detected_gnutella_udp_port2'' m;
                allM [lhalf_is M udp (\<lambda>p. unat p = p1 \<or> unat p = p2), recent src ''gnutella_ts'' (ds_config m ''gnutella_timeout'') m] })"

definition gnutella_udp :: "mem \<Rightarrow> detection_module \<Rightarrow> detection_module option" where
  "gnutella_udp M m =
     do { m \<leftarrow> branch (gnutella_host M m) (int_gnutella_add_connection M m) (Some m);
          branch (gnutella_datagram M m) (int_gnutella_add_connection M m) (gnutella_ports M m) }"

definition ipoque_search_gnutella :: "mem \<Rightarrow> detection_module \<Rightarrow> detection_module option" where
  "ipoque_search_gnutella M m =
     (if detected IPOQUE_PROTOCOL_GNUTELLA m then gnutella_renew m
      else if plen m < 2 then Some m
      else if pk_tcp (ds_packet m) \<noteq> NULL then gnutella_tcp M m
      else if pk_udp (ds_packet m) \<noteq> NULL then gnutella_udp M m
      else gnutella_ports M m)"

text \<open>The proof: every request and the datagrams have a value with one byte of slack.\<close>

abbreviation (input) "same_hosts m m' \<equiv> ds_src m' = ds_src m \<and> ds_dst m' = ds_dst m"

lemma id_field_total:
  assumes "view_ok M m" "a = ds_src m \<or> a = ds_dst m" "a \<noteq> NULL"
  shows "\<exists>v. get_id_field a f m = Some v"
  using assms by (auto simp: get_id_field_def view_ok_def ids_ok_def)

lemma gnutella_add_good:
  assumes "view_ok M m" "ds_flow m \<noteq> None"
  shows "good M m (int_gnutella_add_connection M m)"
proof -
  have "readable M (pk_udp (ds_packet m)) 2" if "pk_udp (ds_packet m) \<noteq> NULL"
    using assms(1) that unfolding view_ok_def packet_ok_def windows_ok_def by (auto elim: readable_mono)
  note udp = this
  show ?thesis
    unfolding int_gnutella_add_connection_def Let_def using assms
    by (intro good_then if_good add_connection_good note_id_good get_id_field_good rd_good good_Some udp) simp_all
qed

lemma gnutella_renew_good:
  assumes "view_ok M m"
  shows "good M m (gnutella_renew m)"
proof -
  have forget: "good M m' (gnutella_forget a m')" if "view_ok M m'" "a = ds_src m' \<or> a = ds_dst m'" for m' a
  proof -
    have "\<exists>b. gnutella_overdue a m' = Some b"
      using id_field_total [OF that, of "''gnutella_ts''"] by (auto simp: gnutella_overdue_def)
    then show ?thesis
      unfolding gnutella_forget_def using that by (intro branch_good good_then note_id_good good_Some) simp_all
  qed
  show ?thesis
    unfolding gnutella_renew_def Let_def using assms
    by (intro good_then branch_good note_id_good recent_total forget good_Some) simp_all
qed

lemma gnutella_get_total: "slack M m 1 \<Longrightarrow> \<exists>b. gnutella_get M m = Some b"
  unfolding gnutella_get_def by (intro slack_rules) (simp_all add: value_simps del: allM.simps anyM.simps)

lemma gnutella_urn_total:
  assumes "slack M m 1"
  shows "\<exists>b. gnutella_urn M m = Some b"
  unfolding gnutella_urn_def using assms
  by (intro slack_rules gnutella_get_total) (auto simp: value_simps simp del: allM.simps anyM.simps)

lemma gnutella_push_total:
  assumes "slack M m 1"
  shows "\<exists>b. gnutella_push M m = Some b"
proof -
  have "\<exists>b. gnutella_foxy M m = Some b"
    unfolding gnutella_foxy_def Let_def using assms
    by (intro slack_rules) (auto simp: value_simps simp del: allM.simps anyM.simps)
  then show ?thesis
    unfolding gnutella_push_def using assms by (intro slack_rules) (simp_all add: value_simps del: allM.simps anyM.simps)
qed

lemma gnutella_ssl_total: "slack M m 1 \<Longrightarrow> \<exists>b. gnutella_ssl M m = Some b"
  unfolding gnutella_ssl_def by (intro slack_rules) (simp_all add: value_simps del: allM.simps anyM.simps)

lemma gnutella_datagram_total:
  assumes "slack M m 1" "2 \<le> unat (plen m)"
  shows "\<exists>b. gnutella_datagram M m = Some b"
proof -
  have "\<exists>b. bytes_at M (pay m + k) xs = Some b" if "k + length xs \<le> unat (plen m)" for k xs
    by (rule bytes_at_total [OF slack_readable [OF assms(1)]]) (use that in simp)
  note bytes = this
  have "\<exists>b. gnutella_gnd M m = Some b"
    unfolding gnutella_gnd_def Let_def using assms
    by (intro slack_rules) (auto simp: value_simps simp del: allM.simps anyM.simps)
  then show ?thesis
    unfolding gnutella_datagram_def Let_def using assms
    by (intro slack_rules bytes) (auto simp: value_simps simp del: allM.simps anyM.simps)
qed

lemma gnutella_lines_total:
  assumes "view_ok M m" "pk_packet_lines_parsed_complete (ds_packet m)"
  shows "\<exists>b. gnutella_agent M m = Some b" "\<exists>b. anyM (List.map (gnutella_line M) (lines_of m)) = Some b"
  unfolding gnutella_agent_def gnutella_line_def Let_def
  by (intro cond_total line_starts_total parsed_line_readable(1) [OF assms] noted_line_readable [OF assms]; simp)+

lemma gnutella_ports_good:
  assumes "view_ok M m" "ds_flow m \<noteq> None" "slack M m 1"
  shows "good M m (gnutella_ports M m)"
proof -
  have note_ids: "good M m (gnutella_note_ids M m)" if "11 \<le> unat (plen m)"
    unfolding gnutella_note_ids_def using assms(1,2) that
    by (intro rd_good good_then set_stage_good slack_readable [OF assms(3)]) simp_all
  have ids: "\<exists>b. gnutella_ids M m c = Some b" if "c \<longrightarrow> 10 \<le> unat (plen m)" for c
  proof -
    obtain fl where "ds_flow m = Some fl" using assms(2) by blast
    then show ?thesis
      unfolding gnutella_ids_def get_stage_def using assms that
      by (simp only: bind.bind_lunit) (intro slack_rules; simp)
  qed
  show ?thesis
    unfolding gnutella_ports_def Let_def using assms
    by (intro branch_good if_good get_stage_good exclude_good gnutella_add_good note_ids ids slack_rules)
       (auto simp: value_simps simp del: allM.simps anyM.simps)
qed

lemma gnutella_tail_good:
  assumes "view_ok M m" "ds_flow m \<noteq> None" "slack M m 1" "2 \<le> unat (plen m)"
  shows "good M m (gnutella_tail M m)"
  unfolding gnutella_tail_def Let_def using assms
  by (intro branch_good good_Some gnutella_add_good gnutella_ports_good gnutella_push_total gnutella_ssl_total slack_rules)
     (simp_all add: value_simps del: allM.simps anyM.simps)

lemma gnutella_requests_good:
  assumes "view_ok M m" "ds_flow m \<noteq> None" "slack M m 1" "2 \<le> unat (plen m)"
  shows "good M m (gnutella_requests M m)"
  unfolding gnutella_requests_def using assms
  by (intro branch_good parse_then good_then good_Some gnutella_add_good gnutella_tail_good gnutella_urn_total gnutella_lines_total
        cond_total slack_reads [OF assms(3)] slack_reads_0 [OF assms(3)]) (simp_all add: value_simps slack_def del: allM.simps anyM.simps)

lemma gnutella_tcp_good:
  assumes "view_ok M m" "ds_flow m \<noteq> None" "slack M m 1" "2 \<le> unat (plen m)"
  shows "good M m (gnutella_tcp M m)"
  unfolding gnutella_tcp_def using assms
  by (intro branch_good parse_then gnutella_add_good gnutella_requests_good gnutella_get_total gnutella_lines_total
        cond_total slack_reads [OF assms(3)] slack_reads_0 [OF assms(3)])
     (simp_all add: value_simps slack_def del: allM.simps anyM.simps)

lemma gnutella_udp_good:
  assumes "view_ok M m" "ds_flow m \<noteq> None" "slack M m 1" "2 \<le> unat (plen m)" "pk_udp (ds_packet m) \<noteq> NULL"
  shows "good M m (gnutella_udp M m)"
proof -
  have "\<exists>b. gnutella_host M m = Some b"
  proof (cases "ds_src m = NULL")
    case False
    have "readable M (pk_udp (ds_packet m)) 2"
      using assms(1,5) unfolding view_ok_def packet_ok_def windows_ok_def by (auto elim: readable_mono)
    moreover obtain p1 p2 where "get_id_field (ds_src m) ''detected_gnutella_udp_port1'' m = Some p1"
      "get_id_field (ds_src m) ''detected_gnutella_udp_port2'' m = Some p2"
      using id_field_total [OF assms(1) disjI1 [OF refl] False] by metis
    ultimately show ?thesis
      unfolding gnutella_host_def Let_def using False assms(1)
      by (simp only: if_False bind.bind_lunit) (intro cond_total lhalf_is_total recent_total; simp)
  qed (simp add: gnutella_host_def exI [of _ False])
  then show ?thesis
    unfolding gnutella_udp_def using assms
    by (intro good_then branch_good good_Some gnutella_add_good gnutella_ports_good gnutella_datagram_total)
       (simp_all add: value_simps slack_def)
qed

lemma gnutella_good:
  assumes "view_ok M m" "ds_flow m \<noteq> None" "slack M m 1"
  shows "good M m (ipoque_search_gnutella M m)"
  unfolding ipoque_search_gnutella_def using assms
  by (intro if_good good_Some gnutella_renew_good gnutella_tcp_good gnutella_udp_good gnutella_ports_good)
     (simp_all add: len_simps)

subsection \<open>Postgres\<close>

text \<open>
  The stages 5 and 6 read at offsets taken from the packet. No statement sets them: \<^verbatim>\<open>postgres_stage\<close> is 0, or 1 to 4 after
  the first packet. \<open>size\<close> has 16 bits; \<^verbatim>\<open>get_u32\<close> without \<^verbatim>\<open>ntohl\<close> is a little endian read.
\<close>

definition int_postgres_add_connection :: "detection_module \<Rightarrow> detection_module option" where
  "int_postgres_add_connection m = ipoque_int_add_connection IPOQUE_PROTOCOL_POSTGRES m"

definition postgres_first :: "mem \<Rightarrow> detection_module \<Rightarrow> detection_module option" where
  "postgres_first M m =
     branch (allM [Some (7 < plen m), bytes_at M (pay m + 4) [0x04, 0xd2, 0x16, 0x2f], word_is M (pay m) (\<lambda>l. unat l = unat (plen m))])
       (set_stage ''postgres_stage'' (1 + dirn m) m)
    (branch (allM [Some (7 < plen m), word_is M (pay m + 4) (\<lambda>v. v < 0x00040000), word_is M (pay m) (\<lambda>l. unat l = unat (plen m))])
       (set_stage ''postgres_stage'' (3 + dirn m) m)
       (exclude IPOQUE_PROTOCOL_POSTGRES m))"

definition postgres_last :: "mem \<Rightarrow> detection_module \<Rightarrow> nat \<Rightarrow> bool option" where
  "postgres_last M m stage =
     (let n = unat (plen m); len = word_is M (pay m + 1) (\<lambda>l. l = of_nat n - 1);
          field = (\<lambda>size. rd32le M (pay m + (unat size + 1)));
          at = (\<lambda>size. (pay m + unat size) - 1) in
      anyM [allM [Some (stage = 6), len, byte_is M (pay m) ((=) 0x70)],
            allM [Some (stage = 5), byte_is M (pay m) ((=) 0x52),
              anyM [len,
                do { l \<leftarrow> rd32be M (pay m + 1);
                     let size = (ucast (l + 1) :: u16);
                     b \<leftarrow> allM [byte_is M (at size) ((=) 0x53),
                               do { f \<leftarrow> field size; Some (unat (ucast size + f) = n) }];
                     if b then Some True
                     else do { f \<leftarrow> field size; byte_is M (at (size + ucast f + 1)) ((=) 0x53) } }]]])"

definition postgres_answer :: "mem \<Rightarrow> detection_module \<Rightarrow> nat \<Rightarrow> bool option" where
  "postgres_answer M m stage =
     anyM [allM [Some (stage = 2 - dirn m), Some (plen m = 1), byte_is M (pay m) (\<lambda>x. x = 0x53 \<or> x = 0x4e)],
           allM [Some (stage = 4 - dirn m), Some (8 < plen m), word_is M (pay m + 5) (\<lambda>c. c < 10),
                 word_is M (pay m + 1) (\<lambda>l. unat l = unat (plen m) - 1), byte_is M (pay m) ((=) 0x52)],
           postgres_last M m stage]"

definition ipoque_search_postgres_tcp :: "mem \<Rightarrow> detection_module \<Rightarrow> detection_module option" where
  "ipoque_search_postgres_tcp M m =
     do { stage \<leftarrow> get_stage ''postgres_stage'' m;
          if stage = 0 then postgres_first M m
          else branch (postgres_answer M m stage) (int_postgres_add_connection m) (exclude IPOQUE_PROTOCOL_POSTGRES m) }"

lemma postgres_first_good:
  assumes "view_ok M m" "ds_flow m \<noteq> None"
  shows "good M m (postgres_first M m)"
  unfolding postgres_first_def using assms
  by (intro contract_rules condition_rules) (simp_all add: value_simps del: allM.simps anyM.simps)

lemma postgres_answer_total:
  assumes "view_ok M m" "stage \<noteq> 5" "stage \<noteq> 6"
  shows "\<exists>b. postgres_answer M m stage = Some b"
proof -
  have "postgres_last M m stage = Some False" using assms(2,3) by (simp add: postgres_last_def)
  then show ?thesis
    unfolding postgres_answer_def using assms(1)
    by (intro condition_rules) (auto simp: value_simps simp del: allM.simps anyM.simps)
qed

text \<open>From a stage up to 4 the dissector keeps the contract, and leaves a stage up to 4.\<close>

lemma postgres_good:
  assumes "view_ok M m" "ds_flow m = Some fl" "fl_stage fl ''postgres_stage'' \<le> 4"
  shows "good M m (ipoque_search_postgres_tcp M m)"
  unfolding ipoque_search_postgres_tcp_def int_postgres_add_connection_def using assms
  by (intro get_stage_good if_good branch_good postgres_first_good postgres_answer_total add_connection_good exclude_good)
     (simp_all add: get_stage_def)

lemma mark_ids_flow: "mark_ids p m = Some m' \<Longrightarrow> ds_flow m' = ds_flow m"
  by (auto simp: mark_ids_def split: bind_splits if_splits)

lemma postgres_stage_kept:
  assumes "ipoque_search_postgres_tcp M m = Some m'" "ds_flow m = Some fl" "fl_stage fl ''postgres_stage'' \<le> 4"
  shows "\<exists>fl'. ds_flow m' = Some fl' \<and> fl_stage fl' ''postgres_stage'' \<le> 4"
  using assms
  by (auto simp: ipoque_search_postgres_tcp_def postgres_first_def branch_def set_stage_def get_stage_def exclude_def
      int_postgres_add_connection_def ipoque_int_add_connection_def set_detected_def split: bind_splits if_splits dest!: mark_ids_flow)

end
