(* ===== verification/Ipq_Loops.thy ===== *)
theory Ipq_Loops
  imports Ipq_Overread
begin

text \<open>
  Dissectors with a loop over lengths found in the packet, kept in a counter of 16 bits that may wrap: STUN, whose loop
  can run forever, and Yahoo, which keeps the contract for packets below 32 kilobytes.
\<close>

subsection \<open>STUN\<close>

definition stun_request :: "mem \<Rightarrow> detection_module \<Rightarrow> bool option" where
  "stun_request M m =
     allM [Some (20 \<le> plen m), half_is M (pay m + 2) (\<lambda>l. unat l + 20 = unat (plen m)),
       anyM [allM [byte_is M (pay m) ((=) 0x00), byte_is M (pay m + 1) (\<lambda>x. 0x01 \<le> x \<and> x \<le> 0x04)],
             allM [byte_is M (pay m) ((=) 0x01), byte_is M (pay m + 1) (\<lambda>x. 0x01 \<le> x \<and> x \<le> 0x04 \<or> 0x11 \<le> x \<and> x \<le> 0x15)]]]"

definition stun_attribute :: "mem \<Rightarrow> detection_module \<Rightarrow> u16 \<Rightarrow> bool option" where
  "stun_attribute M m a =
     (let p = pay m + unat a in
      allM [Some (unat a + 4 \<le> unat (plen m)),
        anyM [allM [byte_is M p ((=) 0x00), byte_is M (p + 1) (\<lambda>x. 0x01 \<le> x \<and> x \<le> 0x15 \<or> x \<in> {0x20, 0x22, 0x24})],
              allM [byte_is M p ((=) 0x80),
                    byte_is M (p + 1) (\<lambda>x. x \<in> {0x01, 0x06, 0x08, 0x15, 0x20, 0x22, 0x28, 0x2a, 0x29, 0x50, 0x54, 0x55})]]])"

text \<open>One round: \<open>Inl\<close> the answer, or \<open>Inr\<close> the offset of the next attribute, which has 16 bits.\<close>

definition stun_step :: "mem \<Rightarrow> detection_module \<Rightarrow> u16 \<Rightarrow> (bool + u16) option" where
  "stun_step M m a =
     (if a < plen m
      then do { b \<leftarrow> stun_attribute M m a;
                if b then do { l \<leftarrow> rd16be M (pay m + (unat a + 2));
                               let a' = a + (l + 4);
                               Some (if a' = plen m then Inl True else Inr a') }
                else Some (Inl False) }
      else Some (Inl False))"

text \<open>The loop; no value when it does not end.\<close>

partial_function (option) stun_loop :: "mem \<Rightarrow> detection_module \<Rightarrow> u16 \<Rightarrow> bool option" where
  "stun_loop M m a = do { r \<leftarrow> stun_step M m a; case r of Inl b \<Rightarrow> Some b | Inr a' \<Rightarrow> stun_loop M m a' }"

definition ipoque_search_stun_udp :: "mem \<Rightarrow> detection_module \<Rightarrow> detection_module option" where
  "ipoque_search_stun_udp M m =
     decide IPOQUE_PROTOCOL_STUN (allM [stun_request M m, anyM [Some (plen m = 20), stun_loop M m 20]]) m"

text \<open>Every round has a value.\<close>

lemma stun_step_total:
  assumes "view_ok M m"
  shows "\<exists>r. stun_step M m a = Some r"
proof -
  have "\<exists>b. stun_attribute M m a = Some b"
    unfolding stun_attribute_def Let_def add.assoc using assms
    by (intro cond_total byte_is_total pay_readable) auto
  then obtain b where b: "stun_attribute M m a = Some b" by blast
  show ?thesis
  proof (cases b)
    case True
    then have "unat a + 4 \<le> unat (plen m)" using b by (auto simp: stun_attribute_def Let_def split: if_splits)
    then obtain l where "rd16be M (pay m + (unat a + 2)) = Some l"
      using rd16be_total [OF pay_readable [OF assms, of "unat a + 2" 2]] by auto
    then show ?thesis using b True by (simp add: stun_step_def Let_def)
  qed (use b in \<open>simp add: stun_step_def\<close>)
qed

text \<open>A round that leads back to its own offset never ends.\<close>

lemma stun_loop_leaves: "stun_loop M m a = Some b \<Longrightarrow> stun_step M m a \<noteq> Some (Inr a)"
  by (erule stun_loop.raw_induct [where P = "\<lambda>M m a b. stun_step M m a \<noteq> Some (Inr a)", rotated])
     (auto split: bind_splits sum.splits)

lemma stun_loop_stuck: "stun_step M m a = Some (Inr a) \<Longrightarrow> stun_loop M m a = None"
  using stun_loop_leaves by fastforce

text \<open>While no attribute wraps the counter, the offsets grow and the loop ends.\<close>

lemma stun_loop_total:
  assumes "view_ok M m"
    and "\<And>a l. a + 4 \<le> unat (plen m) \<Longrightarrow> rd16be M (pay m + (a + 2)) = Some l \<Longrightarrow> a + unat l + 4 < 65536"
  shows "\<exists>b. stun_loop M m a = Some b"
proof (induction "65536 - unat a" arbitrary: a rule: less_induct)
  case less
  obtain r where r: "stun_step M m a = Some r" using stun_step_total [OF assms(1)] by blast
  show ?case
  proof (cases r)
    case (Inl b)
    then show ?thesis using r by (subst stun_loop.simps) simp
  next
    case (Inr a')
    then obtain l where l: "stun_attribute M m a = Some True" "rd16be M (pay m + (unat a + 2)) = Some l" "a' = a + (l + 4)"
      using r by (auto simp: stun_step_def Let_def split: bind_splits if_splits)
    then have "unat a + 4 \<le> unat (plen m)" by (auto simp: stun_attribute_def Let_def split: if_splits)
    then have "unat a + unat l + 4 < 65536" using assms(2) l(2) by blast
    then have "unat a' = unat a + unat l + 4" unfolding l(3) by (simp add: unat_word_ariths)
    then have "65536 - unat a' < 65536 - unat a" using \<open>unat a + unat l + 4 < 65536\<close> by simp
    then have "\<exists>b. stun_loop M m a' = Some b" by (rule less.hyps)
    then show ?thesis using r Inr by (subst stun_loop.simps) simp
  qed
qed

lemma stun_good:
  assumes "view_ok M m" "ds_flow m \<noteq> None"
    and "\<And>a l. a + 4 \<le> unat (plen m) \<Longrightarrow> rd16be M (pay m + (a + 2)) = Some l \<Longrightarrow> a + unat l + 4 < 65536"
  shows "good M m (ipoque_search_stun_udp M m)"
proof -
  have "\<exists>b. stun_request M m = Some b"
    unfolding stun_request_def using assms(1) by (intro condition_rules) (simp_all add: value_simps del: allM.simps anyM.simps)
  then show ?thesis
    unfolding ipoque_search_stun_udp_def using assms(1,2) stun_loop_total [OF assms(1,3)]
    by (intro decide_good cond_total) simp_all
qed

subsection \<open>Yahoo\<close>

text \<open>The messages of a packet: each has a header of 20 bytes with its length at offset 8; the sum has 16 bits.\<close>

partial_function (option) ymsg_loop :: "mem \<Rightarrow> detection_module \<Rightarrow> u16 \<Rightarrow> bool option" where
  "ymsg_loop M m parsed =
     do { ylen \<leftarrow> rd16be M (pay m + (unat parsed + 8));
          let parsed' = parsed + (20 + ylen);
          if plen m \<le> ylen \<or> plen m \<le> parsed' then Some (parsed' = plen m)
          else do { b \<leftarrow> mem_eq M (pay m + unat parsed') ''YMSG'';
                    if b then ymsg_loop M m parsed' else Some (parsed' = plen m) } }"

definition check_ymsg :: "mem \<Rightarrow> detection_module \<Rightarrow> bool option" where
  "check_ymsg M m = ymsg_loop M m 0"

text \<open>The lines \<open>k\<close> of the request, longer than \<open>n\<close>.\<close>

definition nth_line :: "mem \<Rightarrow> detection_module \<Rightarrow> nat \<Rightarrow> nat \<Rightarrow> string \<Rightarrow> bool option" where
  "nth_line M m k n s = do { l \<leftarrow> get_line (pk_line (ds_packet m)) k; line_starts M l n s }"

definition nth_unix_line :: "mem \<Rightarrow> detection_module \<Rightarrow> nat \<Rightarrow> nat \<Rightarrow> string \<Rightarrow> bool option" where
  "nth_unix_line M m k n s =
     do { l \<leftarrow> get_line (pk_unix_line (ds_packet m)) k; allM [Some (ol_ptr l \<noteq> NULL), line_starts M l n s] }"

definition yahoo_message :: "mem \<Rightarrow> detection_module \<Rightarrow> bool option" where
  "yahoo_message M m =
     allM [Some (20 \<le> plen m), mem_eq M (pay m) ''YMSG'',
           anyM [half_is M (pay m + 8) (\<lambda>l. unat l = unat (plen m) - 20), check_ymsg M m]]"

definition note_both :: "string \<Rightarrow> nat \<Rightarrow> detection_module \<Rightarrow> detection_module option" where
  "note_both f v m = do { m \<leftarrow> note_id (ds_src m) f v m; note_id (ds_dst m) f v m }"

definition yahoo_service :: "mem \<Rightarrow> detection_module \<Rightarrow> detection_module option" where
  "yahoo_service M m =
     do { service \<leftarrow> rd16be M (pay m + 10);
          m \<leftarrow> set_stage ''yahoo_detection_finished'' 2 m;
          m \<leftarrow> (if service = 24 \<or> service = 152 \<or> service = 74 then note_both ''yahoo_conf_logged_in'' 1 m else Some m);
          m \<leftarrow> (if service = 27 \<or> service = 155 \<or> service = 160
               then do { m \<leftarrow> note_id (ds_src m) ''yahoo_conf_logged_in'' 0 m; note_id (ds_src m) ''yahoo_voice_conf_logged_in'' 0 m }
               else Some m);
          ipoque_int_add_connection IPOQUE_PROTOCOL_YAHOO m }"

definition yahoo_relay :: "mem \<Rightarrow> detection_module \<Rightarrow> bool option" where
  "yahoo_relay M m =
     allM [anyM [mem_eq M (pay m) ''POST /relay?token='', mem_eq M (pay m) ''GET /relay?token='', mem_eq M (pay m) ''GET /?token='',
                 mem_eq M (pay m) ''HEAD /relay?token=''],
           either_has IPOQUE_PROTOCOL_YAHOO m]"

definition yahoo_post :: "mem \<Rightarrow> detection_module \<Rightarrow> bool option" where
  "yahoo_post M m =
     (let h = pk_host_line (ds_packet m) in
      anyM [allM [either_has IPOQUE_PROTOCOL_YAHOO m, Some (5 < pk_parsed_lines (ds_packet m)), mem_eq M (pay m + 5) ''/Messenger.'',
                  nth_line M m 1 16 ''Connection: Close'', nth_line M m 2 5 ''Host: '', nth_line M m 3 15 ''Content-Length: '',
                  nth_line M m 4 22 ''User-Agent: Mozilla/5.0'', nth_line M m 5 22 ''Cache-Control: no-cache''],
            allM [Some (ol_ptr h \<noteq> NULL), line_starts M h 25 ''filetransfer.msg.yahoo.com''],
            anyM (List.map (\<lambda>l. line_starts M l 3 ''YMSG'') (lines_of m))])"

definition yahoo_video_end :: "mem \<Rightarrow> addr \<Rightarrow> nat \<Rightarrow> detection_module \<Rightarrow> bool option" where
  "yahoo_video_end M a direction m =
     allM [Some (a \<noteq> NULL), dest_is M (pk_tcp (ds_packet m)) ((=) 5100),
           recent a ''yahoo_video_lan_timer'' (ds_config m ''yahoo_lan_video_timeout'') m,
           do { d \<leftarrow> get_id_field a ''yahoo_video_lan_dir'' m; Some (d = direction) }]"

definition yahoo_image :: "mem \<Rightarrow> detection_module \<Rightarrow> bool option" where
  "yahoo_image M m =
     allM [Some (plen m = 8), anyM [mem_eq M (pay m) ''<SNDIMG>'', mem_eq M (pay m) ''<REQIMG>'', mem_eq M (pay m) ''<RVWCFG>'',
           mem_eq M (pay m) ''<RUPCFG>'']]"

definition yahoo_http :: "mem \<Rightarrow> detection_module \<Rightarrow> detection_module option" where
  "yahoo_http M m =
     (let add = ipoque_int_add_connection IPOQUE_PROTOCOL_YAHOO; out = exclude IPOQUE_PROTOCOL_YAHOO in
      if \<not> detected IPOQUE_PROTOCOL_HTTP m then out m
      else do { stage \<leftarrow> get_stage ''yahoo_http_proxy_stage'' m;
                if stage = 0 then set_stage ''yahoo_http_proxy_stage'' (1 + dirn m) m
                else if stage = 1 + dirn m then Some m
                else if stage = 2 - dirn m
                then do { m \<leftarrow> parse_unix_lines M m;
                          branch (allM [Some (9 \<le> pk_parsed_unix_lines (ds_packet m)), nth_unix_line M m 4 8 ''<Session '',
                                        nth_unix_line M m 8 5 ''<Ymsg ''])
                            (add m) (out m) }
                else out m })"

definition yahoo_known :: "mem \<Rightarrow> detection_module \<Rightarrow> detection_module option" where
  "yahoo_known M m =
     (let add = ipoque_int_add_connection IPOQUE_PROTOCOL_YAHOO in
      branch (allM [Some (plen m = 6), mem_eq M (pay m) ''YAHOO!'']) (add m)
     (branch (yahoo_image M m)
        (do { send \<leftarrow> mem_eq M (pay m) ''<SNDIMG>'';
              m \<leftarrow> note_both ''yahoo_video_lan_dir'' (if send then 0 else 1) m;
              m \<leftarrow> note_both ''yahoo_video_lan_timer'' (unat (now m)) m;
              add m })
     (branch (anyM [yahoo_video_end M (ds_src m) 1 m, yahoo_video_end M (ds_dst m) 0 m]) (add m)
        (yahoo_http M m))))"

definition yahoo_peer :: "mem \<Rightarrow> detection_module \<Rightarrow> detection_module option" where
  "yahoo_peer M m =
     branch (allM [Some (38 < plen m), mem_eq M (pay m) ''CONNECT scs.msg.yahoo.com:5050 HTTP/1.''])
       (ipoque_int_add_connection IPOQUE_PROTOCOL_YAHOO m)
       (branch (either_has IPOQUE_PROTOCOL_YAHOO m) (yahoo_known M m) (yahoo_http M m))"

definition yahoo_content :: "mem \<Rightarrow> detection_module \<Rightarrow> detection_module option" where
  "yahoo_content M m =
     branch (allM [Some (50 < plen m), mem_eq M (pay m) ''content-length: ''])
       (do { m \<leftarrow> parse_lines M m;
             branch (allM [Some (2 < pk_parsed_lines (ds_packet m)),
                           do { l \<leftarrow> get_line (pk_line (ds_packet m)) 1; Some (ol_len l = 0) },
                           nth_line M m 2 13 ''<Ymsg Command=''])
               (ipoque_int_add_connection IPOQUE_PROTOCOL_YAHOO m) (yahoo_peer M m) })
       (yahoo_peer M m)"

definition yahoo_web :: "mem \<Rightarrow> detection_module \<Rightarrow> detection_module option" where
  "yahoo_web M m =
     (let add = ipoque_int_add_connection IPOQUE_PROTOCOL_YAHOO;
          get = (\<lambda>m. branch (allM [mem_eq M (pay m) ''GET /Messenger.'', either_has IPOQUE_PROTOCOL_YAHOO m]) (add m) (yahoo_content M m)) in
      branch (yahoo_relay M m) (add m)
     (branch (mem_eq M (pay m) ''POST '')
        (do { m \<leftarrow> parse_lines M m; branch (yahoo_post M m) (add m) (get m) })
        (get m)))"

definition ipoque_search_yahoo_tcp :: "mem \<Rightarrow> detection_module \<Rightarrow> detection_module option" where
  "ipoque_search_yahoo_tcp M m =
     (if plen m = 0 then Some m
      else branch (yahoo_message M m) (yahoo_service M m)
        (do { finished \<leftarrow> get_stage ''yahoo_detection_finished'' m;
              if finished = 2 \<and> detected IPOQUE_PROTOCOL_YAHOO m then Some m
              else if ds_config m ''yahoo_detect_http_connections'' \<noteq> 0 \<and> 100 < plen m then yahoo_web M m
              else yahoo_content M m }))"

text \<open>A datagram excludes the protocol whatever the condition before says: its body is empty, and the label follows it.\<close>

definition ipoque_search_yahoo_udp :: "detection_module \<Rightarrow> detection_module option" where
  "ipoque_search_yahoo_udp m = exclude IPOQUE_PROTOCOL_YAHOO m"

definition ipoque_search_yahoo :: "mem \<Rightarrow> detection_module \<Rightarrow> detection_module option" where
  "ipoque_search_yahoo M m =
     (let first = pk_tcp (ds_packet m) \<noteq> NULL \<and> \<not> pk_tcp_retransmission (ds_packet m) in
      do { finished \<leftarrow> get_stage ''yahoo_detection_finished'' m;
           m \<leftarrow> (if 0 < plen m \<and> finished = 0
                then if first
                     then if detected IPOQUE_PROTOCOL_UNKNOWN m \<or> detected IPOQUE_PROTOCOL_HTTP m then ipoque_search_yahoo_tcp M m
                          else Some m
                     else if pk_udp (ds_packet m) \<noteq> NULL then ipoque_search_yahoo_udp m else Some m
                else Some m);
           finished \<leftarrow> get_stage ''yahoo_detection_finished'' m;
           if 0 < plen m \<and> finished = 2 \<and> first then ipoque_search_yahoo_tcp M m else Some m })"

text \<open>
  A message that starts inside the packet may end nine bytes behind its own first byte. Below 32758 bytes the sum cannot
  wrap, and it grows.
\<close>

lemma ymsg_loop_total:
  assumes "slack M m 9" "unat (plen m) < 32758"
  shows "unat a < unat (plen m) \<Longrightarrow> \<exists>b. ymsg_loop M m a = Some b"
proof (induction "unat (plen m) - unat a" arbitrary: a rule: less_induct)
  case less
  obtain l where l: "rd16be M (pay m + (unat a + 8)) = Some l"
    using rd16be_total [OF slack_readable [OF assms(1), of "unat a + 8" 2]] less.prems by auto
  define a' where "a' = a + (20 + l)"
  show ?case
  proof (cases "plen m \<le> l \<or> plen m \<le> a'")
    case True
    then show ?thesis using l by (subst ymsg_loop.simps) (simp add: a'_def [symmetric])
  next
    case False
    then have less_len: "unat l < unat (plen m)" "unat a' < unat (plen m)" by (simp_all add: word_less_nat_alt not_le)
    then have "unat a + (20 + unat l) < 65536" using assms(2) less.prems by linarith
    then have grow: "unat a' = unat a + (20 + unat l)" unfolding a'_def by (simp add: unat_word_ariths)
    obtain b where b: "mem_eq M (pay m + unat a') ''YMSG'' = Some b"
      using mem_eq_total [OF slack_readable [OF assms(1), of "unat a'" "length ''YMSG''"]] less_len by auto
    have "\<exists>b. ymsg_loop M m a' = Some b" using less.hyps [of a'] less_len(2) less.prems grow by simp
    then show ?thesis using False l b by (subst ymsg_loop.simps) (simp add: a'_def [symmetric])
  qed
qed

lemma nth_line_total:
  assumes "view_ok M m" "pk_packet_lines_parsed_complete (ds_packet m)" "k < unat (pk_parsed_lines (ds_packet m))" "length s \<le> Suc n"
  shows "\<exists>b. nth_line M m k n s = Some b"
  unfolding nth_line_def by (intro line_at_cond [OF assms(1-3)] line_starts_total) (simp_all add: assms(4))

lemma nth_unix_line_total:
  assumes "view_ok M m" "pk_packet_unix_lines_parsed_complete (ds_packet m)" "k < unat (pk_parsed_unix_lines (ds_packet m))"
    and "length s \<le> Suc n"
  shows "\<exists>b. nth_unix_line M m k n s = Some b"
proof -
  have len: "unat (pk_parsed_unix_lines (ds_packet m)) \<le> length (pk_unix_line (ds_packet m))"
    using assms(1,2) unfolding view_ok_def packet_ok_def unix_ok_def arrays_200_def by auto
  then have "pk_unix_line (ds_packet m) ! k \<in> set (unix_lines_of m)" using assms(3) by (auto simp: in_set_conv_nth intro!: exI [of _ k])
  then have "readable M (ol_ptr (pk_unix_line (ds_packet m) ! k)) (unat (ol_len (pk_unix_line (ds_packet m) ! k)))"
    using parsed_line_readable(2) [OF assms(1,2)] by blast
  then show ?thesis
    unfolding nth_unix_line_def get_line_def using assms(3) len
    by (simp only: if_P order_less_le_trans bind.bind_lunit) (intro cond_total line_starts_total assms(4))
qed

lemma note_both_good: "view_ok M m \<Longrightarrow> good M m (note_both f v m)"
  unfolding note_both_def by (intro good_then note_id_good) simp_all

lemma yahoo_message_total:
  assumes "slack M m 9" "unat (plen m) < 32758"
  shows "\<exists>b. yahoo_message M m = Some b"
proof -
  have "\<exists>b. check_ymsg M m = Some b" if "20 \<le> plen m"
    unfolding check_ymsg_def by (rule ymsg_loop_total [OF assms]) (use that in \<open>simp add: word_le_nat_alt\<close>)
  note loop = this
  show ?thesis
    unfolding yahoo_message_def using assms(1)
    by (intro slack_rules loop) (simp_all add: len_simps del: allM.simps anyM.simps)
qed

lemma yahoo_service_good:
  assumes "view_ok M m" "ds_flow m \<noteq> None" "20 \<le> unat (plen m)"
  shows "good M m (yahoo_service M m)"
  unfolding yahoo_service_def using assms
  by (intro rd_good if_good good_then set_stage_good note_id_good note_both_good add_connection_good good_Some pay_readable) simp_all

lemma yahoo_post_total:
  assumes "view_ok M m" "pk_packet_lines_parsed_complete (ds_packet m)" "100 < unat (plen m)"
  shows "\<exists>b. yahoo_post M m = Some b"
  unfolding yahoo_post_def Let_def using assms
  by (intro cond_total nth_line_total line_starts_total parsed_line_readable(1) [OF assms(1,2)] noted_line_readable [OF assms(1,2)]
        either_has_total pay_reads pay_total)
     (simp_all add: len_simps del: allM.simps anyM.simps)

lemma yahoo_video_end_total:
  assumes "view_ok M m" "a = ds_src m \<or> a = ds_dst m" "pk_tcp (ds_packet m) \<noteq> NULL"
  shows "\<exists>b. yahoo_video_end M a d m = Some b"
proof -
  have "\<exists>b. do { d' \<leftarrow> get_id_field a ''yahoo_video_lan_dir'' m; Some (d' = d) } = Some b" if "a \<noteq> NULL"
    using id_field_total [OF assms(1,2) that, of "''yahoo_video_lan_dir''"] by auto
  note field = this
  show ?thesis
    unfolding yahoo_video_end_def using assms by (intro cond_total field port_total recent_total) simp_all
qed

lemma yahoo_http_good:
  assumes "view_ok M m" "ds_flow m \<noteq> None"
  shows "good M m (yahoo_http M m)"
  unfolding yahoo_http_def Let_def using assms
  by (intro if_good branch_good get_stage_good set_stage_good exclude_good add_connection_good good_Some parse_unix_then
        cond_total nth_unix_line_total) (simp_all add: len_simps)

lemma yahoo_known_good:
  assumes "view_ok M m" "ds_flow m \<noteq> None" "pk_tcp (ds_packet m) \<noteq> NULL"
  shows "good M m (yahoo_known M m)"
proof -
  have image: "\<exists>b. yahoo_image M m = Some b"
    unfolding yahoo_image_def using assms(1) by (intro condition_rules) (simp_all add: value_simps del: allM.simps anyM.simps)
  have bind: "good M m (mem_eq M (pay m) ''<SNDIMG>'' \<bind> f)" if "yahoo_image M m = Some True" "\<And>b. good M m (f b)" for f
  proof -
    have "8 \<le> unat (plen m)" using that(1) by (simp add: yahoo_image_def split: if_splits)
    then show ?thesis by (intro bool_bind_good that(2) pay_total_0 [OF assms(1)]) simp
  qed
  show ?thesis
    unfolding yahoo_known_def Let_def using assms image
    by (intro branch_good bind good_then note_both_good add_connection_good yahoo_http_good yahoo_video_end_total cond_total
          condition_rules) (simp_all add: value_simps del: allM.simps anyM.simps)
qed

lemma yahoo_peer_good:
  assumes "view_ok M m" "ds_flow m \<noteq> None" "pk_tcp (ds_packet m) \<noteq> NULL"
  shows "good M m (yahoo_peer M m)"
  unfolding yahoo_peer_def using assms
  by (intro branch_good add_connection_good yahoo_known_good yahoo_http_good condition_rules)
     (simp_all add: value_simps del: allM.simps anyM.simps)

lemma yahoo_content_good:
  assumes "view_ok M m" "ds_flow m \<noteq> None" "pk_tcp (ds_packet m) \<noteq> NULL"
  shows "good M m (yahoo_content M m)"
  unfolding yahoo_content_def using assms
  by (intro branch_good add_connection_good yahoo_peer_good parse_then nth_line_total line_at_cond condition_rules)
     (simp_all add: value_simps del: allM.simps anyM.simps)

lemma yahoo_web_good:
  assumes "view_ok M m" "ds_flow m \<noteq> None" "pk_tcp (ds_packet m) \<noteq> NULL" "100 < unat (plen m)"
  shows "good M m (yahoo_web M m)"
  unfolding yahoo_web_def yahoo_relay_def Let_def using assms
  by (intro branch_good add_connection_good yahoo_content_good parse_then yahoo_post_total condition_rules)
     (simp_all add: value_simps del: allM.simps anyM.simps)

lemma yahoo_tcp_good:
  assumes "view_ok M m" "ds_flow m \<noteq> None" "pk_tcp (ds_packet m) \<noteq> NULL" "slack M m 9" "unat (plen m) < 32758"
  shows "good M m (ipoque_search_yahoo_tcp M m)"
proof -
  have "20 \<le> unat (plen m)" if "yahoo_message M m = Some True"
    using that by (simp add: yahoo_message_def len_simps split: if_splits)
  note long = this
  show ?thesis
    unfolding ipoque_search_yahoo_tcp_def using assms
    by (intro if_good branch_good get_stage_good good_Some yahoo_service_good yahoo_web_good yahoo_content_good
          yahoo_message_total long) (simp_all add: len_simps)
qed

lemma yahoo_good:
  assumes "view_ok M m" "ds_flow m \<noteq> None" "slack M m 9" "unat (plen m) < 32758"
  shows "good M m (ipoque_search_yahoo M m)"
  unfolding ipoque_search_yahoo_def ipoque_search_yahoo_udp_def Let_def using assms
  by (intro get_stage_good if_good good_then exclude_good good_Some yahoo_tcp_good)
     (simp_all add: slack_def same_windows_def)

end
