(* ===== verification/Ipq_Numbers.thy ===== *)
theory Ipq_Numbers
  imports Ipq_Packet
begin

text \<open>
  The readers of numbers and addresses in payloads (\<^verbatim>\<open>ipq_bytestream_to_number\<close> and its relatives in
  \<^verbatim>\<open>ipq_main.c\<close>) and what they compute.
\<close>

subsection \<open>The readers\<close>

definition is_digit :: "u8 \<Rightarrow> bool" where
  "is_digit c \<longleftrightarrow> 0x30 \<le> c \<and> c \<le> 0x39"

text \<open>\<^verbatim>\<open>while (*str >= '0' && *str <= '9' && max_chars_to_read > 0)\<close>: the byte is read before the bound is
  tested.\<close>

fun number_loop :: "mem \<Rightarrow> addr \<Rightarrow> nat \<Rightarrow> u32 \<Rightarrow> u16 \<Rightarrow> (u32 \<times> u16) option" where
  "number_loop M a 0 val bytes_read = do { _ \<leftarrow> M a; Some (val, bytes_read) }"
| "number_loop M a (Suc n) val bytes_read =
     do { c \<leftarrow> M a;
          if is_digit c then number_loop M (a + 1) n (val * 10 + (ucast c - 0x30)) (bytes_read + 1)
          else Some (val, bytes_read) }"

definition ipq_bytestream_to_number :: "mem \<Rightarrow> addr \<Rightarrow> u16 \<Rightarrow> u16 \<Rightarrow> (u32 \<times> u16) option" where
  "ipq_bytestream_to_number M str mc bytes_read = number_loop M str (unat mc) 0 bytes_read"

text \<open>The 64-bit reader tests the bound first.\<close>

fun number64_loop :: "mem \<Rightarrow> addr \<Rightarrow> nat \<Rightarrow> u64 \<Rightarrow> u16 \<Rightarrow> (u64 \<times> u16) option" where
  "number64_loop M a 0 val bytes_read = Some (val, bytes_read)"
| "number64_loop M a (Suc n) val bytes_read =
     do { c \<leftarrow> M a;
          if is_digit c then number64_loop M (a + 1) n (val * 10 + (ucast c - 0x30)) (bytes_read + 1)
          else Some (val, bytes_read) }"

definition ipq_bytestream_to_number64 :: "mem \<Rightarrow> addr \<Rightarrow> u16 \<Rightarrow> u16 \<Rightarrow> (u64 \<times> u16) option" where
  "ipq_bytestream_to_number64 M str mc bytes_read = number64_loop M str (unat mc) 0 bytes_read"

definition hex_digit :: "u8 \<Rightarrow> nat option" where
  "hex_digit c = (if is_digit c then Some (unat c - 0x30)
     else if 0x61 \<le> c \<and> c \<le> 0x66 then Some (unat c + 10 - 0x61)
     else if 0x41 \<le> c \<and> c \<le> 0x46 then Some (unat c + 10 - 0x41) else None)"

text \<open>The hexadecimal branch: it starts at the prefix \<^verbatim>\<open>0x\<close> and multiplies by ten.\<close>

fun hex_loop :: "mem \<Rightarrow> addr \<Rightarrow> nat \<Rightarrow> 'w::len word \<Rightarrow> u16 \<Rightarrow> ('w word \<times> u16) option" where
  "hex_loop M a 0 val bytes_read = Some (val, bytes_read)"
| "hex_loop M a (Suc n) val bytes_read =
     do { c \<leftarrow> M a;
          case hex_digit c of
            Some d \<Rightarrow> hex_loop M (a + 1) n (val * 10 + of_nat d) (bytes_read + 1)
          | None \<Rightarrow> Some (val, bytes_read) }"

definition has_hex_prefix :: "mem \<Rightarrow> addr \<Rightarrow> u16 \<Rightarrow> bool option" where
  "has_hex_prefix M str mc =
     (if mc \<le> 2 then Some False
      else do { x \<leftarrow> M str; if x \<noteq> 0x30 then Some False else do { y \<leftarrow> M (str + 1); Some (y = 0x78) } })"

definition ipq_bytestream_dec_or_hex_to_number :: "mem \<Rightarrow> addr \<Rightarrow> u16 \<Rightarrow> u16 \<Rightarrow> (u32 \<times> u16) option" where
  "ipq_bytestream_dec_or_hex_to_number M str mc bytes_read =
     do { h \<leftarrow> has_hex_prefix M str mc;
          if h then hex_loop M str (unat (mc + 2)) 0 bytes_read else ipq_bytestream_to_number M str mc bytes_read }"

definition ipq_bytestream_dec_or_hex_to_number64 :: "mem \<Rightarrow> addr \<Rightarrow> u16 \<Rightarrow> u16 \<Rightarrow> (u64 \<times> u16) option" where
  "ipq_bytestream_dec_or_hex_to_number64 M str mc bytes_read =
     do { h \<leftarrow> has_hex_prefix M str mc;
          if h then hex_loop M str (unat (mc + 2)) 0 bytes_read else ipq_bytestream_to_number64 M str mc bytes_read }"

text \<open>One component of a dotted address: the inner \<open>None\<close> is the return of 0. The counter \<^verbatim>\<open>read\<close> is
  both the offset and an argument passed by reference.\<close>

definition ipv4_part :: "mem \<Rightarrow> addr \<Rightarrow> u16 \<Rightarrow> bool \<Rightarrow> u16 \<Rightarrow> (u32 \<times> u16) option option" where
  "ipv4_part M str mc dot oldread =
     do { (c, read) \<leftarrow> ipq_bytestream_to_number M (str + unat oldread) (mc - oldread) oldread;
          if 255 < c \<or> oldread = read \<or> mc = read then Some None
          else if dot
          then do { x \<leftarrow> M (str + unat read); Some (if x \<noteq> 0x2e then None else Some (c, read)) }
          else Some (Some (c, read)) }"

definition ipq_bytestream_to_ipv4 :: "mem \<Rightarrow> addr \<Rightarrow> u16 \<Rightarrow> u16 \<Rightarrow> (u32 \<times> u16) option" where
  "ipq_bytestream_to_ipv4 M str mc bytes_read =
     do { r \<leftarrow> ipv4_part M str mc True 0;
          case r of None \<Rightarrow> Some (0, bytes_read) | Some (c1, read) \<Rightarrow>
     do { r \<leftarrow> ipv4_part M str mc True (read + 1);
          case r of None \<Rightarrow> Some (0, bytes_read) | Some (c2, read) \<Rightarrow>
     do { r \<leftarrow> ipv4_part M str mc True (read + 1);
          case r of None \<Rightarrow> Some (0, bytes_read) | Some (c3, read) \<Rightarrow>
     do { r \<leftarrow> ipv4_part M str mc False (read + 1);
          case r of None \<Rightarrow> Some (0, bytes_read) | Some (c4, read) \<Rightarrow>
          Some (bswap32 (push_bit 24 c1 + push_bit 16 c2 + push_bit 8 c3 + c4), bytes_read + read) }}}}"

subsection \<open>Specification\<close>

definition dec_val :: "bytes \<Rightarrow> nat" where
  "dec_val bs = foldl (\<lambda>v c. 10 * v + (unat c - 0x30)) 0 bs"

definition digits :: "nat \<Rightarrow> bytes \<Rightarrow> bytes" where
  "digits n bs = takeWhile is_digit (take n bs)"

text \<open>The decimal numeral of a number.\<close>

fun dec_bytes :: "nat \<Rightarrow> bytes" where
  "dec_bytes n = (if n < 10 then [of_nat (0x30 + n)] else dec_bytes (n div 10) @ [of_nat (0x30 + n mod 10)])"

declare dec_bytes.simps [simp del]

lemma is_digit_unat: "is_digit c \<longleftrightarrow> 48 \<le> unat c \<and> unat c \<le> 57"
  by (simp add: is_digit_def word_le_nat_alt)

lemma dec_val_snoc: "dec_val (bs @ [c]) = 10 * dec_val bs + (unat c - 0x30)"
  by (simp add: dec_val_def)

lemma unat_digit: "d < 10 \<Longrightarrow> unat (of_nat (0x30 + d) :: u8) = 48 + d"
  by (simp add: unat_of_nat take_bit_eq_mod del: of_nat_add)

lemma dec_bytes_digits: "\<forall>c\<in>set (dec_bytes n). is_digit c"
proof (induction n rule: less_induct)
  case (less n)
  show ?case
  proof (cases "n < 10")
    case True
    then show ?thesis
      by (subst dec_bytes.simps) (simp add: is_digit_unat unat_digit del: of_nat_add)
  next
    case False
    then show ?thesis using less [of "n div 10"]
      by (subst dec_bytes.simps) (auto simp: is_digit_unat unat_digit simp del: of_nat_add)
  qed
qed

lemma dec_bytes_not_Nil: "dec_bytes n \<noteq> []"
  by (subst dec_bytes.simps) simp

lemma dec_val_dec_bytes: "dec_val (dec_bytes n) = n"
proof (induction n rule: less_induct)
  case (less n)
  show ?case
  proof (cases "n < 10")
    case True
    then show ?thesis
      by (subst dec_bytes.simps) (simp add: dec_val_def unat_digit del: of_nat_add)
  next
    case False
    then have "dec_val (dec_bytes (n div 10) @ [of_nat (0x30 + n mod 10)]) = n"
      using less [of "n div 10"] by (simp add: dec_val_snoc unat_digit del: of_nat_add)
    then show ?thesis using False by (subst dec_bytes.simps) simp
  qed
qed

subsection \<open>What the readers compute\<close>

definition dec_from :: "nat \<Rightarrow> bytes \<Rightarrow> nat" where
  "dec_from v bs = foldl (\<lambda>v c. 10 * v + (unat c - 0x30)) v bs"

lemma digit_step:
  assumes "is_digit c"
  shows "(of_nat v :: 'a::len word) * 10 + (ucast c - 0x30) = of_nat (10 * v + (unat c - 0x30))"
proof -
  have "(ucast c :: 'a word) = of_nat (unat c)" by (simp add: unsigned_of_nat)
  moreover have "of_nat (unat c) - (0x30 :: 'a word) = of_nat (unat c - 0x30)"
    using assms by (simp add: is_digit_unat of_nat_diff)
  ultimately show ?thesis by (simp add: mult.commute)
qed

lemma digits_Cons: "digits (Suc n) (c # bs) = (if is_digit c then c # digits n bs else [])"
  by (simp add: digits_def)

lemma number_loop_ok:
  "holds M a bs \<Longrightarrow> length (digits n bs) < length bs \<Longrightarrow>
   number_loop M a n (of_nat v) br = Some (of_nat (dec_from v (digits n bs)), br + of_nat (length (digits n bs)))"
proof (induction n arbitrary: a bs v br)
  case 0
  then show ?case by (cases bs) (auto simp: holds_Cons digits_def dec_from_def)
next
  case (Suc n)
  then obtain c cs where bs: "bs = c # cs" by (cases bs) auto
  show ?case
  proof (cases "is_digit c")
    case True
    then have "number_loop M (Suc a) n (of_nat (10 * v + (unat c - 0x30))) (br + 1)
      = Some (of_nat (dec_from (10 * v + (unat c - 0x30)) (digits n cs)), br + 1 + of_nat (length (digits n cs)))"
      using Suc.prems by (intro Suc.IH) (auto simp: bs holds_Cons digits_Cons)
    then show ?thesis
      using True Suc.prems(1) digit_step [OF True, of v, where 'a = 32]
      by (simp add: bs holds_Cons digits_Cons dec_from_def add.assoc mult.commute)
  next
    case False
    then show ?thesis using Suc.prems(1) by (simp add: bs holds_Cons digits_Cons dec_from_def)
  qed
qed

lemma number64_loop_ok:
  "holds M a bs \<Longrightarrow> n \<le> length bs \<Longrightarrow>
   number64_loop M a n (of_nat v) br = Some (of_nat (dec_from v (digits n bs)), br + of_nat (length (digits n bs)))"
proof (induction n arbitrary: a bs v br)
  case 0
  then show ?case by (simp add: digits_def dec_from_def)
next
  case (Suc n)
  then obtain c cs where bs: "bs = c # cs" by (cases bs) auto
  show ?case
  proof (cases "is_digit c")
    case True
    then have "number64_loop M (Suc a) n (of_nat (10 * v + (unat c - 0x30))) (br + 1)
      = Some (of_nat (dec_from (10 * v + (unat c - 0x30)) (digits n cs)), br + 1 + of_nat (length (digits n cs)))"
      using Suc.prems by (intro Suc.IH) (auto simp: bs holds_Cons)
    then show ?thesis
      using True Suc.prems(1) digit_step [OF True, of v, where 'a = 64]
      by (simp add: bs holds_Cons digits_Cons dec_from_def add.assoc mult.commute)
  next
    case False
    then show ?thesis using Suc.prems(1) by (simp add: bs holds_Cons digits_Cons dec_from_def)
  qed
qed

lemma dec_from_0: "dec_from 0 bs = dec_val bs"
  by (simp add: dec_from_def dec_val_def)

lemma to_number_ok:
  assumes "holds M str bs" "length (digits (unat mc) bs) < length bs"
  shows "ipq_bytestream_to_number M str mc br
    = Some (of_nat (dec_val (digits (unat mc) bs)), br + of_nat (length (digits (unat mc) bs)))"
  using number_loop_ok [OF assms, of 0 br] by (simp add: ipq_bytestream_to_number_def dec_from_0)

lemma to_number64_ok:
  assumes "holds M str bs" "unat mc \<le> length bs"
  shows "ipq_bytestream_to_number64 M str mc br
    = Some (of_nat (dec_val (digits (unat mc) bs)), br + of_nat (length (digits (unat mc) bs)))"
  using number64_loop_ok [OF assms, of 0 br] by (simp add: ipq_bytestream_to_number64_def dec_from_0)

lemma number_loop_overread:
  "holds M a bs \<Longrightarrow> \<forall>c\<in>set bs. is_digit c \<Longrightarrow> M (a + length bs) = None \<Longrightarrow> number_loop M a (length bs) v br = None"
  by (induction bs arbitrary: a v br) (auto simp: holds_Cons)

lemma hex_prefix_stops:
  assumes "has_hex_prefix M str mc = Some True" "2 \<le> n"
  shows "hex_loop M str n 0 br = Some (0, br + 1)"
proof -
  have m: "M str = Some 0x30" "M (str + 1) = Some 0x78"
    using assms(1) by (auto simp: has_hex_prefix_def bind_eq_Some_conv split: if_splits)
  obtain k where "n = Suc (Suc k)" using assms(2) by (metis Suc_le_D numeral_2_eq_2 Suc_le_mono)
  moreover have "hex_digit 0x30 = Some 0" "hex_digit 0x78 = None" by (simp_all add: hex_digit_def is_digit_def)
  ultimately show ?thesis using m by simp
qed

subsection \<open>Dotted addresses\<close>

definition dotted :: "nat \<Rightarrow> nat \<Rightarrow> nat \<Rightarrow> nat \<Rightarrow> bytes" where
  "dotted a b c d = dec_bytes a @ [0x2e] @ dec_bytes b @ [0x2e] @ dec_bytes c @ [0x2e] @ dec_bytes d"

lemma digits_numeral:
  assumes "length (dec_bytes v) \<le> n" "\<not> is_digit t"
  shows "digits n (dec_bytes v @ t # r) = dec_bytes v"
proof (cases "n = length (dec_bytes v)")
  case True
  then show ?thesis using dec_bytes_digits [of v] by (simp add: digits_def takeWhile_eq_all_conv)
next
  case False
  then obtain k where k: "n = length (dec_bytes v) + Suc k" using assms(1) less_imp_Suc_add [of "length (dec_bytes v)" n] by auto
  then have "take n (dec_bytes v @ t # r) = dec_bytes v @ t # take k r" by simp
  then show ?thesis using dec_bytes_digits [of v] assms(2) by (simp add: digits_def takeWhile_append2)
qed

lemma ipv4_part_ok:
  assumes "holds M (str + unat old) (dec_bytes v @ t # r)" "\<not> is_digit t" "v mod 4294967296 < 256" "dot \<longrightarrow> t = 0x2e"
    and "unat old + length (dec_bytes v) < unat mc"
  shows "ipv4_part M str mc dot old = Some (Some (of_nat v, old + of_nat (length (dec_bytes v))))"
proof -
  let ?l = "length (dec_bytes v)"
  have sub: "unat (mc - old) = unat mc - unat old"
    using assms(5) by (intro unat_sub) (simp add: word_le_nat_alt)
  have dg: "digits (unat (mc - old)) (dec_bytes v @ t # r) = dec_bytes v"
    using assms(2,5) sub by (intro digits_numeral) auto
  have num: "ipq_bytestream_to_number M (str + unat old) (mc - old) old = Some (of_nat v, old + of_nat ?l)"
    using to_number_ok [OF assms(1), of "mc - old" old] by (simp add: dg dec_val_dec_bytes)
  have len: "?l > 0" using dec_bytes_not_Nil by simp
  have un: "unat (old + of_nat ?l) = unat old + ?l"
    using assms(5) unat_u16_less [of mc] by (simp add: unat_word_ariths unat_of_nat take_bit_eq_mod)
  have "old \<noteq> old + of_nat ?l" "mc \<noteq> old + of_nat ?l" using un len assms(5) by (metis less_add_same_cancel1 nat_neq_iff)+
  moreover have "\<not> (255 :: u32) < of_nat v"
    using assms(3) by (simp add: word_less_nat_alt unat_of_nat take_bit_eq_mod)
  moreover have "M (str + unat (old + of_nat ?l)) = Some t"
    using assms(1) by (simp add: un holds_append holds_Cons add.assoc)
  ultimately show ?thesis using assms(4) by (simp add: ipv4_part_def num)
qed

text \<open>The range check is applied to a component that has already wrapped around.\<close>

lemma to_ipv4_dotted:
  assumes "a mod 4294967296 < 256" "b mod 4294967296 < 256" "c mod 4294967296 < 256" "d mod 4294967296 < 256" "\<not> is_digit t"
    and "holds M str (dotted a b c d @ [t])" "length (dotted a b c d) < unat mc"
  shows "ipq_bytestream_to_ipv4 M str mc br =
    Some (bswap32 (push_bit 24 (of_nat a) + push_bit 16 (of_nat b) + push_bit 8 (of_nat c) + of_nat d),
          br + of_nat (length (dotted a b c d)))"
proof -
  let ?la = "length (dec_bytes a)" and ?lb = "length (dec_bytes b)" and ?lc = "length (dec_bytes c)" and ?ld = "length (dec_bytes d)"
  have nd: "\<not> is_digit 0x2e" by (simp add: is_digit_def)
  have len: "?la + ?lb + ?lc + ?ld + 3 < unat mc" using assms(7) by (simp add: dotted_def)
  have mc: "unat mc < 65536" by (rule unat_u16_less)
  define r1 r2 r3 r4 :: u16 where "r1 = of_nat ?la" and "r2 = r1 + 1 + of_nat ?lb" and "r3 = r2 + 1 + of_nat ?lc"
    and "r4 = r3 + 1 + of_nat ?ld"
  have r: "r1 = of_nat ?la" "r1 + 1 = of_nat (?la + 1)" "r2 = of_nat (?la + 1 + ?lb)" "r2 + 1 = of_nat (?la + 1 + ?lb + 1)"
    "r3 = of_nat (?la + 1 + ?lb + 1 + ?lc)" "r3 + 1 = of_nat (?la + 1 + ?lb + 1 + ?lc + 1)"
    by (simp_all add: r1_def r2_def r3_def)
  have u: "unat (r1 + 1) = ?la + 1" "unat (r2 + 1) = ?la + 1 + ?lb + 1" "unat (r3 + 1) = ?la + 1 + ?lb + 1 + ?lc + 1"
    unfolding r(2,4,6) using len mc by (intro unat_of_nat_u16; simp)+
  have h: "holds M (str + unat (0 :: u16)) (dec_bytes a @ 0x2e # dec_bytes b @ [0x2e] @ dec_bytes c @ [0x2e] @ dec_bytes d @ [t])"
    "holds M (str + unat (r1 + 1)) (dec_bytes b @ 0x2e # dec_bytes c @ [0x2e] @ dec_bytes d @ [t])"
    "holds M (str + unat (r2 + 1)) (dec_bytes c @ 0x2e # dec_bytes d @ [t])"
    "holds M (str + unat (r3 + 1)) (dec_bytes d @ t # [])"
    using assms(6) by (simp_all add: u dotted_def holds_append holds_Cons add.assoc add.left_commute)
  have p1: "ipv4_part M str mc True 0 = Some (Some (of_nat a, r1))"
    using ipv4_part_ok [OF h(1) nd assms(1)] len by (simp add: r1_def)
  have p2: "ipv4_part M str mc True (r1 + 1) = Some (Some (of_nat b, r2))"
    using ipv4_part_ok [OF h(2) nd assms(2), of True mc] len by (simp add: u r2_def)
  have p3: "ipv4_part M str mc True (r2 + 1) = Some (Some (of_nat c, r3))"
    using ipv4_part_ok [OF h(3) nd assms(3), of True mc] len by (simp add: u r3_def)
  have p4: "ipv4_part M str mc False (r3 + 1) = Some (Some (of_nat d, r4))"
    using ipv4_part_ok [OF h(4) assms(5,4), of False mc] len by (simp add: u r4_def)
  have "r4 = of_nat (length (dotted a b c d))"
    by (simp add: r4_def r3_def r2_def r1_def dotted_def)
  then show ?thesis by (simp add: ipq_bytestream_to_ipv4_def p1 p2 p3 p4)
qed

lemma hex_reader_zero:
  assumes "has_hex_prefix M str mc = Some True" "mc \<le> 65533"
  shows "ipq_bytestream_dec_or_hex_to_number M str mc br = Some (0, br + 1)"
    "ipq_bytestream_dec_or_hex_to_number64 M str mc br = Some (0, br + 1)"
proof -
  have "2 < mc" using assms(1) by (auto simp: has_hex_prefix_def not_le split: if_splits)
  have "uint (mc + 2) = uint mc + 2"
    unfolding uint_word_ariths using assms(2) by (simp add: word_le_def)
  then have "2 \<le> unat (mc + 2)" unfolding unat_eq_nat_uint using uint_ge_0 [of mc] by linarith
  then show "ipq_bytestream_dec_or_hex_to_number M str mc br = Some (0, br + 1)"
    "ipq_bytestream_dec_or_hex_to_number64 M str mc br = Some (0, br + 1)"
    using hex_prefix_stops [OF assms(1)] assms(1)
    by (simp_all add: ipq_bytestream_dec_or_hex_to_number_def ipq_bytestream_dec_or_hex_to_number64_def)
qed

end
