(* ===== verification/Ipq_Transfers.thy ===== *)
theory Ipq_Transfers
  imports Ipq_Loops Ipq_Numbers
begin

text \<open>
  Dissectors that read numbers and addresses from the payload, or look behind an empty line: Thunder, Zattoo, FTP and
  Jabber. The number readers test the bound after the byte, so that each of them needs some slack.
\<close>

subsection \<open>The readers return\<close>

lemma number_loop_total:
  "readable M a (Suc n) \<Longrightarrow> \<exists>v j. number_loop M a n val br = Some (v, br + of_nat j) \<and> j \<le> n"
proof (induction n arbitrary: a val br)
  case 0
  then obtain c where "M a = Some c" using readable_at [of M a 1 a] by auto
  then show ?case by (auto intro: exI [of _ 0])
next
  case (Suc n)
  obtain c where c: "M a = Some c" using readable_at [OF Suc.prems, of a] by auto
  show ?case
  proof (cases "is_digit c")
    case True
    obtain v j where "number_loop M (a + 1) n (val * 10 + (ucast c - 0x30)) (br + 1) = Some (v, br + 1 + of_nat j)" "j \<le> n"
      using Suc.IH [of "a + 1" "val * 10 + (ucast c - 0x30)" "br + 1"] readable_sub [OF Suc.prems, of "a + 1" "Suc n"] by auto
    then show ?thesis using c True by (auto intro!: exI [of _ "Suc j"] simp: add.assoc)
  qed (use c in \<open>auto intro: exI [of _ 0]\<close>)
qed

lemma to_number_total:
  assumes "readable M a (Suc (unat mc))" "unat br + unat mc < 65536"
  shows "\<exists>v r. ipq_bytestream_to_number M a mc br = Some (v, r) \<and> unat br \<le> unat r \<and> unat r \<le> unat br + unat mc"
proof -
  obtain v j where j: "number_loop M a (unat mc) 0 br = Some (v, br + of_nat j)" "j \<le> unat mc"
    using number_loop_total [OF assms(1)] by blast
  moreover have "unat (br + of_nat j) = unat br + j"
    using j(2) assms(2) by (simp add: unat_word_ariths unat_of_nat take_bit_eq_mod)
  ultimately show ?thesis by (simp add: ipq_bytestream_to_number_def)
qed

lemma u16_sub: "unat (a :: u16) \<le> unat b \<Longrightarrow> unat (b - a) = unat b - unat a"
  by (simp add: unat_sub word_le_nat_alt)

lemma ipv4_part_total:
  assumes "readable M str (Suc (unat mc))" "unat old \<le> unat mc"
  shows "\<exists>r. ipv4_part M str mc dot old = Some r \<and> (\<forall>c read. r = Some (c, read) \<longrightarrow> unat (read + 1) \<le> unat mc)"
proof -
  have "readable M (str + unat old) (Suc (unat (mc - old)))"
    by (rule readable_sub [OF assms(1)]) (use assms(2) in \<open>simp_all add: u16_sub\<close>)
  moreover have "unat old + unat (mc - old) < 65536" using assms(2) unat_u16_less [of mc] by (simp add: u16_sub)
  ultimately obtain v r where r: "ipq_bytestream_to_number M (str + unat old) (mc - old) old = Some (v, r)"
    "unat r \<le> unat old + unat (mc - old)"
    using to_number_total by blast
  then have le: "unat r \<le> unat mc" using assms(2) by (simp add: u16_sub)
  then obtain x where "M (str + unat r) = Some x" using readable_at [OF assms(1), of "str + unat r"] by auto
  moreover have "unat (r + 1) \<le> unat mc" if "mc \<noteq> r"
  proof -
    have "unat r \<noteq> unat mc" using that by (metis word_unat_eq_iff)
    then have "unat r < unat mc" using le by simp
    then show ?thesis using unat_u16_less [of mc] by (simp add: unat_word_ariths)
  qed
  ultimately show ?thesis using r(1) by (auto simp: ipv4_part_def)
qed

lemma to_ipv4_total:
  assumes "readable M str (Suc (unat mc))"
  shows "\<exists>v r. ipq_bytestream_to_ipv4 M str mc br = Some (v, r)"
proof -
  have part: "\<exists>v r. (ipv4_part M str mc dot old \<bind> f) = Some (v, r)"
    if "unat old \<le> unat mc" "\<exists>v r. f None = Some (v, r)"
      "\<And>c read. unat (read + 1) \<le> unat mc \<Longrightarrow> \<exists>v r. f (Some (c, read)) = Some (v, r)"
    for dot old and f :: "(u32 \<times> u16) option \<Rightarrow> (u32 \<times> u16) option"
  proof -
    note part = ipv4_part_total [OF assms that(1), of dot]
    obtain r where r: "ipv4_part M str mc dot old = Some r" "\<forall>c read. r = Some (c, read) \<longrightarrow> unat (read + 1) \<le> unat mc"
      using part by blast
    then show ?thesis using that(2,3) by (cases r) auto
  qed
  show ?thesis
    unfolding ipq_bytestream_to_ipv4_def by (rule part, simp, simp, simp only: option.case prod.case)+ simp
qed

subsection \<open>Thunder\<close>

text \<open>Hosts and times: a detection renews the time of both hosts.\<close>

definition timed_add :: "nat \<Rightarrow> string \<Rightarrow> detection_module \<Rightarrow> detection_module option" where
  "timed_add proto f m = do { m \<leftarrow> ipoque_int_add_connection proto m; note_both f (unat (now m)) m }"

definition thunder_segment :: "mem \<Rightarrow> detection_module \<Rightarrow> bool option" where
  "thunder_segment M m =
     allM [Some (8 < plen m), byte_is M (pay m) (\<lambda>x. 0x30 \<le> x \<and> x < 0x40), bytes_at M (pay m + 1) [0, 0, 0]]"

definition thunder_staged :: "mem \<Rightarrow> (detection_module \<Rightarrow> detection_module option) \<Rightarrow> detection_module \<Rightarrow> detection_module option" where
  "thunder_staged M next m =
     branch (thunder_segment M m)
       (do { stage \<leftarrow> get_stage ''thunder_stage'' m;
             if stage = 3 then timed_add IPOQUE_PROTOCOL_THUNDER ''thunder_ts'' m else set_stage ''thunder_stage'' (stage + 1) m })
       (next m)"

definition int_search_thunder_udp :: "mem \<Rightarrow> detection_module \<Rightarrow> detection_module option" where
  "int_search_thunder_udp M m = thunder_staged M (exclude IPOQUE_PROTOCOL_THUNDER) m"

text \<open>
  The body of a request. The bound tests \<^verbatim>\<open>empty_line_position_set\<close>, a flag, where it means the position of the line.
\<close>

definition thunder_body :: "mem \<Rightarrow> detection_module \<Rightarrow> bool option" where
  "thunder_body M m =
     (let pk = ds_packet m; c = pk_content_line pk; e = pay m + unat (pk_empty_line_position pk) in
      allM [Some (pk_empty_line_position_set pk), Some (ol_ptr c \<noteq> NULL), Some (ol_len c = 24),
            mem_eq M (ol_ptr c) ''application/octet-stream'', Some (1 < unat (plen m) - 8),
            byte_is M (e + 2) (\<lambda>x. 0x30 \<le> x \<and> x < 0x40), bytes_at M (e + 3) [0, 0, 0]])"

definition int_search_thunder_tcp :: "mem \<Rightarrow> detection_module \<Rightarrow> detection_module option" where
  "int_search_thunder_tcp M m =
     thunder_staged M (\<lambda>m. do {
       stage \<leftarrow> get_stage ''thunder_stage'' m;
       branch (allM [Some (stage = 0), Some (17 < plen m), mem_eq M (pay m) (''POST / HTTP/1.1'' @ [CHR 0x0d, CHR 0x0a])])
         (do { m \<leftarrow> parse_lines M m;
               branch (thunder_body M m) (timed_add IPOQUE_PROTOCOL_THUNDER ''thunder_ts'' m) (exclude IPOQUE_PROTOCOL_THUNDER m) })
         (exclude IPOQUE_PROTOCOL_THUNDER m) }) m"

definition thunder_browser :: "mem \<Rightarrow> detection_module \<Rightarrow> bool option" where
  "thunder_browser M m =
     (let a = pk_user_agent_line (ds_packet m) in
      allM [Some (7 < pk_parsed_lines (ds_packet m)), Some (pk_parsed_lines (ds_packet m) < 11),
            nth_line M m 1 10 ''Accept: */*'', nth_line M m 2 22 ''Cache-Control: no-cache'', nth_line M m 3 16 ''Connection: close'',
            nth_line M m 4 6 ''Host: '', nth_line M m 5 15 ''Pragma: no-cache'', Some (ol_ptr a \<noteq> NULL),
            line_starts M a 49 ''Mozilla/4.0 (compatible; MSIE 6.0; Windows NT 5.0)''])"

definition int_search_thunder_http :: "mem \<Rightarrow> detection_module \<Rightarrow> detection_module option" where
  "int_search_thunder_http M m =
     (let timeout = ds_config m ''thunder_timeout''; renew = (\<lambda>a. note_id a ''thunder_ts'' (unat (now m)) m) in
      if detected IPOQUE_PROTOCOL_THUNDER m
      then branch (recent (ds_src m) ''thunder_ts'' timeout m) (renew (ds_src m))
          (branch (recent (ds_dst m) ''thunder_ts'' timeout m) (renew (ds_dst m)) (Some m))
      else branch (allM [Some (5 < plen m), mem_eq M (pay m) ''GET /'', either_has IPOQUE_PROTOCOL_THUNDER m])
        (do { m \<leftarrow> parse_lines M m;
              branch (thunder_browser M m) (timed_add IPOQUE_PROTOCOL_THUNDER ''thunder_ts'' m) (Some m) })
        (Some m))"

definition ipoque_search_thunder :: "mem \<Rightarrow> detection_module \<Rightarrow> detection_module option" where
  "ipoque_search_thunder M m =
     (if pk_tcp (ds_packet m) \<noteq> NULL then do { m \<leftarrow> int_search_thunder_http M m; int_search_thunder_tcp M m }
      else if pk_udp (ds_packet m) \<noteq> NULL then int_search_thunder_udp M m else Some m)"

lemma timed_add_good:
  assumes "view_ok M m" "ds_flow m \<noteq> None" "p < 128"
  shows "good M m (timed_add p f m)"
  unfolding timed_add_def using assms by (intro good_then add_connection_good note_both_good) simp_all

lemma thunder_segment_total: "view_ok M m \<Longrightarrow> \<exists>b. thunder_segment M m = Some b"
  unfolding thunder_segment_def by (intro condition_rules) (simp_all add: value_simps del: allM.simps anyM.simps)

lemma thunder_staged_good:
  assumes "view_ok M m" "ds_flow m \<noteq> None" "good M m (next m)"
  shows "good M m (thunder_staged M next m)"
  unfolding thunder_staged_def using assms
  by (intro branch_good get_stage_good if_good timed_add_good set_stage_good thunder_segment_total) simp_all

lemma thunder_body_total:
  assumes "view_ok M m" "pk_packet_lines_parsed_complete (ds_packet m)" "slack M m 4"
  shows "\<exists>b. thunder_body M m = Some b"
proof -
  let ?e = "unat (pk_empty_line_position (ds_packet m))" and ?c = "pk_content_line (ds_packet m)"
  have e: "?e + 2 \<le> unat (plen m)" if "pk_empty_line_position_set (ds_packet m)"
    using assms(1,2) that unfolding view_ok_def packet_ok_def lines_ok_def by blast
  have c: "\<exists>b. mem_eq M (ol_ptr ?c) ''application/octet-stream'' = Some b" if "ol_ptr ?c \<noteq> NULL" "ol_len ?c = 24"
    by (rule mem_eq_total [OF readable_mono [OF noted_line_readable(2) [OF assms(1,2) that(1)]]]) (simp add: that(2))
  show ?thesis
    unfolding thunder_body_def Let_def add.assoc
    by (intro cond_total byte_is_total bytes_at_total c slack_readable [OF assms(3)]) (use e in simp_all)
qed

lemma thunder_tcp_good:
  assumes "view_ok M m" "ds_flow m \<noteq> None" "slack M m 4"
  shows "good M m (int_search_thunder_tcp M m)"
  unfolding int_search_thunder_tcp_def using assms
  by (intro thunder_staged_good get_stage_good branch_good parse_then exclude_good timed_add_good thunder_body_total condition_rules)
     (simp_all add: value_simps slack_def del: allM.simps anyM.simps)

lemma thunder_http_good:
  assumes "view_ok M m" "ds_flow m \<noteq> None"
  shows "good M m (int_search_thunder_http M m)"
proof -
  have "\<exists>b. thunder_browser M m' = Some b" if "view_ok M m'" "pk_packet_lines_parsed_complete (ds_packet m')" for m'
    unfolding thunder_browser_def Let_def using that
    by (intro cond_total nth_line_total line_starts_total noted_line_readable [OF that]) (simp_all add: len_simps)
  note browser = this
  show ?thesis
    unfolding int_search_thunder_http_def Let_def using assms
    by (intro if_good branch_good parse_then note_id_good good_Some timed_add_good recent_total browser condition_rules)
       (simp_all add: value_simps del: allM.simps anyM.simps)
qed

lemma thunder_good:
  assumes "view_ok M m" "ds_flow m \<noteq> None" "slack M m 4"
  shows "good M m (ipoque_search_thunder M m)"
  unfolding ipoque_search_thunder_def int_search_thunder_udp_def using assms
  by (intro if_good good_then thunder_http_good thunder_tcp_good thunder_staged_good exclude_good good_Some)
     (simp_all add: slack_def same_windows_def)

subsection \<open>Zattoo\<close>

definition zattoo_page :: "mem \<Rightarrow> detection_module \<Rightarrow> bool option" where
  "zattoo_page M m =
     anyM [allM [Some (50 < plen m), mem_eq M (pay m) ''GET /frontdoor/fd?brand=Zattoo&v=''],
           allM [Some (50 < plen m), mem_eq M (pay m) ''GET /ZattooAdRedirect/redirect.jsp?user='']]"

definition zattoo_update :: "mem \<Rightarrow> detection_module \<Rightarrow> bool option" where
  "zattoo_update M m =
     allM [Some (50 < plen m), anyM [mem_eq M (pay m) ''POST /channelserver/player/channel/update HTTP/1.1'',
           mem_eq M (pay m) ''GET /epg/query'']]"

definition zattoo_hello :: "mem \<Rightarrow> addr \<Rightarrow> bool option" where
  "zattoo_hello M a = bytes_at M a [0x03, 0x04, 0x00, 0x04, 0x0a, 0x00]"

text \<open>A request to the address of the destination, written in digits, with the greeting behind its empty line.\<close>

definition zattoo_proxy :: "mem \<Rightarrow> detection_module \<Rightarrow> bool option" where
  "zattoo_proxy M m =
     (let pk = ds_packet m; e = unat (pk_empty_line_position pk) in
      if pk_parsed_lines pk = 4 \<and> ol_ptr (pk_host_line pk) \<noteq> NULL
      then do { (ip, _) \<leftarrow> ipq_bytestream_to_ipv4 M (pay m + 12) (plen m) 0;
                daddr \<leftarrow> ip_addr M m 16;
                allM [Some (ip = daddr), Some (pk_empty_line_position_set pk), Some (e + 10 < unat (plen m)),
                      zattoo_hello M (pay m + (e + 2))] }
      else Some False)"

text \<open>The stages: 1 and 2 after a greeting, 3 and 4 after the first long answer; 5 and above are never set.\<close>

definition zattoo_stages :: "mem \<Rightarrow> detection_module \<Rightarrow> detection_module option" where
  "zattoo_stages M m =
     (let n = unat (plen m); add = timed_add IPOQUE_PROTOCOL_ZATTOO ''zattoo_ts'' m; out = exclude IPOQUE_PROTOCOL_ZATTOO m;
          to = (\<lambda>s. set_stage ''zattoo_stage'' s m); start = allM [Some (50 < n), bytes_at M (pay m) [0x03, 0x04]] in
      do { stage \<leftarrow> get_stage ''zattoo_stage'' m;
           if stage = 0 then branch (allM [Some (50 < n), zattoo_hello M (pay m)]) (to (1 + dirn m)) out
           else branch (allM [Some (stage = 2 - dirn m), start]) add
               (if stage = 1 + dirn m
                then branch (allM [Some (500 < n), bytes_at M (pay m) [0, 0]]) (to (3 + dirn m)) (Some m)
                else branch (allM [Some (stage = 4 - dirn m), start]) add
                    (if stage = 5 + dirn m \<and> n = 125 then add
                     else if stage = 6 - dirn m \<and> n = 1412 then add else out)) })"

definition zattoo_tcp :: "mem \<Rightarrow> detection_module \<Rightarrow> detection_module option" where
  "zattoo_tcp M m =
     (let add = timed_add IPOQUE_PROTOCOL_ZATTOO ''zattoo_ts''; out = exclude IPOQUE_PROTOCOL_ZATTOO in
      branch (zattoo_page M m) (add m)
     (branch (zattoo_update M m)
        (do { m \<leftarrow> parse_lines M m;
              branch (anyM (List.map (\<lambda>l. line_starts M l 17 ''User-Agent: Zattoo'') (lines_of m))) (add m) (out m) })
     (branch (allM [Some (50 < plen m), mem_eq M (pay m) ''POST http://''])
        (do { m \<leftarrow> parse_lines M m; branch (zattoo_proxy M m) (add m) (out m) })
        (zattoo_stages M m))))"

definition zattoo_udp :: "mem \<Rightarrow> detection_module \<Rightarrow> detection_module option" where
  "zattoo_udp M m =
     (let udp = pk_udp (ds_packet m) in
      branch (allM [Some (20 < plen m), anyM [dest_is M udp ((=) 5003), source_is M udp ((=) 5003)],
               anyM [half_is M (pay m) (\<lambda>x. x \<in> {0x037a, 0x0378, 0x0305}), word_is M (pay m) (\<lambda>x. x \<in> {0x03040004, 0x03010005})]])
        (do { stage \<leftarrow> get_stage ''zattoo_stage'' m;
              m \<leftarrow> set_stage ''zattoo_stage'' ((stage + 1) mod 8) m;
              if (stage + 1) mod 8 = 2 then timed_add IPOQUE_PROTOCOL_ZATTOO ''zattoo_ts'' m else Some m })
        (exclude IPOQUE_PROTOCOL_ZATTOO m))"

definition zattoo_renew :: "addr \<Rightarrow> detection_module \<Rightarrow> detection_module option" where
  "zattoo_renew a m =
     branch (recent a ''zattoo_ts'' (ds_config m ''zattoo_connection_timeout'') m) (note_id a ''zattoo_ts'' (unat (now m)) m) (Some m)"

definition ipoque_search_zattoo_tcp :: "mem \<Rightarrow> detection_module \<Rightarrow> detection_module option" where
  "ipoque_search_zattoo_tcp M m =
     (if detected IPOQUE_PROTOCOL_ZATTOO m then do { m \<leftarrow> zattoo_renew (ds_src m) m; zattoo_renew (ds_dst m) m }
      else if pk_tcp (ds_packet m) \<noteq> NULL then zattoo_tcp M m
      else if pk_udp (ds_packet m) \<noteq> NULL then zattoo_udp M m
      else exclude IPOQUE_PROTOCOL_ZATTOO m)"

lemma zattoo_proxy_total:
  assumes "view_ok M m" "slack M m 13" "12 \<le> unat (plen m)" "pk_tcp (ds_packet m) \<noteq> NULL"
  shows "\<exists>b. zattoo_proxy M m = Some b"
proof -
  have "readable M (pay m + 12) (Suc (unat (plen m)))" by (rule slack_readable [OF assms(2)]) simp
  then obtain ip r where ip: "ipq_bytestream_to_ipv4 M (pay m + 12) (plen m) 0 = Some (ip, r)" using to_ipv4_total by blast
  obtain d where d: "ip_addr M m 16 = Some d" using iph_total(3) [OF assms(1), of 16] assms(4) by auto
  show ?thesis
    unfolding zattoo_proxy_def zattoo_hello_def Let_def ip d bind.bind_lunit prod.case using assms(1)
    by (intro cond_total bytes_at_total pay_readable) simp_all
qed

lemma zattoo_stages_good:
  assumes "view_ok M m" "ds_flow m \<noteq> None"
  shows "good M m (zattoo_stages M m)"
  unfolding zattoo_stages_def zattoo_hello_def Let_def using assms
  by (intro get_stage_good if_good branch_good set_stage_good exclude_good timed_add_good good_Some condition_rules)
     (simp_all add: value_simps del: allM.simps anyM.simps)

lemma zattoo_tcp_good:
  assumes "view_ok M m" "ds_flow m \<noteq> None" "pk_tcp (ds_packet m) \<noteq> NULL" "slack M m 13"
  shows "good M m (zattoo_tcp M m)"
  unfolding zattoo_tcp_def zattoo_page_def zattoo_update_def Let_def using assms
  by (intro branch_good parse_then exclude_good timed_add_good zattoo_stages_good zattoo_proxy_total condition_rules
        parsed_line_readable(1)) (simp_all add: value_simps slack_def del: allM.simps anyM.simps)

lemma zattoo_udp_good:
  assumes "view_ok M m" "ds_flow m \<noteq> None" "pk_udp (ds_packet m) \<noteq> NULL"
  shows "good M m (zattoo_udp M m)"
  unfolding zattoo_udp_def Let_def using assms
  by (intro branch_good get_stage_good set_stage_good good_then if_good exclude_good timed_add_good good_Some condition_rules)
     (simp_all add: value_simps del: allM.simps anyM.simps)

lemma zattoo_good:
  assumes "view_ok M m" "ds_flow m \<noteq> None" "slack M m 13"
  shows "good M m (ipoque_search_zattoo_tcp M m)"
proof -
  have "good M m' (zattoo_renew a m')" if "view_ok M m'" "a = ds_src m' \<or> a = ds_dst m'" for m' a
    unfolding zattoo_renew_def using that by (intro branch_good note_id_good good_Some recent_total)
  note renew = this
  show ?thesis
    unfolding ipoque_search_zattoo_tcp_def using assms
    by (intro if_good good_then renew zattoo_tcp_good zattoo_udp_good exclude_good) simp_all
qed

subsection \<open>FTP\<close>

text \<open>Addresses of the IP header as numbers; a host notes the address of the other end of the next data connection.\<close>

definition ip_number :: "mem \<Rightarrow> detection_module \<Rightarrow> nat \<Rightarrow> u32 option" where
  "ip_number M m off = (if pk_iph (ds_packet m) = NULL then None else rd32be M (pk_iph (ds_packet m) + off))"

definition ftp_expect :: "addr \<Rightarrow> u32 \<Rightarrow> detection_module \<Rightarrow> detection_module option" where
  "ftp_expect a ip m =
     do { m \<leftarrow> note_id a ''ftp_ip'' (unat ip) m; m \<leftarrow> note_id a ''ftp_timer'' (unat (now m)) m; note_id a ''ftp_timer_set'' 1 m }"

definition ftp_expect_at :: "mem \<Rightarrow> addr \<Rightarrow> nat \<Rightarrow> detection_module \<Rightarrow> detection_module option" where
  "ftp_expect_at M a off m = (if a = NULL then Some m else do { ip \<leftarrow> ip_number M m off; ftp_expect a ip m })"

text \<open>\<open>next\<close> is what follows when the function returns 0; it returns after every other path.\<close>

definition search_ftp ::
    "mem \<Rightarrow> (detection_module \<Rightarrow> detection_module option) \<Rightarrow> detection_module \<Rightarrow> detection_module option" where
  "search_ftp M next m =
     (let banner = allM [Some (2 < plen m), mem_eq M (pay m) ''220'']; add = ipoque_int_add_connection IPOQUE_PROTOCOL_FTP m in
      do { stage \<leftarrow> get_stage ''ftp_stage'' m;
           branch (allM [Some (stage = 0), banner]) (set_stage ''ftp_stage'' (1 + dirn m) m)
          (branch (allM [Some (stage = 1 + dirn m), anyM [counter_is m (\<lambda>c. c \<le> 10), banner]]) (Some m)
          (branch (allM [Some (stage = 2 - dirn m), Some (4 < plen m), anyM [mem_eq M (pay m) ''USER '', mem_eq M (pay m) ''user '']]) add
          (branch (allM [Some (stage = 2 - dirn m), Some (4 < plen m), anyM [mem_eq M (pay m) ''FEAT'', mem_eq M (pay m) ''feat'']])
             (set_stage ''ftp_stage'' (3 + dirn m) m)
          (branch (allM [Some (stage = 4 - dirn m), Some (5 < plen m), mem_eq M (pay m) ''211-'']) add (next m))))) })"

text \<open>Four numbers, each with a comma behind it; the inner \<open>None\<close> is a return.\<close>

fun ftp_address :: "mem \<Rightarrow> detection_module \<Rightarrow> nat \<Rightarrow> u16 \<Rightarrow> u32 \<Rightarrow> u32 option option" where
  "ftp_address M m 0 p ip = Some (Some ip)"
| "ftp_address M m (Suc i) p ip =
     do { (v, p') \<leftarrow> ipq_bytestream_to_number M (pay m + unat p) (plen m - p) p;
          if p' = p \<or> plen m \<le> p' then Some None
          else do { x \<leftarrow> M (pay m + unat p');
                    if x \<noteq> 0x2c then Some None else ftp_address M m i (p' + 1) (push_bit 8 ip + v) } }"

definition ftp_passive :: "mem \<Rightarrow> detection_module \<Rightarrow> bool option" where
  "ftp_passive M m =
     anyM [allM [Some (30 < plen m), anyM [mem_eq M (pay m) ''227 Entering Passive Mode'', mem_eq M (pay m) ''227 Entering passive mode'']],
           allM [Some (4 < plen m), mem_eq M (pay m) ''227 ='']]"

text \<open>The bracket: the first byte from \<open>start\<close> that is no space.\<close>

definition ftp_bracket :: "mem \<Rightarrow> detection_module \<Rightarrow> nat option option" where
  "ftp_bracket M m =
     do { equals \<leftarrow> allM [Some (4 < plen m), mem_eq M (pay m) ''227 =''];
          r \<leftarrow> first_index (\<lambda>k. byte_is M (pay m + k) ((\<noteq>) 0x20)) (if equals then 5 else 26) (unat (plen m));
          case r of None \<Rightarrow> Some None
          | Some k \<Rightarrow> do { b \<leftarrow> byte_is M (pay m + k) ((=) 0x28);
                            Some (if b \<and> k + 1 < unat (plen m) then Some (k + 1) else None) } }"

definition search_passive_ftp_mode :: "mem \<Rightarrow> detection_module \<Rightarrow> detection_module option" where
  "search_passive_ftp_mode M m =
     branch (ftp_passive M m)
       (do { r \<leftarrow> ftp_bracket M m;
             case r of None \<Rightarrow> Some m
             | Some k \<Rightarrow> do {
                 a \<leftarrow> ftp_address M m 4 (of_nat k) 0;
                 case a of None \<Rightarrow> Some m
                 | Some ip \<Rightarrow> do { m \<leftarrow> ftp_expect (ds_dst m) ip m; ftp_expect_at M (ds_src m) 16 m } } })
    (branch (allM [Some (34 < plen m), mem_eq M (pay m) ''229 Entering Extended Passive Mode''])
       (do { m \<leftarrow> ftp_expect_at M (ds_dst m) 12 m; ftp_expect_at M (ds_src m) 16 m })
       (Some m))"

definition search_active_ftp_mode :: "mem \<Rightarrow> detection_module \<Rightarrow> detection_module option" where
  "search_active_ftp_mode M m =
     branch (allM [Some (5 < plen m), anyM [mem_eq M (pay m) ''PORT '', mem_eq M (pay m) ''EPRT '']])
       (do { m \<leftarrow> ftp_expect_at M (ds_src m) 16 m; ftp_expect_at M (ds_dst m) 12 m }) (Some m)"

text \<open>The first packet of a data connection, to the address the host expects.\<close>

definition ftp_expected :: "mem \<Rightarrow> addr \<Rightarrow> nat \<Rightarrow> detection_module \<Rightarrow> bool option" where
  "ftp_expected M a off m =
     (let tcp = pk_tcp (ds_packet m) in
      if a = NULL then Some False
      else do { ip \<leftarrow> get_id_field a ''ftp_ip'' m;
                armed \<leftarrow> get_id_field a ''ftp_timer_set'' m;
                allM [ip_addr_is M m off (\<lambda>x. unat x = ip), tcp_syn M tcp, notM (tcp_ack M tcp), Some (detected IPOQUE_PROTOCOL_UNKNOWN m),
                      id_has_protocol a IPOQUE_PROTOCOL_FTP m, Some (armed \<noteq> 0)] })"

definition ftp_data ::
    "mem \<Rightarrow> addr \<Rightarrow> nat \<Rightarrow> (detection_module \<Rightarrow> detection_module option) \<Rightarrow> detection_module \<Rightarrow> detection_module option" where
  "ftp_data M a off next m =
     (let tcp = pk_tcp (ds_packet m) in
      branch (ftp_expected M a off m)
        (branch (recent a ''ftp_timer'' (ds_config m ''ftp_connection_timeout'') m)
          (branch (allM [dest_is M tcp (\<lambda>p. 1024 < p), source_is M tcp (\<lambda>p. 1024 < p \<or> p = 20)])
             (ipoque_int_add_connection IPOQUE_PROTOCOL_FTP m) (next m))
          (do { m \<leftarrow> note_id a ''ftp_timer_set'' 0 m; next m }))
        (next m))"

definition ftp_control :: "mem \<Rightarrow> detection_module \<Rightarrow> detection_module option" where
  "ftp_control M m =
     (if plen m = 0 then Some m
      else if detected IPOQUE_PROTOCOL_FTP m then do { m \<leftarrow> search_passive_ftp_mode M m; search_active_ftp_mode M m }
      else if detected IPOQUE_PROTOCOL_UNKNOWN m then search_ftp M (exclude IPOQUE_PROTOCOL_FTP) m
      else exclude IPOQUE_PROTOCOL_FTP m)"

definition ipoque_search_ftp_tcp :: "mem \<Rightarrow> detection_module \<Rightarrow> detection_module option" where
  "ipoque_search_ftp_tcp M m = ftp_data M (ds_src m) 16 (ftp_data M (ds_dst m) 12 (ftp_control M)) m"

lemma ip_number_good:
  assumes "view_ok M m" "k + 4 \<le> 20" "pk_tcp (ds_packet m) \<noteq> NULL" "\<And>x. good M m (f x)"
  shows "good M m (ip_number M m k \<bind> f)"
proof -
  have i: "pk_iph (ds_packet m) \<noteq> NULL" using assms(1,3) unfolding view_ok_def packet_ok_def by blast
  obtain x where "rd32be M (pk_iph (ds_packet m) + k) = Some x" using rd32be_total [OF iph_readable [OF assms(1) i assms(2)]] by blast
  then show ?thesis using i assms(4) by (simp add: ip_number_def)
qed

lemma ftp_expect_good:
  "view_ok M m \<Longrightarrow> a = ds_src m \<or> a = ds_dst m \<Longrightarrow> good M m (ftp_expect a ip m)"
  unfolding ftp_expect_def by (intro good_then note_id_good) simp_all

lemma ftp_expect_at_good:
  "view_ok M m \<Longrightarrow> a = ds_src m \<or> a = ds_dst m \<Longrightarrow> k + 4 \<le> 20 \<Longrightarrow> pk_tcp (ds_packet m) \<noteq> NULL \<Longrightarrow> good M m (ftp_expect_at M a k m)"
  unfolding ftp_expect_at_def by (intro if_good good_Some ip_number_good ftp_expect_good)

lemma search_ftp_good:
  assumes "view_ok M m" "ds_flow m \<noteq> None" "good M m (next m)"
  shows "good M m (search_ftp M next m)"
  unfolding search_ftp_def Let_def using assms
  by (intro get_stage_good branch_good set_stage_good add_connection_good good_Some condition_rules)
     (simp_all add: value_simps del: allM.simps anyM.simps)

text \<open>A number may start at the end of the packet, and its reader looks at one byte: slack one.\<close>

lemma ftp_address_total:
  assumes "slack M m 1"
  shows "unat p \<le> unat (plen m) \<Longrightarrow> \<exists>r. ftp_address M m i p ip = Some r"
proof (induction i arbitrary: p ip)
  case (Suc i)
  have "readable M (pay m + unat p) (Suc (unat (plen m - p)))"
    by (rule slack_readable [OF assms]) (use Suc.prems in \<open>simp add: u16_sub\<close>)
  moreover have "unat p + unat (plen m - p) < 65536" using Suc.prems unat_u16_less [of "plen m"] by (simp add: u16_sub)
  ultimately obtain v p' where v: "ipq_bytestream_to_number M (pay m + unat p) (plen m - p) p = Some (v, p')"
    using to_number_total by blast
  show ?case
  proof (cases "p' = p \<or> plen m \<le> p'")
    case False
    then have less: "unat p' < unat (plen m)" by (simp add: word_less_nat_alt not_le)
    then obtain x where "M (pay m + unat p') = Some x"
      using readable_at [OF slack_readable [OF assms, of "unat p'" 1], of "pay m + unat p'"] by auto
    moreover have "unat (p' + 1) \<le> unat (plen m)" using less unat_u16_less [of "plen m"] by (simp add: unat_word_ariths)
    ultimately show ?thesis using v False Suc.IH [of "p' + 1" "push_bit 8 ip + v"] by auto
  qed (use v in simp)
qed simp

lemma ftp_bracket_total:
  assumes "view_ok M m"
  shows "\<exists>r. ftp_bracket M m = Some r \<and> (\<forall>k. r = Some k \<longrightarrow> k < unat (plen m))"
proof -
  have "\<exists>b. allM [Some (4 < plen m), mem_eq M (pay m) ''227 =''] = Some b"
    using assms by (intro condition_rules) (simp_all add: value_simps del: allM.simps)
  then obtain b where b: "allM [Some (4 < plen m), mem_eq M (pay m) ''227 =''] = Some b" by blast
  have at: "\<exists>c. byte_is M (pay m + k) P = Some c" if "k < unat (plen m)" for k P
    using pay_total(1) [OF assms, of k P] that by simp
  obtain r where r: "first_index (\<lambda>k. byte_is M (pay m + k) ((\<noteq>) 0x20)) (if b then 5 else 26) (unat (plen m)) = Some r"
    "\<forall>j. r = Some j \<longrightarrow> j < unat (plen m)"
    using first_index_total [of "if b then 5 else 26" "unat (plen m)" "\<lambda>k. byte_is M (pay m + k) ((\<noteq>) 0x20)"] at by blast
  show ?thesis
  proof (cases r)
    case (Some k)
    then obtain c where "byte_is M (pay m + k) ((=) 0x28) = Some c" using at r(2) by blast
    then show ?thesis unfolding ftp_bracket_def b bind.bind_lunit r(1) by (simp add: Some)
  next
    case None
    then show ?thesis unfolding ftp_bracket_def b bind.bind_lunit r(1) by simp
  qed
qed

lemma search_passive_good:
  assumes "view_ok M m" "slack M m 1" "pk_tcp (ds_packet m) \<noteq> NULL"
  shows "good M m (search_passive_ftp_mode M m)"
proof -
  have request: "\<exists>b. ftp_passive M m = Some b"
    unfolding ftp_passive_def using assms(1)
    by (intro condition_rules) (simp_all add: value_simps del: allM.simps anyM.simps)
  obtain r where r: "ftp_bracket M m = Some r" "\<forall>k. r = Some k \<longrightarrow> k < unat (plen m)" using ftp_bracket_total [OF assms(1)] by blast
  have bracket: "good M m (ftp_bracket M m \<bind> f)" if "good M m (f None)" "\<And>k. k < unat (plen m) \<Longrightarrow> good M m (f (Some k))" for f
    using r that by (cases r) simp_all
  have address: "good M m (ftp_address M m 4 (of_nat k) 0 \<bind> f)" if "k < unat (plen m)" "\<And>r. good M m (f r)" for k f
  proof -
    have "unat (of_nat k :: u16) \<le> unat (plen m)" using that(1) unat_u16_less [of "plen m"] by (simp add: unat_of_nat take_bit_eq_mod)
    then obtain r where "ftp_address M m 4 (of_nat k) 0 = Some r" using ftp_address_total [OF assms(2)] by blast
    then show ?thesis using that(2) by simp
  qed
  show ?thesis
    unfolding search_passive_ftp_mode_def using assms(1,3) request
    by (intro branch_good bracket address case_option_good good_Some good_then ftp_expect_good ftp_expect_at_good condition_rules)
       (simp_all add: value_simps del: allM.simps anyM.simps)
qed

lemma search_active_good:
  assumes "view_ok M m" "pk_tcp (ds_packet m) \<noteq> NULL"
  shows "good M m (search_active_ftp_mode M m)"
  unfolding search_active_ftp_mode_def using assms
  by (intro branch_good good_Some good_then ftp_expect_at_good condition_rules)
     (simp_all add: value_simps del: allM.simps anyM.simps)

lemma ftp_control_good:
  assumes "view_ok M m" "ds_flow m \<noteq> None" "slack M m 1" "pk_tcp (ds_packet m) \<noteq> NULL"
  shows "good M m (ftp_control M m)"
  unfolding ftp_control_def using assms
  by (intro if_good good_then good_Some search_passive_good search_active_good search_ftp_good exclude_good)
     (simp_all add: same_windows_def)

lemma ftp_data_good:
  assumes "view_ok M m" "ds_flow m \<noteq> None" "a = ds_src m \<or> a = ds_dst m" "pk_tcp (ds_packet m) \<noteq> NULL" "k + 4 \<le> 20"
    and rest: "\<And>m'. view_ok M m' \<Longrightarrow> ds_flow m' \<noteq> None \<Longrightarrow> same_windows (ds_packet m) (ds_packet m') \<Longrightarrow> same_hosts m m'
      \<Longrightarrow> good M m' (next m')"
  shows "good M m (ftp_data M a k next m)"
proof -
  let ?tcp = "pk_tcp (ds_packet m)"
  have flag: "\<exists>b. tcp_flag M ?tcp n = Some b" for n
    using assms(1,4) readable_at [of M ?tcp 20 "?tcp + 13"] unfolding view_ok_def packet_ok_def windows_ok_def
    by (auto simp: tcp_flag_def)
  have "\<exists>b. ftp_expected M a k m = Some b"
  proof (cases "a = NULL")
    case False
    obtain ip s where "get_id_field a ''ftp_ip'' m = Some ip" "get_id_field a ''ftp_timer_set'' m = Some s"
      using id_field_total [OF assms(1,3) False] by metis
    moreover have "\<exists>b. id_has_protocol a IPOQUE_PROTOCOL_FTP m = Some b" using either_has_total [OF assms(1)] assms(3) by blast
    ultimately show ?thesis
      unfolding ftp_expected_def Let_def if_not_P [OF False] using assms(1,4,5)
      by (simp only: bind.bind_lunit) (intro cond_total iph_total flag; simp)
  qed (simp add: ftp_expected_def exI [of _ False])
  then show ?thesis
    unfolding ftp_data_def Let_def using assms(1-5)
    by (intro branch_good add_connection_good good_then note_id_good recent_total rest cond_total port_total)
       (simp_all add: same_windows_def)
qed

lemma ftp_good:
  assumes "view_ok M m" "ds_flow m \<noteq> None" "slack M m 1" "pk_tcp (ds_packet m) \<noteq> NULL"
  shows "good M m (ipoque_search_ftp_tcp M m)"
  unfolding ipoque_search_ftp_tcp_def using assms
  by (intro ftp_data_good ftp_control_good) (simp_all add: slack_def same_windows_def)

subsection \<open>Jabber\<close>

text \<open>Only the hosts are marked: the protocol of the flow is not set by this dissector.\<close>

definition int_jabber_add_connection :: "nat \<Rightarrow> detection_module \<Rightarrow> detection_module option" where
  "int_jabber_add_connection proto m = mark_ids proto m"

text \<open>A start of connection at the port a host announced for a transfer.\<close>

definition jabber_transfer :: "mem \<Rightarrow> addr \<Rightarrow> detection_module \<Rightarrow> detection_module option" where
  "jabber_transfer M a m =
     (let tcp = pk_tcp (ds_packet m); port = ''jabber_file_transfer_port'' in
      if a = NULL then Some m
      else do { p \<leftarrow> get_id_field a port m;
                if p = 0 then Some m
                else branch (recent a ''jabber_stun_or_ft_ts'' (ds_config m ''jabber_file_transfer_timeout'') m)
                  (branch (anyM [id_port_is M a port tcp 2 m, id_port_is M a port tcp 0 m])
                     (int_jabber_add_connection IPOQUE_PROTOCOL_UNENCRYPED_JABBER m) (Some m))
                  (note_id a port 0 m) })"

definition jabber_at :: "mem \<Rightarrow> detection_module \<Rightarrow> nat option option" where
  "jabber_at M m =
     do { r \<leftarrow> first_index (\<lambda>x. byte_is M (pay m + x) (\<lambda>c. c < 32 \<or> 127 < c \<or> c = 0x40)) 8 (unat (plen m) - 21);
          case r of None \<Rightarrow> Some None
          | Some x \<Rightarrow> do { b \<leftarrow> byte_is M (pay m + x) ((=) 0x40);
                            if b then first_index (\<lambda>x. allM [byte_is M (pay m + x) ((=) 0x70), mem_eq M (pay m + x) ''port='']) x
                                        (unat (plen m) - 10)
                            else Some None } }"

text \<open>At most five ports for voice, numbered; an announcement of a file has one port.\<close>

definition jabber_note :: "mem \<Rightarrow> addr \<Rightarrow> u16 \<Rightarrow> detection_module \<Rightarrow> detection_module option" where
  "jabber_note M a port m =
     (if a = NULL then Some m
      else do { used \<leftarrow> get_id_field a ''jabber_voice_stun_used_ports'' m;
                if 5 \<le> used then Some m
                else branch (byte_is M (pay m + 5) ((=) 0x6f))
                  (do { m \<leftarrow> note_id a (''jabber_voice_stun_port'' @ [char_of (48 + used)]) (unat port) m;
                        note_id a ''jabber_voice_stun_used_ports'' (used + 1) m })
                  (note_id a ''jabber_file_transfer_port'' (unat port) m) })"

definition jabber_known :: "mem \<Rightarrow> detection_module \<Rightarrow> detection_module option" where
  "jabber_known M m =
     branch (allM [Some (100 \<le> plen m), anyM [mem_eq M (pay m) (''<iq to='' @ [CHR 0x22]), mem_eq M (pay m) ''<iq type='']])
       (do { r \<leftarrow> jabber_at M m;
             case r of None \<Rightarrow> Some m
             | Some x \<Rightarrow> do {
                 m \<leftarrow> note_both ''jabber_stun_or_ft_ts'' (unat (now m)) m;
                 (port, _) \<leftarrow> ipq_bytestream_to_number M (pay m + (x + 6)) (plen m) (of_nat (x + 6));
                 m \<leftarrow> jabber_note M (ds_src m) (ucast port) m;
                 jabber_note M (ds_dst m) (ucast port) m } })
       (Some m)"

text \<open>The second search finds the client of Truphone; every occurrence adds the same protocol.\<close>

definition check_content_type_and_change_protocol_jabber :: "mem \<Rightarrow> nat \<Rightarrow> detection_module \<Rightarrow> detection_module option" where
  "check_content_type_and_change_protocol_jabber M x m =
     branch (allM [Some (x + 18 < unat (plen m)),
                   any_index (\<lambda>x. mem_eq M (pay m + x) ([CHR 0x3d, CHR 0x22] @ ''im.truphone.com'' @ [CHR 0x22, CHR 0x3e])) 0 (unat (plen m) - 18)])
       (int_jabber_add_connection IPOQUE_PROTOCOL_TRUPHONE m) (Some m)"

definition xmlns_streams :: "char \<Rightarrow> string" where
  "xmlns_streams q = ''xmlns:stream='' @ [q] @ ''http://etherx.jabber.org/streams'' @ [q]"

definition jabber_stream :: "mem \<Rightarrow> detection_module \<Rightarrow> nat option option" where
  "jabber_stream M m =
     do { b \<leftarrow> allM [anyM [allM [Some (13 < plen m), mem_eq M (pay m) ''<?xml version=''],
                            allM [Some (17 < plen m), mem_eq M (pay m) ''<stream:stream to='']], Some (47 < plen m)];
          if b then first_index (\<lambda>x. anyM [mem_eq M (pay m + x) (xmlns_streams (CHR 0x27)),
                                           mem_eq M (pay m + x) (xmlns_streams (CHR 0x22))]) 0 (unat (plen m) - 47)
          else Some None }"

definition ipoque_search_jabber_tcp :: "mem \<Rightarrow> detection_module \<Rightarrow> detection_module option" where
  "ipoque_search_jabber_tcp M m =
     (let tcp = pk_tcp (ds_packet m) in
      branch (allM [Some (tcp \<noteq> NULL), tcp_syn M tcp, Some (plen m = 0)])
        (do { m \<leftarrow> jabber_transfer M (ds_src m) m; jabber_transfer M (ds_dst m) m })
        (if tcp \<noteq> NULL \<and> plen m = 0 then Some m
         else if detected IPOQUE_PROTOCOL_UNENCRYPED_JABBER m then jabber_known M m
         else do { r \<leftarrow> jabber_stream M m;
                   case r of Some x \<Rightarrow> do {
                       m \<leftarrow> int_jabber_add_connection IPOQUE_PROTOCOL_UNENCRYPED_JABBER m;
                       check_content_type_and_change_protocol_jabber M (x + 47) m }
                   | None \<Rightarrow> branch (counter_is m (\<lambda>c. c < 3)) (Some m) (exclude IPOQUE_PROTOCOL_UNENCRYPED_JABBER m) }))"

lemma mark_ids_good:
  assumes "view_ok M m"
  shows "good M m (mark_ids p m)"
proof -
  obtain ids where "mark_ids p m = Some (m\<lparr>ds_ids := ids\<rparr>)" "dom ids = dom (ds_ids m)"
    using mark_ids_ok assms unfolding view_ok_def by blast
  moreover from this have "good M m (Some (m\<lparr>ds_ids := ids\<rparr>))"
    using assms
    by (simp add: good_def view_ok_def step_ok_def ids_ok_def protocols_ok_def same_windows_def excl_def same_config_def
        callbacks.truncate_def split: option.splits)
  ultimately show ?thesis by simp
qed

lemma prod_good: "(\<And>a b. good M m (f a b)) \<Longrightarrow> good M m (case v of (a, b) \<Rightarrow> f a b)"
  by (cases v) simp

lemma jabber_transfer_good:
  assumes "view_ok M m" "ds_flow m \<noteq> None" "a = ds_src m \<or> a = ds_dst m" "pk_tcp (ds_packet m) \<noteq> NULL"
  shows "good M m (jabber_transfer M a m)"
proof -
  show ?thesis
    unfolding jabber_transfer_def int_jabber_add_connection_def Let_def using assms
    by (intro if_good get_id_field_good branch_good mark_ids_good note_id_good good_Some recent_total cond_total id_port_total) simp_all
qed

lemma jabber_at_good:
  assumes "view_ok M m" "100 \<le> unat (plen m)" "good M m (f None)" "\<And>x. x < unat (plen m) - 10 \<Longrightarrow> good M m (f (Some x))"
  shows "good M m (jabber_at M m \<bind> f)"
proof -
  have ok: "\<exists>b. byte_is M (pay m + x) P = Some b" if "x < unat (plen m)" for x P
    using pay_total(1) [OF assms(1), of x P] that by simp
  have port: "\<exists>b. allM [byte_is M (pay m + x) ((=) 0x70), mem_eq M (pay m + x) ''port=''] = Some b" if "x < unat (plen m) - 10" for x
    using assms(1) that by (intro condition_rules) auto
  let ?stop = "\<lambda>x. byte_is M (pay m + x) (\<lambda>c. c < 32 \<or> 127 < c \<or> c = 0x40)"
  have "\<exists>r. first_index ?stop 8 (unat (plen m) - 21) = Some r
      \<and> (\<forall>j. r = Some j \<longrightarrow> 8 \<le> j \<and> j < unat (plen m) - 21 \<and> ?stop j = Some True)"
    by (rule first_index_total) (use ok in simp)
  then obtain r where r: "first_index ?stop 8 (unat (plen m) - 21) = Some r" "\<forall>j. r = Some j \<longrightarrow> j < unat (plen m) - 21"
    by blast
  show ?thesis
  proof (cases r)
    case None
    then show ?thesis unfolding jabber_at_def r(1) using assms(3) by simp
  next
    case (Some x)
    then have "x < unat (plen m)" using r(2) by auto
    then obtain b where b: "byte_is M (pay m + x) ((=) 0x40) = Some b" using ok by blast
    obtain r' where "first_index (\<lambda>x. allM [byte_is M (pay m + x) ((=) 0x70), mem_eq M (pay m + x) ''port='']) x (unat (plen m) - 10) = Some r'"
      "\<forall>j. r' = Some j \<longrightarrow> j < unat (plen m) - 10"
      using first_index_total [of x "unat (plen m) - 10" "\<lambda>x. allM [byte_is M (pay m + x) ((=) 0x70), mem_eq M (pay m + x) ''port='']"] port
      by blast
    then show ?thesis
      unfolding jabber_at_def r(1) using Some b assms(3,4) by (cases r'; cases b) (simp_all del: allM.simps)
  qed
qed

lemma jabber_note_good:
  assumes "view_ok M m" "a = ds_src m \<or> a = ds_dst m" "100 \<le> unat (plen m)"
  shows "good M m (jabber_note M a p m)"
  unfolding jabber_note_def using assms
  by (intro if_good get_id_field_good branch_good good_then note_id_good good_Some pay_total) simp_all

text \<open>The reader of the port may run through as many bytes behind the packet as the packet has.\<close>

lemma jabber_number_good:
  assumes "slack M m (unat (plen m))" "x < unat (plen m) - 10" "\<And>v. good M m (f v)"
  shows "good M m (ipq_bytestream_to_number M (pay m + (x + 6)) (plen m) (of_nat (x + 6)) \<bind> f)"
proof -
  have "readable M (pay m + (x + 6)) (Suc (unat (plen m)))" by (rule slack_readable [OF assms(1)]) (use assms(2) in simp)
  then obtain v j where "ipq_bytestream_to_number M (pay m + (x + 6)) (plen m) (of_nat (x + 6)) = Some (v, of_nat (x + 6) + of_nat j)"
    unfolding ipq_bytestream_to_number_def using number_loop_total by blast
  then show ?thesis using assms(3) by simp
qed

lemma jabber_known_good:
  assumes "view_ok M m" "slack M m (unat (plen m))"
  shows "good M m (jabber_known M m)"
  unfolding jabber_known_def using assms
  by (intro branch_good jabber_at_good case_option_good good_Some jabber_number_good prod_good good_then note_both_good
        jabber_note_good cond_total pay_total_0)
     (simp_all add: value_simps slack_def del: allM.simps anyM.simps)

lemma jabber_stream_good:
  assumes "view_ok M m" "good M m (f None)" "\<And>x. good M m (f (Some x))"
  shows "good M m (jabber_stream M m \<bind> f)"
proof -
  let ?c = "allM [anyM [allM [Some (13 < plen m), mem_eq M (pay m) ''<?xml version=''],
      allM [Some (17 < plen m), mem_eq M (pay m) ''<stream:stream to='']], Some (47 < plen m)]"
  let ?P = "\<lambda>x. anyM [mem_eq M (pay m + x) (xmlns_streams (CHR 0x27)), mem_eq M (pay m + x) (xmlns_streams (CHR 0x22))]"
  have c: "\<exists>b. ?c = Some b"
    using assms(1) by (intro condition_rules) (simp_all add: value_simps del: allM.simps anyM.simps)
  have P: "\<exists>b. ?P x = Some b" if "x < unat (plen m) - 47" for x
    using assms(1) that by (intro condition_rules) (simp_all add: xmlns_streams_def)
  have "\<exists>r. first_index ?P 0 (unat (plen m) - 47) = Some r
      \<and> (\<forall>j. r = Some j \<longrightarrow> 0 \<le> j \<and> j < unat (plen m) - 47 \<and> ?P j = Some True)"
    by (rule first_index_total) (rule P)
  then obtain r where r: "first_index ?P 0 (unat (plen m) - 47) = Some r" by blast
  have "good M m ((if b then first_index ?P 0 (unat (plen m) - 47) else Some None) \<bind> f)" for b
    unfolding r using assms(2,3) by (cases b; cases r) simp_all
  then show ?thesis
    unfolding jabber_stream_def using c by (elim exE) (simp only: bind.bind_lunit)
qed

lemma jabber_content_good:
  assumes "view_ok M m"
  shows "good M m (check_content_type_and_change_protocol_jabber M x m)"
  unfolding check_content_type_and_change_protocol_jabber_def int_jabber_add_connection_def using assms
  by (intro branch_good mark_ids_good good_Some condition_rules) auto

lemma jabber_good:
  assumes "view_ok M m" "ds_flow m \<noteq> None" "slack M m (unat (plen m))"
  shows "good M m (ipoque_search_jabber_tcp M m)"
proof -
  let ?tcp = "pk_tcp (ds_packet m)"
  have flag: "\<exists>b. tcp_flag M ?tcp n = Some b" if "?tcp \<noteq> NULL" for n
    using assms(1) that readable_at [of M ?tcp 20 "?tcp + 13"] unfolding view_ok_def packet_ok_def windows_ok_def
    by (auto simp: tcp_flag_def)
  show ?thesis
    unfolding ipoque_search_jabber_tcp_def int_jabber_add_connection_def Let_def using assms
    by (intro branch_good if_good good_Some good_then jabber_transfer_good jabber_known_good jabber_stream_good mark_ids_good
          case_option_good jabber_content_good exclude_good cond_total flag counter_is_total)
       (simp_all add: allM_True same_windows_def del: allM.simps)
qed

end
