(* ===== verification/Ipq_Soulseek.thy ===== *)
theory Ipq_Soulseek
  imports Ipq_Transfers
begin

text \<open>
  Soulseek and iMesh: Soulseek adds lengths from the packet with 32 bits and bounds one of them by the wrong sum; iMesh
  tests the length of the new part of a retransmitted segment but reads the whole one.
\<close>

subsection \<open>Soulseek\<close>

abbreviation (input) "soulseek_time \<equiv> ''soulseek_last_safe_access_time''"
abbreviation (input) "soulseek_recent a m \<equiv> recent a soulseek_time (ds_config m ''soulseek_connection_ip_tick_timeout'') m"
abbreviation (input) "soulseek_add m \<equiv> timed_add IPOQUE_PROTOCOL_SOULSEEK soulseek_time m"

definition soulseek_renew :: "addr \<Rightarrow> detection_module \<Rightarrow> detection_module option" where
  "soulseek_renew a m = branch (soulseek_recent a m) (note_id a soulseek_time (unat (now m)) m) (Some m)"

text \<open>The port has 16 bits and is cut from a number of 32. The result says whether it was set.\<close>

definition soulseek_listen :: "mem \<Rightarrow> detection_module \<Rightarrow> (detection_module \<times> bool) option" where
  "soulseek_listen M m =
     (let src = ds_src m in
      if src = NULL then Some (m, False)
      else do { m \<leftarrow> note_id src soulseek_time (unat (now m)) m;
                p \<leftarrow> get_id_field src ''soulseek_listen_port'' m;
                if pk_tcp (ds_packet m) \<noteq> NULL \<and> p = 0
                then do { x \<leftarrow> rd32le M (pay m + 8);
                          m \<leftarrow> note_id src ''soulseek_listen_port'' (unat (ucast x :: u16)) m;
                          Some (m, True) }
                else Some (m, False) })"

definition soulseek_host :: "mem \<Rightarrow> detection_module \<Rightarrow> bool option" where
  "soulseek_host M m =
     (let dst = ds_dst m in
      if dst = NULL then Some False
      else do { p \<leftarrow> get_id_field dst ''soulseek_listen_port'' m;
                allM [Some (p \<noteq> 0), dest_is M (pk_tcp (ds_packet m)) (\<lambda>x. unat x = p), soulseek_recent dst m] })"

text \<open>The chain of names of a login; \<open>index\<close> is below the packet's length, and its last length may lie three bytes behind it.\<close>

function soulseek_chain :: "mem \<Rightarrow> detection_module \<Rightarrow> nat \<Rightarrow> nat option" where
  "soulseek_chain M m index =
     do { h \<leftarrow> rd16le M (pay m + (index + 2));
          if h \<noteq> 0 then Some index
          else do { l \<leftarrow> rd32le M (pay m + index);
                    if index + unat l < unat (plen m) - 4 \<and> 8 \<le> unat l then soulseek_chain M m (index + unat l + 4) else Some index } }"
  by auto
termination by (relation "measure (\<lambda>(M, m, i). unat (plen m) - i)") auto

declare soulseek_chain.simps [simp del]

definition soulseek_login :: "mem \<Rightarrow> detection_module \<Rightarrow> bool option" where
  "soulseek_login M m =
     (let n = unat (plen m); zero = (\<lambda>i. lhalf_is M (pay m + i) ((=) 0)); len = (\<lambda>i. rd32le M (pay m + i)) in
      allM [Some (12 \<le> n), Some (n < 300), lword_is M (pay m + 4) ((=) 1),
            do { i \<leftarrow> soulseek_chain M m 0;
                 lword_is M (pay m + i) (\<lambda>l. of_nat i + l = of_nat n - 4) },
            zero 10,
            do { l \<leftarrow> len 8;
                 let i = unat l + 12;
                 b \<leftarrow> allM [Some (i + 4 \<le> n), zero (i + 2)];
                 if \<not> b then Some False
                 else do { l \<leftarrow> len i;
                           let i = i + unat l + 4;
                           b \<leftarrow> allM [Some (i + 8 \<le> n), zero (i + 6)];
                           if \<not> b then Some False
                           else do { l \<leftarrow> len (i + 4); lword_is M (pay m) (\<lambda>x. i + unat l + 8 = unat x) } } }])"

definition soulseek_peer :: "mem \<Rightarrow> detection_module \<Rightarrow> bool option" where
  "soulseek_peer M m =
     (let n = unat (plen m) in
      allM [byte_is M (pay m + 4) ((=) 0x01), lword_is M (pay m + (n - 9)) ((=) 1),
            lword_is M (pay m + 5) (\<lambda>l. unat l \<le> n \<and> unat l + 18 = n),
            byte_is M (pay m + (n - 5)) (\<lambda>t. t = 0x46 \<or> t = 0x50 \<or> t = 0x44)])"

text \<open>The bound adds the fixed parts to the length of the packet instead of taking them away: slack 24.\<close>

definition soulseek_user :: "mem \<Rightarrow> detection_module \<Rightarrow> bool option" where
  "soulseek_user M m =
     (let n = unat (plen m) in
      allM [Some (25 < n), byte_is M (pay m + 4) ((=) 0x01), lhalf_is M (pay m + 7) ((=) 0), lhalf_is M (pay m + 2) ((=) 0),
            do { l \<leftarrow> rd32le M (pay m + 5);
                 allM [Some (unat l \<le> n - 4 + 1 + 4 + 4 + 1 + 4), lword_is M (pay m + (9 + unat l)) ((=) 1),
                       byte_is M (pay m + (9 + unat l + 4)) (\<lambda>t. t = 0x46 \<or> t = 0x50 \<or> t = 0x44)] }])"

definition soulseek_answer :: "mem \<Rightarrow> detection_module \<Rightarrow> bool option" where
  "soulseek_answer M m =
     (let n = unat (plen m) in
      anyM [allM [Some (8 < n), anyM [byte_is M (pay m) ((\<noteq>) 0), byte_is M (pay m + 1) ((\<noteq>) 0)], lword_is M (pay m + 4) ((=) 9)],
            allM [Some (8 < n), lword_is M (pay m) (\<lambda>l. unat l = n - 4), lword_is M (pay m + 4) ((=) 0x03),
                  lword_is M (pay m + 8) (\<lambda>l. unat l \<le> n \<and> 12 + unat l = n)],
            allM [Some (n = 8), lword_is M (pay m + 4) ((=) 4)],
            allM [Some (n = 4), lhalf_is M (pay m + 2) ((=) 0), lhalf_is M (pay m) ((\<noteq>) 0)]])"

definition soulseek_end :: "mem \<Rightarrow> detection_module \<Rightarrow> detection_module option" where
  "soulseek_end M m =
     do { stage \<leftarrow> get_stage ''soulseek_stage'' m;
          branch (allM [Some (stage = 3), Some (plen m = 8), word_is M (pay m + 4) ((=) 0)]) (soulseek_add m)
         (branch (allM [Some (stage \<noteq> 0), counter_is m (\<lambda>c. c < 11)]) (Some m) (exclude IPOQUE_PROTOCOL_SOULSEEK m)) }"

definition soulseek_other :: "mem \<Rightarrow> detection_module \<Rightarrow> detection_module option" where
  "soulseek_other M m = branch (soulseek_user M m) (soulseek_add m) (soulseek_end M m)"

definition soulseek_start :: "mem \<Rightarrow> detection_module \<Rightarrow> detection_module option" where
  "soulseek_start M m =
     branch (soulseek_peer M m) (soulseek_add m)
    (branch (allM [Some (plen m = 9), lword_is M (pay m) ((=) 5), byte_is M (pay m + 4) (\<lambda>x. x \<le> 0x10), word_is M (pay m + 5) ((\<noteq>) 0)])
       (set_stage ''soulseek_stage'' (1 + dirn m) m) (soulseek_other M m))"

definition soulseek_message :: "mem \<Rightarrow> detection_module \<Rightarrow> detection_module option" where
  "soulseek_message M m =
     branch (allM [Some (8 < plen m), Some (plen m < 200), lword_is M (pay m) (\<lambda>l. unat l = unat (plen m) - 4)])
        (do { code \<leftarrow> rd32le M (pay m + 4);
              if code = 0x7d then set_stage ''soulseek_stage'' (1 + dirn m) m
              else if code = 0x02 \<and> plen m = 12
              then do { (m, listens) \<leftarrow> soulseek_listen M m; if listens then soulseek_add m else soulseek_start M m }
              else soulseek_start M m })
        (soulseek_other M m)"

definition soulseek_first :: "mem \<Rightarrow> detection_module \<Rightarrow> detection_module option" where
  "soulseek_first M m = branch (soulseek_login M m) (soulseek_add m) (soulseek_message M m)"

definition soulseek_flow :: "mem \<Rightarrow> detection_module \<Rightarrow> detection_module option" where
  "soulseek_flow M m =
     branch (soulseek_host M m) (soulseek_add m)
       (do { stage \<leftarrow> get_stage ''soulseek_stage'' m;
             if stage = 0 then soulseek_first M m
             else if stage = 2 - dirn m
             then branch (soulseek_answer M m) (soulseek_add m)
                 (if plen m = 4 then set_stage ''soulseek_stage'' 3 m else soulseek_end M m)
             else if stage = 1 + dirn m
             then branch (allM [Some (8 < plen m), byte_is M (pay m + 4) ((=) 0x03), lword_is M (pay m + 5) ((=) 0x31)])
                 (soulseek_add m) (soulseek_end M m)
             else soulseek_end M m })"

definition soulseek_known :: "mem \<Rightarrow> detection_module \<Rightarrow> detection_module option" where
  "soulseek_known M m =
     (let renew = (\<lambda>m. do { m \<leftarrow> soulseek_renew (ds_src m) m; m \<leftarrow> soulseek_renew (ds_dst m) m; soulseek_flow M m }) in
      if plen m = 431 then note_id (ds_dst m) soulseek_time (unat (now m)) m
      else branch (allM [Some (plen m = 12), lword_is M (pay m + 4) ((=) 0x02)])
        (do { (m, listens) \<leftarrow> soulseek_listen M m; if listens then Some m else renew m })
        (renew m))"

definition ipoque_search_soulseek_tcp :: "mem \<Rightarrow> detection_module \<Rightarrow> detection_module option" where
  "ipoque_search_soulseek_tcp M m =
     (if detected IPOQUE_PROTOCOL_SOULSEEK m then soulseek_known M m else soulseek_flow M m)"

lemma lhalf_slack:
  "slack M m k \<Longrightarrow> i + 2 \<le> unat (plen m) + k \<Longrightarrow> \<exists>b. lhalf_is M (pay m + i) P = Some b"
  "slack M m k \<Longrightarrow> 2 \<le> unat (plen m) + k \<Longrightarrow> \<exists>b. lhalf_is M (pay m) P = Some b"
  using lhalf_is_total [OF slack_readable [of M m k i 2]] lhalf_is_total [OF slack_readable [of M m k 0 2]] by simp_all

lemma len_bind:
  "slack M m k \<Longrightarrow> i + 4 \<le> unat (plen m) + k \<Longrightarrow> (\<And>l. rd32le M (pay m + i) = Some l \<Longrightarrow> \<exists>b. f l = Some b)
    \<Longrightarrow> \<exists>b. (rd32le M (pay m + i) \<bind> f) = Some b"
  using rd32le_total [OF slack_readable [of M m k i 4]] by auto

lemma soulseek_chain_total:
  assumes "slack M m 24"
  shows "i < unat (plen m) \<Longrightarrow> \<exists>j. soulseek_chain M m i = Some j \<and> j < unat (plen m)"
proof (induction "unat (plen m) - i" arbitrary: i rule: less_induct)
  case less
  obtain h where h: "rd16le M (pay m + (i + 2)) = Some h"
    using rd16le_total [OF slack_readable [OF assms, of "i + 2" 2]] less.prems by auto
  obtain l where l: "rd32le M (pay m + i) = Some l"
    using rd32le_total [OF slack_readable [OF assms, of i 4]] less.prems by auto
  show ?case
  proof (cases "h = 0 \<and> i + unat l < unat (plen m) - 4 \<and> 8 \<le> unat l")
    case True
    then have "i + unat l + 4 < unat (plen m)" by arith
    then have "\<exists>j. soulseek_chain M m (i + unat l + 4) = Some j \<and> j < unat (plen m)" using less.hyps True by simp
    then show ?thesis using h l True by (subst soulseek_chain.simps) simp
  qed (use h l less.prems in \<open>subst soulseek_chain.simps, auto\<close>)
qed

lemma soulseek_login_total:
  assumes "slack M m 24"
  shows "\<exists>b. soulseek_login M m = Some b"
proof -
  have chain: "\<exists>b. (soulseek_chain M m 0 \<bind> f) = Some b" if "0 < unat (plen m)" "\<And>i. i < unat (plen m) \<Longrightarrow> \<exists>b. f i = Some b"
    for f :: "nat \<Rightarrow> bool option"
    using soulseek_chain_total [OF assms that(1)] that(2) by fastforce
  have guard: "\<exists>b. (allM [Some P, c] \<bind> (\<lambda>b. if \<not> b then Some False else x)) = Some b"
    if "P \<Longrightarrow> \<exists>b. c = Some b" "P \<Longrightarrow> \<exists>b. x = Some b" for P c and x :: "bool option"
    using that by (cases P) auto
  show ?thesis
    unfolding soulseek_login_def Let_def
    by (intro cond_total slack_reads [OF assms] slack_reads_0 [OF assms] lhalf_slack [OF assms] chain len_bind [OF assms] guard)
       (simp_all del: allM.simps)
qed

lemma soulseek_totals:
  assumes "slack M m 24"
  shows "8 < unat (plen m) \<Longrightarrow> \<exists>b. soulseek_peer M m = Some b"
    "\<exists>b. soulseek_user M m = Some b" "\<exists>b. soulseek_answer M m = Some b"
proof -
  note r = cond_total slack_reads [OF assms] slack_reads_0 [OF assms] lhalf_slack [OF assms] len_bind [OF assms]
  show "8 < unat (plen m) \<Longrightarrow> \<exists>b. soulseek_peer M m = Some b" unfolding soulseek_peer_def Let_def by (intro r) simp_all
  show "\<exists>b. soulseek_user M m = Some b"
    unfolding soulseek_user_def Let_def by (intro r) (simp_all del: allM.simps)
  show "\<exists>b. soulseek_answer M m = Some b" unfolding soulseek_answer_def Let_def by (intro r) (simp_all del: allM.simps)
qed

lemma soulseek_host_total:
  assumes "view_ok M m" "pk_tcp (ds_packet m) \<noteq> NULL"
  shows "\<exists>b. soulseek_host M m = Some b"
proof (cases "ds_dst m = NULL")
  case False
  then obtain p where "get_id_field (ds_dst m) ''soulseek_listen_port'' m = Some p"
    using id_field_total [OF assms(1) disjI2 [OF refl]] by blast
  then show ?thesis
    unfolding soulseek_host_def Let_def if_not_P [OF False] using assms
    by (simp only: bind.bind_lunit) (intro cond_total port_total recent_total; simp)
qed (simp add: soulseek_host_def exI [of _ False])

lemma soulseek_listen_good:
  assumes "view_ok M m" "slack M m 24"
    and rest: "\<And>m' b. view_ok M m' \<Longrightarrow> (ds_flow m' = None \<longleftrightarrow> ds_flow m = None) \<Longrightarrow> same_windows (ds_packet m) (ds_packet m')
      \<Longrightarrow> same_hosts m m' \<Longrightarrow> good M m' (f m' b)"
  shows "good M m (soulseek_listen M m \<bind> (\<lambda>(m, b). f m b))"
proof (cases "ds_src m = NULL")
  case True
  then show ?thesis using rest [of m False] assms(1) by (simp add: soulseek_listen_def same_windows_def)
next
  case src: False
  show ?thesis
    unfolding soulseek_listen_def Let_def if_not_P [OF src] bind_assoc if_bind bind.bind_lunit prod.case using assms(1,2) src
    by (intro good_then note_id_good get_id_field_good if_good rd_good rest) (auto simp: slack_def same_windows_def intro: readable_sub)
qed

lemma soulseek_end_good:
  assumes "view_ok M m" "ds_flow m \<noteq> None" "slack M m 24"
  shows "good M m (soulseek_end M m)"
  unfolding soulseek_end_def using assms(1,2)
  by (intro get_stage_good branch_good timed_add_good good_Some exclude_good cond_total slack_reads [OF assms(3)] counter_is_total) simp_all

lemma soulseek_other_good:
  assumes "view_ok M m" "ds_flow m \<noteq> None" "slack M m 24"
  shows "good M m (soulseek_other M m)"
  unfolding soulseek_other_def using assms
  by (intro branch_good timed_add_good soulseek_end_good soulseek_totals) simp_all

lemma soulseek_start_good:
  assumes "view_ok M m" "ds_flow m \<noteq> None" "slack M m 24" "8 < unat (plen m)"
  shows "good M m (soulseek_start M m)"
  unfolding soulseek_start_def using assms(1,2,4)
  by (intro branch_good timed_add_good set_stage_good soulseek_other_good soulseek_totals cond_total slack_reads [OF assms(3)]
        slack_reads_0 [OF assms(3)] assms(3)) simp_all

lemma soulseek_message_good:
  assumes "view_ok M m" "ds_flow m \<noteq> None" "slack M m 24"
  shows "good M m (soulseek_message M m)"
  unfolding soulseek_message_def using assms
  by (intro branch_good if_good rd_good set_stage_good soulseek_listen_good timed_add_good soulseek_start_good
        soulseek_other_good cond_total slack_reads_0 [OF assms(3)] slack_readable [OF assms(3)])
     (simp_all add: value_simps slack_def del: allM.simps)

lemma soulseek_flow_good:
  assumes "view_ok M m" "ds_flow m \<noteq> None" "slack M m 24" "pk_tcp (ds_packet m) \<noteq> NULL"
  shows "good M m (soulseek_flow M m)"
  unfolding soulseek_flow_def soulseek_first_def using assms
  by (intro branch_good if_good get_stage_good set_stage_good timed_add_good soulseek_message_good soulseek_end_good
        soulseek_host_total soulseek_login_total soulseek_totals cond_total slack_reads [OF assms(3)]) simp_all

lemma soulseek_good:
  assumes "view_ok M m" "ds_flow m \<noteq> None" "slack M m 24" "pk_tcp (ds_packet m) \<noteq> NULL"
  shows "good M m (ipoque_search_soulseek_tcp M m)"
proof -
  have renew: "good M m' (soulseek_renew a m')" if "view_ok M m'" "a = ds_src m' \<or> a = ds_dst m'" for m' a
    unfolding soulseek_renew_def using that by (intro branch_good note_id_good good_Some recent_total)
  show ?thesis
    unfolding ipoque_search_soulseek_tcp_def soulseek_known_def Let_def using assms
    by (intro if_good branch_good note_id_good soulseek_listen_good good_Some good_then renew soulseek_flow_good cond_total
          slack_reads [OF assms(3)]) (simp_all add: slack_def same_windows_def)
qed

subsection \<open>iMesh\<close>

text \<open>The messages, by the length of the new bytes; the result is what \<^verbatim>\<open>imesh_stage\<close> grows by.\<close>

definition imesh_message :: "mem \<Rightarrow> detection_module \<Rightarrow> nat option" where
  "imesh_message M m =
     (let n = unat (plen m); k = unat (pk_actual_payload_len (ds_packet m));
          at = (\<lambda>i xs. bytes_at M (pay m + i) xs); any = (\<lambda>i xs. byte_is M (pay m + i) (\<lambda>x. x \<in> xs));
          size = lhalf_is M (pay m) (\<lambda>x. unat x = k) in
      select_first
        [(allM [Some (k = 8 \<or> n = 10), at 0 [0x04, 0, 0, 0, 0, 0, 0, 0]], 2),
         (allM [Some (k = 10), any 2 {0x04, 0x00}, at 3 [0], any 4 {0x00, 0x64}, at 5 [0]], 2),
         (allM [Some (k = 2), at 0 [0x06, 0]], 1),
         (allM [Some (k = 10), at 0 [0x06, 0], any 2 {0x04, 0x00}, at 3 [0], any 4 {0x00, 0x01}, at 5 [0], any 6 {0x01, 0x00}, at 7 [0],
                at 9 [0]], 2),
         (allM [Some (k = 24), at 0 [0x06, 0, 0x12, 0, 0, 0, 0x34, 0, 0]], 2),
         (allM [Some (k = 8), any 0 {0x06, 0x00}, at 1 [0, 0x02, 0, 0, 0, 0x33, 0]], 2),
         (allM [Some (n = 6), at 0 [0x02, 0, 0, 0, 0x33, 0]], 2),
         (allM [Some (k = 12), at 0 [0x06, 0, 0x06, 0, 0, 0, 0x64, 0]], 2),
         (allM [Some (k = 10), at 0 [0x06, 0], any 2 {0x04, 0x01}, at 3 [0, 0, 0], any 6 {0x01, 0x00}, at 7 [0], at 9 [0]], 2),
         (allM [Some (k = 64 \<or> k = 52 \<or> k = 95), size, at 1 [0, 0, 0, 0]], 2),
         (allM [Some (k = 6), at 0 [0x06, 0], any 2 {0x04, 0x6c}, any 3 {0x00, 0x01}, at 4 [0, 0]], 2),
         (allM [Some (k = 6), size, at 2 [0xee, 0, 0, 0]], 2),
         (allM [Some (k = 10), at 0 [0x06, 0, 0, 0, 0, 0, 0, 0]], 2)]
        0)"

text \<open>The stage has four bits. A flow that was just added is excluded as well: the addition is not followed by a return.\<close>

definition imesh_decide :: "detection_module \<Rightarrow> detection_module option" where
  "imesh_decide m =
     do { stage \<leftarrow> get_stage ''imesh_stage'' m;
          if 4 \<le> stage then do { m \<leftarrow> ipoque_int_add_connection IPOQUE_PROTOCOL_IMESH m; exclude IPOQUE_PROTOCOL_IMESH m }
          else branch (anyM [counter_is m (\<lambda>c. c < 5), Some (pk_actual_payload_len (ds_packet m) = 0)]) (Some m)
            (exclude IPOQUE_PROTOCOL_IMESH m) }"

definition imesh_host :: "addr \<Rightarrow> detection_module \<Rightarrow> detection_module option" where
  "imesh_host a m =
     branch (recent a ''imesh_timer'' (ds_config m ''imesh_connection_timeout'') m)
       (do { m \<leftarrow> note_id a ''imesh_timer'' (unat (now m)) m; ipoque_int_add_connection IPOQUE_PROTOCOL_IMESH m }) (Some m)"

definition imesh_udp :: "mem \<Rightarrow> detection_module \<Rightarrow> detection_module option" where
  "imesh_udp M m =
     (let udp = pk_udp (ds_packet m) in
      branch (allM [Some (plen m = 28), lword_is M (pay m) ((=) 2), lword_is M (pay m + 24) ((=) 0),
                    anyM [dest_is M udp ((=) 1864), source_is M udp ((=) 1864)]])
        (do { m \<leftarrow> note_both ''imesh_timer'' (unat (now m)) m; ipoque_int_add_connection IPOQUE_PROTOCOL_IMESH m })
     (branch (allM [Some (plen m = 36), lword_is M (pay m) ((=) 2)])
        (do { m \<leftarrow> imesh_host (ds_src m) m; imesh_host (ds_dst m) m })
        (imesh_decide m)))"

definition imesh_tcp :: "mem \<Rightarrow> detection_module \<Rightarrow> detection_module option" where
  "imesh_tcp M m =
     (if pk_actual_payload_len (ds_packet m) = 0 then Some m
      else do { d \<leftarrow> imesh_message M m;
                stage \<leftarrow> get_stage ''imesh_stage'' m;
                m \<leftarrow> set_stage ''imesh_stage'' ((stage + d) mod 16) m;
                imesh_decide m })"

definition ipoque_search_imesh_tcp_udp :: "mem \<Rightarrow> detection_module \<Rightarrow> detection_module option" where
  "ipoque_search_imesh_tcp_udp M m =
     (if detected IPOQUE_PROTOCOL_IMESH m then note_both ''imesh_timer'' (unat (now m)) m
      else if \<not> detected IPOQUE_PROTOCOL_UNKNOWN m then exclude IPOQUE_PROTOCOL_IMESH m
      else if pk_udp (ds_packet m) \<noteq> NULL then imesh_udp M m
      else if pk_tcp (ds_packet m) \<noteq> NULL then imesh_tcp M m
      else imesh_decide m)"

text \<open>The new bytes are a part of the payload; the length that was not tested (\<open>k = 8\<close>, \<open>n = 10\<close>) is covered by the other.\<close>

lemma imesh_good:
  assumes "view_ok M m" "ds_flow m \<noteq> None" "pk_actual_payload_len (ds_packet m) \<le> plen m"
  shows "good M m (ipoque_search_imesh_tcp_udp M m)"
proof -
  have k: "unat (pk_actual_payload_len (ds_packet m)) \<le> unat (plen m)" using assms(3) by (simp add: word_le_nat_alt)
  have "\<exists>d. imesh_message M m = Some d"
    unfolding imesh_message_def Let_def using assms(1) k
    by (intro condition_rules) (auto simp: value_simps simp del: allM.simps anyM.simps)
  then have message: "good M m (imesh_message M m \<bind> f)" if "\<And>d. good M m (f d)" for f using that by auto
  have finish: "good M m' (imesh_decide m')" if "view_ok M m'" "ds_flow m' \<noteq> None" for m'
    unfolding imesh_decide_def using that
    by (intro get_stage_good if_good branch_good good_then add_connection_good exclude_good good_Some cond_total counter_is_total) simp_all
  have host: "good M m' (imesh_host a m')" if "view_ok M m'" "ds_flow m' \<noteq> None" "a = ds_src m' \<or> a = ds_dst m'" for m' a
    unfolding imesh_host_def using that
    by (intro branch_good good_then note_id_good add_connection_good good_Some recent_total) simp_all
  show ?thesis
    unfolding ipoque_search_imesh_tcp_udp_def imesh_udp_def imesh_tcp_def Let_def using assms(1,2)
    by (intro if_good branch_good note_both_good exclude_good message get_stage_good set_stage_good good_then finish host
          add_connection_good good_Some condition_rules) (simp_all add: value_simps del: allM.simps anyM.simps)
qed

end
