(* ===== verification/Ipq_Email.thy ===== *)
theory Ipq_Email
  imports Ipq_State
begin

text \<open>
  \<^verbatim>\<open>ipoque_check_for_email_address\<close> of \<^verbatim>\<open>ipq_main.c\<close>: a scanner of nested loops over the payload, and the
  grammar it recognises. Every counter stays below \<^verbatim>\<open>payload_packet_len\<close>, a 16-bit number, so that
  natural numbers model the 16-bit counter exactly.
\<close>

subsection \<open>The scanner\<close>

definition lower :: "u8 \<Rightarrow> bool" where
  "lower c \<longleftrightarrow> 0x61 \<le> c \<and> c \<le> 0x7a"

definition email_char :: "u8 \<Rightarrow> bool" where
  "email_char c \<longleftrightarrow> lower c \<or> (0x41 \<le> c \<and> c \<le> 0x5a) \<or> (0x30 \<le> c \<and> c \<le> 0x39) \<or> c = 0x2d \<or> c = 0x5f"

definition email_stop :: "u8 \<Rightarrow> bool" where
  "email_stop c \<longleftrightarrow> c = 0x20 \<or> c = 0x3b"

text \<open>The end of the address after two letters of the top-level domain: up to \<open>j\<close> more letters.\<close>

fun email_end :: "mem \<Rightarrow> addr \<Rightarrow> nat \<Rightarrow> nat \<Rightarrow> nat \<Rightarrow> nat option" where
  "email_end M p n k j =
     (if k < n
      then do { c \<leftarrow> M (p + k);
                if email_stop c then Some k
                else case j of 0 \<Rightarrow> Some 0 | Suc j \<Rightarrow> if lower c then email_end M p n (k + 1) j else Some 0 }
      else Some 0)"

declare email_end.simps [simp del]

definition email_tld :: "mem \<Rightarrow> addr \<Rightarrow> nat \<Rightarrow> nat \<Rightarrow> nat option" where
  "email_tld M p n k =
     (if k + 1 < n
      then do { x \<leftarrow> M (p + k); y \<leftarrow> M (p + (k + 1));
                if lower x \<and> lower y then email_end M p n (k + 2) 2 else Some 0 }
      else Some 0)"

text \<open>The loops over the domain and over the local part.\<close>

function email_domain :: "mem \<Rightarrow> addr \<Rightarrow> nat \<Rightarrow> nat \<Rightarrow> nat option" where
  "email_domain M p n k =
     (if k < n
      then do { c \<leftarrow> M (p + k);
                if email_char c
                then if k + 1 < n
                  then do { d \<leftarrow> M (p + (k + 1)); if d = 0x2e then email_tld M p n (k + 2) else email_domain M p n (k + 1) }
                  else email_domain M p n (k + 1)
                else Some 0 }
      else Some 0)"
  by auto
termination by (relation "measure (\<lambda>(M, p, n, k). n - k)") auto

declare email_domain.simps [simp del]

function email_local :: "mem \<Rightarrow> addr \<Rightarrow> nat \<Rightarrow> nat \<Rightarrow> nat option" where
  "email_local M p n k =
     (if k < n
      then do { c \<leftarrow> M (p + k);
                if email_char c \<or> c = 0x2e
                then if k + 1 < n
                  then do { d \<leftarrow> M (p + (k + 1)); if d = 0x40 then email_domain M p n (k + 2) else email_local M p n (k + 1) }
                  else email_local M p n (k + 1)
                else Some 0 }
      else Some 0)"
  by auto
termination by (relation "measure (\<lambda>(M, p, n, k). n - k)") auto

declare email_local.simps [simp del]

definition ipoque_check_for_email_address :: "mem \<Rightarrow> packet_struct \<Rightarrow> u16 \<Rightarrow> u16 option" where
  "ipoque_check_for_email_address M pk counter =
     (let p = pk_payload pk; n = unat (pk_payload_packet_len pk); k = unat counter
      in if k < n
         then do { c \<leftarrow> M (p + k);
                   if email_char c then do { r \<leftarrow> email_local M p n (k + 1); Some (of_nat r) } else Some 0 }
         else Some 0)"

subsection \<open>The grammar\<close>

text \<open>As positions in the payload. \<open>end_at bs k j r\<close>: from \<open>k\<close> at most \<open>j\<close> letters, then a blank or a
  semicolon at \<open>r\<close>. \<open>domain_at\<close>: a domain name, a dot, and a top-level domain of two to four letters.
  \<open>local_at\<close>: characters or dots, an \<^verbatim>\<open>@\<close>, and a domain. An address starts with one more character.\<close>

definition end_at :: "bytes \<Rightarrow> nat \<Rightarrow> nat \<Rightarrow> nat \<Rightarrow> bool" where
  "end_at bs k j r \<longleftrightarrow> k \<le> r \<and> r \<le> k + j \<and> r < length bs \<and> (\<forall>x. k \<le> x \<and> x < r \<longrightarrow> lower (bs ! x)) \<and> email_stop (bs ! r)"

definition domain_at :: "bytes \<Rightarrow> nat \<Rightarrow> nat \<Rightarrow> bool" where
  "domain_at bs k r \<longleftrightarrow> (\<exists>j>k. (\<forall>x. k \<le> x \<and> x < j \<longrightarrow> email_char (bs ! x)) \<and> bs ! j = 0x2e
     \<and> end_at bs (j + 1) 4 r \<and> j + 3 \<le> r)"

definition local_at :: "bytes \<Rightarrow> nat \<Rightarrow> nat \<Rightarrow> bool" where
  "local_at bs k r \<longleftrightarrow> (\<exists>i>k. (\<forall>x. k \<le> x \<and> x < i \<longrightarrow> email_char (bs ! x) \<or> bs ! x = 0x2e) \<and> bs ! i = 0x40
     \<and> domain_at bs (i + 1) r)"

definition email_at :: "bytes \<Rightarrow> nat \<Rightarrow> nat \<Rightarrow> bool" where
  "email_at bs k r \<longleftrightarrow> email_char (bs ! k) \<and> local_at bs (k + 1) r"

lemma email_classes:
  "\<not> email_char 0x2e" "\<not> email_char 0x40" "lower c \<Longrightarrow> \<not> email_stop c" "email_stop c \<Longrightarrow> \<not> lower c"
  by (auto simp: email_char_def lower_def email_stop_def)

lemma end_at_bounds: "end_at bs k j r \<Longrightarrow> k \<le> r \<and> r < length bs"
  by (simp add: end_at_def)

lemma domain_at_bounds: "domain_at bs k r \<Longrightarrow> k < r \<and> r < length bs"
  by (auto simp: domain_at_def end_at_def)

lemma local_at_bounds: "local_at bs k r \<Longrightarrow> k < r \<and> r < length bs"
  using domain_at_bounds by (fastforce simp: local_at_def)

subsection \<open>The scanner recognises the grammar\<close>

text \<open>The result of a scan is the position of the end, or 0.\<close>

definition scans :: "nat option \<Rightarrow> (nat \<Rightarrow> bool) \<Rightarrow> bool" where
  "scans res P \<longleftrightarrow> (\<exists>v. res = Some v \<and> (\<forall>r. P r \<longleftrightarrow> r = v \<and> v \<noteq> 0))"

lemma scans_none: "(\<And>r. \<not> P r) \<Longrightarrow> scans (Some 0) P"
  by (simp add: scans_def)

lemma scans_cong: "scans res P \<Longrightarrow> (\<And>r. Q r \<longleftrightarrow> P r) \<Longrightarrow> scans res Q"
  by (simp add: scans_def)

lemma end_at_step:
  assumes "k < length bs" "lower (bs ! k)"
  shows "end_at bs k (Suc j) r \<longleftrightarrow> end_at bs (k + 1) j r"
proof
  assume e: "end_at bs k (Suc j) r"
  then have "r \<noteq> k" using assms(2) email_classes(3) by (auto simp: end_at_def)
  with e show "end_at bs (k + 1) j r" by (simp add: end_at_def)
next
  assume e: "end_at bs (k + 1) j r"
  have "lower (bs ! x)" if "k \<le> x" "x < r" for x
    using that e assms(2) by (cases "x = k") (auto simp: end_at_def)
  with e show "end_at bs k (Suc j) r" by (simp add: end_at_def)
qed

lemma end_at_stop:
  assumes "k < length bs" "email_stop (bs ! k)"
  shows "end_at bs k j r \<longleftrightarrow> r = k"
proof
  assume e: "end_at bs k j r"
  have "\<not> k < r" using e assms(2) email_classes(4) by (auto simp: end_at_def)
  with e show "r = k" by (simp add: end_at_def)
qed (use assms in \<open>auto simp: end_at_def\<close>)

lemma end_at_other:
  assumes "\<not> email_stop (bs ! k)" "\<not> lower (bs ! k) \<or> j = 0"
  shows "\<not> end_at bs k j r"
proof
  assume e: "end_at bs k j r"
  then have "r \<noteq> k" using assms(1) by (auto simp: end_at_def)
  with e assms(2) show False by (auto simp: end_at_def)
qed

lemma email_end_ok:
  assumes "holds M p bs" "0 < k"
  shows "scans (email_end M p (length bs) k j) (end_at bs k j)"
  using assms(2)
proof (induction j arbitrary: k)
  case 0
  show ?case
  proof (cases "k < length bs")
    case True
    then have at: "M (p + k) = Some (bs ! k)" using holds_at [OF assms(1)] by blast
    show ?thesis
      using True at 0 end_at_stop [of k bs 0] end_at_other [of bs k 0]
      by (subst email_end.simps) (auto simp: scans_def)
  next
    case False
    then show ?thesis by (subst email_end.simps) (use end_at_bounds in \<open>fastforce intro: scans_none\<close>)
  qed
next
  case (Suc j)
  show ?case
  proof (cases "k < length bs")
    case True
    then have at: "M (p + k) = Some (bs ! k)" using holds_at [OF assms(1)] by blast
    consider (stop) "email_stop (bs ! k)" | (lower) "\<not> email_stop (bs ! k)" "lower (bs ! k)"
      | (other) "\<not> email_stop (bs ! k)" "\<not> lower (bs ! k)" by blast
    then show ?thesis
    proof cases
      case stop
      then show ?thesis using True at Suc.prems end_at_stop [of k bs "Suc j"]
        by (subst email_end.simps) (auto simp: scans_def)
    next
      case lower
      have "scans (email_end M p (length bs) (k + 1) j) (end_at bs (k + 1) j)" by (rule Suc.IH) simp
      then show ?thesis using True at lower end_at_step [OF True lower(2), of j]
        by (subst email_end.simps) (auto intro: scans_cong)
    next
      case other
      then show ?thesis using True at end_at_other [of bs k "Suc j"]
        by (subst email_end.simps) (auto intro: scans_none)
    qed
  next
    case False
    then show ?thesis by (subst email_end.simps) (use end_at_bounds in \<open>fastforce intro: scans_none\<close>)
  qed
qed

lemma email_tld_ok:
  assumes "holds M p bs"
  shows "scans (email_tld M p (length bs) k) (\<lambda>r. end_at bs k 4 r \<and> k + 2 \<le> r)"
proof (cases "k + 1 < length bs")
  case False
  then show ?thesis by (auto simp: email_tld_def end_at_def intro: scans_none)
next
  case True
  then have at: "M (p + k) = Some (bs ! k)" "M (p + (k + 1)) = Some (bs ! (k + 1))"
    using holds_at [OF assms, of k] holds_at [OF assms, of "k + 1"] by simp_all
  show ?thesis
  proof (cases "lower (bs ! k) \<and> lower (bs ! (k + 1))")
    case low: True
    have "end_at bs k 4 r \<and> k + 2 \<le> r \<longleftrightarrow> end_at bs (k + 2) 2 r" for r
      using end_at_step [of k bs 3 r] end_at_step [of "k + 1" bs 2 r] True low end_at_bounds [of bs "k + 2" 2 r]
      by (auto simp: numeral_eq_Suc)
    then show ?thesis using True at low scans_cong [OF email_end_ok [OF assms, of "k + 2" 2]]
      by (simp add: email_tld_def)
  next
    case False
    then have "\<not> (end_at bs k 4 r \<and> k + 2 \<le> r)" for r
      by (auto simp: end_at_def dest: spec [of _ k] spec [of _ "k + 1"])
    then show ?thesis using True at False by (auto simp: email_tld_def intro: scans_none)
  qed
qed

lemma run_step:
  assumes "C (bs ! k)" "\<not> C d" "bs ! (k + 1) = d \<Longrightarrow> \<not> k + 1 < length bs"
    and "\<And>r. Q (k + 1) r \<Longrightarrow> k + 1 < length bs"
  shows "(\<exists>j>k. (\<forall>x. k \<le> x \<and> x < j \<longrightarrow> C (bs ! x)) \<and> bs ! j = d \<and> Q j r)
    \<longleftrightarrow> (\<exists>j>k + 1. (\<forall>x. k + 1 \<le> x \<and> x < j \<longrightarrow> C (bs ! x)) \<and> bs ! j = d \<and> Q j r)"
proof
  assume "\<exists>j>k. (\<forall>x. k \<le> x \<and> x < j \<longrightarrow> C (bs ! x)) \<and> bs ! j = d \<and> Q j r"
  then obtain j where j: "k < j" "\<forall>x. k \<le> x \<and> x < j \<longrightarrow> C (bs ! x)" "bs ! j = d" "Q j r" by blast
  then have "j \<noteq> k + 1" using assms(3,4) by blast
  with j show "\<exists>j>k + 1. (\<forall>x. k + 1 \<le> x \<and> x < j \<longrightarrow> C (bs ! x)) \<and> bs ! j = d \<and> Q j r"
    by (intro exI [of _ j]) auto
next
  assume "\<exists>j>k + 1. (\<forall>x. k + 1 \<le> x \<and> x < j \<longrightarrow> C (bs ! x)) \<and> bs ! j = d \<and> Q j r"
  then obtain j where "k + 1 < j" "\<forall>x. k + 1 \<le> x \<and> x < j \<longrightarrow> C (bs ! x)" "bs ! j = d" "Q j r" by blast
  then show "\<exists>j>k. (\<forall>x. k \<le> x \<and> x < j \<longrightarrow> C (bs ! x)) \<and> bs ! j = d \<and> Q j r"
    using assms(1) by (intro exI [of _ j]) (metis Suc_eq_plus1 Suc_leI add_lessD1 le_neq_implies_less)
qed

lemma run_here:
  assumes "C (bs ! k)" "\<not> C d" "bs ! (k + 1) = d"
  shows "(\<exists>j>k. (\<forall>x. k \<le> x \<and> x < j \<longrightarrow> C (bs ! x)) \<and> bs ! j = d \<and> Q j r) \<longleftrightarrow> Q (k + 1) r"
proof
  assume "\<exists>j>k. (\<forall>x. k \<le> x \<and> x < j \<longrightarrow> C (bs ! x)) \<and> bs ! j = d \<and> Q j r"
  then obtain j where j: "k < j" "\<forall>x. k \<le> x \<and> x < j \<longrightarrow> C (bs ! x)" "bs ! j = d" "Q j r" by blast
  then have "\<not> k + 1 < j" using assms(2,3) by (metis le_add1)
  with j show "Q (k + 1) r" by (metis Suc_eq_plus1 Suc_leI le_neq_implies_less)
next
  assume "Q (k + 1) r"
  then show "\<exists>j>k. (\<forall>x. k \<le> x \<and> x < j \<longrightarrow> C (bs ! x)) \<and> bs ! j = d \<and> Q j r"
    using assms by (intro exI [of _ "k + 1"]) (auto simp: less_Suc_eq)
qed

lemma run_none: "\<not> C (bs ! k) \<Longrightarrow> \<not> (\<exists>j>k. (\<forall>x. k \<le> x \<and> x < j \<longrightarrow> C (bs ! x)) \<and> R j)"
  by blast

lemma email_domain_ok:
  assumes "holds M p bs"
  shows "scans (email_domain M p (length bs) k) (domain_at bs k)"
proof (induction "length bs - k" arbitrary: k rule: less_induct)
  case less
  let ?Q = "\<lambda>j r. end_at bs (j + 1) 4 r \<and> j + 3 \<le> r"
  show ?case
  proof (cases "k < length bs \<and> email_char (bs ! k)")
    case False
    have "\<not> domain_at bs k r" for r
      using False domain_at_bounds [of bs k r] run_none [of email_char bs k "\<lambda>j. bs ! j = 0x2e \<and> ?Q j r"]
      unfolding domain_at_def by (meson less_trans)
    then show ?thesis using False holds_at [OF assms, of k]
      by (subst email_domain.simps) (auto intro: scans_none)
  next
    case True
    then have at: "M (p + k) = Some (bs ! k)" using holds_at [OF assms] by blast
    show ?thesis
    proof (cases "k + 1 < length bs \<and> bs ! (k + 1) = 0x2e")
      case dot: True
      have "domain_at bs k r \<longleftrightarrow> end_at bs (k + 2) 4 r \<and> k + 2 + 2 \<le> r" for r
        using run_here [of email_char bs k "0x2e" ?Q r] True dot email_classes(1)
        by (simp add: domain_at_def numeral_eq_Suc)
      then show ?thesis
        using True dot at holds_at [OF assms, of "k + 1"] scans_cong [OF email_tld_ok [OF assms, of "k + 2"]]
        by (subst email_domain.simps) simp
    next
      case False
      have "domain_at bs k r \<longleftrightarrow> domain_at bs (k + 1) r" for r
        unfolding domain_at_def
        by (rule run_step) (use True False email_classes(1) in \<open>auto simp: end_at_def\<close>)
      moreover have "scans (email_domain M p (length bs) (k + 1)) (domain_at bs (k + 1))"
        using True by (intro less) auto
      ultimately show ?thesis
        using True False at holds_at [OF assms, of "k + 1"] scans_cong by (subst email_domain.simps) auto
    qed
  qed
qed

lemma email_local_ok:
  assumes "holds M p bs"
  shows "scans (email_local M p (length bs) k) (local_at bs k)"
proof (induction "length bs - k" arbitrary: k rule: less_induct)
  case less
  let ?C = "\<lambda>c. email_char c \<or> c = 0x2e" and ?Q = "\<lambda>i r. domain_at bs (i + 1) r"
  have at_sign: "\<not> ?C 0x40" using email_classes(2) by simp
  show ?case
  proof (cases "k < length bs \<and> ?C (bs ! k)")
    case False
    have "\<not> local_at bs k r" for r
      using False local_at_bounds [of bs k r] run_none [of ?C bs k "\<lambda>j. bs ! j = 0x40 \<and> ?Q j r"]
      unfolding local_at_def by (meson less_trans)
    then show ?thesis using False holds_at [OF assms, of k]
      by (subst email_local.simps) (auto intro: scans_none)
  next
    case True
    then have at: "M (p + k) = Some (bs ! k)" using holds_at [OF assms] by blast
    show ?thesis
    proof (cases "k + 1 < length bs \<and> bs ! (k + 1) = 0x40")
      case dot: True
      have "local_at bs k r \<longleftrightarrow> domain_at bs (k + 2) r" for r
        using run_here [of ?C bs k "0x40" ?Q r] True dot at_sign by (simp add: local_at_def)
      then show ?thesis
        using True dot at holds_at [OF assms, of "k + 1"] scans_cong [OF email_domain_ok [OF assms, of "k + 2"]]
        by (subst email_local.simps) auto
    next
      case False
      have "local_at bs k r \<longleftrightarrow> local_at bs (k + 1) r" for r
        unfolding local_at_def
        by (rule run_step [where C = ?C]) (use True False at_sign domain_at_bounds in \<open>fastforce+\<close>)
      moreover have "scans (email_local M p (length bs) (k + 1)) (local_at bs (k + 1))"
        using True by (intro less) auto
      ultimately show ?thesis
        using True False at holds_at [OF assms, of "k + 1"] scans_cong by (subst email_local.simps) auto
    qed
  qed
qed

lemma email_address_ok:
  assumes "holds M (pk_payload pk) bs" "unat (pk_payload_packet_len pk) = length bs"
  obtains r where "ipoque_check_for_email_address M pk k = Some r"
    "\<And>e. email_at bs (unat k) e \<longleftrightarrow> e = unat r \<and> r \<noteq> 0"
proof -
  let ?k = "unat k"
  show thesis
  proof (cases "?k < length bs \<and> email_char (bs ! ?k)")
    case True
    obtain v where v: "email_local M (pk_payload pk) (length bs) (?k + 1) = Some v"
      "\<And>r. local_at bs (?k + 1) r \<longleftrightarrow> r = v \<and> v \<noteq> 0"
      using email_local_ok [OF assms(1), of "?k + 1"] by (auto simp: scans_def)
    have "v < 65536" if "v \<noteq> 0"
      using v(2) [of v] that local_at_bounds [of bs "?k + 1" v] assms(2) unat_u16_less [of "pk_payload_packet_len pk"] by simp
    then have u: "unat (of_nat v :: u16) = v" by (cases "v = 0") (simp_all add: unat_of_nat take_bit_eq_mod)
    then have "(of_nat v :: u16) = 0 \<longleftrightarrow> v = 0" by (metis unat_eq_zero)
    with u show thesis
      using True v holds_at [OF assms(1), of ?k] assms(2)
      by (intro that [of "of_nat v"]) (simp_all add: ipoque_check_for_email_address_def Let_def email_at_def)
  next
    case False
    have "\<not> email_at bs ?k e" for e using False local_at_bounds [of bs "?k + 1" e] by (auto simp: email_at_def)
    then show thesis
      using False holds_at [OF assms(1), of ?k] assms(2)
      by (intro that [of 0]) (auto simp: ipoque_check_for_email_address_def Let_def)
  qed
qed

end
