(* ===== verification/Ipq_Msn.thy ===== *)
theory Ipq_Msn
  imports Ipq_Soulseek Ipq_Email
begin

text \<open>
  MSN (\<^verbatim>\<open>msn.c\<close>): the first packets of a flow, connections through HTTP proxies, transfers between hosts, and flows
  already taken for SSL. Packets five and six of such a flow are compared with eight bytes whatever their length: slack eight.
\<close>

abbreviation (input) "msn_add m \<equiv> ipoque_int_add_connection IPOQUE_PROTOCOL_MSN m"

text \<open>A function that returns with the protocol added when the condition holds, and goes on with the rest otherwise.\<close>

abbreviation (input) "msn_if c rest m \<equiv> branch c (ipoque_int_add_connection IPOQUE_PROTOCOL_MSN m) (rest m)"

subsection \<open>The first packets\<close>

definition msn_stun :: "mem \<Rightarrow> detection_module \<Rightarrow> bool option" where
  "msn_stun M m =
     allM [Some (32 < plen m), byte_is M (pay m) ((=) 0x02), word_is M (pay m + 8) ((=) 0x2112a442),
           word_is M (pay m + 24) ((=) 0x000f0004), word_is M (pay m + 28) ((=) 0x72c64bc6)]"

definition msn_version :: "mem \<Rightarrow> detection_module \<Rightarrow> bool option" where
  "msn_version M m =
     (let n = unat (plen m) in
      allM [Some (10 < n), Some (n < 100), byte_is M (pay m + (n - 2)) ((=) 0x0d), byte_is M (pay m + (n - 1)) ((=) 0x0a),
            mem_eq M (pay m) ''VER '',
            anyM [mem_eq M (pay m + (n - 6)) ''CVR'', mem_eq M (pay m + (n - 8)) ''MSNP'', mem_eq M (pay m + 4) ''MSNFT'']])"

definition msn_content :: "mem \<Rightarrow> detection_module \<Rightarrow> nat \<Rightarrow> string \<Rightarrow> bool option" where
  "msn_content M m n s =
     (let c = pk_content_line (ds_packet m) in allM [Some (ol_ptr c \<noteq> NULL), Some (unat (ol_len c) = n), mem_eq M (ol_ptr c) s])"

abbreviation (input) "msn_messenger M m \<equiv> msn_content M m 27 ''application/x-msn-messenger''"

text \<open>The request for the gateway, by path or behind the name of a host.\<close>

definition msn_gateway :: "mem \<Rightarrow> detection_module \<Rightarrow> bool option" where
  "msn_gateway M m =
     allM [Some (400 < plen m), anyM [Some (detected IPOQUE_PROTOCOL_HTTP m), mem_eq M (pay m) ''POST ''],
       do { url \<leftarrow> mem_eq M (pay m + 5) ''http://'';
            if url then any_index (\<lambda>c. allM [mem_eq M (pay m + c) ''/'', mem_eq M (pay m + c) ''/gateway/gateway.dll'']) 13 50
            else mem_eq M (pay m + 5) ''/gateway/gateway.dll'' }]"

definition msn_xml :: "mem \<Rightarrow> detection_module \<Rightarrow> bool option" where
  "msn_xml M m =
     allM [msn_content M m 23 ''text/xml; charset=utf-8'',
           anyM [either_has IPOQUE_PROTOCOL_MSN m,
                 anyM (List.map (\<lambda>l. allM [Some (4 \<le> ol_len l), anyM [mem_eq M (ol_ptr l) ''CVR '', mem_eq M (ol_ptr l) ''VER '',
                   mem_eq M (ol_ptr l) ''ANS '']]) (lines_of m))]]"

definition msn_reply :: "mem \<Rightarrow> detection_module \<Rightarrow> bool option" where
  "msn_reply M m =
     allM [counter_is m (\<lambda>c. c \<le> 2), Some (100 < plen m),
           anyM [Some (detected IPOQUE_PROTOCOL_HTTP m), mem_eq M (pay m) ''HTTP/1.0 200 OK'', mem_eq M (pay m) ''HTTP/1.1 200 OK'']]"

text \<open>The test of a reply stands twice in the source, for the first packet and for the second.\<close>

definition msn_if_reply :: "mem \<Rightarrow> (detection_module \<Rightarrow> detection_module option) \<Rightarrow> detection_module \<Rightarrow> detection_module option" where
  "msn_if_reply M next m =
     branch (msn_reply M m) (do { m \<leftarrow> parse_lines M m; msn_if (msn_messenger M m) next m }) (next m)"

text \<open>A number and a mail address; \<open>False\<close> is the jump to the exclusion.\<close>

definition msn_email :: "mem \<Rightarrow> detection_module \<Rightarrow> nat \<Rightarrow> bool option" where
  "msn_email M m k = do { e \<leftarrow> ipoque_check_for_email_address M (ds_packet m) (of_nat k); Some (e \<noteq> 0) }"

definition msn_user :: "mem \<Rightarrow> detection_module \<Rightarrow> bool option" where
  "msn_user M m =
     (let n = unat (plen m) in
      do { r \<leftarrow> first_index (\<lambda>k. byte_is M (pay m + k) (\<lambda>x. x < 0x30 \<or> 0x39 < x)) 4 (n - 12);
           case r of None \<Rightarrow> Some False
           | Some k \<Rightarrow> do {
               b \<leftarrow> byte_is M (pay m + k) ((=) 0x20);
               if \<not> b then Some False
               else do {
                 r \<leftarrow> first_index (\<lambda>j. anyM [msn_email M m j, allM [Some (j + 1 < n), byte_is M (pay m + j) (\<lambda>x. x < 20 \<or> 128 < x)]])
                       k (n - 12);
                 case r of None \<Rightarrow> Some False | Some j \<Rightarrow> msn_email M m j } } })"

subsection \<open>Later packets\<close>

definition msn_transfer :: "mem \<Rightarrow> detection_module \<Rightarrow> detection_module option" where
  "msn_transfer M m =
     (let tcp = pk_tcp (ds_packet m); out = exclude IPOQUE_PROTOCOL_MSN m;
          late = branch (allM [counter_is m (\<lambda>c. c \<le> 100), anyM [source_is M tcp ((=) 443), dest_is M tcp ((=) 443)]])
            (branch (allM [Some (300 < plen m), anyM [mem_eq M (pay m + 56) ''INVITE MSNMSGR'', mem_eq M (pay m + 172) ''INVITE MSNMSGR'']])
               (msn_add m) (Some m)) out in
      do { stage \<leftarrow> get_stage ''msn_stage'' m;
           if stage = 0
           then branch (allM [Some (plen m = 4), word_is M (pay m) ((=) 0x04000000)]) (set_stage ''msn_stage'' (1 + dirn m) m) late
           else if stage = 1 + dirn m
           then branch (allM [Some (10 < plen m), word_is M (pay m) ((=) 0x666f6f00)]) (msn_add m)
               (branch (allM [Some (plen m = 56), word_is M (pay m + 16) ((=) 0)]) (set_stage ''msn_stage'' (3 + dirn m) m) late)
           else if stage = 3 + dirn m \<or> stage = 4 - dirn m
           then branch (allM [Some (plen m = 4), word_is M (pay m) ((=) 0x30000000)]) (msn_add m) late
           else late })"

definition msn_known :: "mem \<Rightarrow> detection_module \<Rightarrow> detection_module option" where
  "msn_known M m =
     msn_if (allM [either_has IPOQUE_PROTOCOL_MSN m, counter_is m ((=) 1), Some (12 < plen m), mem_eq M (pay m) ''recipientid=''])
       (msn_transfer M) m"

definition msn_connect :: "mem \<Rightarrow> detection_module \<Rightarrow> detection_module option" where
  "msn_connect M m =
     msn_if (allM [Some (42 \<le> plen m), mem_eq M (pay m) ''CONNECT messenger.hotmail.com:1863 HTTP/1.''])
       (\<lambda>m. branch (allM [Some (18 \<le> plen m), anyM [mem_eq M (pay m) ''USR '', mem_eq M (pay m) ''ANS '']])
              (branch (msn_user M m) (msn_add m) (exclude IPOQUE_PROTOCOL_MSN m))
              (msn_if_reply M (msn_known M) m)) m"

definition msn_post :: "mem \<Rightarrow> detection_module \<Rightarrow> detection_module option" where
  "msn_post M m =
     branch (msn_gateway M m)
       (do { m \<leftarrow> parse_lines M m; msn_if (msn_xml M m) (msn_if_reply M (msn_connect M)) m })
       (msn_if_reply M (msn_connect M) m)"

definition msn_first :: "mem \<Rightarrow> detection_module \<Rightarrow> detection_module option" where
  "msn_first M m =
     msn_if (anyM [msn_stun M m, msn_version M m])
       (\<lambda>m. branch (allM [Some (100 < plen m), anyM [Some (detected IPOQUE_PROTOCOL_HTTP m), mem_eq M (pay m) ''POST http://'']])
              (do { m \<leftarrow> parse_lines M m; msn_if (msn_messenger M m) (msn_post M) m })
              (msn_post M m)) m"

subsection \<open>The dissector\<close>

definition msn_body :: "mem \<Rightarrow> detection_module \<Rightarrow> detection_module option" where
  "msn_body M m =
     branch (anyM [counter_is m ((=) 1), allM [Some (detected IPOQUE_PROTOCOL_SSL m), counter_is m (\<lambda>c. c \<le> 3)]])
       (msn_first M m) (msn_if_reply M (msn_known M) m)"

text \<open>Flows taken for SSL: packet seven, and two packets with a certain head among the fifth and sixth.\<close>

definition ipoque_search_msn_tcp :: "mem \<Rightarrow> detection_module \<Rightarrow> detection_module option" where
  "ipoque_search_msn_tcp M m =
     (if \<not> detected IPOQUE_PROTOCOL_SSL m then msn_body M m
      else msn_if (allM [counter_is m ((=) 7), Some (300 < plen m),
               anyM [mem_eq M (pay m + 24) ''MSNSLP'', allM [word_is M (pay m) ((=) 0x30000000), word_is M (pay m + 4) ((=) 0)]]])
        (\<lambda>m. branch (allM [counter_is m (\<lambda>c. c = 5 \<or> c = 6), word_is M (pay m) ((=) 0x18000000), word_is M (pay m + 4) ((=) 0)])
           (do { f \<leftarrow> get_stage ''msn_ssl_ft'' m;
                 m \<leftarrow> set_stage ''msn_ssl_ft'' ((f + 1) mod 4) m;
                 if (f + 1) mod 4 = 2 then msn_add m else Some m })
           (msn_body M m)) m)"

definition ipoque_search_udp_msn_misc :: "mem \<Rightarrow> detection_module \<Rightarrow> detection_module option" where
  "ipoque_search_udp_msn_misc M m =
     branch (either_has IPOQUE_PROTOCOL_MSN m)
       (msn_if (allM [Some (plen m = 20), word_is M (pay m + 4) ((=) 0), byte_is M (pay m + 9) ((=) 0), half_is M (pay m + 10) ((=) 0x0100)])
          Some m)
       (exclude IPOQUE_PROTOCOL_MSN m)"

definition ipoque_search_msn :: "mem \<Rightarrow> detection_module \<Rightarrow> detection_module option" where
  "ipoque_search_msn M m =
     branch (excluded IPOQUE_PROTOCOL_MSN m) (Some m)
       (if pk_tcp (ds_packet m) \<noteq> NULL
        then if detected IPOQUE_PROTOCOL_UNKNOWN m \<or> detected IPOQUE_PROTOCOL_HTTP m \<or> detected IPOQUE_PROTOCOL_SSL m
             then ipoque_search_msn_tcp M m else Some m
        else if pk_udp (ds_packet m) \<noteq> NULL then ipoque_search_udp_msn_misc M m else Some m)"

subsection \<open>The contract\<close>

lemma msn_email_total:
  assumes "view_ok M m"
  shows "\<exists>b. msn_email M m k = Some b"
proof -
  obtain bs where "length bs = unat (plen m)" "holds M (pay m) bs"
    using holds_exists [OF pay_readable_0 [OF assms order_refl]] by blast
  then obtain r where "ipoque_check_for_email_address M (ds_packet m) (of_nat k) = Some r"
    using email_address_ok [of M "ds_packet m" bs "of_nat k"] by metis
  then show ?thesis by (simp add: msn_email_def)
qed

lemma msn_user_total:
  assumes "view_ok M m"
  shows "\<exists>b. msn_user M m = Some b"
  unfolding msn_user_def Let_def using assms
  by (intro condition_rules bind_total msn_email_total) (auto simp: value_simps simp del: allM.simps anyM.simps)

lemma msn_content_total:
  assumes "view_ok M m" "pk_packet_lines_parsed_complete (ds_packet m)" "length s \<le> n"
  shows "\<exists>b. msn_content M m n s = Some b"
proof -
  let ?c = "pk_content_line (ds_packet m)"
  have "\<exists>b. mem_eq M (ol_ptr ?c) s = Some b" if "ol_ptr ?c \<noteq> NULL" "unat (ol_len ?c) = n"
    by (rule mem_eq_total [OF readable_mono [OF noted_line_readable(2) [OF assms(1,2) that(1)]]]) (use that assms(3) in simp)
  then show ?thesis unfolding msn_content_def Let_def by (intro cond_total) simp_all
qed

lemma msn_xml_total:
  assumes "view_ok M m" "pk_packet_lines_parsed_complete (ds_packet m)"
  shows "\<exists>b. msn_xml M m = Some b"
proof -
  have line: "\<exists>b. mem_eq M (ol_ptr l) s = Some b" if "l \<in> set (lines_of m)" "4 \<le> ol_len l" "length s \<le> 4" for l s
    by (rule mem_eq_total [OF readable_mono [OF parsed_line_readable(1) [OF assms that(1)]]]) (use that in \<open>simp add: word_le_nat_alt\<close>)
  show ?thesis
    unfolding msn_xml_def using assms by (intro cond_total msn_content_total line either_has_total) simp_all
qed

lemma msn_gateway_total: "view_ok M m \<Longrightarrow> \<exists>b. msn_gateway M m = Some b"
  unfolding msn_gateway_def by (intro condition_rules bind_total) (auto simp: value_simps simp del: allM.simps anyM.simps)

lemma msn_if_reply_good:
  assumes "view_ok M m" "ds_flow m \<noteq> None"
    and rest: "\<And>m'. view_ok M m' \<Longrightarrow> ds_flow m' \<noteq> None \<Longrightarrow> same_windows (ds_packet m) (ds_packet m') \<Longrightarrow> good M m' (next m')"
  shows "good M m (msn_if_reply M next m)"
proof -
  have "\<exists>b. msn_reply M m = Some b"
    unfolding msn_reply_def using assms(1,2) by (intro condition_rules) (simp_all add: value_simps del: allM.simps anyM.simps)
  then show ?thesis
    unfolding msn_if_reply_def using assms(1,2)
    by (intro branch_good parse_then add_connection_good msn_content_total rest) (simp_all add: same_windows_def)
qed

lemma msn_transfer_good:
  assumes "view_ok M m" "ds_flow m \<noteq> None" "pk_tcp (ds_packet m) \<noteq> NULL"
  shows "good M m (msn_transfer M m)"
  unfolding msn_transfer_def Let_def using assms
  by (intro get_stage_good if_good branch_good add_connection_good set_stage_good exclude_good good_Some condition_rules)
     (simp_all add: value_simps del: allM.simps anyM.simps)

lemma msn_known_good:
  assumes "view_ok M m" "ds_flow m \<noteq> None" "pk_tcp (ds_packet m) \<noteq> NULL"
  shows "good M m (msn_known M m)"
  unfolding msn_known_def using assms
  by (intro branch_good add_connection_good msn_transfer_good condition_rules) (simp_all add: value_simps del: allM.simps anyM.simps)

lemma msn_connect_good:
  assumes "view_ok M m" "ds_flow m \<noteq> None" "pk_tcp (ds_packet m) \<noteq> NULL"
  shows "good M m (msn_connect M m)"
  unfolding msn_connect_def using assms
  by (intro branch_good add_connection_good exclude_good msn_if_reply_good msn_known_good msn_user_total condition_rules)
     (simp_all add: value_simps del: allM.simps anyM.simps)

lemma msn_first_good:
  assumes "view_ok M m" "ds_flow m \<noteq> None" "pk_tcp (ds_packet m) \<noteq> NULL"
  shows "good M m (msn_first M m)"
proof -
  have stun: "\<exists>b. msn_stun M m = Some b" "\<exists>b. msn_version M m = Some b"
    unfolding msn_stun_def msn_version_def Let_def using assms(1)
    by (intro condition_rules; simp add: value_simps del: allM.simps anyM.simps)+
  have post: "good M m' (msn_post M m')" if "view_ok M m'" "ds_flow m' \<noteq> None" "pk_tcp (ds_packet m') \<noteq> NULL" for m'
    unfolding msn_post_def using that
    by (intro branch_good parse_then add_connection_good msn_if_reply_good msn_connect_good msn_gateway_total msn_xml_total)
       (simp_all add: same_windows_def)
  show ?thesis
    unfolding msn_first_def using assms
    by (intro branch_good parse_then add_connection_good post stun msn_content_total condition_rules)
       (simp_all add: value_simps del: allM.simps anyM.simps)
qed

lemma msn_good:
  assumes "view_ok M m" "ds_flow m \<noteq> None" "slack M m 8"
  shows "good M m (ipoque_search_msn M m)"
proof -
  have body: "good M m (msn_body M m)" if "pk_tcp (ds_packet m) \<noteq> NULL"
    unfolding msn_body_def using assms(1,2) that
    by (intro branch_good msn_first_good msn_if_reply_good msn_known_good cond_total counter_is_total) (simp_all add: same_windows_def)
  have ssl: "\<exists>b. allM [counter_is m (\<lambda>c. c = 5 \<or> c = 6), word_is M (pay m) ((=) 0x18000000), word_is M (pay m + 4) ((=) 0)] = Some b"
    using assms(2) by (intro cond_total counter_is_total slack_reads [OF assms(3)] slack_reads_0 [OF assms(3)]) simp_all
  show ?thesis
    unfolding ipoque_search_msn_def ipoque_search_msn_tcp_def ipoque_search_udp_msn_misc_def using assms(1,2)
    by (intro if_good branch_good body ssl get_stage_good good_then set_stage_good add_connection_good exclude_good good_Some
          condition_rules) (simp_all add: value_simps del: allM.simps anyM.simps)
qed

end
