(* ===== verification/Ipq_Irc.thy ===== *)
theory Ipq_Irc
  imports Ipq_Msn
begin

text \<open>
  IRC (\<^verbatim>\<open>irc.c\<close>): the detector of encrypted connections, a state machine over the lengths of segments that were measured in
  file transfers, the list of ports of a host, and the search for the two commands of a server.
\<close>

subsection \<open>The detector of encrypted connections\<close>

text \<open>
  The detector is a list of tests, each with a return. \<open>Seg n start from to full\<close>: a segment of \<open>n\<close> bytes in the direction of
  the transfer moves \<^verbatim>\<open>irc_stage2\<close> on from a stage, or starts a transfer when \<open>start\<close> says so, and may set
  \<^verbatim>\<open>irc_0x1000_full\<close>. \<open>Ack stages full sums\<close>: four bytes against that direction, with one of the sums in the last two,
  are taken for the acknowledgment of DCC.
\<close>

datatype irc_rule = Seg nat bool nat nat bool | Ack "nat list" bool "nat list"

definition irc_rules :: "irc_rule list" where
  "irc_rules =
     [Seg 1460 True 3 1 False, Seg 1460 False 1 2 False, Seg 1176 False 2 3 True, Ack [3] True [0x1000, 0x2000],
      Seg 1448 True 6 4 False, Seg 1448 False 4 5 False, Seg 1200 False 5 6 True, Ack [6] True [0x1000, 0x2000],
      Seg 1380 True 7 7 False, Ack [7] False [1380, 2760],
      Seg 1200 True 8 8 False, Ack [8] False [1200, 2400],
      Seg 1024 True 9 9 False, Ack [9, 15] False [1024, 2048],
      Seg 1248 True 10 10 False, Ack [10] False [1248, 2496],
      Seg 1448 False 5 11 False, Ack [4, 5, 11, 13] False [1448, 2896],
      Seg 1448 False 11 12 False, Seg 1448 False 12 13 False, Seg 952 False 13 14 False, Ack [14] False [8192],
      Seg 1448 False 9 15 False, Seg 1448 False 15 16 False, Seg 1200 False 16 17 False, Seg 1448 False 17 18 False,
      Seg 600 False 18 19 False, Ack [19] False [7168],
      Seg 1380 False 9 20 False, Ack [20] False [2404]]"

text \<open>Whether a test holds, given the stage, the direction of the transfer (0 when there is none) and the full mark.\<close>

fun irc_holds :: "mem \<Rightarrow> detection_module \<Rightarrow> nat \<Rightarrow> nat \<Rightarrow> nat \<Rightarrow> irc_rule \<Rightarrow> bool option" where
  "irc_holds M m stage direction full (Seg n start from to sets) =
     Some (unat (plen m) = n \<and> (start \<and> stage = 0 \<and> direction = 0 \<or> stage = from \<and> direction = 1 + dirn m))"
| "irc_holds M m stage direction full (Ack stages marked sums) =
     allM [Some (plen m = 4), Some (stage \<in> set stages \<or> marked \<and> full = 1), Some (direction = 2 - dirn m),
           half_is M (pay m + 2) (\<lambda>x. unat x \<in> set sums)]"

fun irc_apply :: "irc_rule \<Rightarrow> detection_module \<Rightarrow> detection_module option" where
  "irc_apply (Seg n start from to sets) m =
     do { m \<leftarrow> set_stage ''irc_stage2'' to m;
          m \<leftarrow> (if start then set_stage ''irc_direction'' (1 + dirn m) m else Some m);
          if sets then set_stage ''irc_0x1000_full'' 1 m else Some m }"
| "irc_apply (Ack stages marked sums) m = ipoque_int_add_connection IPOQUE_PROTOCOL_IRC m"

text \<open>The result says whether the function returned 1.\<close>

definition ipoque_search_irc_ssl_detect_ninty_percent_but_very_fast ::
    "mem \<Rightarrow> detection_module \<Rightarrow> (detection_module \<times> bool) option" where
  "ipoque_search_irc_ssl_detect_ninty_percent_but_very_fast M m =
     do { stage \<leftarrow> get_stage ''irc_stage2'' m;
          direction \<leftarrow> get_stage ''irc_direction'' m;
          full \<leftarrow> get_stage ''irc_0x1000_full'' m;
          r \<leftarrow> select_first (List.map (\<lambda>r. (irc_holds M m stage direction full r, Some r)) irc_rules) None;
          case r of None \<Rightarrow> Some (m, False)
          | Some r \<Rightarrow> do { m \<leftarrow> irc_apply r m; Some (m, True) } }"

subsection \<open>Ports and commands\<close>

definition irc_port_field :: "nat \<Rightarrow> string" where
  "irc_port_field i = ''irc_port'' @ [char_of (48 + i)]"

definition ipoque_is_duplicate :: "addr \<Rightarrow> nat \<Rightarrow> detection_module \<Rightarrow> bool option" where
  "ipoque_is_duplicate a port m =
     do { n \<leftarrow> get_id_field a ''irc_number_of_port'' m;
          any_index (\<lambda>i. do { p \<leftarrow> get_id_field a (irc_port_field i) m; Some (port = p) }) 0 n }"

text \<open>\<^verbatim>\<open>NOTICE\<close> or \<^verbatim>\<open>PRIVMSG\<close> in the first two lines; either letter may start either word.\<close>

function notice_from :: "mem \<Rightarrow> detection_module \<Rightarrow> nat \<Rightarrow> nat \<Rightarrow> bool option" where
  "notice_from M m i seen =
     (if i < unat (plen m) - 7
      then do { x \<leftarrow> M (pay m + i);
                hit \<leftarrow> allM [Some (x = 0x4e \<or> x = 0x50), anyM [mem_eq M (pay m + (i + 1)) ''OTICE '', mem_eq M (pay m + (i + 1)) ''RIVMSG '']];
                if hit then Some True
                else if x = 0x0a then if seen + 1 = 2 then Some False else notice_from M m (i + 1) (seen + 1)
                else notice_from M m (i + 1) seen }
      else Some False)"
  by auto
termination by (relation "measure (\<lambda>(M, m, i, s). unat (plen m) - i)") auto

declare notice_from.simps [simp del]

definition ipq_check_for_NOTICE_or_PRIVMSG :: "mem \<Rightarrow> detection_module \<Rightarrow> bool option" where
  "ipq_check_for_NOTICE_or_PRIVMSG M m = notice_from M m 0 0"

subsection \<open>The contract\<close>

lemma irc_holds_total: "view_ok M m \<Longrightarrow> \<exists>b. irc_holds M m s d f r = Some b"
proof (cases r)
  case (Ack stages marked sums)
  assume "view_ok M m"
  then show ?thesis
    unfolding Ack irc_holds.simps by (intro condition_rules) (simp_all add: value_simps del: allM.simps)
qed simp

lemma select_map_total:
  assumes "\<And>r. \<exists>b. c r = Some b"
  shows "\<exists>x. select_first (List.map (\<lambda>r. (c r, Some r)) rs) None = Some x \<and> (\<forall>r. x = Some r \<longrightarrow> r \<in> set rs \<and> c r = Some True)"
proof (induction rs)
  case (Cons r rs)
  obtain b where "c r = Some b" using assms by blast
  then show ?case using Cons.IH by (cases b) auto
qed simp

lemma irc_apply_good:
  assumes "view_ok M m" "ds_flow m \<noteq> None"
  shows "good M m (irc_apply r m)"
proof (cases r)
  case (Seg n s f t b)
  show ?thesis unfolding Seg irc_apply.simps using assms by (intro good_then if_good set_stage_good good_Some) simp_all
qed (use assms in \<open>simp add: add_connection_good\<close>)

lemma irc_detect_total:
  assumes "view_ok M m" "ds_flow m = Some fl"
  shows "\<exists>m' b. ipoque_search_irc_ssl_detect_ninty_percent_but_very_fast M m = Some (m', b) \<and> good M m (Some m')"
proof -
  define c where "c = irc_holds M m (fl_stage fl ''irc_stage2'') (fl_stage fl ''irc_direction'') (fl_stage fl ''irc_0x1000_full'')"
  obtain r where r: "select_first (List.map (\<lambda>r. (c r, Some r)) irc_rules) None = Some r"
    using select_map_total [of c irc_rules] irc_holds_total [OF assms(1)] unfolding c_def by blast
  show ?thesis
  proof (cases r)
    case None
    then have "ipoque_search_irc_ssl_detect_ninty_percent_but_very_fast M m = Some (m, False)"
      using r assms(2) by (simp add: ipoque_search_irc_ssl_detect_ninty_percent_but_very_fast_def get_stage_def c_def)
    then show ?thesis using assms(1) by (auto intro: good_Some)
  next
    case (Some x)
    obtain m' where "irc_apply x m = Some m'" "good M m (Some m')"
      using irc_apply_good [OF assms(1), of x] assms(2) by (auto simp: good_def)
    moreover from this have "ipoque_search_irc_ssl_detect_ninty_percent_but_very_fast M m = Some (m', True)"
      using r Some assms(2) by (simp add: ipoque_search_irc_ssl_detect_ninty_percent_but_very_fast_def get_stage_def c_def)
    ultimately show ?thesis by blast
  qed
qed

lemma notice_total:
  assumes "view_ok M m"
  shows "\<exists>b. notice_from M m i s = Some b"
proof (induction "unat (plen m) - i" arbitrary: i s rule: less_induct)
  case less
  show ?case
  proof (cases "i < unat (plen m) - 7")
    case True
    then have i: "i < unat (plen m)" by simp
    obtain x where x: "M (pay m + i) = Some x"
      using readable_at [OF pay_readable [OF assms, of i 1], of "pay m + i"] i by auto
    have "\<exists>b. allM [Some (x = 0x4e \<or> x = 0x50), anyM [mem_eq M (pay m + (i + 1)) ''OTICE '', mem_eq M (pay m + (i + 1)) ''RIVMSG '']] = Some b"
      using assms True by (intro condition_rules) auto
    moreover have "\<exists>b. notice_from M m (i + 1) t = Some b" for t using less.hyps [of "i + 1"] i by simp
    ultimately show ?thesis using x True by (subst notice_from.simps) (auto simp del: allM.simps)
  qed (subst notice_from.simps, simp add: exI [of _ False])
qed

subsection \<open>One direction is not enough\<close>

text \<open>No transfer, or one in the direction of the packet: then the packet is no acknowledgment and the direction stays.\<close>

definition one_way :: "bool \<Rightarrow> detection_module \<Rightarrow> bool" where
  "one_way dir m \<longleftrightarrow> (\<exists>fl. ds_flow m = Some fl \<and> fl_stage fl ''irc_direction'' \<in> {0, if dir then 2 else 1})"

lemma irc_one_way:
  assumes "one_way dir m" "pk_packet_direction (ds_packet m) = dir"
    and "ipoque_search_irc_ssl_detect_ninty_percent_but_very_fast M m = Some (m', b)"
  shows "one_way dir m'" "ds_packet m' = ds_packet m" "map_option fl_detected_protocol (ds_flow m') = map_option fl_detected_protocol (ds_flow m)"
proof -
  obtain fl where fl: "ds_flow m = Some fl" "fl_stage fl ''irc_direction'' \<in> {0, if dir then 2 else 1}"
    using assms(1) by (auto simp: one_way_def)
  define c where "c = irc_holds M m (fl_stage fl ''irc_stage2'') (fl_stage fl ''irc_direction'') (fl_stage fl ''irc_0x1000_full'')"
  obtain r where r: "select_first (List.map (\<lambda>r. (c r, Some r)) irc_rules) None = Some r"
    and step: "(case r of None \<Rightarrow> Some (m, False) | Some r \<Rightarrow> do { m \<leftarrow> irc_apply r m; Some (m, True) }) = Some (m', b)"
    using assms(3) fl(1)
    by (auto simp: ipoque_search_irc_ssl_detect_ninty_percent_but_very_fast_def get_stage_def c_def split: bind_splits)
  have sel: "r = Some x \<Longrightarrow> c x = Some True" for x
  proof -
    have "select_first (List.map (\<lambda>r. (c r, Some r)) rs) None = Some (Some x) \<Longrightarrow> c x = Some True" for rs
      by (induction rs) (auto split: bind_splits if_splits)
    then show "r = Some x \<Longrightarrow> c x = Some True" using r by blast
  qed
  have "one_way dir m' \<and> ds_packet m' = ds_packet m
      \<and> map_option fl_detected_protocol (ds_flow m') = map_option fl_detected_protocol (ds_flow m)"
  proof (cases r)
    case None
    then show ?thesis using step assms(1) by simp
  next
    case (Some x)
    then have x: "c x = Some True" "irc_apply x m = Some m'" using sel step by (auto split: bind_splits)
    show ?thesis
    proof (cases x)
      case (Seg n s f t u)
      then show ?thesis using x fl assms(2) by (auto simp: one_way_def set_stage_def split: if_splits)
    next
      case (Ack stages marked sums)
      then show ?thesis using x(1) fl(2) assms(2) by (auto simp: c_def split: if_splits)
    qed
  qed
  then show "one_way dir m'" "ds_packet m' = ds_packet m"
    "map_option fl_detected_protocol (ds_flow m') = map_option fl_detected_protocol (ds_flow m)" by blast+
qed

text \<open>Packets given to the detector one after the other.\<close>

fun irc_run :: "(mem \<times> packet_struct) list \<Rightarrow> detection_module \<Rightarrow> detection_module option" where
  "irc_run [] m = Some m"
| "irc_run ((M, pk) # ps) m =
     do { (m, _) \<leftarrow> ipoque_search_irc_ssl_detect_ninty_percent_but_very_fast M (m\<lparr>ds_packet := pk\<rparr>); irc_run ps m }"

lemma irc_run_one_way:
  "one_way dir m \<Longrightarrow> \<forall>p\<in>set ps. pk_packet_direction (snd p) = dir \<Longrightarrow> irc_run ps m = Some m'
    \<Longrightarrow> map_option fl_detected_protocol (ds_flow m') = map_option fl_detected_protocol (ds_flow m)"
proof (induction ps arbitrary: m)
  case (Cons p ps)
  obtain M pk where p: "p = (M, pk)" by fastforce
  let ?m = "m\<lparr>ds_packet := pk\<rparr>"
  obtain m1 b where s: "ipoque_search_irc_ssl_detect_ninty_percent_but_very_fast M ?m = Some (m1, b)" "irc_run ps m1 = Some m'"
    using Cons.prems(3) p by (auto split: bind_splits)
  have o: "one_way dir ?m" "pk_packet_direction (ds_packet ?m) = dir" using Cons.prems(1,2) p by (simp_all add: one_way_def)
  show ?case using Cons.IH [OF irc_one_way(1) [OF o s(1)] _ s(2)] Cons.prems(2) irc_one_way(3) [OF o s(1)] by simp
qed simp

end
