(* ===== verification/Dpi_Properties.thy ===== *)
theory Dpi_Properties
  imports Ipq_System Ipq_Irc
begin

text \<open>
  The properties of the detection module, each with an instance at a concrete state or packet where it has hypotheses:
  what the module guarantees first, then the inputs on which the code misbehaves.
\<close>

subsection \<open>Sample packets and states\<close>

text \<open>An NTP request and the first segment of an SSH connection, at address 1000.\<close>

definition ntp_packet :: bytes where
  "ntp_packet = [0x45, 0, 0, 76, 0, 0, 0, 0, 64, 17, 0, 0, 10, 0, 0, 1, 10, 0, 0, 2, 0, 123, 0, 123, 0, 56, 0, 0]
     @ 0x1b # replicate 47 0"

definition ntp_mem :: mem where
  "ntp_mem = mem_of 1000 ntp_packet"

lemma ntp_readable: "readable ntp_mem 1000 76"
  unfolding ntp_mem_def by (rule readable_mem_of) (simp_all add: ntp_packet_def)

lemma ntp_sized: "sized ntp_mem 1000"
proof -
  have "ntp_mem 1000 = Some 0x45" "ntp_mem 1002 = Some 0" "ntp_mem 1003 = Some 76"
    by (simp_all add: ntp_mem_def mem_of_def ntp_packet_def)
  then have "ip_ihl ntp_mem 1000 = Some 5" "ip_tot_len ntp_mem 1000 = Some 76"
    by (simp_all add: ip_ihl_def ip_tot_len_def rd16be_def be_val_def)
  then show ?thesis by (simp add: sized_def)
qed

text \<open>A module that detects all modelled protocols, and a system with a flow and two hosts.\<close>

definition new_module :: "(addr \<rightharpoonup> id_struct) \<Rightarrow> detection_module" where
  "new_module ids = the (ipoque_init_detection_module 1000 True ids)"

lemma new_module: "ipoque_init_detection_module 1000 True ids = Some (new_module ids)" "module_ok [] (new_module ids)"
proof -
  show i: "ipoque_init_detection_module 1000 True ids = Some (new_module ids)"
    by (simp add: new_module_def ipoque_init_detection_module_def)
  show "module_ok [] (new_module ids)" by (rule init_module_ok(1) [OF i])
qed

definition full_module :: detection_module where
  "full_module = the (set_protocol_detection_bitmask2 modelled_protocols (new_module Map.empty))"

lemma full_module:
  "set_protocol_detection_bitmask2 modelled_protocols (new_module Map.empty) = Some full_module"
  "module_ok (registered modelled_protocols) full_module" "detection_bitmask full_module = modelled_protocols"
proof -
  obtain m where m: "set_protocol_detection_bitmask2 modelled_protocols (new_module Map.empty) = Some m"
    "module_ok (registered modelled_protocols) m" "detection_bitmask m = modelled_protocols"
    by (rule set_bitmask_module_ok [OF new_module(2), of modelled_protocols Map.empty])
  then have "full_module = m" by (simp add: full_module_def)
  with m show "set_protocol_detection_bitmask2 modelled_protocols (new_module Map.empty) = Some full_module"
    "module_ok (registered modelled_protocols) full_module" "detection_bitmask full_module = modelled_protocols" by simp_all
qed

lemma ntp_call: "call_ok ntp_mem 1000 76 (Some zero_flow) NULL NULL m"
  using ntp_readable ntp_sized by (simp add: call_ok_def)

definition sample_system :: dpi_system where
  "sample_system = \<lparr>sy_module = Some full_module, sy_flows = [1 \<mapsto> zero_flow], sy_ids = Map.empty\<rparr>"

lemma sample_reach: "dpi_reach sample_system"
proof -
  let ?s1 = "dpi_start\<lparr>sy_module := Some (new_module Map.empty)\<rparr>"
  let ?s2 = "?s1\<lparr>sy_module := Some full_module\<rparr>"
  have "dpi_step dpi_start (Init 1000 True) None ?s1"
    using dpi_step.init [of dpi_start 1000 True] by (simp add: dpi_start_def new_module(1))
  moreover have "dpi_step ?s1 (Enable modelled_protocols) None ?s2"
    by (rule dpi_step.enable [of _ "new_module Map.empty"]) (simp_all add: full_module(1))
  moreover have "dpi_step ?s2 (New_flow 1) None sample_system"
    using dpi_step.new_flow [of 1 ?s2] by (simp add: dpi_start_def sample_system_def)
  ultimately show ?thesis by (meson dpi_reach.intros)
qed

lemma sample_input: "packet_input sample_system ntp_mem 1000 76 1 NULL NULL"
  using ntp_readable ntp_sized by (simp add: packet_input_def sample_system_def)

subsection \<open>The module as a whole\<close>





text \<open>C10: A packet of a reachable state is reported as a protocol the client has enabled, or as unknown.\<close>

theorem reported_protocol_enabled:
  assumes "dpi_reach s" "sy_module s = Some m" "dpi_step s (Packet M p len tick f src dst) (Some r) s'"
  shows "r = IPOQUE_PROTOCOL_UNKNOWN \<or> r \<in> bm_set (detection_bitmask m)"
  using assms(3)
proof (rule packet_stepE)
  fix m1 r' m'
  assume h: "Some r = Some r'" "sy_module s = Some m1" "packet_input s M p len f src dst"
    "ipoque_detection_process_packet dissector_of M p len tick (flow_arg s f) src dst (m1\<lparr>ds_ids := sy_ids s\<rparr>) = Some (r', m')"
  show ?thesis
    by (rule packet_total [OF reach_ok [OF assms(1)] assms(2) h(3), of tick]) (use h assms(2) in simp)
qed

theorem reported_protocol_enabled_witness:
  "\<exists>r s'. dpi_step sample_system (Packet ntp_mem 1000 76 5 1 NULL NULL) (Some r) s'
     \<and> (r = IPOQUE_PROTOCOL_UNKNOWN \<or> r \<in> bm_set modelled_protocols)"
proof -
  have m: "sy_module sample_system = Some full_module" by (simp add: sample_system_def)
  obtain r m' where run: "ipoque_detection_process_packet dissector_of ntp_mem 1000 76 5 (flow_arg sample_system 1) NULL NULL
      (full_module\<lparr>ds_ids := sy_ids sample_system\<rparr>) = Some (r, m')"
    by (rule packet_total [OF reach_ok [OF sample_reach] m sample_input, of 5])
  have "dpi_step sample_system (Packet ntp_mem 1000 76 5 1 NULL NULL) (Some r) (after_packet sample_system 76 1 m')"
    by (rule dpi_step.packet [OF m sample_input run])
  with reported_protocol_enabled [OF sample_reach m this] show ?thesis using full_module(3) by auto
qed

text \<open>C5: The four arrays by packet class are an optimisation that does not change the result: the dispatcher does exactly
  what a loop over the whole list of registered entries would do.\<close>

theorem dispatch_by_class_equivalent:
  assumes "call_ok M p len flow src dst m" "module_ok es m" "set es \<subseteq> set (registered modelled_protocols)"
    and "enables modelled_protocols m"
  shows "ipoque_detection_process_packet dissector_of M p len tick flow src dst m
    = process_packet_spec dissector_of es M p len tick flow src dst m"
  by (rule modelled.process_packet_refines [OF assms])

theorem dispatch_by_class_equivalent_witness:
  "ipoque_detection_process_packet dissector_of ntp_mem 1000 76 5 (Some zero_flow) NULL NULL full_module
    = process_packet_spec dissector_of (registered modelled_protocols) ntp_mem 1000 76 5 (Some zero_flow) NULL NULL full_module"
  by (rule dispatch_by_class_equivalent [OF ntp_call full_module(2)]) (simp_all add: enables_def full_module(3))

text \<open>C7: The registration fills the arrays from whatever they held before: the first array with the entries of the
  enabled protocols in the order of the source, the other four with the entries for their packet class, none beyond its
  102 slots.\<close>

theorem registration_fills_arrays:
  assumes "arrays_ok s"
  shows "\<exists>t. set_protocol_detection_bitmask2 dbm s = Some t \<and> arrays_ok t \<and> arrays_of t (registered dbm) \<and> sizes_ok t
    \<and> detection_bitmask t = dbm"
  by (rule set_protocol_detection_bitmask2_ok [OF assms, of dbm]) blast

theorem registration_fills_arrays_witness:
  "\<exists>t. set_protocol_detection_bitmask2 IPOQUE_BITMASK_SET_ALL full_module = Some t \<and> arrays_ok t
     \<and> arrays_of t (registered IPOQUE_BITMASK_SET_ALL) \<and> sizes_ok t \<and> detection_bitmask t = IPOQUE_BITMASK_SET_ALL"
  using full_module(2) by (intro registration_fills_arrays) (simp add: module_ok_def config_ok_def)


definition igmp_module :: detection_module where
  "igmp_module = full_module\<lparr>ds_packet := zero_packet\<lparr>pk_iph := 1000, pk_l4_protocol := 2\<rparr>, ds_flow := Some zero_flow,
     ds_src := NULL, ds_dst := NULL\<rparr>"




subsection \<open>Headers and connections\<close>

text \<open>C11: The header parser never looks or points outside the packet: if the total length covers the IP header, the TCP or
  UDP header and the payload it reports lie between the end of the fixed IP header and the end of the packet.\<close>

theorem headers_inside_packet:
  assumes "readable M p (unat len)" "20 \<le> unat len" "sized M p" "p \<noteq> NULL" "pk_iph (ds_packet m) = p"
  shows "\<exists>r m'. ipq_init_packet_header M len m = Some (r, m') \<and> windows_ok M (ds_packet m')
    \<and> (pk_tcp (ds_packet m') \<noteq> NULL \<longrightarrow> p + 20 \<le> pk_tcp (ds_packet m') \<and> pk_tcp (ds_packet m') + 20 \<le> p + unat len)
    \<and> (pk_udp (ds_packet m') \<noteq> NULL \<longrightarrow> p + 20 \<le> pk_udp (ds_packet m') \<and> pk_udp (ds_packet m') + 8 \<le> p + unat len)
    \<and> (pk_payload_packet_len (ds_packet m') \<noteq> 0 \<longrightarrow> p + 20 \<le> pk_payload (ds_packet m')
        \<and> pk_payload (ds_packet m') + unat (pk_payload_packet_len (ds_packet m')) \<le> p + unat len)"
  by (rule header_windows [OF assms]) blast

theorem headers_inside_packet_witness:
  "\<exists>r m'. ipq_init_packet_header ntp_mem 76 igmp_module = Some (r, m') \<and> windows_ok ntp_mem (ds_packet m')
    \<and> (pk_payload_packet_len (ds_packet m') \<noteq> 0
        \<longrightarrow> pk_payload (ds_packet m') + unat (pk_payload_packet_len (ds_packet m')) \<le> 1076)"
  using headers_inside_packet [of ntp_mem 1000 76 igmp_module] ntp_readable ntp_sized by (fastforce simp: igmp_module_def)

text \<open>C30: An IP packet of 20 bytes whose total length is below 20 and whose protocol is TCP makes the parser read a TCP
  header behind the end of the packet: the length of the segment is computed in 16 bits and wraps around.\<close>

theorem short_total_length_overread:
  assumes "length bs = 20" "bs ! 0 = 0x45" "bs ! 2 = 0" "bs ! 3 < 20" "bs ! 6 = 0" "bs ! 7 = 0" "bs ! 9 = 6"
    and "pk_iph (ds_packet m) = p"
  shows "ipq_init_packet_header (mem_of p bs) 20 m = None"
  by (rule short_total_length [OF assms])

theorem short_total_length_overread_witness:
  "ipq_init_packet_header (mem_of 1000 [0x45, 0, 0, 0, 0, 0, 0, 0, 64, 6, 0, 0, 10, 0, 0, 1, 10, 0, 0, 2]) 20 igmp_module = None"
  by (rule short_total_length_overread) (simp_all add: igmp_module_def)

text \<open>C12: A TCP segment with payload that starts at the expected sequence number, or ahead of it by at most the window,
  moves the expected number of its direction to its end and leaves the other direction and the retransmission mark alone;
  a segment that starts \<open>d\<close> bytes behind is marked as a retransmission, and exactly the \<open>d\<close> bytes seen before are counted as
  retried, or nothing changes if it brings nothing new. All of this modulo 2 to the 32.\<close>

theorem tcp_segments_tracked:
  assumes "fl_next_tcp_seq_nr fl \<noteq> (0, 0)" "0 < pk_payload_packet_len pk"
    and "nx = dir_get (pk_packet_direction pk) (fl_next_tcp_seq_nr fl)"
    and "moved = (\<lambda>seq. dir_set (pk_packet_direction pk) (seq + ucast (pk_payload_packet_len pk)) (fl_next_tcp_seq_nr fl))"
  shows "(seq - nx \<le> window \<longrightarrow>
      track_tcp window seq ack False pk fl = (pk\<lparr>pk_num_retried_bytes := 0\<rparr>, fl\<lparr>fl_next_tcp_seq_nr := moved seq\<rparr>))
    \<and> (\<forall>d. 0 < d \<and> d < 2 ^ 32 - unat window \<longrightarrow>
      (case track_tcp window (nx - of_nat d) ack False pk fl of (pk', fl') \<Rightarrow>
         pk_tcp_retransmission pk'
         \<and> (if d < unat (pk_payload_packet_len pk)
            then unat (pk_num_retried_bytes pk') = d \<and> unat (pk_actual_payload_len pk') = unat (pk_payload_packet_len pk) - d
              \<and> fl_next_tcp_seq_nr fl' = moved (nx - of_nat d)
            else pk_num_retried_bytes pk' = 0 \<and> fl' = fl)))"
proof (intro conjI allI impI)
  show "track_tcp window seq ack False pk fl = (pk\<lparr>pk_num_retried_bytes := 0\<rparr>, fl\<lparr>fl_next_tcp_seq_nr := moved seq\<rparr>)"
    if "seq - nx \<le> window"
    using track_forward [OF assms(1,2)] that by (simp add: assms(3,4))
next
  fix d :: nat
  assume d: "0 < d \<and> d < 2 ^ 32 - unat window"
  obtain pk' fl' where t: "track_tcp window (nx - of_nat d) ack False pk fl = (pk', fl')" by fastforce
  note b = track_behind [OF assms(1,2) conjunct1 [OF d] conjunct2 [OF d] _ t, unfolded assms(3)]
  show "case track_tcp window (nx - of_nat d) ack False pk fl of (pk', fl') \<Rightarrow>
         pk_tcp_retransmission pk'
         \<and> (if d < unat (pk_payload_packet_len pk)
            then unat (pk_num_retried_bytes pk') = d \<and> unat (pk_actual_payload_len pk') = unat (pk_payload_packet_len pk) - d
              \<and> fl_next_tcp_seq_nr fl' = moved (nx - of_nat d)
            else pk_num_retried_bytes pk' = 0 \<and> fl' = fl)"
    unfolding t prod.case using b by (simp add: assms(3,4))
qed

theorem tcp_segments_tracked_witness:
  "(case track_tcp 0x10000 5 9 False (zero_packet\<lparr>pk_payload_packet_len := 20\<rparr>) (zero_flow\<lparr>fl_next_tcp_seq_nr := (13, 0)\<rparr>) of
     (pk', fl') \<Rightarrow> unat (pk_num_retried_bytes pk') = 8 \<and> fl_next_tcp_seq_nr fl' = (25, 0))"
  using tcp_segments_tracked [of "zero_flow\<lparr>fl_next_tcp_seq_nr := (13, 0)\<rparr>" "zero_packet\<lparr>pk_payload_packet_len := 20\<rparr>"
    13 "\<lambda>seq. (seq + 20, 0)" 13 "0x10000" 9]
  by (auto simp: zero_packet_def dir_get_def dir_set_def dest: spec [of _ 8] split: prod.splits)

text \<open>The packet counters of a flow saturate: counting a packet raises them by one if it has payload and they are below
  65000, never lets them pass that bound, and touches the counter of no other direction.\<close>

lemma counters_saturate:
  assumes "flow_ok fl" "d = pk_packet_direction pk"
  shows "flow_ok (count_packet pk fl)
    \<and> unat (fl_packet_counter (count_packet pk fl))
       = (if pk_payload_packet_len pk = 0 then unat (fl_packet_counter fl) else min 65000 (unat (fl_packet_counter fl) + 1))
    \<and> dir_get (\<not> d) (fl_packet_direction_counter (count_packet pk fl)) = dir_get (\<not> d) (fl_packet_direction_counter fl)"
proof -
  have "unat (count_up b c) = (if b then min 65000 (unat c + 1) else unat c)" if "c \<le> MAX_PACKET_COUNTER" for b c
  proof (cases "c < MAX_PACKET_COUNTER")
    case True
    then have "unat c < 65000" by (simp add: word_less_nat_alt)
    then show ?thesis using u16_add_1 [of c] True by (simp add: count_up_def)
  next
    case False
    then have "c = MAX_PACKET_COUNTER" using that by simp
    then show ?thesis by (simp add: count_up_def)
  qed
  then have "unat (fl_packet_counter (count_packet pk fl))
      = (if pk_payload_packet_len pk = 0 then unat (fl_packet_counter fl) else min 65000 (unat (fl_packet_counter fl) + 1))"
    using assms(1) by (simp add: count_packet_def Let_def flow_ok_def)
  then show ?thesis using count_packet_ok [OF assms(1), of pk] assms(2) by (simp add: count_packet_def Let_def)
qed

lemma counters_saturate_witness:
  "unat (fl_packet_counter (count_packet (zero_packet\<lparr>pk_payload_packet_len := 9\<rparr>) (zero_flow\<lparr>fl_packet_counter := 65000\<rparr>))) = 65000"
  using counters_saturate [of "zero_flow\<lparr>fl_packet_counter := 65000\<rparr>" False "zero_packet\<lparr>pk_payload_packet_len := 9\<rparr>"]
  by (simp add: flow_ok_def zero_flow_def zero_packet_def dir_get_def)

subsection \<open>Lines\<close>

text \<open>The specification of the lines cuts the payload at the separators and loses nothing.\<close>

lemma prepend_join:
  "concat (List.map (\<lambda>l. l @ sep) (fst (prepend_byte x p))) @ snd (prepend_byte x p)
    = x # concat (List.map (\<lambda>l. l @ sep) (fst p)) @ snd p"
  by (cases "(x, p)" rule: prepend_byte.cases) auto

lemma split_crlf_join: "concat (List.map (\<lambda>l. l @ [0x0d, 0x0a]) (fst (split_crlf bs))) @ snd (split_crlf bs) = bs"
proof (induction bs rule: split_crlf.induct)
  case (1 x y bs)
  show ?case
  proof (cases "x = 0x0d \<and> y = 0x0a")
    case True
    then show ?thesis using 1(1) by (simp add: case_prod_beta)
  next
    case False
    then show ?thesis using 1(2) by (auto simp: prepend_join)
  qed
qed auto

lemma split_lf_join: "concat (List.map (\<lambda>l. l @ [0x0a]) (fst (split_lf bs))) @ snd (split_lf bs) = bs"
  by (induction bs) (auto simp: case_prod_beta prepend_join)

text \<open>C13: \<^verbatim>\<open>ipq_parse_packet_line_info\<close> reports exactly the lines of the payload between the CR LF separators, and the rest
  after the last separator if there is one, up to the first 199 of them, wherever the separators are.\<close>

theorem crlf_lines_reported:
  assumes "holds M (pk_payload pk) (concat (List.map (\<lambda>l. l @ [0x0d, 0x0a]) ls) @ r)" "(ls, r) = split_crlf bs"
    and "unat (pk_payload_packet_len pk) = length bs"
    and "length (pk_line pk) = IPOQUE_MAX_PARSE_LINES_PER_PACKET" "\<not> pk_packet_lines_parsed_complete pk"
  shows "\<exists>pk'. ipq_parse_packet_line_info M pk = Some pk'
    \<and> reported M pk' (if length ls \<le> 199 then (if ls \<noteq> [] \<and> r \<noteq> [] then ls @ [r] else ls) else take 199 ls)"
proof -
  have bs: "concat (List.map (\<lambda>l. l @ [0x0d, 0x0a]) ls) @ r = bs" using split_crlf_join [of bs] by (simp flip: assms(2))
  obtain pk' where "ipq_parse_packet_line_info M pk = Some pk'"
    "reported M pk' (if length (fst (split_crlf bs)) \<le> 199 then crlf_lines bs else take 199 (fst (split_crlf bs)))"
    by (rule parse_lines_ok [OF assms(1) [unfolded bs] assms(3-5)])
  then show ?thesis by (auto simp: crlf_lines_def simp flip: assms(2))
qed

theorem crlf_lines_reported_witness:
  "\<exists>pk'. ipq_parse_packet_line_info (mem_of 50 [0x47, 0x0d, 0x0a, 0x48]) (zero_packet\<lparr>pk_payload := 50, pk_payload_packet_len := 4\<rparr>) = Some pk'
     \<and> reported (mem_of 50 [0x47, 0x0d, 0x0a, 0x48]) pk' [[0x47], [0x48]]"
  using crlf_lines_reported [of "mem_of 50 [0x47, 0x0d, 0x0a, 0x48]" "zero_packet\<lparr>pk_payload := 50, pk_payload_packet_len := 4\<rparr>"
    "[[0x47]]" "[0x48]" "[0x47, 0x0d, 0x0a, 0x48]"] holds_mem_of [of 50 "[0x47, 0x0d, 0x0a, 0x48]"]
  by (simp add: zero_packet_def)

text \<open>C24: \<^verbatim>\<open>ipq_parse_packet_line_info_unix\<close> reports exactly the lines that end with LF, up to the first 199, and never
  the rest after the last LF.\<close>

theorem unix_lines_reported:
  assumes "holds M (pk_payload pk) (concat (List.map (\<lambda>l. l @ [0x0a]) ls) @ r)" "(ls, r) = split_lf bs"
    and "unat (pk_payload_packet_len pk) = length bs"
    and "length (pk_unix_line pk) = IPOQUE_MAX_PARSE_LINES_PER_PACKET" "\<not> pk_packet_unix_lines_parsed_complete pk"
  shows "\<exists>pk'. ipq_parse_packet_line_info_unix M pk = Some pk' \<and> ureported M pk' (take 199 ls)"
proof -
  have bs: "concat (List.map (\<lambda>l. l @ [0x0a]) ls) @ r = bs" using split_lf_join [of bs] by (simp flip: assms(2))
  obtain pk' where "ipq_parse_packet_line_info_unix M pk = Some pk'" "ureported M pk' (take 199 (fst (split_lf bs)))"
    by (rule parse_unix_ok [OF assms(1) [unfolded bs] assms(3-5)])
  then show ?thesis by (auto simp flip: assms(2))
qed

theorem unix_lines_reported_witness:
  "\<exists>pk'. ipq_parse_packet_line_info_unix (mem_of 50 [0x47, 0x0a, 0x48]) (zero_packet\<lparr>pk_payload := 50, pk_payload_packet_len := 3\<rparr>) = Some pk'
     \<and> ureported (mem_of 50 [0x47, 0x0a, 0x48]) pk' [[0x47]]"
  using unix_lines_reported [of "mem_of 50 [0x47, 0x0a, 0x48]" "zero_packet\<lparr>pk_payload := 50, pk_payload_packet_len := 3\<rparr>"
    "[[0x47]]" "[0x48]" "[0x47, 0x0a, 0x48]"] holds_mem_of [of 50 "[0x47, 0x0a, 0x48]"]
  by (simp add: zero_packet_def)

text \<open>C31: The parser does not reset \<^verbatim>\<open>referer_line\<close>: after a packet without a Referer line the module still holds the
  pointer into an earlier packet, which \<^verbatim>\<open>ipoque_search_veohtv_tcp\<close> then follows.\<close>

theorem referer_line_dangles:
  assumes "no_referer M" "readable M (pk_payload pk) (unat (pk_payload_packet_len pk))"
    and "length (pk_line pk) = IPOQUE_MAX_PARSE_LINES_PER_PACKET" "\<not> pk_packet_lines_parsed_complete pk"
  shows "\<exists>pk'. ipq_parse_packet_line_info M pk = Some pk' \<and> pk_packet_lines_parsed_complete pk'
    \<and> pk_referer_line pk' = pk_referer_line pk"
proof -
  obtain pk' where "ipq_parse_packet_line_info M pk = Some pk'" "pk_packet_lines_parsed_complete pk'"
    "no_referer M \<longrightarrow> pk_referer_line pk' = pk_referer_line pk"
    using parse_lines_total [OF assms(2,3)] assms(4) by blast
  then show ?thesis using assms(1) by blast
qed

theorem referer_line_dangles_witness:
  "\<exists>pk'. ipq_parse_packet_line_info (mem_of 50 [0x47, 0x0d, 0x0a, 0x48])
      (zero_packet\<lparr>pk_payload := 50, pk_payload_packet_len := 4, pk_referer_line := \<lparr>ol_ptr = 7000, ol_len = 40\<rparr>\<rparr>) = Some pk'
     \<and> pk_packet_lines_parsed_complete pk' \<and> pk_referer_line pk' = \<lparr>ol_ptr = 7000, ol_len = 40\<rparr>"
proof -
  let ?M = "mem_of 50 [0x47, 0x0d, 0x0a, 0x48]"
  have "mem_bytes ?M a 9 = None" for a
  proof (rule ccontr)
    assume "mem_bytes ?M a 9 \<noteq> None"
    then obtain bs where "length bs = 9" "holds ?M a bs" using mem_bytes_holds by blast
    then have "?M a \<noteq> None" "?M (a + 8) \<noteq> None" using holds_at [of ?M a bs 0] holds_at [of ?M a bs 8] by auto
    then show False by (auto simp: mem_of_def split: if_splits)
  qed
  moreover have "length ''Referer: '' = 9" by simp
  ultimately have "mem_eq ?M a ''Referer: '' = None" for a by (simp only: mem_eq_def bind.bind_lzero)
  then have "no_referer ?M" by (simp add: no_referer_def)
  moreover have "readable ?M 50 4" by (rule readable_mem_of) simp_all
  ultimately show ?thesis
    using referer_line_dangles [of ?M "zero_packet\<lparr>pk_payload := 50, pk_payload_packet_len := 4,
      pk_referer_line := \<lparr>ol_ptr = 7000, ol_len = 40\<rparr>\<rparr>"] by (simp add: zero_packet_def)
qed

subsection \<open>Numbers, addresses and mail\<close>

text \<open>C29: \<^verbatim>\<open>ipq_bytestream_to_number\<close> reads the longest run of digits within the bound, modulo 2 to the 32, and adds
  its length to the counter, provided a byte after the run may be read.\<close>

theorem to_number_reads_digits:
  assumes "holds M str bs" "length (digits (unat mc) bs) < length bs"
  shows "ipq_bytestream_to_number M str mc br
    = Some (of_nat (dec_val (digits (unat mc) bs)), br + of_nat (length (digits (unat mc) bs)))"
  by (rule to_number_ok [OF assms])

theorem to_number_reads_digits_witness: "ipq_bytestream_to_number (mem_of 50 [0x34, 0x32, 0x20]) 50 9 3 = Some (42, 5)"
  using to_number_reads_digits [of "mem_of 50 [0x34, 0x32, 0x20]" 50 "[0x34, 0x32, 0x20]" 9 3] holds_mem_of [of 50 "[0x34, 0x32, 0x20]"]
  by (simp add: digits_def is_digit_def dec_val_def)

text \<open>A number that fills the readable bytes up to the bound makes \<^verbatim>\<open>ipq_bytestream_to_number\<close> read one byte more:
  the loop looks at the character before it tests the bound.\<close>

lemma to_number_overread:
  assumes "holds M str bs" "\<forall>c\<in>set bs. is_digit c" "unat mc = length bs" "M (str + length bs) = None"
  shows "ipq_bytestream_to_number M str mc br = None"
  using number_loop_overread [OF assms(1,2,4)] by (simp add: ipq_bytestream_to_number_def assms(3))

lemma to_number_overread_witness: "ipq_bytestream_to_number (mem_of 50 [0x34, 0x32]) 50 2 0 = None"
  by (rule to_number_overread [of _ _ "[0x34, 0x32]"]) (simp_all add: holds_mem_of is_digit_def mem_of_def)

text \<open>The readers for decimal or hexadecimal numbers return 0 after one byte for every number with the prefix 0x.\<close>

lemma hex_numbers_read_as_zero:
  assumes "has_hex_prefix M str mc = Some True" "mc \<le> 65533"
  shows "ipq_bytestream_dec_or_hex_to_number M str mc br = Some (0, br + 1)
    \<and> ipq_bytestream_dec_or_hex_to_number64 M str mc br = Some (0, br + 1)"
  using hex_reader_zero [OF assms, of br] by blast

lemma hex_numbers_read_as_zero_witness:
  "ipq_bytestream_dec_or_hex_to_number (mem_of 50 [0x30, 0x78, 0x31, 0x46, 0x20]) 50 5 0 = Some (0, 1)"
  using hex_numbers_read_as_zero [of "mem_of 50 [0x30, 0x78, 0x31, 0x46, 0x20]" 50 5 0]
  by (simp add: has_hex_prefix_def mem_of_def)

text \<open>C21: \<^verbatim>\<open>ipq_bytestream_to_ipv4\<close> reads back every address printed in dotted decimal and followed by a character that is
  not a digit; a component is checked only after it has wrapped around, so that any component is accepted that is below 256
  modulo 2 to the 32.\<close>

theorem ipv4_roundtrip:
  assumes "a mod 4294967296 < 256" "b mod 4294967296 < 256" "c mod 4294967296 < 256" "d mod 4294967296 < 256"
    and "\<not> is_digit t" "holds M str (dotted a b c d @ [t])" "length (dotted a b c d) < unat mc"
  shows "ipq_bytestream_to_ipv4 M str mc br =
    Some (bswap32 (push_bit 24 (of_nat a) + push_bit 16 (of_nat b) + push_bit 8 (of_nat c) + of_nat d),
          br + of_nat (length (dotted a b c d)))"
  by (rule to_ipv4_dotted [OF assms])

theorem ipv4_roundtrip_witness:
  "(\<exists>n. ipq_bytestream_to_ipv4 (mem_of 50 (dotted 10 0 0 4294967297 @ [0x20])) 50 40 0 = Some (bswap32 0x0A000001, n))"
proof -
  have len: "length (dec_bytes n) = (if n < 10 then 1 else Suc (length (dec_bytes (n div 10))))" for n
    by (subst dec_bytes.simps) simp
  have l: "length (dotted 10 0 0 4294967297) < unat (40 :: u16)" by (simp add: dotted_def len)
  have t: "\<not> is_digit 0x20" by (simp add: is_digit_def)
  have "ipq_bytestream_to_ipv4 (mem_of 50 (dotted 10 0 0 4294967297 @ [0x20])) 50 40 0 =
      Some (bswap32 (push_bit 24 (of_nat 10) + push_bit 16 (of_nat 0) + push_bit 8 (of_nat 0) + of_nat 4294967297),
        0 + of_nat (length (dotted 10 0 0 4294967297)))"
    by (rule ipv4_roundtrip [OF _ _ _ _ t holds_mem_of l]) simp_all
  moreover have "push_bit 24 (of_nat 10) + push_bit 16 (of_nat 0) + push_bit 8 (of_nat 0) + of_nat 4294967297 = (0x0A000001 :: u32)"
    by (simp add: word_uint_eq_iff)
  ultimately show ?thesis by (metis (no_types))
qed

text \<open>C16: \<^verbatim>\<open>ipoque_check_for_email_address\<close> terminates on every payload and accepts, at every position, exactly the
  addresses of the grammar \<open>email_at\<close>, and returns the position of the blank or semicolon behind them.\<close>

theorem email_grammar:
  assumes "holds M (pk_payload pk) bs" "unat (pk_payload_packet_len pk) = length bs"
  shows "\<exists>r. ipoque_check_for_email_address M pk k = Some r \<and> (\<forall>e. email_at bs (unat k) e \<longleftrightarrow> e = unat r \<and> r \<noteq> 0)"
  by (rule email_address_ok [OF assms, of k]) blast

theorem email_grammar_witness:
  "\<exists>r. ipoque_check_for_email_address (mem_of 50 (lit ''ab@c.de '')) (zero_packet\<lparr>pk_payload := 50, pk_payload_packet_len := 8\<rparr>) 0 = Some r
     \<and> (\<forall>e. email_at (lit ''ab@c.de '') 0 e \<longleftrightarrow> e = unat r \<and> r \<noteq> 0)"
  using email_grammar [of "mem_of 50 (lit ''ab@c.de '')" "zero_packet\<lparr>pk_payload := 50, pk_payload_packet_len := 8\<rparr>" "lit ''ab@c.de ''" 0]
    holds_mem_of [of 50 "lit ''ab@c.de ''"] by simp

subsection \<open>Dissectors and their registration\<close>




text \<open>The entry for PPLIVE is registered without PPLIVE in its detection bitmask, because the block saves UNKNOWN after it
  has added PPLIVE: the dissector never runs on a flow detected as PPLIVE.\<close>

lemma pplive_not_rechecked:
  assumes "e \<in> set (registered dbm)" "cf_func e = ''ipoque_search_pplive_tcp_udp''"
  shows "bm_set (cf_detection e) = {IPOQUE_PROTOCOL_UNKNOWN}
    \<and> \<not> IPOQUE_BITMASK_COMPARE (cf_detection e) (IPOQUE_SAVE_AS_BITMASK IPOQUE_PROTOCOL_PPLIVE)"
  using pplive_entry [OF assms] bm.meets_law bm.single_law [of IPOQUE_PROTOCOL_PPLIVE] by simp

lemma pplive_not_rechecked_witness:
  "\<exists>e\<in>set (registered IPOQUE_BITMASK_SET_ALL). cf_func e = ''ipoque_search_pplive_tcp_udp''
     \<and> bm_set (cf_detection e) = {IPOQUE_PROTOCOL_UNKNOWN}"
proof -
  have "list_ex (\<lambda>b. rb_func b = ''ipoque_search_pplive_tcp_udp'' \<and> rb_enabled IPOQUE_BITMASK_SET_ALL b) reg_blocks"
    by (simp add: reg_blocks_defs rb_enabled_def IPOQUE_COMPARE_PROTOCOL_TO_BITMASK_def bm_word_def bm_bit_def
        IPOQUE_BITMASK_SET_ALL_def)
  then obtain b where b: "b \<in> set reg_blocks" "rb_func b = ''ipoque_search_pplive_tcp_udp''" "rb_enabled IPOQUE_BITMASK_SET_ALL b"
    by (auto simp: list_ex_iff)
  then have "block_entry b \<in> set (registered IPOQUE_BITMASK_SET_ALL)" by (simp add: registered_def)
  moreover have "cf_func (block_entry b) = ''ipoque_search_pplive_tcp_udp''" using b(2) by (simp add: block_entry_def rb_fill_def)
  ultimately show ?thesis using pplive_not_rechecked by blast
qed

end
