(* ===== verification/Ipq_Irc_Search.thy ===== *)
theory Ipq_Irc_Search
  imports Ipq_Irc
begin

text \<open>
  \<^verbatim>\<open>ipoque_search_irc_tcp\<close>: hosts known by the ports of file transfers, names in certificates, the lengths of packets, commands
  at the start of lines, and the ports announced in private messages. A packet whose lines end with LF alone has its lines
  copied from the array of one parser into that of the other. Ports are kept as the numbers they stand for. The offset into
  a line is a number: a segment of at most 65495 bytes does not wrap a 16-bit offset around.
\<close>

subsection \<open>Ports of file transfers\<close>

definition irc_time_field :: "nat \<Rightarrow> string" where
  "irc_time_field i = ''last_time_port_used'' @ [char_of (48 + i)]"

text \<open>\<^verbatim>\<open>IPOQUE_IRC_FIND_LESS\<close>: the first of the least times.\<close>

fun find_less :: "nat list \<Rightarrow> nat \<Rightarrow> nat \<Rightarrow> nat \<Rightarrow> nat" where
  "find_less [] t1 timestamp best = best"
| "find_less (t # ts) t1 timestamp best =
     (if t < timestamp then find_less ts (t1 + 1) t t1 else find_less ts (t1 + 1) timestamp best)"

definition irc_oldest :: "addr \<Rightarrow> detection_module \<Rightarrow> nat option" where
  "irc_oldest a m =
     do { i \<leftarrow> ds_ids m a;
          let ts = List.map (\<lambda>k. id_field i (irc_time_field k)) [0..<16] in Some (find_less ts 0 (ts ! 0) 0) }"

definition irc_note_port :: "addr \<Rightarrow> nat \<Rightarrow> detection_module \<Rightarrow> detection_module option" where
  "irc_note_port a port m =
     do { n \<leftarrow> get_id_field a ''irc_number_of_port'' m;
          if port = 0 \<or> 16 < n then Some m
          else do { known \<leftarrow> ipoque_is_duplicate a port m;
                    m \<leftarrow> (if known then Some m
                         else if n < 16
                         then do { m \<leftarrow> note_id a (irc_port_field n) port m; note_id a ''irc_number_of_port'' (n + 1) m }
                         else do { k \<leftarrow> irc_oldest a m; note_id a (irc_port_field k) port m });
                    note_id a ''irc_ts'' (unat (now m)) m } }"

lemma any_index_Some:
  "(\<And>j. i \<le> j \<Longrightarrow> j < n \<Longrightarrow> P j = Some (Q j)) \<Longrightarrow> any_index P i n = Some (\<exists>j\<in>{i..<n}. Q j)"
proof (induction "n - i" arbitrary: i)
  case (Suc k)
  then have i: "{i..<n} = insert i {i + 1..<n}" "any_index P (i + 1) n = Some (\<exists>j\<in>{i + 1..<n}. Q j)" by auto
  then show ?case using Suc.hyps(2) Suc.prems [of i]
    unfolding any_index_def by (subst first_index.simps) (auto simp: any_index_def)
qed (simp add: any_index_def first_index.simps)

text \<open>The ports a host has noted, at most 16 and each once; the oldest of 16 gives way to a new one.\<close>

definition irc_ports :: "id_struct \<Rightarrow> nat list" where
  "irc_ports i = List.map (\<lambda>k. id_field i (irc_port_field k)) [0..<id_field i ''irc_number_of_port'']"

definition irc_times :: "id_struct \<Rightarrow> nat list" where
  "irc_times i = List.map (\<lambda>k. id_field i (irc_time_field k)) [0..<16]"

lemma irc_port_field_inj: "i < 16 \<Longrightarrow> j < 16 \<Longrightarrow> irc_port_field i = irc_port_field j \<longleftrightarrow> i = j"
  by (auto simp: irc_port_field_def char_of_eq_iff take_bit_eq_mod of_char_of)

lemma irc_port_field_apart [simp]: "irc_port_field i \<noteq> ''irc_number_of_port''" "irc_port_field i \<noteq> ''irc_ts''"
  by (simp_all add: irc_port_field_def)

lemma find_less_min:
  "find_less ts k t b = b \<and> (\<forall>x\<in>set ts. t \<le> x)
     \<or> (\<exists>i<length ts. find_less ts k t b = k + i \<and> ts ! i < t \<and> (\<forall>x\<in>set ts. ts ! i \<le> x))"
proof (induction ts k t b rule: find_less.induct)
  case (2 u ts k t b)
  show ?case
  proof (cases "u < t")
    case True
    with "2.IH"(1) consider "find_less ts (k + 1) u k = k" "\<forall>x\<in>set ts. u \<le> x"
      | i where "i < length ts" "find_less ts (k + 1) u k = k + 1 + i" "ts ! i < u" "\<forall>x\<in>set ts. ts ! i \<le> x" by blast
    then show ?thesis
    proof cases
      case 1
      then show ?thesis using True by (intro disjI2 exI [of _ 0]) simp
    next
      case (2 i)
      then show ?thesis using True by (intro disjI2 exI [of _ "Suc i"]) auto
    qed
  next
    case False
    with "2.IH"(2) consider "find_less ts (k + 1) t b = b" "\<forall>x\<in>set ts. t \<le> x"
      | i where "i < length ts" "find_less ts (k + 1) t b = k + 1 + i" "ts ! i < t" "\<forall>x\<in>set ts. ts ! i \<le> x" by blast
    then show ?thesis
    proof cases
      case 1
      then show ?thesis using False by simp
    next
      case (2 i)
      then show ?thesis using False by (intro disjI2 exI [of _ "Suc i"]) auto
    qed
  qed
qed simp

lemma irc_oldest_min:
  assumes "ds_ids m a = Some i"
  obtains k where "irc_oldest a m = Some k" "k < 16" "\<forall>x\<in>set (irc_times i). irc_times i ! k \<le> x"
proof -
  have "length (irc_times i) = 16" by (simp add: irc_times_def)
  then show thesis
    using find_less_min [of "irc_times i" 0 "irc_times i ! 0" 0] assms that [of "find_less (irc_times i) 0 (irc_times i ! 0) 0"]
    by (auto simp: irc_oldest_def irc_times_def Let_def)
qed

lemma is_duplicate_ports:
  assumes "ds_ids m a = Some i"
  shows "ipoque_is_duplicate a port m = Some (port \<in> set (irc_ports i))"
proof -
  have "any_index (\<lambda>k. do { p \<leftarrow> get_id_field a (irc_port_field k) m; Some (port = p) }) j n
      = Some (\<exists>k\<in>{j..<n}. port = id_field i (irc_port_field k))" for j n
    by (rule any_index_Some) (simp add: get_id_field_def assms)
  then show ?thesis by (auto simp: ipoque_is_duplicate_def get_id_field_def assms irc_ports_def)
qed

lemma length_irc_ports: "length (irc_ports i) = id_field i ''irc_number_of_port''"
  by (simp add: irc_ports_def)

lemma irc_ports_ts: "irc_ports (i\<lparr>id_field := (id_field i)(''irc_ts'' := v)\<rparr>) = irc_ports i"
proof -
  have "irc_port_field j \<noteq> ''irc_ts''" for j by simp
  then show ?thesis by (simp add: irc_ports_def del: irc_port_field_apart)
qed

lemma irc_ports_update:
  assumes "k < 16" "length (irc_ports i) \<le> 16"
  shows "irc_ports (i\<lparr>id_field := (id_field i)(irc_port_field k := p)\<rparr>) = (irc_ports i)[k := p]"
proof (rule nth_equalityI)
  let ?i = "i\<lparr>id_field := (id_field i)(irc_port_field k := p)\<rparr>"
  have n: "id_field ?i ''irc_number_of_port'' = id_field i ''irc_number_of_port''"
    using irc_port_field_apart(1) [of k, symmetric] by simp
  then show "length (irc_ports ?i) = length ((irc_ports i)[k := p])" by (simp add: length_irc_ports)
  fix j assume "j < length (irc_ports ?i)"
  then have "j < id_field i ''irc_number_of_port''" "j < 16" using n assms(2) by (simp_all add: length_irc_ports)
  then show "irc_ports ?i ! j = (irc_ports i)[k := p] ! j"
    using irc_port_field_inj [OF assms(1), of j] irc_port_field_apart(1) [of k, symmetric]
    by (cases "j = k") (simp_all add: irc_ports_def del: irc_port_field_apart)
qed

lemma irc_note_port_lru:
  assumes "ds_ids m a = Some i" "a \<noteq> NULL" "length (irc_ports i) \<le> 16" "distinct (irc_ports i)"
  obtains m' i' where "irc_note_port a port m = Some m'" "ds_ids m' = (ds_ids m)(a \<mapsto> i')" "length (irc_ports i') \<le> 16"
    "distinct (irc_ports i')" "port = 0 \<or> port \<in> set (irc_ports i) \<Longrightarrow> irc_ports i' = irc_ports i"
    "port \<noteq> 0 \<Longrightarrow> port \<notin> set (irc_ports i) \<Longrightarrow> length (irc_ports i) < 16 \<Longrightarrow> irc_ports i' = irc_ports i @ [port]"
    "port \<noteq> 0 \<Longrightarrow> port \<notin> set (irc_ports i) \<Longrightarrow> length (irc_ports i) = 16
       \<Longrightarrow> \<exists>k<16. irc_ports i' = (irc_ports i)[k := port] \<and> (\<forall>x\<in>set (irc_times i). irc_times i ! k \<le> x)"
proof (cases "port = 0")
  case True
  have "ds_ids m = (ds_ids m)(a \<mapsto> i)" using assms(1) by auto
  then show thesis using True assms by (intro that [of m i]) (simp_all add: irc_note_port_def get_id_field_def)
next
  case False
  let ?n = "id_field i ''irc_number_of_port''"
  have n: "length (irc_ports i) = ?n" "\<not> 16 < ?n" using length_irc_ports [of i] assms(3) by simp_all
  note dup = is_duplicate_ports [OF assms(1), of port]
  note note_simps = irc_note_port_def get_id_field_def note_id_def set_id_field_def
  let ?ts = "\<lambda>i. i\<lparr>id_field := (id_field i)(''irc_ts'' := unat (now m))\<rparr>"
  show thesis
  proof (cases "port \<in> set (irc_ports i)")
    case True
    then show thesis
      using False assms n dup
      by (intro that [of "m\<lparr>ds_ids := (ds_ids m)(a \<mapsto> ?ts i)\<rparr>" "?ts i"]) (simp_all add: note_simps irc_ports_ts)
  next
    case new: False
    show thesis
    proof (cases "?n < 16")
      case True
      let ?j = "i\<lparr>id_field := (id_field i)(irc_port_field ?n := port, ''irc_number_of_port'' := ?n + 1)\<rparr>"
      have "irc_ports ?j = irc_ports i @ [port]"
        using True by (auto simp: irc_ports_def irc_port_field_inj)
      then have j: "irc_ports (?ts ?j) = irc_ports i @ [port]" unfolding irc_ports_ts .
      then show thesis
        using False new True assms n dup
        by (intro that [of "m\<lparr>ds_ids := (ds_ids m)(a \<mapsto> ?ts ?j)\<rparr>" "?ts ?j"]) (simp_all add: note_simps j)
    next
      case full: False
      then have "?n = 16" using n by simp
      obtain k where k: "irc_oldest a m = Some k" "k < 16" "\<forall>x\<in>set (irc_times i). irc_times i ! k \<le> x"
        by (rule irc_oldest_min [OF assms(1)])
      let ?j = "i\<lparr>id_field := (id_field i)(irc_port_field k := port)\<rparr>"
      have j: "irc_ports (?ts ?j) = (irc_ports i)[k := port]"
        unfolding irc_ports_ts by (rule irc_ports_update [OF k(2) assms(3)])
      show thesis
        using False new full assms n dup k j
        by (intro that [of "m\<lparr>ds_ids := (ds_ids m)(a \<mapsto> ?ts ?j)\<rparr>" "?ts ?j"]) (auto simp: note_simps distinct_list_update)
    qed
  qed
qed

subsection \<open>Messages\<close>

text \<open>
  The arguments of a DCC message. Every letter, digit, dot and dash is also at least a blank, so that the loop runs to a control
  character. The count of blanks goes on from one message of the packet to the next.
\<close>

function irc_arguments ::
    "mem \<Rightarrow> addr \<Rightarrow> nat \<Rightarrow> nat \<Rightarrow> u8 \<Rightarrow> detection_module \<Rightarrow> (nat \<times> u8 \<times> detection_module) option" where
  "irc_arguments M p len j space m =
     (if j < len
      then do { x \<leftarrow> M (p + j);
                if x < 0x20 then Some (j, space, m)
                else let space = (if x = 0x20 then space + 1 else space) in
                  if space \<noteq> 3 then irc_arguments M p len (j + 1) space m
                  else let j = j + 1; number = ipq_bytestream_to_number M (p + j) (plen m - of_nat j) 0 in
                    do { m \<leftarrow> (if ds_src m = NULL then Some m
                              else do { (port, _) \<leftarrow> number; irc_note_port (ds_src m) (unat (ucast port :: u16)) m });
                         if ds_dst m \<noteq> NULL
                         then do { (port, k) \<leftarrow> number;
                                   m \<leftarrow> irc_note_port (ds_dst m) (unat (ucast port :: u16)) m;
                                   Some (j + unat k, space, m) }
                         else if ds_src m \<noteq> NULL then Some (j, space, m)
                         else irc_arguments M p len (j + 1) space m } }
      else Some (j, space, m))"
  by auto
termination by (relation "measure (\<lambda>(M, p, len, j, space, m). len - j)") auto

declare irc_arguments.simps [simp del]

lemma irc_arguments_forward: "irc_arguments M p len j space m = Some (j', space', m') \<Longrightarrow> j \<le> j'"
proof (induction "len - j" arbitrary: j space m rule: less_induct)
  case less
  show ?case
  proof (cases "j < len")
    case False
    then show ?thesis using less.prems by (simp add: irc_arguments.simps [of M p len j])
  next
    case True
    have later: "j \<le> j'" if "irc_arguments M p len k s n = Some (j', space', m')" "j < k" for k s n
    proof -
      have "k \<le> j'" by (rule less.hyps [OF _ that(1)]) (use True that(2) in linarith)
      then show ?thesis using that(2) by linarith
    qed
    show ?thesis
      using less.prems True unfolding irc_arguments.simps [of M p len j] Let_def
      by (auto split: if_splits bind_splits prod.splits dest: later [OF _ less_SucI [OF lessI]] later [OF _ lessI])
  qed
qed

definition irc_dcc_kind :: "mem \<Rightarrow> addr \<Rightarrow> bool option" where
  "irc_dcc_kind M a = anyM [mem_eq M a ''SEND '', mem_eq M a ''CHAT'', mem_eq M a ''chat'', mem_eq M a ''sslchat'', mem_eq M a ''TSEND'']"

function irc_privmsg :: "mem \<Rightarrow> addr \<Rightarrow> nat \<Rightarrow> nat \<Rightarrow> u8 \<Rightarrow> detection_module \<Rightarrow> (u8 \<times> detection_module) option" where
  "irc_privmsg M p len j space m =
     (if j + 9 < len
      then do { x \<leftarrow> M (p + j);
                if x \<noteq> 0x3a then irc_privmsg M p len (j + 1) space m
                else do { _ \<leftarrow> mem_eq M (p + (j + 1)) ''xdcc '';
                          dcc \<leftarrow> mem_eq M (p + (j + 2)) ''DCC '';
                          if \<not> dcc then irc_privmsg M p len (j + 3) space m
                          else do { kind \<leftarrow> irc_dcc_kind M (p + (j + 6));
                                    if \<not> kind then irc_privmsg M p len (j + 7) space m
                                    else do { r \<leftarrow> irc_arguments M p len (j + 10) space m;
                                              irc_privmsg M p len (fst r + 1) (fst (snd r)) (snd (snd r)) } } } }
      else Some (space, m))"
  by auto
termination
  by (relation "measure (\<lambda>(M, p, len, j, space, m). len - j)") (auto dest: irc_arguments_forward)

declare irc_privmsg.simps [simp del]

text \<open>
  The search for a message after the name of its sender. The comparison with the rest of the command has no effect, as the
  branch it guards is a log line: any word that begins with P is taken for the command.
\<close>

function irc_command :: "mem \<Rightarrow> addr \<Rightarrow> nat \<Rightarrow> nat \<Rightarrow> nat option option" where
  "irc_command M p len j =
     (if j + 9 < len
      then do { x \<leftarrow> M (p + j);
                if x = 0x20
                then do { y \<leftarrow> M (p + (j + 1));
                          if y = 0x50 then do { _ \<leftarrow> mem_eq M (p + (j + 2)) ''RIVMSG ''; Some (Some (j + 9)) }
                          else irc_command M p len (j + 2) }
                else irc_command M p len (j + 1) }
      else Some None)"
  by auto
termination by (relation "measure (\<lambda>(M, p, len, j). len - j)") auto

declare irc_command.simps [simp del]

text \<open>Notices are searched for announcements, with no effect but the reads.\<close>

definition irc_notice :: "mem \<Rightarrow> addr \<Rightarrow> nat \<Rightarrow> bool option" where
  "irc_notice M p len =
     allM [Some (6 < len), mem_eq M p ''NOTICE '',
           any_index (\<lambda>j. allM [byte_is M (p + j) ((=) 0x3a), anyM [mem_eq M (p + (j + 1)) ''DCC SEND '', mem_eq M (p + (j + 1)) ''DCC CHAT ''],
             Some False]) 7 (len - 8)]"

definition irc_line :: "mem \<Rightarrow> one_line \<Rightarrow> u8 \<Rightarrow> detection_module \<Rightarrow> (u8 \<times> detection_module) option" where
  "irc_line M l space m =
     (let p = ol_ptr l; len = unat (ol_len l) in
      do { _ \<leftarrow> irc_notice M p len;
           sender \<leftarrow> allM [Some (0 < plen m), byte_is M (pay m) ((=) 0x3a)];
           h \<leftarrow> (if sender then irc_command M p len 1 else Some None);
           case h of Some j \<Rightarrow> irc_privmsg M p len j space m
           | None \<Rightarrow> do { b \<leftarrow> allM [Some (7 < len), mem_eq M p ''PRIVMSG ''];
                          if b then irc_privmsg M p len 7 space m else Some (space, m) } })"

fun irc_messages :: "mem \<Rightarrow> one_line list \<Rightarrow> u8 \<Rightarrow> detection_module \<Rightarrow> detection_module option" where
  "irc_messages M [] space m = Some m"
| "irc_messages M (l # ls) space m = do { (space, m) \<leftarrow> irc_line M l space m; irc_messages M ls space m }"

subsection \<open>Which lines\<close>

text \<open>The lines that end with LF take the place of the lines of the other parser.\<close>

definition irc_copy_lines :: "mem \<Rightarrow> detection_module \<Rightarrow> detection_module option" where
  "irc_copy_lines M m =
     do { m \<leftarrow> parse_unix_lines M m;
          let pk = ds_packet m; n = unat (pk_parsed_unix_lines pk) in
          if n \<le> length (pk_line pk) \<and> n \<le> length (pk_unix_line pk)
          then Some (m\<lparr>ds_packet := pk\<lparr>pk_parsed_lines := pk_parsed_unix_lines pk,
                 pk_line := take n (pk_unix_line pk) @ drop n (pk_line pk)\<rparr>\<rparr>)
          else None }"

text \<open>The last byte but one; for a payload of one byte it lies before the payload.\<close>

definition irc_before_last :: "mem \<Rightarrow> detection_module \<Rightarrow> (u8 \<Rightarrow> bool) \<Rightarrow> bool option" where
  "irc_before_last M m P = byte_is M (pay m + unat (plen m) - 2) P"

definition irc_last :: "mem \<Rightarrow> detection_module \<Rightarrow> (u8 \<Rightarrow> bool) \<Rightarrow> bool option" where
  "irc_last M m P = byte_is M (pay m + unat (plen m) - 1) P"

definition irc_parse ::
    "mem \<Rightarrow> (detection_module \<Rightarrow> detection_module option) \<Rightarrow> (detection_module \<Rightarrow> detection_module option)
       \<Rightarrow> detection_module \<Rightarrow> detection_module option" where
  "irc_parse M parsed other m =
     branch (allM [irc_before_last M m ((\<noteq>) 0x0d), irc_last M m ((=) 0x0a)]) (do { m \<leftarrow> irc_copy_lines M m; parsed m })
    (branch (irc_before_last M m ((=) 0x0d)) (do { m \<leftarrow> parse_lines M m; parsed m }) (other m))"

subsection \<open>The search\<close>

abbreviation (input) "irc_add m \<equiv> ipoque_int_add_connection IPOQUE_PROTOCOL_IRC m"

definition irc_flow :: "detection_module \<Rightarrow> bool option" where
  "irc_flow m = do { fl \<leftarrow> ds_flow m; Some (fl_detected_protocol fl = of_nat IPOQUE_PROTOCOL_IRC) }"

text \<open>The label \<^verbatim>\<open>detected_irc\<close>.\<close>

definition irc_detected :: "mem \<Rightarrow> detection_module \<Rightarrow> detection_module option" where
  "irc_detected M m =
     branch (irc_flow m) (irc_parse M (\<lambda>m. irc_messages M (lines_of m) 0 m) Some m) (Some m)"

text \<open>Lines that start with a colon are counted in three bits.\<close>

fun irc_colons :: "mem \<Rightarrow> one_line list \<Rightarrow> detection_module \<Rightarrow> (detection_module \<times> bool) option" where
  "irc_colons M [] m = Some (m, False)"
| "irc_colons M (l # ls) m =
     do { x \<leftarrow> M (ol_ptr l);
          if x \<noteq> 0x3a then irc_colons M ls m
          else do { c \<leftarrow> get_stage ''irc_3a_counter'' m;
                    m \<leftarrow> set_stage ''irc_3a_counter'' ((c + 1) mod 8) m;
                    if (c + 1) mod 8 = 7 then Some (m, True) else irc_colons M ls m } }"

definition irc_count ::
    "mem \<Rightarrow> (detection_module \<Rightarrow> detection_module option) \<Rightarrow> detection_module \<Rightarrow> detection_module option" where
  "irc_count M next m =
     (let count = (\<lambda>m. do { (m, hit) \<leftarrow> irc_colons M (lines_of m) m;
                           c \<leftarrow> get_stage ''irc_3a_counter'' m;
                           if hit \<or> c = 7 then do { m \<leftarrow> irc_add m; irc_detected M m } else next m }) in
      irc_parse M count
        (\<lambda>m. do { c \<leftarrow> get_stage ''irc_3a_counter'' m; m \<leftarrow> set_stage ''irc_3a_counter'' ((c + 1) mod 8) m; count m }) m)"

definition irc_signal :: "mem \<Rightarrow> detection_module \<Rightarrow> bool option" where
  "irc_signal M m =
     (let starts = mem_eq M (pay m) in
      anyM [starts ''USER '', starts ''NICK '', starts ''PASS '', allM [starts '':'', ipq_check_for_NOTICE_or_PRIVMSG M m],
            starts ''PONG '', starts ''PING '', starts ''NOTICE '', starts ''PRIVMSG ''])"

definition irc_stage_up :: "detection_module \<Rightarrow> detection_module option" where
  "irc_stage_up m =
     do { s \<leftarrow> get_stage ''irc_stage'' m;
          if s = 2 then do { m \<leftarrow> irc_add m; set_stage ''irc_stage'' 3 m }
          else if s = 1 then set_stage ''irc_stage'' 2 m
          else if s = 0 then set_stage ''irc_stage'' 1 m
          else Some m }"

definition irc_two_words :: "mem \<Rightarrow> one_line list \<Rightarrow> bool option" where
  "irc_two_words M ls = anyM (List.map (\<lambda>l. allM [Some (4 < ol_len l), anyM [mem_eq M (ol_ptr l) ''NICK '', mem_eq M (ol_ptr l) ''USER '']]) (drop 1 ls))"

definition irc_signals :: "mem \<Rightarrow> detection_module \<Rightarrow> detection_module option" where
  "irc_signals M m =
     (let found = (\<lambda>m. do { m \<leftarrow> irc_add m; set_stage ''irc_stage'' 3 m });
          look = (\<lambda>ls m. branch (irc_two_words M ls) (found m) (irc_detected M m)) in
      branch (irc_signal M m)
        (do { m \<leftarrow> irc_stage_up m;
              branch (allM [irc_before_last M m ((=) 0x0d), irc_last M m ((=) 0x0a)]) (do { m \<leftarrow> parse_lines M m; look (lines_of m) m })
             (branch (irc_last M m ((=) 0x0a)) (do { m \<leftarrow> parse_unix_lines M m; look (unix_lines_of m) m }) (irc_detected M m)) })
        (irc_detected M m))"

definition irc_text :: "mem \<Rightarrow> detection_module \<Rightarrow> detection_module option" where
  "irc_text M m =
     branch (allM [notM (irc_flow m), counter_is m (\<lambda>c. c < 20), Some (8 \<le> plen m), irc_last M m ((=) 0x0a)])
       (branch (mem_eq M (pay m) '':'') (irc_count M (irc_signals M) m) (irc_signals M m))
       (irc_detected M m)"

definition irc_names :: "string list" where
  "irc_names = [''irc.hackthissite.org0'', ''irc.gamepad.ca1'', ''dungeon.axenet.org0'', ''dazed.nuggethaus.net'', ''irc.indymedia.org'',
     ''irc.cccp-project.net'', ''dirc.followell.net0'', ''irc.discostars.de1'', ''irc.rizon.net'']"

definition irc_certificate :: "mem \<Rightarrow> detection_module \<Rightarrow> bool option" where
  "irc_certificate M m =
     allM [notM (irc_flow m), counter_is m ((=) 2), Some (400 < plen m), Some (plen m < 1381),
           any_index (\<lambda>c. allM [byte_is M (pay m + c) (\<lambda>x. x = 0x69 \<or> x = 0x64), anyM (List.map (mem_eq M (pay m + c)) irc_names)])
             50 (unat (plen m) - 23)]"

definition irc_packets :: "mem \<Rightarrow> detection_module \<Rightarrow> detection_module option" where
  "irc_packets M m =
     do { m \<leftarrow> branch (irc_certificate M m) (irc_add m) (Some m);
          known \<leftarrow> irc_flow m;
          (m, stop) \<leftarrow> (if known then Some (m, False) else ipoque_search_irc_ssl_detect_ninty_percent_but_very_fast M m);
          if stop then Some m else irc_text M m }"

definition irc_transfer ::
    "mem \<Rightarrow> addr \<Rightarrow> (detection_module \<Rightarrow> detection_module option) \<Rightarrow> detection_module \<Rightarrow> detection_module option" where
  "irc_transfer M a next m =
     (let tcp = pk_tcp (ds_packet m) in
      if a = NULL then next m
      else do { n \<leftarrow> get_id_field a ''irc_number_of_port'' m;
                r \<leftarrow> first_index (\<lambda>i. do { p \<leftarrow> get_id_field a (irc_port_field i) m;
                       if tcp = NULL then Some (p = 0) else anyM [source_is M tcp (\<lambda>x. unat x = p), dest_is M tcp (\<lambda>x. unat x = p)] }) 0 n;
                case r of None \<Rightarrow> next m
                | Some i \<Rightarrow> do { m \<leftarrow> note_id a (irc_time_field i) (unat (now m)) m; irc_add m } })"

definition irc_recent :: "addr \<Rightarrow> detection_module \<Rightarrow> bool option" where
  "irc_recent a m = recent a ''irc_ts'' (ds_config m ''irc_timeout'') m"

definition irc_late :: "detection_module \<Rightarrow> bool option" where
  "irc_late m =
     allM [notM (irc_flow m),
           anyM [counter_is m (\<lambda>c. 70 < c), allM [counter_is m (\<lambda>c. 30 < c), do { s \<leftarrow> get_stage ''irc_stage2'' m; Some (s = 0) }]]]"

definition irc_renew :: "detection_module \<Rightarrow> detection_module option" where
  "irc_renew m =
     (let renew = (\<lambda>a. note_id a ''irc_ts'' (unat (now m)) m) in
      if detected IPOQUE_PROTOCOL_IRC m
      then branch (irc_recent (ds_src m) m) (renew (ds_src m)) (branch (irc_recent (ds_dst m) m) (renew (ds_dst m)) (Some m))
      else Some m)"

definition ipoque_search_irc_tcp :: "mem \<Rightarrow> detection_module \<Rightarrow> detection_module option" where
  "ipoque_search_irc_tcp M m =
     (let known = (\<lambda>a m. allM [id_has_protocol a IPOQUE_PROTOCOL_IRC m, irc_recent a m]) in
      branch (irc_late m) (exclude IPOQUE_PROTOCOL_IRC m)
        (do { m \<leftarrow> irc_renew m;
              branch (anyM [known (ds_dst m) m, known (ds_src m) m])
                (irc_transfer M (ds_dst m) (irc_transfer M (ds_src m) (irc_packets M)) m)
                (irc_packets M m) }))"

end
