(* ===== verification/Dissector_Properties.thy ===== *)
theory Dissector_Properties
  imports Dpi_Properties Ipq_Irc_Search
begin

text \<open>
  The properties of single dissectors: the table of download sites against a plain list, the dissectors that read behind the
  packet with the number of bytes that keeps them safe, the attribute loop that need not end, and the IRC detection that
  needs packets in both directions.
\<close>

subsection \<open>Download sites\<close>

text \<open>C17: The nested blocks that compare the end of a host with letters accept exactly the hosts that end with a blank or a
  dot and one of the sites of a list of 71 names: the shared endings lose no site and add none.\<close>

theorem ddl_sites_exact:
  assumes "holds M p h"
  shows "\<exists>r. ddl_match M p (length h) 0 ddl_rules = Some r
    \<and> (r = Some True \<longleftrightarrow> (\<exists>d\<in>set download_sites. \<exists>q c. h = q @ c # lit d \<and> (c = 0x20 \<or> c = 0x2e)))"
  using match_hit [OF assms refl, of 0 ddl_rules] hit_exact [OF rules_apart, of h] by (simp add: rules_sites site_at_def)

theorem ddl_sites_exact_witness:
  "ddl_match (mem_of 50 (lit ''www.rapidshare.com'')) 50 (length (lit ''www.rapidshare.com'')) 0 ddl_rules = Some (Some True)"
proof -
  have "lit ''www.rapidshare.com'' = lit ''www'' @ 0x2e # lit ''rapidshare.com''" by (simp add: lit_def)
  moreover have "''rapidshare.com'' \<in> set download_sites" by (simp add: download_sites_def)
  ultimately have "\<exists>d\<in>set download_sites. \<exists>q c. lit ''www.rapidshare.com'' = q @ c # lit d \<and> (c = 0x20 \<or> c = 0x2e)" by blast
  then show ?thesis using ddl_sites_exact [OF holds_mem_of, of 50 "lit ''www.rapidshare.com''"] by metis
qed

text \<open>No site ends with a dot or a blank and another site.\<close>

definition site_free :: "string \<Rightarrow> string \<Rightarrow> bool" where
  "site_free d e \<longleftrightarrow> \<not> suffix (CHR 0x20 # e) d \<and> \<not> suffix (CHR 0x2e # e) d"

lemma sites_free: "list_all (\<lambda>d. list_all (site_free d) download_sites) download_sites"
  by code_simp

lemma free_site_at: "site_free d e \<Longrightarrow> \<not> site_at (lit d) e"
proof
  assume f: "site_free d e" and s: "site_at (lit d) e"
  then obtain q c where q: "lit d = q @ c # lit e" "c = 0x20 \<or> c = 0x2e" by (auto simp: site_at_def)
  then have "suffix (lit (CHR 0x20 # e)) (lit d) \<or> suffix (lit (CHR 0x2e # e)) (lit d)" by (auto simp: suffix_def lit_def)
  then show False using f by (simp add: suffix_lit site_free_def)
qed

text \<open>A host that is one of the sites itself, with nothing before it, is never accepted: the byte before the site is
  compared, and the blank after the header's name is not part of the host.\<close>

lemma bare_site_missed:
  assumes "d \<in> set download_sites"
  shows "ddl_match (mem_of p (lit d)) p (length d) 0 ddl_rules \<noteq> Some (Some True)"
proof
  assume "ddl_match (mem_of p (lit d)) p (length d) 0 ddl_rules = Some (Some True)"
  then obtain e where e: "e \<in> set download_sites" "site_at (lit d) e"
    using match_hit [OF holds_mem_of refl, of 0 "lit d" p ddl_rules] hit_exact [OF rules_apart, of "lit d"]
    by (auto simp: rules_sites lit_def)
  then show False using assms sites_free free_site_at by (auto simp: list_all_iff)
qed

lemma bare_site_missed_witness:
  "ddl_match (mem_of 50 (lit ''rapidshare.com'')) 50 (length ''rapidshare.com'') 0 ddl_rules \<noteq> Some (Some True)"
  by (rule bare_site_missed) (simp add: download_sites_def)

subsection \<open>Reads behind the packet\<close>



text \<open>A UDP datagram and a TCP segment of an undecided flow, with the headers before the payload and nothing behind it.\<close>

definition packet_at :: "bytes \<Rightarrow> bytes \<Rightarrow> mem" where
  "packet_at header bs = mem_of 1000 (replicate 20 0 @ header @ bs)"

definition view_of :: "bool \<Rightarrow> u32 \<Rightarrow> flow_struct \<Rightarrow> bytes \<Rightarrow> detection_module" where
  "view_of is_tcp proto fl bs = full_module\<lparr>ds_packet := zero_packet\<lparr>pk_iph := 1000,
       pk_tcp := if is_tcp then 1020 else NULL, pk_udp := if is_tcp then NULL else 1020,
       pk_payload := if is_tcp then 1040 else 1028, pk_payload_packet_len := of_nat (length bs), pk_detected_protocol := proto\<rparr>,
     ds_flow := Some fl, ds_src := NULL, ds_dst := NULL, ds_config := (\<lambda>_. 0)\<rparr>"

lemma view_of [simp]:
  "pay (view_of is_tcp proto fl bs) = (if is_tcp then 1040 else 1028)"
  "plen (view_of is_tcp proto fl bs) = of_nat (length bs)"
  "pk_tcp (ds_packet (view_of is_tcp proto fl bs)) = (if is_tcp then 1020 else NULL)"
  "pk_udp (ds_packet (view_of is_tcp proto fl bs)) = (if is_tcp then NULL else 1020)"
  "pk_iph (ds_packet (view_of is_tcp proto fl bs)) = 1000"
  "pk_detected_protocol (ds_packet (view_of is_tcp proto fl bs)) = proto"
  "pk_packet_direction (ds_packet (view_of is_tcp proto fl bs)) = False"
  "pk_tcp_retransmission (ds_packet (view_of is_tcp proto fl bs)) = False"
  "ds_flow (view_of is_tcp proto fl bs) = Some fl"
  "ds_config (view_of is_tcp proto fl bs) = (\<lambda>_. 0)"
  "ds_src (view_of is_tcp proto fl bs) = NULL" "ds_dst (view_of is_tcp proto fl bs) = NULL"
  by (simp_all add: view_of_def zero_packet_def)

lemma view_of_ok:
  assumes "length header = (if is_tcp then 20 else 8)" "length bs < 65536" "unat proto < 128" "flow_ok fl" "unat (fl_detected_protocol fl) < 128"
  shows "view_ok (packet_at header bs) (view_of is_tcp proto fl bs)"
proof -
  have "readable (packet_at header bs) a n" if "1000 \<le> a" "a + n \<le> 1020 + length header + length bs" for a n
    unfolding packet_at_def using that by (intro readable_mem_of) simp_all
  then have "windows_ok (packet_at header bs) (ds_packet (view_of is_tcp proto fl bs))"
    using assms(1,2) by (auto simp: windows_ok_def unat_of_nat)
  then show ?thesis
    using assms by (simp add: view_ok_def packet_ok_def ids_ok_def protocols_ok_def)
      (simp add: view_of_def arrays_200_def zero_packet_def)
qed

definition iax_datagram :: bytes where
  "iax_datagram = [0x80, 0, 0, 0, 0, 0, 0, 0, 0, 0, 0x06, 1, 0]"

definition iax_ports :: bytes where
  "iax_ports = [0x11, 0xd9, 0x11, 0xd9, 0, 21, 0, 0]"


definition ack_segment :: bytes where
  "ack_segment = [0x20, 0, 0x30, 0, 0, 0, 0, 0, 0, 0, 0, 0, 0x50, 0x10, 0, 0, 0, 0, 0, 0]"

lemmas frame_simps = packet_at_def mem_of_def iax_ports_def iax_datagram_def ack_segment_def rd16be_def rd16le_def rd32be_def rd32le_def
  be_val_def port_is_def half_is_def lhalf_is_def word_is_def lword_is_def byte_is_def mem_eq_def lit_def nth_append

lemma none_excluded [simp]: "IPOQUE_COMPARE_PROTOCOL_TO_BITMASK (fl_excluded zero_flow) n = 0"
  by (simp add: IPOQUE_COMPARE_PROTOCOL_TO_BITMASK_def bm_word_def bm_bit_def zero_flow_def IPOQUE_BITMASK_RESET_def)



abbreviation (input) "staged f v \<equiv> zero_flow\<lparr>fl_stage := (\<lambda>_. 0)(f := v)\<rparr>"










subsection \<open>A loop that need not end\<close>

text \<open>C25: The loop of STUN over the attributes of a message advances a 16-bit offset by the length of each attribute. While no
  length wraps the offset around, the dissector returns; an attribute of length 0xfffc moves the offset by 65536, that is,
  not at all, and the dissector never returns, although each round of its loop reads the packet only.\<close>

theorem stun_returns_unless_wrapped:
  assumes "view_ok M m" "ds_flow m \<noteq> None"
  shows "((\<forall>a l. a + 4 \<le> unat (plen m) \<and> rd16be M (pay m + (a + 2)) = Some l \<longrightarrow> a + unat l + 4 < 65536)
       \<longrightarrow> (\<exists>m'. ipoque_search_stun_udp M m = Some m'))
    \<and> (stun_request M m = Some True \<and> stun_attribute M m 20 = Some True \<and> rd16be M (pay m + 22) = Some 0xfffc
       \<longrightarrow> ipoque_search_stun_udp M m = None)
    \<and> (\<forall>a. \<exists>r. stun_step M m a = Some r)"
proof (intro conjI impI allI)
  assume "\<forall>a l. a + 4 \<le> unat (plen m) \<and> rd16be M (pay m + (a + 2)) = Some l \<longrightarrow> a + unat l + 4 < 65536"
  then show "\<exists>m'. ipoque_search_stun_udp M m = Some m'" using stun_good [OF assms] by (auto simp: good_def)
next
  assume a: "stun_request M m = Some True \<and> stun_attribute M m 20 = Some True \<and> rd16be M (pay m + 22) = Some 0xfffc"
  then have "24 \<le> unat (plen m)" by (auto simp: stun_attribute_def Let_def split: if_splits)
  then have "stun_step M m 20 = Some (Inr 20)" "plen m \<noteq> 20"
    using a by (auto simp: stun_step_def word_less_nat_alt)
  then show "ipoque_search_stun_udp M m = None"
    using a stun_loop_stuck by (simp add: ipoque_search_stun_udp_def decide_def)
next
  show "\<exists>r. stun_step M m a = Some r" for a by (rule stun_step_total [OF assms(1)])
qed

definition stun_datagram :: bytes where
  "stun_datagram = [0, 1, 0, 4] @ replicate 16 0 @ [0, 1, 0xff, 0xfc]"

theorem stun_returns_unless_wrapped_witness:
  "ipoque_search_stun_udp (packet_at iax_ports stun_datagram) (view_of False 0 zero_flow stun_datagram) = None"
proof -
  let ?M = "packet_at iax_ports stun_datagram" and ?m = "view_of False 0 zero_flow stun_datagram"
  have "view_ok ?M ?m" by (rule view_of_ok) (simp_all add: iax_ports_def stun_datagram_def, simp_all add: zero_flow_def)
  moreover have "stun_request ?M ?m = Some True" "stun_attribute ?M ?m 20 = Some True" "rd16be ?M (pay ?m + 22) = Some 0xfffc"
    by (simp_all add: stun_request_def stun_attribute_def frame_simps stun_datagram_def)
  ultimately show ?thesis using stun_returns_unless_wrapped [of ?M ?m] by simp
qed

subsection \<open>Both directions\<close>

text \<open>C26: The detection of IRC by the lengths of packets needs both directions: however many packets of one direction a flow
  sees, the detected protocol stays what it was.\<close>

theorem irc_needs_both_directions:
  assumes "ds_flow m = Some fl" "fl_stage fl ''irc_direction'' \<in> {0, if dir then 2 else 1}"
    and "\<forall>p\<in>set ps. pk_packet_direction (snd p) = dir" "irc_run ps m = Some m'"
  shows "map_option fl_detected_protocol (ds_flow m') = map_option fl_detected_protocol (ds_flow m)"
  by (rule irc_run_one_way [OF _ assms(3,4)]) (use assms(1,2) in \<open>auto simp: one_way_def\<close>)

abbreviation (input) "irc_segment \<equiv> zero_packet\<lparr>pk_payload_packet_len := 1460\<rparr>"

theorem irc_needs_both_directions_witness:
  "\<exists>m'. irc_run [(Map.empty, irc_segment), (Map.empty, irc_segment)] (view_of True 0 zero_flow []) = Some m'
     \<and> map_option fl_detected_protocol (ds_flow m') = Some 0"
proof -
  have p: "pk_packet_direction zero_packet = False" by (simp add: zero_packet_def)
  have f: "fl_stage zero_flow f = 0" "fl_detected_protocol zero_flow = 0" for f by (simp_all add: zero_flow_def)
  obtain m' where m': "irc_run [(Map.empty, irc_segment), (Map.empty, irc_segment)] (view_of True 0 zero_flow []) = Some m'"
    by (simp add: ipoque_search_irc_ssl_detect_ninty_percent_but_very_fast_def get_stage_def set_stage_def irc_rules_def p f)
  then show ?thesis
    using irc_needs_both_directions [OF view_of(9) _ _ m', of False] by (simp add: p f)
qed

subsection \<open>Noted ports\<close>

text \<open>C27: A host of an IRC file transfer notes at most 16 ports, each once: a port that is noted already, or is 0, changes
  nothing, a new one is added at the end, and when 16 are noted it takes the place of one that was used least recently.\<close>

theorem irc_ports_lru:
  assumes "ds_ids m a = Some i" "a \<noteq> NULL" "length (irc_ports i) \<le> 16" "distinct (irc_ports i)"
  shows "\<exists>m' i'. irc_note_port a port m = Some m' \<and> ds_ids m' = (ds_ids m)(a \<mapsto> i')
     \<and> length (irc_ports i') \<le> 16 \<and> distinct (irc_ports i')
     \<and> (if port = 0 \<or> port \<in> set (irc_ports i) then irc_ports i' = irc_ports i
        else if length (irc_ports i) < 16 then irc_ports i' = irc_ports i @ [port]
        else \<exists>k<16. irc_ports i' = (irc_ports i)[k := port] \<and> (\<forall>x\<in>set (irc_times i). irc_times i ! k \<le> x))"
proof (rule irc_note_port_lru [OF assms, of port])
  fix m' i'
  assume "irc_note_port a port m = Some m'" "ds_ids m' = (ds_ids m)(a \<mapsto> i')" "length (irc_ports i') \<le> 16" "distinct (irc_ports i')"
    and "port = 0 \<or> port \<in> set (irc_ports i) \<Longrightarrow> irc_ports i' = irc_ports i"
    and "port \<noteq> 0 \<Longrightarrow> port \<notin> set (irc_ports i) \<Longrightarrow> length (irc_ports i) < 16 \<Longrightarrow> irc_ports i' = irc_ports i @ [port]"
    and "port \<noteq> 0 \<Longrightarrow> port \<notin> set (irc_ports i) \<Longrightarrow> length (irc_ports i) = 16
       \<Longrightarrow> \<exists>k<16. irc_ports i' = (irc_ports i)[k := port] \<and> (\<forall>x\<in>set (irc_times i). irc_times i ! k \<le> x)"
  moreover have "length (irc_ports i) < 16 \<or> length (irc_ports i) = 16" using assms(3) by linarith
  ultimately show ?thesis by (intro exI [of _ m'] exI [of _ i'] conjI) auto
qed

definition fresh_host :: id_struct where
  "fresh_host = \<lparr>id_detected = IPOQUE_BITMASK_RESET, id_field = (\<lambda>_. 0)\<rparr>"

theorem irc_ports_lru_witness:
  "\<exists>m' i'. irc_note_port 7 5000 (full_module\<lparr>ds_ids := [7 \<mapsto> fresh_host]\<rparr>) = Some m' \<and> ds_ids m' 7 = Some i' \<and> irc_ports i' = [5000]"
proof -
  have "irc_ports fresh_host = []" by (simp add: irc_ports_def fresh_host_def)
  then show ?thesis using irc_ports_lru [of "full_module\<lparr>ds_ids := [7 \<mapsto> fresh_host]\<rparr>" 7 fresh_host 5000] by fastforce
qed

end
